(* ===== verification/Prelude.thy ===== *)
theory Prelude
  imports Main "HOL-Library.Word" "HOL-Library.Sublist"
begin

text \<open>
  Shared vocabulary of the development: the fact collections the component theories extend,
  generic lemmas on lists and options, and the state-machine interface through which every
  stateful component lifts its one-step invariant to all reachable states.
\<close>

named_theorems ir_simps \<open>lookup and update facts of the IR node table\<close>
named_theorems cstr_simps \<open>facts about the C string routines\<close>
named_theorems sched_simps \<open>field and step facts of the scheduler\<close>

section \<open>Lists\<close>

lemma Cons_eq_drop: "i < length xs \<Longrightarrow> drop i xs = xs ! i # drop (Suc i) xs"
  by (simp add: Cons_nth_drop_Suc)

lemma distinct_list_update_fresh:
  "distinct xs \<Longrightarrow> y \<notin> set xs \<Longrightarrow> distinct (xs[i := y])"
  by (simp add: distinct_list_update)

lemma distinct_nth_eq:
  "distinct xs \<Longrightarrow> i < length xs \<Longrightarrow> j < length xs \<Longrightarrow> xs ! i = xs ! j \<Longrightarrow> i = j"
  by (simp add: nth_eq_iff_index_eq)

lemma set_update_distinct:
  assumes "distinct xs" "i < length xs"
  shows "set (xs[i := y]) = insert y (set xs - {xs ! i})"
  using assms by (rule set_update_distinct)

text \<open>First occurrences, in order: what a loop that skips already collected items leaves.\<close>

fun dedup :: "'a list \<Rightarrow> 'a list \<Rightarrow> 'a list" where
  "dedup seen [] = []"
| "dedup seen (x # xs) = (if x \<in> set seen then dedup seen xs else x # dedup (seen @ [x]) xs)"

lemma set_dedup: "set (dedup seen xs) = set xs - set seen"
  by (induction seen xs rule: dedup.induct) auto

lemma distinct_dedup: "distinct (dedup seen xs)"
  by (induction seen xs rule: dedup.induct) (auto simp: set_dedup)

lemma length_dedup_le: "length (dedup seen xs) \<le> length xs"
  by (induction seen xs rule: dedup.induct) auto

lemma dedup_distinct: "distinct xs \<Longrightarrow> set seen \<inter> set xs = {} \<Longrightarrow> dedup seen xs = xs"
  by (induction seen xs rule: dedup.induct) auto

section \<open>State machines\<close>

text \<open>
  The interface of a stateful component: initial states, one step, and a candidate invariant.
  A provider shows that the invariant holds initially and is kept by one step; a client gets it
  in every reachable state.
\<close>

locale state_machine =
  fixes init :: "'s \<Rightarrow> bool"
    and step :: "'s \<Rightarrow> 's \<Rightarrow> bool"
    and inv :: "'s \<Rightarrow> bool"
  assumes init_inv: "init s \<Longrightarrow> inv s"
    and step_inv: "inv s \<Longrightarrow> step s t \<Longrightarrow> inv t"
begin

lemma steps_inv: "step\<^sup>*\<^sup>* s t \<Longrightarrow> inv s \<Longrightarrow> inv t"
  by (induction rule: rtranclp_induct) (auto intro: step_inv)

lemma reachable_inv: "init s \<Longrightarrow> step\<^sup>*\<^sup>* s t \<Longrightarrow> inv t"
  by (blast intro: steps_inv init_inv)

end

end
