(* ===== verification/CStrings.thy ===== *)
theory CStrings
  imports Prelude
begin

text \<open>
  The parts of the C string library the sources call, on \<open>string\<close> (a list of bytes, without the
  terminating NUL): \<open>isspace\<close>, \<open>strchr\<close>, \<open>strstr\<close>, \<open>strncmp\<close> against a literal, \<open>strtok_r\<close>,
  \<open>fgets\<close>, \<open>sscanf\<close> of \<open>%u\<close> and \<open>%Ns\<close>, and \<open>printf\<close> of \<open>%u\<close>, \<open>%d\<close>, \<open>%lld\<close> and \<open>%08x\<close>.
\<close>

section \<open>Characters\<close>

definition newline :: char where "newline = CHR 0x0A"
definition carriage_return :: char where "carriage_return = CHR 0x0D"

definition isspace :: "char \<Rightarrow> bool" where
  "isspace c = (c \<in> {CHR '' '', CHR 0x09, CHR 0x0A, CHR 0x0B, CHR 0x0C, CHR 0x0D})"

definition isdigit :: "char \<Rightarrow> bool" where
  "isdigit c = (48 \<le> (of_char c :: nat) \<and> (of_char c :: nat) \<le> 57)"

definition digit_val :: "char \<Rightarrow> nat" where
  "digit_val c = of_char c - 48"

definition digit_char :: "nat \<Rightarrow> char" where
  "digit_char d = char_of (48 + d)"

lemma isdigit_digit_char [simp]: "d < 10 \<Longrightarrow> isdigit (digit_char d)"
  by (simp add: isdigit_def digit_char_def)

lemma digit_val_digit_char [simp]: "d < 10 \<Longrightarrow> digit_val (digit_char d) = d"
  by (simp add: digit_val_def digit_char_def)

lemma isspace_not_isdigit: "isspace c \<Longrightarrow> \<not> isdigit c"
  by (auto simp: isspace_def isdigit_def)

section \<open>Searching and trimming\<close>

definition starts_with :: "string \<Rightarrow> string \<Rightarrow> bool" where
  "starts_with p s = (take (length p) s = p)"

fun strstr :: "string \<Rightarrow> string \<Rightarrow> string option" where
  "strstr [] n = (if n = [] then Some [] else None)"
| "strstr (c # h) n = (if starts_with n (c # h) then Some (c # h) else strstr h n)"

text \<open>\<open>strchr\<close>: the suffix at the first occurrence.\<close>

fun strchr :: "string \<Rightarrow> char \<Rightarrow> string option" where
  "strchr [] c = None"
| "strchr (d # s) c = (if d = c then Some (d # s) else strchr s c)"

lemma strchr_None [cstr_simps]: "strchr s c = None \<longleftrightarrow> c \<notin> set s"
  by (induction s) auto

lemma starts_with_append [cstr_simps]: "starts_with p (p @ s)"
  by (simp add: starts_with_def)

lemma starts_with_length: "starts_with p s \<Longrightarrow> length p \<le> length s"
  unfolding starts_with_def by (metis length_take min.cobounded1 min_def)

section \<open>Decimal numbers\<close>

fun dec_nat :: "nat \<Rightarrow> string" where
  "dec_nat n = (if n < 10 then [digit_char n] else dec_nat (n div 10) @ [digit_char (n mod 10)])"

declare dec_nat.simps [simp del]

definition dec_int :: "int \<Rightarrow> string" where
  "dec_int i = (if i < 0 then CHR ''-'' # dec_nat (nat (- i)) else dec_nat (nat i))"

definition digits_val :: "string \<Rightarrow> nat" where
  "digits_val s = foldl (\<lambda>a c. 10 * a + digit_val c) 0 s"

lemma dec_nat_nonempty [simp]: "dec_nat n \<noteq> []"
  by (subst dec_nat.simps) simp

lemma dec_nat_digits: "\<forall>c \<in> set (dec_nat n). isdigit c"
proof (induction n rule: dec_nat.induct)
  case (1 n)
  then show ?case by (cases "n < 10") (auto simp: dec_nat.simps [of n])
qed

lemma digits_val_dec_nat [simp]: "digits_val (dec_nat n) = n"
proof (induction n rule: dec_nat.induct)
  case (1 n)
  then show ?case by (cases "n < 10") (auto simp: dec_nat.simps [of n] digits_val_def)
qed

lemma dec_nat_not_space: "c \<in> set (dec_nat n) \<Longrightarrow> \<not> isspace c"
  using dec_nat_digits isspace_not_isdigit by blast

text \<open>
  \<open>sscanf (s, "%u", &x)\<close>: skip white space, an optional sign, at least one digit. The digits are
  read by \<open>strtoul\<close> at 64 bits, which saturates; the result is stored in 32 bits.
\<close>

definition ulong_max :: nat where "ulong_max = 18446744073709551615"
definition uint_mod :: nat where "uint_mod = 4294967296"

definition scan_u :: "string \<Rightarrow> nat option" where
  "scan_u s =
     (let t = dropWhile isspace s;
          neg = (t \<noteq> [] \<and> hd t = CHR ''-'');
          u = (if t \<noteq> [] \<and> (hd t = CHR ''-'' \<or> hd t = CHR ''+'') then tl t else t);
          ds = takeWhile isdigit u
      in if ds = [] then None
         else let v = digits_val ds
              in Some ((if v > ulong_max then ulong_max
                        else if neg \<and> v > 0 then ulong_max + 1 - v else v) mod uint_mod))"

lemma scan_u_dec_nat:
  assumes "n < uint_mod"
  shows "scan_u (dec_nat n) = Some n"
proof -
  obtain c cs where d: "dec_nat n = c # cs" by (cases "dec_nat n") auto
  have digs: "\<forall>x \<in> set (c # cs). isdigit x" using dec_nat_digits [of n] d by simp
  then have c: "\<not> isspace c" "c \<noteq> CHR ''-''" "c \<noteq> CHR ''+''"
    using isspace_not_isdigit by (auto simp: isdigit_def)
  have tw: "takeWhile isdigit (c # cs) = c # cs"
    using digs by (simp add: takeWhile_eq_all_conv)
  have "digits_val (c # cs) = n" using d digits_val_dec_nat [of n] by simp
  with assms c tw d show ?thesis
    by (simp add: scan_u_def Let_def ulong_max_def uint_mod_def)
qed

section \<open>Trimming, tokens and lines\<close>

text \<open>\<open>rtrim\<close> drops white space at the end, as the second loop of \<open>strip\<close> does.\<close>

definition rtrim :: "string \<Rightarrow> string" where
  "rtrim s = rev (dropWhile isspace (rev s))"

text \<open>
  The tokens \<open>strtok_r\<close> returns in turn when it is called with one delimiter: the non-empty pieces
  between delimiters.
\<close>

fun split_on :: "char \<Rightarrow> string \<Rightarrow> string list" where
  "split_on d [] = [[]]"
| "split_on d (c # s) =
     (if c = d then [] # split_on d s
      else (case split_on d s of [] \<Rightarrow> [[c]] | t # ts \<Rightarrow> (c # t) # ts))"

definition strtok :: "char \<Rightarrow> string \<Rightarrow> string list" where
  "strtok d s = filter (\<lambda>t. t \<noteq> []) (split_on d s)"

text \<open>
  One \<open>fgets\<close> with room for \<open>m\<close> characters: up to and including a newline. \<open>fgets_lines n\<close> is the
  list of buffers a loop over \<open>fgets (line, n, f)\<close> reads.
\<close>

fun fgets1 :: "nat \<Rightarrow> string \<Rightarrow> string \<times> string" where
  "fgets1 m [] = ([], [])"
| "fgets1 m (c # s) =
     (if m = 0 then ([], c # s)
      else if c = newline then ([c], s)
      else (let (a, r) = fgets1 (m - 1) s in (c # a, r)))"

lemma fgets1_length: "length (snd (fgets1 m s)) \<le> length s"
  by (induction m s rule: fgets1.induct) (auto split: prod.splits)

lemma fgets1_append: "fst (fgets1 m s) @ snd (fgets1 m s) = s"
  by (induction m s rule: fgets1.induct) (auto split: prod.splits)

function fgets_lines :: "nat \<Rightarrow> string \<Rightarrow> string list" where
  "fgets_lines n s =
     (if s = [] \<or> n \<le> 1 then []
      else fst (fgets1 (n - 1) s) # fgets_lines n (snd (fgets1 (n - 1) s)))"
  by auto

termination
proof (relation "measure (length \<circ> snd)")
  fix n :: nat and s :: string
  assume a: "\<not> (s = [] \<or> n \<le> 1)"
  then obtain c t where s: "s = c # t" by (cases s) auto
  have "length (snd (fgets1 (n - 1) (c # t))) \<le> length t"
    using a fgets1_length [of "n - Suc (Suc 0)" t] by (auto split: prod.splits)
  then show "((n, snd (fgets1 (n - 1) s)), n, s) \<in> measure (length \<circ> snd)" by (simp add: s)
qed simp

declare fgets_lines.simps [simp del]

text \<open>\<open>sscanf\<close> of \<open>%Ns\<close>: skip white space, then up to \<open>n\<close> other characters, at least one.\<close>

definition scan_s :: "nat \<Rightarrow> string \<Rightarrow> string option" where
  "scan_s n s =
     (let w = take n (takeWhile (\<lambda>c. \<not> isspace c) (dropWhile isspace s))
      in if w = [] then None else Some w)"

text \<open>What follows the characters that \<open>%u\<close> consumes.\<close>

definition scan_u_rest :: "string \<Rightarrow> string" where
  "scan_u_rest s =
     (let t = dropWhile isspace s;
          u = (if t \<noteq> [] \<and> (hd t = CHR ''-'' \<or> hd t = CHR ''+'') then tl t else t)
      in dropWhile isdigit u)"

section \<open>Laws of tokens and lines\<close>

lemma split_on_nonempty [simp]: "split_on d s \<noteq> []"
  by (induction s) (auto split: list.splits)

lemma split_on_free: "d \<notin> set s \<Longrightarrow> split_on d s = [s]"
  by (induction s) auto

lemma split_on_append: "d \<notin> set x \<Longrightarrow> split_on d (x @ d # s) = x # split_on d s"
  by (induction x) auto

lemma strtok_nil [simp]: "strtok d [] = []"
  by (simp add: strtok_def)

lemma strtok_free: "d \<notin> set s \<Longrightarrow> s \<noteq> [] \<Longrightarrow> strtok d s = [s]"
  by (simp add: strtok_def split_on_free)

lemma strtok_append: "d \<notin> set x \<Longrightarrow> x \<noteq> [] \<Longrightarrow> strtok d (x @ d # s) = x # strtok d s"
  by (simp add: strtok_def split_on_append)

lemma strtok_lines:
  assumes "\<forall>l \<in> set ls. d \<notin> set l \<and> l \<noteq> []"
  shows "strtok d (concat (map (\<lambda>l. l @ [d]) ls)) = ls"
  using assms by (induction ls) (simp_all add: strtok_append)

lemma strtok_words:
  assumes "\<forall>w \<in> set ws. d \<notin> set w \<and> w \<noteq> []" "d \<notin> set x" "x \<noteq> []"
  shows "strtok d (x @ concat (map (\<lambda>w. d # w) ws)) = x # ws"
  using assms
proof (induction ws arbitrary: x)
  case Nil
  then show ?case by (simp add: strtok_free)
next
  case (Cons w ws)
  then show ?case using strtok_append [of d x "w @ concat (map (\<lambda>w. d # w) ws)"] by simp
qed

lemma fgets1_line:
  "newline \<notin> set x \<Longrightarrow> length x < m \<Longrightarrow> fgets1 m (x @ newline # s) = (x @ [newline], s)"
  by (induction x arbitrary: m) (auto simp: Let_def)

lemma fgets_lines_concat:
  assumes "\<forall>l \<in> set ls. newline \<notin> set l \<and> Suc (length l) < n"
  shows "fgets_lines n (concat (map (\<lambda>l. l @ [newline]) ls)) = map (\<lambda>l. l @ [newline]) ls"
  using assms
proof (induction ls)
  case Nil
  then show ?case by (simp add: fgets_lines.simps)
next
  case (Cons l ls)
  then have "fgets1 (n - 1) (l @ newline # concat (map (\<lambda>l. l @ [newline]) ls)) =
      (l @ [newline], concat (map (\<lambda>l. l @ [newline]) ls))"
    by (intro fgets1_line) auto
  with Cons show ?case by (subst fgets_lines.simps) auto
qed

lemma scan_s_word:
  assumes "\<forall>c \<in> set w. \<not> isspace c" "w \<noteq> []" "length w \<le> n"
    "r = [] \<or> isspace (hd r)" "\<forall>c \<in> set b. isspace c"
  shows "scan_s n (b @ w @ r) = Some w"
proof -
  have "dropWhile isspace (b @ w @ r) = w @ r"
    using assms(1,2,5) by (cases w) (auto simp: dropWhile_append)
  moreover have "takeWhile (\<lambda>c. \<not> isspace c) (w @ r) = w"
    using assms(1,4) by (cases r) (auto simp: takeWhile_append)
  ultimately show ?thesis using assms(2,3) by (simp add: scan_s_def)
qed

lemma dec_nat_head:
  obtains c cs where "dec_nat n = c # cs" "isdigit c" "\<not> isspace c" "c \<noteq> CHR ''-''" "c \<noteq> CHR ''+''"
    "\<forall>x \<in> set (c # cs). isdigit x"
proof -
  obtain c cs where d: "dec_nat n = c # cs" by (cases "dec_nat n") auto
  have digs: "\<forall>x \<in> set (c # cs). isdigit x" using dec_nat_digits [of n] d by simp
  then have "\<not> isspace c" "c \<noteq> CHR ''-''" "c \<noteq> CHR ''+''"
    using isspace_not_isdigit by (auto simp: isdigit_def)
  with d digs that show ?thesis by simp
qed

lemma scan_u_dec_nat_append:
  assumes n: "n < uint_mod" and b: "\<forall>c \<in> set b. isspace c" and r: "r = [] \<or> \<not> isdigit (hd r)"
  shows "scan_u (b @ dec_nat n @ r) = Some n \<and> scan_u_rest (b @ dec_nat n @ r) = r"
proof -
  obtain c cs where d: "dec_nat n = c # cs" and c: "isdigit c" "\<not> isspace c" "c \<noteq> CHR ''-''" "c \<noteq> CHR ''+''"
    and digs: "\<forall>x \<in> set (c # cs). isdigit x" by (rule dec_nat_head)
  have drop: "dropWhile isspace (b @ (c # cs) @ r) = (c # cs) @ r"
    using b c by (auto simp: dropWhile_append)
  have tw: "takeWhile isdigit ((c # cs) @ r) = c # cs"
    using digs r by (cases r) (auto simp: takeWhile_append)
  have dw: "dropWhile isdigit ((c # cs) @ r) = r"
    using digs r by (cases r) (auto simp: dropWhile_append)
  have v: "digits_val (c # cs) = n" using d digits_val_dec_nat [of n] by simp
  have "scan_u (b @ (c # cs) @ r) = Some n"
    unfolding scan_u_def drop using c n tw v by (simp add: Let_def ulong_max_def uint_mod_def)
  moreover have "scan_u_rest (b @ (c # cs) @ r) = r"
    unfolding scan_u_rest_def drop using c dw by (simp add: Let_def)
  ultimately show ?thesis by (simp add: d)
qed

end
