(* ===== verification/IR_Types.thy ===== *)
theory IR_Types
  imports CStrings
begin

text \<open>
  The enumerations of the Weave IR (\<open>ir/ccw_ir.h\<close>, \<open>glue/GlueSTD.h\<close>), their text names and the
  parsers of these names (\<open>ir/ccw_ir.c\<close>). A \<open>const char *\<close> that the code tests against NULL is a
  \<open>string option\<close>; a \<open>bool\<close> result with an out-parameter is an option.
\<close>

section \<open>Enumerations\<close>

datatype ccw_status =
    CCW_OK | CCW_ERR_LOAD | CCW_ERR_NO_CAPABILITY | CCW_ERR_KERNEL | CCW_ERR_ABI
  | CCW_ERR_ACCESSOR | CCW_ERR_TYPE | CCW_ERR_ARITY | CCW_ERR_OOM
  | CCW_E_ISL_NONAFFINE | CCW_E_ISL_QUOTA | CCW_E_VEC_ILLEGAL

fun status_code :: "ccw_status \<Rightarrow> int" where
  "status_code CCW_OK = 0"
| "status_code CCW_ERR_LOAD = -1"
| "status_code CCW_ERR_NO_CAPABILITY = -2"
| "status_code CCW_ERR_KERNEL = -3"
| "status_code CCW_ERR_ABI = -4"
| "status_code CCW_ERR_ACCESSOR = -5"
| "status_code CCW_ERR_TYPE = -6"
| "status_code CCW_ERR_ARITY = -7"
| "status_code CCW_ERR_OOM = -8"
| "status_code CCW_E_ISL_NONAFFINE = -9"
| "status_code CCW_E_ISL_QUOTA = -10"
| "status_code CCW_E_VEC_ILLEGAL = -11"

datatype ccw_profile = CCW_PROFILE_TILLY | CCW_PROFILE_ON1X

datatype ccw_ir_type =
    CCW_TY_VOID | CCW_TY_I1 | CCW_TY_I8 | CCW_TY_I16 | CCW_TY_I32 | CCW_TY_I64
  | CCW_TY_F32 | CCW_TY_F64 | CCW_TY_PTR

datatype ccw_node_kind =
    CCW_NODE_DEAD | CCW_NODE_FUNCTION | CCW_NODE_BLOCK | CCW_NODE_INSTR | CCW_NODE_OPERAND

datatype ccw_operand_kind =
    CCW_OPND_REG | CCW_OPND_CONST_INT | CCW_OPND_CONST_FLOAT | CCW_OPND_FUNC | CCW_OPND_BLOCK

definition CCW_OP_SYSCALL :: string where "CCW_OP_SYSCALL = ''syscall''"
definition CCW_OP_IO_READ :: string where "CCW_OP_IO_READ = ''io.read''"
definition CCW_OP_IO_WRITE :: string where "CCW_OP_IO_WRITE = ''io.write''"
definition CCW_OP_IO_CLOSE :: string where "CCW_OP_IO_CLOSE = ''io.close''"
definition CCW_OP_IO_OPEN :: string where "CCW_OP_IO_OPEN = ''io.open''"

section \<open>Doubles\<close>

text \<open>
  A C \<open>double\<close> is its IEEE 754 bit pattern. The IR code only stores, copies, prints and compares
  doubles; \<open>==\<close> is false on a NaN and identifies the two zeros.
\<close>

type_synonym double = "64 word"

definition double_is_nan :: "double \<Rightarrow> bool" where
  "double_is_nan x = (unat x mod 2 ^ 63 > 0x7FF0000000000000)"

definition double_is_zero :: "double \<Rightarrow> bool" where
  "double_is_zero x = (unat x mod 2 ^ 63 = 0)"

definition double_eq :: "double \<Rightarrow> double \<Rightarrow> bool" where
  "double_eq x y =
     (\<not> double_is_nan x \<and> \<not> double_is_nan y \<and> (x = y \<or> double_is_zero x \<and> double_is_zero y))"

lemma double_eq_refl: "\<not> double_is_nan x \<Longrightarrow> double_eq x x"
  by (simp add: double_eq_def)

lemma double_eq_sym: "double_eq x y \<Longrightarrow> double_eq y x"
  by (auto simp: double_eq_def)

lemma double_eq_trans: "double_eq x y \<Longrightarrow> double_eq y z \<Longrightarrow> double_eq x z"
  by (auto simp: double_eq_def)

section \<open>Names\<close>

definition ccw_profile_name :: "ccw_profile \<Rightarrow> string" where
  "ccw_profile_name p = (if p = CCW_PROFILE_ON1X then ''on1x'' else ''tilly'')"

definition ccw_profile_parse :: "string option \<Rightarrow> ccw_profile option" where
  "ccw_profile_parse name =
     (case name of
        None \<Rightarrow> None
      | Some s \<Rightarrow>
          if s = ''tilly'' then Some CCW_PROFILE_TILLY
          else if s = ''on1x'' then Some CCW_PROFILE_ON1X
          else None)"

definition ccw_type_names :: "string list" where
  "ccw_type_names = [''void'', ''i1'', ''i8'', ''i16'', ''i32'', ''i64'', ''f32'', ''f64'', ''ptr'']"

text \<open>The C enumerators in declaration order: \<open>type_index\<close> is the cast to int.\<close>

definition type_enum :: "ccw_ir_type list" where
  "type_enum = [CCW_TY_VOID, CCW_TY_I1, CCW_TY_I8, CCW_TY_I16, CCW_TY_I32, CCW_TY_I64,
                CCW_TY_F32, CCW_TY_F64, CCW_TY_PTR]"

fun type_index :: "ccw_ir_type \<Rightarrow> nat" where
  "type_index CCW_TY_VOID = 0"
| "type_index CCW_TY_I1 = 1"
| "type_index CCW_TY_I8 = 2"
| "type_index CCW_TY_I16 = 3"
| "type_index CCW_TY_I32 = 4"
| "type_index CCW_TY_I64 = 5"
| "type_index CCW_TY_F32 = 6"
| "type_index CCW_TY_F64 = 7"
| "type_index CCW_TY_PTR = 8"

definition ccw_ir_type_name :: "ccw_ir_type \<Rightarrow> string" where
  "ccw_ir_type_name t =
     (if type_index t \<ge> length ccw_type_names then ''void'' else ccw_type_names ! type_index t)"

text \<open>The loop \<open>for (i = 0; i < 9; i++)\<close> over the name table.\<close>

fun type_parse_from :: "nat \<Rightarrow> string list \<Rightarrow> string \<Rightarrow> ccw_ir_type option" where
  "type_parse_from i [] s = None"
| "type_parse_from i (n # ns) s =
     (if s = n then Some (type_enum ! i) else type_parse_from (Suc i) ns s)"

definition ccw_ir_type_parse :: "string option \<Rightarrow> ccw_ir_type option" where
  "ccw_ir_type_parse name =
     (case name of None \<Rightarrow> None | Some s \<Rightarrow> type_parse_from 0 ccw_type_names s)"

lemma type_enum_index: "type_enum ! type_index t = t"
  by (cases t) (simp_all add: type_enum_def)

lemma type_parse_name [simp]: "ccw_ir_type_parse (Some (ccw_ir_type_name t)) = Some t"
  by (cases t)
    (simp_all add: ccw_ir_type_parse_def ccw_ir_type_name_def ccw_type_names_def type_enum_def)

lemma profile_parse_name [simp]: "ccw_profile_parse (Some (ccw_profile_name p)) = Some p"
  by (cases p) (simp_all add: ccw_profile_parse_def ccw_profile_name_def)

lemma type_parse_sound: "ccw_ir_type_parse (Some s) = Some t \<Longrightarrow> ccw_ir_type_name t = s"
  by (auto simp: ccw_ir_type_parse_def ccw_type_names_def type_enum_def ccw_ir_type_name_def
      split: if_splits)

lemma profile_parse_sound: "ccw_profile_parse (Some s) = Some p \<Longrightarrow> ccw_profile_name p = s"
  by (auto simp: ccw_profile_parse_def ccw_profile_name_def split: if_splits)

lemma type_name_ident: "set (ccw_ir_type_name t) \<subseteq> set ''voidi12345678904ftpr''"
  by (cases t) (auto simp: ccw_ir_type_name_def ccw_type_names_def)

text \<open>The declaration order of the enumerators is the order of the type.\<close>

instantiation ccw_ir_type :: linorder
begin

definition less_eq_ccw_ir_type :: "ccw_ir_type \<Rightarrow> ccw_ir_type \<Rightarrow> bool" where
  "less_eq_ccw_ir_type a b = (type_index a \<le> type_index b)"

definition less_ccw_ir_type :: "ccw_ir_type \<Rightarrow> ccw_ir_type \<Rightarrow> bool" where
  "less_ccw_ir_type a b = (type_index a < type_index b)"

instance
  by standard
    (auto simp: less_eq_ccw_ir_type_def less_ccw_ir_type_def, metis type_enum_index)

end

end
