(* ===== verification/IR_Core.thy ===== *)
theory IR_Core
  imports IR_Types
begin

text \<open>
  The canonical in-memory module (\<open>ir/ccw_ir_internal.h\<close>) and the construction half of the IR API
  (\<open>ir/ccw_ir.c\<close>): the node table, attributes, functions, blocks, detached instructions and
  operands. A module is a value; an operation returns the updated module beside its C result.
  Allocation succeeds (the \<open>CCW_ERR_OOM\<close> and NULL-node returns after a failed \<open>malloc\<close> are not
  modelled) and the \<open>ccw_ir *\<close> handle is not NULL. Counts and ids are unbounded naturals: an id
  indexes the table, whose size is bounded by memory.
\<close>

section \<open>State\<close>

type_synonym ccw_node = nat
type_synonym ccw_attrs = "(string \<times> string) list"

record ccw_ir_node =
  n_kind :: ccw_node_kind
  n_id :: ccw_node
  n_parent :: ccw_node
  n_name :: "string option"
  n_opcode :: "string option"
  n_type :: ccw_ir_type
  n_okind :: ccw_operand_kind
  n_ival :: "64 word"
  n_fval :: double
  n_children :: "ccw_node list"
  n_params :: "ccw_node list"
  n_attrs :: ccw_attrs
  n_attached :: bool

record ccw_ir =
  m_name :: string
  m_profile :: ccw_profile
  m_attrs :: ccw_attrs
  m_nodes :: "ccw_ir_node list"
  m_functions :: "ccw_node list"

section \<open>Attributes\<close>

text \<open>The loop of \<open>ccw_attrs_set\<close>: overwrite the first entry with this key, else append.\<close>

fun attrs_put :: "ccw_attrs \<Rightarrow> string \<Rightarrow> string \<Rightarrow> ccw_attrs" where
  "attrs_put [] k v = [(k, v)]"
| "attrs_put ((k', v') # a) k v = (if k' = k then (k', v) # a else (k', v') # attrs_put a k v)"

definition ccw_attrs_set ::
  "ccw_attrs \<Rightarrow> string option \<Rightarrow> string option \<Rightarrow> ccw_attrs \<times> ccw_status" where
  "ccw_attrs_set a key value =
     (case (key, value) of
        (Some k, Some v) \<Rightarrow> (attrs_put a k v, CCW_OK)
      | _ \<Rightarrow> (a, CCW_ERR_TYPE))"

section \<open>The node table\<close>

definition ccw_ir_node_get :: "ccw_ir \<Rightarrow> ccw_node \<Rightarrow> ccw_ir_node option" where
  "ccw_ir_node_get ir i =
     (if i = 0 \<or> i \<ge> length (m_nodes ir) then None
      else let n = m_nodes ir ! i in if n_kind n = CCW_NODE_DEAD then None else Some n)"

definition ccw_ir_node_get_kind ::
  "ccw_ir \<Rightarrow> ccw_node \<Rightarrow> ccw_node_kind \<Rightarrow> ccw_ir_node option" where
  "ccw_ir_node_get_kind ir i k =
     (case ccw_ir_node_get ir i of
        Some n \<Rightarrow> if n_kind n = k then Some n else None
      | None \<Rightarrow> None)"

text \<open>A zeroed slot (\<open>memset\<close>) with its kind and id.\<close>

definition blank_node :: "ccw_node_kind \<Rightarrow> ccw_node \<Rightarrow> ccw_ir_node" where
  "blank_node k i =
     \<lparr>n_kind = k, n_id = i, n_parent = 0, n_name = None, n_opcode = None, n_type = CCW_TY_VOID,
      n_okind = CCW_OPND_REG, n_ival = 0, n_fval = 0, n_children = [], n_params = [],
      n_attrs = [], n_attached = False\<rparr>"

definition ccw_ir_node_new :: "ccw_ir \<Rightarrow> ccw_node_kind \<Rightarrow> ccw_ir \<times> ccw_node" where
  "ccw_ir_node_new ir k =
     (let i = length (m_nodes ir)
      in (ir\<lparr>m_nodes := m_nodes ir @ [blank_node k i]\<rparr>, i))"

text \<open>A write through a \<open>ccw_ir_node *\<close>.\<close>

definition upd_node :: "ccw_ir \<Rightarrow> ccw_node \<Rightarrow> (ccw_ir_node \<Rightarrow> ccw_ir_node) \<Rightarrow> ccw_ir" where
  "upd_node ir i f = ir\<lparr>m_nodes := (m_nodes ir)[i := f (m_nodes ir ! i)]\<rparr>"

section \<open>Module lifecycle\<close>

definition ccw_ir_module_create :: "string option \<Rightarrow> ccw_profile \<Rightarrow> ccw_ir" where
  "ccw_ir_module_create name p =
     fst (ccw_ir_node_new
       \<lparr>m_name = (case name of Some s \<Rightarrow> s | None \<Rightarrow> ''module''), m_profile = p, m_attrs = [],
        m_nodes = [], m_functions = []\<rparr> CCW_NODE_DEAD)"

definition ccw_ir_module_name :: "ccw_ir \<Rightarrow> string" where
  "ccw_ir_module_name ir = m_name ir"

definition ccw_ir_module_profile :: "ccw_ir \<Rightarrow> ccw_profile" where
  "ccw_ir_module_profile ir = m_profile ir"

section \<open>The attribute API\<close>

definition ccw_attrs_of :: "ccw_ir \<Rightarrow> ccw_node \<Rightarrow> ccw_attrs option" where
  "ccw_attrs_of ir owner =
     (if owner = 0 then Some (m_attrs ir) else map_option n_attrs (ccw_ir_node_get ir owner))"

definition ccw_ir_attr_set ::
  "ccw_ir \<Rightarrow> ccw_node \<Rightarrow> string option \<Rightarrow> string option \<Rightarrow> ccw_ir \<times> ccw_status" where
  "ccw_ir_attr_set ir owner key value =
     (case ccw_attrs_of ir owner of
        None \<Rightarrow> (ir, CCW_ERR_TYPE)
      | Some a \<Rightarrow>
          (let (a', st) = ccw_attrs_set a key value
           in (if owner = 0 then ir\<lparr>m_attrs := a'\<rparr>
               else upd_node ir owner (\<lambda>n. n\<lparr>n_attrs := a'\<rparr>), st)))"

definition ccw_ir_attr_count :: "ccw_ir \<Rightarrow> ccw_node \<Rightarrow> int" where
  "ccw_ir_attr_count ir owner =
     (case ccw_attrs_of ir owner of Some a \<Rightarrow> int (length a) | None \<Rightarrow> 0)"

definition ccw_ir_attr_key :: "ccw_ir \<Rightarrow> ccw_node \<Rightarrow> int \<Rightarrow> string option" where
  "ccw_ir_attr_key ir owner idx =
     (case ccw_attrs_of ir owner of
        None \<Rightarrow> None
      | Some a \<Rightarrow> if idx < 0 \<or> idx \<ge> int (length a) then None else Some (fst (a ! nat idx)))"

definition ccw_ir_attr_value :: "ccw_ir \<Rightarrow> ccw_node \<Rightarrow> int \<Rightarrow> string option" where
  "ccw_ir_attr_value ir owner idx =
     (case ccw_attrs_of ir owner of
        None \<Rightarrow> None
      | Some a \<Rightarrow> if idx < 0 \<or> idx \<ge> int (length a) then None else Some (snd (a ! nat idx)))"

text \<open>The search loop of \<open>ccw_ir_attr_lookup\<close>.\<close>

fun attrs_find :: "ccw_attrs \<Rightarrow> string \<Rightarrow> string option" where
  "attrs_find [] k = None"
| "attrs_find ((k', v) # a) k = (if k' = k then Some v else attrs_find a k)"

definition ccw_ir_attr_lookup :: "ccw_ir \<Rightarrow> ccw_node \<Rightarrow> string option \<Rightarrow> string option" where
  "ccw_ir_attr_lookup ir owner key =
     (case (ccw_attrs_of ir owner, key) of
        (Some a, Some k) \<Rightarrow> attrs_find a k
      | _ \<Rightarrow> None)"

section \<open>Construction\<close>

definition ccw_ir_function_add :: "ccw_ir \<Rightarrow> string option \<Rightarrow> ccw_ir_type \<Rightarrow> ccw_ir \<times> ccw_node" where
  "ccw_ir_function_add ir name result =
     (case name of
        None \<Rightarrow> (ir, 0)
      | Some s \<Rightarrow>
          (let (ir1, i) = ccw_ir_node_new ir CCW_NODE_FUNCTION;
               ir2 = upd_node ir1 i (\<lambda>n. n\<lparr>n_name := Some s, n_type := result\<rparr>)
           in (ir2\<lparr>m_functions := m_functions ir2 @ [i]\<rparr>, i)))"

definition ccw_operand_new ::
  "ccw_ir \<Rightarrow> ccw_operand_kind \<Rightarrow> string option \<Rightarrow> ccw_ir \<times> ccw_node" where
  "ccw_operand_new ir k name =
     (let (ir1, i) = ccw_ir_node_new ir CCW_NODE_OPERAND
      in (upd_node ir1 i (\<lambda>n. n\<lparr>n_okind := k, n_name := name\<rparr>), i))"

definition ccw_ir_operand_reg :: "ccw_ir \<Rightarrow> string option \<Rightarrow> ccw_ir \<times> ccw_node" where
  "ccw_ir_operand_reg ir name =
     (if name \<noteq> None then ccw_operand_new ir CCW_OPND_REG name else (ir, 0))"

definition ccw_ir_operand_func :: "ccw_ir \<Rightarrow> string option \<Rightarrow> ccw_ir \<times> ccw_node" where
  "ccw_ir_operand_func ir name =
     (if name \<noteq> None then ccw_operand_new ir CCW_OPND_FUNC name else (ir, 0))"

definition ccw_ir_operand_block :: "ccw_ir \<Rightarrow> string option \<Rightarrow> ccw_ir \<times> ccw_node" where
  "ccw_ir_operand_block ir name =
     (if name \<noteq> None then ccw_operand_new ir CCW_OPND_BLOCK name else (ir, 0))"

definition ccw_ir_operand_const_int ::
  "ccw_ir \<Rightarrow> ccw_ir_type \<Rightarrow> 64 word \<Rightarrow> ccw_ir \<times> ccw_node" where
  "ccw_ir_operand_const_int ir t v =
     (let (ir1, i) = ccw_operand_new ir CCW_OPND_CONST_INT None
      in case ccw_ir_node_get ir1 i of
           None \<Rightarrow> (ir1, 0)
         | Some _ \<Rightarrow> (upd_node ir1 i (\<lambda>n. n\<lparr>n_type := t, n_ival := v\<rparr>), i))"

definition ccw_ir_operand_const_float ::
  "ccw_ir \<Rightarrow> ccw_ir_type \<Rightarrow> double \<Rightarrow> ccw_ir \<times> ccw_node" where
  "ccw_ir_operand_const_float ir t v =
     (let (ir1, i) = ccw_operand_new ir CCW_OPND_CONST_FLOAT None
      in case ccw_ir_node_get ir1 i of
           None \<Rightarrow> (ir1, 0)
         | Some _ \<Rightarrow> (upd_node ir1 i (\<lambda>n. n\<lparr>n_type := t, n_fval := v\<rparr>), i))"

definition ccw_ir_function_add_param ::
  "ccw_ir \<Rightarrow> ccw_node \<Rightarrow> ccw_ir_type \<Rightarrow> string option \<Rightarrow> ccw_ir \<times> ccw_status" where
  "ccw_ir_function_add_param ir fn t name =
     (if ccw_ir_node_get_kind ir fn CCW_NODE_FUNCTION = None \<or> name = None
      then (ir, CCW_ERR_TYPE)
      else
        (let (ir1, p) = ccw_ir_operand_reg ir name
         in if p = 0 then (ir1, CCW_ERR_OOM)
            else case (ccw_ir_node_get_kind ir1 fn CCW_NODE_FUNCTION, ccw_ir_node_get ir1 p) of
                   (Some _, Some _) \<Rightarrow>
                     (upd_node (upd_node ir1 p (\<lambda>n. n\<lparr>n_type := t\<rparr>)) fn
                        (\<lambda>n. n\<lparr>n_params := n_params n @ [p]\<rparr>), CCW_OK)
                 | _ \<Rightarrow> (ir1, CCW_ERR_TYPE)))"

definition ccw_ir_block_add :: "ccw_ir \<Rightarrow> ccw_node \<Rightarrow> string option \<Rightarrow> ccw_ir \<times> ccw_node" where
  "ccw_ir_block_add ir fn name =
     (if ccw_ir_node_get_kind ir fn CCW_NODE_FUNCTION = None \<or> name = None then (ir, 0)
      else
        (let (ir1, b) = ccw_ir_node_new ir CCW_NODE_BLOCK;
             ir2 = upd_node ir1 b (\<lambda>n. n\<lparr>n_name := name, n_parent := fn\<rparr>)
         in (upd_node ir2 fn (\<lambda>n. n\<lparr>n_children := n_children n @ [b]\<rparr>), b)))"

definition ccw_ir_instr_build :: "ccw_ir \<Rightarrow> string option \<Rightarrow> ccw_ir_type \<Rightarrow> ccw_ir \<times> ccw_node" where
  "ccw_ir_instr_build ir opcode t =
     (case opcode of
        None \<Rightarrow> (ir, 0)
      | Some s \<Rightarrow>
          (let (ir1, i) = ccw_ir_node_new ir CCW_NODE_INSTR
           in (upd_node ir1 i (\<lambda>n. n\<lparr>n_opcode := Some s, n_type := t, n_attached := False\<rparr>), i)))"

definition ccw_ir_instr_set_dest ::
  "ccw_ir \<Rightarrow> ccw_node \<Rightarrow> string option \<Rightarrow> ccw_ir \<times> ccw_status" where
  "ccw_ir_instr_set_dest ir ins dest =
     (case ccw_ir_node_get_kind ir ins CCW_NODE_INSTR of
        None \<Rightarrow> (ir, CCW_ERR_TYPE)
      | Some _ \<Rightarrow> (upd_node ir ins (\<lambda>n. n\<lparr>n_name := dest\<rparr>), CCW_OK))"

definition ccw_ir_instr_add_operand ::
  "ccw_ir \<Rightarrow> ccw_node \<Rightarrow> ccw_node \<Rightarrow> ccw_ir \<times> ccw_status" where
  "ccw_ir_instr_add_operand ir ins operand =
     (case (ccw_ir_node_get_kind ir ins CCW_NODE_INSTR,
            ccw_ir_node_get_kind ir operand CCW_NODE_OPERAND) of
        (Some _, Some _) \<Rightarrow>
          (upd_node ir ins (\<lambda>n. n\<lparr>n_children := n_children n @ [operand]\<rparr>), CCW_OK)
      | _ \<Rightarrow> (ir, CCW_ERR_TYPE))"

definition ccw_ir_instr_set_operand ::
  "ccw_ir \<Rightarrow> ccw_node \<Rightarrow> int \<Rightarrow> ccw_node \<Rightarrow> ccw_ir \<times> ccw_status" where
  "ccw_ir_instr_set_operand ir ins index operand =
     (case (ccw_ir_node_get_kind ir ins CCW_NODE_INSTR,
            ccw_ir_node_get_kind ir operand CCW_NODE_OPERAND) of
        (Some n, Some _) \<Rightarrow>
          if index < 0 \<or> index \<ge> int (length (n_children n)) then (ir, CCW_ERR_TYPE)
          else (upd_node ir ins (\<lambda>n. n\<lparr>n_children := (n_children n)[nat index := operand]\<rparr>), CCW_OK)
      | _ \<Rightarrow> (ir, CCW_ERR_TYPE))"

definition ccw_ir_block_append_instr ::
  "ccw_ir \<Rightarrow> ccw_node \<Rightarrow> ccw_node \<Rightarrow> ccw_ir \<times> ccw_status" where
  "ccw_ir_block_append_instr ir blk ins =
     (case (ccw_ir_node_get_kind ir blk CCW_NODE_BLOCK,
            ccw_ir_node_get_kind ir ins CCW_NODE_INSTR) of
        (Some _, Some n) \<Rightarrow>
          if n_attached n then (ir, CCW_ERR_TYPE)
          else (upd_node (upd_node ir ins (\<lambda>n. n\<lparr>n_parent := blk, n_attached := True\<rparr>)) blk
                  (\<lambda>b. b\<lparr>n_children := n_children b @ [ins]\<rparr>), CCW_OK)
      | _ \<Rightarrow> (ir, CCW_ERR_TYPE))"

text \<open>
  The loops \<open>for (i = 0; i < arg_count; ++i) if (ccw_ir_instr_add_operand (...) != CCW_OK) return 0\<close>:
  the flag is false when the loop returned early.
\<close>

fun add_operands :: "ccw_ir \<Rightarrow> ccw_node \<Rightarrow> ccw_node list \<Rightarrow> ccw_ir \<times> bool" where
  "add_operands ir ins [] = (ir, True)"
| "add_operands ir ins (a # args) =
     (let (ir1, st) = ccw_ir_instr_add_operand ir ins a
      in if st \<noteq> CCW_OK then (ir1, False) else add_operands ir1 ins args)"

text \<open>The shared tail of the builders: \<open>if (blk != 0 && append != CCW_OK) return 0; return ins;\<close>\<close>

definition finish_build :: "ccw_ir \<Rightarrow> ccw_node \<Rightarrow> ccw_node \<Rightarrow> ccw_ir \<times> ccw_node" where
  "finish_build ir blk ins =
     (if blk = 0 then (ir, ins)
      else (let (ir1, st) = ccw_ir_block_append_instr ir blk ins
            in if st \<noteq> CCW_OK then (ir1, 0) else (ir1, ins)))"

definition ccw_ir_build_syscall ::
  "ccw_ir \<Rightarrow> ccw_node \<Rightarrow> string option \<Rightarrow> ccw_ir_type \<Rightarrow> 64 word \<Rightarrow> ccw_node list
     \<Rightarrow> ccw_ir \<times> ccw_node" where
  "ccw_ir_build_syscall ir blk dest t number args =
     (if length args > 6 then (ir, 0)
      else
        (let (ir1, ins) = ccw_ir_instr_build ir (Some CCW_OP_SYSCALL) t
         in if ins = 0 then (ir1, 0)
         else
           (let (ir2, st2) = (if dest \<noteq> None then ccw_ir_instr_set_dest ir1 ins dest
                              else (ir1, CCW_OK))
            in if st2 \<noteq> CCW_OK then (ir2, 0)
            else
              (let (ir3, num) = ccw_ir_operand_const_int ir2 CCW_TY_I64 number
               in if num = 0 then (ir3, 0)
               else
                 (let (ir4, st4) = ccw_ir_instr_add_operand ir3 ins num
                  in if st4 \<noteq> CCW_OK then (ir4, 0)
                  else
                    (let (ir5, ok) = add_operands ir4 ins args
                     in if \<not> ok then (ir5, 0) else finish_build ir5 blk ins))))))"

definition ccw_ir_build_io ::
  "ccw_ir \<Rightarrow> ccw_node \<Rightarrow> string option \<Rightarrow> string \<Rightarrow> ccw_node list \<Rightarrow> ccw_ir \<times> ccw_node" where
  "ccw_ir_build_io ir blk dest opcode args =
     (let (ir1, ins) = ccw_ir_instr_build ir (Some opcode) CCW_TY_I64
      in if ins = 0 then (ir1, 0)
      else
        (let (ir2, st2) = (if dest \<noteq> None then ccw_ir_instr_set_dest ir1 ins dest
                           else (ir1, CCW_OK))
         in if st2 \<noteq> CCW_OK then (ir2, 0)
         else
           (let (ir3, ok) = add_operands ir2 ins args
            in if \<not> ok then (ir3, 0) else finish_build ir3 blk ins)))"

definition ccw_ir_build_io_read ::
  "ccw_ir \<Rightarrow> ccw_node \<Rightarrow> string option \<Rightarrow> ccw_node \<Rightarrow> ccw_node \<Rightarrow> ccw_node \<Rightarrow> ccw_ir \<times> ccw_node" where
  "ccw_ir_build_io_read ir blk dest fd buffer count =
     ccw_ir_build_io ir blk dest CCW_OP_IO_READ [fd, buffer, count]"

definition ccw_ir_build_io_write ::
  "ccw_ir \<Rightarrow> ccw_node \<Rightarrow> string option \<Rightarrow> ccw_node \<Rightarrow> ccw_node \<Rightarrow> ccw_node \<Rightarrow> ccw_ir \<times> ccw_node" where
  "ccw_ir_build_io_write ir blk dest fd buffer count =
     ccw_ir_build_io ir blk dest CCW_OP_IO_WRITE [fd, buffer, count]"

definition ccw_ir_build_io_close ::
  "ccw_ir \<Rightarrow> ccw_node \<Rightarrow> string option \<Rightarrow> ccw_node \<Rightarrow> ccw_ir \<times> ccw_node" where
  "ccw_ir_build_io_close ir blk dest fd = ccw_ir_build_io ir blk dest CCW_OP_IO_CLOSE [fd]"

definition ccw_ir_build_io_open ::
  "ccw_ir \<Rightarrow> ccw_node \<Rightarrow> string option \<Rightarrow> ccw_node \<Rightarrow> ccw_node \<Rightarrow> ccw_node \<Rightarrow> ccw_ir \<times> ccw_node" where
  "ccw_ir_build_io_open ir blk dest path flags mode =
     ccw_ir_build_io ir blk dest CCW_OP_IO_OPEN [path, flags, mode]"

end
