(* ===== verification/IR_Nav.thy ===== *)
theory IR_Nav
  imports IR_Core
begin

text \<open>
  Navigation and inspection of a module (\<open>ir/ccw_ir.c\<close>): indexed access to functions, parameters,
  blocks, instructions and operands, and the control-flow successors and predecessors of a block,
  which are recomputed from the terminator on every query.
\<close>

section \<open>Indexed access\<close>

definition vec_ref :: "ccw_node list \<Rightarrow> int \<Rightarrow> ccw_node" where
  "vec_ref v idx = (if idx < 0 \<or> idx \<ge> int (length v) then 0 else v ! nat idx)"

definition ccw_ir_function_count :: "ccw_ir \<Rightarrow> int" where
  "ccw_ir_function_count ir = int (length (m_functions ir))"

definition ccw_ir_function_ref :: "ccw_ir \<Rightarrow> int \<Rightarrow> ccw_node" where
  "ccw_ir_function_ref ir idx = vec_ref (m_functions ir) idx"

definition ccw_ir_function_name :: "ccw_ir \<Rightarrow> ccw_node \<Rightarrow> string option" where
  "ccw_ir_function_name ir fn =
     (case ccw_ir_node_get_kind ir fn CCW_NODE_FUNCTION of Some n \<Rightarrow> n_name n | None \<Rightarrow> None)"

definition ccw_ir_function_result :: "ccw_ir \<Rightarrow> ccw_node \<Rightarrow> ccw_ir_type" where
  "ccw_ir_function_result ir fn =
     (case ccw_ir_node_get_kind ir fn CCW_NODE_FUNCTION of Some n \<Rightarrow> n_type n | None \<Rightarrow> CCW_TY_VOID)"

definition ccw_ir_function_param_count :: "ccw_ir \<Rightarrow> ccw_node \<Rightarrow> int" where
  "ccw_ir_function_param_count ir fn =
     (case ccw_ir_node_get_kind ir fn CCW_NODE_FUNCTION of
        Some n \<Rightarrow> int (length (n_params n)) | None \<Rightarrow> 0)"

definition ccw_ir_function_param_name :: "ccw_ir \<Rightarrow> ccw_node \<Rightarrow> int \<Rightarrow> string option" where
  "ccw_ir_function_param_name ir fn idx =
     (case ccw_ir_node_get_kind ir fn CCW_NODE_FUNCTION of
        None \<Rightarrow> None
      | Some n \<Rightarrow>
          if idx < 0 \<or> idx \<ge> int (length (n_params n)) then None
          else (case ccw_ir_node_get ir (n_params n ! nat idx) of
                  Some p \<Rightarrow> n_name p | None \<Rightarrow> None))"

definition ccw_ir_function_param_type :: "ccw_ir \<Rightarrow> ccw_node \<Rightarrow> int \<Rightarrow> ccw_ir_type" where
  "ccw_ir_function_param_type ir fn idx =
     (case ccw_ir_node_get_kind ir fn CCW_NODE_FUNCTION of
        None \<Rightarrow> CCW_TY_VOID
      | Some n \<Rightarrow>
          if idx < 0 \<or> idx \<ge> int (length (n_params n)) then CCW_TY_VOID
          else (case ccw_ir_node_get ir (n_params n ! nat idx) of
                  Some p \<Rightarrow> n_type p | None \<Rightarrow> CCW_TY_VOID))"

definition children_of :: "ccw_ir \<Rightarrow> ccw_node \<Rightarrow> ccw_node_kind \<Rightarrow> ccw_node list" where
  "children_of ir i k =
     (case ccw_ir_node_get_kind ir i k of Some n \<Rightarrow> n_children n | None \<Rightarrow> [])"

definition ccw_ir_function_block_count :: "ccw_ir \<Rightarrow> ccw_node \<Rightarrow> int" where
  "ccw_ir_function_block_count ir fn = int (length (children_of ir fn CCW_NODE_FUNCTION))"

definition ccw_ir_function_block_ref :: "ccw_ir \<Rightarrow> ccw_node \<Rightarrow> int \<Rightarrow> ccw_node" where
  "ccw_ir_function_block_ref ir fn idx = vec_ref (children_of ir fn CCW_NODE_FUNCTION) idx"

definition ccw_ir_block_name :: "ccw_ir \<Rightarrow> ccw_node \<Rightarrow> string option" where
  "ccw_ir_block_name ir blk =
     (case ccw_ir_node_get_kind ir blk CCW_NODE_BLOCK of Some n \<Rightarrow> n_name n | None \<Rightarrow> None)"

definition ccw_ir_block_instr_count :: "ccw_ir \<Rightarrow> ccw_node \<Rightarrow> int" where
  "ccw_ir_block_instr_count ir blk = int (length (children_of ir blk CCW_NODE_BLOCK))"

definition ccw_ir_block_instr_ref :: "ccw_ir \<Rightarrow> ccw_node \<Rightarrow> int \<Rightarrow> ccw_node" where
  "ccw_ir_block_instr_ref ir blk idx = vec_ref (children_of ir blk CCW_NODE_BLOCK) idx"

definition ccw_ir_instr_opcode :: "ccw_ir \<Rightarrow> ccw_node \<Rightarrow> string option" where
  "ccw_ir_instr_opcode ir ins =
     (case ccw_ir_node_get_kind ir ins CCW_NODE_INSTR of Some n \<Rightarrow> n_opcode n | None \<Rightarrow> None)"

definition ccw_ir_instr_dest :: "ccw_ir \<Rightarrow> ccw_node \<Rightarrow> string option" where
  "ccw_ir_instr_dest ir ins =
     (case ccw_ir_node_get_kind ir ins CCW_NODE_INSTR of Some n \<Rightarrow> n_name n | None \<Rightarrow> None)"

definition ccw_ir_instr_type :: "ccw_ir \<Rightarrow> ccw_node \<Rightarrow> ccw_ir_type" where
  "ccw_ir_instr_type ir ins =
     (case ccw_ir_node_get_kind ir ins CCW_NODE_INSTR of Some n \<Rightarrow> n_type n | None \<Rightarrow> CCW_TY_VOID)"

definition ccw_ir_instr_operand_count :: "ccw_ir \<Rightarrow> ccw_node \<Rightarrow> int" where
  "ccw_ir_instr_operand_count ir ins = int (length (children_of ir ins CCW_NODE_INSTR))"

definition ccw_ir_instr_operand :: "ccw_ir \<Rightarrow> ccw_node \<Rightarrow> int \<Rightarrow> ccw_node" where
  "ccw_ir_instr_operand ir ins idx = vec_ref (children_of ir ins CCW_NODE_INSTR) idx"

definition ccw_ir_node_kind :: "ccw_ir \<Rightarrow> ccw_node \<Rightarrow> ccw_node_kind" where
  "ccw_ir_node_kind ir n =
     (case ccw_ir_node_get ir n of Some x \<Rightarrow> n_kind x | None \<Rightarrow> CCW_NODE_DEAD)"

definition ccw_ir_operand_kind :: "ccw_ir \<Rightarrow> ccw_node \<Rightarrow> ccw_operand_kind" where
  "ccw_ir_operand_kind ir n =
     (case ccw_ir_node_get_kind ir n CCW_NODE_OPERAND of
        Some x \<Rightarrow> n_okind x | None \<Rightarrow> CCW_OPND_REG)"

definition ccw_ir_operand_is_const :: "ccw_ir \<Rightarrow> ccw_node \<Rightarrow> bool" where
  "ccw_ir_operand_is_const ir n =
     (case ccw_ir_node_get_kind ir n CCW_NODE_OPERAND of
        None \<Rightarrow> False
      | Some x \<Rightarrow> n_okind x = CCW_OPND_CONST_INT \<or> n_okind x = CCW_OPND_CONST_FLOAT)"

definition ccw_ir_const_int_value :: "ccw_ir \<Rightarrow> ccw_node \<Rightarrow> ccw_status + 64 word" where
  "ccw_ir_const_int_value ir n =
     (case ccw_ir_node_get_kind ir n CCW_NODE_OPERAND of
        None \<Rightarrow> Inl CCW_ERR_TYPE
      | Some x \<Rightarrow> if n_okind x \<noteq> CCW_OPND_CONST_INT then Inl CCW_ERR_TYPE else Inr (n_ival x))"

definition ccw_ir_const_float_value :: "ccw_ir \<Rightarrow> ccw_node \<Rightarrow> ccw_status + double" where
  "ccw_ir_const_float_value ir n =
     (case ccw_ir_node_get_kind ir n CCW_NODE_OPERAND of
        None \<Rightarrow> Inl CCW_ERR_TYPE
      | Some x \<Rightarrow> if n_okind x \<noteq> CCW_OPND_CONST_FLOAT then Inl CCW_ERR_TYPE else Inr (n_fval x))"

definition ccw_ir_operand_name :: "ccw_ir \<Rightarrow> ccw_node \<Rightarrow> string option" where
  "ccw_ir_operand_name ir n =
     (case ccw_ir_node_get_kind ir n CCW_NODE_OPERAND of Some x \<Rightarrow> n_name x | None \<Rightarrow> None)"

definition ccw_ir_operand_type :: "ccw_ir \<Rightarrow> ccw_node \<Rightarrow> ccw_ir_type" where
  "ccw_ir_operand_type ir n =
     (case ccw_ir_node_get_kind ir n CCW_NODE_OPERAND of
        Some x \<Rightarrow> n_type x | None \<Rightarrow> CCW_TY_VOID)"

definition is_terminator :: "string option \<Rightarrow> bool" where
  "is_terminator opcode =
     (case opcode of
        None \<Rightarrow> False
      | Some s \<Rightarrow> s = ''br'' \<or> s = ''ret'' \<or> s = ''br.cond'' \<or> s = ''switch'')"

definition ccw_ir_instr_is_terminator :: "ccw_ir \<Rightarrow> ccw_node \<Rightarrow> bool" where
  "ccw_ir_instr_is_terminator ir ins = is_terminator (ccw_ir_instr_opcode ir ins)"

section \<open>Control flow\<close>

text \<open>The scan of \<open>ccw_ir_block_target\<close> over a function's blocks: the first with this name, or nil.\<close>

fun block_target_in :: "ccw_ir \<Rightarrow> ccw_node list \<Rightarrow> string \<Rightarrow> ccw_node" where
  "block_target_in ir [] name = 0"
| "block_target_in ir (b # bs) name =
     (if ccw_ir_block_name ir b = Some name then b else block_target_in ir bs name)"

definition ccw_ir_block_target :: "ccw_ir \<Rightarrow> ccw_node \<Rightarrow> string option \<Rightarrow> ccw_node" where
  "ccw_ir_block_target ir fn name =
     (case (ccw_ir_node_get_kind ir fn CCW_NODE_FUNCTION, name) of
        (Some f, Some s) \<Rightarrow> block_target_in ir (n_children f) s
      | _ \<Rightarrow> 0)"

text \<open>
  The operand loop of \<open>ccw_ir_block_successors\<close>. \<open>out\<close> is the caller's array (\<open>None\<close> for a NULL
  pointer, else its \<open>capacity\<close> elements); the state is the array and \<open>count\<close>. Duplicates are
  recognised only through the array, so with a NULL array nothing is a duplicate.
\<close>

fun successors_loop ::
  "ccw_ir \<Rightarrow> ccw_node \<Rightarrow> ccw_node list \<Rightarrow> ccw_node list option \<Rightarrow> nat
     \<Rightarrow> ccw_node list option \<times> nat" where
  "successors_loop ir parent [] out count = (out, count)"
| "successors_loop ir parent (operand # operands) out count =
     (if ccw_ir_operand_kind ir operand \<noteq> CCW_OPND_BLOCK
      then successors_loop ir parent operands out count
      else
        (let target = ccw_ir_block_target ir parent (ccw_ir_operand_name ir operand)
         in if target = 0 then successors_loop ir parent operands out count
            else
              (let duplicate =
                     (case out of
                        None \<Rightarrow> False
                      | Some a \<Rightarrow> target \<in> set (take (min count (length a)) a))
               in if duplicate then successors_loop ir parent operands out count
                  else
                    successors_loop ir parent operands
                      (case out of
                         None \<Rightarrow> None
                       | Some a \<Rightarrow> if count < length a then Some (a[count := target]) else Some a)
                      (Suc count))))"

definition ccw_ir_block_successors ::
  "ccw_ir \<Rightarrow> ccw_node \<Rightarrow> ccw_node list option \<Rightarrow> ccw_node list option \<times> nat" where
  "ccw_ir_block_successors ir blk out =
     (case ccw_ir_node_get_kind ir blk CCW_NODE_BLOCK of
        None \<Rightarrow> (out, 0)
      | Some block \<Rightarrow>
          if n_children block = [] then (out, 0)
          else
            (case ccw_ir_node_get_kind ir (last (n_children block)) CCW_NODE_INSTR of
               None \<Rightarrow> (out, 0)
             | Some instruction \<Rightarrow>
                 if \<not> is_terminator (n_opcode instruction) then (out, 0)
                 else successors_loop ir (n_parent block) (n_children instruction) out 0))"

definition ccw_ir_block_successor_count :: "ccw_ir \<Rightarrow> ccw_node \<Rightarrow> int" where
  "ccw_ir_block_successor_count ir blk = int (snd (ccw_ir_block_successors ir blk None))"

definition ccw_ir_block_successor_ref :: "ccw_ir \<Rightarrow> ccw_node \<Rightarrow> int \<Rightarrow> ccw_node" where
  "ccw_ir_block_successor_ref ir blk idx =
     (let count = ccw_ir_block_successor_count ir blk
      in if idx < 0 \<or> idx \<ge> count then 0
         else
           (case ccw_ir_block_successors ir blk (Some (replicate (nat count) 0)) of
              (Some successors, actual) \<Rightarrow>
                if idx < int actual then successors ! nat idx else 0
            | (None, actual) \<Rightarrow> 0))"

text \<open>The function that owns a block, as both predecessor queries fetch it.\<close>

definition block_function :: "ccw_ir \<Rightarrow> ccw_node \<Rightarrow> ccw_ir_node option" where
  "block_function ir blk =
     (case ccw_ir_node_get_kind ir blk CCW_NODE_BLOCK of
        None \<Rightarrow> None
      | Some block \<Rightarrow> ccw_ir_node_get_kind ir (n_parent block) CCW_NODE_FUNCTION)"

text \<open>
  The two nested loops of the predecessor queries as one list: candidate \<open>c\<close> stands in it once per
  index \<open>j < successor_count c\<close> with \<open>successor_ref c j = blk\<close>. The count query returns its length,
  the reference query its element at \<open>idx\<close> (\<open>found++ == idx\<close>).
\<close>

definition predecessor_hits :: "ccw_ir \<Rightarrow> ccw_node list \<Rightarrow> ccw_node \<Rightarrow> ccw_node list" where
  "predecessor_hits ir candidates blk =
     concat (map (\<lambda>c. concat (map (\<lambda>j. if ccw_ir_block_successor_ref ir c (int j) = blk
                                         then [c] else [])
                               [0..<nat (ccw_ir_block_successor_count ir c)])) candidates)"

definition ccw_ir_block_predecessor_count :: "ccw_ir \<Rightarrow> ccw_node \<Rightarrow> int" where
  "ccw_ir_block_predecessor_count ir blk =
     (case block_function ir blk of
        None \<Rightarrow> 0
      | Some f \<Rightarrow> int (length (predecessor_hits ir (n_children f) blk)))"

definition ccw_ir_block_predecessor_ref :: "ccw_ir \<Rightarrow> ccw_node \<Rightarrow> int \<Rightarrow> ccw_node" where
  "ccw_ir_block_predecessor_ref ir blk idx =
     (case block_function ir blk of
        None \<Rightarrow> 0
      | Some f \<Rightarrow> if idx < 0 then 0 else vec_ref (predecessor_hits ir (n_children f) blk) idx)"

end
