(* ===== verification/IR_Edit.thy ===== *)
theory IR_Edit
  imports IR_Nav
begin

text \<open>
  The structural edits of a module (\<open>ir/ccw_ir.c\<close>): instruction replacement, insertion before an
  anchor and deletion, block deletion and block merge.
\<close>

section \<open>Node vectors\<close>

definition ccw_node_vec_remove_at :: "ccw_node list \<Rightarrow> int \<Rightarrow> ccw_node list" where
  "ccw_node_vec_remove_at v idx =
     (if idx < 0 \<or> idx \<ge> int (length v) then v else take (nat idx) v @ drop (Suc (nat idx)) v)"

definition ccw_node_vec_insert_at :: "ccw_node list \<Rightarrow> nat \<Rightarrow> ccw_node \<Rightarrow> ccw_node list" where
  "ccw_node_vec_insert_at v idx n = take idx v @ n # drop idx v"

fun vec_index_from :: "nat \<Rightarrow> ccw_node list \<Rightarrow> ccw_node \<Rightarrow> int" where
  "vec_index_from i [] n = -1"
| "vec_index_from i (x # v) n = (if x = n then int i else vec_index_from (Suc i) v n)"

definition ccw_node_vec_index_of :: "ccw_node list \<Rightarrow> ccw_node \<Rightarrow> int" where
  "ccw_node_vec_index_of v n = vec_index_from 0 v n"

section \<open>Instruction edits\<close>

definition ccw_ir_instr_replace :: "ccw_ir \<Rightarrow> ccw_node \<Rightarrow> ccw_node \<Rightarrow> ccw_ir \<times> ccw_status" where
  "ccw_ir_instr_replace ir old_ins new_ins =
     (case (ccw_ir_node_get_kind ir old_ins CCW_NODE_INSTR,
            ccw_ir_node_get_kind ir new_ins CCW_NODE_INSTR) of
        (Some o', Some n) \<Rightarrow>
          if \<not> n_attached o' \<or> n_attached n then (ir, CCW_ERR_TYPE)
          else
            (case ccw_ir_node_get_kind ir (n_parent o') CCW_NODE_BLOCK of
               None \<Rightarrow> (ir, CCW_ERR_TYPE)
             | Some b \<Rightarrow>
                 (let idx = ccw_node_vec_index_of (n_children b) old_ins
                  in if idx < 0 then (ir, CCW_ERR_TYPE)
                     else
                       (let dest = (if n_name n = None \<and> n_name o' \<noteq> None then n_name o'
                                    else n_name n);
                            ir1 = upd_node ir (n_parent o')
                                    (\<lambda>b. b\<lparr>n_children := (n_children b)[nat idx := new_ins]\<rparr>);
                            ir2 = upd_node ir1 new_ins
                                    (\<lambda>n. n\<lparr>n_name := dest, n_parent := n_parent o',
                                            n_attached := True\<rparr>);
                            ir3 = upd_node ir2 old_ins
                                    (\<lambda>n. n\<lparr>n_attached := False, n_parent := 0\<rparr>)
                        in (ir3, CCW_OK))))
      | _ \<Rightarrow> (ir, CCW_ERR_TYPE))"

definition ccw_ir_instr_insert_before ::
  "ccw_ir \<Rightarrow> ccw_node \<Rightarrow> ccw_node \<Rightarrow> ccw_ir \<times> ccw_status" where
  "ccw_ir_instr_insert_before ir anchor new_ins =
     (case (ccw_ir_node_get_kind ir anchor CCW_NODE_INSTR,
            ccw_ir_node_get_kind ir new_ins CCW_NODE_INSTR) of
        (Some a, Some n) \<Rightarrow>
          if \<not> n_attached a \<or> n_attached n then (ir, CCW_ERR_TYPE)
          else
            (case ccw_ir_node_get_kind ir (n_parent a) CCW_NODE_BLOCK of
               None \<Rightarrow> (ir, CCW_ERR_TYPE)
             | Some b \<Rightarrow>
                 (let idx = ccw_node_vec_index_of (n_children b) anchor
                  in if idx < 0 then (ir, CCW_ERR_TYPE)
                     else
                       (upd_node
                          (upd_node ir (n_parent a)
                             (\<lambda>b. b\<lparr>n_children :=
                                     ccw_node_vec_insert_at (n_children b) (nat idx) new_ins\<rparr>))
                          new_ins (\<lambda>n. n\<lparr>n_parent := n_parent a, n_attached := True\<rparr>), CCW_OK)))
      | _ \<Rightarrow> (ir, CCW_ERR_TYPE))"

definition ccw_ir_instr_delete :: "ccw_ir \<Rightarrow> ccw_node \<Rightarrow> ccw_ir \<times> ccw_status" where
  "ccw_ir_instr_delete ir ins =
     (case ccw_ir_node_get_kind ir ins CCW_NODE_INSTR of
        None \<Rightarrow> (ir, CCW_ERR_TYPE)
      | Some n \<Rightarrow>
          if \<not> n_attached n then (ir, CCW_ERR_TYPE)
          else
            (case ccw_ir_node_get_kind ir (n_parent n) CCW_NODE_BLOCK of
               None \<Rightarrow> (ir, CCW_ERR_TYPE)
             | Some b \<Rightarrow>
                 (let idx = ccw_node_vec_index_of (n_children b) ins
                  in if idx < 0 then (ir, CCW_ERR_TYPE)
                     else
                       (upd_node
                          (upd_node ir (n_parent n)
                             (\<lambda>b. b\<lparr>n_children := ccw_node_vec_remove_at (n_children b) idx\<rparr>))
                          ins (\<lambda>n. n\<lparr>n_attached := False, n_parent := 0\<rparr>), CCW_OK))))"

section \<open>Block edits\<close>

text \<open>The loop of \<open>ccw_ir_block_delete\<close> that kills the block's instructions.\<close>

fun kill_instrs :: "ccw_ir \<Rightarrow> ccw_node list \<Rightarrow> ccw_ir" where
  "kill_instrs ir [] = ir"
| "kill_instrs ir (i # is) =
     kill_instrs
       (case ccw_ir_node_get ir i of
          None \<Rightarrow> ir
        | Some _ \<Rightarrow> upd_node ir i (\<lambda>n. n\<lparr>n_attached := False, n_kind := CCW_NODE_DEAD\<rparr>)) is"

definition ccw_ir_block_delete :: "ccw_ir \<Rightarrow> ccw_node \<Rightarrow> ccw_ir \<times> ccw_status" where
  "ccw_ir_block_delete ir blk =
     (case (ccw_ir_node_get_kind ir blk CCW_NODE_BLOCK, block_function ir blk) of
        (Some block, Some function) \<Rightarrow>
          if ccw_ir_block_predecessor_count ir blk \<noteq> 0 then (ir, CCW_ERR_TYPE)
          else
            (let index = ccw_node_vec_index_of (n_children function) blk
             in if index < 0 then (ir, CCW_ERR_TYPE)
                else
                  (let ir1 = kill_instrs ir (n_children block);
                       ir2 = upd_node ir1 (n_parent block)
                               (\<lambda>f. f\<lparr>n_children := ccw_node_vec_remove_at (n_children f) index\<rparr>);
                       ir3 = upd_node ir2 blk (\<lambda>b. b\<lparr>n_kind := CCW_NODE_DEAD\<rparr>)
                   in (ir3, CCW_OK)))
      | _ \<Rightarrow> (ir, CCW_ERR_TYPE))"

text \<open>
  The loop of \<open>ccw_ir_block_merge\<close>,
  \<open>for (i = 0; i < b->children.count; i++) { set parent; ccw_node_vec_push (&a->children, ...); }\<close>.
  The bound is read from the second block in every round, and \<open>a\<close> and \<open>b\<close> are the same object when
  \<open>first = second\<close>, so the loop need not stop: \<open>None\<close> is a run that never returns.
\<close>

partial_function (option) merge_loop ::
  "ccw_ir \<Rightarrow> ccw_node \<Rightarrow> ccw_node \<Rightarrow> nat \<Rightarrow> ccw_ir option" where
  "merge_loop ir first second i =
     (let cs = n_children (m_nodes ir ! second)
      in if i < length cs then
           (let c = cs ! i;
                ir1 = (case ccw_ir_node_get ir c of
                         None \<Rightarrow> ir
                       | Some _ \<Rightarrow> upd_node ir c (\<lambda>n. n\<lparr>n_parent := first\<rparr>));
                ir2 = upd_node ir1 first (\<lambda>a. a\<lparr>n_children := n_children a @ [c]\<rparr>)
            in merge_loop ir2 first second (Suc i))
         else Some ir)"

text \<open>Killing the jump at the end of the first block.\<close>

definition drop_jump :: "ccw_ir \<Rightarrow> ccw_node \<Rightarrow> ccw_ir_node \<Rightarrow> ccw_ir" where
  "drop_jump ir first a =
     (if n_children a = [] then ir
      else
        (let j = last (n_children a);
             ir1 = (case ccw_ir_node_get ir j of
                      None \<Rightarrow> ir
                    | Some _ \<Rightarrow> upd_node ir j (\<lambda>n. n\<lparr>n_attached := False, n_kind := CCW_NODE_DEAD\<rparr>))
         in upd_node ir1 first (\<lambda>a. a\<lparr>n_children := butlast (n_children a)\<rparr>)))"

definition ccw_ir_block_merge ::
  "ccw_ir \<Rightarrow> ccw_node \<Rightarrow> ccw_node \<Rightarrow> (ccw_ir \<times> ccw_status) option" where
  "ccw_ir_block_merge ir first second =
     (case (ccw_ir_node_get_kind ir first CCW_NODE_BLOCK,
            ccw_ir_node_get_kind ir second CCW_NODE_BLOCK) of
        (Some a, Some b) \<Rightarrow>
          if n_parent a \<noteq> n_parent b
             \<or> ccw_ir_block_successor_count ir first \<noteq> 1
             \<or> ccw_ir_block_successor_ref ir first 0 \<noteq> second
             \<or> ccw_ir_block_predecessor_count ir second \<noteq> 1
          then Some (ir, CCW_ERR_TYPE)
          else
            (case merge_loop (drop_jump ir first a) first second 0 of
               None \<Rightarrow> None
             | Some ir1 \<Rightarrow>
                 (let ir2 = upd_node ir1 (n_parent a)
                        (\<lambda>f. f\<lparr>n_children := ccw_node_vec_remove_at (n_children f)
                                 (ccw_node_vec_index_of (n_children f) second)\<rparr>)
                  in Some (upd_node ir2 second (\<lambda>b. b\<lparr>n_kind := CCW_NODE_DEAD\<rparr>), CCW_OK)))
      | _ \<Rightarrow> Some (ir, CCW_ERR_TYPE))"

end
