(* ===== verification/IR_Heap.thy ===== *)
theory IR_Heap
  imports IR_Edit
begin

text \<open>
  The node table as an interface. Clients of the table read it only through lookup; the locale
  \<open>node_table\<close> states what a write and an allocation do to every later lookup, and derives the
  frame facts the invariant proofs use. The interpretation on \<open>ccw_ir_node_get\<close>, \<open>upd_node\<close> and
  \<open>ccw_ir_node_new\<close> discharges its laws.
\<close>

section \<open>The interface\<close>

locale node_table =
  fixes get :: "'h \<Rightarrow> nat \<Rightarrow> 'n option"
    and upd :: "'h \<Rightarrow> nat \<Rightarrow> ('n \<Rightarrow> 'n) \<Rightarrow> 'h"
    and new :: "'h \<Rightarrow> 'k \<Rightarrow> 'h \<times> nat"
    and blank :: "'k \<Rightarrow> nat \<Rightarrow> 'n"
    and live :: "'n \<Rightarrow> bool"
    and next_id :: "'h \<Rightarrow> nat"
  assumes get_upd_same: "get h i = Some n \<Longrightarrow> get (upd h i f) i = (if live (f n) then Some (f n) else None)"
    and get_upd_other: "i \<noteq> j \<Longrightarrow> get (upd h i f) j = get h j"
    and next_upd: "next_id (upd h i f) = next_id h"
    and get_live: "get h i = Some n \<Longrightarrow> live n"
    and get_bound: "get h i = Some n \<Longrightarrow> 0 < i \<and> i < next_id h"
    and new_id: "snd (new h k) = next_id h"
    and new_next: "next_id (fst (new h k)) = Suc (next_id h)"
    and get_new_old: "j \<noteq> next_id h \<Longrightarrow> get (fst (new h k)) j = get h j"
    and get_new_same: "0 < next_id h \<Longrightarrow> live (blank k (next_id h))
        \<Longrightarrow> get (fst (new h k)) (next_id h) = Some (blank k (next_id h))"
begin

lemma fresh: "get h (next_id h) = None"
  using get_bound by (metis less_irrefl not_Some_eq)

lemma get_upd_live:
  assumes "get h i = Some n" and "\<And>m. live m \<Longrightarrow> live (f m)"
  shows "get (upd h i f) = (get h)(i \<mapsto> f n)"
proof
  fix j
  from assms have "live (f n)" using get_live by blast
  with assms(1) show "get (upd h i f) j = ((get h)(i \<mapsto> f n)) j"
    by (cases "i = j") (simp_all add: get_upd_same get_upd_other)
qed

lemma get_upd_kill:
  assumes "get h i = Some n" and "\<not> live (f n)"
  shows "get (upd h i f) = (get h)(i := None)"
proof
  fix j
  from assms show "get (upd h i f) j = ((get h)(i := None)) j"
    by (cases "i = j") (simp_all add: get_upd_same get_upd_other)
qed

lemma get_new:
  assumes "0 < next_id h" and "live (blank k (next_id h))"
  shows "get (fst (new h k)) = (get h)(next_id h \<mapsto> blank k (next_id h))"
proof
  fix j
  from assms show "get (fst (new h k)) j = ((get h)(next_id h \<mapsto> blank k (next_id h))) j"
    by (cases "j = next_id h") (simp_all add: get_new_old get_new_same)
qed

text \<open>Ids are never reused: a lookup that succeeds after an allocation or a write did before, or is
  the allocated id.\<close>

lemma upd_no_resurrect: "get h j = None \<Longrightarrow> i \<noteq> j \<Longrightarrow> get (upd h i f) j = None"
  by (simp add: get_upd_other)

end

section \<open>The model's table\<close>

definition next_id :: "ccw_ir \<Rightarrow> ccw_node" where
  "next_id ir = length (m_nodes ir)"

definition node_live :: "ccw_ir_node \<Rightarrow> bool" where
  "node_live n \<longleftrightarrow> n_kind n \<noteq> CCW_NODE_DEAD"

lemma m_fields_upd [simp]:
  "m_name (upd_node ir i f) = m_name ir" "m_profile (upd_node ir i f) = m_profile ir"
  "m_attrs (upd_node ir i f) = m_attrs ir" "m_functions (upd_node ir i f) = m_functions ir"
  "length (m_nodes (upd_node ir i f)) = length (m_nodes ir)"
  by (simp_all add: upd_node_def)

lemma m_fields_new [simp]:
  "m_name (fst (ccw_ir_node_new ir k)) = m_name ir"
  "m_profile (fst (ccw_ir_node_new ir k)) = m_profile ir"
  "m_attrs (fst (ccw_ir_node_new ir k)) = m_attrs ir"
  "m_functions (fst (ccw_ir_node_new ir k)) = m_functions ir"
  by (simp_all add: ccw_ir_node_new_def Let_def)

lemma node_get_functions [simp]:
  "ccw_ir_node_get (ir\<lparr>m_functions := fs\<rparr>) = ccw_ir_node_get ir"
  "ccw_ir_node_get (ir\<lparr>m_attrs := as\<rparr>) = ccw_ir_node_get ir"
  "next_id (ir\<lparr>m_functions := fs\<rparr>) = next_id ir"
  "next_id (ir\<lparr>m_attrs := as\<rparr>) = next_id ir"
  by (rule ext | simp add: ccw_ir_node_get_def next_id_def)+

interpretation nt: node_table ccw_ir_node_get upd_node ccw_ir_node_new blank_node node_live next_id
proof unfold_locales
  fix h :: ccw_ir and i n f
  assume "ccw_ir_node_get h i = Some n"
  then show "ccw_ir_node_get (upd_node h i f) i = (if node_live (f n) then Some (f n) else None)"
    by (auto simp: ccw_ir_node_get_def upd_node_def node_live_def Let_def split: if_splits)
next
  fix h :: ccw_ir and i j :: nat and f
  assume "i \<noteq> j"
  then show "ccw_ir_node_get (upd_node h i f) j = ccw_ir_node_get h j"
    by (simp add: ccw_ir_node_get_def upd_node_def)
next
  fix h :: ccw_ir and j :: nat and k
  assume "j \<noteq> next_id h"
  then show "ccw_ir_node_get (fst (ccw_ir_node_new h k)) j = ccw_ir_node_get h j"
    by (auto simp: ccw_ir_node_get_def ccw_ir_node_new_def Let_def next_id_def nth_append)
qed (auto simp: ccw_ir_node_get_def ccw_ir_node_new_def Let_def next_id_def node_live_def
       upd_node_def nth_append split: if_splits)

lemma node_get_kind_iff [ir_simps]:
  "ccw_ir_node_get_kind ir i k = Some n \<longleftrightarrow> ccw_ir_node_get ir i = Some n \<and> n_kind n = k"
  by (auto simp: ccw_ir_node_get_kind_def split: option.splits)

lemma node_get_not_dead: "ccw_ir_node_get ir i = Some n \<Longrightarrow> n_kind n \<noteq> CCW_NODE_DEAD"
  using nt.get_live by (auto simp: node_live_def)

lemma node_get_pos: "ccw_ir_node_get ir i = Some n \<Longrightarrow> 0 < i"
  using nt.get_bound by blast

lemma node_get_nth: "ccw_ir_node_get ir i = Some n \<Longrightarrow> m_nodes ir ! i = n \<and> i < length (m_nodes ir)"
  by (auto simp: ccw_ir_node_get_def Let_def split: if_splits)

lemma get_upd_keep:
  assumes "ccw_ir_node_get ir i = Some n" and "n_kind (f n) = n_kind n"
  shows "ccw_ir_node_get (upd_node ir i f) = (ccw_ir_node_get ir)(i \<mapsto> f n)"
proof
  fix j
  from assms node_get_not_dead [OF assms(1)]
  show "ccw_ir_node_get (upd_node ir i f) j = ((ccw_ir_node_get ir)(i \<mapsto> f n)) j"
    by (cases "i = j") (simp_all add: nt.get_upd_same nt.get_upd_other node_live_def)
qed

text \<open>Node ids in the table: slot \<open>i\<close> holds id \<open>i\<close>, and slot 0 is the dead nil node.\<close>

definition ids_ok :: "ccw_ir \<Rightarrow> bool" where
  "ids_ok ir \<longleftrightarrow>
     m_nodes ir \<noteq> [] \<and> n_kind (m_nodes ir ! 0) = CCW_NODE_DEAD \<and>
     (\<forall>i < length (m_nodes ir). n_id (m_nodes ir ! i) = i)"

lemma ids_ok_functions [simp]:
  "ids_ok (ir\<lparr>m_functions := fs\<rparr>) = ids_ok ir" "ids_ok (ir\<lparr>m_attrs := as\<rparr>) = ids_ok ir"
  by (simp_all add: ids_ok_def)

lemma ids_ok_new: "ids_ok ir \<Longrightarrow> ids_ok (fst (ccw_ir_node_new ir k))"
  by (auto simp: ids_ok_def ccw_ir_node_new_def Let_def nth_append blank_node_def)

lemma ids_ok_upd:
  assumes "ids_ok ir" "i \<noteq> 0" "\<And>n. n_id (f n) = n_id n"
  shows "ids_ok (upd_node ir i f)"
proof (cases "i < length (m_nodes ir)")
  case True
  with assms show ?thesis by (auto simp: ids_ok_def upd_node_def nth_list_update)
next
  case False
  then have "upd_node ir i f = ir" by (simp add: upd_node_def list_update_beyond)
  with assms show ?thesis by simp
qed

lemma ids_ok_next: "ids_ok ir \<Longrightarrow> 0 < next_id ir"
  by (auto simp: ids_ok_def next_id_def)

lemma ids_ok_get_id: "ids_ok ir \<Longrightarrow> ccw_ir_node_get ir i = Some n \<Longrightarrow> n_id n = i"
  by (auto simp: ids_ok_def dest!: node_get_nth)

end
