(* ===== verification/IR_Wf.thy ===== *)
theory IR_Wf
  imports IR_Heap
begin

text \<open>
  The structural invariant of a module and its preservation by every operation of the IR API. The
  invariant is stated on the lookup function of the node table (a heap) and the function list; an
  operation is a few heap moves, each of which has one preservation lemma.
\<close>

section \<open>The invariant\<close>

type_synonym heap = "ccw_node \<Rightarrow> ccw_ir_node option"

text \<open>What one node may require of another, as tests on the heap.\<close>

definition at :: "heap \<Rightarrow> ccw_node \<Rightarrow> (ccw_ir_node \<Rightarrow> bool) \<Rightarrow> bool" where
  "at h i P \<longleftrightarrow> (case h i of None \<Rightarrow> False | Some n \<Rightarrow> P n)"

definition is_block_of :: "ccw_node \<Rightarrow> ccw_ir_node \<Rightarrow> bool" where
  "is_block_of f n \<longleftrightarrow> n_kind n = CCW_NODE_BLOCK \<and> n_parent n = f"

definition is_function_with :: "ccw_node \<Rightarrow> ccw_ir_node \<Rightarrow> bool" where
  "is_function_with b n \<longleftrightarrow> n_kind n = CCW_NODE_FUNCTION \<and> b \<in> set (n_children n)"

definition is_instr_of :: "ccw_node \<Rightarrow> ccw_ir_node \<Rightarrow> bool" where
  "is_instr_of b n \<longleftrightarrow> n_kind n = CCW_NODE_INSTR \<and> n_attached n \<and> n_parent n = b"

definition is_block_with :: "ccw_node \<Rightarrow> ccw_ir_node \<Rightarrow> bool" where
  "is_block_with i n \<longleftrightarrow> n_kind n = CCW_NODE_BLOCK \<and> i \<in> set (n_children n)"

definition is_operand :: "ccw_ir_node \<Rightarrow> bool" where
  "is_operand n \<longleftrightarrow> n_kind n = CCW_NODE_OPERAND"

definition is_reg :: "ccw_ir_node \<Rightarrow> bool" where
  "is_reg n \<longleftrightarrow> n_kind n = CCW_NODE_OPERAND \<and> n_okind n = CCW_OPND_REG"

text \<open>
  The links of the live node \<open>n\<close> at id \<open>i\<close>. Functions own their blocks and blocks their
  instructions, in both directions and without repetition; an instruction is attached exactly when
  a live block lists it; operands of live instructions are live.
\<close>

definition function_ok :: "heap \<Rightarrow> ccw_node \<Rightarrow> ccw_ir_node \<Rightarrow> bool" where
  "function_ok h i n \<longleftrightarrow>
     n_name n \<noteq> None \<and> distinct (n_children n)
     \<and> (\<forall>b \<in> set (n_children n). at h b (is_block_of i))
     \<and> (\<forall>p \<in> set (n_params n). at h p is_reg)"

definition block_ok :: "heap \<Rightarrow> ccw_node \<Rightarrow> ccw_ir_node \<Rightarrow> bool" where
  "block_ok h i n \<longleftrightarrow>
     n_name n \<noteq> None \<and> distinct (n_children n)
     \<and> at h (n_parent n) (is_function_with i)
     \<and> (\<forall>c \<in> set (n_children n). at h c (is_instr_of i))"

definition instr_ok :: "heap \<Rightarrow> ccw_node \<Rightarrow> ccw_ir_node \<Rightarrow> bool" where
  "instr_ok h i n \<longleftrightarrow>
     n_opcode n \<noteq> None
     \<and> (\<forall>c \<in> set (n_children n). at h c is_operand)
     \<and> (if n_attached n then at h (n_parent n) (is_block_with i) else n_parent n = 0)"

definition operand_ok :: "ccw_ir_node \<Rightarrow> bool" where
  "operand_ok n \<longleftrightarrow>
     (n_okind n \<in> {CCW_OPND_REG, CCW_OPND_FUNC, CCW_OPND_BLOCK} \<longrightarrow> n_name n \<noteq> None)"

fun kind_ok :: "ccw_node_kind \<Rightarrow> heap \<Rightarrow> ccw_node \<Rightarrow> ccw_ir_node \<Rightarrow> bool" where
  "kind_ok CCW_NODE_DEAD h i n = False"
| "kind_ok CCW_NODE_FUNCTION h i n = function_ok h i n"
| "kind_ok CCW_NODE_BLOCK h i n = block_ok h i n"
| "kind_ok CCW_NODE_INSTR h i n = instr_ok h i n"
| "kind_ok CCW_NODE_OPERAND h i n = operand_ok n"

definition node_ok :: "heap \<Rightarrow> ccw_node \<Rightarrow> ccw_ir_node \<Rightarrow> bool" where
  "node_ok h i n = kind_ok (n_kind n) h i n"

definition wf_heap :: "heap \<Rightarrow> ccw_node list \<Rightarrow> bool" where
  "wf_heap h fs \<longleftrightarrow>
     distinct fs \<and> (\<forall>f. f \<in> set fs \<longleftrightarrow> at h f (\<lambda>n. n_kind n = CCW_NODE_FUNCTION))
     \<and> (\<forall>i n. h i = Some n \<longrightarrow> node_ok h i n)"

definition wf_ir :: "ccw_ir \<Rightarrow> bool" where
  "wf_ir ir \<longleftrightarrow> ids_ok ir \<and> wf_heap (ccw_ir_node_get ir) (m_functions ir)"

lemmas link_defs = is_block_of_def is_function_with_def is_instr_of_def is_block_with_def
  is_operand_def is_reg_def

lemma at_upd: "at (h(i \<mapsto> m)) j P = (if j = i then P m else at h j P)"
  by (simp add: at_def)

lemma at_kill: "at (h(i := None)) j P = (j \<noteq> i \<and> at h j P)"
  by (simp add: at_def)

lemma at_Some: "h i = Some n \<Longrightarrow> at h i P = P n"
  by (simp add: at_def)

lemma at_upd2_mono:
  assumes "at h j P" and "h b = Some B"
    and "\<And>n. h i = Some n \<Longrightarrow> P n \<Longrightarrow> P n'" and "P B \<Longrightarrow> P B'"
  shows "at (h(i \<mapsto> n', b \<mapsto> B')) j P"
  using assms by (auto simp: at_def split: option.splits)

lemma at_upd2_eq:
  "P n' = at h i P \<Longrightarrow> P B' = at h b P \<Longrightarrow> at (h(i \<mapsto> n', b \<mapsto> B')) j P = at h j P"
  by (simp add: at_upd)

lemma atE:
  assumes "at h i P"
  obtains n where "h i = Some n" "P n"
  using assms by (auto simp: at_def split: option.splits)

lemma wf_heap_node: "wf_heap h fs \<Longrightarrow> h i = Some n \<Longrightarrow> node_ok h i n"
  by (auto simp: wf_heap_def)

lemma wf_heap_function: "wf_heap h fs \<Longrightarrow> h i = Some n \<Longrightarrow> n_kind n = CCW_NODE_FUNCTION \<Longrightarrow> function_ok h i n"
  by (frule (1) wf_heap_node) (simp add: node_ok_def)

lemma wf_heap_block: "wf_heap h fs \<Longrightarrow> h i = Some n \<Longrightarrow> n_kind n = CCW_NODE_BLOCK \<Longrightarrow> block_ok h i n"
  by (frule (1) wf_heap_node) (simp add: node_ok_def)

lemma wf_heap_instr: "wf_heap h fs \<Longrightarrow> h i = Some n \<Longrightarrow> n_kind n = CCW_NODE_INSTR \<Longrightarrow> instr_ok h i n"
  by (frule (1) wf_heap_node) (simp add: node_ok_def)

text \<open>
  The links of a node survive any change of the heap that keeps the tests its kind makes.
\<close>

lemma node_ok_mono:
  assumes ok: "node_ok h i n"
    and fb: "\<And>b. n_kind n = CCW_NODE_FUNCTION \<Longrightarrow> b \<in> set (n_children n) \<Longrightarrow> at h b (is_block_of i) \<Longrightarrow> at h' b (is_block_of i)"
    and fp: "\<And>p. at h p is_reg \<Longrightarrow> at h' p is_reg"
    and bf: "n_kind n = CCW_NODE_BLOCK \<Longrightarrow> at h (n_parent n) (is_function_with i) \<Longrightarrow> at h' (n_parent n) (is_function_with i)"
    and bi: "\<And>c. n_kind n = CCW_NODE_BLOCK \<Longrightarrow> c \<in> set (n_children n) \<Longrightarrow> at h c (is_instr_of i) \<Longrightarrow> at h' c (is_instr_of i)"
    and io: "\<And>c. at h c is_operand \<Longrightarrow> at h' c is_operand"
    and ib: "n_kind n = CCW_NODE_INSTR \<Longrightarrow> n_attached n \<Longrightarrow> at h (n_parent n) (is_block_with i) \<Longrightarrow> at h' (n_parent n) (is_block_with i)"
  shows "node_ok h' i n"
proof (cases "n_kind n")
  case CCW_NODE_FUNCTION
  with ok fb fp show ?thesis by (simp add: node_ok_def function_ok_def)
next
  case CCW_NODE_BLOCK
  with ok bf bi show ?thesis by (simp add: node_ok_def block_ok_def)
next
  case CCW_NODE_INSTR
  with ok io ib show ?thesis by (simp add: node_ok_def instr_ok_def split: if_splits)
next
  case CCW_NODE_OPERAND
  with ok show ?thesis by (simp add: node_ok_def)
next
  case CCW_NODE_DEAD
  with ok show ?thesis by (simp add: node_ok_def)
qed

section \<open>Heap moves\<close>

text \<open>A write that keeps the links of a node (names, types, values, attributes).\<close>

definition same_links :: "ccw_ir_node \<Rightarrow> ccw_ir_node \<Rightarrow> bool" where
  "same_links n m \<longleftrightarrow>
     n_kind m = n_kind n \<and> n_parent m = n_parent n \<and> n_children m = n_children n
     \<and> n_params m = n_params n \<and> n_attached m = n_attached n \<and> n_okind m = n_okind n"

lemma same_links_tests:
  assumes "h i = Some n" "same_links n m"
  shows "at (h(i \<mapsto> m)) j (is_block_of f) = at h j (is_block_of f)"
    "at (h(i \<mapsto> m)) j (is_function_with b) = at h j (is_function_with b)"
    "at (h(i \<mapsto> m)) j (is_instr_of b) = at h j (is_instr_of b)"
    "at (h(i \<mapsto> m)) j (is_block_with b) = at h j (is_block_with b)"
    "at (h(i \<mapsto> m)) j is_operand = at h j is_operand"
    "at (h(i \<mapsto> m)) j is_reg = at h j is_reg"
    "at (h(i \<mapsto> m)) j (\<lambda>n. n_kind n = k) = at h j (\<lambda>n. n_kind n = k)"
  using assms by (simp_all add: at_def same_links_def link_defs)

lemma wf_heap_upd_links:
  assumes wf: "wf_heap h fs" and i: "h i = Some n" and l: "same_links n m"
    and nm: "n_kind n \<noteq> CCW_NODE_INSTR \<Longrightarrow> n_name n \<noteq> None \<Longrightarrow> n_name m \<noteq> None"
    and op: "n_opcode n \<noteq> None \<Longrightarrow> n_opcode m \<noteq> None"
  shows "wf_heap (h(i \<mapsto> m)) fs"
proof -
  note T = same_links_tests [where h = h and i = i, OF i l]
  have K: "kind_ok k (h(i \<mapsto> m)) j x = kind_ok k h j x" for k j x
    by (cases k) (simp_all add: function_ok_def block_ok_def instr_ok_def T)
  have "kind_ok (n_kind n) h i n" using wf i by (auto simp: wf_heap_def node_ok_def)
  then have "kind_ok (n_kind m) h i m"
    using l nm op by (cases "n_kind n")
      (simp_all add: same_links_def function_ok_def block_ok_def instr_ok_def operand_ok_def)
  with wf show ?thesis by (auto simp: wf_heap_def node_ok_def K T split: if_splits)
qed

text \<open>A fresh node disturbs no other node.\<close>

lemma at_fresh: "h i = None \<Longrightarrow> at h j P \<Longrightarrow> at (h(i \<mapsto> m)) j P"
  by (auto simp: at_def)

lemma node_ok_fresh: "node_ok h j x \<Longrightarrow> h i = None \<Longrightarrow> node_ok (h(i \<mapsto> m)) j x"
  by (erule node_ok_mono) (simp_all add: at_fresh)

lemma wf_heap_fresh:
  assumes wf: "wf_heap h fs" and i: "h i = None"
    and k: "n_kind m \<noteq> CCW_NODE_FUNCTION" and m: "node_ok (h(i \<mapsto> m)) i m"
  shows "wf_heap (h(i \<mapsto> m)) fs"
proof -
  have "at (h(i \<mapsto> m)) f (\<lambda>n. n_kind n = CCW_NODE_FUNCTION) = at h f (\<lambda>n. n_kind n = CCW_NODE_FUNCTION)" for f
    using i k by (simp add: at_def)
  with wf m show ?thesis
    by (auto simp: wf_heap_def intro: node_ok_fresh [where h = h and i = i, OF _ i] split: if_splits)
qed

lemma wf_heap_fresh_function:
  assumes wf: "wf_heap h fs" and i: "h i = None" and k: "n_kind m = CCW_NODE_FUNCTION"
    and m: "n_name m \<noteq> None" "n_children m = []" "n_params m = []"
  shows "wf_heap (h(i \<mapsto> m)) (fs @ [i])"
proof -
  have "node_ok (h(i \<mapsto> m)) i m" using k m by (simp add: node_ok_def function_ok_def)
  moreover have "i \<notin> set fs" using wf i by (auto simp: wf_heap_def at_def)
  moreover have "f \<in> set (fs @ [i]) \<longleftrightarrow> at (h(i \<mapsto> m)) f (\<lambda>n. n_kind n = CCW_NODE_FUNCTION)" for f
    using wf i k by (auto simp: wf_heap_def at_def)
  ultimately show ?thesis
    using wf by (auto simp: wf_heap_def intro: node_ok_fresh [where h = h and i = i, OF _ i] split: if_splits)
qed

text \<open>Changing the operands of an instruction, or the parameters of a function.\<close>

lemma wf_heap_operands:
  assumes wf: "wf_heap h fs" and i: "h i = Some n" and k: "n_kind n = CCW_NODE_INSTR"
    and cs: "\<forall>c \<in> set cs. at h c is_operand"
  shows "wf_heap (h(i \<mapsto> n\<lparr>n_children := cs\<rparr>)) fs"
proof -
  let ?h = "h(i \<mapsto> n\<lparr>n_children := cs\<rparr>)"
  have T: "at ?h j (is_block_of f) = at h j (is_block_of f)"
    "at ?h j (is_function_with b) = at h j (is_function_with b)"
    "at ?h j (is_instr_of b) = at h j (is_instr_of b)"
    "at ?h j (is_block_with b) = at h j (is_block_with b)"
    "at ?h j is_operand = at h j is_operand" "at ?h j is_reg = at h j is_reg"
    "at ?h j (\<lambda>n. n_kind n = CCW_NODE_FUNCTION) = at h j (\<lambda>n. n_kind n = CCW_NODE_FUNCTION)"
    for j f b using i k by (simp_all add: at_def link_defs)
  have "node_ok ?h j x" if "h j = Some x" for j x
    using wf_heap_node [OF wf that] by (rule node_ok_mono) (simp_all add: T)
  moreover have "node_ok ?h i (n\<lparr>n_children := cs\<rparr>)"
    using wf_heap_instr [OF wf i k] k cs by (simp add: node_ok_def instr_ok_def T)
  ultimately show ?thesis using wf by (simp add: wf_heap_def T)
qed

lemma wf_heap_params:
  assumes wf: "wf_heap h fs" and i: "h i = Some n" and k: "n_kind n = CCW_NODE_FUNCTION"
    and ps: "\<forall>p \<in> set ps. at h p is_reg"
  shows "wf_heap (h(i \<mapsto> n\<lparr>n_params := ps\<rparr>)) fs"
proof -
  let ?h = "h(i \<mapsto> n\<lparr>n_params := ps\<rparr>)"
  have T: "at ?h j (is_block_of f) = at h j (is_block_of f)"
    "at ?h j (is_function_with b) = at h j (is_function_with b)"
    "at ?h j (is_instr_of b) = at h j (is_instr_of b)"
    "at ?h j (is_block_with b) = at h j (is_block_with b)"
    "at ?h j is_operand = at h j is_operand" "at ?h j is_reg = at h j is_reg"
    "at ?h j (\<lambda>n. n_kind n = CCW_NODE_FUNCTION) = at h j (\<lambda>n. n_kind n = CCW_NODE_FUNCTION)"
    for j f b using i k by (simp_all add: at_def link_defs)
  have "node_ok ?h j x" if "h j = Some x" for j x
    using wf_heap_node [OF wf that] by (rule node_ok_mono) (simp_all add: T)
  moreover have "node_ok ?h i (n\<lparr>n_params := ps\<rparr>)"
    using wf_heap_function [OF wf i k] k ps by (simp add: node_ok_def function_ok_def T)
  ultimately show ?thesis using wf by (simp add: wf_heap_def T)
qed

text \<open>A fresh block at the end of a function.\<close>

lemma wf_heap_add_block:
  assumes wf: "wf_heap h fs" and i: "h i = None" and f: "h f = Some F"
    and k: "n_kind F = CCW_NODE_FUNCTION"
    and m: "n_kind m = CCW_NODE_BLOCK" "n_name m \<noteq> None" "n_children m = []" "n_parent m = f"
  shows "wf_heap (h(i \<mapsto> m, f \<mapsto> F\<lparr>n_children := n_children F @ [i]\<rparr>)) fs"
proof -
  let ?F = "F\<lparr>n_children := n_children F @ [i]\<rparr>"
  let ?h = "h(i \<mapsto> m, f \<mapsto> ?F)"
  have ne: "i \<noteq> f" using i f by auto
  have T: "at h j P \<Longrightarrow> (P F \<Longrightarrow> P ?F) \<Longrightarrow> at ?h j P" for j P
    using i by (auto intro: at_upd2_mono [where h = h and b = f, OF _ f])
  have TF: "at ?h j (\<lambda>n. n_kind n = CCW_NODE_FUNCTION) = at h j (\<lambda>n. n_kind n = CCW_NODE_FUNCTION)"
    for j using i f k m by (intro at_upd2_eq) (simp_all add: at_def)
  have other: "node_ok ?h j x" if "h j = Some x" for j x
    using wf_heap_node [OF wf that] by (rule node_ok_mono) (erule T, simp add: link_defs)+
  have F: "function_ok h f F" using wf f k by (rule wf_heap_function)
  have "i \<notin> set (n_children F)" using F i by (auto simp: function_ok_def at_def)
  moreover have "at ?h i (is_block_of f)" using ne m by (simp add: at_upd is_block_of_def)
  ultimately have "node_ok ?h f ?F"
    using F k by (auto simp: node_ok_def function_ok_def link_defs intro!: T)
  moreover have "node_ok ?h i m"
    using m ne k by (auto simp: node_ok_def block_ok_def at_def link_defs)
  ultimately show ?thesis
    using wf other by (auto simp: wf_heap_def TF split: if_splits)
qed

text \<open>Attaching a detached instruction to a block, at any position.\<close>

lemma wf_heap_attach:
  assumes wf: "wf_heap h fs" and i: "h i = Some n" and k: "n_kind n = CCW_NODE_INSTR"
    and un: "\<not> n_attached n" and b: "h b = Some B" and kb: "n_kind B = CCW_NODE_BLOCK"
    and cs: "distinct cs" "set cs = insert i (set (n_children B))"
  shows "wf_heap (h(i \<mapsto> n\<lparr>n_name := nm, n_parent := b, n_attached := True\<rparr>,
                    b \<mapsto> B\<lparr>n_children := cs\<rparr>)) fs"
proof -
  let ?n = "n\<lparr>n_name := nm, n_parent := b, n_attached := True\<rparr>" and ?B = "B\<lparr>n_children := cs\<rparr>"
  let ?h = "h(i \<mapsto> ?n, b \<mapsto> ?B)"
  have ne: "i \<noteq> b" using i b k kb by auto
  have T: "at h j P \<Longrightarrow> (P n \<Longrightarrow> P ?n) \<Longrightarrow> (P B \<Longrightarrow> P ?B) \<Longrightarrow> at ?h j P" for j P
    using i by (auto intro: at_upd2_mono [where h = h and b = b, OF _ b])
  have TF: "at ?h j (\<lambda>n. n_kind n = CCW_NODE_FUNCTION) = at h j (\<lambda>n. n_kind n = CCW_NODE_FUNCTION)"
    for j using i b k kb by (intro at_upd2_eq) (simp_all add: at_def)
  have other: "node_ok ?h j x" if "h j = Some x" for j x
    using wf_heap_node [OF wf that]
    by (rule node_ok_mono) (erule T; use k kb un cs in \<open>simp add: link_defs\<close>)+
  have B: "block_ok h b B" using wf b kb by (rule wf_heap_block)
  have "at ?h i (is_instr_of b)" using ne k by (simp add: at_upd is_instr_of_def)
  then have "node_ok ?h b ?B"
    using B kb cs k un by (auto simp: node_ok_def block_ok_def link_defs intro!: T)
  moreover have "at ?h b (is_block_with i)" using kb cs by (simp add: at_upd is_block_with_def)
  then have "node_ok ?h i ?n"
    using wf_heap_instr [OF wf i k] k kb
    by (auto simp: node_ok_def instr_ok_def is_operand_def intro!: T)
  ultimately show ?thesis
    using wf other by (auto simp: wf_heap_def TF split: if_splits)
qed

text \<open>Detaching an instruction from its block.\<close>

lemma wf_heap_detach:
  assumes wf: "wf_heap h fs" and i: "h i = Some n" and k: "n_kind n = CCW_NODE_INSTR"
    and un: "n_attached n" and b: "h b = Some B" and kb: "n_kind B = CCW_NODE_BLOCK"
    and p: "n_parent n = b" and cs: "distinct cs" "set cs = set (n_children B) - {i}"
  shows "wf_heap (h(i \<mapsto> n\<lparr>n_parent := 0, n_attached := False\<rparr>, b \<mapsto> B\<lparr>n_children := cs\<rparr>)) fs"
proof -
  let ?n = "n\<lparr>n_parent := 0, n_attached := False\<rparr>" and ?B = "B\<lparr>n_children := cs\<rparr>"
  let ?h = "h(i \<mapsto> ?n, b \<mapsto> ?B)"
  have ne: "i \<noteq> b" using i b k kb by auto
  have T: "at h j P \<Longrightarrow> (j = i \<Longrightarrow> P n \<Longrightarrow> P ?n) \<Longrightarrow> (P B \<Longrightarrow> P ?B) \<Longrightarrow> at ?h j P" for j P
    using i b by (auto simp: at_upd at_def)
  have TF: "at ?h j (\<lambda>n. n_kind n = CCW_NODE_FUNCTION) = at h j (\<lambda>n. n_kind n = CCW_NODE_FUNCTION)"
    for j using i b k kb by (intro at_upd2_eq) (simp_all add: at_def)
  have other: "node_ok ?h j x" if j: "h j = Some x" "j \<noteq> i" "j \<noteq> b" for j x
  proof (rule node_ok_mono [OF wf_heap_node [OF wf j(1)]])
    fix c assume c: "n_kind x = CCW_NODE_BLOCK" "c \<in> set (n_children x)" "at h c (is_instr_of j)"
    have "c \<noteq> i" using c(3) i p j(3) by (auto simp: at_def link_defs)
    with c(3) show "at ?h c (is_instr_of j)"
      by (elim T) (use kb in \<open>simp_all add: link_defs\<close>)
  next
    assume "at h (n_parent x) (is_block_with j)"
    then show "at ?h (n_parent x) (is_block_with j)"
      by (elim T) (use k j cs in \<open>simp_all add: link_defs\<close>)
  qed (erule T; use k kb in \<open>simp add: link_defs\<close>)+
  have B: "block_ok h b B" using wf b kb by (rule wf_heap_block)
  have "node_ok ?h b ?B"
    using B kb cs k
    by (auto simp: node_ok_def block_ok_def link_defs intro!: T)
  moreover have "node_ok ?h i ?n"
    using wf_heap_instr [OF wf i k] k kb
    by (auto simp: node_ok_def instr_ok_def is_operand_def intro!: T)
  ultimately show ?thesis
    using wf other by (auto simp: wf_heap_def TF split: if_splits)
qed

text \<open>Deleting a block with all its instructions.\<close>

definition heap_delete_block :: "heap \<Rightarrow> ccw_node \<Rightarrow> ccw_ir_node \<Rightarrow> ccw_node list \<Rightarrow> heap" where
  "heap_delete_block h b B cs =
     (\<lambda>j. if j = b \<or> j \<in> set (n_children B) then None
          else if j = n_parent B then map_option (\<lambda>F. F\<lparr>n_children := cs\<rparr>) (h j) else h j)"

lemma wf_heap_delete_block:
  assumes wf: "wf_heap h fs" and b: "h b = Some B" and kb: "n_kind B = CCW_NODE_BLOCK"
    and f: "h (n_parent B) = Some F" and kf: "n_kind F = CCW_NODE_FUNCTION"
    and cs: "distinct cs" "set cs = set (n_children F) - {b}"
  shows "wf_heap (heap_delete_block h b B cs) fs"
proof -
  let ?h = "heap_delete_block h b B cs" and ?f = "n_parent B"
  have B: "block_ok h b B" using wf b kb by (rule wf_heap_block)
  have I: "at h c (is_instr_of b)" if "c \<in> set (n_children B)" for c
    using B that by (simp add: block_ok_def)
  have T: "at ?h j P"
    if "at h j P" "j = b \<Longrightarrow> \<not> P B" "\<And>n. is_instr_of b n \<Longrightarrow> \<not> P n"
      "j = ?f \<Longrightarrow> P F \<Longrightarrow> P (F\<lparr>n_children := cs\<rparr>)" for j P
  proof -
    have "j \<notin> set (n_children B)" using I [of j] that(1,3) by (auto elim!: atE)
    moreover have "j \<noteq> b" using that(1,2) b by (auto simp: at_def)
    ultimately show ?thesis using that(1,4) f by (auto simp: heap_delete_block_def at_def)
  qed
  have TF: "at ?h j (\<lambda>n. n_kind n = CCW_NODE_FUNCTION) = at h j (\<lambda>n. n_kind n = CCW_NODE_FUNCTION)" for j
    using I [of j] b f kb kf by (auto simp: heap_delete_block_def at_def link_defs split: option.splits)
  have other: "node_ok ?h j x" if j: "h j = Some x" "j \<noteq> b" "j \<notin> set (n_children B)" "j \<noteq> ?f" for j x
  proof (rule node_ok_mono [OF wf_heap_node [OF wf j(1)]])
    assume x: "n_kind x = CCW_NODE_INSTR" "n_attached x" "at h (n_parent x) (is_block_with j)"
    have "n_parent x \<noteq> b" using x(3) b j(3) by (auto simp: at_def link_defs)
    with x(3) show "at ?h (n_parent x) (is_block_with j)"
      by (elim T) (use kf in \<open>auto simp: link_defs\<close>)
  qed (erule T; use j kb kf cs in \<open>auto simp: link_defs\<close>)+
  have F: "function_ok h ?f F" using wf f kf by (rule wf_heap_function)
  have "at ?h p is_reg" if "at h p is_reg" for p
    using that by (rule T) (use kb kf in \<open>auto simp: link_defs\<close>)
  moreover have "at ?h c (is_block_of ?f)" if "c \<in> set cs" for c
  proof -
    from that F cs have c: "at h c (is_block_of ?f)" "c \<noteq> b" by (auto simp: function_ok_def)
    from c(1) show ?thesis by (rule T) (use kf c in \<open>auto simp: link_defs\<close>)
  qed
  ultimately have "node_ok ?h ?f (F\<lparr>n_children := cs\<rparr>)"
    using F kf cs by (simp add: node_ok_def function_ok_def)
  with other wf f show ?thesis
    unfolding wf_heap_def TF by (auto simp: heap_delete_block_def split: if_splits)
qed

text \<open>Appending a block's instructions to another block and removing it.\<close>

definition heap_merge :: "heap \<Rightarrow> ccw_node \<Rightarrow> ccw_ir_node \<Rightarrow> ccw_node \<Rightarrow> ccw_ir_node \<Rightarrow> ccw_node list \<Rightarrow> heap" where
  "heap_merge h a A b B cs =
     (\<lambda>j. if j = b \<or> j = last (n_children A) then None
          else if j = a then Some (A\<lparr>n_children := butlast (n_children A) @ n_children B\<rparr>)
          else if j = n_parent A then map_option (\<lambda>F. F\<lparr>n_children := cs\<rparr>) (h j)
          else if j \<in> set (n_children B) then map_option (\<lambda>n. n\<lparr>n_parent := a\<rparr>) (h j)
          else h j)"

lemma wf_heap_merge:
  assumes wf: "wf_heap h fs" and a: "h a = Some A" and ka: "n_kind A = CCW_NODE_BLOCK"
    and b: "h b = Some B" and kb: "n_kind B = CCW_NODE_BLOCK" and ab: "a \<noteq> b"
    and f: "h (n_parent A) = Some F" and kf: "n_kind F = CCW_NODE_FUNCTION"
    and p: "n_parent B = n_parent A" and ne: "n_children A \<noteq> []"
    and cs: "distinct cs" "set cs = set (n_children F) - {b}"
  shows "wf_heap (heap_merge h a A b B cs) fs"
proof -
  let ?h = "heap_merge h a A b B cs" and ?f = "n_parent A" and ?l = "last (n_children A)"
  let ?A = "A\<lparr>n_children := butlast (n_children A) @ n_children B\<rparr>"
  have A: "block_ok h a A" using wf a ka by (rule wf_heap_block)
  have B: "block_ok h b B" using wf b kb by (rule wf_heap_block)
  have IA: "at h c (is_instr_of a)" if "c \<in> set (n_children A)" for c
    using A that by (simp add: block_ok_def)
  have IB: "at h c (is_instr_of b)" if "c \<in> set (n_children B)" for c
    using B that by (simp add: block_ok_def)
  have l: "at h ?l (is_instr_of a)" using IA ne by simp
  have disj: "c \<notin> set (n_children B)" if "c \<in> set (n_children A)" for c
    using IA [OF that] IB [of c] ab by (auto elim!: atE simp: link_defs)
  have T: "at ?h j P"
    if "at h j P" "j = b \<Longrightarrow> \<not> P B" "j = ?l \<Longrightarrow> \<not> at h ?l P" "j = a \<Longrightarrow> P A \<Longrightarrow> P ?A"
      "j = ?f \<Longrightarrow> P F \<Longrightarrow> P (F\<lparr>n_children := cs\<rparr>)"
      "\<And>n. j \<in> set (n_children B) \<Longrightarrow> is_instr_of b n \<Longrightarrow> P n \<Longrightarrow> P (n\<lparr>n_parent := a\<rparr>)" for j P
    using that IB [of j] a b f by (auto simp: heap_merge_def at_def split: option.splits)
  have L: "\<not> at h ?l P" if "\<And>n. is_instr_of a n \<Longrightarrow> \<not> P n" for P
    using l that by (auto elim!: atE)
  have TF: "at ?h j (\<lambda>n. n_kind n = CCW_NODE_FUNCTION) = at h j (\<lambda>n. n_kind n = CCW_NODE_FUNCTION)" for j
    using l a b f ka kb kf IB [of j]
    by (auto simp: heap_merge_def at_def link_defs split: option.splits)
  have opnd: "at ?h c is_operand" if "at h c is_operand" for c
    using that by (rule T) (use ka kb kf L [of is_operand] in \<open>auto simp: link_defs\<close>)
  have reg: "at ?h c is_reg" if "at h c is_reg" for c
    using that by (rule T) (use ka kb kf L [of is_reg] in \<open>auto simp: link_defs\<close>)
  have fw: "at ?h c (is_function_with x)" if "at h c (is_function_with x)" "x \<noteq> b" for c x
    using that(1) by (rule T)
      (use that ka kb kf cs L [of "is_function_with x"] in \<open>auto simp: link_defs\<close>)
  have other: "node_ok ?h j x"
    if j: "h j = Some x" "j \<noteq> a" "j \<noteq> b" "j \<noteq> ?f" "j \<noteq> ?l" "j \<notin> set (n_children B)" for j x
  proof (rule node_ok_mono [OF wf_heap_node [OF wf j(1)]])
    fix c assume "at h c (is_block_of j)"
    then show "at ?h c (is_block_of j)"
      by (rule T) (use j p kb kf L [of "is_block_of j"] in \<open>auto simp: link_defs\<close>)
  next
    fix c assume "at h c (is_instr_of j)"
    then show "at ?h c (is_instr_of j)"
      by (rule T) (use j ka kb kf L [of "is_instr_of j"] in \<open>auto simp: link_defs\<close>)
  next
    assume x: "at h (n_parent x) (is_block_with j)"
    have "j \<notin> set (n_children A) \<or> j \<in> set (butlast (n_children A))"
      using j(5) ne by (metis append_butlast_last_id insert_iff list.simps(15) rotate1.simps(2) set_rotate1)
    then show "at ?h (n_parent x) (is_block_with j)"
      using x by (intro T) (use j ka kb kf L [of "is_block_with j"] in \<open>auto simp: link_defs\<close>)
  qed (use that j in \<open>simp_all add: opnd reg fw\<close>)
  have F: "function_ok h ?f F" using wf f kf by (rule wf_heap_function)
  have "at ?h c (is_block_of ?f)" if "c \<in> set cs" for c
  proof -
    from that F cs have c: "at h c (is_block_of ?f)" "c \<noteq> b" by (auto simp: function_ok_def)
    from c(1) show ?thesis
      by (rule T) (use kf c ka L [of "is_block_of ?f"] in \<open>auto simp: link_defs\<close>)
  qed
  then have okF: "node_ok ?h ?f (F\<lparr>n_children := cs\<rparr>)"
    using F kf cs reg by (simp add: node_ok_def function_ok_def)
  have iB: "at ?h c (is_instr_of a)" if c: "c \<in> set (n_children B)" for c
  proof -
    have "c \<noteq> ?l" using disj [of ?l] c ne by auto
    with IB [OF c] c ka kb kf a b f show ?thesis
      by (auto simp: heap_merge_def at_def link_defs split: option.splits)
  qed
  have iA: "at ?h c (is_instr_of a)" if c: "c \<in> set (butlast (n_children A))" for c
  proof -
    have cA: "c \<in> set (n_children A)" using c by (rule in_set_butlastD)
    have "distinct (butlast (n_children A) @ [?l])" using A ne by (simp add: block_ok_def)
    then have "c \<noteq> ?l" using c by auto
    with IA [OF cA] show ?thesis
      by (elim T) (use ka kb kf disj [OF cA] in \<open>auto simp: link_defs\<close>)
  qed
  have dA: "distinct (butlast (n_children A) @ n_children B)"
    using A B disj by (auto simp: block_ok_def distinct_butlast dest: in_set_butlastD)
  have okA: "node_ok ?h a ?A"
    using A ka dA iA iB ab fw [of ?f a] by (auto simp: node_ok_def block_ok_def)
  have okI: "node_ok ?h c (n\<lparr>n_parent := a\<rparr>)" if c: "c \<in> set (n_children B)" "h c = Some n" for c n
  proof -
    have n: "n_kind n = CCW_NODE_INSTR" "n_attached n"
      using IB [OF c(1)] c(2) by (auto simp: at_def link_defs)
    have "a \<noteq> ?l" using l a ka by (auto simp: at_def link_defs)
    then have "at ?h a (is_block_with c)" using ab ka c by (simp add: at_def heap_merge_def link_defs)
    then show ?thesis
      using wf_heap_instr [OF wf c(2) n(1)] n opnd by (simp add: node_ok_def instr_ok_def)
  qed
  show ?thesis
    using wf other okF okA okI f unfolding wf_heap_def TF
    by (auto simp: heap_merge_def split: if_splits)
qed

end
