(* ===== verification/IR_Inv.thy ===== *)
theory IR_Inv
  imports IR_Wf
begin

text \<open>
  Every operation of the IR API keeps the structural invariant \<open>wf_ir\<close>. The operations are the
  steps of a state machine whose reachable states are therefore all well formed.
\<close>

section \<open>Positions in a vector\<close>

lemma vec_index_from_bound: "vec_index_from i v n = -1 \<or> int i \<le> vec_index_from i v n"
  by (induction v arbitrary: i) (auto dest: le_trans, smt (verit) of_nat_Suc)

lemma vec_index_from_Some:
  "x \<in> set v \<Longrightarrow> \<exists>k < length v. vec_index_from i v x = int (i + k) \<and> v ! k = x"
proof (induction v arbitrary: i)
  case Nil
  then show ?case by simp
next
  case (Cons y v)
  show ?case
  proof (cases "y = x")
    case True
    then show ?thesis by (intro exI [of _ 0]) simp
  next
    case False
    with Cons obtain k where "k < length v" "vec_index_from (Suc i) v x = int (Suc i + k)" "v ! k = x"
      by (metis set_ConsD)
    with False show ?thesis by (intro exI [of _ "Suc k"]) simp
  qed
qed

lemma vec_index_from_None: "x \<notin> set v \<Longrightarrow> vec_index_from i v x = -1"
  by (induction v arbitrary: i) auto

lemma index_of_Some:
  assumes "x \<in> set v"
  obtains k where "k < length v" "ccw_node_vec_index_of v x = int k" "v ! k = x"
  using vec_index_from_Some [OF assms, of 0] by (auto simp: ccw_node_vec_index_of_def)

lemma index_of_None: "x \<notin> set v \<Longrightarrow> ccw_node_vec_index_of v x = -1"
  by (simp add: ccw_node_vec_index_of_def vec_index_from_None)

lemma index_of_neg: "ccw_node_vec_index_of v x < 0 \<longleftrightarrow> x \<notin> set v"
  by (metis index_of_None index_of_Some of_nat_less_0_iff zero_less_one neg_less_0_iff_less)

lemma index_of_middle:
  "x \<notin> set xs \<Longrightarrow> ccw_node_vec_index_of (xs @ x # ys) x = int (length xs)"
proof -
  have "x \<notin> set xs \<Longrightarrow> vec_index_from i (xs @ x # ys) x = int (i + length xs)" for i
    by (induction xs arbitrary: i) auto
  then show "x \<notin> set xs \<Longrightarrow> ?thesis" by (simp add: ccw_node_vec_index_of_def)
qed

lemma remove_at_nth:
  "k < length v \<Longrightarrow> ccw_node_vec_remove_at v (int k) = take k v @ drop (Suc k) v"
  by (simp add: ccw_node_vec_remove_at_def)

lemma remove_at_middle [simp]:
  "ccw_node_vec_remove_at (xs @ x # ys) (int (length xs)) = xs @ ys"
  by (simp add: remove_at_nth)

lemma insert_at_middle [simp]:
  "ccw_node_vec_insert_at (xs @ ys) (length xs) n = xs @ n # ys"
  by (simp add: ccw_node_vec_insert_at_def)

lemma remove_index_of:
  assumes "x \<in> set v" "distinct v"
  shows "distinct (ccw_node_vec_remove_at v (ccw_node_vec_index_of v x))"
    and "set (ccw_node_vec_remove_at v (ccw_node_vec_index_of v x)) = set v - {x}"
proof -
  obtain xs ys where v: "v = xs @ x # ys" using assms(1) by (meson split_list)
  with assms(2) have i: "ccw_node_vec_index_of v x = int (length xs)" by (simp add: index_of_middle)
  show "distinct (ccw_node_vec_remove_at v (ccw_node_vec_index_of v x))"
    "set (ccw_node_vec_remove_at v (ccw_node_vec_index_of v x)) = set v - {x}"
    using assms(2) unfolding i unfolding v by auto
qed

section \<open>Allocation\<close>

lemma alloc_facts:
  assumes wf: "wf_ir ir" and new: "ccw_ir_node_new ir k = (ir1, i)" and k: "k \<noteq> CCW_NODE_DEAD"
    and f: "\<And>n. n_kind (f n) = n_kind n" "\<And>n. n_id (f n) = n_id n"
  shows "i = next_id ir" "0 < i" "ccw_ir_node_get ir i = None"
    "ccw_ir_node_get (upd_node ir1 i f) = (ccw_ir_node_get ir)(i \<mapsto> f (blank_node k i))"
    "ids_ok (upd_node ir1 i f)" "m_functions ir1 = m_functions ir"
proof -
  have ids: "ids_ok ir" using wf by (simp add: wf_ir_def)
  have s: "ir1 = fst (ccw_ir_node_new ir k)" "i = snd (ccw_ir_node_new ir k)" using new by simp_all
  show i: "i = next_id ir" using s nt.new_id by simp
  show p: "0 < i" using ids ids_ok_next i by simp
  show "ccw_ir_node_get ir i = None" using i nt.fresh by simp
  have g: "ccw_ir_node_get ir1 = (ccw_ir_node_get ir)(i \<mapsto> blank_node k i)"
    using nt.get_new [of ir k] p k i s by (simp add: node_live_def blank_node_def)
  then have "ccw_ir_node_get ir1 i = Some (blank_node k i)" by simp
  from get_upd_keep [where f = f, OF this f(1)] g
  show "ccw_ir_node_get (upd_node ir1 i f) = (ccw_ir_node_get ir)(i \<mapsto> f (blank_node k i))" by simp
  show "ids_ok (upd_node ir1 i f)"
    using ids_ok_upd ids_ok_new ids p s f(2) by (metis neq0_conv)
  show "m_functions ir1 = m_functions ir" using s by simp
qed

lemma wf_upd:
  assumes wf: "wf_ir ir" and i: "ccw_ir_node_get ir i = Some n"
    and f: "\<And>n. n_kind (f n) = n_kind n" "\<And>n. n_id (f n) = n_id n"
    and h: "wf_heap ((ccw_ir_node_get ir)(i \<mapsto> f n)) (m_functions ir)"
  shows "wf_ir (upd_node ir i f)"
  using assms get_upd_keep [where f = f, OF i f(1)] ids_ok_upd [of ir i f] node_get_pos [OF i]
  by (simp add: wf_ir_def)

lemma wf_heapD: "wf_ir ir \<Longrightarrow> wf_heap (ccw_ir_node_get ir) (m_functions ir)"
  by (simp add: wf_ir_def)

section \<open>Construction\<close>

lemma wf_module_create: "wf_ir (ccw_ir_module_create name p)"
proof -
  have "ccw_ir_node_get (ccw_ir_module_create name p) = (\<lambda>_. None)"
    by (rule ext) (auto simp: ccw_ir_module_create_def ccw_ir_node_new_def ccw_ir_node_get_def
        blank_node_def Let_def)
  then show ?thesis
    by (simp add: wf_ir_def ids_ok_def wf_heap_def at_def ccw_ir_module_create_def
        ccw_ir_node_new_def blank_node_def Let_def)
qed

lemma wf_attr_set: "wf_ir ir \<Longrightarrow> wf_ir (fst (ccw_ir_attr_set ir owner k v))"
proof -
  assume wf: "wf_ir ir"
  show ?thesis
  proof (cases "owner = 0")
    case True
    with wf show ?thesis
      by (simp add: ccw_ir_attr_set_def ccw_attrs_of_def wf_ir_def split: prod.splits)
  next
    case False
    show ?thesis
    proof (cases "ccw_ir_node_get ir owner")
      case None
      with False wf show ?thesis by (simp add: ccw_ir_attr_set_def ccw_attrs_of_def)
    next
      case (Some n)
      have "wf_ir (upd_node ir owner (\<lambda>n. n\<lparr>n_attrs := a\<rparr>))" for a
        by (rule wf_upd [OF wf Some]; simp?)
          (rule wf_heap_upd_links [OF wf_heapD [OF wf] Some]; simp add: same_links_def)
      with False Some show ?thesis
        by (simp add: ccw_ir_attr_set_def ccw_attrs_of_def split: prod.splits)
    qed
  qed
qed

lemma wf_function_add:
  assumes wf: "wf_ir ir"
  shows "wf_ir (fst (ccw_ir_function_add ir name t))"
proof (cases name)
  case None
  with wf show ?thesis by (simp add: ccw_ir_function_add_def)
next
  case (Some s)
  let ?f = "\<lambda>n. n\<lparr>n_name := Some s, n_type := t\<rparr>"
  obtain ir1 i where new: "ccw_ir_node_new ir CCW_NODE_FUNCTION = (ir1, i)" by fastforce
  note a = alloc_facts [where f = ?f, OF wf new]
  have "wf_heap (ccw_ir_node_get (upd_node ir1 i ?f)) (m_functions ir @ [i])"
    using wf_heap_fresh_function [OF wf_heapD [OF wf] a(3)] a(4) by (simp add: blank_node_def)
  with a Some new show ?thesis by (simp add: ccw_ir_function_add_def wf_ir_def)
qed

lemma wf_operand_new:
  assumes wf: "wf_ir ir"
    and nm: "k \<in> {CCW_OPND_REG, CCW_OPND_FUNC, CCW_OPND_BLOCK} \<Longrightarrow> name \<noteq> None"
  shows "wf_ir (fst (ccw_operand_new ir k name))"
    and "ccw_ir_node_get (fst (ccw_operand_new ir k name)) =
           (ccw_ir_node_get ir)(next_id ir \<mapsto>
             (blank_node CCW_NODE_OPERAND (next_id ir))\<lparr>n_okind := k, n_name := name\<rparr>)"
    and "snd (ccw_operand_new ir k name) = next_id ir"
    and "0 < next_id ir"
    and "m_functions (fst (ccw_operand_new ir k name)) = m_functions ir"
proof -
  let ?f = "\<lambda>n. n\<lparr>n_okind := k, n_name := name\<rparr>"
  obtain ir1 i where new: "ccw_ir_node_new ir CCW_NODE_OPERAND = (ir1, i)" by fastforce
  note a = alloc_facts [where f = ?f, OF wf new]
  have "wf_heap (ccw_ir_node_get (upd_node ir1 i ?f)) (m_functions ir)"
    using wf_heap_fresh [OF wf_heapD [OF wf] a(3), of "?f (blank_node CCW_NODE_OPERAND i)"] a(4) nm
    by (simp add: blank_node_def node_ok_def operand_ok_def)
  with a new show "wf_ir (fst (ccw_operand_new ir k name))"
    by (simp add: ccw_operand_new_def wf_ir_def)
  from a new show "ccw_ir_node_get (fst (ccw_operand_new ir k name)) =
           (ccw_ir_node_get ir)(next_id ir \<mapsto>
             (blank_node CCW_NODE_OPERAND (next_id ir))\<lparr>n_okind := k, n_name := name\<rparr>)"
    "snd (ccw_operand_new ir k name) = next_id ir" "0 < next_id ir"
    "m_functions (fst (ccw_operand_new ir k name)) = m_functions ir"
    by (simp_all add: ccw_operand_new_def)
qed

lemma wf_operand_named:
  assumes "wf_ir ir"
  shows "wf_ir (fst (ccw_ir_operand_reg ir name))" "wf_ir (fst (ccw_ir_operand_func ir name))"
    "wf_ir (fst (ccw_ir_operand_block ir name))"
  using assms by (auto simp: ccw_ir_operand_reg_def ccw_ir_operand_func_def
      ccw_ir_operand_block_def intro!: wf_operand_new(1))

lemma wf_set_operand_value:
  assumes wf: "wf_ir ir" and i: "ccw_ir_node_get ir i = Some n"
  shows "wf_ir (upd_node ir i (\<lambda>n. n\<lparr>n_type := t, n_ival := v\<rparr>))"
    "wf_ir (upd_node ir i (\<lambda>n. n\<lparr>n_type := t, n_fval := d\<rparr>))"
    "wf_ir (upd_node ir i (\<lambda>n. n\<lparr>n_type := t\<rparr>))"
  by (rule wf_upd [OF wf i], simp, simp, rule wf_heap_upd_links [OF wf_heapD [OF wf] i];
      simp add: same_links_def)+

lemma wf_operand_const:
  assumes wf: "wf_ir ir"
  shows "wf_ir (fst (ccw_ir_operand_const_int ir t v))"
    "wf_ir (fst (ccw_ir_operand_const_float ir t d))"
proof -
  note a = wf_operand_new [OF wf, where name = None]
  show "wf_ir (fst (ccw_ir_operand_const_int ir t v))"
    using a(1) [of CCW_OPND_CONST_INT] wf_set_operand_value(1)
    by (auto simp: ccw_ir_operand_const_int_def split: prod.splits option.splits)
  show "wf_ir (fst (ccw_ir_operand_const_float ir t d))"
    using a(1) [of CCW_OPND_CONST_FLOAT] wf_set_operand_value(2)
    by (auto simp: ccw_ir_operand_const_float_def split: prod.splits option.splits)
qed

text \<open>Two writes at different nodes, as one heap move.\<close>

lemma get_upd2:
  assumes i: "ccw_ir_node_get ir i = Some n" and b: "ccw_ir_node_get ir b = Some B" and ne: "i \<noteq> b"
    and f: "n_kind (f n) = n_kind n" and g: "n_kind (g B) = n_kind B"
  shows "ccw_ir_node_get (upd_node (upd_node ir i f) b g) = (ccw_ir_node_get ir)(i \<mapsto> f n, b \<mapsto> g B)"
proof -
  have "ccw_ir_node_get (upd_node ir i f) b = Some B"
    using get_upd_keep [where f = f, OF i f] b ne by simp
  from get_upd_keep [where f = g, OF this g] get_upd_keep [where f = f, OF i f] show ?thesis by simp
qed

lemma wf_upd2:
  assumes wf: "wf_ir ir" and i: "ccw_ir_node_get ir i = Some n" and b: "ccw_ir_node_get ir b = Some B"
    and ne: "i \<noteq> b"
    and f: "\<And>n. n_kind (f n) = n_kind n" "\<And>n. n_id (f n) = n_id n"
    and g: "\<And>n. n_kind (g n) = n_kind n" "\<And>n. n_id (g n) = n_id n"
    and h: "wf_heap ((ccw_ir_node_get ir)(i \<mapsto> f n, b \<mapsto> g B)) (m_functions ir)"
  shows "wf_ir (upd_node (upd_node ir i f) b g)"
  using get_upd2 [where f = f and g = g, OF i b ne f(1) g(1)] h wf
    ids_ok_upd [of ir i f] ids_ok_upd [of "upd_node ir i f" b g] node_get_pos [OF i] node_get_pos [OF b]
  by (simp add: wf_ir_def f g)

lemma upd_upd_commute:
  "i \<noteq> j \<Longrightarrow> upd_node (upd_node ir i f) j g = upd_node (upd_node ir j g) i f"
  by (simp add: upd_node_def list_update_swap)

lemma wf_add_param:
  assumes wf: "wf_ir ir"
  shows "wf_ir (fst (ccw_ir_function_add_param ir fn t name))"
proof (cases "ccw_ir_node_get_kind ir fn CCW_NODE_FUNCTION = None \<or> name = None")
  case True
  with wf show ?thesis by (simp add: ccw_ir_function_add_param_def)
next
  case False
  then obtain F s where F: "ccw_ir_node_get ir fn = Some F" "n_kind F = CCW_NODE_FUNCTION"
    and s: "name = Some s" by (auto simp: ir_simps)
  let ?p = "next_id ir" and ?ir1 = "fst (ccw_operand_new ir CCW_OPND_REG (Some s))"
  note a = wf_operand_new [OF wf, of CCW_OPND_REG "Some s", simplified]
  have ne: "fn \<noteq> ?p" using F(1) nt.fresh [of ir] by auto
  have p: "ccw_ir_node_get ?ir1 ?p =
      Some ((blank_node CCW_NODE_OPERAND ?p)\<lparr>n_okind := CCW_OPND_REG, n_name := Some s\<rparr>)"
    using a(2) by simp
  have F1: "ccw_ir_node_get ?ir1 fn = Some F" using a(2) ne F by simp
  let ?ir2 = "upd_node ?ir1 ?p (\<lambda>n. n\<lparr>n_type := t\<rparr>)"
  have wf2: "wf_ir ?ir2" using wf_set_operand_value(3) [OF a(1) p] by simp
  have F2: "ccw_ir_node_get ?ir2 fn = Some F" using nt.get_upd_other ne F1 by metis
  have "ccw_ir_node_get ?ir2 ?p =
      Some ((blank_node CCW_NODE_OPERAND ?p)\<lparr>n_okind := CCW_OPND_REG, n_name := Some s, n_type := t\<rparr>)"
    using get_upd_keep [where f = "\<lambda>n. n\<lparr>n_type := t\<rparr>", OF p] by simp
  then have "at (ccw_ir_node_get ?ir2) ?p is_reg" by (simp add: at_def is_reg_def blank_node_def)
  moreover have "\<forall>p \<in> set (n_params F). at (ccw_ir_node_get ?ir2) p is_reg"
    using wf_heap_function [OF wf_heapD [OF wf2] F2 F(2)] by (simp add: function_ok_def)
  ultimately have "\<forall>q \<in> set (n_params F @ [?p]). at (ccw_ir_node_get ?ir2) q is_reg" by simp
  then have "wf_heap ((ccw_ir_node_get ?ir2)(fn \<mapsto> F\<lparr>n_params := n_params F @ [?p]\<rparr>)) (m_functions ?ir2)"
    by (rule wf_heap_params [OF wf_heapD [OF wf2] F2 F(2)])
  then have "wf_ir (upd_node ?ir2 fn (\<lambda>n. n\<lparr>n_params := n_params n @ [?p]\<rparr>))"
    by (intro wf_upd [OF wf2 F2]) simp_all
  moreover have "ccw_ir_function_add_param ir fn t name =
      (upd_node ?ir2 fn (\<lambda>n. n\<lparr>n_params := n_params n @ [?p]\<rparr>), CCW_OK)"
    using False s a(3,4) F1 F(2) p
    by (cases "ccw_operand_new ir CCW_OPND_REG (Some s)")
      (simp add: ccw_ir_function_add_param_def ccw_ir_operand_reg_def ccw_ir_node_get_kind_def)
  ultimately show ?thesis by simp
qed

lemma wf_block_add:
  assumes wf: "wf_ir ir"
  shows "wf_ir (fst (ccw_ir_block_add ir fn name))"
proof (cases "ccw_ir_node_get_kind ir fn CCW_NODE_FUNCTION = None \<or> name = None")
  case True
  with wf show ?thesis by (simp add: ccw_ir_block_add_def)
next
  case False
  then obtain F where F: "ccw_ir_node_get ir fn = Some F" "n_kind F = CCW_NODE_FUNCTION"
    by (auto simp: ir_simps)
  let ?f = "\<lambda>n. n\<lparr>n_name := name, n_parent := fn\<rparr>"
  obtain ir1 i where new: "ccw_ir_node_new ir CCW_NODE_BLOCK = (ir1, i)" by fastforce
  note a = alloc_facts [where f = ?f, OF wf new]
  let ?ir2 = "upd_node ir1 i ?f" and ?g = "\<lambda>n. n\<lparr>n_children := n_children n @ [i]\<rparr>"
  have ne: "fn \<noteq> i" using F(1) a(3) by auto
  have F2: "ccw_ir_node_get ?ir2 fn = Some F" using a(4) ne F by simp
  have "wf_heap ((ccw_ir_node_get ir)(i \<mapsto> ?f (blank_node CCW_NODE_BLOCK i),
      fn \<mapsto> F\<lparr>n_children := n_children F @ [i]\<rparr>)) (m_functions ir)"
    using False by (intro wf_heap_add_block [OF wf_heapD [OF wf] a(3) F]) (simp_all add: blank_node_def)
  then have "wf_ir (upd_node ?ir2 fn ?g)"
    using get_upd_keep [where f = ?g, OF F2] a ids_ok_upd [of ?ir2 fn ?g] node_get_pos [OF F2]
    by (simp add: wf_ir_def)
  with wf False new show ?thesis by (simp add: ccw_ir_block_add_def)
qed

lemma wf_instr_build:
  assumes wf: "wf_ir ir"
  shows "wf_ir (fst (ccw_ir_instr_build ir opcode t))"
proof (cases opcode)
  case None
  with wf show ?thesis by (simp add: ccw_ir_instr_build_def)
next
  case (Some s)
  let ?f = "\<lambda>n. n\<lparr>n_opcode := Some s, n_type := t, n_attached := False\<rparr>"
  obtain ir1 i where new: "ccw_ir_node_new ir CCW_NODE_INSTR = (ir1, i)" by fastforce
  note a = alloc_facts [where f = ?f, OF wf new]
  have "wf_heap (ccw_ir_node_get (upd_node ir1 i ?f)) (m_functions ir)"
    using wf_heap_fresh [OF wf_heapD [OF wf] a(3), of "?f (blank_node CCW_NODE_INSTR i)"] a(4)
    by (simp add: blank_node_def node_ok_def instr_ok_def)
  with a new Some show ?thesis by (simp add: ccw_ir_instr_build_def wf_ir_def)
qed

lemma wf_set_dest:
  assumes wf: "wf_ir ir"
  shows "wf_ir (fst (ccw_ir_instr_set_dest ir ins dest))"
proof (cases "ccw_ir_node_get_kind ir ins CCW_NODE_INSTR")
  case None
  with wf show ?thesis by (simp add: ccw_ir_instr_set_dest_def)
next
  case (Some n)
  then have n: "ccw_ir_node_get ir ins = Some n" "n_kind n = CCW_NODE_INSTR" by (simp_all add: ir_simps)
  have "wf_ir (upd_node ir ins (\<lambda>n. n\<lparr>n_name := dest\<rparr>))"
    by (rule wf_upd [OF wf n(1)]; simp?)
      (rule wf_heap_upd_links [OF wf_heapD [OF wf] n(1)]; simp add: same_links_def n)
  with Some show ?thesis by (simp add: ccw_ir_instr_set_dest_def)
qed

lemma wf_set_children:
  assumes wf: "wf_ir ir" and i: "ccw_ir_node_get ir i = Some n" "n_kind n = CCW_NODE_INSTR"
    and g: "\<forall>c \<in> set (g (n_children n)). at (ccw_ir_node_get ir) c is_operand"
  shows "wf_ir (upd_node ir i (\<lambda>n. n\<lparr>n_children := g (n_children n)\<rparr>))"
  by (rule wf_upd [OF wf i(1)]; simp?) (rule wf_heap_operands [OF wf_heapD [OF wf] i g])

lemma instr_operands_live:
  "wf_ir ir \<Longrightarrow> ccw_ir_node_get ir i = Some n \<Longrightarrow> n_kind n = CCW_NODE_INSTR \<Longrightarrow> c \<in> set (n_children n)
   \<Longrightarrow> at (ccw_ir_node_get ir) c is_operand"
  using wf_heap_instr [OF wf_heapD] by (auto simp: instr_ok_def)

lemma wf_add_operand:
  assumes wf: "wf_ir ir"
  shows "wf_ir (fst (ccw_ir_instr_add_operand ir ins operand))"
    "wf_ir (fst (ccw_ir_instr_set_operand ir ins idx operand))"
proof -
  have op: "at (ccw_ir_node_get ir) operand is_operand"
    if "ccw_ir_node_get_kind ir operand CCW_NODE_OPERAND = Some x" for x
    using that by (simp add: ir_simps at_def is_operand_def)
  show "wf_ir (fst (ccw_ir_instr_add_operand ir ins operand))"
    using wf op by (auto simp: ccw_ir_instr_add_operand_def ir_simps split: option.splits
        intro!: wf_set_children intro: instr_operands_live)
  have "wf_ir (upd_node ir ins (\<lambda>n. n\<lparr>n_children := (n_children n)[k := operand]\<rparr>))"
    if "ccw_ir_node_get ir ins = Some n" "n_kind n = CCW_NODE_INSTR"
      "ccw_ir_node_get_kind ir operand CCW_NODE_OPERAND = Some x" for n x k
    using wf op [OF that(3)] that(1,2)
    by (auto intro!: wf_set_children intro: instr_operands_live dest!: set_update_subset_insert [THEN subsetD])
  with wf show "wf_ir (fst (ccw_ir_instr_set_operand ir ins idx operand))"
    by (auto simp: ccw_ir_instr_set_operand_def ir_simps split: option.splits)
qed

end
