(* ===== verification/IR_Moves.thy ===== *)
theory IR_Moves
  imports IR_Inv
begin

text \<open>
  What the attaching and detaching operations of the IR API do to the node table, as one heap
  equation per operation, and that they keep the invariant. A block is read as its instruction
  list \<open>xs @ i # ys\<close> around the instruction an operation touches.
\<close>

section \<open>The block of an attached instruction\<close>

lemma detach_twist: "n\<lparr>n_attached := x, n_parent := y\<rparr> = n\<lparr>n_parent := y, n_attached := x\<rparr>"
  by (cases n) simp

lemma attached_block:
  assumes wf: "wf_ir ir" and i: "ccw_ir_node_get ir i = Some n" "n_kind n = CCW_NODE_INSTR"
    and a: "n_attached n"
  obtains B xs ys where "ccw_ir_node_get ir (n_parent n) = Some B" "n_kind B = CCW_NODE_BLOCK"
    "n_children B = xs @ i # ys" "i \<notin> set xs" "i \<notin> set ys" "distinct (xs @ ys)" "i \<noteq> n_parent n"
proof -
  have "at (ccw_ir_node_get ir) (n_parent n) (is_block_with i)"
    using wf_heap_instr [OF wf_heapD [OF wf] i] a by (simp add: instr_ok_def)
  then obtain B where B: "ccw_ir_node_get ir (n_parent n) = Some B" "n_kind B = CCW_NODE_BLOCK"
    "i \<in> set (n_children B)" by (auto elim!: atE simp: is_block_with_def)
  from B(3) obtain xs ys where c: "n_children B = xs @ i # ys" by (meson split_list)
  moreover have "distinct (n_children B)"
    using wf_heap_block [OF wf_heapD [OF wf] B(1,2)] by (simp add: block_ok_def)
  moreover have "i \<noteq> n_parent n" using B i by auto
  ultimately show ?thesis using that B by simp
qed

lemma detached_not_child:
  assumes wf: "wf_ir ir" and i: "ccw_ir_node_get ir i = Some n" and a: "\<not> n_attached n"
    and b: "ccw_ir_node_get ir b = Some B" "n_kind B = CCW_NODE_BLOCK"
  shows "i \<notin> set (n_children B)"
  using wf_heap_block [OF wf_heapD [OF wf] b] i a
  by (auto simp: block_ok_def at_def is_instr_of_def)

lemma block_distinct:
  "wf_ir ir \<Longrightarrow> ccw_ir_node_get ir b = Some B \<Longrightarrow> n_kind B = CCW_NODE_BLOCK \<Longrightarrow> distinct (n_children B)"
  using wf_heap_block [OF wf_heapD] by (simp add: block_ok_def)

section \<open>Append\<close>

lemma append_effect:
  assumes i: "ccw_ir_node_get ir i = Some n" "n_kind n = CCW_NODE_INSTR" and a: "\<not> n_attached n"
    and b: "ccw_ir_node_get ir b = Some B" "n_kind B = CCW_NODE_BLOCK"
  shows "snd (ccw_ir_block_append_instr ir b i) = CCW_OK"
    "ccw_ir_node_get (fst (ccw_ir_block_append_instr ir b i)) =
       (ccw_ir_node_get ir)(i \<mapsto> n\<lparr>n_parent := b, n_attached := True\<rparr>,
                            b \<mapsto> B\<lparr>n_children := n_children B @ [i]\<rparr>)"
proof -
  have ne: "i \<noteq> b" using i b by auto
  show "snd (ccw_ir_block_append_instr ir b i) = CCW_OK"
    using assms by (simp add: ccw_ir_block_append_instr_def ccw_ir_node_get_kind_def)
  show "ccw_ir_node_get (fst (ccw_ir_block_append_instr ir b i)) =
       (ccw_ir_node_get ir)(i \<mapsto> n\<lparr>n_parent := b, n_attached := True\<rparr>,
                            b \<mapsto> B\<lparr>n_children := n_children B @ [i]\<rparr>)"
    using assms get_upd2 [where ir = ir and f = "\<lambda>n. n\<lparr>n_parent := b, n_attached := True\<rparr>"
        and g = "\<lambda>b. b\<lparr>n_children := n_children b @ [i]\<rparr>", OF i(1) b(1) ne]
    by (simp add: ccw_ir_block_append_instr_def ccw_ir_node_get_kind_def)
qed

lemma append_refuses:
  "\<not> (\<exists>n B. ccw_ir_node_get ir i = Some n \<and> n_kind n = CCW_NODE_INSTR \<and> \<not> n_attached n
         \<and> ccw_ir_node_get ir b = Some B \<and> n_kind B = CCW_NODE_BLOCK)
   \<Longrightarrow> ccw_ir_block_append_instr ir b i = (ir, CCW_ERR_TYPE)"
  by (auto simp: ccw_ir_block_append_instr_def ir_simps split: option.splits)

lemma wf_append:
  assumes wf: "wf_ir ir"
  shows "wf_ir (fst (ccw_ir_block_append_instr ir b i))"
proof (cases "\<exists>n B. ccw_ir_node_get ir i = Some n \<and> n_kind n = CCW_NODE_INSTR \<and> \<not> n_attached n
         \<and> ccw_ir_node_get ir b = Some B \<and> n_kind B = CCW_NODE_BLOCK")
  case False
  with wf show ?thesis using append_refuses [of ir i b] by simp
next
  case True
  then obtain n B where i: "ccw_ir_node_get ir i = Some n" "n_kind n = CCW_NODE_INSTR"
    and a: "\<not> n_attached n" and b: "ccw_ir_node_get ir b = Some B" "n_kind B = CCW_NODE_BLOCK" by blast
  have "i \<notin> set (n_children B)" using detached_not_child [OF wf i(1) a b] .
  then have "wf_heap ((ccw_ir_node_get ir)(i \<mapsto> n\<lparr>n_name := n_name n, n_parent := b, n_attached := True\<rparr>,
                            b \<mapsto> B\<lparr>n_children := n_children B @ [i]\<rparr>)) (m_functions ir)"
    using block_distinct [OF wf b] by (intro wf_heap_attach [OF wf_heapD [OF wf] i a b]) simp_all
  moreover have "i \<noteq> b" using i b by auto
  ultimately show ?thesis
    using a i b wf_upd2 [where f = "\<lambda>n. n\<lparr>n_parent := b, n_attached := True\<rparr>"
        and g = "\<lambda>b. b\<lparr>n_children := n_children b @ [i]\<rparr>", OF wf i(1) b(1)]
    by (simp add: ccw_ir_block_append_instr_def ccw_ir_node_get_kind_def)
qed

section \<open>Insert before an anchor\<close>

text \<open>The guard shared by \<open>replace\<close> and \<open>insert_before\<close>: an attached anchor, a detached newcomer.\<close>

definition edit_pair :: "ccw_ir \<Rightarrow> ccw_node \<Rightarrow> ccw_node \<Rightarrow> bool" where
  "edit_pair ir old new \<longleftrightarrow>
     at (ccw_ir_node_get ir) old (\<lambda>n. n_kind n = CCW_NODE_INSTR \<and> n_attached n)
     \<and> at (ccw_ir_node_get ir) new (\<lambda>n. n_kind n = CCW_NODE_INSTR \<and> \<not> n_attached n)"

lemma edit_pairE:
  assumes wf: "wf_ir ir" and p: "edit_pair ir old new"
  obtains a n B xs ys where "ccw_ir_node_get ir old = Some a" "n_kind a = CCW_NODE_INSTR" "n_attached a"
    "ccw_ir_node_get ir new = Some n" "n_kind n = CCW_NODE_INSTR" "\<not> n_attached n"
    "ccw_ir_node_get ir (n_parent a) = Some B" "n_kind B = CCW_NODE_BLOCK"
    "n_children B = xs @ old # ys" "old \<notin> set xs" "old \<notin> set ys" "distinct (xs @ ys)"
    "new \<notin> set xs" "new \<notin> set ys" "new \<noteq> old" "old \<noteq> n_parent a" "new \<noteq> n_parent a"
proof -
  from p obtain a n where a: "ccw_ir_node_get ir old = Some a" "n_kind a = CCW_NODE_INSTR" "n_attached a"
    and n: "ccw_ir_node_get ir new = Some n" "n_kind n = CCW_NODE_INSTR" "\<not> n_attached n"
    by (auto simp: edit_pair_def elim!: atE)
  from attached_block [OF wf a] obtain B xs ys where
    B: "ccw_ir_node_get ir (n_parent a) = Some B" "n_kind B = CCW_NODE_BLOCK"
    and c: "n_children B = xs @ old # ys" "old \<notin> set xs" "old \<notin> set ys" "distinct (xs @ ys)"
      "old \<noteq> n_parent a" by blast
  moreover have "new \<notin> set (n_children B)" using detached_not_child [OF wf n(1,3) B] .
  moreover have "new \<noteq> n_parent a" using B n by auto
  ultimately show ?thesis using that [OF a n B] by simp
qed

lemma insert_effect:
  assumes wf: "wf_ir ir" and p: "edit_pair ir anchor new"
  obtains a n B xs ys where "ccw_ir_node_get ir anchor = Some a" "ccw_ir_node_get ir new = Some n"
    "ccw_ir_node_get ir (n_parent a) = Some B" "n_kind B = CCW_NODE_BLOCK"
    "n_kind n = CCW_NODE_INSTR" "\<not> n_attached n"
    "n_children B = xs @ anchor # ys" "distinct (xs @ anchor # new # ys)"
    "snd (ccw_ir_instr_insert_before ir anchor new) = CCW_OK"
    "ccw_ir_node_get (fst (ccw_ir_instr_insert_before ir anchor new)) =
       (ccw_ir_node_get ir)(new \<mapsto> n\<lparr>n_parent := n_parent a, n_attached := True\<rparr>,
                            n_parent a \<mapsto> B\<lparr>n_children := xs @ new # anchor # ys\<rparr>)"
    "wf_ir (fst (ccw_ir_instr_insert_before ir anchor new))"
proof -
  obtain a n B xs ys where a: "ccw_ir_node_get ir anchor = Some a" "n_kind a = CCW_NODE_INSTR" "n_attached a"
    and n: "ccw_ir_node_get ir new = Some n" "n_kind n = CCW_NODE_INSTR" "\<not> n_attached n"
    and B: "ccw_ir_node_get ir (n_parent a) = Some B" "n_kind B = CCW_NODE_BLOCK"
    and c: "n_children B = xs @ anchor # ys" "anchor \<notin> set xs" "anchor \<notin> set ys" "distinct (xs @ ys)"
      "new \<notin> set xs" "new \<notin> set ys" "new \<noteq> anchor" "anchor \<noteq> n_parent a" "new \<noteq> n_parent a"
    using edit_pairE [OF wf p] by metis
  let ?f = "\<lambda>m. m\<lparr>n_parent := n_parent a, n_attached := True\<rparr>"
  let ?g = "\<lambda>b. b\<lparr>n_children := ccw_node_vec_insert_at (n_children b) (length xs) new\<rparr>"
  have idx: "ccw_node_vec_index_of (n_children B) anchor = int (length xs)"
    using c by (simp add: index_of_middle)
  have eq: "ccw_ir_instr_insert_before ir anchor new =
      (upd_node (upd_node ir new ?f) (n_parent a) ?g, CCW_OK)"
    using a n B c idx upd_upd_commute [of "n_parent a" new ir ?g ?f]
    by (simp add: ccw_ir_instr_insert_before_def ccw_ir_node_get_kind_def)
  have g: "?g B = B\<lparr>n_children := xs @ new # anchor # ys\<rparr>" using c by simp
  have "wf_heap ((ccw_ir_node_get ir)(new \<mapsto> n\<lparr>n_name := n_name n, n_parent := n_parent a, n_attached := True\<rparr>,
      n_parent a \<mapsto> B\<lparr>n_children := xs @ new # anchor # ys\<rparr>)) (m_functions ir)"
    using c by (intro wf_heap_attach [OF wf_heapD [OF wf] n B]) auto
  then have "wf_ir (upd_node (upd_node ir new ?f) (n_parent a) ?g)"
    using wf_upd2 [where f = ?f and g = ?g, OF wf n(1) B(1) c(9)] c by simp
  moreover have "ccw_ir_node_get (upd_node (upd_node ir new ?f) (n_parent a) ?g) =
      (ccw_ir_node_get ir)(new \<mapsto> ?f n, n_parent a \<mapsto> ?g B)"
    by (rule get_upd2 [OF n(1) B(1) c(9)]) simp_all
  ultimately show ?thesis using that [OF a(1) n(1) B n(2,3) c(1)] c eq g by simp
qed

lemma insert_refuses:
  "\<not> edit_pair ir anchor new \<Longrightarrow> ccw_ir_instr_insert_before ir anchor new = (ir, CCW_ERR_TYPE)"
  by (auto simp: edit_pair_def at_def ccw_ir_instr_insert_before_def ir_simps split: option.splits)

lemma wf_insert_before:
  "wf_ir ir \<Longrightarrow> wf_ir (fst (ccw_ir_instr_insert_before ir anchor new))"
  by (cases "edit_pair ir anchor new") (auto elim: insert_effect simp: insert_refuses)

section \<open>Delete\<close>

lemma delete_effect:
  assumes wf: "wf_ir ir" and i: "ccw_ir_node_get ir i = Some n" "n_kind n = CCW_NODE_INSTR"
    and a: "n_attached n"
  obtains B xs ys where "ccw_ir_node_get ir (n_parent n) = Some B" "n_kind B = CCW_NODE_BLOCK"
    "n_children B = xs @ i # ys" "distinct (xs @ i # ys)" "i \<noteq> n_parent n"
    "snd (ccw_ir_instr_delete ir i) = CCW_OK"
    "ccw_ir_node_get (fst (ccw_ir_instr_delete ir i)) =
       (ccw_ir_node_get ir)(i \<mapsto> n\<lparr>n_parent := 0, n_attached := False\<rparr>,
                            n_parent n \<mapsto> B\<lparr>n_children := xs @ ys\<rparr>)"
    "wf_ir (fst (ccw_ir_instr_delete ir i))"
proof -
  from attached_block [OF wf i a] obtain B xs ys where
    B: "ccw_ir_node_get ir (n_parent n) = Some B" "n_kind B = CCW_NODE_BLOCK"
    and c: "n_children B = xs @ i # ys" "i \<notin> set xs" "i \<notin> set ys" "distinct (xs @ ys)" "i \<noteq> n_parent n"
    by blast
  let ?f = "\<lambda>n. n\<lparr>n_attached := False, n_parent := 0\<rparr>"
  let ?g = "\<lambda>b. b\<lparr>n_children := ccw_node_vec_remove_at (n_children b) (int (length xs))\<rparr>"
  have eq: "ccw_ir_instr_delete ir i = (upd_node (upd_node ir i ?f) (n_parent n) ?g, CCW_OK)"
    using a i B c upd_upd_commute [of "n_parent n" i ir ?g ?f]
    by (simp add: ccw_ir_instr_delete_def ccw_ir_node_get_kind_def index_of_middle)
  have "wf_heap ((ccw_ir_node_get ir)(i \<mapsto> n\<lparr>n_parent := 0, n_attached := False\<rparr>,
      n_parent n \<mapsto> B\<lparr>n_children := xs @ ys\<rparr>)) (m_functions ir)"
    using c by (intro wf_heap_detach [OF wf_heapD [OF wf] i a B]) auto
  then have "wf_ir (upd_node (upd_node ir i ?f) (n_parent n) ?g)"
    using wf_upd2 [where f = ?f and g = ?g, OF wf i(1) B(1) c(5)] c by (simp add: detach_twist)
  moreover have "ccw_ir_node_get (upd_node (upd_node ir i ?f) (n_parent n) ?g) =
      (ccw_ir_node_get ir)(i \<mapsto> ?f n, n_parent n \<mapsto> ?g B)"
    by (rule get_upd2 [OF i(1) B(1) c(5)]) simp_all
  ultimately show ?thesis using that [OF B c(1)] c eq by (simp add: detach_twist)
qed

lemma delete_refuses:
  "\<not> at (ccw_ir_node_get ir) i (\<lambda>n. n_kind n = CCW_NODE_INSTR \<and> n_attached n)
   \<Longrightarrow> ccw_ir_instr_delete ir i = (ir, CCW_ERR_TYPE)"
  by (auto simp: at_def ccw_ir_instr_delete_def ir_simps split: option.splits)

lemma wf_instr_delete: "wf_ir ir \<Longrightarrow> wf_ir (fst (ccw_ir_instr_delete ir i))"
  by (cases "at (ccw_ir_node_get ir) i (\<lambda>n. n_kind n = CCW_NODE_INSTR \<and> n_attached n)")
    (auto elim!: atE elim: delete_effect simp: delete_refuses)

section \<open>Replace\<close>

definition inherited_dest :: "ccw_ir_node \<Rightarrow> ccw_ir_node \<Rightarrow> string option" where
  "inherited_dest a n = (if n_name n = None then n_name a else n_name n)"

lemma replace_effect:
  assumes wf: "wf_ir ir" and p: "edit_pair ir old new"
  obtains a n B xs ys where "ccw_ir_node_get ir old = Some a" "ccw_ir_node_get ir new = Some n"
    "ccw_ir_node_get ir (n_parent a) = Some B" "n_kind B = CCW_NODE_BLOCK"
    "n_children B = xs @ old # ys" "distinct (xs @ old # new # ys)"
    "snd (ccw_ir_instr_replace ir old new) = CCW_OK"
    "ccw_ir_node_get (fst (ccw_ir_instr_replace ir old new)) =
       (ccw_ir_node_get ir)
         (old \<mapsto> a\<lparr>n_parent := 0, n_attached := False\<rparr>,
          new \<mapsto> n\<lparr>n_name := inherited_dest a n, n_parent := n_parent a, n_attached := True\<rparr>,
          n_parent a \<mapsto> B\<lparr>n_children := xs @ new # ys\<rparr>)"
    "wf_ir (fst (ccw_ir_instr_replace ir old new))"
proof -
  obtain a n B xs ys where a: "ccw_ir_node_get ir old = Some a" "n_kind a = CCW_NODE_INSTR" "n_attached a"
    and n: "ccw_ir_node_get ir new = Some n" "n_kind n = CCW_NODE_INSTR" "\<not> n_attached n"
    and B: "ccw_ir_node_get ir (n_parent a) = Some B" "n_kind B = CCW_NODE_BLOCK"
    and c: "n_children B = xs @ old # ys" "old \<notin> set xs" "old \<notin> set ys" "distinct (xs @ ys)"
      "new \<notin> set xs" "new \<notin> set ys" "new \<noteq> old" "old \<noteq> n_parent a" "new \<noteq> n_parent a"
    using edit_pairE [OF wf p] by metis
  let ?b = "n_parent a" and ?h = "ccw_ir_node_get ir" and ?d = "inherited_dest a n"
  let ?g = "\<lambda>b. b\<lparr>n_children := (n_children b)[length xs := new]\<rparr>"
  let ?f = "\<lambda>m. m\<lparr>n_name := ?d, n_parent := n_parent a, n_attached := True\<rparr>"
  let ?u = "\<lambda>n. n\<lparr>n_attached := False, n_parent := 0\<rparr>"
  let ?ir1 = "upd_node ir ?b ?g" and ?o = "a\<lparr>n_parent := 0, n_attached := False\<rparr>"
  let ?ir3 = "upd_node (upd_node ?ir1 new ?f) old ?u"
  have d: "(if n_name n = None \<and> n_name a \<noteq> None then n_name a else n_name n) = ?d"
    by (auto simp: inherited_dest_def)
  have eq: "ccw_ir_instr_replace ir old new = (?ir3, CCW_OK)"
    unfolding ccw_ir_instr_replace_def ccw_ir_node_get_kind_def
    by (simp only: a n B option.case if_True prod.case HOL.simp_thms if_False d Let_def)
      (simp add: c index_of_middle)
  have h1: "ccw_ir_node_get ?ir1 = ?h(?b \<mapsto> B\<lparr>n_children := xs @ new # ys\<rparr>)"
    using get_upd_keep [where f = ?g, OF B(1)] c(1) by simp
  have n1: "ccw_ir_node_get ?ir1 new = Some n" "ccw_ir_node_get ?ir1 old = Some a"
    using h1 n a c by simp_all
  have h3: "ccw_ir_node_get ?ir3 = ?h(old \<mapsto> ?o, new \<mapsto> ?f n, ?b \<mapsto> B\<lparr>n_children := xs @ new # ys\<rparr>)"
    using get_upd2 [where f = ?f and g = ?u, OF n1 c(7)] h1 c by (simp add: fun_upd_twist detach_twist)
  let ?h1 = "?h(old \<mapsto> ?o, ?b \<mapsto> B\<lparr>n_children := xs @ ys\<rparr>)"
  have "wf_heap ?h1 (m_functions ir)"
    using c by (intro wf_heap_detach [OF wf_heapD [OF wf] a B]) auto
  then have "wf_heap (?h1(new \<mapsto> ?f n, ?b \<mapsto> (B\<lparr>n_children := xs @ ys\<rparr>)\<lparr>n_children := xs @ new # ys\<rparr>))
      (m_functions ir)"
    by (rule wf_heap_attach) (use n B c in auto)
  moreover have "?h1(new \<mapsto> ?f n, ?b \<mapsto> (B\<lparr>n_children := xs @ ys\<rparr>)\<lparr>n_children := xs @ new # ys\<rparr>)
      = ccw_ir_node_get ?ir3"
    using c unfolding h3 by (auto simp: fun_eq_iff)
  moreover have "ids_ok ?ir3"
    using wf node_get_pos [OF a(1)] node_get_pos [OF n(1)] node_get_pos [OF B(1)]
    by (intro ids_ok_upd) (simp_all add: wf_ir_def)
  ultimately have "wf_ir ?ir3" by (simp add: wf_ir_def)
  with h3 eq c show ?thesis using that [OF a(1) n(1) B c(1)] by simp
qed

lemma replace_refuses:
  "\<not> edit_pair ir old new \<Longrightarrow> ccw_ir_instr_replace ir old new = (ir, CCW_ERR_TYPE)"
  by (auto simp: edit_pair_def at_def ccw_ir_instr_replace_def ir_simps split: option.splits)

lemma wf_replace: "wf_ir ir \<Longrightarrow> wf_ir (fst (ccw_ir_instr_replace ir old new))"
  by (cases "edit_pair ir old new") (auto elim: replace_effect simp: replace_refuses)

end
