(* ===== verification/IR_Blocks.thy ===== *)
theory IR_Blocks
  imports IR_Moves
begin

text \<open>
  Block deletion and block merge on the node table: their loops terminate on every well-formed
  module (for merge: on two different blocks), the resulting table in closed form, and preservation
  of the invariant.
\<close>

section \<open>Killing nodes\<close>

lemma get_kill:
  assumes "ccw_ir_node_get ir i = Some n" and "n_kind (f n) = CCW_NODE_DEAD"
  shows "ccw_ir_node_get (upd_node ir i f) = (ccw_ir_node_get ir)(i := None)"
  using nt.get_upd_kill [where f = f, OF assms(1)] assms(2) by (simp add: node_live_def)

lemma kill_instrs_frame [simp]:
  "m_functions (kill_instrs ir is) = m_functions ir" "m_name (kill_instrs ir is) = m_name ir"
  "m_attrs (kill_instrs ir is) = m_attrs ir" "m_profile (kill_instrs ir is) = m_profile ir"
  by (induction ir "is" rule: kill_instrs.induct) (simp_all split: option.splits)

lemma get_kill_instrs:
  "ccw_ir_node_get (kill_instrs ir is) = (\<lambda>j. if j \<in> set is then None else ccw_ir_node_get ir j)"
proof (induction ir "is" rule: kill_instrs.induct)
  case (1 ir)
  then show ?case by simp
next
  case (2 ir i "is")
  show ?case
  proof (cases "ccw_ir_node_get ir i")
    case None
    with 2 show ?thesis by (auto simp: fun_eq_iff)
  next
    case (Some n)
    have "ccw_ir_node_get (upd_node ir i (\<lambda>n. n\<lparr>n_attached := False, n_kind := CCW_NODE_DEAD\<rparr>)) =
        (ccw_ir_node_get ir)(i := None)"
      by (rule get_kill [OF Some]) simp
    with 2 Some show ?thesis by (auto simp: fun_eq_iff)
  qed
qed

lemma ids_ok_kill_instrs: "ids_ok ir \<Longrightarrow> ids_ok (kill_instrs ir is)"
proof (induction ir "is" rule: kill_instrs.induct)
  case (1 ir)
  then show ?case by simp
next
  case (2 ir i "is")
  have "ids_ok (case ccw_ir_node_get ir i of None \<Rightarrow> ir
      | Some _ \<Rightarrow> upd_node ir i (\<lambda>n. n\<lparr>n_attached := False, n_kind := CCW_NODE_DEAD\<rparr>))"
    using 2(2) by (auto split: option.splits intro!: ids_ok_upd dest: node_get_pos)
  from 2(1) [OF this] show ?case by simp
qed

lemma block_parent:
  assumes wf: "wf_ir ir" and b: "ccw_ir_node_get ir b = Some B" "n_kind B = CCW_NODE_BLOCK"
  obtains F xs ys where "ccw_ir_node_get ir (n_parent B) = Some F" "n_kind F = CCW_NODE_FUNCTION"
    "n_children F = xs @ b # ys" "distinct (xs @ b # ys)" "b \<noteq> n_parent B"
proof -
  have "at (ccw_ir_node_get ir) (n_parent B) (is_function_with b)"
    using wf_heap_block [OF wf_heapD [OF wf] b] by (simp add: block_ok_def)
  then obtain F where F: "ccw_ir_node_get ir (n_parent B) = Some F" "n_kind F = CCW_NODE_FUNCTION"
    "b \<in> set (n_children F)" by (auto elim!: atE simp: is_function_with_def)
  moreover have "distinct (n_children F)"
    using wf_heap_function [OF wf_heapD [OF wf] F(1,2)] by (simp add: function_ok_def)
  moreover have "b \<noteq> n_parent B" using F b by auto
  ultimately show ?thesis using that by (metis split_list)
qed

lemma block_instr:
  assumes wf: "wf_ir ir" and b: "ccw_ir_node_get ir b = Some B" "n_kind B = CCW_NODE_BLOCK"
    and c: "c \<in> set (n_children B)"
  obtains n where "ccw_ir_node_get ir c = Some n" "n_kind n = CCW_NODE_INSTR" "n_attached n" "n_parent n = b"
proof -
  have "at (ccw_ir_node_get ir) c (is_instr_of b)"
    using wf_heap_block [OF wf_heapD [OF wf] b] c by (simp add: block_ok_def)
  then show ?thesis using that by (auto elim!: atE simp: is_instr_of_def)
qed

section \<open>Block deletion\<close>

lemma block_delete_effect:
  assumes wf: "wf_ir ir" and b: "ccw_ir_node_get ir b = Some B" "n_kind B = CCW_NODE_BLOCK"
    and p: "ccw_ir_block_predecessor_count ir b = 0"
  obtains F xs ys where "ccw_ir_node_get ir (n_parent B) = Some F" "n_kind F = CCW_NODE_FUNCTION"
    "n_children F = xs @ b # ys" "distinct (xs @ b # ys)"
    "snd (ccw_ir_block_delete ir b) = CCW_OK"
    "ccw_ir_node_get (fst (ccw_ir_block_delete ir b)) =
       heap_delete_block (ccw_ir_node_get ir) b B (xs @ ys)"
    "wf_ir (fst (ccw_ir_block_delete ir b))"
proof -
  from block_parent [OF wf b] obtain F xs ys where
    F: "ccw_ir_node_get ir (n_parent B) = Some F" "n_kind F = CCW_NODE_FUNCTION"
    and c: "n_children F = xs @ b # ys" "distinct (xs @ b # ys)" "b \<noteq> n_parent B" by blast
  let ?g = "\<lambda>f. f\<lparr>n_children := ccw_node_vec_remove_at (n_children f) (int (length xs))\<rparr>"
  let ?k = "\<lambda>b. b\<lparr>n_kind := CCW_NODE_DEAD\<rparr>"
  let ?ir1 = "kill_instrs ir (n_children B)"
  let ?ir2 = "upd_node ?ir1 (n_parent B) ?g"
  let ?ir3 = "upd_node ?ir2 b ?k"
  have bF: "block_function ir b = Some F"
    using b F by (simp add: block_function_def ccw_ir_node_get_kind_def)
  have eq: "ccw_ir_block_delete ir b = (?ir3, CCW_OK)"
    using b p bF c by (simp add: ccw_ir_block_delete_def ccw_ir_node_get_kind_def index_of_middle)
  have nF: "n_parent B \<notin> set (n_children B)" "b \<notin> set (n_children B)"
    using block_instr [OF wf b] F b by (metis ccw_node_kind.distinct option.inject)+
  have F1: "ccw_ir_node_get ?ir1 (n_parent B) = Some F" using F nF by (simp add: get_kill_instrs)
  have h2: "ccw_ir_node_get ?ir2 = (ccw_ir_node_get ?ir1)(n_parent B \<mapsto> F\<lparr>n_children := xs @ ys\<rparr>)"
    using get_upd_keep [where f = ?g, OF F1] c by simp
  have b2: "ccw_ir_node_get ?ir2 b = Some B" using h2 c b nF by (simp add: get_kill_instrs)
  have h3: "ccw_ir_node_get ?ir3 = heap_delete_block (ccw_ir_node_get ir) b B (xs @ ys)"
    using get_kill [where f = ?k, OF b2] h2 F nF c
    by (auto simp: heap_delete_block_def get_kill_instrs fun_eq_iff)
  have "wf_heap (ccw_ir_node_get ?ir3) (m_functions ?ir3)"
    unfolding h3 using c wf_heap_delete_block [OF wf_heapD [OF wf] b F, of "xs @ ys"] by auto
  moreover have "ids_ok ?ir3"
    using wf node_get_pos [OF b(1)] node_get_pos [OF F(1)]
    by (intro ids_ok_upd ids_ok_kill_instrs) (simp_all add: wf_ir_def)
  ultimately have "wf_ir ?ir3" by (simp add: wf_ir_def)
  with h3 eq c show ?thesis using that [OF F c(1)] by simp
qed

definition deletable :: "ccw_ir \<Rightarrow> ccw_node \<Rightarrow> bool" where
  "deletable ir b \<longleftrightarrow>
     at (ccw_ir_node_get ir) b (\<lambda>n. n_kind n = CCW_NODE_BLOCK) \<and> ccw_ir_block_predecessor_count ir b = 0"

lemma block_delete_refuses:
  "\<not> deletable ir b \<Longrightarrow> ccw_ir_block_delete ir b = (ir, CCW_ERR_TYPE)"
  by (auto simp: deletable_def at_def ccw_ir_block_delete_def ir_simps split: option.splits)

lemma wf_block_delete: "wf_ir ir \<Longrightarrow> wf_ir (fst (ccw_ir_block_delete ir b))"
  by (cases "deletable ir b")
    (auto simp: deletable_def elim!: atE elim: block_delete_effect simp: block_delete_refuses)

section \<open>The merge loop\<close>

text \<open>One round of the loop.\<close>

definition merge_step :: "ccw_node \<Rightarrow> ccw_node \<Rightarrow> ccw_ir \<Rightarrow> ccw_ir" where
  "merge_step first c ir =
     upd_node (case ccw_ir_node_get ir c of
                 None \<Rightarrow> ir
               | Some _ \<Rightarrow> upd_node ir c (\<lambda>n. n\<lparr>n_parent := first\<rparr>))
       first (\<lambda>a. a\<lparr>n_children := n_children a @ [c]\<rparr>)"

lemma merge_loop_unfold:
  "merge_loop ir first second i =
     (let cs = n_children (m_nodes ir ! second)
      in if i < length cs then merge_loop (merge_step first (cs ! i) ir) first second (Suc i)
         else Some ir)"
  by (subst merge_loop.simps) (simp add: merge_step_def Let_def)

lemma nth_upd_node: "j \<noteq> i \<Longrightarrow> m_nodes (upd_node ir i f) ! j = m_nodes ir ! j"
  by (simp add: upd_node_def)

lemma merge_step_other:
  "second \<noteq> first \<Longrightarrow> second \<noteq> c \<Longrightarrow> m_nodes (merge_step first c ir) ! second = m_nodes ir ! second"
  by (simp add: merge_step_def nth_upd_node split: option.splits)

lemma merge_loop_fold:
  assumes "n_children (m_nodes ir ! second) = cs" "second \<noteq> first" "second \<notin> set cs" "i \<le> length cs"
  shows "merge_loop ir first second i = Some (fold (merge_step first) (drop i cs) ir)"
  using assms
proof (induction "length cs - i" arbitrary: ir i)
  case 0
  then have "i = length cs" by simp
  with 0 show ?case by (subst merge_loop_unfold) simp
next
  case (Suc k)
  then have i: "i < length cs" by simp
  then have "cs ! i \<noteq> second" using Suc.prems(3) nth_mem by metis
  with Suc have "merge_loop (merge_step first (cs ! i) ir) first second (Suc i)
      = Some (fold (merge_step first) (drop (Suc i) cs) (merge_step first (cs ! i) ir))"
    by (intro Suc.hyps(1)) (auto simp: merge_step_other)
  with Suc.prems(1) i show ?case
    by (subst merge_loop_unfold) (simp add: Cons_eq_drop)
qed

lemma fold_merge_step:
  assumes "ccw_ir_node_get ir a = Some A" and "a \<notin> set cs" and "distinct cs" and "ids_ok ir"
  shows "ccw_ir_node_get (fold (merge_step a) cs ir) =
      (\<lambda>j. if j = a then Some (A\<lparr>n_children := n_children A @ cs\<rparr>)
           else if j \<in> set cs then map_option (\<lambda>n. n\<lparr>n_parent := a\<rparr>) (ccw_ir_node_get ir j)
           else ccw_ir_node_get ir j)
    \<and> m_functions (fold (merge_step a) cs ir) = m_functions ir
    \<and> ids_ok (fold (merge_step a) cs ir)"
  using assms
proof (induction cs arbitrary: ir A)
  case Nil
  then show ?case by (auto simp: fun_eq_iff)
next
  case (Cons c cs)
  let ?p = "\<lambda>n. n\<lparr>n_parent := a\<rparr>" and ?g = "\<lambda>x. x\<lparr>n_children := n_children x @ [c]\<rparr>"
  let ?ir0 = "case ccw_ir_node_get ir c of None \<Rightarrow> ir | Some _ \<Rightarrow> upd_node ir c ?p"
  have ca: "c \<noteq> a" using Cons.prems by auto
  have g0: "ccw_ir_node_get ?ir0 =
      (\<lambda>j. if j = c then map_option ?p (ccw_ir_node_get ir j) else ccw_ir_node_get ir j)"
  proof (cases "ccw_ir_node_get ir c")
    case None
    then show ?thesis by (auto simp: fun_eq_iff)
  next
    case (Some n)
    with get_upd_keep [where f = ?p, OF Some] show ?thesis by (simp add: fun_eq_iff)
  qed
  have ids0: "ids_ok ?ir0 \<and> m_functions ?ir0 = m_functions ir"
    using Cons.prems(4) by (auto split: option.splits intro!: ids_ok_upd dest: node_get_pos)
  have A0: "ccw_ir_node_get ?ir0 a = Some A" using g0 Cons.prems(1) ca by simp
  have g1: "ccw_ir_node_get (merge_step a c ir) = (ccw_ir_node_get ?ir0)(a \<mapsto> ?g A)"
    unfolding merge_step_def by (rule get_upd_keep [OF A0]) simp
  have ids1: "ids_ok (merge_step a c ir) \<and> m_functions (merge_step a c ir) = m_functions ir"
    using ids0 node_get_pos [OF A0] unfolding merge_step_def by (auto intro: ids_ok_upd)
  have A1: "ccw_ir_node_get (merge_step a c ir) a = Some (?g A)" using g1 by simp
  from Cons.IH [OF A1] Cons.prems ids1 g1 g0 ca show ?case by (auto simp: fun_eq_iff)
qed

section \<open>Block merge\<close>

definition mergeable :: "ccw_ir \<Rightarrow> ccw_node \<Rightarrow> ccw_node \<Rightarrow> bool" where
  "mergeable ir a b \<longleftrightarrow>
     at (ccw_ir_node_get ir) a (\<lambda>A. n_kind A = CCW_NODE_BLOCK
       \<and> at (ccw_ir_node_get ir) b (\<lambda>B. n_kind B = CCW_NODE_BLOCK \<and> n_parent B = n_parent A))
     \<and> ccw_ir_block_successor_count ir a = 1 \<and> ccw_ir_block_successor_ref ir a 0 = b
     \<and> ccw_ir_block_predecessor_count ir b = 1"

lemma merge_refuses:
  "\<not> mergeable ir a b \<Longrightarrow> ccw_ir_block_merge ir a b = Some (ir, CCW_ERR_TYPE)"
  by (auto simp: mergeable_def at_def ccw_ir_block_merge_def ir_simps split: option.splits)

text \<open>A block with a successor ends in an instruction.\<close>

lemma successor_nonempty:
  "ccw_ir_block_successor_count ir a \<noteq> 0 \<Longrightarrow> ccw_ir_node_get ir a = Some A \<Longrightarrow> n_children A \<noteq> []"
  by (auto simp: ccw_ir_block_successor_count_def ccw_ir_block_successors_def ccw_ir_node_get_kind_def
      split: if_splits)

lemma drop_jump_effect:
  assumes wf: "wf_ir ir" and a: "ccw_ir_node_get ir a = Some A" "n_kind A = CCW_NODE_BLOCK"
    and ne: "n_children A \<noteq> []"
  shows "ccw_ir_node_get (drop_jump ir a A) =
      (ccw_ir_node_get ir)(last (n_children A) := None, a \<mapsto> A\<lparr>n_children := butlast (n_children A)\<rparr>)"
    "ids_ok (drop_jump ir a A)" "m_functions (drop_jump ir a A) = m_functions ir"
    "last (n_children A) \<noteq> a"
proof -
  let ?j = "last (n_children A)"
  let ?k = "\<lambda>n. n\<lparr>n_attached := False, n_kind := CCW_NODE_DEAD\<rparr>"
  let ?g = "\<lambda>a. a\<lparr>n_children := butlast (n_children a)\<rparr>"
  obtain n where n: "ccw_ir_node_get ir ?j = Some n" "n_kind n = CCW_NODE_INSTR"
    using block_instr [OF wf a] ne by (metis last_in_set)
  then show ja: "?j \<noteq> a" using a by auto
  have d: "drop_jump ir a A = upd_node (upd_node ir ?j ?k) a ?g" using ne n by (simp add: drop_jump_def)
  have g: "ccw_ir_node_get (upd_node ir ?j ?k) = (ccw_ir_node_get ir)(?j := None)"
    by (rule get_kill [OF n(1)]) simp
  then have "ccw_ir_node_get (upd_node ir ?j ?k) a = Some A" using a ja by simp
  from get_upd_keep [where f = ?g, OF this] show "ccw_ir_node_get (drop_jump ir a A) =
      (ccw_ir_node_get ir)(?j := None, a \<mapsto> A\<lparr>n_children := butlast (n_children A)\<rparr>)"
    unfolding d g by simp
  show "ids_ok (drop_jump ir a A)"
    unfolding d using wf node_get_pos [OF n(1)] node_get_pos [OF a(1)]
    by (intro ids_ok_upd) (simp_all add: wf_ir_def)
  show "m_functions (drop_jump ir a A) = m_functions ir" unfolding d by simp
qed

lemma merge_effect:
  assumes wf: "wf_ir ir" and m: "mergeable ir a b" and ab: "a \<noteq> b"
  obtains ir' A B F xs ys where "ccw_ir_block_merge ir a b = Some (ir', CCW_OK)"
    "ccw_ir_node_get ir a = Some A" "n_kind A = CCW_NODE_BLOCK"
    "ccw_ir_node_get ir b = Some B" "n_kind B = CCW_NODE_BLOCK" "n_parent B = n_parent A"
    "n_children A \<noteq> []"
    "ccw_ir_node_get ir (n_parent A) = Some F" "n_kind F = CCW_NODE_FUNCTION"
    "n_children F = xs @ b # ys" "distinct (xs @ b # ys)"
    "ccw_ir_node_get ir' = heap_merge (ccw_ir_node_get ir) a A b B (xs @ ys)"
    "wf_ir ir'"
proof -
  let ?h = "ccw_ir_node_get ir"
  from m obtain A B where a: "?h a = Some A" "n_kind A = CCW_NODE_BLOCK"
    and b: "?h b = Some B" "n_kind B = CCW_NODE_BLOCK" and p: "n_parent B = n_parent A"
    and s: "ccw_ir_block_successor_count ir a = 1"
    by (auto simp: mergeable_def elim!: atE)
  have ne: "n_children A \<noteq> []" using successor_nonempty [OF _ a(1)] s by simp
  from block_parent [OF wf b] p obtain F xs ys where
    F: "?h (n_parent A) = Some F" "n_kind F = CCW_NODE_FUNCTION"
    and c: "n_children F = xs @ b # ys" "distinct (xs @ b # ys)" by metis
  note d = drop_jump_effect [OF wf a ne]
  let ?j = "last (n_children A)" and ?ir0 = "drop_jump ir a A"
  have distB: "distinct (n_children B)" by (rule block_distinct [OF wf b])
  have cB: "c \<notin> {a, b, ?j, n_parent A}" if "c \<in> set (n_children B)" for c
    using block_instr [OF wf b that] block_instr [OF wf a, of ?j] a b F ab ne
    by (metis ccw_node_kind.distinct insertE last_in_set option.inject singletonD)
  have jb: "?j \<notin> {b, n_parent A}"
    using block_instr [OF wf a, of ?j] b F ne
    by (metis ccw_node_kind.distinct insertE last_in_set option.inject singletonD)
  have "?h b = ccw_ir_node_get ?ir0 b" using d(1) ab jb by simp
  then have B0: "m_nodes ?ir0 ! b = B" using b(1) node_get_nth by metis
  let ?ir1 = "fold (merge_step a) (n_children B) ?ir0"
  have loop: "merge_loop ?ir0 a b 0 = Some ?ir1"
    using merge_loop_fold [of ?ir0 b "n_children B" a 0] B0 ab cB by auto
  have a0: "ccw_ir_node_get ?ir0 a = Some (A\<lparr>n_children := butlast (n_children A)\<rparr>)" using d(1) by simp
  have aB: "a \<notin> set (n_children B)" using cB by auto
  note f0 = fold_merge_step [OF a0 aB distB d(2)]
  have f1: "ccw_ir_node_get ?ir1 =
      (\<lambda>j. if j = a then Some (A\<lparr>n_children := butlast (n_children A) @ n_children B\<rparr>)
           else if j \<in> set (n_children B) then map_option (\<lambda>n. n\<lparr>n_parent := a\<rparr>) (?h j)
           else if j = ?j then None else ?h j)"
    "m_functions ?ir1 = m_functions ir" "ids_ok ?ir1"
    using cB by (simp_all only: f0 d(1,3)) (auto simp: fun_eq_iff d(4) d(4) [symmetric])
  let ?g = "\<lambda>f. f\<lparr>n_children := ccw_node_vec_remove_at (n_children f) (ccw_node_vec_index_of (n_children f) b)\<rparr>"
  let ?k = "\<lambda>b. b\<lparr>n_kind := CCW_NODE_DEAD\<rparr>"
  let ?ir2 = "upd_node ?ir1 (n_parent A) ?g"
  let ?ir3 = "upd_node ?ir2 b ?k"
  have fa: "n_parent A \<noteq> a" "n_parent A \<noteq> b" using F a b by auto
  have F1: "ccw_ir_node_get ?ir1 (n_parent A) = Some F" using f1(1) F fa cB jb by auto
  have h2: "ccw_ir_node_get ?ir2 = (ccw_ir_node_get ?ir1)(n_parent A \<mapsto> F\<lparr>n_children := xs @ ys\<rparr>)"
    using get_upd_keep [where f = ?g, OF F1] c by (simp add: index_of_middle)
  have b2: "ccw_ir_node_get ?ir2 b = Some B" using h2 f1(1) b cB jb ab fa by auto
  have h3: "ccw_ir_node_get ?ir3 = heap_merge ?h a A b B (xs @ ys)"
    using get_kill [where f = ?k, OF b2] h2 f1(1) F fa cB jb ab d(4)
    by (auto simp: heap_merge_def fun_eq_iff)
  have "wf_heap (ccw_ir_node_get ?ir3) (m_functions ?ir3)"
    unfolding h3 using c f1(2) wf_heap_merge [OF wf_heapD [OF wf] a b ab F p ne, of "xs @ ys"] by auto
  moreover have "ids_ok ?ir3"
    using f1(3) node_get_pos [OF b(1)] node_get_pos [OF F(1)] by (intro ids_ok_upd) simp_all
  ultimately have "wf_ir ?ir3" by (simp add: wf_ir_def)
  moreover have "ccw_ir_block_merge ir a b = Some (?ir3, CCW_OK)"
    using m a b p loop unfolding mergeable_def
    by (simp add: ccw_ir_block_merge_def ccw_ir_node_get_kind_def)
  ultimately show ?thesis using that [OF _ a b p ne F c h3] by simp
qed

lemma wf_block_merge:
  assumes "wf_ir ir" "a \<noteq> b" "ccw_ir_block_merge ir a b = Some (ir', st)"
  shows "wf_ir ir'"
  using assms merge_refuses [of ir a b] by (cases "mergeable ir a b") (auto elim: merge_effect)

section \<open>Merging a block with itself\<close>

text \<open>
  The guards of the merge admit \<open>first = second\<close>: a block whose only successor is itself and that
  no other block reaches. The loop then pushes onto the list whose length bounds it.
\<close>

lemma children_merge_step_self:
  assumes "a < length (m_nodes ir)"
  shows "n_children (m_nodes (merge_step a c ir) ! a) = n_children (m_nodes ir ! a) @ [c]"
    and "length (m_nodes (merge_step a c ir)) = length (m_nodes ir)"
  using assms by (cases "c = a"; auto simp: merge_step_def upd_node_def split: option.splits)+

lemma merge_loop_self_diverges:
  assumes "a < length (m_nodes ir)" "i < length (n_children (m_nodes ir ! a))"
  shows "merge_loop ir a a i = None"
proof (rule ccontr)
  assume "merge_loop ir a a i \<noteq> None"
  then obtain r where "merge_loop ir a a i = Some r" by blast
  moreover have "\<not> (x = y \<and> x < length (m_nodes ir) \<and> i < length (n_children (m_nodes ir ! x)))"
    if ret: "merge_loop ir x y i = Some r" for ir x y i r
  proof (rule merge_loop.raw_induct [OF _ ret,
      where P = "\<lambda>ir x y i r. \<not> (x = y \<and> x < length (m_nodes ir) \<and> i < length (n_children (m_nodes ir ! x)))"])
    fix f ir x y i r
    assume IH: "\<And>ir x y i r. f ir x y i = Some r \<Longrightarrow>
        \<not> (x = y \<and> x < length (m_nodes ir) \<and> i < length (n_children (m_nodes ir ! x)))"
      and run: "(let cs = n_children (m_nodes ir ! y)
        in if i < length cs then
             let c = cs ! i;
                 ir1 = (case ccw_ir_node_get ir c of None \<Rightarrow> ir
                        | Some _ \<Rightarrow> upd_node ir c (\<lambda>n. n\<lparr>n_parent := x\<rparr>));
                 ir2 = upd_node ir1 x (\<lambda>a. a\<lparr>n_children := n_children a @ [c]\<rparr>)
             in f ir2 x y (Suc i)
           else Some ir) = Some r"
    show "\<not> (x = y \<and> x < length (m_nodes ir) \<and> i < length (n_children (m_nodes ir ! x)))"
    proof
      assume A: "x = y \<and> x < length (m_nodes ir) \<and> i < length (n_children (m_nodes ir ! x))"
      then have y: "y = x" by simp
      from A have i: "i < length (n_children (m_nodes ir ! x))" by blast
      let ?ir' = "merge_step x (n_children (m_nodes ir ! x) ! i) ir"
      have "f ?ir' x x (Suc i) = Some r" using run i unfolding y by (simp add: merge_step_def Let_def)
      from IH [OF this] A show False unfolding y by (auto simp: children_merge_step_self)
    qed
  qed
  ultimately show False using assms by blast
qed

lemma merge_self_effect:
  assumes wf: "wf_ir ir" and m: "mergeable ir a a"
  obtains A where "ccw_ir_node_get ir a = Some A" "n_kind A = CCW_NODE_BLOCK" "n_children A \<noteq> []"
    "ccw_ir_block_merge ir a a =
       (case merge_loop (drop_jump ir a A) a a 0 of
          None \<Rightarrow> None
        | Some ir1 \<Rightarrow>
            Some (upd_node (upd_node ir1 (n_parent A)
              (\<lambda>f. f\<lparr>n_children := ccw_node_vec_remove_at (n_children f)
                                     (ccw_node_vec_index_of (n_children f) a)\<rparr>))
              a (\<lambda>b. b\<lparr>n_kind := CCW_NODE_DEAD\<rparr>), CCW_OK))"
proof -
  from m obtain A where a: "ccw_ir_node_get ir a = Some A" "n_kind A = CCW_NODE_BLOCK"
    and s: "ccw_ir_block_successor_count ir a = 1" by (auto simp: mergeable_def elim!: atE)
  moreover have "n_children A \<noteq> []" using successor_nonempty [OF _ a(1)] s by simp
  ultimately show ?thesis using m that [OF a] unfolding mergeable_def
    by (cases "merge_loop (drop_jump ir a A) a a 0")
      (simp_all add: ccw_ir_block_merge_def ccw_ir_node_get_kind_def Let_def)
qed

lemma drop_jump_children:
  assumes wf: "wf_ir ir" and a: "ccw_ir_node_get ir a = Some A" "n_kind A = CCW_NODE_BLOCK"
    and ne: "n_children A \<noteq> []"
  shows "n_children (m_nodes (drop_jump ir a A) ! a) = butlast (n_children A)"
    "a < length (m_nodes (drop_jump ir a A))"
  using drop_jump_effect(1,4) [OF wf a ne]
    node_get_nth [of "drop_jump ir a A" a "A\<lparr>n_children := butlast (n_children A)\<rparr>"] by simp_all

lemma wf_merge_self:
  assumes wf: "wf_ir ir" and m: "mergeable ir a a" and r: "ccw_ir_block_merge ir a a = Some (ir', st)"
  shows "wf_ir ir'"
proof -
  obtain A where a: "ccw_ir_node_get ir a = Some A" "n_kind A = CCW_NODE_BLOCK" and ne: "n_children A \<noteq> []"
    and eq: "ccw_ir_block_merge ir a a =
       (case merge_loop (drop_jump ir a A) a a 0 of
          None \<Rightarrow> None
        | Some ir1 \<Rightarrow>
            Some (upd_node (upd_node ir1 (n_parent A)
              (\<lambda>f. f\<lparr>n_children := ccw_node_vec_remove_at (n_children f)
                                     (ccw_node_vec_index_of (n_children f) a)\<rparr>))
              a (\<lambda>b. b\<lparr>n_kind := CCW_NODE_DEAD\<rparr>), CCW_OK))"
    using merge_self_effect [OF wf m] by blast
  let ?ir0 = "drop_jump ir a A" and ?j = "last (n_children A)"
  note d = drop_jump_effect [OF wf a ne] and dc = drop_jump_children [OF wf a ne]
  have one: "butlast (n_children A) = []"
    using merge_loop_self_diverges [of a ?ir0 0] dc r eq by (cases "butlast (n_children A)") auto
  then have loop: "merge_loop ?ir0 a a 0 = Some ?ir0" using dc by (subst merge_loop_unfold) simp
  have cs: "n_children A = [?j]" using one ne by (metis append_Nil append_butlast_last_id)
  from block_parent [OF wf a] obtain F xs ys where
    F: "ccw_ir_node_get ir (n_parent A) = Some F" "n_kind F = CCW_NODE_FUNCTION"
    and c: "n_children F = xs @ a # ys" "distinct (xs @ a # ys)" "a \<noteq> n_parent A" by blast
  have jF: "?j \<noteq> n_parent A"
    using block_instr [OF wf a, of ?j] F ne by (metis ccw_node_kind.distinct(13) last_in_set option.inject
        ccw_node_kind.distinct)
  let ?g = "\<lambda>f. f\<lparr>n_children := ccw_node_vec_remove_at (n_children f) (ccw_node_vec_index_of (n_children f) a)\<rparr>"
  let ?k = "\<lambda>b. b\<lparr>n_kind := CCW_NODE_DEAD\<rparr>"
  let ?ir2 = "upd_node ?ir0 (n_parent A) ?g"
  have ir': "ir' = upd_node ?ir2 a ?k" using r eq loop by simp
  have F0: "ccw_ir_node_get ?ir0 (n_parent A) = Some F" using d(1) F c(3) jF by simp
  have h2: "ccw_ir_node_get ?ir2 = (ccw_ir_node_get ?ir0)(n_parent A \<mapsto> F\<lparr>n_children := xs @ ys\<rparr>)"
    using get_upd_keep [where f = ?g, OF F0] c by (simp add: index_of_middle)
  have a2: "ccw_ir_node_get ?ir2 a = Some (A\<lparr>n_children := butlast (n_children A)\<rparr>)"
    using h2 d(1) c(3) by simp
  have k: "ccw_ir_node_get ir' = (ccw_ir_node_get ?ir2)(a := None)"
    unfolding ir' by (rule get_kill [OF a2]) simp
  have S: "set (n_children A) = {?j}" by (subst cs) simp
  have h3: "ccw_ir_node_get ir' = heap_delete_block (ccw_ir_node_get ir) a A (xs @ ys)"
    unfolding k h2 d(1) using F jF c by (auto simp: heap_delete_block_def S fun_eq_iff)
  have "wf_heap (ccw_ir_node_get ir') (m_functions ir')"
    unfolding h3 using c d(3) ir' wf_heap_delete_block [OF wf_heapD [OF wf] a F, of "xs @ ys"] by auto
  moreover have "ids_ok ir'"
    unfolding ir' using d(2) node_get_pos [OF a(1)] node_get_pos [OF F(1)]
    by (intro ids_ok_upd) simp_all
  ultimately show ?thesis by (simp add: wf_ir_def)
qed

lemma wf_merge:
  assumes "wf_ir ir" "ccw_ir_block_merge ir a b = Some (ir', st)"
  shows "wf_ir ir'"
  using assms merge_refuses [of ir a b] wf_merge_self [of ir a ir' st] wf_block_merge
  by (cases "mergeable ir a b"; cases "a = b") auto

end
