(* ===== verification/IR_Profiles.thy ===== *)
theory IR_Profiles
  imports IR_Blocks
begin

text \<open>
  The two profiles of the IR (\<open>ir/tilly/ccw_tilly.c\<close>, \<open>ir/on1x/ccw_on1x.c\<close>): the constructs each
  reserves, their builders, and the rejection of the other profile's constructs.
\<close>

section \<open>Reserved names\<close>

definition CCW_TILLY_OP_CALL_STATIC :: string where "CCW_TILLY_OP_CALL_STATIC = ''call.static''"
definition CCW_TILLY_OP_RELOC :: string where "CCW_TILLY_OP_RELOC = ''reloc''"
definition CCW_TILLY_ATTR_LINK_SECTION :: string where "CCW_TILLY_ATTR_LINK_SECTION = ''link.section''"
definition CCW_TILLY_ATTR_LAYOUT :: string where "CCW_TILLY_ATTR_LAYOUT = ''module.layout''"

definition CCW_ON1X_OP_CALL_DYNAMIC :: string where "CCW_ON1X_OP_CALL_DYNAMIC = ''call.dynamic''"
definition CCW_ON1X_OP_SAFEPOINT :: string where "CCW_ON1X_OP_SAFEPOINT = ''safepoint''"
definition CCW_ON1X_OP_DEOPT :: string where "CCW_ON1X_OP_DEOPT = ''deopt''"
definition CCW_ON1X_ATTR_INLINE_CACHE :: string where "CCW_ON1X_ATTR_INLINE_CACHE = ''dispatch.inline-cache''"
definition CCW_ON1X_ATTR_DEOPT_TARGET :: string where "CCW_ON1X_ATTR_DEOPT_TARGET = ''deopt.target''"

lemmas tilly_names = CCW_TILLY_OP_CALL_STATIC_def CCW_TILLY_OP_RELOC_def
  CCW_TILLY_ATTR_LINK_SECTION_def CCW_TILLY_ATTR_LAYOUT_def

lemmas on1x_names = CCW_ON1X_OP_CALL_DYNAMIC_def CCW_ON1X_OP_SAFEPOINT_def CCW_ON1X_OP_DEOPT_def
  CCW_ON1X_ATTR_INLINE_CACHE_def CCW_ON1X_ATTR_DEOPT_TARGET_def

definition ccw_tilly_is_profile_opcode :: "string option \<Rightarrow> bool" where
  "ccw_tilly_is_profile_opcode opcode =
     (case opcode of
        None \<Rightarrow> False
      | Some s \<Rightarrow> s = CCW_TILLY_OP_CALL_STATIC \<or> s = CCW_TILLY_OP_RELOC)"

definition ccw_tilly_is_profile_attr :: "string option \<Rightarrow> bool" where
  "ccw_tilly_is_profile_attr key =
     (case key of
        None \<Rightarrow> False
      | Some s \<Rightarrow> s = CCW_TILLY_ATTR_LINK_SECTION \<or> s = CCW_TILLY_ATTR_LAYOUT)"

definition ccw_on1x_is_profile_opcode :: "string option \<Rightarrow> bool" where
  "ccw_on1x_is_profile_opcode opcode =
     (case opcode of
        None \<Rightarrow> False
      | Some s \<Rightarrow> s = CCW_ON1X_OP_CALL_DYNAMIC \<or> s = CCW_ON1X_OP_SAFEPOINT \<or> s = CCW_ON1X_OP_DEOPT)"

definition ccw_on1x_is_profile_attr :: "string option \<Rightarrow> bool" where
  "ccw_on1x_is_profile_attr key =
     (case key of
        None \<Rightarrow> False
      | Some s \<Rightarrow> s = CCW_ON1X_ATTR_INLINE_CACHE \<or> s = CCW_ON1X_ATTR_DEOPT_TARGET)"

section \<open>Rejection\<close>

text \<open>The loop over the attribute indices \<open>0 .. n-1\<close> of an instruction.\<close>

fun any_attr :: "(string option \<Rightarrow> bool) \<Rightarrow> ccw_ir \<Rightarrow> ccw_node \<Rightarrow> nat list \<Rightarrow> bool" where
  "any_attr p ir ins [] = False"
| "any_attr p ir ins (i # is) = (if p (ccw_ir_attr_key ir ins (int i)) then True else any_attr p ir ins is)"

definition ccw_tilly_reject_reason :: "ccw_ir \<Rightarrow> ccw_node \<Rightarrow> string option" where
  "ccw_tilly_reject_reason ir ins =
     (if ccw_on1x_is_profile_opcode (ccw_ir_instr_opcode ir ins)
      then Some ''dynamic-execution construct is not permitted in a Tilly module''
      else if any_attr ccw_on1x_is_profile_attr ir ins [0..<nat (ccw_ir_attr_count ir ins)]
      then Some ''dynamic-dispatch metadata is not permitted in a Tilly module''
      else None)"

definition ccw_on1x_reject_reason :: "ccw_ir \<Rightarrow> ccw_node \<Rightarrow> string option" where
  "ccw_on1x_reject_reason ir ins =
     (if ccw_tilly_is_profile_opcode (ccw_ir_instr_opcode ir ins)
      then Some ''ahead-of-time link construct is not permitted in an On1x module''
      else if any_attr ccw_tilly_is_profile_attr ir ins [0..<nat (ccw_ir_attr_count ir ins)]
      then Some ''link/layout metadata is not permitted in an On1x module''
      else None)"

section \<open>Tilly builders\<close>

definition opt_set_dest :: "ccw_ir \<Rightarrow> ccw_node \<Rightarrow> string option \<Rightarrow> ccw_ir" where
  "opt_set_dest ir ins dest = (if dest \<noteq> None then fst (ccw_ir_instr_set_dest ir ins dest) else ir)"

definition ccw_tilly_build_call_static ::
  "ccw_ir \<Rightarrow> ccw_node \<Rightarrow> string option \<Rightarrow> ccw_ir_type \<Rightarrow> string option \<Rightarrow> ccw_ir \<times> ccw_node" where
  "ccw_tilly_build_call_static ir blk dest t callee =
     (let (ir1, ins) = ccw_ir_instr_build ir (Some CCW_TILLY_OP_CALL_STATIC) t
      in if ins = 0 then (ir1, 0)
      else
        (let (ir2, target) = ccw_ir_operand_func (opt_set_dest ir1 ins dest) callee
         in if target = 0 then (ir2, 0)
         else
           (let (ir3, st) = ccw_ir_instr_add_operand ir2 ins target
            in if st \<noteq> CCW_OK then (ir3, 0) else finish_build ir3 blk ins)))"

definition ccw_tilly_build_reloc ::
  "ccw_ir \<Rightarrow> ccw_node \<Rightarrow> string option \<Rightarrow> string option \<Rightarrow> 64 word \<Rightarrow> ccw_ir \<times> ccw_node" where
  "ccw_tilly_build_reloc ir blk dest symbol addend =
     (let (ir1, ins) = ccw_ir_instr_build ir (Some CCW_TILLY_OP_RELOC) CCW_TY_PTR
      in if ins = 0 then (ir1, 0)
      else
        (let (ir2, sym) = ccw_ir_operand_func (opt_set_dest ir1 ins dest) symbol;
             (ir3, add) = ccw_ir_operand_const_int ir2 CCW_TY_I64 addend
         in if sym = 0 \<or> add = 0 then (ir3, 0)
         else
           (let ir4 = fst (ccw_ir_instr_add_operand ir3 ins sym);
                ir5 = fst (ccw_ir_instr_add_operand ir4 ins add)
            in finish_build ir5 blk ins)))"

definition ccw_tilly_build_syscall ::
  "ccw_ir \<Rightarrow> ccw_node \<Rightarrow> string option \<Rightarrow> ccw_ir_type \<Rightarrow> 64 word \<Rightarrow> ccw_node list
     \<Rightarrow> ccw_ir \<times> ccw_node" where
  "ccw_tilly_build_syscall ir blk dest t number args = ccw_ir_build_syscall ir blk dest t number args"

definition ccw_tilly_build_io_read ::
  "ccw_ir \<Rightarrow> ccw_node \<Rightarrow> string option \<Rightarrow> ccw_node \<Rightarrow> ccw_node \<Rightarrow> ccw_node \<Rightarrow> ccw_ir \<times> ccw_node" where
  "ccw_tilly_build_io_read ir blk dest fd buffer count = ccw_ir_build_io_read ir blk dest fd buffer count"

definition ccw_tilly_build_io_write ::
  "ccw_ir \<Rightarrow> ccw_node \<Rightarrow> string option \<Rightarrow> ccw_node \<Rightarrow> ccw_node \<Rightarrow> ccw_node \<Rightarrow> ccw_ir \<times> ccw_node" where
  "ccw_tilly_build_io_write ir blk dest fd buffer count = ccw_ir_build_io_write ir blk dest fd buffer count"

definition ccw_tilly_build_io_close ::
  "ccw_ir \<Rightarrow> ccw_node \<Rightarrow> string option \<Rightarrow> ccw_node \<Rightarrow> ccw_ir \<times> ccw_node" where
  "ccw_tilly_build_io_close ir blk dest fd = ccw_ir_build_io_close ir blk dest fd"

definition ccw_tilly_build_io_open ::
  "ccw_ir \<Rightarrow> ccw_node \<Rightarrow> string option \<Rightarrow> ccw_node \<Rightarrow> ccw_node \<Rightarrow> ccw_node \<Rightarrow> ccw_ir \<times> ccw_node" where
  "ccw_tilly_build_io_open ir blk dest path flags mode = ccw_ir_build_io_open ir blk dest path flags mode"

definition ccw_tilly_set_link_section :: "ccw_ir \<Rightarrow> ccw_node \<Rightarrow> string option \<Rightarrow> ccw_ir \<times> ccw_status" where
  "ccw_tilly_set_link_section ir fn s =
     (if ccw_ir_module_profile ir \<noteq> CCW_PROFILE_TILLY then (ir, CCW_ERR_TYPE)
      else ccw_ir_attr_set ir fn (Some CCW_TILLY_ATTR_LINK_SECTION) s)"

definition ccw_tilly_set_layout :: "ccw_ir \<Rightarrow> string option \<Rightarrow> ccw_ir \<times> ccw_status" where
  "ccw_tilly_set_layout ir layout =
     (if ccw_ir_module_profile ir \<noteq> CCW_PROFILE_TILLY then (ir, CCW_ERR_TYPE)
      else ccw_ir_attr_set ir 0 (Some CCW_TILLY_ATTR_LAYOUT) layout)"

section \<open>On1x builders\<close>

definition ccw_on1x_build_call_dynamic ::
  "ccw_ir \<Rightarrow> ccw_node \<Rightarrow> string option \<Rightarrow> ccw_ir_type \<Rightarrow> string option \<Rightarrow> string option \<Rightarrow> int
     \<Rightarrow> ccw_ir \<times> ccw_node" where
  "ccw_on1x_build_call_dynamic ir blk dest t receiver selector cache_slots =
     (let (ir1, ins) = ccw_ir_instr_build ir (Some CCW_ON1X_OP_CALL_DYNAMIC) t
      in if ins = 0 then (ir1, 0)
      else
        (let (ir2, recv) = ccw_ir_operand_reg (opt_set_dest ir1 ins dest) receiver;
             (ir3, sel) = ccw_ir_operand_func ir2 selector
         in if recv = 0 \<or> sel = 0 then (ir3, 0)
         else
           (let ir4 = fst (ccw_ir_instr_add_operand ir3 ins recv);
                ir5 = fst (ccw_ir_instr_add_operand ir4 ins sel);
                ir6 = fst (ccw_ir_attr_set ir5 ins (Some CCW_ON1X_ATTR_INLINE_CACHE)
                             (Some (dec_int cache_slots)))
            in finish_build ir6 blk ins)))"

definition ccw_on1x_build_safepoint :: "ccw_ir \<Rightarrow> ccw_node \<Rightarrow> ccw_ir \<times> ccw_node" where
  "ccw_on1x_build_safepoint ir blk =
     (let (ir1, ins) = ccw_ir_instr_build ir (Some CCW_ON1X_OP_SAFEPOINT) CCW_TY_VOID
      in if ins = 0 then (ir1, 0) else finish_build ir1 blk ins)"

definition ccw_on1x_build_deopt :: "ccw_ir \<Rightarrow> ccw_node \<Rightarrow> string option \<Rightarrow> ccw_ir \<times> ccw_node" where
  "ccw_on1x_build_deopt ir blk target =
     (let (ir1, ins) = ccw_ir_instr_build ir (Some CCW_ON1X_OP_DEOPT) CCW_TY_VOID
      in if ins = 0 then (ir1, 0)
      else
        (let (ir2, t) = ccw_ir_operand_block ir1 target
         in if t = 0 then (ir2, 0)
         else
           (let ir3 = fst (ccw_ir_instr_add_operand ir2 ins t);
                ir4 = fst (ccw_ir_attr_set ir3 ins (Some CCW_ON1X_ATTR_DEOPT_TARGET) target)
            in finish_build ir4 blk ins)))"

definition ccw_on1x_build_syscall ::
  "ccw_ir \<Rightarrow> ccw_node \<Rightarrow> string option \<Rightarrow> ccw_ir_type \<Rightarrow> 64 word \<Rightarrow> ccw_node list
     \<Rightarrow> ccw_ir \<times> ccw_node" where
  "ccw_on1x_build_syscall ir blk dest t number args = ccw_ir_build_syscall ir blk dest t number args"

definition ccw_on1x_build_io_read ::
  "ccw_ir \<Rightarrow> ccw_node \<Rightarrow> string option \<Rightarrow> ccw_node \<Rightarrow> ccw_node \<Rightarrow> ccw_node \<Rightarrow> ccw_ir \<times> ccw_node" where
  "ccw_on1x_build_io_read ir blk dest fd buffer count = ccw_ir_build_io_read ir blk dest fd buffer count"

definition ccw_on1x_build_io_write ::
  "ccw_ir \<Rightarrow> ccw_node \<Rightarrow> string option \<Rightarrow> ccw_node \<Rightarrow> ccw_node \<Rightarrow> ccw_node \<Rightarrow> ccw_ir \<times> ccw_node" where
  "ccw_on1x_build_io_write ir blk dest fd buffer count = ccw_ir_build_io_write ir blk dest fd buffer count"

definition ccw_on1x_build_io_close ::
  "ccw_ir \<Rightarrow> ccw_node \<Rightarrow> string option \<Rightarrow> ccw_node \<Rightarrow> ccw_ir \<times> ccw_node" where
  "ccw_on1x_build_io_close ir blk dest fd = ccw_ir_build_io_close ir blk dest fd"

definition ccw_on1x_build_io_open ::
  "ccw_ir \<Rightarrow> ccw_node \<Rightarrow> string option \<Rightarrow> ccw_node \<Rightarrow> ccw_node \<Rightarrow> ccw_node \<Rightarrow> ccw_ir \<times> ccw_node" where
  "ccw_on1x_build_io_open ir blk dest path flags mode = ccw_ir_build_io_open ir blk dest path flags mode"

section \<open>The composite builders\<close>

lemma wf_add_operands: "wf_ir ir \<Longrightarrow> wf_ir (fst (add_operands ir ins args))"
proof (induction ir ins args rule: add_operands.induct)
  case (1 ir ins)
  then show ?case by simp
next
  case (2 ir ins a args)
  then show ?case
    using wf_add_operand(1) [OF 2(2), of ins a] by (auto simp: Let_def split: prod.splits)
qed

lemma wf_finish_build: "wf_ir ir \<Longrightarrow> wf_ir (fst (finish_build ir blk ins))"
  using wf_append [of ir blk ins] by (auto simp: finish_build_def split: prod.splits)

lemma wf_opt_dest:
  "wf_ir ir \<Longrightarrow>
   wf_ir (fst (if dest \<noteq> None then ccw_ir_instr_set_dest ir ins dest else (ir, CCW_OK)))"
  by (simp add: wf_set_dest)

lemma wf_fst: "f = (a, b) \<Longrightarrow> wf_ir (fst f) \<Longrightarrow> wf_ir a"
  by simp

lemma wf_build_io:
  assumes "wf_ir ir"
  shows "wf_ir (fst (ccw_ir_build_io ir blk dest opcode args))"
proof -
  obtain ir1 ins where 1: "ccw_ir_instr_build ir (Some opcode) CCW_TY_I64 = (ir1, ins)" by fastforce
  obtain ir2 st where 2: "(if dest \<noteq> None then ccw_ir_instr_set_dest ir1 ins dest
      else (ir1, CCW_OK)) = (ir2, st)" by fastforce
  obtain ir3 ok where 3: "add_operands ir2 ins args = (ir3, ok)" by fastforce
  have w1: "wf_ir ir1" using wf_fst [OF 1] wf_instr_build assms by blast
  have w2: "wf_ir ir2" using wf_fst [OF 2] wf_opt_dest w1 by blast
  have w3: "wf_ir ir3" using wf_fst [OF 3] wf_add_operands w2 by blast
  show ?thesis unfolding ccw_ir_build_io_def 1 Let_def prod.case 2 3
    using w1 w2 w3 wf_finish_build [OF w3] by simp
qed

lemma wf_build_syscall:
  assumes "wf_ir ir"
  shows "wf_ir (fst (ccw_ir_build_syscall ir blk dest t number args))"
proof -
  obtain ir1 ins where 1: "ccw_ir_instr_build ir (Some CCW_OP_SYSCALL) t = (ir1, ins)" by fastforce
  obtain ir2 st where 2: "(if dest \<noteq> None then ccw_ir_instr_set_dest ir1 ins dest
      else (ir1, CCW_OK)) = (ir2, st)" by fastforce
  obtain ir3 num where 3: "ccw_ir_operand_const_int ir2 CCW_TY_I64 number = (ir3, num)" by fastforce
  obtain ir4 st4 where 4: "ccw_ir_instr_add_operand ir3 ins num = (ir4, st4)" by fastforce
  obtain ir5 ok where 5: "add_operands ir4 ins args = (ir5, ok)" by fastforce
  have w1: "wf_ir ir1" using wf_fst [OF 1] wf_instr_build assms by blast
  have w2: "wf_ir ir2" using wf_fst [OF 2] wf_opt_dest w1 by blast
  have w3: "wf_ir ir3" using wf_fst [OF 3] wf_operand_const(1) w2 by blast
  have w4: "wf_ir ir4" using wf_fst [OF 4] wf_add_operand(1) w3 by blast
  have w5: "wf_ir ir5" using wf_fst [OF 5] wf_add_operands w4 by blast
  show ?thesis unfolding ccw_ir_build_syscall_def 1 Let_def prod.case 2 3 4 5
    using assms w1 w2 w3 w4 w5 wf_finish_build [OF w5] by simp
qed

section \<open>The profile builders keep the invariant\<close>

lemma wf_opt_set_dest: "wf_ir ir \<Longrightarrow> wf_ir (opt_set_dest ir ins dest)"
  by (simp add: opt_set_dest_def wf_set_dest)

lemma wf_call_static:
  assumes "wf_ir ir"
  shows "wf_ir (fst (ccw_tilly_build_call_static ir blk dest t callee))"
proof -
  obtain ir1 ins where 1: "ccw_ir_instr_build ir (Some CCW_TILLY_OP_CALL_STATIC) t = (ir1, ins)" by fastforce
  obtain ir2 target where 2: "ccw_ir_operand_func (opt_set_dest ir1 ins dest) callee = (ir2, target)" by fastforce
  obtain ir3 st where 3: "ccw_ir_instr_add_operand ir2 ins target = (ir3, st)" by fastforce
  have w1: "wf_ir ir1" using wf_fst [OF 1] wf_instr_build assms by blast
  have w2: "wf_ir ir2" using wf_fst [OF 2] wf_operand_named wf_opt_set_dest w1 by blast
  have w3: "wf_ir ir3" using wf_fst [OF 3] wf_add_operand(1) w2 by blast
  show ?thesis unfolding ccw_tilly_build_call_static_def 1 Let_def prod.case 2 3
    using w1 w2 w3 wf_finish_build [OF w3] by simp
qed

lemma wf_reloc:
  assumes "wf_ir ir"
  shows "wf_ir (fst (ccw_tilly_build_reloc ir blk dest symbol addend))"
proof -
  obtain ir1 ins where 1: "ccw_ir_instr_build ir (Some CCW_TILLY_OP_RELOC) CCW_TY_PTR = (ir1, ins)" by fastforce
  obtain ir2 sym where 2: "ccw_ir_operand_func (opt_set_dest ir1 ins dest) symbol = (ir2, sym)" by fastforce
  obtain ir3 add where 3: "ccw_ir_operand_const_int ir2 CCW_TY_I64 addend = (ir3, add)" by fastforce
  have w1: "wf_ir ir1" using wf_fst [OF 1] wf_instr_build assms by blast
  have w2: "wf_ir ir2" using wf_fst [OF 2] wf_operand_named wf_opt_set_dest w1 by blast
  have w3: "wf_ir ir3" using wf_fst [OF 3] wf_operand_const(1) w2 by blast
  show ?thesis unfolding ccw_tilly_build_reloc_def 1 Let_def prod.case 2 3
    using w1 w3 by (simp add: wf_finish_build wf_add_operand)
qed

lemma wf_call_dynamic:
  assumes "wf_ir ir"
  shows "wf_ir (fst (ccw_on1x_build_call_dynamic ir blk dest t receiver selector slots))"
proof -
  obtain ir1 ins where 1: "ccw_ir_instr_build ir (Some CCW_ON1X_OP_CALL_DYNAMIC) t = (ir1, ins)" by fastforce
  obtain ir2 recv where 2: "ccw_ir_operand_reg (opt_set_dest ir1 ins dest) receiver = (ir2, recv)" by fastforce
  obtain ir3 sel where 3: "ccw_ir_operand_func ir2 selector = (ir3, sel)" by fastforce
  have w1: "wf_ir ir1" using wf_fst [OF 1] wf_instr_build assms by blast
  have w2: "wf_ir ir2" using wf_fst [OF 2] wf_operand_named wf_opt_set_dest w1 by blast
  have w3: "wf_ir ir3" using wf_fst [OF 3] wf_operand_named w2 by blast
  show ?thesis unfolding ccw_on1x_build_call_dynamic_def 1 Let_def prod.case 2 3
    using w1 w3 by (simp add: wf_finish_build wf_add_operand wf_attr_set)
qed

lemma wf_safepoint: "wf_ir ir \<Longrightarrow> wf_ir (fst (ccw_on1x_build_safepoint ir blk))"
  using wf_instr_build [of ir "Some CCW_ON1X_OP_SAFEPOINT" CCW_TY_VOID]
  by (cases "ccw_ir_instr_build ir (Some CCW_ON1X_OP_SAFEPOINT) CCW_TY_VOID")
    (simp add: ccw_on1x_build_safepoint_def wf_finish_build)

lemma wf_deopt:
  assumes "wf_ir ir"
  shows "wf_ir (fst (ccw_on1x_build_deopt ir blk target))"
proof -
  obtain ir1 ins where 1: "ccw_ir_instr_build ir (Some CCW_ON1X_OP_DEOPT) CCW_TY_VOID = (ir1, ins)" by fastforce
  obtain ir2 b where 2: "ccw_ir_operand_block ir1 target = (ir2, b)" by fastforce
  have w1: "wf_ir ir1" using wf_fst [OF 1] wf_instr_build assms by blast
  have w2: "wf_ir ir2" using wf_fst [OF 2] wf_operand_named w1 by blast
  show ?thesis unfolding ccw_on1x_build_deopt_def 1 Let_def prod.case 2
    using w1 w2 by (simp add: wf_finish_build wf_add_operand wf_attr_set)
qed

section \<open>What a rejection means\<close>

lemma any_attr_iff: "any_attr p ir ins is \<longleftrightarrow> (\<exists>i \<in> set is. p (ccw_ir_attr_key ir ins (int i)))"
  by (induction p ir ins "is" rule: any_attr.induct) auto

lemma any_attr_count:
  assumes "ccw_ir_node_get ir ins = Some n"
  shows "any_attr p ir ins [0..<nat (ccw_ir_attr_count ir ins)]
     \<longleftrightarrow> (\<exists>kv \<in> set (n_attrs n). p (Some (fst kv)))"
proof -
  have o: "ins \<noteq> 0" using node_get_pos [OF assms] by simp
  have "any_attr p ir ins [0..<nat (ccw_ir_attr_count ir ins)]
      \<longleftrightarrow> (\<exists>i < length (n_attrs n). p (Some (fst (n_attrs n ! i))))"
    using assms o by (auto simp: any_attr_iff ccw_ir_attr_count_def ccw_ir_attr_key_def ccw_attrs_of_def)
  then show ?thesis by (simp add: Bex_set in_set_conv_nth list_ex_length)
qed

definition on1x_construct :: "ccw_ir_node \<Rightarrow> bool" where
  "on1x_construct n \<longleftrightarrow>
     n_opcode n \<in> Some ` {''call.dynamic'', ''safepoint'', ''deopt''}
     \<or> (\<exists>kv \<in> set (n_attrs n). fst kv \<in> {''dispatch.inline-cache'', ''deopt.target''})"

definition tilly_construct :: "ccw_ir_node \<Rightarrow> bool" where
  "tilly_construct n \<longleftrightarrow>
     n_opcode n \<in> Some ` {''call.static'', ''reloc''}
     \<or> (\<exists>kv \<in> set (n_attrs n). fst kv \<in> {''link.section'', ''module.layout''})"

lemma tilly_rejects_iff:
  assumes "ccw_ir_node_get ir ins = Some n" "n_kind n = CCW_NODE_INSTR"
  shows "ccw_tilly_reject_reason ir ins \<noteq> None \<longleftrightarrow> on1x_construct n"
  using assms any_attr_count [OF assms(1)]
  by (auto simp: ccw_tilly_reject_reason_def ccw_on1x_is_profile_opcode_def ccw_on1x_is_profile_attr_def
      on1x_names on1x_construct_def ccw_ir_instr_opcode_def ccw_ir_node_get_kind_def image_iff
      split: option.splits)

lemma on1x_rejects_iff:
  assumes "ccw_ir_node_get ir ins = Some n" "n_kind n = CCW_NODE_INSTR"
  shows "ccw_on1x_reject_reason ir ins \<noteq> None \<longleftrightarrow> tilly_construct n"
  using assms any_attr_count [OF assms(1)]
  by (auto simp: ccw_on1x_reject_reason_def ccw_tilly_is_profile_opcode_def ccw_tilly_is_profile_attr_def
      tilly_names tilly_construct_def ccw_ir_instr_opcode_def ccw_ir_node_get_kind_def image_iff
      split: option.splits)

end
