(* ===== verification/IR_Machine.thy ===== *)
theory IR_Machine
  imports IR_Profiles
begin

text \<open>
  The life of a module: it is created empty and then changed by the operations of \<open>ir/ccw_ir.h\<close> and
  of the two profiles, in any order and with any arguments, valid or not. Every reachable module
  satisfies \<open>wf_ir\<close>.
\<close>

section \<open>The step relation\<close>

inductive ir_step :: "ccw_ir \<Rightarrow> ccw_ir \<Rightarrow> bool" where
  attr_set: "ir_step ir (fst (ccw_ir_attr_set ir owner k v))"
| function_add: "ir_step ir (fst (ccw_ir_function_add ir name t))"
| add_param: "ir_step ir (fst (ccw_ir_function_add_param ir fn t name))"
| block_add: "ir_step ir (fst (ccw_ir_block_add ir fn name))"
| instr_build: "ir_step ir (fst (ccw_ir_instr_build ir opcode t))"
| set_dest: "ir_step ir (fst (ccw_ir_instr_set_dest ir ins dest))"
| add_operand: "ir_step ir (fst (ccw_ir_instr_add_operand ir ins operand))"
| set_operand: "ir_step ir (fst (ccw_ir_instr_set_operand ir ins idx operand))"
| append_instr: "ir_step ir (fst (ccw_ir_block_append_instr ir blk ins))"
| operand_reg: "ir_step ir (fst (ccw_ir_operand_reg ir name))"
| operand_func: "ir_step ir (fst (ccw_ir_operand_func ir name))"
| operand_block: "ir_step ir (fst (ccw_ir_operand_block ir name))"
| operand_int: "ir_step ir (fst (ccw_ir_operand_const_int ir t w))"
| operand_float: "ir_step ir (fst (ccw_ir_operand_const_float ir t d))"
| build_syscall: "ir_step ir (fst (ccw_ir_build_syscall ir blk dest t w args))"
| build_read: "ir_step ir (fst (ccw_ir_build_io_read ir blk dest fd buffer count))"
| build_write: "ir_step ir (fst (ccw_ir_build_io_write ir blk dest fd buffer count))"
| build_close: "ir_step ir (fst (ccw_ir_build_io_close ir blk dest fd))"
| build_open: "ir_step ir (fst (ccw_ir_build_io_open ir blk dest path flags mode))"
| tilly_call_static: "ir_step ir (fst (ccw_tilly_build_call_static ir blk dest t callee))"
| tilly_reloc: "ir_step ir (fst (ccw_tilly_build_reloc ir blk dest symbol w))"
| tilly_link_section: "ir_step ir (fst (ccw_tilly_set_link_section ir fn v))"
| tilly_layout: "ir_step ir (fst (ccw_tilly_set_layout ir v))"
| on1x_call_dynamic: "ir_step ir (fst (ccw_on1x_build_call_dynamic ir blk dest t recv sel slots))"
| on1x_safepoint: "ir_step ir (fst (ccw_on1x_build_safepoint ir blk))"
| on1x_deopt: "ir_step ir (fst (ccw_on1x_build_deopt ir blk name))"
| replace: "ir_step ir (fst (ccw_ir_instr_replace ir old_ins new_ins))"
| insert_before: "ir_step ir (fst (ccw_ir_instr_insert_before ir anchor new_ins))"
| delete: "ir_step ir (fst (ccw_ir_instr_delete ir ins))"
| block_delete: "ir_step ir (fst (ccw_ir_block_delete ir blk))"
| block_merge: "ccw_ir_block_merge ir first second = Some (ir', st) \<Longrightarrow> ir_step ir ir'"

inductive_cases ir_stepE: "ir_step ir ir'"

definition ir_created :: "ccw_ir \<Rightarrow> bool" where
  "ir_created ir \<longleftrightarrow> (\<exists>name p. ir = ccw_ir_module_create name p)"

definition ir_reachable :: "ccw_ir \<Rightarrow> bool" where
  "ir_reachable ir \<longleftrightarrow> (\<exists>ir0. ir_created ir0 \<and> ir_step\<^sup>*\<^sup>* ir0 ir)"

lemmas wf_preserved = wf_attr_set wf_function_add wf_add_param wf_block_add wf_instr_build wf_set_dest
  wf_add_operand wf_append wf_operand_named wf_operand_const wf_build_syscall wf_build_io wf_replace
  wf_insert_before wf_instr_delete wf_block_delete wf_call_static wf_reloc wf_call_dynamic wf_safepoint
  wf_deopt

interpretation ir_sm: state_machine ir_created ir_step wf_ir
proof
  show "wf_ir s" if "ir_created s" for s
    using that wf_module_create by (auto simp: ir_created_def)
  show "wf_ir t" if "wf_ir s" "ir_step s t" for s t
    using that(2,1)
    by cases (simp_all add: wf_preserved ccw_ir_build_io_read_def ccw_ir_build_io_write_def
        ccw_ir_build_io_close_def ccw_ir_build_io_open_def ccw_tilly_set_link_section_def
        ccw_tilly_set_layout_def wf_merge)
qed

lemma reachable_wf: "ir_reachable ir \<Longrightarrow> wf_ir ir"
  unfolding ir_reachable_def using ir_sm.reachable_inv by blast

end
