(* ===== verification/IR_Flow.thy ===== *)
theory IR_Flow
  imports IR_Machine
begin

text \<open>
  The control-flow graph of a module. \<open>cfg_succs\<close> is what the successor query promises, the
  distinct targets named by the terminator in operand order; the array loops of \<open>ccw_ir.c\<close> and the
  predecessor queries are shown to compute it and its converse.
\<close>

section \<open>The specification\<close>

text \<open>The block an operand names, as a list of at most one element.\<close>

definition operand_target :: "ccw_ir \<Rightarrow> ccw_node \<Rightarrow> ccw_node \<Rightarrow> ccw_node list" where
  "operand_target ir parent operand =
     (let t = ccw_ir_block_target ir parent (ccw_ir_operand_name ir operand)
      in if ccw_ir_operand_kind ir operand = CCW_OPND_BLOCK \<and> t \<noteq> 0 then [t] else [])"

definition terminator_targets :: "ccw_ir \<Rightarrow> ccw_node \<Rightarrow> ccw_node list" where
  "terminator_targets ir blk =
     (case ccw_ir_node_get_kind ir blk CCW_NODE_BLOCK of
        None \<Rightarrow> []
      | Some B \<Rightarrow>
          if n_children B = [] then []
          else (case ccw_ir_node_get_kind ir (last (n_children B)) CCW_NODE_INSTR of
                  None \<Rightarrow> []
                | Some n \<Rightarrow>
                    if is_terminator (n_opcode n)
                    then concat (map (operand_target ir (n_parent B)) (n_children n)) else []))"

definition cfg_succs :: "ccw_ir \<Rightarrow> ccw_node \<Rightarrow> ccw_node list" where
  "cfg_succs ir blk = dedup [] (terminator_targets ir blk)"

definition cfg_preds :: "ccw_ir \<Rightarrow> ccw_node \<Rightarrow> ccw_node list" where
  "cfg_preds ir blk =
     (case block_function ir blk of
        None \<Rightarrow> []
      | Some F \<Rightarrow> filter (\<lambda>c. blk \<in> set (cfg_succs ir c)) (n_children F))"

section \<open>The array loop\<close>

lemma successors_loop_None:
  "successors_loop ir p ops None count =
     (None, count + length (concat (map (operand_target ir p) ops)))"
  by (induction ops arbitrary: count) (auto simp: operand_target_def Let_def)

lemma dedup_append_seen_length:
  "length (dedup seen (xs @ ys)) = length (dedup seen xs) + length (dedup (seen @ dedup seen xs) ys)"
  by (induction seen xs rule: dedup.induct) auto

lemma successors_loop_Some:
  assumes "count + length (concat (map (operand_target ir p) ops)) \<le> length a"
  shows "successors_loop ir p ops (Some a) count =
     (let d = dedup (take count a) (concat (map (operand_target ir p) ops))
      in (Some (take count a @ d @ drop (count + length d) a), count + length d))"
  using assms
proof (induction ops arbitrary: a count)
  case Nil
  then show ?case by simp
next
  case (Cons x ops)
  let ?T = "concat (map (operand_target ir p) ops)"
  let ?t = "ccw_ir_block_target ir p (ccw_ir_operand_name ir x)"
  show ?case
  proof (cases "ccw_ir_operand_kind ir x = CCW_OPND_BLOCK \<and> ?t \<noteq> 0")
    case False
    then have "operand_target ir p x = []" by (auto simp: operand_target_def Let_def)
    with False Cons show ?thesis by (auto simp: Let_def)
  next
    case True
    then have t: "operand_target ir p x = [?t]" by (simp add: operand_target_def)
    with Cons.prems have le: "count < length a" "Suc count + length ?T \<le> length a" by simp_all
    show ?thesis
    proof (cases "?t \<in> set (take count a)")
      case seen: True
      with True t le Cons show ?thesis by (simp add: Let_def)
    next
      case new: False
      have tk: "take (Suc count) (a[count := ?t]) = take count a @ [?t]"
        using le(1) by (simp add: take_Suc_conv_app_nth)
      have dr: "drop (Suc count + n) (a[count := ?t]) = drop (Suc count + n) a" for n by simp
      have "successors_loop ir p (x # ops) (Some a) count
          = successors_loop ir p ops (Some (a[count := ?t])) (Suc count)"
        using True new le(1) by (simp add: Let_def)
      also have "\<dots> = (let d = dedup (take count a @ [?t]) ?T
          in (Some ((take count a @ [?t]) @ d @ drop (Suc count + length d) a), Suc count + length d))"
        using Cons.IH [of "Suc count" "a[count := ?t]"] le(2) by (simp add: tk dr Let_def)
      finally show ?thesis using t new by (simp add: Let_def)
    qed
  qed
qed

lemma successors_None: "ccw_ir_block_successors ir blk None = (None, length (terminator_targets ir blk))"
  by (auto simp: ccw_ir_block_successors_def terminator_targets_def successors_loop_None
      split: option.splits)

lemma successors_Some:
  assumes "length a = length (terminator_targets ir blk)"
  shows "ccw_ir_block_successors ir blk (Some a) =
     (Some (cfg_succs ir blk @ drop (length (cfg_succs ir blk)) a), length (cfg_succs ir blk))"
  using assms
  by (auto simp: ccw_ir_block_successors_def terminator_targets_def cfg_succs_def
      successors_loop_Some Let_def split: option.splits)

lemma succ_count_eq: "ccw_ir_block_successor_count ir blk = int (length (terminator_targets ir blk))"
  by (simp add: ccw_ir_block_successor_count_def successors_None)

lemma length_cfg_succs: "length (cfg_succs ir blk) \<le> length (terminator_targets ir blk)"
  by (simp add: cfg_succs_def length_dedup_le)

lemma distinct_cfg_succs: "distinct (cfg_succs ir blk)"
  by (simp add: cfg_succs_def distinct_dedup)

lemma set_cfg_succs: "set (cfg_succs ir blk) = set (terminator_targets ir blk)"
  by (simp add: cfg_succs_def set_dedup)

lemma succ_ref_eq: "ccw_ir_block_successor_ref ir blk i = vec_ref (cfg_succs ir blk) i"
proof -
  let ?n = "length (terminator_targets ir blk)" and ?s = "cfg_succs ir blk"
  have *: "ccw_ir_block_successors ir blk (Some (replicate ?n 0)) =
      (Some (?s @ drop (length ?s) (replicate ?n 0)), length ?s)" by (rule successors_Some) simp
  show ?thesis
    using length_cfg_succs [of ir blk]
    by (auto simp: ccw_ir_block_successor_ref_def succ_count_eq * vec_ref_def Let_def nth_append)
qed

lemma targets_nonzero: "0 \<notin> set (terminator_targets ir blk)"
  by (auto simp: terminator_targets_def operand_target_def Let_def split: option.splits if_splits)

section \<open>Predecessors\<close>

lemma concat_map_if:
  "concat (map (\<lambda>j. if P j then [c] else []) js) = replicate (length (filter P js)) c"
  by (induction js) auto

lemma vec_ref_hits:
  assumes "distinct s" "blk \<noteq> 0" "length s \<le> n"
  shows "length (filter (\<lambda>j. vec_ref s (int j) = blk) [0..<n]) = (if blk \<in> set s then 1 else 0)"
proof (cases "blk \<in> set s")
  case True
  then obtain k where k: "k < length s" "s ! k = blk" by (auto simp: in_set_conv_nth)
  have "filter (\<lambda>j. vec_ref s (int j) = blk) [0..<n] = filter (\<lambda>j. j = k) [0..<n]"
    using k assms by (intro filter_cong) (auto simp: vec_ref_def nth_eq_iff_index_eq)
  moreover have S: "{x. x < n \<and> x = k} = {k}" using k assms by auto
  have "length (filter (\<lambda>j. j = k) [0..<n]) = card {k}"
    by (subst distinct_card [symmetric]) (use k assms in \<open>simp_all add: S\<close>)
  ultimately show ?thesis using True by simp
next
  case False
  then have "filter (\<lambda>j. vec_ref s (int j) = blk) [0..<n] = []"
    using assms(2) by (auto simp: filter_empty_conv vec_ref_def)
  with False show ?thesis by simp
qed

lemma hits_eq:
  assumes "blk \<noteq> 0"
  shows "predecessor_hits ir cs blk = filter (\<lambda>c. blk \<in> set (cfg_succs ir c)) cs"
  using assms
  by (induction cs)
    (simp_all add: predecessor_hits_def concat_map_if succ_ref_eq succ_count_eq
      vec_ref_hits distinct_cfg_succs length_cfg_succs)

lemma block_function_pos: "block_function ir blk = Some F \<Longrightarrow> blk \<noteq> 0"
  by (auto simp: block_function_def ir_simps dest: node_get_pos split: option.splits)

lemma pred_count_eq: "ccw_ir_block_predecessor_count ir blk = int (length (cfg_preds ir blk))"
  by (auto simp: ccw_ir_block_predecessor_count_def cfg_preds_def hits_eq dest: block_function_pos
      split: option.splits)

lemma pred_ref_eq: "ccw_ir_block_predecessor_ref ir blk i = vec_ref (cfg_preds ir blk) i"
  by (auto simp: ccw_ir_block_predecessor_ref_def cfg_preds_def hits_eq vec_ref_def
      dest: block_function_pos split: option.splits)

section \<open>Targets are blocks of the same function\<close>

lemma block_target_in_set: "block_target_in ir bs s \<noteq> 0 \<Longrightarrow>
   block_target_in ir bs s \<in> set bs \<and> ccw_ir_block_name ir (block_target_in ir bs s) = Some s"
  by (induction bs) (auto split: if_splits)

lemma block_target_in_first:
  "block_target_in ir bs s =
     (case filter (\<lambda>b. ccw_ir_block_name ir b = Some s) bs of [] \<Rightarrow> 0 | b # _ \<Rightarrow> b)"
  by (induction bs) auto

lemma block_target_live:
  assumes "ccw_ir_block_target ir f name \<noteq> 0"
  obtains F where "ccw_ir_node_get ir f = Some F" "n_kind F = CCW_NODE_FUNCTION"
    "ccw_ir_block_target ir f name \<in> set (n_children F)"
proof -
  from assms obtain F s where "ccw_ir_node_get_kind ir f CCW_NODE_FUNCTION = Some F" "name = Some s"
    by (auto simp: ccw_ir_block_target_def split: option.splits)
  with assms that block_target_in_set [of ir "n_children F" s] show ?thesis
    by (simp add: ccw_ir_block_target_def node_get_kind_iff)
qed

lemma operand_target_elem:
  "z \<in> set (operand_target ir p x) \<Longrightarrow> z = ccw_ir_block_target ir p (ccw_ir_operand_name ir x) \<and> z \<noteq> 0"
  by (simp only: operand_target_def Let_def split: if_splits, simp_all only: list.set) simp_all

lemma targets_in_function:
  assumes b: "ccw_ir_node_get ir b = Some B" "n_kind B = CCW_NODE_BLOCK"
    and t: "t \<in> set (terminator_targets ir b)"
  obtains F where "ccw_ir_node_get ir (n_parent B) = Some F" "n_kind F = CCW_NODE_FUNCTION"
    "t \<in> set (n_children F)"
proof -
  from t b obtain x where "t \<in> set (operand_target ir (n_parent B) x)"
    by (auto simp: terminator_targets_def ccw_ir_node_get_kind_def split: option.splits if_splits)
  from operand_target_elem [OF this] show ?thesis using that block_target_live by metis
qed

lemma wf_block_of:
  assumes wf: "wf_ir ir" and F: "ccw_ir_node_get ir f = Some F" "n_kind F = CCW_NODE_FUNCTION"
    and c: "c \<in> set (n_children F)"
  obtains C where "ccw_ir_node_get ir c = Some C" "n_kind C = CCW_NODE_BLOCK" "n_parent C = f"
proof -
  have "at (ccw_ir_node_get ir) c (is_block_of f)"
    using wf_heap_function [OF wf_heapD [OF wf] F] c by (simp add: function_ok_def)
  then show ?thesis using that by (auto elim!: atE simp: is_block_of_def)
qed

text \<open>Within a well-formed module the two queries enumerate one relation and its converse.\<close>

lemma cfg_converse:
  assumes wf: "wf_ir ir" and b: "ccw_ir_node_get ir b = Some B" "n_kind B = CCW_NODE_BLOCK"
  shows "t \<in> set (cfg_succs ir b) \<longleftrightarrow> b \<in> set (cfg_preds ir t)"
proof
  assume t: "t \<in> set (cfg_succs ir b)"
  then obtain F where F: "ccw_ir_node_get ir (n_parent B) = Some F" "n_kind F = CCW_NODE_FUNCTION"
    "t \<in> set (n_children F)" using targets_in_function [OF b] by (metis set_cfg_succs)
  obtain T where T: "ccw_ir_node_get ir t = Some T" "n_kind T = CCW_NODE_BLOCK" "n_parent T = n_parent B"
    using wf_block_of [OF wf F] .
  obtain F' where "ccw_ir_node_get ir (n_parent B) = Some F'" "b \<in> set (n_children F')"
    using block_parent [OF wf b] by (metis in_set_conv_decomp)
  with F T t show "b \<in> set (cfg_preds ir t)"
    by (simp add: cfg_preds_def block_function_def ccw_ir_node_get_kind_def)
next
  assume "b \<in> set (cfg_preds ir t)"
  then show "t \<in> set (cfg_succs ir b)" by (auto simp: cfg_preds_def split: option.splits)
qed

lemma distinct_cfg_preds: "wf_ir ir \<Longrightarrow> distinct (cfg_preds ir blk)"
  using wf_heap_function [OF wf_heapD]
  by (auto simp: cfg_preds_def block_function_def ir_simps function_ok_def intro!: distinct_filter
      split: option.splits)

end
