(* ===== verification/IR_Validate.thy ===== *)
theory IR_Validate
  imports IR_Flow IR_Profiles
begin

text \<open>
  Module validation (\<open>ir/ccw_ir_validate.c\<close>). A failure is \<open>Inl msg\<close>: the status is always
  \<open>CCW_ERR_TYPE\<close> and the message is what \<open>fail\<close> formats into its 512-byte buffer. Success is \<open>Inr ()\<close>.
  On a well-formed module the checks decide the predicate \<open>valid_module\<close>.
\<close>

section \<open>Messages\<close>

type_synonym verdict = "string + unit"

definition fail :: "string \<Rightarrow> verdict" where
  "fail msg = Inl (take 511 msg)"

text \<open>\<open>printf\<close> of a \<open>char *\<close>; a NULL pointer prints as \<open>(null)\<close>.\<close>

definition fmt_s :: "string option \<Rightarrow> string" where
  "fmt_s s = (case s of Some t \<Rightarrow> t | None \<Rightarrow> ''(null)'')"

text \<open>A counted loop whose body may return early with a verdict.\<close>

fun each_from :: "nat \<Rightarrow> (nat \<Rightarrow> 'a \<Rightarrow> verdict) \<Rightarrow> 'a list \<Rightarrow> verdict" where
  "each_from i body [] = Inr ()"
| "each_from i body (x # xs) =
     (case body i x of Inl e \<Rightarrow> Inl e | Inr _ \<Rightarrow> each_from (Suc i) body xs)"

definition each :: "(nat \<Rightarrow> 'a \<Rightarrow> verdict) \<Rightarrow> 'a list \<Rightarrow> verdict" where
  "each body xs = each_from 0 body xs"

definition andthen :: "verdict \<Rightarrow> verdict \<Rightarrow> verdict" where
  "andthen a b = (case a of Inl e \<Rightarrow> Inl e | Inr _ \<Rightarrow> b)"

section \<open>The checks of one function\<close>

text \<open>The name of node \<open>c\<close>, or \<open>None\<close> when the node is dead or unnamed.\<close>

definition live_name :: "ccw_ir \<Rightarrow> ccw_node \<Rightarrow> string option" where
  "live_name ir c = (case ccw_ir_node_get ir c of None \<Rightarrow> None | Some n \<Rightarrow> n_name n)"

definition check_block_names :: "ccw_ir \<Rightarrow> string option \<Rightarrow> ccw_node list \<Rightarrow> verdict" where
  "check_block_names ir fname cs =
     each (\<lambda>bi c.
       case live_name ir c of
         None \<Rightarrow> fail (''block '' @ dec_nat bi @ '' of @'' @ fmt_s fname @ '' has no name'')
       | Some s \<Rightarrow>
           if Some s \<in> set (map (live_name ir) (take bi cs))
           then fail (''duplicate block name ^'' @ s @ '' in @'' @ fmt_s fname)
           else Inr ()) cs"

definition check_param_names :: "ccw_ir \<Rightarrow> string option \<Rightarrow> ccw_node list \<Rightarrow> verdict" where
  "check_param_names ir fname ps =
     each (\<lambda>pi p.
       case live_name ir p of
         None \<Rightarrow> fail (''param '' @ dec_nat pi @ '' of @'' @ fmt_s fname @ '' has no name'')
       | Some s \<Rightarrow>
           if Some s \<in> set (map (live_name ir) (take pi ps))
           then fail (''duplicate parameter name %'' @ s @ '' in @'' @ fmt_s fname)
           else Inr ()) ps"

text \<open>Every block operand of an instruction names a block of the function.\<close>

definition check_targets ::
  "ccw_ir \<Rightarrow> ccw_ir_node \<Rightarrow> ccw_ir_node \<Rightarrow> ccw_ir_node \<Rightarrow> verdict" where
  "check_targets ir f b n =
     each (\<lambda>oi x.
       case ccw_ir_node_get_kind ir x CCW_NODE_OPERAND of
         None \<Rightarrow> Inr ()
       | Some opnd \<Rightarrow>
           if n_okind opnd = CCW_OPND_BLOCK
              \<and> \<not> (n_name opnd \<noteq> None \<and> n_name opnd \<in> set (map (live_name ir) (n_children f)))
           then fail (''undefined block target ^'' @ fmt_s (n_name opnd) @ '' in '' @ fmt_s (n_opcode n)
                      @ '' of @'' @ fmt_s (n_name f) @ '' ^'' @ fmt_s (n_name b))
           else Inr ()) (n_children n)"

definition check_ret_type :: "ccw_ir \<Rightarrow> ccw_ir_node \<Rightarrow> ccw_ir_node \<Rightarrow> verdict" where
  "check_ret_type ir f n =
     (if n_opcode n = Some ''ret'' \<and> n_children n \<noteq> [] then
        (case ccw_ir_node_get_kind ir (n_children n ! 0) CCW_NODE_OPERAND of
           None \<Rightarrow> Inr ()
         | Some val \<Rightarrow>
             if n_okind val \<noteq> CCW_OPND_REG \<and> n_type val \<noteq> n_type f
             then fail (''ret type '' @ ccw_ir_type_name (n_type val) @ '' does not match @''
                        @ fmt_s (n_name f) @ '' result type '' @ ccw_ir_type_name (n_type f))
             else Inr ())
      else Inr ())"

definition check_profile :: "ccw_ir \<Rightarrow> ccw_ir_node \<Rightarrow> ccw_ir_node \<Rightarrow> ccw_node \<Rightarrow> verdict" where
  "check_profile ir f b i =
     (case (if m_profile ir = CCW_PROFILE_TILLY then ccw_tilly_reject_reason ir i
            else ccw_on1x_reject_reason ir i) of
        None \<Rightarrow> Inr ()
      | Some why \<Rightarrow>
          fail (ccw_profile_name (m_profile ir) @ '' profile violation in @'' @ fmt_s (n_name f)
                @ '' ^'' @ fmt_s (n_name b) @ '': '' @ why))"

definition check_syscall :: "ccw_ir \<Rightarrow> ccw_ir_node \<Rightarrow> ccw_ir_node \<Rightarrow> ccw_ir_node \<Rightarrow> verdict" where
  "check_syscall ir f b n =
     (if n_opcode n = Some CCW_OP_SYSCALL
         \<and> (length (n_children n) < 1 \<or> length (n_children n) > 7
            \<or> (case ccw_ir_node_get_kind ir (n_children n ! 0) CCW_NODE_OPERAND of
                  None \<Rightarrow> True
                | Some x \<Rightarrow> n_okind x \<noteq> CCW_OPND_CONST_INT))
      then fail (''syscall in @'' @ fmt_s (n_name f) @ '' ^'' @ fmt_s (n_name b)
                 @ '' must have a constant number and at most six arguments'')
      else Inr ())"

definition check_io :: "ccw_ir_node \<Rightarrow> ccw_ir_node \<Rightarrow> ccw_ir_node \<Rightarrow> verdict" where
  "check_io f b n =
     (if (n_opcode n = Some CCW_OP_IO_READ \<or> n_opcode n = Some CCW_OP_IO_WRITE
          \<or> n_opcode n = Some CCW_OP_IO_OPEN) \<and> length (n_children n) \<noteq> 3
      then fail (fmt_s (n_opcode n) @ '' in @'' @ fmt_s (n_name f) @ '' ^'' @ fmt_s (n_name b)
                 @ '' must have three operands'')
      else if n_opcode n = Some CCW_OP_IO_CLOSE \<and> length (n_children n) \<noteq> 1
      then fail (''io.close in @'' @ fmt_s (n_name f) @ '' ^'' @ fmt_s (n_name b)
                 @ '' must have one operand'')
      else Inr ())"

definition check_instr ::
  "ccw_ir \<Rightarrow> ccw_ir_node \<Rightarrow> ccw_ir_node \<Rightarrow> nat \<Rightarrow> ccw_node \<Rightarrow> verdict" where
  "check_instr ir f b ii i =
     (case ccw_ir_node_get ir i of
        None \<Rightarrow> fail (''instruction '' @ dec_nat ii @ '' in ^'' @ fmt_s (n_name b) @ '' is malformed'')
      | Some n \<Rightarrow>
          if n_opcode n = None
          then fail (''instruction '' @ dec_nat ii @ '' in ^'' @ fmt_s (n_name b) @ '' is malformed'')
          else if \<not> n_attached n \<or> n_parent n \<noteq> n_id b
          then fail (''instruction '' @ fmt_s (n_opcode n) @ '' in ^'' @ fmt_s (n_name b)
                     @ '' is not attached'')
          else andthen (check_targets ir f b n)
                (andthen (check_ret_type ir f n)
                  (andthen (check_profile ir f b i)
                    (andthen (check_syscall ir f b n) (check_io f b n)))))"

definition check_block :: "ccw_ir \<Rightarrow> ccw_ir_node \<Rightarrow> nat \<Rightarrow> ccw_node \<Rightarrow> verdict" where
  "check_block ir f bi c =
     (case ccw_ir_node_get ir c of
        None \<Rightarrow> fail (''block '' @ dec_nat bi @ '' of @'' @ fmt_s (n_name f) @ '' is NULL'')
      | Some b \<Rightarrow>
          if n_children b = []
          then fail (''block ^'' @ fmt_s (n_name b) @ '' of @'' @ fmt_s (n_name f)
                     @ '' is empty (no terminator)'')
          else
            (case ccw_ir_node_get_kind ir (last (n_children b)) CCW_NODE_INSTR of
               None \<Rightarrow> fail (''last instruction in ^'' @ fmt_s (n_name b) @ '' of @'' @ fmt_s (n_name f)
                             @ '' is malformed'')
             | Some l \<Rightarrow>
                 if \<not> is_terminator (n_opcode l)
                 then fail (''block ^'' @ fmt_s (n_name b) @ '' of @'' @ fmt_s (n_name f)
                            @ '' does not end with a terminator (last opcode: ''
                            @ (case n_opcode l of Some s \<Rightarrow> s | None \<Rightarrow> ''NULL'') @ '')'')
                 else if bi > 0 \<and> ccw_ir_block_predecessor_count ir (n_id b) = 0
                   \<and> (case n_name b of None \<Rightarrow> True | Some s \<Rightarrow> strstr s ''.merge'' = None)
                 then fail (''block ^'' @ fmt_s (n_name b) @ '' of @'' @ fmt_s (n_name f)
                            @ '' is unreachable (no predecessors)'')
                 else each (check_instr ir f b) (n_children b)))"

definition validate_function :: "ccw_ir \<Rightarrow> ccw_ir_node \<Rightarrow> verdict" where
  "validate_function ir f =
     (if n_children f = [] then fail (''function @'' @ fmt_s (n_name f) @ '' has no blocks'')
      else andthen (check_block_names ir (n_name f) (n_children f))
            (andthen (check_param_names ir (n_name f) (n_params f))
              (each (check_block ir f) (n_children f))))"

section \<open>The module\<close>

definition check_function_names :: "ccw_ir \<Rightarrow> verdict" where
  "check_function_names ir =
     each (\<lambda>fi f.
       case live_name ir f of
         None \<Rightarrow> fail (''function '' @ dec_nat fi @ '' has no name'')
       | Some s \<Rightarrow>
           if Some s \<in> set (map (live_name ir) (take fi (m_functions ir)))
           then fail (''duplicate function name @'' @ s)
           else Inr ()) (m_functions ir)"

definition ccw_ir_validate :: "ccw_ir \<Rightarrow> verdict" where
  "ccw_ir_validate ir =
     andthen (check_function_names ir)
       (each (\<lambda>fi i.
          case ccw_ir_node_get ir i of
            None \<Rightarrow> fail (''function '' @ dec_nat fi @ '' is NULL'')
          | Some f \<Rightarrow> validate_function ir f) (m_functions ir))"

end
