(* ===== verification/IR_Valid.thy ===== *)
theory IR_Valid
  imports IR_Validate
begin

text \<open>
  What validation guarantees: \<open>valid_module\<close> states the rules of a valid module over the navigation
  API, and the checks of \<open>ir/ccw_ir_validate.c\<close> decide it on every well-formed module.
\<close>

section \<open>The rules\<close>

definition valid_instr :: "ccw_ir \<Rightarrow> ccw_node \<Rightarrow> ccw_ir_node \<Rightarrow> ccw_ir_node \<Rightarrow> bool" where
  "valid_instr ir f F n \<longleftrightarrow>
     (\<forall>x \<in> set (n_children n). ccw_ir_operand_kind ir x = CCW_OPND_BLOCK
        \<longrightarrow> ccw_ir_block_target ir f (ccw_ir_operand_name ir x) \<noteq> 0)
     \<and> (n_opcode n = Some ''ret'' \<and> n_children n \<noteq> []
        \<longrightarrow> ccw_ir_operand_kind ir (hd (n_children n)) = CCW_OPND_REG
          \<or> ccw_ir_operand_type ir (hd (n_children n)) = n_type F)
     \<and> (if m_profile ir = CCW_PROFILE_TILLY then \<not> on1x_construct n else \<not> tilly_construct n)
     \<and> (n_opcode n = Some ''syscall''
        \<longrightarrow> n_children n \<noteq> [] \<and> length (n_children n) \<le> 7
          \<and> ccw_ir_operand_kind ir (hd (n_children n)) = CCW_OPND_CONST_INT)
     \<and> (n_opcode n \<in> {Some ''io.read'', Some ''io.write'', Some ''io.open''} \<longrightarrow> length (n_children n) = 3)
     \<and> (n_opcode n = Some ''io.close'' \<longrightarrow> length (n_children n) = 1)"

definition valid_block :: "ccw_ir \<Rightarrow> ccw_node \<Rightarrow> ccw_ir_node \<Rightarrow> ccw_node \<Rightarrow> bool" where
  "valid_block ir f F c \<longleftrightarrow>
     at (ccw_ir_node_get ir) c (\<lambda>B.
       n_children B \<noteq> [] \<and> ccw_ir_instr_is_terminator ir (last (n_children B))
       \<and> (c \<noteq> hd (n_children F) \<longrightarrow> cfg_preds ir c \<noteq> [] \<or> sublist ''.merge'' (the (n_name B)))
       \<and> (\<forall>i \<in> set (n_children B). at (ccw_ir_node_get ir) i (valid_instr ir f F)))"

definition valid_function :: "ccw_ir \<Rightarrow> ccw_node \<Rightarrow> ccw_ir_node \<Rightarrow> bool" where
  "valid_function ir f F \<longleftrightarrow>
     n_children F \<noteq> [] \<and> distinct (map (live_name ir) (n_children F))
     \<and> distinct (map (live_name ir) (n_params F))
     \<and> (\<forall>c \<in> set (n_children F). valid_block ir f F c)"

definition valid_module :: "ccw_ir \<Rightarrow> bool" where
  "valid_module ir \<longleftrightarrow>
     distinct (map (live_name ir) (m_functions ir))
     \<and> (\<forall>f \<in> set (m_functions ir). at (ccw_ir_node_get ir) f (valid_function ir f))"

section \<open>Loops and searches\<close>

lemma fail_Inr [simp]: "fail m \<noteq> Inr ()" "(case x of True \<Rightarrow> fail m | False \<Rightarrow> Inr ()) = Inr () \<longleftrightarrow> \<not> x"
  by (auto simp: fail_def split: bool.splits)

lemma andthen_ok [simp]: "andthen a b = Inr () \<longleftrightarrow> a = Inr () \<and> b = Inr ()"
  by (cases a) (auto simp: andthen_def)

lemma each_from_ok: "each_from i body xs = Inr () \<longleftrightarrow> (\<forall>k < length xs. body (i + k) (xs ! k) = Inr ())"
proof (induction xs arbitrary: i)
  case Nil
  then show ?case by simp
next
  case (Cons x xs)
  have "(\<forall>k < length (x # xs). body (i + k) ((x # xs) ! k) = Inr ())
      \<longleftrightarrow> body i x = Inr () \<and> (\<forall>k < length xs. body (Suc i + k) (xs ! k) = Inr ())"
    by (auto simp: All_less_Suc2)
  with Cons show ?case by (auto split: sum.splits)
qed

lemma each_ok: "each body xs = Inr () \<longleftrightarrow> (\<forall>k < length xs. body k (xs ! k) = Inr ())"
  by (simp add: each_def each_from_ok)

lemma each_ok_set: "(\<And>i x. x \<in> set xs \<Longrightarrow> body i x = Inr () \<longleftrightarrow> P x) \<Longrightarrow> each body xs = Inr () \<longleftrightarrow> (\<forall>x \<in> set xs. P x)"
  by (auto simp: each_ok all_set_conv_all_nth)

lemma strstr_iff: "strstr h n \<noteq> None \<longleftrightarrow> sublist n h"
proof (induction h n rule: strstr.induct)
  case (1 n)
  then show ?case by simp
next
  case (2 c h n)
  have "starts_with n (c # h) \<longleftrightarrow> prefix n (c # h)"
    by (metis append_take_drop_id prefix_def starts_with_append starts_with_def)
  then show ?case using 2 by (auto simp: sublist_Cons_right)
qed

text \<open>The quadratic duplicate check of the three name loops.\<close>

lemma distinct_by_prefix: "distinct xs \<longleftrightarrow> (\<forall>k < length xs. xs ! k \<notin> set (take k xs))"
proof (induction xs rule: rev_induct)
  case Nil
  then show ?case by simp
next
  case (snoc x xs)
  then show ?case by (auto simp: nth_append less_Suc_eq)
qed

lemma unique_names_ok:
  assumes "\<forall>c \<in> set cs. live_name ir c \<noteq> None"
  shows "each (\<lambda>k c. case live_name ir c of None \<Rightarrow> fail (m1 k)
      | Some s \<Rightarrow> if Some s \<in> set (map (live_name ir) (take k cs)) then fail (m2 s) else Inr ()) cs = Inr ()
    \<longleftrightarrow> distinct (map (live_name ir) cs)"
proof -
  have "(case live_name ir (cs ! k) of None \<Rightarrow> fail (m1 k)
      | Some s \<Rightarrow> if Some s \<in> set (map (live_name ir) (take k cs)) then fail (m2 s) else Inr ()) = Inr ()
      \<longleftrightarrow> map (live_name ir) cs ! k \<notin> set (take k (map (live_name ir) cs))" if "k < length cs" for k
    using bspec [OF assms nth_mem [OF that]] that by (cases "live_name ir (cs ! k)") (auto simp: take_map)
  then show ?thesis by (simp add: each_ok distinct_by_prefix)
qed

section \<open>The checks decide the rules\<close>

lemma block_target_iff:
  assumes "\<forall>b \<in> set bs. b \<noteq> 0"
  shows "block_target_in ir bs s \<noteq> 0 \<longleftrightarrow> Some s \<in> set (map (ccw_ir_block_name ir) bs)"
  using assms by (induction bs) auto

lemma live_name_block:
  "ccw_ir_node_get ir c = Some B \<Longrightarrow> n_kind B = CCW_NODE_BLOCK \<Longrightarrow> live_name ir c = ccw_ir_block_name ir c"
  by (simp add: live_name_def ccw_ir_block_name_def ccw_ir_node_get_kind_def)

lemma function_block_names:
  assumes wf: "wf_ir ir" and F: "ccw_ir_node_get ir f = Some F" "n_kind F = CCW_NODE_FUNCTION"
  shows "map (live_name ir) (n_children F) = map (ccw_ir_block_name ir) (n_children F)"
    and "\<forall>b \<in> set (n_children F). b \<noteq> 0"
    and "\<forall>b \<in> set (n_children F). live_name ir b \<noteq> None"
proof -
  show "map (live_name ir) (n_children F) = map (ccw_ir_block_name ir) (n_children F)"
    using wf_block_of [OF wf F] live_name_block by (metis (no_types, lifting) map_eq_conv)
  show "\<forall>b \<in> set (n_children F). b \<noteq> 0" using wf_block_of [OF wf F] node_get_pos by (metis less_irrefl)
  show "\<forall>b \<in> set (n_children F). live_name ir b \<noteq> None"
  proof
    fix b assume "b \<in> set (n_children F)"
    then obtain B where B: "ccw_ir_node_get ir b = Some B" "n_kind B = CCW_NODE_BLOCK"
      using wf_block_of [OF wf F] by blast
    then show "live_name ir b \<noteq> None"
      using wf_heap_block [OF wf_heapD [OF wf] B] by (simp add: live_name_def block_ok_def)
  qed
qed

lemma operand_name_some:
  assumes "wf_ir ir" "ccw_ir_node_get ir x = Some n" "n_kind n = CCW_NODE_OPERAND" "n_okind n = CCW_OPND_BLOCK"
  shows "n_name n \<noteq> None"
  using wf_heap_node [OF wf_heapD [OF assms(1)] assms(2)] assms(3,4)
  by (simp add: node_ok_def operand_ok_def)

lemma check_targets_ok:
  assumes wf: "wf_ir ir" and F: "ccw_ir_node_get ir f = Some F" "n_kind F = CCW_NODE_FUNCTION"
  shows "check_targets ir F b n = Inr () \<longleftrightarrow>
     (\<forall>x \<in> set (n_children n). ccw_ir_operand_kind ir x = CCW_OPND_BLOCK
        \<longrightarrow> ccw_ir_block_target ir f (ccw_ir_operand_name ir x) \<noteq> 0)"
  unfolding check_targets_def
proof (rule each_ok_set, goal_cases)
  case (1 i x)
  show ?case
  proof (cases "ccw_ir_node_get_kind ir x CCW_NODE_OPERAND")
    case None
    then show ?thesis by (simp add: ccw_ir_operand_kind_def)
  next
    case (Some m)
    then have m: "ccw_ir_node_get ir x = Some m" "n_kind m = CCW_NODE_OPERAND" by (simp_all add: node_get_kind_iff)
    show ?thesis
    proof (cases "n_okind m = CCW_OPND_BLOCK")
      case False
      with Some show ?thesis by (simp add: ccw_ir_operand_kind_def)
    next
      case True
      with operand_name_some [OF wf m] obtain s where s: "n_name m = Some s" by auto
      have "ccw_ir_block_target ir f (Some s) \<noteq> 0 \<longleftrightarrow> Some s \<in> set (map (live_name ir) (n_children F))"
        using block_target_iff [OF function_block_names(2) [OF wf F]] F
        unfolding function_block_names(1) [OF wf F]
        by (simp add: ccw_ir_block_target_def ccw_ir_node_get_kind_def)
      with True Some s show ?thesis
        by (simp add: ccw_ir_operand_kind_def ccw_ir_operand_name_def)
    qed
  qed
qed

lemma check_ret_ok:
  "check_ret_type ir F n = Inr () \<longleftrightarrow>
     (n_opcode n = Some ''ret'' \<and> n_children n \<noteq> []
        \<longrightarrow> ccw_ir_operand_kind ir (hd (n_children n)) = CCW_OPND_REG
          \<or> ccw_ir_operand_type ir (hd (n_children n)) = n_type F)"
  by (cases "ccw_ir_node_get_kind ir (n_children n ! 0) CCW_NODE_OPERAND")
    (auto simp: check_ret_type_def hd_conv_nth ccw_ir_operand_kind_def ccw_ir_operand_type_def)

lemma check_profile_ok:
  assumes "ccw_ir_node_get ir i = Some n" "n_kind n = CCW_NODE_INSTR"
  shows "check_profile ir F b i = Inr () \<longleftrightarrow>
     (if m_profile ir = CCW_PROFILE_TILLY then \<not> on1x_construct n else \<not> tilly_construct n)"
  using tilly_rejects_iff [OF assms] on1x_rejects_iff [OF assms]
  by (auto simp: check_profile_def split: option.splits)

lemma check_syscall_ok:
  "check_syscall ir F b n = Inr () \<longleftrightarrow>
     (n_opcode n = Some ''syscall''
        \<longrightarrow> n_children n \<noteq> [] \<and> length (n_children n) \<le> 7
          \<and> ccw_ir_operand_kind ir (hd (n_children n)) = CCW_OPND_CONST_INT)"
  by (cases "ccw_ir_node_get_kind ir (n_children n ! 0) CCW_NODE_OPERAND")
    (auto simp: check_syscall_def hd_conv_nth ccw_ir_operand_kind_def CCW_OP_SYSCALL_def not_less Suc_le_eq)

lemma check_io_ok:
  "check_io F b n = Inr () \<longleftrightarrow>
     (n_opcode n \<in> {Some ''io.read'', Some ''io.write'', Some ''io.open''} \<longrightarrow> length (n_children n) = 3)
     \<and> (n_opcode n = Some ''io.close'' \<longrightarrow> length (n_children n) = 1)"
  by (auto simp: check_io_def CCW_OP_IO_READ_def CCW_OP_IO_WRITE_def CCW_OP_IO_OPEN_def CCW_OP_IO_CLOSE_def)

lemma check_instr_ok:
  assumes wf: "wf_ir ir" and F: "ccw_ir_node_get ir f = Some F" "n_kind F = CCW_NODE_FUNCTION"
    and B: "ccw_ir_node_get ir c = Some B" "n_kind B = CCW_NODE_BLOCK" and i: "i \<in> set (n_children B)"
  shows "check_instr ir F B ii i = Inr () \<longleftrightarrow> at (ccw_ir_node_get ir) i (valid_instr ir f F)"
proof -
  obtain n where n: "ccw_ir_node_get ir i = Some n" "n_kind n = CCW_NODE_INSTR" "n_attached n" "n_parent n = c"
    using block_instr [OF wf B i] .
  obtain op where "n_opcode n = Some op"
    using wf_heap_instr [OF wf_heapD [OF wf] n(1,2)] by (auto simp: instr_ok_def)
  moreover have "n_id B = c" using wf ids_ok_get_id [OF _ B(1)] by (simp add: wf_ir_def)
  ultimately show ?thesis
    using n by (simp add: check_instr_def at_def valid_instr_def check_targets_ok [OF wf F] check_ret_ok
        check_profile_ok [OF n(1,2)] check_syscall_ok check_io_ok)
qed

lemma check_block_ok:
  assumes wf: "wf_ir ir" and F: "ccw_ir_node_get ir f = Some F" "n_kind F = CCW_NODE_FUNCTION"
    and k: "k < length (n_children F)"
  shows "check_block ir F k (n_children F ! k) = Inr () \<longleftrightarrow> valid_block ir f F (n_children F ! k)"
proof -
  let ?c = "n_children F ! k"
  have c: "?c \<in> set (n_children F)" using k by simp
  obtain B where B: "ccw_ir_node_get ir ?c = Some B" "n_kind B = CCW_NODE_BLOCK"
    using wf_block_of [OF wf F c] by blast
  have id: "n_id B = ?c" using wf ids_ok_get_id [OF _ B(1)] by (simp add: wf_ir_def)
  obtain s where s: "n_name B = Some s"
    using wf_heap_block [OF wf_heapD [OF wf] B] by (auto simp: block_ok_def)
  have first: "0 < k \<longleftrightarrow> ?c \<noteq> hd (n_children F)"
    using wf_heap_function [OF wf_heapD [OF wf] F] k
    by (cases "n_children F") (auto simp: function_ok_def nth_Cons split: nat.splits)
  have preds: "ccw_ir_block_predecessor_count ir ?c = 0 \<longleftrightarrow> cfg_preds ir ?c = []" by (simp add: pred_count_eq)
  have instrs: "each (check_instr ir F B) (n_children B) = Inr () \<longleftrightarrow>
      (\<forall>i \<in> set (n_children B). at (ccw_ir_node_get ir) i (valid_instr ir f F))"
    by (rule each_ok_set) (rule check_instr_ok [OF wf F B])
  show ?thesis
  proof (cases "n_children B = []")
    case True
    with B show ?thesis by (simp add: check_block_def valid_block_def at_def)
  next
    case False
    obtain l where l: "ccw_ir_node_get ir (last (n_children B)) = Some l" "n_kind l = CCW_NODE_INSTR"
      using block_instr [OF wf B, of "last (n_children B)"] False by auto
    have "strstr s ''.merge'' = None \<longleftrightarrow> \<not> sublist ''.merge'' s" using strstr_iff [of s "''.merge''"] by blast
    with False l B s show ?thesis
      by (simp add: check_block_def valid_block_def at_def id first preds instrs
          ccw_ir_instr_is_terminator_def ccw_ir_instr_opcode_def ccw_ir_node_get_kind_def) blast
  qed
qed

lemma params_named:
  assumes wf: "wf_ir ir" and F: "ccw_ir_node_get ir f = Some F" "n_kind F = CCW_NODE_FUNCTION"
  shows "\<forall>p \<in> set (n_params F). live_name ir p \<noteq> None"
proof
  fix p assume "p \<in> set (n_params F)"
  then have "at (ccw_ir_node_get ir) p is_reg"
    using wf_heap_function [OF wf_heapD [OF wf] F] by (simp add: function_ok_def)
  then obtain n where "ccw_ir_node_get ir p = Some n" "n_kind n = CCW_NODE_OPERAND" "n_okind n = CCW_OPND_REG"
    by (auto simp: is_reg_def elim!: atE)
  then show "live_name ir p \<noteq> None"
    using wf_heap_node [OF wf_heapD [OF wf]] by (fastforce simp: live_name_def node_ok_def operand_ok_def)
qed

lemma validate_function_ok:
  assumes wf: "wf_ir ir" and F: "ccw_ir_node_get ir f = Some F" "n_kind F = CCW_NODE_FUNCTION"
  shows "validate_function ir F = Inr () \<longleftrightarrow> valid_function ir f F"
proof -
  have "each (check_block ir F) (n_children F) = Inr () \<longleftrightarrow> (\<forall>c \<in> set (n_children F). valid_block ir f F c)"
    using check_block_ok [OF wf F] by (auto simp: each_ok all_set_conv_all_nth)
  then show ?thesis
    by (simp add: validate_function_def valid_function_def check_block_names_def check_param_names_def
        unique_names_ok [OF function_block_names(3) [OF wf F]] unique_names_ok [OF params_named [OF wf F]])
qed

lemma function_live:
  assumes wf: "wf_ir ir" and f: "f \<in> set (m_functions ir)"
  obtains F where "ccw_ir_node_get ir f = Some F" "n_kind F = CCW_NODE_FUNCTION" "n_name F \<noteq> None"
proof -
  from wf f obtain F where F: "ccw_ir_node_get ir f = Some F" "n_kind F = CCW_NODE_FUNCTION"
    by (auto simp: wf_ir_def wf_heap_def elim!: atE)
  moreover have "n_name F \<noteq> None"
    using wf_heap_function [OF wf_heapD [OF wf] F] by (simp add: function_ok_def)
  ultimately show ?thesis using that by blast
qed

lemma validate_ok:
  assumes wf: "wf_ir ir"
  shows "ccw_ir_validate ir = Inr () \<longleftrightarrow> valid_module ir"
proof -
  have names: "\<forall>f \<in> set (m_functions ir). live_name ir f \<noteq> None"
  proof
    fix f assume "f \<in> set (m_functions ir)"
    from function_live [OF wf this] obtain F where "ccw_ir_node_get ir f = Some F" "n_name F \<noteq> None" .
    then show "live_name ir f \<noteq> None" by (simp add: live_name_def)
  qed
  have "each (\<lambda>fi i. case ccw_ir_node_get ir i of
          None \<Rightarrow> fail (''function '' @ dec_nat fi @ '' is NULL'')
        | Some f \<Rightarrow> validate_function ir f) (m_functions ir) = Inr ()
      \<longleftrightarrow> (\<forall>f \<in> set (m_functions ir). at (ccw_ir_node_get ir) f (valid_function ir f))"
  proof (rule each_ok_set, goal_cases)
    case (1 i f)
    then obtain F where F: "ccw_ir_node_get ir f = Some F" "n_kind F = CCW_NODE_FUNCTION"
      using function_live [OF wf] by blast
    then show ?case using validate_function_ok [OF wf F] by (simp add: at_def)
  qed
  then show ?thesis
    by (simp add: ccw_ir_validate_def valid_module_def check_function_names_def unique_names_ok [OF names])
qed

end
