(* ===== verification/IR_Equal.thy ===== *)
theory IR_Equal
  imports IR_Machine
begin

text \<open>
  Structural equality of modules (\<open>ccw_ir_equal\<close>, ids excluded) and its specification: equality of
  the trees that remain when node ids are forgotten.
\<close>

section \<open>The code\<close>

definition ccw_streq :: "string option \<Rightarrow> string option \<Rightarrow> bool" where
  "ccw_streq a b =
     (case (a, b) of
        (Some s, Some t) \<Rightarrow> s = t
      | _ \<Rightarrow> a = None \<and> b = None)"

text \<open>A counted loop over two arrays of the same length that fails on the first differing pair.\<close>

fun loop_equal :: "('a \<Rightarrow> 'b \<Rightarrow> bool) \<Rightarrow> 'a list \<Rightarrow> 'b list \<Rightarrow> bool" where
  "loop_equal eq [] _ = True"
| "loop_equal eq (x # xs) [] = True"
| "loop_equal eq (x # xs) (y # ys) = (if \<not> eq x y then False else loop_equal eq xs ys)"

definition ccw_attrs_equal :: "ccw_attrs \<Rightarrow> ccw_attrs \<Rightarrow> bool" where
  "ccw_attrs_equal a b =
     (if length a \<noteq> length b then False
      else loop_equal (\<lambda>x y. ccw_streq (Some (fst x)) (Some (fst y))
                           \<and> ccw_streq (Some (snd x)) (Some (snd y))) a b)"

definition ccw_operand_equal :: "ccw_ir \<Rightarrow> ccw_node \<Rightarrow> ccw_ir \<Rightarrow> ccw_node \<Rightarrow> bool" where
  "ccw_operand_equal ia na ib nb =
     (case (ccw_ir_node_get_kind ia na CCW_NODE_OPERAND,
            ccw_ir_node_get_kind ib nb CCW_NODE_OPERAND) of
        (Some a, Some b) \<Rightarrow>
          if n_okind a \<noteq> n_okind b \<or> n_type a \<noteq> n_type b then False
          else if n_okind a = CCW_OPND_CONST_INT then n_ival a = n_ival b
          else if n_okind a = CCW_OPND_CONST_FLOAT then double_eq (n_fval a) (n_fval b)
          else ccw_streq (n_name a) (n_name b)
      | (a, b) \<Rightarrow> a = None \<and> b = None)"

definition ccw_instr_equal :: "ccw_ir \<Rightarrow> ccw_node \<Rightarrow> ccw_ir \<Rightarrow> ccw_node \<Rightarrow> bool" where
  "ccw_instr_equal ia na ib nb =
     (case (ccw_ir_node_get_kind ia na CCW_NODE_INSTR,
            ccw_ir_node_get_kind ib nb CCW_NODE_INSTR) of
        (Some a, Some b) \<Rightarrow>
          if \<not> ccw_streq (n_opcode a) (n_opcode b) \<or> \<not> ccw_streq (n_name a) (n_name b) then False
          else if n_type a \<noteq> n_type b then False
          else if length (n_children a) \<noteq> length (n_children b) then False
          else if \<not> ccw_attrs_equal (n_attrs a) (n_attrs b) then False
          else loop_equal (\<lambda>x y. ccw_operand_equal ia x ib y) (n_children a) (n_children b)
      | (a, b) \<Rightarrow> a = None \<and> b = None)"

definition block_equal :: "ccw_ir \<Rightarrow> ccw_node \<Rightarrow> ccw_ir \<Rightarrow> ccw_node \<Rightarrow> bool" where
  "block_equal ia na ib nb =
     (case (ccw_ir_node_get ia na, ccw_ir_node_get ib nb) of
        (Some ba, Some bb) \<Rightarrow>
          if \<not> ccw_streq (n_name ba) (n_name bb) then False
          else if \<not> ccw_attrs_equal (n_attrs ba) (n_attrs bb) then False
          else if length (n_children ba) \<noteq> length (n_children bb) then False
          else loop_equal (\<lambda>x y. ccw_instr_equal ia x ib y) (n_children ba) (n_children bb)
      | _ \<Rightarrow> False)"

definition function_equal :: "ccw_ir \<Rightarrow> ccw_node \<Rightarrow> ccw_ir \<Rightarrow> ccw_node \<Rightarrow> bool" where
  "function_equal ia na ib nb =
     (case (ccw_ir_node_get ia na, ccw_ir_node_get ib nb) of
        (Some fa, Some fb) \<Rightarrow>
          if \<not> ccw_streq (n_name fa) (n_name fb) \<or> n_type fa \<noteq> n_type fb then False
          else if \<not> ccw_attrs_equal (n_attrs fa) (n_attrs fb) then False
          else if length (n_params fa) \<noteq> length (n_params fb) then False
          else if \<not> loop_equal (\<lambda>x y. ccw_operand_equal ia x ib y) (n_params fa) (n_params fb) then False
          else if length (n_children fa) \<noteq> length (n_children fb) then False
          else loop_equal (\<lambda>x y. block_equal ia x ib y) (n_children fa) (n_children fb)
      | _ \<Rightarrow> False)"

definition ccw_ir_equal :: "ccw_ir \<Rightarrow> ccw_ir \<Rightarrow> bool" where
  "ccw_ir_equal a b =
     (if m_profile a \<noteq> m_profile b \<or> \<not> ccw_streq (Some (m_name a)) (Some (m_name b)) then False
      else if \<not> ccw_attrs_equal (m_attrs a) (m_attrs b) then False
      else if length (m_functions a) \<noteq> length (m_functions b) then False
      else loop_equal (\<lambda>x y. function_equal a x b y) (m_functions a) (m_functions b))"

section \<open>Modules without ids\<close>

datatype operand_value = VInt "64 word" | VFloat double | VName "string option"

datatype operand_tree = OperandTree ccw_operand_kind ccw_ir_type operand_value

datatype instr_tree =
  InstrTree "string option" "string option" ccw_ir_type ccw_attrs "operand_tree option list"

datatype block_tree = BlockTree "string option" ccw_attrs "instr_tree option list"

datatype function_tree =
  FunctionTree "string option" ccw_ir_type ccw_attrs "operand_tree option list" "block_tree option list"

datatype module_tree = ModuleTree string ccw_profile ccw_attrs "function_tree option list"

text \<open>The two zeros are one value.\<close>

definition double_canon :: "double \<Rightarrow> double" where
  "double_canon x = (if double_is_zero x then 0 else x)"

definition operand_tree_of :: "ccw_ir \<Rightarrow> ccw_node \<Rightarrow> operand_tree option" where
  "operand_tree_of ir i =
     map_option (\<lambda>n. OperandTree (n_okind n) (n_type n)
       (if n_okind n = CCW_OPND_CONST_INT then VInt (n_ival n)
        else if n_okind n = CCW_OPND_CONST_FLOAT then VFloat (double_canon (n_fval n))
        else VName (n_name n)))
       (ccw_ir_node_get_kind ir i CCW_NODE_OPERAND)"

definition instr_tree_of :: "ccw_ir \<Rightarrow> ccw_node \<Rightarrow> instr_tree option" where
  "instr_tree_of ir i =
     map_option (\<lambda>n. InstrTree (n_opcode n) (n_name n) (n_type n) (n_attrs n)
         (map (operand_tree_of ir) (n_children n)))
       (ccw_ir_node_get_kind ir i CCW_NODE_INSTR)"

definition block_tree_of :: "ccw_ir \<Rightarrow> ccw_node \<Rightarrow> block_tree option" where
  "block_tree_of ir i =
     map_option (\<lambda>n. BlockTree (n_name n) (n_attrs n) (map (instr_tree_of ir) (n_children n)))
       (ccw_ir_node_get ir i)"

definition function_tree_of :: "ccw_ir \<Rightarrow> ccw_node \<Rightarrow> function_tree option" where
  "function_tree_of ir i =
     map_option (\<lambda>n. FunctionTree (n_name n) (n_type n) (n_attrs n)
         (map (operand_tree_of ir) (n_params n)) (map (block_tree_of ir) (n_children n)))
       (ccw_ir_node_get ir i)"

definition module_tree_of :: "ccw_ir \<Rightarrow> module_tree" where
  "module_tree_of ir =
     ModuleTree (m_name ir) (m_profile ir) (m_attrs ir) (map (function_tree_of ir) (m_functions ir))"

text \<open>No NaN constant: a NaN differs from itself under \<open>==\<close>.\<close>

definition nan_free :: "ccw_ir \<Rightarrow> bool" where
  "nan_free ir \<longleftrightarrow>
     (\<forall>n \<in> set (m_nodes ir). n_okind n = CCW_OPND_CONST_FLOAT \<longrightarrow> \<not> double_is_nan (n_fval n))"

section \<open>The code decides tree equality\<close>

lemma ccw_streq_iff [simp]: "ccw_streq a b \<longleftrightarrow> a = b"
  by (auto simp: ccw_streq_def split: option.splits)

lemma loop_equal_map:
  assumes "\<And>x y. x \<in> set xs \<Longrightarrow> y \<in> set ys \<Longrightarrow> eq x y \<longleftrightarrow> f x = g y" and "length xs = length ys"
  shows "loop_equal eq xs ys \<longleftrightarrow> map f xs = map g ys"
  using assms by (induction eq xs ys rule: loop_equal.induct) auto

lemma ccw_attrs_equal_iff [simp]: "ccw_attrs_equal a b \<longleftrightarrow> a = b"
proof (cases "length a = length b")
  case True
  then have "loop_equal (\<lambda>x y. ccw_streq (Some (fst x)) (Some (fst y))
      \<and> ccw_streq (Some (snd x)) (Some (snd y))) a b \<longleftrightarrow> map id a = map id b"
    by (intro loop_equal_map) (auto simp: prod_eq_iff)
  with True show ?thesis by (simp add: ccw_attrs_equal_def)
qed (auto simp: ccw_attrs_equal_def)

lemma double_canon_eq:
  "\<not> double_is_nan x \<Longrightarrow> \<not> double_is_nan y \<Longrightarrow> double_eq x y \<longleftrightarrow> double_canon x = double_canon y"
  by (auto simp: double_eq_def double_canon_def double_is_zero_def)

lemma nan_freeD:
  "nan_free ir \<Longrightarrow> ccw_ir_node_get ir i = Some n \<Longrightarrow> n_okind n = CCW_OPND_CONST_FLOAT
   \<Longrightarrow> \<not> double_is_nan (n_fval n)"
  using node_get_nth [of ir i n] by (auto simp: nan_free_def)

lemma operand_equal_iff:
  assumes "nan_free a" "nan_free b"
  shows "ccw_operand_equal a x b y \<longleftrightarrow> operand_tree_of a x = operand_tree_of b y"
proof (cases "ccw_ir_node_get_kind a x CCW_NODE_OPERAND")
  case None
  then show ?thesis by (simp add: ccw_operand_equal_def operand_tree_of_def)
next
  case (Some n)
  show ?thesis
  proof (cases "ccw_ir_node_get_kind b y CCW_NODE_OPERAND")
    case None
    with Some show ?thesis by (simp add: ccw_operand_equal_def operand_tree_of_def)
  next
    case m: (Some m)
    have "double_eq (n_fval n) (n_fval m) \<longleftrightarrow> double_canon (n_fval n) = double_canon (n_fval m)"
      if "n_okind n = CCW_OPND_CONST_FLOAT" "n_okind m = CCW_OPND_CONST_FLOAT"
      using that Some m assms by (intro double_canon_eq) (auto simp: node_get_kind_iff dest: nan_freeD)
    with Some m show ?thesis by (auto simp: ccw_operand_equal_def operand_tree_of_def)
  qed
qed

lemma instr_equal_iff:
  assumes "nan_free a" "nan_free b"
  shows "ccw_instr_equal a x b y \<longleftrightarrow> instr_tree_of a x = instr_tree_of b y"
proof -
  have "loop_equal (\<lambda>x y. ccw_operand_equal a x b y) xs ys
      \<longleftrightarrow> map (operand_tree_of a) xs = map (operand_tree_of b) ys" if "length xs = length ys" for xs ys
    using that operand_equal_iff [OF assms] by (intro loop_equal_map) auto
  then show ?thesis
    by (auto simp: ccw_instr_equal_def instr_tree_of_def split: option.splits dest: map_eq_imp_length_eq)
qed

lemma block_equal_iff:
  assumes "nan_free a" "nan_free b"
    and "ccw_ir_node_get a x \<noteq> None"
  shows "block_equal a x b y \<longleftrightarrow> block_tree_of a x = block_tree_of b y"
proof -
  have "loop_equal (\<lambda>x y. ccw_instr_equal a x b y) xs ys
      \<longleftrightarrow> map (instr_tree_of a) xs = map (instr_tree_of b) ys" if "length xs = length ys" for xs ys
    using that instr_equal_iff [OF assms(1,2)] by (intro loop_equal_map) auto
  with assms(3) show ?thesis
    by (auto simp: block_equal_def block_tree_of_def split: option.splits dest: map_eq_imp_length_eq)
qed

lemma function_equal_iff:
  assumes wf: "wf_ir a" and nan: "nan_free a" "nan_free b" and x: "x \<in> set (m_functions a)"
  shows "function_equal a x b y \<longleftrightarrow> function_tree_of a x = function_tree_of b y"
proof -
  from wf x obtain F where F: "ccw_ir_node_get a x = Some F" "n_kind F = CCW_NODE_FUNCTION"
    by (auto simp: wf_ir_def wf_heap_def elim!: atE)
  have "ccw_ir_node_get a c \<noteq> None" if "c \<in> set (n_children F)" for c
    using that wf_heap_function [OF wf_heapD [OF wf] F] by (auto simp: function_ok_def elim!: atE)
  then have "loop_equal (\<lambda>x y. block_equal a x b y) (n_children F) ys
      \<longleftrightarrow> map (block_tree_of a) (n_children F) = map (block_tree_of b) ys"
    if "length (n_children F) = length ys" for ys
    using that block_equal_iff [OF nan] by (intro loop_equal_map) auto
  moreover have "loop_equal (\<lambda>x y. ccw_operand_equal a x b y) xs ys
      \<longleftrightarrow> map (operand_tree_of a) xs = map (operand_tree_of b) ys" if "length xs = length ys" for xs ys
    using that operand_equal_iff [OF nan] by (intro loop_equal_map) auto
  ultimately show ?thesis using F(1)
    by (auto simp: function_equal_def function_tree_of_def split: option.splits dest: map_eq_imp_length_eq)
qed

lemma ir_equal_iff:
  assumes wf: "wf_ir a" and nan: "nan_free a" "nan_free b"
  shows "ccw_ir_equal a b \<longleftrightarrow> module_tree_of a = module_tree_of b"
proof -
  have "loop_equal (\<lambda>x y. function_equal a x b y) (m_functions a) ys
      \<longleftrightarrow> map (function_tree_of a) (m_functions a) = map (function_tree_of b) ys"
    if "length (m_functions a) = length ys" for ys
    using that function_equal_iff [OF wf nan] by (intro loop_equal_map) auto
  then show ?thesis
    by (auto simp: ccw_ir_equal_def module_tree_of_def dest: map_eq_imp_length_eq)
qed

end
