(* ===== verification/IR_Ids.thy ===== *)
theory IR_Ids
  imports IR_Machine
begin

text \<open>
  Ids are never reused and never change kind: over the life of a module a slot of the node table
  keeps its kind until it is killed, and a dead slot stays dead.
\<close>

definition slots_kept :: "ccw_ir \<Rightarrow> ccw_ir \<Rightarrow> bool" where
  "slots_kept ir ir' \<longleftrightarrow>
     length (m_nodes ir) \<le> length (m_nodes ir')
     \<and> (\<forall>i < length (m_nodes ir). n_kind (m_nodes ir' ! i) = n_kind (m_nodes ir ! i)
          \<or> n_kind (m_nodes ir' ! i) = CCW_NODE_DEAD)"

named_theorems slot_intros \<open>operations that keep the slots of the node table\<close>

lemma slots_kept_refl [slot_intros]: "slots_kept ir ir"
  by (simp add: slots_kept_def)

lemma slots_kept_trans: "slots_kept a b \<Longrightarrow> slots_kept b c \<Longrightarrow> slots_kept a c"
  unfolding slots_kept_def by (metis (full_types) order_less_le_trans order_trans)

lemma slots_kept_fields [simp]:
  "slots_kept a (b\<lparr>m_functions := x\<rparr>) = slots_kept a b" "slots_kept a (b\<lparr>m_attrs := y\<rparr>) = slots_kept a b"
  by (simp_all add: slots_kept_def)

lemma slots_upd:
  assumes "slots_kept a b" and "\<And>n. n_kind (f n) = n_kind n \<or> n_kind (f n) = CCW_NODE_DEAD"
  shows "slots_kept a (upd_node b i f)"
proof -
  have "slots_kept b (upd_node b i f)"
    unfolding slots_kept_def upd_node_def
  proof (simp, intro allI impI)
    fix j assume j: "j < length (m_nodes b)"
    show "n_kind ((m_nodes b)[i := f (m_nodes b ! i)] ! j) = n_kind (m_nodes b ! j)
        \<or> n_kind ((m_nodes b)[i := f (m_nodes b ! i)] ! j) = CCW_NODE_DEAD"
      using j assms(2) [of "m_nodes b ! i"] by (cases "i = j") auto
  qed
  with assms(1) show ?thesis by (rule slots_kept_trans)
qed

lemma slots_new: "slots_kept a b \<Longrightarrow> slots_kept a (fst (ccw_ir_node_new b k))"
proof -
  have "slots_kept b (fst (ccw_ir_node_new b k))"
    by (auto simp: slots_kept_def ccw_ir_node_new_def Let_def nth_append)
  then show "slots_kept a b \<Longrightarrow> ?thesis" by (rule slots_kept_trans [rotated])
qed

lemma slots_new_pair: "ccw_ir_node_new b k = (c, i) \<Longrightarrow> slots_kept a b \<Longrightarrow> slots_kept a c"
  using slots_new [of a b k] by simp

section \<open>Single operations\<close>

lemma slots_attr_set: "slots_kept ir (fst (ccw_ir_attr_set ir owner k v))"
  by (auto simp: ccw_ir_attr_set_def Let_def slots_kept_refl intro!: slots_upd split: option.splits prod.splits)

lemma slots_function_add: "slots_kept ir (fst (ccw_ir_function_add ir name t))"
  by (auto simp: ccw_ir_function_add_def Let_def slots_kept_refl intro!: slots_upd
      elim!: slots_new_pair split: option.splits prod.splits)

lemma slots_operand_new: "slots_kept ir (fst (ccw_operand_new ir k name))"
  by (auto simp: ccw_operand_new_def Let_def slots_kept_refl intro!: slots_upd
      elim!: slots_new_pair split: prod.splits)

lemma slots_operand_pair: "ccw_operand_new b k name = (c, i) \<Longrightarrow> slots_kept b c"
  using slots_operand_new [of b k name] by simp

lemma slots_operand:
  "slots_kept ir (fst (ccw_ir_operand_reg ir name))" "slots_kept ir (fst (ccw_ir_operand_func ir name))"
  "slots_kept ir (fst (ccw_ir_operand_block ir name))"
  "slots_kept ir (fst (ccw_ir_operand_const_int ir t v))"
  "slots_kept ir (fst (ccw_ir_operand_const_float ir t d))"
  by (auto simp: ccw_ir_operand_reg_def ccw_ir_operand_func_def ccw_ir_operand_block_def
      ccw_ir_operand_const_int_def ccw_ir_operand_const_float_def slots_kept_refl slots_operand_new
      intro!: slots_upd dest: slots_operand_pair split: prod.splits option.splits)

lemma slots_add_param: "slots_kept ir (fst (ccw_ir_function_add_param ir fn t name))"
  by (auto simp: ccw_ir_function_add_param_def ccw_ir_operand_reg_def Let_def slots_kept_refl
      intro!: slots_upd dest: slots_operand_pair split: option.splits prod.splits)

lemma slots_block_add: "slots_kept ir (fst (ccw_ir_block_add ir fn name))"
  by (auto simp: ccw_ir_block_add_def Let_def slots_kept_refl intro!: slots_upd
      elim!: slots_new_pair split: prod.splits)

lemma slots_instr_build: "slots_kept ir (fst (ccw_ir_instr_build ir opcode t))"
  by (auto simp: ccw_ir_instr_build_def Let_def slots_kept_refl intro!: slots_upd
      elim!: slots_new_pair split: option.splits prod.splits)

lemma slots_instr_ops:
  "slots_kept ir (fst (ccw_ir_instr_set_dest ir ins dest))"
  "slots_kept ir (fst (ccw_ir_instr_add_operand ir ins operand))"
  "slots_kept ir (fst (ccw_ir_instr_set_operand ir ins idx operand))"
  "slots_kept ir (fst (ccw_ir_block_append_instr ir blk ins))"
  by (auto simp: ccw_ir_instr_set_dest_def ccw_ir_instr_add_operand_def ccw_ir_instr_set_operand_def
      ccw_ir_block_append_instr_def slots_kept_refl intro!: slots_upd split: option.splits)

lemma slots_edits:
  "slots_kept ir (fst (ccw_ir_instr_replace ir old_ins new_ins))"
  "slots_kept ir (fst (ccw_ir_instr_insert_before ir anchor new_ins))"
  "slots_kept ir (fst (ccw_ir_instr_delete ir ins))"
  by (auto simp: ccw_ir_instr_replace_def ccw_ir_instr_insert_before_def ccw_ir_instr_delete_def Let_def
      slots_kept_refl intro!: slots_upd split: option.splits)

lemma slots_kill_instrs: "slots_kept a ir \<Longrightarrow> slots_kept a (kill_instrs ir is)"
proof (induction ir "is" rule: kill_instrs.induct)
  case (2 ir i "is")
  have "slots_kept a (case ccw_ir_node_get ir i of None \<Rightarrow> ir
      | Some _ \<Rightarrow> upd_node ir i (\<lambda>n. n\<lparr>n_attached := False, n_kind := CCW_NODE_DEAD\<rparr>))"
    using 2(2) by (auto intro!: slots_upd split: option.splits)
  from 2(1) [OF this] show ?case by simp
qed simp

lemma slots_block_delete: "slots_kept ir (fst (ccw_ir_block_delete ir blk))"
  by (auto simp: ccw_ir_block_delete_def Let_def slots_kept_refl intro!: slots_upd slots_kill_instrs
      split: option.splits)

lemma slots_merge_loop:
  assumes "merge_loop ir x y i = Some r"
  shows "slots_kept ir r"
proof (rule merge_loop.raw_induct [OF _ assms, where P = "\<lambda>ir x y i r. slots_kept ir r"])
  fix f ir x y i r
  assume IH: "\<And>ir x y i r. f ir x y i = Some r \<Longrightarrow> slots_kept ir r"
    and run: "(let cs = n_children (m_nodes ir ! y)
        in if i < length cs then
             let c = cs ! i;
                 ir1 = (case ccw_ir_node_get ir c of None \<Rightarrow> ir
                        | Some _ \<Rightarrow> upd_node ir c (\<lambda>n. n\<lparr>n_parent := x\<rparr>));
                 ir2 = upd_node ir1 x (\<lambda>a. a\<lparr>n_children := n_children a @ [c]\<rparr>)
             in f ir2 x y (Suc i)
           else Some ir) = Some r"
  show "slots_kept ir r"
  proof (cases "i < length (n_children (m_nodes ir ! y))")
    case True
    let ?ir' = "merge_step x (n_children (m_nodes ir ! y) ! i) ir"
    have "f ?ir' x y (Suc i) = Some r" using run True by (simp add: merge_step_def Let_def)
    moreover have "slots_kept ir ?ir'"
      by (auto simp: merge_step_def slots_kept_refl intro!: slots_upd split: option.splits)
    ultimately show ?thesis using IH slots_kept_trans by blast
  next
    case False
    with run show ?thesis by (simp add: Let_def slots_kept_refl)
  qed
qed

lemma slots_drop_jump: "slots_kept ir (drop_jump ir first a)"
  by (auto simp: drop_jump_def Let_def slots_kept_refl intro!: slots_upd split: option.splits)

lemma slots_block_merge:
  "ccw_ir_block_merge ir first second = Some (ir', st) \<Longrightarrow> slots_kept ir ir'"
  by (auto simp: ccw_ir_block_merge_def Let_def slots_kept_refl
      intro!: slots_upd elim!: slots_kept_trans [OF slots_drop_jump slots_merge_loop, rotated]
      split: option.splits if_splits)

section \<open>Composite builders\<close>

lemma slots_fst: "f = (a, b) \<Longrightarrow> slots_kept ir (fst f) \<Longrightarrow> slots_kept ir a"
  by simp

lemma slots_step: "f = (b, x) \<Longrightarrow> slots_kept ir a \<Longrightarrow> slots_kept a (fst f) \<Longrightarrow> slots_kept ir b"
  using slots_kept_trans by simp

lemma slots_add_operands: "slots_kept a ir \<Longrightarrow> slots_kept a (fst (add_operands ir ins args))"
proof (induction ir ins args rule: add_operands.induct)
  case (2 ir ins x args)
  obtain ir1 st where o': "ccw_ir_instr_add_operand ir ins x = (ir1, st)" by fastforce
  have "slots_kept a ir1" using slots_step [OF o' 2(2) slots_instr_ops(2)] .
  then show ?case using 2(1) [OF o' [symmetric] refl] by (simp add: o')
qed simp

lemma slots_finish_build: "slots_kept a ir \<Longrightarrow> slots_kept a (fst (finish_build ir blk ins))"
  using slots_kept_trans slots_instr_ops(4) [of ir blk ins]
  by (auto simp: finish_build_def split: prod.splits)

lemma slots_opt_dest:
  "slots_kept ir (fst (if dest \<noteq> None then ccw_ir_instr_set_dest ir ins dest else (ir, CCW_OK)))"
  "slots_kept ir (opt_set_dest ir ins dest)"
  by (simp_all add: slots_instr_ops slots_kept_refl opt_set_dest_def)

lemma slots_build_io: "slots_kept ir (fst (ccw_ir_build_io ir blk dest opcode args))"
proof -
  obtain ir1 ins where 1: "ccw_ir_instr_build ir (Some opcode) CCW_TY_I64 = (ir1, ins)" by fastforce
  obtain ir2 st where 2: "(if dest \<noteq> None then ccw_ir_instr_set_dest ir1 ins dest
      else (ir1, CCW_OK)) = (ir2, st)" by fastforce
  obtain ir3 ok where 3: "add_operands ir2 ins args = (ir3, ok)" by fastforce
  have w1: "slots_kept ir ir1" using slots_fst [OF 1 slots_instr_build] .
  have w2: "slots_kept ir ir2" using slots_step [OF 2 w1 slots_opt_dest(1)] .
  have w3: "slots_kept ir ir3" using slots_fst [OF 3 slots_add_operands [OF w2]] .
  show ?thesis unfolding ccw_ir_build_io_def 1 Let_def prod.case 2 3
    using w1 w2 w3 slots_finish_build [OF w3] by simp
qed

lemma slots_build_syscall: "slots_kept ir (fst (ccw_ir_build_syscall ir blk dest t number args))"
proof -
  obtain ir1 ins where 1: "ccw_ir_instr_build ir (Some CCW_OP_SYSCALL) t = (ir1, ins)" by fastforce
  obtain ir2 st where 2: "(if dest \<noteq> None then ccw_ir_instr_set_dest ir1 ins dest
      else (ir1, CCW_OK)) = (ir2, st)" by fastforce
  obtain ir3 num where 3: "ccw_ir_operand_const_int ir2 CCW_TY_I64 number = (ir3, num)" by fastforce
  obtain ir4 st4 where 4: "ccw_ir_instr_add_operand ir3 ins num = (ir4, st4)" by fastforce
  obtain ir5 ok where 5: "add_operands ir4 ins args = (ir5, ok)" by fastforce
  have w1: "slots_kept ir ir1" using slots_fst [OF 1 slots_instr_build] .
  have w2: "slots_kept ir ir2" using slots_step [OF 2 w1 slots_opt_dest(1)] .
  have w3: "slots_kept ir ir3" using slots_step [OF 3 w2 slots_operand(4)] .
  have w4: "slots_kept ir ir4" using slots_step [OF 4 w3 slots_instr_ops(2)] .
  have w5: "slots_kept ir ir5" using slots_fst [OF 5 slots_add_operands [OF w4]] .
  show ?thesis unfolding ccw_ir_build_syscall_def 1 Let_def prod.case 2 3 4 5
    using w1 w2 w3 w4 w5 slots_finish_build [OF w5] by (simp add: slots_kept_refl)
qed

lemma slots_profile_builders:
  "slots_kept ir (fst (ccw_tilly_build_call_static ir blk dest t callee))"
  "slots_kept ir (fst (ccw_tilly_build_reloc ir blk dest symbol w))"
  "slots_kept ir (fst (ccw_on1x_build_call_dynamic ir blk dest t recv sel slots))"
  "slots_kept ir (fst (ccw_on1x_build_safepoint ir blk))"
  "slots_kept ir (fst (ccw_on1x_build_deopt ir blk name))"
proof -
  note T = slots_kept_trans and F = slots_finish_build
  have b: "slots_kept ir ir1" if "ccw_ir_instr_build ir opc ty = (ir1, i)" for opc ty ir1 i
    using slots_fst [OF that slots_instr_build] .
  have d: "slots_kept ir (opt_set_dest ir1 i dest)" if "slots_kept ir ir1" for ir1 i
    using T [OF that slots_opt_dest(2)] .
  have f: "slots_kept ir ir2" if "ccw_ir_operand_func a n = (ir2, x)" "slots_kept ir a" for a n ir2 x
    using slots_step [OF that slots_operand(2)] .
  have r: "slots_kept ir ir2" if "ccw_ir_operand_reg a n = (ir2, x)" "slots_kept ir a" for a n ir2 x
    using slots_step [OF that slots_operand(1)] .
  have bl: "slots_kept ir ir2" if "ccw_ir_operand_block a n = (ir2, x)" "slots_kept ir a" for a n ir2 x
    using slots_step [OF that slots_operand(3)] .
  have c: "slots_kept ir ir2" if "ccw_ir_operand_const_int a ty v = (ir2, x)" "slots_kept ir a" for a ty v ir2 x
    using slots_step [OF that slots_operand(4)] .
  have o': "slots_kept ir ir2" if "ccw_ir_instr_add_operand a i x = (ir2, s)" "slots_kept ir a" for a i x ir2 s
    using slots_step [OF that slots_instr_ops(2)] .
  have o1: "slots_kept ir (fst (ccw_ir_instr_add_operand a i x))" if "slots_kept ir a" for a i x
    using T [OF that slots_instr_ops(2)] .
  have at: "slots_kept ir (fst (ccw_ir_attr_set a i k v))" if "slots_kept ir a" for a i k v
    using T [OF that slots_attr_set] .
  show "slots_kept ir (fst (ccw_tilly_build_call_static ir blk dest t callee))"
    by (auto simp: ccw_tilly_build_call_static_def Let_def split: prod.splits
        dest: b intro!: F elim!: o' f intro: d)
  show "slots_kept ir (fst (ccw_tilly_build_reloc ir blk dest symbol w))"
    by (auto simp: ccw_tilly_build_reloc_def Let_def split: prod.splits
        dest: b intro!: F o1 elim!: c f intro: d)
  show "slots_kept ir (fst (ccw_on1x_build_call_dynamic ir blk dest t recv sel slots))"
    by (auto simp: ccw_on1x_build_call_dynamic_def Let_def split: prod.splits
        dest: b intro!: F o1 at elim!: r f intro: d)
  show "slots_kept ir (fst (ccw_on1x_build_safepoint ir blk))"
    by (auto simp: ccw_on1x_build_safepoint_def Let_def split: prod.splits dest: b intro!: F)
  show "slots_kept ir (fst (ccw_on1x_build_deopt ir blk name))"
    by (auto simp: ccw_on1x_build_deopt_def Let_def split: prod.splits
        dest: b intro!: F o1 at elim!: bl)
qed

section \<open>Every step\<close>

lemma step_slots: "ir_step ir ir' \<Longrightarrow> slots_kept ir ir'"
  by (erule ir_step.cases)
    (simp_all add: slots_attr_set slots_function_add slots_operand slots_add_param slots_block_add
      slots_instr_build slots_instr_ops slots_edits slots_block_delete slots_block_merge slots_build_io
      slots_build_syscall slots_profile_builders slots_kept_refl ccw_ir_build_io_read_def
      ccw_ir_build_io_write_def ccw_ir_build_io_close_def ccw_ir_build_io_open_def
      ccw_tilly_set_link_section_def ccw_tilly_set_layout_def)

lemma steps_slots: "ir_step\<^sup>*\<^sup>* ir ir' \<Longrightarrow> slots_kept ir ir'"
  by (induction rule: rtranclp_induct) (auto intro: slots_kept_refl slots_kept_trans step_slots)

end
