(* ===== verification/IR_Demo.thy ===== *)
theory IR_Demo
  imports IR_Valid IR_Equal IR_Ids
begin

text \<open>
  Two small modules built through the API, on which the properties of the IR are instantiated:
  \<open>demo_ir\<close> has a function of two blocks joined by a branch and one detached instruction, and
  \<open>demo_loop\<close> a function whose only block branches to itself.
\<close>

section \<open>Construction\<close>

definition demo_function :: ccw_ir where
  "demo_function = fst (ccw_ir_function_add
     (ccw_ir_module_create (Some ''demo'') CCW_PROFILE_TILLY) (Some ''main'') CCW_TY_VOID)"

definition demo_blocks :: ccw_ir where
  "demo_blocks = fst (ccw_ir_block_add (fst (ccw_ir_block_add demo_function 1 (Some ''entry'')))
     1 (Some ''exit''))"

definition demo_branch :: ccw_ir where
  "demo_branch =
     fst (ccw_ir_block_append_instr
       (fst (ccw_ir_instr_add_operand
         (fst (ccw_ir_instr_build (fst (ccw_ir_operand_block demo_blocks (Some ''exit'')))
            (Some ''br'') CCW_TY_VOID)) 5 4)) 2 5)"

definition demo_ir :: ccw_ir where
  "demo_ir =
     fst (ccw_ir_instr_build
       (fst (ccw_ir_block_append_instr
         (fst (ccw_ir_instr_build demo_branch (Some ''ret'') CCW_TY_VOID)) 3 6))
       (Some ''nop'') CCW_TY_VOID)"

definition demo_loop :: ccw_ir where
  "demo_loop =
     fst (ccw_ir_block_append_instr
       (fst (ccw_ir_instr_add_operand
         (fst (ccw_ir_operand_block
           (fst (ccw_ir_instr_build
             (fst (ccw_ir_block_append_instr
               (fst (ccw_ir_instr_build (fst (ccw_ir_block_add demo_function 1 (Some ''spin'')))
                  (Some ''nop'') CCW_TY_VOID)) 2 3))
             (Some ''br'') CCW_TY_VOID)) (Some ''spin''))) 4 5)) 2 4)"

section \<open>They are reachable\<close>

lemma reach_create: "ir_reachable (ccw_ir_module_create name p)"
  by (auto simp: ir_reachable_def ir_created_def)

lemma reach_step: "ir_reachable ir \<Longrightarrow> ir_step ir ir' \<Longrightarrow> ir_reachable ir'"
  by (auto simp: ir_reachable_def intro: rtranclp.rtrancl_into_rtrancl)

lemmas reach_intros = reach_create reach_step [OF _ function_add] reach_step [OF _ block_add]
  reach_step [OF _ instr_build] reach_step [OF _ operand_block] reach_step [OF _ add_operand]
  reach_step [OF _ append_instr]

lemma demo_function_reachable: "ir_reachable demo_function"
  unfolding demo_function_def by (intro reach_intros)

lemma demo_blocks_reachable: "ir_reachable demo_blocks"
  unfolding demo_blocks_def by (intro reach_intros demo_function_reachable)

lemma demo_branch_reachable: "ir_reachable demo_branch"
  unfolding demo_branch_def by (intro reach_intros demo_blocks_reachable)

lemma demo_reachable: "ir_reachable demo_ir"
  unfolding demo_ir_def by (intro reach_intros demo_branch_reachable)

lemma demo_loop_reachable: "ir_reachable demo_loop"
  unfolding demo_loop_def by (intro reach_intros demo_function_reachable)

lemma demo_wf: "wf_ir demo_ir"
  by (rule reachable_wf [OF demo_reachable])

lemma demo_loop_wf: "wf_ir demo_loop"
  by (rule reachable_wf [OF demo_loop_reachable])

section \<open>Their contents\<close>

lemma demo_facts:
  "edit_pair demo_ir 6 7" "mergeable demo_ir 2 3" "deletable demo_ir 2" "\<not> deletable demo_ir 3"
  "children_of demo_ir 2 CCW_NODE_BLOCK = [5]" "children_of demo_ir 3 CCW_NODE_BLOCK = [6]"
  "ccw_ir_validate demo_ir = Inr ()"
  by code_simp+

lemma demo_loop_facts:
  "mergeable demo_loop 2 2" "children_of demo_loop 2 CCW_NODE_BLOCK = [3, 4]"
  by code_simp+

end
