(* ===== verification/IR_Props.thy ===== *)
theory IR_Props
  imports IR_Demo
begin

text \<open>
  The properties of the Weave IR module API, each with its claim id, and their instances on the
  modules of \<open>IR_Demo\<close>.
\<close>

section \<open>Structural integrity\<close>

text \<open>C3: every module that any sequence of API calls can build from a fresh one (calls with invalid
  arguments included) is well formed: ids index the table and slot 0 is dead, functions own their
  blocks and blocks their instructions in both directions and without repetition, an instruction is
  attached exactly when one live block lists it, and operands of live instructions are live.\<close>

theorem reachable_modules_wf:
  assumes "ir_reachable ir"
  shows "wf_ir ir"
  by (rule reachable_wf [OF assms])

theorem reachable_modules_wf_witness: "wf_ir demo_ir \<and> wf_ir demo_loop"
  using reachable_modules_wf [OF demo_reachable] reachable_modules_wf [OF demo_loop_reachable] by blast

text \<open>Along any sequence of API calls a node id keeps its kind until the node is killed, and a
  killed id is never used again.\<close>

theorem node_ids_stable:
  assumes "ir_step\<^sup>*\<^sup>* ir ir'" and "i < length (m_nodes ir)"
  shows "ccw_ir_node_kind ir' i = ccw_ir_node_kind ir i \<or> ccw_ir_node_kind ir' i = CCW_NODE_DEAD"
proof -
  have "slots_kept ir ir'" by (rule steps_slots [OF assms(1)])
  with assms(2) show ?thesis
    by (auto simp: slots_kept_def ccw_ir_node_kind_def ccw_ir_node_get_def Let_def)
qed

theorem node_ids_stable_witness:
  "let ir' = fst (ccw_ir_block_delete demo_ir 2)
   in (ccw_ir_node_kind ir' 5 = ccw_ir_node_kind demo_ir 5 \<or> ccw_ir_node_kind ir' 5 = CCW_NODE_DEAD)
      \<and> ccw_ir_node_kind ir' 5 = CCW_NODE_DEAD"
proof -
  have "ir_step\<^sup>*\<^sup>* demo_ir (fst (ccw_ir_block_delete demo_ir 2))" by (auto intro: ir_step.block_delete)
  moreover have "5 < length (m_nodes demo_ir)" by code_simp
  moreover have "ccw_ir_node_kind (fst (ccw_ir_block_delete demo_ir 2)) 5 = CCW_NODE_DEAD" by code_simp
  ultimately show ?thesis using node_ids_stable unfolding Let_def by blast
qed

section \<open>Instruction edits\<close>

text \<open>\<open>ccw_ir_instr_insert_before\<close> on an attached anchor and a detached instruction puts the
  new instruction directly before the anchor in the anchor's block and changes no other node; on
  any other arguments it reports a type error and leaves the module as it was.\<close>

theorem insert_before_spec:
  assumes wf: "wf_ir ir"
  shows "if edit_pair ir anchor new
    then \<exists>a n B xs ys. ccw_ir_node_get ir anchor = Some a \<and> ccw_ir_node_get ir new = Some n
      \<and> ccw_ir_node_get ir (n_parent a) = Some B \<and> n_children B = xs @ anchor # ys
      \<and> snd (ccw_ir_instr_insert_before ir anchor new) = CCW_OK
      \<and> ccw_ir_node_get (fst (ccw_ir_instr_insert_before ir anchor new)) =
          (ccw_ir_node_get ir)(new \<mapsto> n\<lparr>n_parent := n_parent a, n_attached := True\<rparr>,
                               n_parent a \<mapsto> B\<lparr>n_children := xs @ new # anchor # ys\<rparr>)
    else ccw_ir_instr_insert_before ir anchor new = (ir, CCW_ERR_TYPE)"
proof (cases "edit_pair ir anchor new")
  case True
  from True show ?thesis by (simp only: if_True) (rule insert_effect [OF wf True], blast)
qed (simp add: insert_refuses)

theorem insert_before_spec_witness:
  "children_of (fst (ccw_ir_instr_insert_before demo_ir 6 7)) 3 CCW_NODE_BLOCK = [7, 6]
   \<and> snd (ccw_ir_instr_insert_before demo_ir 6 7) = CCW_OK"
proof -
  have "snd (ccw_ir_instr_insert_before demo_ir 6 7) = CCW_OK"
    using insert_before_spec [OF demo_wf, of 6 7] demo_facts(1) by (simp only: if_True) blast
  moreover have "children_of (fst (ccw_ir_instr_insert_before demo_ir 6 7)) 3 CCW_NODE_BLOCK = [7, 6]" by code_simp
  ultimately show ?thesis by blast
qed

text \<open>\<open>ccw_ir_instr_replace\<close> on an attached and a detached instruction puts the new one in the
  old one's position, detaches the old one, and lets a replacement without destination inherit the
  old destination; on any other arguments it reports a type error and changes nothing.\<close>

theorem replace_spec:
  assumes wf: "wf_ir ir"
  shows "if edit_pair ir old new
    then \<exists>a n B xs ys. ccw_ir_node_get ir old = Some a \<and> ccw_ir_node_get ir new = Some n
      \<and> ccw_ir_node_get ir (n_parent a) = Some B \<and> n_children B = xs @ old # ys
      \<and> snd (ccw_ir_instr_replace ir old new) = CCW_OK
      \<and> ccw_ir_node_get (fst (ccw_ir_instr_replace ir old new)) =
          (ccw_ir_node_get ir)
            (old \<mapsto> a\<lparr>n_parent := 0, n_attached := False\<rparr>,
             new \<mapsto> n\<lparr>n_name := (if n_name n = None then n_name a else n_name n),
                        n_parent := n_parent a, n_attached := True\<rparr>,
             n_parent a \<mapsto> B\<lparr>n_children := xs @ new # ys\<rparr>)
    else ccw_ir_instr_replace ir old new = (ir, CCW_ERR_TYPE)"
proof (cases "edit_pair ir old new")
  case True
  from True show ?thesis
    by (simp only: if_True) (rule replace_effect [OF wf True], unfold inherited_dest_def, blast)
qed (simp add: replace_refuses)

theorem replace_spec_witness:
  "children_of (fst (ccw_ir_instr_replace demo_ir 6 7)) 3 CCW_NODE_BLOCK = [7]
   \<and> snd (ccw_ir_instr_replace demo_ir 6 7) = CCW_OK"
proof -
  have "snd (ccw_ir_instr_replace demo_ir 6 7) = CCW_OK"
    using replace_spec [OF demo_wf, of 6 7] demo_facts(1) by (simp only: if_True) blast
  moreover have "children_of (fst (ccw_ir_instr_replace demo_ir 6 7)) 3 CCW_NODE_BLOCK = [7]" by code_simp
  ultimately show ?thesis by blast
qed

text \<open>Deleting an instruction right after inserting it before an anchor restores every node of
  the module.\<close>

theorem insert_delete_roundtrip:
  assumes wf: "wf_ir ir" and p: "edit_pair ir anchor new"
  shows "ccw_ir_node_get (fst (ccw_ir_instr_delete (fst (ccw_ir_instr_insert_before ir anchor new)) new))
           = ccw_ir_node_get ir"
proof -
  let ?ir' = "fst (ccw_ir_instr_insert_before ir anchor new)" and ?h = "ccw_ir_node_get ir"
  obtain a n B xs ys where "?h anchor = Some a" and n1: "?h new = Some n"
    and B: "?h (n_parent a) = Some B" "n_kind B = CCW_NODE_BLOCK"
    and n2: "n_kind n = CCW_NODE_INSTR" "\<not> n_attached n"
    and c: "n_children B = xs @ anchor # ys" "distinct (xs @ anchor # new # ys)"
    and "snd (ccw_ir_instr_insert_before ir anchor new) = CCW_OK"
    and h': "ccw_ir_node_get ?ir' = ?h(new \<mapsto> n\<lparr>n_parent := n_parent a, n_attached := True\<rparr>,
        n_parent a \<mapsto> B\<lparr>n_children := xs @ new # anchor # ys\<rparr>)"
    and wf': "wf_ir ?ir'"
    using insert_effect [OF wf p] .
  note n = n1 n2
  let ?n = "n\<lparr>n_parent := n_parent a, n_attached := True\<rparr>"
  have ne: "new \<noteq> n_parent a" using n B by auto
  have n': "ccw_ir_node_get ?ir' new = Some ?n" "n_kind ?n = CCW_NODE_INSTR" "n_attached ?n"
    using h' ne n by simp_all
  obtain B' xs' ys' where B': "ccw_ir_node_get ?ir' (n_parent ?n) = Some B'" and "n_kind B' = CCW_NODE_BLOCK"
    and c': "n_children B' = xs' @ new # ys'" "distinct (xs' @ new # ys')" and "new \<noteq> n_parent ?n"
    and "snd (ccw_ir_instr_delete ?ir' new) = CCW_OK"
    and h2: "ccw_ir_node_get (fst (ccw_ir_instr_delete ?ir' new)) =
      (ccw_ir_node_get ?ir')(new \<mapsto> ?n\<lparr>n_parent := 0, n_attached := False\<rparr>,
        n_parent ?n \<mapsto> B'\<lparr>n_children := xs' @ ys'\<rparr>)"
    and "wf_ir (fst (ccw_ir_instr_delete ?ir' new))"
    using delete_effect [OF wf' n'] .
  have Beq: "B' = B\<lparr>n_children := xs @ new # anchor # ys\<rparr>" using B' h' ne by simp
  with c' c have "xs @ new # anchor # ys = xs' @ new # ys'" by simp
  with c(2) c'(2) have "xs' = xs \<and> ys' = anchor # ys"
    by (subst (asm) append_Cons_eq_iff) auto
  moreover have "n_parent n = 0"
    using wf_heap_instr [OF wf_heapD [OF wf] n(1,2)] n(3) by (simp add: instr_ok_def)
  moreover have "n\<lparr>n_parent := 0, n_attached := False\<rparr> = n" if "n_parent n = 0" "\<not> n_attached n" for n :: ccw_ir_node
    using that by (cases n) simp
  moreover have "B\<lparr>n_children := xs @ anchor # ys\<rparr> = B" using c(1) by (cases B) simp
  ultimately show ?thesis using n B Beq ne h' unfolding h2 by (auto simp: fun_eq_iff)
qed

theorem insert_delete_roundtrip_witness:
  "ccw_ir_node_get (fst (ccw_ir_instr_delete (fst (ccw_ir_instr_insert_before demo_ir 6 7)) 7))
     = ccw_ir_node_get demo_ir"
  by (rule insert_delete_roundtrip [OF demo_wf demo_facts(1)])

text \<open>\<open>ccw_ir_instr_delete\<close> removes exactly the given attached instruction from its block, keeps
  the node as a detached one and changes nothing else; on any other argument it reports a type
  error and leaves the module as it was.\<close>

theorem instr_delete_spec:
  assumes wf: "wf_ir ir"
  shows "if at (ccw_ir_node_get ir) i (\<lambda>n. n_kind n = CCW_NODE_INSTR \<and> n_attached n)
    then \<exists>n B xs ys. ccw_ir_node_get ir i = Some n \<and> ccw_ir_node_get ir (n_parent n) = Some B
      \<and> n_children B = xs @ i # ys \<and> snd (ccw_ir_instr_delete ir i) = CCW_OK
      \<and> ccw_ir_node_get (fst (ccw_ir_instr_delete ir i)) =
          (ccw_ir_node_get ir)(i \<mapsto> n\<lparr>n_parent := 0, n_attached := False\<rparr>,
                               n_parent n \<mapsto> B\<lparr>n_children := xs @ ys\<rparr>)
    else ccw_ir_instr_delete ir i = (ir, CCW_ERR_TYPE)"
proof (cases "at (ccw_ir_node_get ir) i (\<lambda>n. n_kind n = CCW_NODE_INSTR \<and> n_attached n)")
  case True
  then obtain n where n: "ccw_ir_node_get ir i = Some n" "n_kind n = CCW_NODE_INSTR" "n_attached n"
    by (auto elim!: atE)
  from True show ?thesis by (simp only: if_True) (rule delete_effect [OF wf n], use n(1) in blast)
qed (simp add: delete_refuses)

theorem instr_delete_spec_witness:
  "ccw_ir_instr_delete demo_ir 7 = (demo_ir, CCW_ERR_TYPE)"
proof -
  have "\<not> at (ccw_ir_node_get demo_ir) 7 (\<lambda>n. n_kind n = CCW_NODE_INSTR \<and> n_attached n)" by code_simp
  with instr_delete_spec [OF demo_wf, of 7] show ?thesis by (simp only: if_False)
qed

section \<open>Block edits\<close>

text \<open>C25: \<open>ccw_ir_block_merge\<close> of two different blocks returns. When the first block's only successor
  is the second and the second's only predecessor is the first, the first block ends up with its
  own instructions less the jump, followed by those of the second, which are re-parented; the jump
  and the second block are dead and the function lists the second block no more; every other node
  is untouched. Otherwise the module is unchanged and the status is a type error.\<close>

theorem block_merge_spec:
  assumes wf: "wf_ir ir" and ab: "a \<noteq> b"
  shows "if mergeable ir a b
    then \<exists>ir' A B F xs ys. ccw_ir_block_merge ir a b = Some (ir', CCW_OK) \<and> wf_ir ir'
      \<and> ccw_ir_node_get ir a = Some A \<and> ccw_ir_node_get ir b = Some B
      \<and> ccw_ir_node_get ir (n_parent A) = Some F \<and> n_children F = xs @ b # ys
      \<and> ccw_ir_node_get ir' a = Some (A\<lparr>n_children := butlast (n_children A) @ n_children B\<rparr>)
      \<and> ccw_ir_node_get ir' (n_parent A) = Some (F\<lparr>n_children := xs @ ys\<rparr>)
      \<and> ccw_ir_node_get ir' b = None \<and> ccw_ir_node_get ir' (last (n_children A)) = None
      \<and> (\<forall>j. j \<notin> {a, b, n_parent A, last (n_children A)} \<longrightarrow>
            ccw_ir_node_get ir' j =
              (if j \<in> set (n_children B) then map_option (\<lambda>n. n\<lparr>n_parent := a\<rparr>) (ccw_ir_node_get ir j)
               else ccw_ir_node_get ir j))
    else ccw_ir_block_merge ir a b = Some (ir, CCW_ERR_TYPE)"
proof (cases "mergeable ir a b")
  case True
  obtain ir' A B F xs ys where r: "ccw_ir_block_merge ir a b = Some (ir', CCW_OK)"
    and A: "ccw_ir_node_get ir a = Some A" "n_kind A = CCW_NODE_BLOCK"
    and B: "ccw_ir_node_get ir b = Some B" "n_kind B = CCW_NODE_BLOCK" and p: "n_parent B = n_parent A"
    and ne: "n_children A \<noteq> []"
    and F: "ccw_ir_node_get ir (n_parent A) = Some F" "n_kind F = CCW_NODE_FUNCTION"
    and c: "n_children F = xs @ b # ys" "distinct (xs @ b # ys)"
    and h: "ccw_ir_node_get ir' = heap_merge (ccw_ir_node_get ir) a A b B (xs @ ys)"
    and wf': "wf_ir ir'"
    by (rule merge_effect [OF wf True ab])
  obtain l where l: "ccw_ir_node_get ir (last (n_children A)) = Some l" "n_kind l = CCW_NODE_INSTR"
    using block_instr [OF wf A, of "last (n_children A)"] ne by auto
  have "last (n_children A) \<noteq> a" "last (n_children A) \<noteq> n_parent A" "n_parent A \<noteq> a" "n_parent A \<noteq> b"
    using l A B F by auto
  then have "ccw_ir_node_get ir' a = Some (A\<lparr>n_children := butlast (n_children A) @ n_children B\<rparr>)"
    "ccw_ir_node_get ir' (n_parent A) = Some (F\<lparr>n_children := xs @ ys\<rparr>)"
    "ccw_ir_node_get ir' b = None" "ccw_ir_node_get ir' (last (n_children A)) = None"
    "\<forall>j. j \<notin> {a, b, n_parent A, last (n_children A)} \<longrightarrow>
            ccw_ir_node_get ir' j =
              (if j \<in> set (n_children B) then map_option (\<lambda>n. n\<lparr>n_parent := a\<rparr>) (ccw_ir_node_get ir j)
               else ccw_ir_node_get ir j)"
    using F(1) ab by (simp_all add: h heap_merge_def)
  with r wf' A(1) B(1) F(1) c(1) True show ?thesis by (simp only: if_True) blast
qed (simp add: merge_refuses)

theorem block_merge_spec_witness:
  "\<exists>ir'. ccw_ir_block_merge demo_ir 2 3 = Some (ir', CCW_OK) \<and> ccw_ir_node_get ir' 3 = None
     \<and> ccw_ir_node_get ir' 5 = None \<and> children_of ir' 2 CCW_NODE_BLOCK = [6]"
proof -
  have m: "mergeable demo_ir 2 3" by (rule demo_facts(2))
  obtain A where A: "ccw_ir_node_get demo_ir 2 = Some A" "n_children A = [5]" "n_kind A = CCW_NODE_BLOCK"
  proof -
    have "at (ccw_ir_node_get demo_ir) 2 (\<lambda>A. n_children A = [5] \<and> n_kind A = CCW_NODE_BLOCK)" by code_simp
    with that show ?thesis by (auto elim!: atE)
  qed
  obtain B where B: "ccw_ir_node_get demo_ir 3 = Some B" "n_children B = [6]"
  proof -
    have "at (ccw_ir_node_get demo_ir) 3 (\<lambda>A. n_children A = [6])" by code_simp
    with that show ?thesis by (auto elim!: atE)
  qed
  have "(2::ccw_node) \<noteq> 3" by simp
  from block_merge_spec [OF demo_wf this] m A B show ?thesis
    by (auto simp: children_of_def ccw_ir_node_get_kind_def)
qed

text \<open>C38: \<open>ccw_ir_block_merge (ir, b, b)\<close> passes the guards when block \<open>b\<close> branches to itself and has
  no other successor or predecessor. If \<open>b\<close> has an instruction beside its jump, the call never
  returns: the copying loop appends to the list whose length bounds it.\<close>

theorem block_merge_self_diverges:
  assumes wf: "wf_ir ir" and m: "mergeable ir b b" and n: "2 \<le> ccw_ir_block_instr_count ir b"
  shows "ccw_ir_block_merge ir b b = None"
proof -
  obtain A where A: "ccw_ir_node_get ir b = Some A" "n_kind A = CCW_NODE_BLOCK" and ne: "n_children A \<noteq> []"
    and eq: "ccw_ir_block_merge ir b b =
       (case merge_loop (drop_jump ir b A) b b 0 of
          None \<Rightarrow> None
        | Some ir1 \<Rightarrow>
            Some (upd_node (upd_node ir1 (n_parent A)
              (\<lambda>f. f\<lparr>n_children := ccw_node_vec_remove_at (n_children f)
                                     (ccw_node_vec_index_of (n_children f) b)\<rparr>))
              b (\<lambda>b. b\<lparr>n_kind := CCW_NODE_DEAD\<rparr>), CCW_OK))"
    by (rule merge_self_effect [OF wf m])
  have "0 < length (butlast (n_children A))"
    using n A by (simp add: ccw_ir_block_instr_count_def children_of_def ccw_ir_node_get_kind_def)
  then have "merge_loop (drop_jump ir b A) b b 0 = None"
    using drop_jump_children [OF wf A ne] by (intro merge_loop_self_diverges) simp_all
  with eq show ?thesis by simp
qed

theorem block_merge_self_diverges_witness: "ccw_ir_block_merge demo_loop 2 2 = None"
proof -
  have "2 \<le> ccw_ir_block_instr_count demo_loop 2" by code_simp
  with demo_loop_facts(1) demo_loop_wf show ?thesis by (intro block_merge_self_diverges)
qed

text \<open>C33: \<open>ccw_ir_block_delete\<close> succeeds exactly on a live block without predecessors. It then kills the
  block and its instructions, takes the block out of its function's list, keeping the order of the
  others, and touches no other node; otherwise nothing changes.\<close>

theorem block_delete_spec:
  assumes wf: "wf_ir ir"
  shows "if deletable ir b
    then \<exists>B F xs ys. ccw_ir_node_get ir b = Some B \<and> ccw_ir_node_get ir (n_parent B) = Some F
      \<and> n_children F = xs @ b # ys \<and> snd (ccw_ir_block_delete ir b) = CCW_OK
      \<and> (\<forall>j. ccw_ir_node_get (fst (ccw_ir_block_delete ir b)) j =
             (if j = b \<or> j \<in> set (n_children B) then None
              else if j = n_parent B then Some (F\<lparr>n_children := xs @ ys\<rparr>)
              else ccw_ir_node_get ir j))
    else ccw_ir_block_delete ir b = (ir, CCW_ERR_TYPE)"
proof (cases "deletable ir b")
  case True
  then obtain B where B: "ccw_ir_node_get ir b = Some B" "n_kind B = CCW_NODE_BLOCK"
    and p: "ccw_ir_block_predecessor_count ir b = 0" by (auto simp: deletable_def elim!: atE)
  obtain F xs ys where F: "ccw_ir_node_get ir (n_parent B) = Some F" "n_kind F = CCW_NODE_FUNCTION"
    and c: "n_children F = xs @ b # ys" "distinct (xs @ b # ys)"
    and r: "snd (ccw_ir_block_delete ir b) = CCW_OK"
    and h: "ccw_ir_node_get (fst (ccw_ir_block_delete ir b)) =
       heap_delete_block (ccw_ir_node_get ir) b B (xs @ ys)"
    and "wf_ir (fst (ccw_ir_block_delete ir b))"
    by (rule block_delete_effect [OF wf B p])
  have "\<forall>j. ccw_ir_node_get (fst (ccw_ir_block_delete ir b)) j =
             (if j = b \<or> j \<in> set (n_children B) then None
              else if j = n_parent B then Some (F\<lparr>n_children := xs @ ys\<rparr>)
              else ccw_ir_node_get ir j)"
    using F(1) by (simp add: h heap_delete_block_def)
  with B(1) F(1) c(1) r True show ?thesis by (simp only: if_True) blast
qed (simp add: block_delete_refuses)

theorem block_delete_spec_witness:
  "snd (ccw_ir_block_delete demo_ir 2) = CCW_OK \<and> ccw_ir_block_delete demo_ir 3 = (demo_ir, CCW_ERR_TYPE)"
proof
  show "snd (ccw_ir_block_delete demo_ir 2) = CCW_OK"
    using block_delete_spec [OF demo_wf, of 2] demo_facts(3) by (simp only: if_True) blast
  show "ccw_ir_block_delete demo_ir 3 = (demo_ir, CCW_ERR_TYPE)"
    using block_delete_spec [OF demo_wf, of 3] demo_facts(4) by (simp only: if_False)
qed

section \<open>Control flow\<close>

text \<open>C39: \<open>ccw_ir_block_successor_ref\<close> enumerates the distinct blocks named by the terminator, in operand
  order, and is nil beyond them. \<open>ccw_ir_block_successor_count\<close> is an upper bound: it counts a block
  once per operand that names it.\<close>

theorem successors_enumerated:
  "ccw_ir_block_successor_ref ir blk i =
     (if 0 \<le> i \<and> i < int (length (cfg_succs ir blk)) then cfg_succs ir blk ! nat i else 0)
   \<and> distinct (cfg_succs ir blk) \<and> set (cfg_succs ir blk) = set (terminator_targets ir blk)
   \<and> ccw_ir_block_successor_count ir blk = int (length (terminator_targets ir blk))
   \<and> int (length (cfg_succs ir blk)) \<le> ccw_ir_block_successor_count ir blk"
  by (simp add: succ_ref_eq succ_count_eq distinct_cfg_succs set_cfg_succs length_cfg_succs vec_ref_def)

text \<open>C34: in a well-formed module the predecessor query is the converse of the successor query: block \<open>t\<close>
  is among the successors of the live block \<open>b\<close> iff \<open>b\<close> is among the predecessors of \<open>t\<close>, each predecessor
  being reported once.\<close>

theorem predecessors_converse:
  assumes wf: "wf_ir ir" and b: "ccw_ir_node_kind ir b = CCW_NODE_BLOCK" and t: "t \<noteq> 0"
  shows "((\<exists>i. ccw_ir_block_successor_ref ir b i = t) \<longleftrightarrow> (\<exists>j. ccw_ir_block_predecessor_ref ir t j = b))
    \<and> inj_on (ccw_ir_block_predecessor_ref ir t) {0..<ccw_ir_block_predecessor_count ir t}"
proof -
  obtain B where B: "ccw_ir_node_get ir b = Some B" "n_kind B = CCW_NODE_BLOCK"
    using b by (auto simp: ccw_ir_node_kind_def split: option.splits)
  have ref: "(\<exists>i. vec_ref v i = x) \<longleftrightarrow> x \<in> set v" if "x \<noteq> 0" for v x
  proof
    show "x \<in> set v" if "\<exists>i. vec_ref v i = x" using that \<open>x \<noteq> 0\<close> by (auto simp: vec_ref_def split: if_splits)
    assume "x \<in> set v"
    then obtain k where "k < length v" "v ! k = x" by (auto simp: in_set_conv_nth)
    then show "\<exists>i. vec_ref v i = x" by (intro exI [of _ "int k"]) (simp add: vec_ref_def)
  qed
  have "b \<noteq> 0" using node_get_pos [OF B(1)] by simp
  then have "(\<exists>i. ccw_ir_block_successor_ref ir b i = t) \<longleftrightarrow> (\<exists>j. ccw_ir_block_predecessor_ref ir t j = b)"
    using cfg_converse [OF wf B] ref t by (simp add: succ_ref_eq pred_ref_eq)
  moreover have "inj_on (ccw_ir_block_predecessor_ref ir t) {0..<ccw_ir_block_predecessor_count ir t}"
    using distinct_cfg_preds [OF wf, of t]
    by (auto simp: inj_on_def pred_ref_eq pred_count_eq vec_ref_def nth_eq_iff_index_eq eq_nat_nat_iff)
  ultimately show ?thesis by blast
qed

theorem predecessors_converse_witness:
  "(\<exists>i. ccw_ir_block_successor_ref demo_ir 2 i = 3) \<and> (\<exists>j. ccw_ir_block_predecessor_ref demo_ir 3 j = 2)"
proof -
  have k: "ccw_ir_node_kind demo_ir 2 = CCW_NODE_BLOCK" by code_simp
  have s: "ccw_ir_block_successor_ref demo_ir 2 0 = 3" by code_simp
  have "(3::ccw_node) \<noteq> 0" by simp
  from predecessors_converse [OF demo_wf k this] s show ?thesis by blast
qed

section \<open>Equality, validation, profiles, attributes\<close>

text \<open>C22: \<open>ccw_ir_equal\<close> decides whether two modules are the same once ids are forgotten: for a well-formed
  module and modules without NaN constants it is equality of the id-free trees, hence an equivalence
  that does not depend on the order of allocation.\<close>

theorem ir_equal_spec:
  assumes "wf_ir a" and "nan_free a" and "nan_free b"
  shows "ccw_ir_equal a b \<longleftrightarrow> module_tree_of a = module_tree_of b"
  by (rule ir_equal_iff [OF assms])

theorem ir_equal_spec_witness: "ccw_ir_equal demo_ir demo_ir \<and> \<not> ccw_ir_equal demo_ir demo_loop"
proof -
  have "list_all (\<lambda>n. n_okind n \<noteq> CCW_OPND_CONST_FLOAT) (m_nodes demo_ir)"
    "list_all (\<lambda>n. n_okind n \<noteq> CCW_OPND_CONST_FLOAT) (m_nodes demo_loop)" by code_simp+
  then have n: "nan_free demo_ir" "nan_free demo_loop" by (auto simp: nan_free_def list_all_iff)
  have "module_tree_of demo_ir \<noteq> module_tree_of demo_loop" by code_simp
  with ir_equal_spec [OF demo_wf n(1)] n show ?thesis by blast
qed

text \<open>C20: on a well-formed module \<open>ccw_ir_validate\<close> accepts exactly the modules that obey the stated rules:
  unique function, block and parameter names, no empty function or block, a terminator at the end of
  every block, resolvable block operands, a predecessor (or a \<open>.merge\<close> name) for every non-entry block,
  matching constant return types, well-shaped syscalls and I/O, and no construct of the other profile.\<close>

theorem validate_decides_rules:
  assumes "wf_ir ir"
  shows "ccw_ir_validate ir = Inr () \<longleftrightarrow> valid_module ir"
  by (rule validate_ok [OF assms])

theorem validate_decides_rules_witness: "valid_module demo_ir"
  using validate_decides_rules [OF demo_wf] demo_facts(7) by simp

text \<open>C35: in a module that validation accepts, every block of every function ends in a terminator whose
  block operands all resolve, so each of them contributes a control-flow edge to a block of the same
  function.\<close>

theorem validated_edges_resolve:
  assumes wf: "wf_ir ir" and ok: "ccw_ir_validate ir = Inr ()"
    and f: "f \<in> set (m_functions ir)" and c: "c \<in> set (children_of ir f CCW_NODE_FUNCTION)"
  shows "ccw_ir_instr_is_terminator ir (last (children_of ir c CCW_NODE_BLOCK))
    \<and> length (terminator_targets ir c) =
        length (filter (\<lambda>x. ccw_ir_operand_kind ir x = CCW_OPND_BLOCK)
          (children_of ir (last (children_of ir c CCW_NODE_BLOCK)) CCW_NODE_INSTR))
    \<and> set (cfg_succs ir c) \<subseteq> set (children_of ir f CCW_NODE_FUNCTION)"
proof -
  obtain F where F: "ccw_ir_node_get ir f = Some F" "n_kind F = CCW_NODE_FUNCTION" and "n_name F \<noteq> None"
    using function_live [OF wf f] .
  then have cF: "c \<in> set (n_children F)" using c by (simp add: children_of_def ccw_ir_node_get_kind_def)
  obtain B where B: "ccw_ir_node_get ir c = Some B" "n_kind B = CCW_NODE_BLOCK" "n_parent B = f"
    using wf_block_of [OF wf F cF] .
  have "valid_block ir f F c"
    using validate_ok [OF wf] ok f F cF by (auto simp: valid_module_def valid_function_def at_def)
  then have ne: "n_children B \<noteq> []" and te: "ccw_ir_instr_is_terminator ir (last (n_children B))"
    and ins: "\<forall>i \<in> set (n_children B). at (ccw_ir_node_get ir) i (valid_instr ir f F)"
    using B by (auto simp: valid_block_def at_def)
  obtain n where n: "ccw_ir_node_get ir (last (n_children B)) = Some n" "n_kind n = CCW_NODE_INSTR"
    using block_instr [OF wf B(1,2), of "last (n_children B)"] ne by auto
  have "valid_instr ir f F n" using ins ne n(1) by (auto simp: at_def dest: bspec [OF _ last_in_set])
  then have "\<forall>x \<in> set (n_children n). ccw_ir_operand_kind ir x = CCW_OPND_BLOCK
        \<longrightarrow> ccw_ir_block_target ir f (ccw_ir_operand_name ir x) \<noteq> 0" by (simp add: valid_instr_def)
  moreover have "(\<forall>x \<in> set xs. ccw_ir_operand_kind ir x = CCW_OPND_BLOCK
        \<longrightarrow> ccw_ir_block_target ir f (ccw_ir_operand_name ir x) \<noteq> 0)
      \<Longrightarrow> length (concat (map (operand_target ir f) xs)) =
          length (filter (\<lambda>x. ccw_ir_operand_kind ir x = CCW_OPND_BLOCK) xs)" for xs
    by (induction xs) (auto simp: operand_target_def Let_def)
  ultimately have "length (concat (map (operand_target ir f) (n_children n))) =
      length (filter (\<lambda>x. ccw_ir_operand_kind ir x = CCW_OPND_BLOCK) (n_children n))" by blast
  moreover have "is_terminator (n_opcode n)"
    using te n by (simp add: ccw_ir_instr_is_terminator_def ccw_ir_instr_opcode_def ccw_ir_node_get_kind_def)
  moreover have "set (cfg_succs ir c) \<subseteq> set (n_children F)"
    using targets_in_function [OF B(1,2)] B(3) F by (auto simp: set_cfg_succs)
  ultimately show ?thesis
    using F B n ne te by (simp add: children_of_def ccw_ir_node_get_kind_def terminator_targets_def)
qed

theorem validated_edges_resolve_witness:
  "length (terminator_targets demo_ir 2) = 1 \<and> set (cfg_succs demo_ir 2) \<subseteq> {2, 3}"
proof -
  have f: "1 \<in> set (m_functions demo_ir)" "2 \<in> set (children_of demo_ir 1 CCW_NODE_FUNCTION)" by code_simp+
  have c: "children_of demo_ir 1 CCW_NODE_FUNCTION = [2, 3]" by code_simp
  have "length (filter (\<lambda>x. ccw_ir_operand_kind demo_ir x = CCW_OPND_BLOCK)
      (children_of demo_ir (last (children_of demo_ir 2 CCW_NODE_BLOCK)) CCW_NODE_INSTR)) = 1" by code_simp
  with validated_edges_resolve [OF demo_wf demo_facts(7) f] c show ?thesis by simp
qed

text \<open>The profile checks reject exactly the other profile's constructs: Tilly rejects an instruction iff
  it has an On1x opcode or carries an On1x attribute, and On1x rejects one iff it has a Tilly opcode or
  carries a Tilly attribute.\<close>

theorem profile_rejection_exact:
  assumes "ccw_ir_node_get ir i = Some n" and "n_kind n = CCW_NODE_INSTR"
  shows "(ccw_tilly_reject_reason ir i \<noteq> None \<longleftrightarrow> on1x_construct n)
    \<and> (ccw_on1x_reject_reason ir i \<noteq> None \<longleftrightarrow> tilly_construct n)"
  using tilly_rejects_iff [OF assms] on1x_rejects_iff [OF assms] by blast

theorem profile_rejection_exact_witness:
  "let (ir, i) = ccw_on1x_build_safepoint demo_ir 0
   in ccw_tilly_reject_reason ir i \<noteq> None \<and> ccw_on1x_reject_reason ir i = None"
proof -
  let ?ir = "fst (ccw_on1x_build_safepoint demo_ir 0)"
  have i: "snd (ccw_on1x_build_safepoint demo_ir 0) = 8" by code_simp
  have "at (ccw_ir_node_get ?ir) 8 (\<lambda>n. n_kind n = CCW_NODE_INSTR \<and> n_opcode n = Some ''safepoint''
      \<and> n_attrs n = [])" by code_simp
  then obtain n where n: "ccw_ir_node_get ?ir 8 = Some n" "n_kind n = CCW_NODE_INSTR"
    "n_opcode n = Some ''safepoint''" "n_attrs n = []" by (auto elim!: atE)
  have "on1x_construct n" "\<not> tilly_construct n" using n by (auto simp: on1x_construct_def tilly_construct_def)
  with profile_rejection_exact [OF n(1,2)] i show ?thesis by (simp add: case_prod_beta)
qed

text \<open>Attributes form a map per owner (the module, id 0, or a live node): after a set, looking up the key
  gives the new value and every other key keeps its value.\<close>

theorem attr_set_lookup:
  assumes "owner = 0 \<or> ccw_ir_node_kind ir owner \<noteq> CCW_NODE_DEAD"
  shows "snd (ccw_ir_attr_set ir owner (Some k) (Some v)) = CCW_OK
    \<and> ccw_ir_attr_lookup (fst (ccw_ir_attr_set ir owner (Some k) (Some v))) owner (Some k') =
      (if k' = k then Some v else ccw_ir_attr_lookup ir owner (Some k'))"
proof -
  have put: "attrs_find (attrs_put a k v) k' = (if k' = k then Some v else attrs_find a k')" for a
    by (induction a k v rule: attrs_put.induct) auto
  show ?thesis
  proof (cases "owner = 0")
    case True
    then show ?thesis
      by (simp add: ccw_ir_attr_set_def ccw_ir_attr_lookup_def ccw_attrs_of_def ccw_attrs_set_def put)
  next
    case False
    with assms obtain n where n: "ccw_ir_node_get ir owner = Some n"
      by (auto simp: ccw_ir_node_kind_def split: option.splits)
    have "ccw_ir_node_get (upd_node ir owner (\<lambda>n. n\<lparr>n_attrs := a\<rparr>)) owner = Some (n\<lparr>n_attrs := a\<rparr>)" for a
      using get_upd_keep [where f = "\<lambda>n. n\<lparr>n_attrs := a\<rparr>", OF n] by simp
    with False n show ?thesis
      by (simp add: ccw_ir_attr_set_def ccw_ir_attr_lookup_def ccw_attrs_of_def ccw_attrs_set_def put)
  qed
qed

theorem attr_set_lookup_witness:
  "ccw_ir_attr_lookup (fst (ccw_ir_attr_set demo_ir 2 (Some ''k'') (Some ''v''))) 2 (Some ''k'') = Some ''v''"
proof -
  have "ccw_ir_node_kind demo_ir 2 \<noteq> CCW_NODE_DEAD" by code_simp
  then show ?thesis using attr_set_lookup [of 2 demo_ir "''k''" "''v''" "''k''"] by simp
qed

text \<open>The textual names of types and profiles are read back to the same value, and only these names are
  accepted.\<close>

lemma names_roundtrip:
  "(ccw_ir_type_parse (Some s) = Some t \<longleftrightarrow> s = ccw_ir_type_name t)
   \<and> (ccw_profile_parse (Some s) = Some p \<longleftrightarrow> s = ccw_profile_name p)"
  using type_parse_sound profile_parse_sound by auto

end
