(* ===== verification/Sched_Manifest.thy ===== *)
theory Sched_Manifest
  imports CStrings
begin

text \<open>
  The scheduler's state (\<open>sched/sched.c\<close>) and the reading of its two manifests, \<open>Kernel.yaml\<close> and
  \<open>Stdrewrite.yaml\<close>. The file system is a function from paths to file contents (\<open>None\<close>: \<open>fopen\<close> for
  reading fails); contents hold no NUL byte. Hash tables are maps, sets of keys are sets. Node ids
  are naturals; the cast to \<open>unsigned\<close> is written out. Allocation succeeds.
\<close>

section \<open>State\<close>

type_synonym fs = "string \<Rightarrow> string option"

text \<open>\<open>ccw_sched_error\<close>: a code and a message cut to its 256-byte buffer.\<close>

type_synonym sched_error = "int \<times> string"

definition sfail :: "int \<Rightarrow> string \<Rightarrow> sched_error" where
  "sfail code message = (code, take 255 message)"

definition NODE_KERNEL :: nat where "NODE_KERNEL = 1"
definition NODE_REWRITE :: nat where "NODE_REWRITE = 2"
definition NODE_BARRIER :: nat where "NODE_BARRIER = 3"

record kernel =
  k_name :: string
  k_path :: string
  k_caps :: "string list"

record ruleset =
  r_name :: string
  r_path :: string

record node =
  nd_id :: nat
  nd_kind :: nat
  nd_name :: string
  nd_members :: "string list"

type_synonym edge = "nat \<times> nat"

record ccw_sched =
  s_name :: string
  s_manifest_dir :: string
  s_kernels :: "kernel list"
  s_rules :: "ruleset list"
  s_nodes :: "node list"
  s_edges :: "edge list"
  s_kernel_by_name :: "string \<Rightarrow> nat option"
  s_capability_index :: "string \<Rightarrow> nat list option"
  s_ruleset_by_name :: "string \<Rightarrow> nat option"
  s_edge_set :: "nat set"
  s_sealed :: bool

section \<open>Scalars\<close>

definition strip :: "string \<Rightarrow> string" where
  "strip s = rtrim (dropWhile isspace s)"

definition clean_scalar :: "string \<Rightarrow> bool" where
  "clean_scalar s = (s \<noteq> [] \<and> strchr s newline = None \<and> strchr s carriage_return = None
                     \<and> strchr s (CHR '','') = None)"

section \<open>Indexes\<close>

definition append_kernel_match :: "nat list \<Rightarrow> nat \<Rightarrow> nat list" where
  "append_kernel_match matches i = (if i \<in> set matches then matches else matches @ [i])"

text \<open>The loop of \<open>index_kernel\<close> over a kernel's capabilities.\<close>

fun index_caps :: "(string \<Rightarrow> nat list option) \<Rightarrow> nat \<Rightarrow> string list \<Rightarrow> (string \<Rightarrow> nat list option)" where
  "index_caps ix i [] = ix"
| "index_caps ix i (c # caps) =
     (let ms = (case ix c of None \<Rightarrow> [] | Some ms \<Rightarrow> ms)
      in index_caps (ix(c := Some (append_kernel_match ms i))) i caps)"

text \<open>\<open>kh_put\<close> on a present key keeps the stored value: the first kernel with a name wins.\<close>

definition index_kernel :: "ccw_sched \<Rightarrow> nat \<Rightarrow> ccw_sched" where
  "index_kernel s i =
     (let k = s_kernels s ! i
      in s\<lparr>s_kernel_by_name :=
             (if s_kernel_by_name s (k_name k) = None
              then (s_kernel_by_name s)(k_name k := Some i) else s_kernel_by_name s),
           s_capability_index := index_caps (s_capability_index s) i (k_caps k)\<rparr>)"

definition index_ruleset :: "ccw_sched \<Rightarrow> nat \<Rightarrow> ccw_sched" where
  "index_ruleset s i =
     (let n = r_name (s_rules s ! i)
      in s\<lparr>s_ruleset_by_name :=
             (if s_ruleset_by_name s n = None
              then (s_ruleset_by_name s)(n := Some i) else s_ruleset_by_name s)\<rparr>)"

section \<open>Kernel.yaml\<close>

text \<open>The kernel being read: \<open>current\<close> with its nullable fields.\<close>

record pending =
  p_name :: "string option"
  p_path :: "string option"
  p_caps :: "string list"

definition no_kernel :: pending where
  "no_kernel = \<lparr>p_name = None, p_path = None, p_caps = []\<rparr>"

text \<open>\<open>None\<close> is the return value 0. Without a name the pending entry is left as it is.\<close>

definition finish_kernel :: "ccw_sched \<Rightarrow> pending \<Rightarrow> (ccw_sched \<times> pending) option" where
  "finish_kernel s p =
     (case p_name p of
        None \<Rightarrow> Some (s, p)
      | Some nm \<Rightarrow>
          (case p_path p of
             None \<Rightarrow> None
           | Some path \<Rightarrow>
               if \<not> clean_scalar nm then None
               else Some (index_kernel
                      (s\<lparr>s_kernels := s_kernels s @ [\<lparr>k_name = nm, k_path = path, k_caps = p_caps p\<rparr>]\<rparr>)
                      (length (s_kernels s)), no_kernel)))"

text \<open>The \<open>fgets\<close> loop of \<open>load_kernels\<close>; \<open>None\<close> is the jump to \<open>bad\<close>.\<close>

fun load_kernels_loop ::
  "ccw_sched \<Rightarrow> pending \<Rightarrow> bool \<Rightarrow> string list \<Rightarrow> (ccw_sched \<times> pending) option" where
  "load_kernels_loop s current in_caps [] = Some (s, current)"
| "load_kernels_loop s current in_caps (line # lines) =
     (let p = strip line
      in if starts_with ''- path:'' p then
           (case finish_kernel s current of
              None \<Rightarrow> None
            | Some (s', current') \<Rightarrow>
                load_kernels_loop s' (current'\<lparr>p_path := Some (strip (drop 7 p))\<rparr>) False lines)
         else if p_path current \<noteq> None \<and> starts_with ''name:'' p then
           load_kernels_loop s (current\<lparr>p_name := Some (strip (drop 5 p))\<rparr>) in_caps lines
         else if p_path current \<noteq> None \<and> p = ''capabilities:'' then
           load_kernels_loop s current True lines
         else if in_caps \<and> starts_with ''- '' p then
           load_kernels_loop s (current\<lparr>p_caps := p_caps current @ [strip (drop 2 p)]\<rparr>) in_caps lines
         else if p \<noteq> [] \<and> hd p \<noteq> CHR ''#'' then
           load_kernels_loop s current False lines
         else load_kernels_loop s current in_caps lines)"

definition load_kernels :: "fs \<Rightarrow> ccw_sched \<Rightarrow> sched_error + ccw_sched" where
  "load_kernels fs s =
     (case fs (take 1023 (s_manifest_dir s @ ''/Kernel.yaml'')) of
        None \<Rightarrow> Inl (sfail 2 ''cannot read Kernel.yaml'')
      | Some text \<Rightarrow>
          (case load_kernels_loop s no_kernel False (fgets_lines 2048 text) of
             None \<Rightarrow> Inl (sfail 2 ''malformed Kernel.yaml'')
           | Some (s', current) \<Rightarrow>
               (case finish_kernel s' current of
                  None \<Rightarrow> Inl (sfail 2 ''malformed Kernel.yaml'')
                | Some (s'', _) \<Rightarrow>
                    if s_kernels s'' = [] then Inl (sfail 2 ''Kernel.yaml has no kernels'')
                    else Inr s'')))"

section \<open>Stdrewrite.yaml\<close>

text \<open>The \<open>fgets\<close> loop of \<open>load_rules\<close> with its variable \<open>path\<close>; \<open>name\<close> is never live across lines.\<close>

fun load_rules_loop :: "ccw_sched \<Rightarrow> string option \<Rightarrow> string list \<Rightarrow> ccw_sched option" where
  "load_rules_loop s path [] = Some s"
| "load_rules_loop s path (line # lines) =
     (let p = strip line
      in if starts_with ''- path:'' p then
           (let path' = strip (drop 7 p)
            in if \<not> clean_scalar path' then None else load_rules_loop s (Some path') lines)
         else if starts_with ''name:'' p then
           (case path of
              None \<Rightarrow> None
            | Some pt \<Rightarrow>
                (let name = strip (drop 5 p)
                 in if \<not> clean_scalar name then None
                    else load_rules_loop
                           (index_ruleset (s\<lparr>s_rules := s_rules s @ [\<lparr>r_name = name, r_path = pt\<rparr>]\<rparr>)
                              (length (s_rules s))) None lines))
         else load_rules_loop s path lines)"

definition load_rules :: "fs \<Rightarrow> ccw_sched \<Rightarrow> sched_error + ccw_sched" where
  "load_rules fs s =
     (case fs (take 1023 (s_manifest_dir s @ ''/Stdrewrite.yaml'')) of
        None \<Rightarrow> Inl (sfail 2 ''cannot read Stdrewrite.yaml'')
      | Some text \<Rightarrow>
          (case load_rules_loop s None (fgets_lines 2048 text) of
             None \<Rightarrow> Inl (sfail 2 ''malformed Stdrewrite.yaml'')
           | Some s' \<Rightarrow>
               if s_rules s' = [] then Inl (sfail 2 ''Stdrewrite.yaml has no rulesets'')
               else Inr s'))"

section \<open>Creation\<close>

definition empty_sched :: "string \<Rightarrow> string \<Rightarrow> ccw_sched" where
  "empty_sched name dir =
     \<lparr>s_name = name, s_manifest_dir = dir, s_kernels = [], s_rules = [], s_nodes = [], s_edges = [],
      s_kernel_by_name = (\<lambda>_. None), s_capability_index = (\<lambda>_. None),
      s_ruleset_by_name = (\<lambda>_. None), s_edge_set = {}, s_sealed = False\<rparr>"

definition ccw_sched_new :: "fs \<Rightarrow> string \<Rightarrow> string option \<Rightarrow> sched_error + ccw_sched" where
  "ccw_sched_new fs name manifest_dir =
     (if \<not> clean_scalar name then Inl (sfail 1 ''invalid pipeline name'')
      else
        (case load_kernels fs (empty_sched name
                 (case manifest_dir of Some d \<Rightarrow> d | None \<Rightarrow> ''manifests'')) of
           Inl e \<Rightarrow> Inl e
         | Inr s \<Rightarrow> load_rules fs s))"

section \<open>Searches\<close>

definition has_cap :: "kernel \<Rightarrow> string \<Rightarrow> bool" where
  "has_cap k cap = (cap \<in> set (k_caps k))"

function wildcard :: "string \<Rightarrow> string \<Rightarrow> bool" where
  "wildcard [] text = (text = [])"
| "wildcard (p # pattern) text =
     (if p = CHR ''*'' then
        (if wildcard pattern text then True
         else (case text of [] \<Rightarrow> False | _ # text' \<Rightarrow> wildcard (p # pattern) text'))
      else (case text of [] \<Rightarrow> False | c # text' \<Rightarrow> (if p = c then wildcard pattern text' else False)))"
  by pat_completeness auto

termination
  by (relation "measure (\<lambda>(p, t). length p + length t)") auto

end
