(* ===== verification/Sched_Plan.thy ===== *)
theory Sched_Plan
  imports Sched_Manifest
begin

text \<open>
  Building and sealing a plan (\<open>sched/sched.c\<close>): nodes, edges, queries of the manifest indexes,
  barriers, the cycle check and the sealed text. An operation returns the new scheduler beside
  \<open>Inl error\<close> or \<open>Inr value\<close>. Pointers (the scheduler, out-parameters, names that the C tests against
  NULL) are not NULL except where they are options.
\<close>

section \<open>Nodes and edges\<close>

text \<open>\<open>can_mutate\<close>: an error, or nothing.\<close>

definition can_mutate :: "ccw_sched \<Rightarrow> sched_error option" where
  "can_mutate s = (if s_sealed s then Some (sfail 3 ''scheduler is sealed'') else None)"

definition edge_key :: "nat \<Rightarrow> nat \<Rightarrow> nat" where
  "edge_key a b = a * uint_mod + b"

definition add_edge_raw :: "ccw_sched \<Rightarrow> nat \<Rightarrow> nat \<Rightarrow> ccw_sched" where
  "add_edge_raw s a b =
     (if edge_key a b \<in> s_edge_set s then s
      else s\<lparr>s_edge_set := insert (edge_key a b) (s_edge_set s), s_edges := s_edges s @ [(a, b)]\<rparr>)"

text \<open>The loop of \<open>add_node\<close> that makes a work node depend on every barrier so far.\<close>

fun barrier_edges :: "ccw_sched \<Rightarrow> node list \<Rightarrow> nat \<Rightarrow> ccw_sched" where
  "barrier_edges s [] i = s"
| "barrier_edges s (n # ns) i =
     barrier_edges (if nd_kind n = NODE_BARRIER then add_edge_raw s (nd_id n) i else s) ns i"

definition add_node ::
  "ccw_sched \<Rightarrow> nat \<Rightarrow> string \<Rightarrow> string list \<Rightarrow> ccw_sched \<times> (sched_error + nat)" where
  "add_node s kind name members =
     (if can_mutate s \<noteq> None \<or> \<not> clean_scalar name
      then (s, Inl (sfail 1 ''out of memory or invalid node name''))
      else
        (let i = (length (s_nodes s) mod uint_mod + 1) mod uint_mod;
             n = \<lparr>nd_id = i, nd_kind = kind, nd_name = name, nd_members = members\<rparr>;
             s1 = (if kind \<noteq> NODE_BARRIER then barrier_edges s (s_nodes s) i else s)
         in (s1\<lparr>s_nodes := s_nodes s1 @ [n]\<rparr>, Inr i)))"

section \<open>Queries\<close>

definition ccw_sched_require_kernel :: "ccw_sched \<Rightarrow> string \<Rightarrow> ccw_sched \<times> (sched_error + nat)" where
  "ccw_sched_require_kernel s name =
     (case s_kernel_by_name s name of
        Some i \<Rightarrow> add_node s NODE_KERNEL (k_name (s_kernels s ! i)) (k_caps (s_kernels s ! i))
      | None \<Rightarrow> (s, Inl (sfail 4 ''kernel is absent from Kernel.yaml'')))"

text \<open>The selection loop: the first match, overridden by later ones that have the preferred name.\<close>

fun select_match :: "ccw_sched \<Rightarrow> string option \<Rightarrow> nat option \<Rightarrow> nat list \<Rightarrow> nat option" where
  "select_match s prefer match [] = match"
| "select_match s prefer match (i # is) =
     select_match s prefer
       (if match = None \<or> prefer = Some (k_name (s_kernels s ! i)) then Some i else match) is"

definition ccw_sched_require_capability ::
  "ccw_sched \<Rightarrow> string \<Rightarrow> string option \<Rightarrow> ccw_sched \<times> (sched_error + nat)" where
  "ccw_sched_require_capability s cap prefer =
     (case s_capability_index s cap of
        None \<Rightarrow> (s, Inl (sfail 4 ''capability is absent from Kernel.yaml''))
      | Some matches \<Rightarrow>
          (case select_match s prefer None matches of
             None \<Rightarrow> (s, Inl (sfail 4 ''capability is absent from Kernel.yaml''))
           | Some i \<Rightarrow>
               (let k = s_kernels s ! i
                in if prefer \<noteq> None \<and> prefer \<noteq> Some (k_name k)
                   then (s, Inl (sfail 4 ''preferred kernel does not provide capability''))
                   else if prefer = None \<and> length matches \<noteq> 1
                   then (s, Inl (sfail 4 ''capability is ambiguous; supply prefer''))
                   else add_node s NODE_KERNEL (k_name k) (k_caps k))))"

text \<open>\<open>probe\<close> drops the error: \<open>None\<close> is its return value 0.\<close>

definition ccw_sched_probe_capability ::
  "ccw_sched \<Rightarrow> string \<Rightarrow> string option \<Rightarrow> ccw_sched \<times> nat option" where
  "ccw_sched_probe_capability s cap prefer =
     (case ccw_sched_require_capability s cap prefer of
        (s', Inl _) \<Rightarrow> (s', None)
      | (s', Inr i) \<Rightarrow> (s', Some i))"

definition ccw_sched_rewrite :: "ccw_sched \<Rightarrow> string \<Rightarrow> ccw_sched \<times> (sched_error + nat)" where
  "ccw_sched_rewrite s pattern =
     (case can_mutate s of
        Some e \<Rightarrow> (s, Inl e)
      | None \<Rightarrow>
          (let members = filter (\<lambda>n. wildcard pattern n) (map r_name (s_rules s))
           in if members = [] then (s, Inl (sfail 4 ''rewrite pattern matched no rulesets''))
              else add_node s NODE_REWRITE pattern members))"

section \<open>Edges and barriers\<close>

definition ccw_sched_edge :: "ccw_sched \<Rightarrow> nat \<Rightarrow> nat \<Rightarrow> ccw_sched \<times> (sched_error + unit)" where
  "ccw_sched_edge s a b =
     (if can_mutate s \<noteq> None \<or> a = 0 \<or> b = 0 \<or> a > length (s_nodes s) \<or> b > length (s_nodes s)
      then (s, Inl (sfail 5 ''edge references a node outside this plan''))
      else (add_edge_raw s a b, Inr ()))"

text \<open>The loop \<open>for (i = 1; i < id; i++) add_edge_raw (s, i, id)\<close>.\<close>

definition edges_into :: "ccw_sched \<Rightarrow> nat \<Rightarrow> ccw_sched" where
  "edges_into s i = fold (\<lambda>j s. add_edge_raw s j i) [1..<i] s"

definition ccw_sched_barrier :: "ccw_sched \<Rightarrow> string option \<Rightarrow> ccw_sched \<times> (sched_error + nat)" where
  "ccw_sched_barrier s label =
     (case add_node s NODE_BARRIER (case label of Some l \<Rightarrow> l | None \<Rightarrow> ''barrier'') [] of
        (s', Inl e) \<Rightarrow> (s', Inl e)
      | (s', Inr i) \<Rightarrow> (edges_into s' i, Inr i))"

section \<open>The cycle check\<close>

text \<open>
  \<open>acyclic\<close> keeps an array of in-degrees (unsigned, \<open>UINT_MAX\<close> marks a removed node). \<open>count_in\<close> is the
  loop that fills it, \<open>pick\<close> the search for the first zero, \<open>relax\<close> the loop that lowers the degrees of
  the successors, and \<open>peel\<close> the outer loop, whose rounds are bounded by the number of nodes: each
  marks one more entry.
\<close>

definition UINT_MAX :: nat where "UINT_MAX = 4294967295"

fun count_in :: "edge list \<Rightarrow> nat list \<Rightarrow> nat list" where
  "count_in [] d = d"
| "count_in ((a, b) # es) d = count_in es (d[b - 1 := (d ! (b - 1) + 1) mod uint_mod])"

fun pick :: "nat \<Rightarrow> nat list \<Rightarrow> nat option" where
  "pick i [] = None"
| "pick i (x # xs) = (if x = 0 then Some i else pick (Suc i) xs)"

fun relax :: "nat \<Rightarrow> edge list \<Rightarrow> nat list \<Rightarrow> nat list" where
  "relax i [] d = d"
| "relax i ((a, b) # es) d =
     relax i es (if a = i \<and> d ! (b - 1) \<noteq> UINT_MAX
                 then d[b - 1 := (d ! (b - 1) + UINT_MAX) mod uint_mod] else d)"

fun peel :: "nat \<Rightarrow> edge list \<Rightarrow> nat list \<Rightarrow> nat \<Rightarrow> nat" where
  "peel 0 es d seen = seen"
| "peel (Suc fuel) es d seen =
     (case pick 0 d of
        None \<Rightarrow> seen
      | Some i \<Rightarrow> peel fuel es (relax (Suc i) es (d[i := UINT_MAX])) (Suc seen))"

definition acyclic_check :: "ccw_sched \<Rightarrow> bool" where
  "acyclic_check s =
     (peel (length (s_nodes s)) (s_edges s)
        (count_in (s_edges s) (replicate (length (s_nodes s)) 0)) 0 = length (s_nodes s))"

section \<open>Sealing\<close>

definition node_line :: "node \<Rightarrow> string" where
  "node_line n = ''node '' @ dec_nat (nd_id n) @ '' '' @ dec_nat (nd_kind n) @ '' '' @ nd_name n
     @ concat (map (\<lambda>m. '' '' @ m) (nd_members n))"

definition edge_line :: "edge \<Rightarrow> string" where
  "edge_line e = ''edge '' @ dec_nat (fst e) @ '' '' @ dec_nat (snd e)"

definition plan_lines :: "ccw_sched \<Rightarrow> string list" where
  "plan_lines s = [''CCW-SCHED-PLAN 1'', ''name '' @ s_name s]
     @ map node_line (s_nodes s) @ map edge_line (s_edges s)"

definition plan_text :: "ccw_sched \<Rightarrow> string" where
  "plan_text s = concat (map (\<lambda>l. l @ [newline]) (plan_lines s))"

text \<open>A \<open>ccw_plan\<close> is its text.\<close>

type_synonym ccw_plan = string

definition ccw_sched_seal :: "ccw_sched \<Rightarrow> ccw_sched \<times> (sched_error + ccw_plan)" where
  "ccw_sched_seal s =
     (case can_mutate s of
        Some e \<Rightarrow> (s, Inl e)
      | None \<Rightarrow>
          (let useful = (\<exists>n \<in> set (s_nodes s). nd_kind n \<noteq> NODE_BARRIER)
           in if \<not> useful \<or> \<not> acyclic_check s
              then (s, Inl (sfail 6 (if useful then ''plan contains a cycle''
                                     else ''plan contains no work nodes'')))
              else (s\<lparr>s_sealed := True\<rparr>, Inr (plan_text s))))"

definition ccw_plan_text :: "ccw_plan option \<Rightarrow> string" where
  "ccw_plan_text p = (case p of Some t \<Rightarrow> t | None \<Rightarrow> [])"

definition ccw_plan_from_text :: "string option \<Rightarrow> ccw_plan" where
  "ccw_plan_from_text t = (case t of Some s \<Rightarrow> s | None \<Rightarrow> [])"

text \<open>
  Writing a plan; \<open>writable\<close> tells whether the path can be opened for writing and takes all output.
  A failed write leaves the file in an unspecified state, which the model does not show.
\<close>

definition ccw_plan_write ::
  "(string \<Rightarrow> bool) \<Rightarrow> fs \<Rightarrow> ccw_plan \<Rightarrow> string \<Rightarrow> fs \<times> (sched_error + unit)" where
  "ccw_plan_write writable fs p path =
     (if \<not> writable path then (fs, Inl (sfail 7 ''cannot write plan''))
      else (fs(path \<mapsto> p), Inr ()))"

end
