(* ===== verification/Sched_Index.thy ===== *)
theory Sched_Index
  imports Sched_Manifest
begin

text \<open>
  What the manifest indexes promise: the name maps give the first entry with a name, the capability
  map lists exactly the kernels with a capability, in manifest order. Loading establishes this.
\<close>

section \<open>Specification\<close>

definition named_at :: "('a \<Rightarrow> string) \<Rightarrow> 'a list \<Rightarrow> string \<Rightarrow> nat option" where
  "named_at name xs n = find (\<lambda>i. name (xs ! i) = n) [0..<length xs]"

definition providers :: "kernel list \<Rightarrow> string \<Rightarrow> nat list" where
  "providers ks c = filter (\<lambda>i. has_cap (ks ! i) c) [0..<length ks]"

definition cap_index :: "kernel list \<Rightarrow> string \<Rightarrow> nat list option" where
  "cap_index ks c = (if providers ks c = [] then None else Some (providers ks c))"

definition wf_manifest :: "ccw_sched \<Rightarrow> bool" where
  "wf_manifest s \<longleftrightarrow>
     s_kernel_by_name s = named_at k_name (s_kernels s)
     \<and> s_capability_index s = cap_index (s_kernels s)
     \<and> s_ruleset_by_name s = named_at r_name (s_rules s)
     \<and> (\<forall>k \<in> set (s_kernels s). clean_scalar (k_name k))
     \<and> (\<forall>r \<in> set (s_rules s). clean_scalar (r_name r) \<and> clean_scalar (r_path r))"

section \<open>Laws of the specification\<close>

lemma named_at_append:
  "named_at name (xs @ [x]) =
     (if named_at name xs (name x) = None then (named_at name xs)(name x := Some (length xs)) else named_at name xs)"
proof -
  have "find (\<lambda>i. name ((xs @ [x]) ! i) = n) [0..<length xs] = find (\<lambda>i. name (xs ! i) = n) [0..<length xs]" for n
    by (rule find_cong) (auto simp: nth_append)
  moreover have "find P (ys @ [y]) = (case find P ys of None \<Rightarrow> (if P y then Some y else None) | Some z \<Rightarrow> Some z)"
    for P and ys :: "nat list" and y
    by (induction ys) auto
  ultimately show ?thesis by (auto simp: named_at_def fun_eq_iff split: option.splits)
qed

lemma named_at_Some: "named_at name xs n = Some i \<Longrightarrow> i < length xs \<and> name (xs ! i) = n"
  by (auto simp: named_at_def find_Some_iff)

lemma named_at_None: "named_at name xs n = None \<longleftrightarrow> n \<notin> name ` set xs"
proof -
  have "named_at name xs n = None \<longleftrightarrow> (\<forall>i < length xs. name (xs ! i) \<noteq> n)"
    by (auto simp: named_at_def find_None_iff)
  also have "\<dots> \<longleftrightarrow> n \<notin> name ` set xs"
    by (metis (no_types, lifting) imageE image_eqI in_set_conv_nth)
  finally show ?thesis .
qed

lemma named_at_distinct:
  assumes "distinct (map name xs)" "i < length xs"
  shows "named_at name xs (name (xs ! i)) = Some i"
proof -
  have "named_at name xs (name (xs ! i)) \<noteq> None" using assms(2) by (simp add: named_at_None)
  then obtain j where j: "named_at name xs (name (xs ! i)) = Some j" by blast
  then have "j < length xs" "map name xs ! j = map name xs ! i" using named_at_Some [OF j] assms(2) by auto
  with assms have "j = i" by (metis length_map nth_eq_iff_index_eq)
  with j show ?thesis by simp
qed

lemma providers_append:
  "providers (ks @ [k]) c = providers ks c @ (if has_cap k c then [length ks] else [])"
proof -
  have "filter (\<lambda>i. has_cap ((ks @ [k]) ! i) c) [0..<length ks] = filter (\<lambda>i. has_cap (ks ! i) c) [0..<length ks]"
    by (rule filter_cong) (auto simp: nth_append)
  then show ?thesis by (simp add: providers_def)
qed

lemma set_providers: "set (providers ks c) = {i. i < length ks \<and> c \<in> set (k_caps (ks ! i))}"
  by (auto simp: providers_def has_cap_def)

section \<open>The index operations keep it\<close>

lemma index_caps_eq:
  "index_caps ix i caps c =
     (if c \<in> set caps then Some (append_kernel_match (case ix c of None \<Rightarrow> [] | Some ms \<Rightarrow> ms) i) else ix c)"
proof (induction caps arbitrary: ix)
  case (Cons d caps)
  have idem: "append_kernel_match (append_kernel_match ms i) i = append_kernel_match ms i" for ms
    by (simp add: append_kernel_match_def)
  show ?case
    by (cases "d = c"; cases "c \<in> set caps") (simp_all add: Let_def Cons.IH idem)
qed simp

lemma wf_manifest_kernel:
  assumes wf: "wf_manifest s" and "clean_scalar (k_name k)"
  shows "wf_manifest (index_kernel (s\<lparr>s_kernels := s_kernels s @ [k]\<rparr>) (length (s_kernels s)))"
proof -
  let ?ks = "s_kernels s"
  have "length ?ks \<notin> set (providers ?ks c)" for c by (simp add: set_providers)
  then have "index_caps (s_capability_index s) (length ?ks) (k_caps k) = cap_index (?ks @ [k])"
    using wf by (auto simp: fun_eq_iff index_caps_eq wf_manifest_def cap_index_def providers_append
        append_kernel_match_def has_cap_def)
  with assms show ?thesis
    by (simp add: index_kernel_def Let_def wf_manifest_def named_at_append)
qed

lemma wf_manifest_rule:
  assumes "wf_manifest s" "clean_scalar (r_name r)" "clean_scalar (r_path r)"
  shows "wf_manifest (index_ruleset (s\<lparr>s_rules := s_rules s @ [r]\<rparr>) (length (s_rules s)))"
  using assms by (simp add: index_ruleset_def Let_def wf_manifest_def named_at_append)

lemma finish_kernel_wf:
  "finish_kernel s p = Some (s', p') \<Longrightarrow> wf_manifest s \<Longrightarrow> wf_manifest s'"
  using wf_manifest_kernel by (auto simp: finish_kernel_def split: option.splits if_splits)

lemma load_kernels_loop_wf:
  "load_kernels_loop s p b ls = Some (s', p') \<Longrightarrow> wf_manifest s \<Longrightarrow> wf_manifest s'"
  by (induction s p b ls rule: load_kernels_loop.induct)
     (auto simp: Let_def split: if_splits option.splits dest: finish_kernel_wf)

lemma load_rules_loop_wf:
  assumes "load_rules_loop s path ls = Some s'" "wf_manifest s" "\<forall>p. path = Some p \<longrightarrow> clean_scalar p"
  shows "wf_manifest s'"
  using assms
proof (induction s path ls rule: load_rules_loop.induct)
  case (2 s path line lines)
  then show ?case
    using wf_manifest_rule
    by (auto simp: Let_def split: if_splits option.splits)
qed simp

text \<open>Loading touches only the manifest part of the state.\<close>

definition fresh_graph :: "ccw_sched \<Rightarrow> bool" where
  "fresh_graph s \<longleftrightarrow> s_nodes s = [] \<and> s_edges s = [] \<and> s_edge_set s = {} \<and> \<not> s_sealed s"

lemma finish_kernel_fresh:
  "finish_kernel s p = Some (s', p') \<Longrightarrow> fresh_graph s' = fresh_graph s \<and> s_name s' = s_name s
     \<and> s_manifest_dir s' = s_manifest_dir s \<and> s_rules s' = s_rules s"
  by (auto simp: finish_kernel_def index_kernel_def fresh_graph_def Let_def split: option.splits if_splits)

lemma load_kernels_loop_fresh:
  "load_kernels_loop s p b ls = Some (s', p') \<Longrightarrow> fresh_graph s' = fresh_graph s \<and> s_name s' = s_name s
     \<and> s_manifest_dir s' = s_manifest_dir s \<and> s_rules s' = s_rules s"
  by (induction s p b ls rule: load_kernels_loop.induct)
     (auto simp: Let_def split: if_splits option.splits dest: finish_kernel_fresh)

lemma load_rules_loop_fresh:
  "load_rules_loop s path ls = Some s' \<Longrightarrow> fresh_graph s' = fresh_graph s \<and> s_name s' = s_name s
     \<and> s_manifest_dir s' = s_manifest_dir s \<and> s_kernels s' = s_kernels s"
  by (induction s path ls rule: load_rules_loop.induct)
     (auto simp: Let_def index_ruleset_def fresh_graph_def split: if_splits option.splits)

lemma empty_sched_wf: "wf_manifest (empty_sched name dir) \<and> fresh_graph (empty_sched name dir)"
  by (auto simp: wf_manifest_def empty_sched_def fresh_graph_def named_at_def providers_def cap_index_def fun_eq_iff)

lemma load_kernels_result:
  assumes "load_kernels fs s = Inr s'" "wf_manifest s"
  shows "wf_manifest s' \<and> fresh_graph s' = fresh_graph s \<and> s_name s' = s_name s
    \<and> s_manifest_dir s' = s_manifest_dir s \<and> s_kernels s' \<noteq> []"
proof -
  obtain content s1 c p where 1: "load_kernels_loop s no_kernel False (fgets_lines 2048 content) = Some (s1, c)"
    and 2: "finish_kernel s1 c = Some (s', p)" and ne: "s_kernels s' \<noteq> []"
    using assms(1) by (auto simp: load_kernels_def split: option.splits if_splits)
  have "wf_manifest s'" by (rule finish_kernel_wf [OF 2 load_kernels_loop_wf [OF 1 assms(2)]])
  with load_kernels_loop_fresh [OF 1] finish_kernel_fresh [OF 2] ne show ?thesis by simp
qed

lemma load_rules_result:
  assumes "load_rules fs s = Inr s'" "wf_manifest s"
  shows "wf_manifest s' \<and> fresh_graph s' = fresh_graph s \<and> s_name s' = s_name s
    \<and> s_manifest_dir s' = s_manifest_dir s \<and> s_kernels s' = s_kernels s \<and> s_rules s' \<noteq> []"
  using assms load_rules_loop_wf [of s None _ s']
  by (auto simp: load_rules_def split: option.splits if_splits dest!: load_rules_loop_fresh)

lemma ccw_sched_new_result:
  assumes "ccw_sched_new fs name dir = Inr s"
  shows "wf_manifest s \<and> fresh_graph s \<and> s_name s = name \<and> clean_scalar name
    \<and> s_kernels s \<noteq> [] \<and> s_rules s \<noteq> []"
proof -
  let ?s0 = "empty_sched name (case dir of Some d \<Rightarrow> d | None \<Rightarrow> ''manifests'')"
  obtain s1 where c: "clean_scalar name" and 1: "load_kernels fs ?s0 = Inr s1" and 2: "load_rules fs s1 = Inr s"
    using assms by (auto simp: ccw_sched_new_def split: sum.splits if_splits)
  have r1: "wf_manifest s1 \<and> fresh_graph s1 = fresh_graph ?s0 \<and> s_name s1 = s_name ?s0
    \<and> s_manifest_dir s1 = s_manifest_dir ?s0 \<and> s_kernels s1 \<noteq> []"
    by (rule load_kernels_result [OF 1]) (simp add: empty_sched_wf)
  have r2: "wf_manifest s \<and> fresh_graph s = fresh_graph s1 \<and> s_name s = s_name s1
    \<and> s_manifest_dir s = s_manifest_dir s1 \<and> s_kernels s = s_kernels s1 \<and> s_rules s \<noteq> []"
    by (rule load_rules_result [OF 2]) (use r1 in blast)
  have "s_name ?s0 = name" by (simp add: empty_sched_def)
  with r1 r2 c show ?thesis by (simp add: empty_sched_wf)
qed

end
