(* ===== verification/Sched_Graph.thy ===== *)
theory Sched_Graph
  imports Prelude
begin

text \<open>
  Dependency graphs: nodes are the ids 1 to \<open>n\<close> (node \<open>i\<close> of an array has id \<open>i + 1\<close>), an edge
  \<open>(a, b)\<close> makes \<open>b\<close> depend on \<open>a\<close>. The cycle check of the sealer and the loop of the executor both
  remove, again and again, the first node that has no dependency left. \<open>ready_picker\<close> is their common
  contract; \<open>topo\<close> is the sequence of nodes that any loop with this contract picks.
\<close>

section \<open>The reference order\<close>

definition edges_ok :: "nat \<Rightarrow> (nat \<times> nat) list \<Rightarrow> bool" where
  "edges_ok n es \<longleftrightarrow> (\<forall>(a, b) \<in> set es. 1 \<le> a \<and> a \<le> n \<and> 1 \<le> b \<and> b \<le> n)"

definition ready :: "(nat \<times> nat) list \<Rightarrow> nat set \<Rightarrow> nat \<Rightarrow> bool" where
  "ready es R i \<longleftrightarrow> i \<notin> R \<and> (\<forall>(a, b) \<in> set es. b = Suc i \<longrightarrow> a - 1 \<in> R)"

fun topo :: "nat \<Rightarrow> nat \<Rightarrow> (nat \<times> nat) list \<Rightarrow> nat set \<Rightarrow> nat list" where
  "topo n 0 es R = []"
| "topo n (Suc k) es R =
     (case find (ready es R) [0..<n] of None \<Rightarrow> [] | Some i \<Rightarrow> i # topo n k es (insert i R))"

text \<open>The order of a list respects the edges and executes \<open>n\<close> nodes once each.\<close>

definition topological :: "nat \<Rightarrow> (nat \<times> nat) list \<Rightarrow> nat list \<Rightarrow> bool" where
  "topological n es order \<longleftrightarrow>
     distinct order \<and> set order = {0..<n}
     \<and> (\<forall>(a, b) \<in> set es. \<exists>p q. p < q \<and> q < n \<and> order ! p = a - 1 \<and> order ! q = b - 1)"

section \<open>The interface of a selection loop\<close>

fun picks :: "('d \<Rightarrow> nat option) \<Rightarrow> (nat \<Rightarrow> 'd \<Rightarrow> 'd) \<Rightarrow> nat \<Rightarrow> 'd \<Rightarrow> nat list" where
  "picks pick mark 0 d = []"
| "picks pick mark (Suc k) d =
     (case pick d of None \<Rightarrow> [] | Some i \<Rightarrow> i # picks pick mark k (mark i d))"

locale ready_picker =
  fixes n :: nat and es :: "(nat \<times> nat) list"
    and pick :: "'d \<Rightarrow> nat option" and mark :: "nat \<Rightarrow> 'd \<Rightarrow> 'd"
    and removed :: "'d \<Rightarrow> nat set" and ok :: "'d \<Rightarrow> bool"
  assumes pick_first: "ok d \<Longrightarrow> pick d = find (ready es (removed d)) [0..<n]"
    and mark_ok: "ok d \<Longrightarrow> ready es (removed d) i \<Longrightarrow> i < n \<Longrightarrow> ok (mark i d)"
    and mark_removed: "ok d \<Longrightarrow> ready es (removed d) i \<Longrightarrow> i < n \<Longrightarrow> removed (mark i d) = insert i (removed d)"
begin

lemma picks_topo: "ok d \<Longrightarrow> picks pick mark k d = topo n k es (removed d)"
proof (induction k arbitrary: d)
  case (Suc k)
  show ?case
  proof (cases "pick d")
    case None
    with pick_first [OF Suc.prems] show ?thesis by simp
  next
    case (Some i)
    with pick_first [OF Suc.prems] have f: "find (ready es (removed d)) [0..<n] = Some i" by simp
    then have "ready es (removed d) i" "i < n" by (auto simp: find_Some_iff)
    with f Some Suc show ?thesis by (simp add: mark_ok mark_removed)
  qed
qed simp

end

section \<open>Laws of the reference order\<close>

lemma topo_length: "length (topo n k es R) \<le> k"
  by (induction k arbitrary: R) (auto split: option.splits)

lemma topo_fresh: "distinct (topo n k es R) \<and> set (topo n k es R) \<subseteq> {0..<n} - R"
proof (induction k arbitrary: R)
  case (Suc k)
  show ?case
  proof (cases "find (ready es R) [0..<n]")
    case (Some i)
    then have "ready es R i" "i < n" by (auto simp: find_Some_iff)
    then have "i \<notin> R" by (simp add: ready_def)
    with Suc [of "insert i R"] Some \<open>i < n\<close> show ?thesis by auto
  qed simp
qed simp

lemma topo_deps:
  assumes "q < length (topo n k es R)" "(a, b) \<in> set es" "b = Suc (topo n k es R ! q)"
  shows "a - 1 \<in> R \<or> (\<exists>p < q. topo n k es R ! p = a - 1)"
  using assms
proof (induction k arbitrary: R q)
  case (Suc k)
  obtain i where f: "find (ready es R) [0..<n] = Some i"
    using Suc.prems(1) by (cases "find (ready es R) [0..<n]") auto
  then have r: "ready es R i" by (auto simp: find_Some_iff)
  show ?case
  proof (cases q)
    case 0
    with r f Suc.prems show ?thesis by (auto simp: ready_def)
  next
    case (Suc q')
    with f Suc.prems Suc.IH [of q' "insert i R"] have "a - 1 \<in> insert i R \<or> (\<exists>p < q'. topo n k es (insert i R) ! p = a - 1)"
      by simp
    then show ?thesis
    proof
      assume "a - 1 \<in> insert i R"
      with f Suc show ?thesis by auto
    next
      assume "\<exists>p < q'. topo n k es (insert i R) ! p = a - 1"
      then obtain p where "p < q'" "topo n k es (insert i R) ! p = a - 1" by blast
      with f Suc show ?thesis by (auto intro!: exI [of _ "Suc p"])
    qed
  qed
qed simp

text \<open>When the loop stops early, every node that is left waits for another node that is left.\<close>

lemma topo_stuck:
  assumes "length (topo n k es R) < k"
  shows "\<forall>i < n. \<not> ready es (R \<union> set (topo n k es R)) i"
  using assms
proof (induction k arbitrary: R)
  case (Suc k)
  show ?case
  proof (cases "find (ready es R) [0..<n]")
    case None
    then have e: "topo n (Suc k) es R = []" by simp
    from None have "\<not> (\<exists>i. i \<in> set [0..<n] \<and> ready es R i)" unfolding find_None_iff .
    then show ?thesis unfolding e by auto
  next
    case (Some i)
    with Suc.prems Suc.IH [of "insert i R"] show ?thesis by simp
  qed
qed simp

lemma topo_complete_set: "length (topo n n es {}) = n \<Longrightarrow> set (topo n n es {}) = {0..<n}"
  using topo_fresh [of n n es "{}"] by (simp add: card_subset_eq distinct_card)

lemma topo_topological:
  assumes ok: "edges_ok n es" and len: "length (topo n n es {}) = n"
  shows "topological n es (topo n n es {})"
proof -
  have "\<exists>p q. p < q \<and> q < n \<and> topo n n es {} ! p = a - 1 \<and> topo n n es {} ! q = b - 1"
    if e: "(a, b) \<in> set es" for a b
  proof -
    have "b - 1 \<in> set (topo n n es {})" and b: "1 \<le> b"
      using ok e topo_complete_set [OF len] by (auto simp: edges_ok_def)
    then obtain q where q: "q < length (topo n n es {})" "topo n n es {} ! q = b - 1"
      unfolding in_set_conv_nth by blast
    with b have "b = Suc (topo n n es {} ! q)" by simp
    from topo_deps [OF q(1) e this] q len show ?thesis by auto
  qed
  with topo_fresh [of n n es "{}"] topo_complete_set [OF len] show ?thesis
    by (auto simp: topological_def)
qed

lemma topological_acyclic:
  assumes t: "topological n es order" and ok: "edges_ok n es"
  shows "acyclic (set es)"
proof -
  have d: "distinct order" and s: "set order = {0..<n}" using t by (auto simp: topological_def)
  have len: "length order = n" using d s distinct_card [of order] by simp
  define pos where "pos i = (THE p. p < n \<and> order ! p = i)" for i
  have pos: "pos (order ! p) = p" if "p < n" for p
    unfolding pos_def using that d len by (intro the_equality) (auto simp: nth_eq_iff_index_eq)
  have "pos (a - 1) < pos (b - 1)" if "(a, b) \<in> set es" for a b
  proof -
    have "\<forall>e \<in> set es. case e of (a, b) \<Rightarrow> \<exists>p q. p < q \<and> q < n \<and> order ! p = a - 1 \<and> order ! q = b - 1"
      using t unfolding topological_def by (elim conjE)
    from bspec [OF this that] obtain p q where "p < q" "q < n" "order ! p = a - 1" "order ! q = b - 1"
      by clarify
    with pos [of p] pos [of q] show ?thesis by simp
  qed
  then have "set es \<subseteq> measure (\<lambda>a. pos (a - 1))" by auto
  then show ?thesis by (rule acyclic_subset [OF wf_acyclic [OF wf_measure]])
qed

theorem topo_complete_iff:
  assumes ok: "edges_ok n es"
  shows "length (topo n n es {}) = n \<longleftrightarrow> acyclic (set es)"
proof
  assume "length (topo n n es {}) = n"
  then show "acyclic (set es)" by (intro topological_acyclic [OF topo_topological [OF ok] ok])
next
  assume ac: "acyclic (set es)"
  show "length (topo n n es {}) = n"
  proof (rule ccontr)
    let ?R = "set (topo n n es {})"
    assume "length (topo n n es {}) \<noteq> n"
    then have less: "length (topo n n es {}) < n" using topo_length [of n n es "{}"] by simp
    have "card ?R < n" using less card_length [of "topo n n es {}"] by simp
    then have "?R \<noteq> {0..<n}" by auto
    then have "?R \<subset> {0..<n}" using topo_fresh [of n n es "{}"] by blast
    then obtain i where "i \<in> {0..<n} - ?R" using psubset_imp_ex_mem by blast
    then have i: "i < n" "i \<notin> ?R" by simp_all
    let ?Q = "{Suc j | j. j < n \<and> j \<notin> ?R}"
    have "wf (set es)" by (rule finite_acyclic_wf) (simp_all add: ac)
    moreover have "Suc i \<in> ?Q" using i by blast
    ultimately obtain z where z: "z \<in> ?Q" "\<And>y. (y, z) \<in> set es \<Longrightarrow> y \<notin> ?Q" by (rule wfE_min) blast
    then obtain j where j: "z = Suc j" "j < n" "j \<notin> ?R" by blast
    have "\<not> ready es ?R j" using topo_stuck [OF less] j(2) by simp
    then obtain a where a: "(a, z) \<in> set es" "a - 1 \<notin> ?R" using j by (auto simp: ready_def)
    have "a \<in> ?Q" using ok a by (auto simp: edges_ok_def intro!: exI [of _ "a - 1"])
    with z a show False by blast
  qed
qed

end
