(* ===== verification/Sched_Wf.thy ===== *)
theory Sched_Wf
  imports Sched_Plan Sched_Index Sched_Graph
begin

text \<open>
  The invariant of a scheduler and its preservation by every operation: the manifest indexes are
  right, ids count the nodes, edges join existing nodes and are recorded once, nodes say what the
  manifest says, and barriers separate the nodes before them from the work nodes after them.
\<close>

section \<open>Adding edges\<close>

definition edge_inv :: "ccw_sched \<Rightarrow> bool" where
  "edge_inv s \<longleftrightarrow> distinct (s_edges s) \<and> s_edge_set s = (\<lambda>(a, b). edge_key a b) ` set (s_edges s)
     \<and> (\<forall>(a, b) \<in> set (s_edges s). a < uint_mod \<and> b < uint_mod)"

definition only_edges :: "ccw_sched \<Rightarrow> ccw_sched \<Rightarrow> bool" where
  "only_edges s s' \<longleftrightarrow> (\<exists>es S. s' = s\<lparr>s_edges := es, s_edge_set := S\<rparr>)"

lemma only_edges_refl: "only_edges s s"
  unfolding only_edges_def by (intro exI [of _ "s_edges s"] exI [of _ "s_edge_set s"]) simp

lemma only_edges_trans: "only_edges s s' \<Longrightarrow> only_edges s' s'' \<Longrightarrow> only_edges s s''"
  unfolding only_edges_def by clarsimp (metis (no_types))

lemma only_edges_add: "only_edges s (add_edge_raw s a b)"
proof (cases "edge_key a b \<in> s_edge_set s")
  case True
  then show ?thesis by (simp add: add_edge_raw_def only_edges_refl)
next
  case False
  then have "add_edge_raw s a b = s\<lparr>s_edges := s_edges s @ [(a, b)], s_edge_set := insert (edge_key a b) (s_edge_set s)\<rparr>"
    by (simp add: add_edge_raw_def)
  then show ?thesis unfolding only_edges_def by blast
qed

lemma edge_key_inj: "b < uint_mod \<Longrightarrow> d < uint_mod \<Longrightarrow> edge_key a b = edge_key c d \<longleftrightarrow> a = c \<and> b = d"
proof -
  assume bd: "b < uint_mod" "d < uint_mod"
  have "(a * uint_mod + b) div uint_mod = a" "(a * uint_mod + b) mod uint_mod = b"
    "(c * uint_mod + d) div uint_mod = c" "(c * uint_mod + d) mod uint_mod = d"
    using bd by simp_all
  then show ?thesis unfolding edge_key_def by metis
qed

lemma edge_key_member:
  assumes "edge_inv s" "b < uint_mod"
  shows "edge_key a b \<in> s_edge_set s \<longleftrightarrow> (a, b) \<in> set (s_edges s)"
  using assms by (auto simp: edge_inv_def edge_key_inj image_iff)

definition adds_edges :: "(nat \<times> nat) set \<Rightarrow> ccw_sched \<Rightarrow> ccw_sched \<Rightarrow> bool" where
  "adds_edges E s s' \<longleftrightarrow> edge_inv s' \<and> set (s_edges s') = set (s_edges s) \<union> E \<and> only_edges s s'"

lemma adds_edges_refl: "edge_inv s \<Longrightarrow> adds_edges {} s s"
  by (simp add: adds_edges_def only_edges_refl)

lemma adds_edges_trans:
  "adds_edges E s s' \<Longrightarrow> adds_edges F s' s'' \<Longrightarrow> adds_edges (E \<union> F) s s''"
  unfolding adds_edges_def by (elim conjE, intro conjI; (rule only_edges_trans)?; simp add: Un_assoc)

lemma adds_edges_inv: "adds_edges E s s' \<Longrightarrow> edge_inv s'"
  by (simp add: adds_edges_def)

lemma add_edge_raw_effect:
  assumes inv: "edge_inv s" and ab: "a < uint_mod" "b < uint_mod"
  shows "adds_edges {(a, b)} s (add_edge_raw s a b)"
proof (cases "(a, b) \<in> set (s_edges s)")
  case True
  with edge_key_member [OF inv ab(2)] inv show ?thesis
    by (auto simp: add_edge_raw_def adds_edges_def only_edges_refl)
next
  case False
  with edge_key_member [OF inv ab(2)] inv ab show ?thesis
    using only_edges_add [of s a b] by (auto simp: add_edge_raw_def adds_edges_def edge_inv_def)
qed

lemma barrier_edges_effect:
  assumes "edge_inv s" "i < uint_mod" "\<forall>n \<in> set ns. nd_id n < uint_mod"
  shows "adds_edges {(nd_id n, i) | n. n \<in> set ns \<and> nd_kind n = NODE_BARRIER} s (barrier_edges s ns i)"
  using assms
proof (induction ns arbitrary: s)
  case (Cons n ns)
  let ?s1 = "if nd_kind n = NODE_BARRIER then add_edge_raw s (nd_id n) i else s"
  have 1: "adds_edges (if nd_kind n = NODE_BARRIER then {(nd_id n, i)} else {}) s ?s1"
    using Cons.prems add_edge_raw_effect adds_edges_refl by simp
  have 2: "adds_edges {(nd_id n, i) | n. n \<in> set ns \<and> nd_kind n = NODE_BARRIER} ?s1 (barrier_edges ?s1 ns i)"
    using Cons adds_edges_inv [OF 1] by simp
  have "(if nd_kind n = NODE_BARRIER then {(nd_id n, i)} else {}) \<union> {(nd_id n, i) | n. n \<in> set ns \<and> nd_kind n = NODE_BARRIER}
    = {(nd_id m, i) | m. m \<in> set (n # ns) \<and> nd_kind m = NODE_BARRIER}" by auto
  with adds_edges_trans [OF 1 2] show ?case by simp
qed (simp add: adds_edges_refl)

lemma edges_into_effect:
  assumes "edge_inv s" "i < uint_mod"
  shows "adds_edges {(j, i) | j. 1 \<le> j \<and> j < i} s (edges_into s i)"
proof -
  have "adds_edges {(j, i) | j. j \<in> set js} s (fold (\<lambda>j s. add_edge_raw s j i) js s)"
    if "edge_inv s" "\<forall>j \<in> set js. j < uint_mod" for js s
    using that
  proof (induction js arbitrary: s)
    case (Cons j js)
    then have 1: "adds_edges {(j, i)} s (add_edge_raw s j i)" using add_edge_raw_effect assms(2) by simp
    have 2: "adds_edges {(k, i) | k. k \<in> set js} (add_edge_raw s j i)
        (fold (\<lambda>j s. add_edge_raw s j i) js (add_edge_raw s j i))"
      using Cons adds_edges_inv [OF 1] by simp
    have "{(j, i)} \<union> {(k, i) | k. k \<in> set js} = {(k, i) | k. k \<in> set (j # js)}" by auto
    with adds_edges_trans [OF 1 2] show ?case by simp
  qed (simp add: adds_edges_refl)
  from this [of s "[1..<i]"] assms show ?thesis by (simp add: edges_into_def)
qed

section \<open>The invariant\<close>

definition node_ok :: "ccw_sched \<Rightarrow> node \<Rightarrow> bool" where
  "node_ok s n \<longleftrightarrow> clean_scalar (nd_name n) \<and>
     (nd_kind n = NODE_KERNEL \<and> (\<exists>k \<in> set (s_kernels s). nd_name n = k_name k \<and> nd_members n = k_caps k)
      \<or> nd_kind n = NODE_REWRITE \<and> nd_members n \<noteq> []
          \<and> nd_members n = filter (wildcard (nd_name n)) (map r_name (s_rules s))
      \<or> nd_kind n = NODE_BARRIER \<and> nd_members n = [])"

definition barriers_hold :: "node list \<Rightarrow> edge list \<Rightarrow> bool" where
  "barriers_hold nodes es \<longleftrightarrow>
     (\<forall>i j. i < j \<and> j < length nodes
        \<and> (nd_kind (nodes ! i) = NODE_BARRIER \<or> nd_kind (nodes ! j) = NODE_BARRIER)
      \<longrightarrow> (Suc i, Suc j) \<in> set es)"

definition wf_graph :: "ccw_sched \<Rightarrow> bool" where
  "wf_graph s \<longleftrightarrow> map nd_id (s_nodes s) = [1..<Suc (length (s_nodes s))]
     \<and> edges_ok (length (s_nodes s)) (s_edges s) \<and> edge_inv s \<and> barriers_hold (s_nodes s) (s_edges s)"

text \<open>An id is an \<open>unsigned\<close>; the graph part is claimed while ids do not wrap.\<close>

definition wf_sched :: "ccw_sched \<Rightarrow> bool" where
  "wf_sched s \<longleftrightarrow> wf_manifest s \<and> clean_scalar (s_name s) \<and> s_kernels s \<noteq> [] \<and> s_rules s \<noteq> []
     \<and> (\<forall>n \<in> set (s_nodes s). node_ok s n)
     \<and> (length (s_nodes s) < uint_mod \<longrightarrow> wf_graph s)"

lemma nd_id_nth:
  assumes "wf_graph s" "i < length (s_nodes s)"
  shows "nd_id (s_nodes s ! i) = Suc i"
proof -
  have "map nd_id (s_nodes s) ! i = [1..<Suc (length (s_nodes s))] ! i" using assms by (simp only: wf_graph_def)
  with assms(2) show ?thesis by (simp del: upt_Suc)
qed

section \<open>Adding a node\<close>

lemma only_edges_same:
  "only_edges s s' \<Longrightarrow> s_nodes s' = s_nodes s \<and> s_name s' = s_name s \<and> s_kernels s' = s_kernels s
     \<and> s_rules s' = s_rules s \<and> wf_manifest s' = wf_manifest s \<and> s_sealed s' = s_sealed s
     \<and> node_ok s' = node_ok s"
proof -
  assume "only_edges s s'"
  then obtain es S where "s' = s\<lparr>s_edges := es, s_edge_set := S\<rparr>" unfolding only_edges_def by blast
  then show ?thesis by (simp add: wf_manifest_def node_ok_def fun_eq_iff)
qed

text \<open>The edges that come with a node: from every earlier node into a barrier, from the barriers
  before it into a work node.\<close>

definition into_new :: "node list \<Rightarrow> nat \<Rightarrow> edge set" where
  "into_new nodes kind =
     {(Suc i, Suc (length nodes)) | i. i < length nodes
        \<and> (kind = NODE_BARRIER \<or> nd_kind (nodes ! i) = NODE_BARRIER)}"

definition node_added :: "ccw_sched \<Rightarrow> node \<Rightarrow> ccw_sched \<Rightarrow> bool" where
  "node_added s n s' \<longleftrightarrow>
     (\<exists>es S. s' = s\<lparr>s_nodes := s_nodes s @ [n], s_edges := es, s_edge_set := S\<rparr>) \<and> node_ok s n
     \<and> (length (s_nodes s') < uint_mod \<longrightarrow>
          nd_id n = length (s_nodes s') \<and> edge_inv s'
          \<and> set (s_edges s') = set (s_edges s) \<union> into_new (s_nodes s) (nd_kind n))"

lemma wf_node_added:
  assumes wf: "wf_sched s" and add: "node_added s n s'"
  shows "wf_sched s'"
proof -
  obtain es S where s': "s' = s\<lparr>s_nodes := s_nodes s @ [n], s_edges := es, s_edge_set := S\<rparr>"
    using add by (auto simp: node_added_def)
  have same: "s_nodes s' = s_nodes s @ [n]" "s_name s' = s_name s" "s_kernels s' = s_kernels s"
    "s_rules s' = s_rules s" "wf_manifest s' = wf_manifest s" "node_ok s' = node_ok s"
    by (simp_all add: s' wf_manifest_def node_ok_def fun_eq_iff)
  have "wf_graph s'" if len: "length (s_nodes s') < uint_mod"
  proof -
    have g: "wf_graph s" using wf len same(1) by (simp add: wf_sched_def)
    have id: "nd_id n = length (s_nodes s')" and inv: "edge_inv s'"
      and es: "set (s_edges s') = set (s_edges s) \<union> into_new (s_nodes s) (nd_kind n)"
      using add len by (auto simp: node_added_def)
    have "edges_ok (length (s_nodes s')) (s_edges s')"
      using g es by (fastforce simp: edges_ok_def wf_graph_def same(1) into_new_def)
    moreover have "barriers_hold (s_nodes s') (s_edges s')"
      using g unfolding barriers_hold_def wf_graph_def same(1) es
      by (auto simp: nth_append into_new_def less_Suc_eq)
    ultimately show ?thesis using g id inv by (simp add: wf_graph_def same(1))
  qed
  with wf add same show ?thesis by (simp add: wf_sched_def node_added_def)
qed

text \<open>\<open>add_node\<close> for a work node.\<close>

lemma add_node_ok:
  assumes wf: "wf_sched s" and r: "add_node s kind name members = (s', Inr i)"
    and ok: "node_ok s \<lparr>nd_id = i, nd_kind = kind, nd_name = name, nd_members = members\<rparr>"
    and work: "kind \<noteq> NODE_BARRIER"
  shows "node_added s \<lparr>nd_id = i, nd_kind = kind, nd_name = name, nd_members = members\<rparr> s'"
proof -
  let ?n = "\<lparr>nd_id = i, nd_kind = kind, nd_name = name, nd_members = members\<rparr>"
  let ?s1 = "barrier_edges s (s_nodes s) i"
  have i: "i = (length (s_nodes s) mod uint_mod + 1) mod uint_mod"
    and s': "s' = ?s1\<lparr>s_nodes := s_nodes ?s1 @ [?n]\<rparr>"
    using r work by (auto simp: add_node_def Let_def split: if_splits)
  have only: "only_edges s (barrier_edges s ns j)" for ns j
    by (induction s ns j rule: barrier_edges.induct)
       (auto simp: only_edges_refl intro: only_edges_trans only_edges_add)
  have fr: "\<exists>es S. s' = s\<lparr>s_nodes := s_nodes s @ [?n], s_edges := es, s_edge_set := S\<rparr>"
  proof -
    obtain es S where e: "?s1 = s\<lparr>s_edges := es, s_edge_set := S\<rparr>"
      using only [of "s_nodes s" i] unfolding only_edges_def by blast
    show ?thesis unfolding s' e by (intro exI [of _ es] exI [of _ S]) simp
  qed
  have "i = length (s_nodes s') \<and> edge_inv s'
      \<and> set (s_edges s') = set (s_edges s) \<union> into_new (s_nodes s) kind"
    if len: "length (s_nodes s') < uint_mod"
  proof -
    have len1: "Suc (length (s_nodes s)) < uint_mod" using len fr by auto
    have g: "wf_graph s" using wf len1 by (simp add: wf_sched_def)
    have i': "i = Suc (length (s_nodes s))" using len1 by (simp add: i)
    have "\<forall>n \<in> set (s_nodes s). nd_id n < uint_mod"
      using nd_id_nth [OF g] len1 by (auto simp: in_set_conv_nth)
    then have e: "adds_edges {(nd_id n, i) | n. n \<in> set (s_nodes s) \<and> nd_kind n = NODE_BARRIER} s ?s1"
      using g len1 i' by (intro barrier_edges_effect) (simp_all add: wf_graph_def)
    have "{(nd_id n, i) | n. n \<in> set (s_nodes s) \<and> nd_kind n = NODE_BARRIER} = into_new (s_nodes s) kind"
      using work nd_id_nth [OF g] by (force simp: into_new_def i' in_set_conv_nth)
    with e show ?thesis
      using only_edges_same [OF only [of "s_nodes s" i]]
      by (simp add: s' i' adds_edges_def edge_inv_def)
  qed
  with fr ok show ?thesis by (simp add: node_added_def)
qed

lemma add_node_error: "add_node s kind name members = (s', Inl e) \<Longrightarrow> s' = s"
  by (auto simp: add_node_def Let_def split: if_splits)

lemma add_node_clean: "add_node s kind name members = (s', Inr i) \<Longrightarrow> clean_scalar name \<and> \<not> s_sealed s"
  by (simp add: add_node_def can_mutate_def sfail_def split: if_splits)

end
