(* ===== verification/Sched_Machine.thy ===== *)
theory Sched_Machine
  imports Sched_Wf
begin

text \<open>
  The life of a scheduler: it is created from a file system and changed by the operations of
  \<open>sched/ccw_sched.h\<close> in any order, with any arguments. Every reachable scheduler satisfies
  \<open>wf_sched\<close>.
\<close>

section \<open>What each operation adds\<close>

lemma require_kernel_effect:
  assumes wf: "wf_sched s" and r: "ccw_sched_require_kernel s name = (s', Inr i)"
  shows "\<exists>k \<in> set (s_kernels s). k_name k = name
    \<and> node_added s \<lparr>nd_id = i, nd_kind = NODE_KERNEL, nd_name = name, nd_members = k_caps k\<rparr> s'"
proof -
  obtain j where j: "s_kernel_by_name s name = Some j"
    and a: "add_node s NODE_KERNEL (k_name (s_kernels s ! j)) (k_caps (s_kernels s ! j)) = (s', Inr i)"
    using r by (auto simp: ccw_sched_require_kernel_def split: option.splits)
  have "named_at k_name (s_kernels s) name = Some j" using wf j by (simp add: wf_sched_def wf_manifest_def)
  from named_at_Some [OF this] have k: "s_kernels s ! j \<in> set (s_kernels s)" "k_name (s_kernels s ! j) = name" by auto
  have "node_ok s \<lparr>nd_id = i, nd_kind = NODE_KERNEL, nd_name = name, nd_members = k_caps (s_kernels s ! j)\<rparr>"
    using add_node_clean [OF a] k by (auto simp: node_ok_def)
  with add_node_ok [OF wf a] k show ?thesis by (auto simp: NODE_KERNEL_def NODE_BARRIER_def)
qed

lemma select_match_in: "select_match s prefer m js = Some i \<Longrightarrow> m = Some i \<or> i \<in> set js"
  by (induction s "prefer" m js rule: select_match.induct) (auto split: if_splits)

lemma require_capability_effect:
  assumes wf: "wf_sched s" and r: "ccw_sched_require_capability s cap prefer = (s', Inr i)"
  shows "\<exists>k \<in> set (s_kernels s). has_cap k cap
    \<and> node_added s \<lparr>nd_id = i, nd_kind = NODE_KERNEL, nd_name = k_name k, nd_members = k_caps k\<rparr> s'"
proof -
  obtain ms j where ms: "s_capability_index s cap = Some ms" and j: "select_match s prefer None ms = Some j"
    and a: "add_node s NODE_KERNEL (k_name (s_kernels s ! j)) (k_caps (s_kernels s ! j)) = (s', Inr i)"
    using r by (auto simp: ccw_sched_require_capability_def Let_def split: option.splits if_splits)
  have "ms = providers (s_kernels s) cap"
    using wf ms by (auto simp: wf_sched_def wf_manifest_def cap_index_def split: if_splits)
  with select_match_in [OF j] have k: "s_kernels s ! j \<in> set (s_kernels s)" "has_cap (s_kernels s ! j) cap"
    by (auto simp: set_providers has_cap_def)
  have "node_ok s \<lparr>nd_id = i, nd_kind = NODE_KERNEL, nd_name = k_name (s_kernels s ! j), nd_members = k_caps (s_kernels s ! j)\<rparr>"
    using add_node_clean [OF a] k by (auto simp: node_ok_def)
  with add_node_ok [OF wf a] k show ?thesis by (auto simp: NODE_KERNEL_def NODE_BARRIER_def)
qed

lemma rewrite_effect:
  assumes wf: "wf_sched s" and r: "ccw_sched_rewrite s pattern = (s', Inr i)"
  shows "node_added s \<lparr>nd_id = i, nd_kind = NODE_REWRITE, nd_name = pattern,
    nd_members = filter (wildcard pattern) (map r_name (s_rules s))\<rparr> s'"
proof -
  let ?ms = "filter (wildcard pattern) (map r_name (s_rules s))"
  have a: "add_node s NODE_REWRITE pattern ?ms = (s', Inr i)" and ne: "?ms \<noteq> []"
    using r by (auto simp: ccw_sched_rewrite_def Let_def split: option.splits if_splits)
  have "node_ok s \<lparr>nd_id = i, nd_kind = NODE_REWRITE, nd_name = pattern, nd_members = ?ms\<rparr>"
    using add_node_clean [OF a] ne by (simp add: node_ok_def)
  from add_node_ok [OF wf a this] show ?thesis by (simp add: NODE_REWRITE_def NODE_BARRIER_def)
qed

lemma barrier_effect:
  assumes wf: "wf_sched s" and r: "ccw_sched_barrier s label = (s', Inr i)"
  shows "node_added s \<lparr>nd_id = i, nd_kind = NODE_BARRIER,
    nd_name = (case label of Some l \<Rightarrow> l | None \<Rightarrow> ''barrier''), nd_members = []\<rparr> s'"
proof -
  define nm where "nm = (case label of Some l \<Rightarrow> l | None \<Rightarrow> ''barrier'')"
  let ?n = "\<lparr>nd_id = i, nd_kind = NODE_BARRIER, nd_name = nm, nd_members = []\<rparr>"
  let ?s1 = "s\<lparr>s_nodes := s_nodes s @ [?n]\<rparr>"
  obtain s1 where a: "add_node s NODE_BARRIER nm [] = (s1, Inr i)" and s': "s' = edges_into s1 i"
    using r by (auto simp: ccw_sched_barrier_def nm_def split: prod.splits sum.splits)
  have s1: "s1 = ?s1" and i: "i = (length (s_nodes s) mod uint_mod + 1) mod uint_mod"
    using a by (auto simp: add_node_def Let_def split: if_splits)
  have only: "only_edges t (fold (\<lambda>j s. add_edge_raw s j k) js t)" for js t k
    by (induction js arbitrary: t) (auto intro: only_edges_refl only_edges_trans only_edges_add)
  obtain es S where e: "s' = ?s1\<lparr>s_edges := es, s_edge_set := S\<rparr>"
    using only [of ?s1 i "[1..<i]"] unfolding s' s1 edges_into_def only_edges_def by blast
  have "i = length (s_nodes s') \<and> edge_inv s' \<and> set (s_edges s') = set (s_edges s) \<union> into_new (s_nodes s) NODE_BARRIER"
    if len: "length (s_nodes s') < uint_mod"
  proof -
    have len1: "Suc (length (s_nodes s)) < uint_mod" using len by (simp add: e)
    have i': "i = Suc (length (s_nodes s))" using len1 by (simp add: i)
    have "edge_inv ?s1" using wf len1 by (simp add: wf_sched_def wf_graph_def edge_inv_def)
    then have ad: "adds_edges {(j, i) | j. 1 \<le> j \<and> j < i} ?s1 s'"
      unfolding s' s1 using len1 i' by (intro edges_into_effect) auto
    have "{(j, i) | j. 1 \<le> j \<and> j < i} = into_new (s_nodes s) NODE_BARRIER"
    proof -
      have "\<exists>m. j = Suc m \<and> m < length (s_nodes s)" if "1 \<le> j" "j < i" for j
        using that by (intro exI [of _ "j - 1"]) (auto simp: i')
      then show ?thesis by (auto simp: into_new_def i')
    qed
    with ad show ?thesis by (simp add: adds_edges_def e i')
  qed
  moreover have "node_ok s ?n" using add_node_clean [OF a] by (simp add: node_ok_def)
  ultimately have "node_added s ?n s'" using e by (auto simp: node_added_def)
  then show ?thesis by (simp add: nm_def)
qed

lemma query_error:
  "ccw_sched_require_kernel s name = (s', Inl e) \<Longrightarrow> s' = s"
  "ccw_sched_require_capability s cap prefer = (s', Inl e) \<Longrightarrow> s' = s"
  "ccw_sched_rewrite s pattern = (s', Inl e) \<Longrightarrow> s' = s"
  "ccw_sched_barrier s label = (s', Inl e) \<Longrightarrow> s' = s"
  by (auto simp: ccw_sched_require_kernel_def ccw_sched_require_capability_def ccw_sched_rewrite_def
      ccw_sched_barrier_def Let_def split: option.splits if_splits prod.splits sum.splits dest: add_node_error)

lemma wf_edge:
  assumes wf: "wf_sched s" and ab: "a < uint_mod" "b < uint_mod"
  shows "wf_sched (fst (ccw_sched_edge s a b))"
proof (cases "\<exists>u. snd (ccw_sched_edge s a b) = Inr u")
  case True
  then have eq: "fst (ccw_sched_edge s a b) = add_edge_raw s a b"
    and r: "1 \<le> a" "1 \<le> b" "a \<le> length (s_nodes s)" "b \<le> length (s_nodes s)"
    by (auto simp: ccw_sched_edge_def split: if_splits)
  have same: "s_nodes (add_edge_raw s a b) = s_nodes s \<and> s_name (add_edge_raw s a b) = s_name s
      \<and> s_kernels (add_edge_raw s a b) = s_kernels s \<and> s_rules (add_edge_raw s a b) = s_rules s
      \<and> wf_manifest (add_edge_raw s a b) = wf_manifest s \<and> s_sealed (add_edge_raw s a b) = s_sealed s
      \<and> node_ok (add_edge_raw s a b) = node_ok s"
    by (rule only_edges_same [OF only_edges_add])
  have "wf_graph (add_edge_raw s a b)" if "length (s_nodes s) < uint_mod"
  proof -
    have g: "wf_graph s" using wf that by (simp add: wf_sched_def)
    then have ad: "adds_edges {(a, b)} s (add_edge_raw s a b)"
      using ab by (intro add_edge_raw_effect) (simp_all add: wf_graph_def)
    with g r same show ?thesis
      by (auto simp: wf_graph_def adds_edges_def edges_ok_def barriers_hold_def)
  qed
  with wf same show ?thesis unfolding eq wf_sched_def by simp
next
  case False
  with wf show ?thesis by (auto simp: ccw_sched_edge_def split: if_splits)
qed

lemma wf_seal: "wf_sched s \<Longrightarrow> wf_sched (fst (ccw_sched_seal s))"
  by (auto simp: ccw_sched_seal_def can_mutate_def Let_def wf_sched_def wf_manifest_def node_ok_def
      wf_graph_def edge_inv_def)

section \<open>The step relation\<close>

inductive sched_step :: "ccw_sched \<Rightarrow> ccw_sched \<Rightarrow> bool" where
  require_kernel: "sched_step s (fst (ccw_sched_require_kernel s name))"
| require_capability: "sched_step s (fst (ccw_sched_require_capability s cap prefer))"
| probe_capability: "sched_step s (fst (ccw_sched_probe_capability s cap prefer))"
| rewrite: "sched_step s (fst (ccw_sched_rewrite s pattern))"
| edge: "a < uint_mod \<Longrightarrow> b < uint_mod \<Longrightarrow> sched_step s (fst (ccw_sched_edge s a b))"
| barrier: "sched_step s (fst (ccw_sched_barrier s label))"
| seal: "sched_step s (fst (ccw_sched_seal s))"

inductive_cases sched_stepE: "sched_step s s'"

definition sched_created :: "ccw_sched \<Rightarrow> bool" where
  "sched_created s \<longleftrightarrow> (\<exists>fs name dir. ccw_sched_new fs name dir = Inr s)"

definition sched_reachable :: "ccw_sched \<Rightarrow> bool" where
  "sched_reachable s \<longleftrightarrow> (\<exists>s0. sched_created s0 \<and> sched_step\<^sup>*\<^sup>* s0 s)"

lemma wf_created: "sched_created s \<Longrightarrow> wf_sched s"
  using ccw_sched_new_result
  by (fastforce simp: sched_created_def wf_sched_def fresh_graph_def wf_graph_def edges_ok_def
      edge_inv_def barriers_hold_def)

lemma wf_require_kernel: "wf_sched s \<Longrightarrow> wf_sched (fst (ccw_sched_require_kernel s name))"
  by (cases "ccw_sched_require_kernel s name"; cases "snd (ccw_sched_require_kernel s name)")
     (auto dest: query_error require_kernel_effect intro: wf_node_added)

lemma wf_require_capability: "wf_sched s \<Longrightarrow> wf_sched (fst (ccw_sched_require_capability s cap prefer))"
  by (cases "ccw_sched_require_capability s cap prefer"; cases "snd (ccw_sched_require_capability s cap prefer)")
     (auto dest: query_error require_capability_effect intro: wf_node_added)

lemma wf_rewrite: "wf_sched s \<Longrightarrow> wf_sched (fst (ccw_sched_rewrite s pattern))"
  by (cases "ccw_sched_rewrite s pattern"; cases "snd (ccw_sched_rewrite s pattern)")
     (auto dest: query_error rewrite_effect intro: wf_node_added)

lemma wf_barrier: "wf_sched s \<Longrightarrow> wf_sched (fst (ccw_sched_barrier s label))"
  by (cases "ccw_sched_barrier s label"; cases "snd (ccw_sched_barrier s label)")
     (auto dest: query_error barrier_effect intro: wf_node_added)

lemma probe_same: "fst (ccw_sched_probe_capability s cap prefer) = fst (ccw_sched_require_capability s cap prefer)"
  by (simp add: ccw_sched_probe_capability_def split: prod.splits sum.splits)

interpretation sched_sm: state_machine sched_created sched_step wf_sched
proof
  show "wf_sched s" if "sched_created s" for s using that by (rule wf_created)
  show "wf_sched t" if "wf_sched s" "sched_step s t" for s t
    using that(2,1)
    by cases (simp_all add: wf_require_kernel wf_require_capability wf_rewrite wf_barrier wf_edge wf_seal probe_same)
qed

lemma sched_reachable_wf: "sched_reachable s \<Longrightarrow> wf_sched s"
  unfolding sched_reachable_def using sched_sm.reachable_inv by blast

section \<open>Sealing freezes\<close>

lemma sealed_fixed: "s_sealed s \<Longrightarrow> sched_step s s' \<Longrightarrow> s' = s"
  by (erule sched_stepE)
     (auto simp: probe_same ccw_sched_require_kernel_def ccw_sched_require_capability_def ccw_sched_rewrite_def
      ccw_sched_edge_def ccw_sched_barrier_def ccw_sched_seal_def add_node_def can_mutate_def Let_def
      split: option.splits)

lemma sealed_steps: "sched_step\<^sup>*\<^sup>* s s' \<Longrightarrow> s_sealed s \<Longrightarrow> s' = s"
  by (induction rule: rtranclp_induct) (auto dest: sealed_fixed)

end
