(* ===== verification/Sched_Acyclic.thy ===== *)
theory Sched_Acyclic
  imports Sched_Machine
begin

text \<open>
  The sealer's cycle check decides acyclicity: its array of in-degrees is a \<open>ready_picker\<close>, so the
  nodes it removes are those of \<open>topo\<close>. The bound on the number of edges keeps a degree from reaching
  the marker \<open>UINT_MAX\<close>.
\<close>

section \<open>Counting\<close>

definition from_to :: "edge list \<Rightarrow> nat \<Rightarrow> nat \<Rightarrow> nat" where
  "from_to es i j = length (filter (\<lambda>(a, b). a = i \<and> b = Suc j) es)"

definition waits_for :: "edge list \<Rightarrow> nat set \<Rightarrow> nat \<Rightarrow> nat" where
  "waits_for es R j = length (filter (\<lambda>(a, b). b = Suc j \<and> a - 1 \<notin> R) es)"

lemma waits_le: "waits_for es R j \<le> length es"
  by (simp add: waits_for_def)

lemma waits_zero: "waits_for es R j = 0 \<longleftrightarrow> (\<forall>(a, b) \<in> set es. b = Suc j \<longrightarrow> a - 1 \<in> R)"
  by (auto simp: waits_for_def filter_empty_conv)

lemma waits_insert:
  assumes "edges_ok n es" "i \<notin> R"
  shows "waits_for es R j = waits_for es (insert i R) j + from_to es (Suc i) j"
  using assms by (induction es) (auto simp: waits_for_def from_to_def edges_ok_def)

lemma count_in_eq:
  assumes "edges_ok n es" "length d = n" "\<forall>j < n. d ! j + length es < uint_mod"
  shows "length (count_in es d) = n \<and> (\<forall>j < n. count_in es d ! j = d ! j + waits_for es {} j)"
  using assms
proof (induction es d rule: count_in.induct)
  case (2 a b es d)
  let ?d = "d[b - 1 := (d ! (b - 1) + 1) mod uint_mod]"
  have b: "1 \<le> b" "b \<le> n" "b - 1 < n" and es: "edges_ok n es" using 2(2) by (auto simp: edges_ok_def)
  have mod: "(d ! (b - 1) + 1) mod uint_mod = d ! (b - 1) + 1" using 2(4) [rule_format, of "b - 1"] b by simp
  have "\<forall>j < n. ?d ! j + length es < uint_mod"
    using 2(3,4) b unfolding mod by (auto simp: nth_list_update)
  with 2(1) [OF es] 2(3) have IH: "length (count_in es ?d) = n"
    "\<forall>j < n. count_in es ?d ! j = ?d ! j + waits_for es {} j" by auto
  have "?d ! j + waits_for es {} j = d ! j + waits_for ((a, b) # es) {} j" if "j < n" for j
    using b 2(3) that unfolding mod by (auto simp: waits_for_def nth_list_update)
  with IH show ?case by simp
qed (simp add: waits_for_def)

lemma relax_eq:
  assumes "edges_ok n es" "length d = n"
    "\<forall>j < n. d ! j \<noteq> UINT_MAX \<longrightarrow> d ! j < UINT_MAX \<and> from_to es i j \<le> d ! j"
  shows "length (relax i es d) = n
    \<and> (\<forall>j < n. relax i es d ! j = (if d ! j = UINT_MAX then UINT_MAX else d ! j - from_to es i j))"
  using assms
proof (induction i es d rule: relax.induct)
  case (2 i a b es d)
  have b: "1 \<le> b" "b \<le> n" "b - 1 < n" and es: "edges_ok n es" using 2(2) by (auto simp: edges_ok_def)
  have tail: "from_to ((a, b) # es) i j = (if a = i \<and> b = Suc j then 1 else 0) + from_to es i j" for j
    by (simp add: from_to_def)
  show ?case
  proof (cases "a = i \<and> d ! (b - 1) \<noteq> UINT_MAX")
    case True
    let ?d = "d[b - 1 := (d ! (b - 1) + UINT_MAX) mod uint_mod]"
    have pos: "0 < d ! (b - 1)" "d ! (b - 1) < UINT_MAX"
      using 2(4) [rule_format, of "b - 1"] True b tail [of "b - 1"] by auto
    have dec: "(d ! (b - 1) + UINT_MAX) mod uint_mod = d ! (b - 1) - 1"
    proof -
      obtain x where x: "d ! (b - 1) = Suc x" using pos(1) gr0_implies_Suc by blast
      have "Suc x + UINT_MAX = x + uint_mod" by (simp add: UINT_MAX_def uint_mod_def)
      moreover have "(x + uint_mod) mod uint_mod = x" using pos(2) x by (simp add: UINT_MAX_def uint_mod_def)
      ultimately show ?thesis by (simp only: x diff_Suc_1)
    qed
    have "\<forall>j < n. ?d ! j \<noteq> UINT_MAX \<longrightarrow> ?d ! j < UINT_MAX \<and> from_to es i j \<le> ?d ! j"
    proof (intro allI impI)
      fix j assume j: "j < n"
      show "?d ! j < UINT_MAX \<and> from_to es i j \<le> ?d ! j" if "?d ! j \<noteq> UINT_MAX"
        using that 2(3) 2(4) [rule_format, of j] j b pos True tail [of j] unfolding dec by (cases "b = Suc j") (auto simp: nth_list_update)
    qed
    with 2(1) [OF es] True 2(3) have IH: "length (relax i es ?d) = n"
      "\<forall>j < n. relax i es ?d ! j = (if ?d ! j = UINT_MAX then UINT_MAX else ?d ! j - from_to es i j)" by auto
    have "(if ?d ! j = UINT_MAX then UINT_MAX else ?d ! j - from_to es i j)
        = (if d ! j = UINT_MAX then UINT_MAX else d ! j - from_to ((a, b) # es) i j)" if "j < n" for j
      using 2(3) b pos True that unfolding dec tail by (cases "b = Suc j") (auto simp: nth_list_update)
    with IH True show ?thesis by simp
  next
    case False
    then have step: "relax i ((a, b) # es) d = relax i es d" by auto
    have "\<forall>j < n. d ! j \<noteq> UINT_MAX \<longrightarrow> d ! j < UINT_MAX \<and> from_to es i j \<le> d ! j"
      using 2(4) tail by (auto dest: spec)
    with 2(1) [OF es] False 2(3) have IH: "length (relax i es d) = n"
      "\<forall>j < n. relax i es d ! j = (if d ! j = UINT_MAX then UINT_MAX else d ! j - from_to es i j)" by auto
    have "from_to ((a, b) # es) i j = from_to es i j" if "d ! j \<noteq> UINT_MAX" for j
      using False that tail [of j] by auto
    with IH show ?thesis unfolding step by simp
  qed
qed (simp add: from_to_def)

section \<open>The selection loop of the sealer\<close>

definition gone :: "nat list \<Rightarrow> nat set" where
  "gone d = {i. i < length d \<and> d ! i = UINT_MAX}"

definition degrees_ok :: "nat \<Rightarrow> edge list \<Rightarrow> nat list \<Rightarrow> bool" where
  "degrees_ok n es d \<longleftrightarrow> edges_ok n es \<and> length es < UINT_MAX \<and> length d = n
     \<and> (\<forall>j < n. d ! j \<noteq> UINT_MAX \<longrightarrow> d ! j = waits_for es (gone d) j)"

lemma pick_find: "pick k xs = find (\<lambda>i. xs ! (i - k) = 0) [k..<k + length xs]"
proof (induction xs arbitrary: k)
  case (Cons x xs)
  have "find (\<lambda>i. (x # xs) ! (i - k) = 0) [Suc k..<Suc k + length xs]
      = find (\<lambda>i. xs ! (i - Suc k) = 0) [Suc k..<Suc k + length xs]"
    by (rule find_cong) (auto simp: nth_Cons' )
  with Cons show ?case by (simp add: upt_conv_Cons del: upt_Suc)
qed simp

lemma degree_ready:
  assumes "degrees_ok n es d" "i < n"
  shows "d ! i = 0 \<longleftrightarrow> ready es (gone d) i"
proof (cases "d ! i = UINT_MAX")
  case True
  then have "i \<in> gone d" using assms by (simp add: gone_def degrees_ok_def)
  with True show ?thesis by (simp add: ready_def UINT_MAX_def)
next
  case False
  then have "i \<notin> gone d" "d ! i = waits_for es (gone d) i" using assms by (auto simp: gone_def degrees_ok_def)
  then show ?thesis by (simp add: ready_def waits_zero)
qed

lemma mark_degrees:
  assumes ok: "degrees_ok n es d" and r: "ready es (gone d) i" and i: "i < n"
  shows "degrees_ok n es (relax (Suc i) es (d[i := UINT_MAX]))
    \<and> gone (relax (Suc i) es (d[i := UINT_MAX])) = insert i (gone d)"
proof -
  let ?d = "d[i := UINT_MAX]"
  have n: "length d = n" and es: "edges_ok n es" and len: "length es < UINT_MAX"
    and deg: "\<And>j. j < n \<Longrightarrow> d ! j \<noteq> UINT_MAX \<Longrightarrow> d ! j = waits_for es (gone d) j"
    using ok by (auto simp: degrees_ok_def)
  have ni: "i \<notin> gone d" using r by (simp add: ready_def)
  have w: "waits_for es (gone d) j = waits_for es (insert i (gone d)) j + from_to es (Suc i) j" for j
    by (rule waits_insert [OF es ni])
  have bound: "waits_for es R j < UINT_MAX" for R j using waits_le [of es R j] len by simp
  have "\<forall>j < n. ?d ! j \<noteq> UINT_MAX \<longrightarrow> ?d ! j < UINT_MAX \<and> from_to es (Suc i) j \<le> ?d ! j"
  proof (intro allI impI)
    fix j assume j: "j < n" "?d ! j \<noteq> UINT_MAX"
    then have "j \<noteq> i" using n by auto
    with j have "d ! j \<noteq> UINT_MAX" by simp
    note jd = \<open>j \<noteq> i\<close> this
    with jd deg [of j] w [of j] bound [of "gone d" j] j show "?d ! j < UINT_MAX \<and> from_to es (Suc i) j \<le> ?d ! j" by simp
  qed
  with relax_eq [OF es, of ?d "Suc i"] n have res: "length (relax (Suc i) es ?d) = n"
    "\<And>j. j < n \<Longrightarrow> relax (Suc i) es ?d ! j = (if ?d ! j = UINT_MAX then UINT_MAX else ?d ! j - from_to es (Suc i) j)"
    by auto
  have val: "relax (Suc i) es ?d ! j = (if j = i \<or> d ! j = UINT_MAX then UINT_MAX else waits_for es (insert i (gone d)) j)"
    if "j < n" for j
    using res(2) [OF that] deg [OF that] w [of j] n that by (cases "j = i") auto
  have g: "gone (relax (Suc i) es ?d) = insert i (gone d)"
    using res(1) n i val bound by (auto simp: gone_def less_imp_neq) (metis less_irrefl)
  show ?thesis
    unfolding degrees_ok_def g using es len res(1) val by auto
qed

interpretation sealer: ready_picker n es "pick 0" "\<lambda>i d. relax (Suc i) es (d[i := UINT_MAX])" gone "degrees_ok n es"
  for n es
proof
  show "pick 0 d = find (ready es (gone d)) [0..<n]" if "degrees_ok n es d" for d
    using that degree_ready [OF that] by (subst pick_find) (auto simp: degrees_ok_def intro!: find_cong)
qed (simp_all add: mark_degrees)

lemma peel_picks:
  "peel k es d seen = seen + length (picks (pick 0) (\<lambda>i d. relax (Suc i) es (d[i := UINT_MAX])) k d)"
  by (induction k es d seen rule: peel.induct) (auto split: option.splits)

lemma peel_topo:
  assumes es: "edges_ok n es" and len: "length es < UINT_MAX"
  shows "peel n es (count_in es (replicate n 0)) 0 = length (topo n n es {})"
proof -
  let ?d = "count_in es (replicate n 0)"
  have "\<forall>j < n. replicate n 0 ! j + length es < uint_mod" using len by (simp add: UINT_MAX_def uint_mod_def)
  with count_in_eq [OF es, of "replicate n 0"] have d: "length ?d = n" "\<forall>j < n. ?d ! j = waits_for es {} j" by auto
  have "?d ! j \<noteq> UINT_MAX" if "j < n" for j using d that waits_le [of es "{}" j] len by auto
  then have g: "gone ?d = {}" using d(1) by (auto simp: gone_def)
  then have "degrees_ok n es ?d" using es len d by (simp add: degrees_ok_def)
  from sealer.picks_topo [OF this] g show ?thesis by (simp add: peel_picks)
qed

lemma acyclic_check_iff:
  assumes "wf_graph s" "length (s_edges s) < UINT_MAX"
  shows "acyclic_check s \<longleftrightarrow> acyclic (set (s_edges s))"
  using assms peel_topo [of "length (s_nodes s)" "s_edges s"] topo_complete_iff [of "length (s_nodes s)" "s_edges s"]
  by (simp add: acyclic_check_def wf_graph_def)

end
