(* ===== verification/Sched_Text.thy ===== *)
theory Sched_Text
  imports Sched_Plan
begin

text \<open>
  Reading a sealed plan back (\<open>parse_plan_text\<close> of \<open>sched/sched.c\<close>). The text is cut into lines and
  words by \<open>strtok_r\<close>; a result is the error or the node and edge arrays.
\<close>

section \<open>One record\<close>

text \<open>The words of a \<open>node\<close> record after \<open>node\<close>; \<open>nn\<close> nodes have been read.\<close>

definition parse_node_record :: "nat \<Rightarrow> string list \<Rightarrow> sched_error + node" where
  "parse_node_record nn ws =
     (case ws of
        id_text # kind_text # name # members \<Rightarrow>
          (case (scan_u id_text, scan_u kind_text) of
             (Some i, Some kind) \<Rightarrow>
               if i \<noteq> nn + 1 \<or> (kind \<noteq> NODE_KERNEL \<and> kind \<noteq> NODE_REWRITE \<and> kind \<noteq> NODE_BARRIER)
                  \<or> \<not> clean_scalar name
               then Inl (sfail 8 ''malformed plan node'')
               else if \<exists>m \<in> set members. \<not> clean_scalar m
               then Inl (sfail 8 ''malformed plan member'')
               else if (kind = NODE_REWRITE \<and> members = []) \<or> (kind = NODE_BARRIER \<and> members \<noteq> [])
               then Inl (sfail 8 ''invalid plan node members'')
               else Inr \<lparr>nd_id = i, nd_kind = kind, nd_name = name, nd_members = members\<rparr>
           | _ \<Rightarrow> Inl (sfail 8 ''malformed plan node''))
      | _ \<Rightarrow> Inl (sfail 8 ''malformed plan node''))"

definition parse_edge_record :: "string list \<Rightarrow> sched_error + edge" where
  "parse_edge_record ws =
     (case ws of
        [from_text, to_text] \<Rightarrow>
          (case (scan_u from_text, scan_u to_text) of
             (Some a, Some b) \<Rightarrow>
               if a = 0 \<or> b = 0 then Inl (sfail 8 ''malformed plan edge'') else Inr (a, b)
           | _ \<Rightarrow> Inl (sfail 8 ''malformed plan edge''))
      | _ \<Rightarrow> Inl (sfail 8 ''malformed plan edge''))"

section \<open>The loop over records\<close>

fun parse_records ::
  "node list \<Rightarrow> edge list \<Rightarrow> string list \<Rightarrow> sched_error + (node list \<times> edge list)" where
  "parse_records nodes edges [] = Inr (nodes, edges)"
| "parse_records nodes edges (line # lines) =
     (case strtok (CHR '' '') line of
        [] \<Rightarrow> parse_records nodes edges lines
      | item # ws \<Rightarrow>
          if item = ''name'' then
            (if length ws \<noteq> 1 then Inl (sfail 8 ''malformed plan name'')
             else parse_records nodes edges lines)
          else if item = ''node'' then
            (case parse_node_record (length nodes) ws of
               Inl e \<Rightarrow> Inl e
             | Inr n \<Rightarrow> parse_records (nodes @ [n]) edges lines)
          else if item = ''edge'' then
            (case parse_edge_record ws of
               Inl e \<Rightarrow> Inl e
             | Inr ed \<Rightarrow> parse_records nodes (edges @ [ed]) lines)
          else Inl (sfail 8 ''unknown plan record''))"

definition parse_plan_text :: "ccw_plan \<Rightarrow> sched_error + (node list \<times> edge list)" where
  "parse_plan_text text =
     (case strtok newline text of
        [] \<Rightarrow> Inl (sfail 8 ''invalid plan header'')
      | header # lines \<Rightarrow>
          if header \<noteq> ''CCW-SCHED-PLAN 1'' then Inl (sfail 8 ''invalid plan header'')
          else
            (case parse_records [] [] lines of
               Inl e \<Rightarrow> Inl e
             | Inr (nodes, edges) \<Rightarrow>
                 if \<exists>e \<in> set edges. fst e > length nodes \<or> snd e > length nodes
                 then Inl (sfail 8 ''plan edge references an unknown node'')
                 else if nodes = [] then Inl (sfail 8 ''plan contains no nodes'')
                 else Inr (nodes, edges)))"

end
