(* ===== verification/Sched_Exec.thy ===== *)
theory Sched_Exec
  imports Sched_Text IR_Types
begin

text \<open>
  Executing a sealed plan (\<open>ccw_plan_apply_rewrites\<close>, \<open>ccw_plan_apply_kernels\<close> of \<open>sched/sched.c\<close>).
  The engines a node calls into, Oeuph and the kernel executor, are arguments: functions on the
  state \<open>'w\<close> they change (the IR module, the executor). An out-parameter \<open>char **error\<close> is a
  \<open>string option\<close> that is passed in and out.
\<close>

section \<open>Paths\<close>

definition slash_after :: "string \<Rightarrow> string" where
  "slash_after s = (if s \<noteq> [] \<and> last s = CHR ''/'' then [] else ''/'')"

definition path_join3 :: "string \<Rightarrow> string \<Rightarrow> string \<Rightarrow> string" where
  "path_join3 a b c = (let out = a @ slash_after a @ b in out @ slash_after out @ c)"

text \<open>\<open>while (n > 1 && parent[n - 1] == '/') --n\<close>, on the reversed path.\<close>

fun drop_slashes :: "string \<Rightarrow> string" where
  "drop_slashes (c # d # s) = (if c = CHR ''/'' then drop_slashes (d # s) else c # d # s)"
| "drop_slashes s = s"

definition manifest_parent :: "string \<Rightarrow> string option" where
  "manifest_parent dir =
     (if dir = [] then None
      else
        (let r = drop_slashes (rev dir);
             up = dropWhile (\<lambda>c. c \<noteq> CHR ''/'') r
         in Some (if up = [] then ''.''
                  else if length up = 1 then ''/''
                  else rev (tl up))))"

definition ruleset_file_path :: "fs \<Rightarrow> string \<Rightarrow> string \<Rightarrow> string option" where
  "ruleset_file_path fs dir path =
     (if path = [] then None
      else if hd path = CHR ''/'' then
        (let candidate = path_join3 [] path ''rules.scm''
         in if fs candidate \<noteq> None then Some candidate else None)
      else
        (case manifest_parent dir of
           None \<Rightarrow> None
         | Some parent \<Rightarrow>
             (let candidate = path_join3 parent path ''rules.scm''
              in if fs candidate \<noteq> None then Some candidate
                 else
                   (let rules = path_join3 (path_join3 parent ''rewrite-salvo'' path) [] ''rules.scm''
                    in if fs rules \<noteq> None then Some rules else None))))"

definition find_node_rule :: "ccw_sched \<Rightarrow> string \<Rightarrow> nat option" where
  "find_node_rule s name = s_ruleset_by_name s name"

section \<open>The dependency-ordered loop\<close>

text \<open>A node is ready when no edge into it comes from a node that is not done.\<close>

definition node_ready :: "edge list \<Rightarrow> bool list \<Rightarrow> nat \<Rightarrow> bool" where
  "node_ready edges done i = (\<forall>e \<in> set edges. \<not> (snd e = i \<and> \<not> done ! (fst e - 1)))"

fun select_ready :: "nat \<Rightarrow> node list \<Rightarrow> edge list \<Rightarrow> bool list \<Rightarrow> nat option" where
  "select_ready i [] edges done = None"
| "select_ready i (n # ns) edges done =
     (if \<not> done ! i \<and> node_ready edges done (nd_id n) then Some i
      else select_ready (Suc i) ns edges done)"

text \<open>
  The loop \<open>for (completed = 0; completed < nn; ++completed)\<close> with \<open>k\<close> rounds to go. \<open>body\<close> is what
  the loop does with the selected node, an error ends the run.
\<close>

fun run_plan ::
  "(node \<Rightarrow> 'w \<Rightarrow> 'w \<times> sched_error option) \<Rightarrow> nat \<Rightarrow> node list \<Rightarrow> edge list \<Rightarrow> bool list \<Rightarrow> 'w
     \<Rightarrow> 'w \<times> sched_error option" where
  "run_plan body 0 nodes edges done w = (w, None)"
| "run_plan body (Suc k) nodes edges done w =
     (case select_ready 0 nodes edges done of
        None \<Rightarrow> (w, Some (sfail 6 ''plan contains a cycle''))
      | Some i \<Rightarrow>
          (case body (nodes ! i) w of
             (w', Some e) \<Rightarrow> (w', Some e)
           | (w', None) \<Rightarrow> run_plan body k nodes edges (done[i := True]) w'))"

section \<open>Rewrite nodes\<close>

text \<open>
  The Oeuph calls: \<open>load path\<close> gives the ruleset (or NULL) and the error message, \<open>rname\<close> its name,
  \<open>run w rs err\<close> the new state, the statistics, the status and the message.
\<close>

definition apply_ruleset ::
  "(string \<Rightarrow> 'rs option \<times> string option) \<Rightarrow> ('rs \<Rightarrow> string)
     \<Rightarrow> ('w \<Rightarrow> 'rs \<Rightarrow> string option \<Rightarrow> 'w \<times> 'st \<times> ccw_status \<times> string option)
     \<Rightarrow> fs \<Rightarrow> ccw_sched \<Rightarrow> string \<Rightarrow> string \<Rightarrow> 'w \<times> 'st list \<Rightarrow> ('w \<times> 'st list) \<times> sched_error option" where
  "apply_ruleset load rname run fs manifest dir member w =
     (case find_node_rule manifest member of
        None \<Rightarrow> (w, Some (sfail 8 ''plan references a ruleset absent from Stdrewrite.yaml''))
      | Some ri \<Rightarrow>
          (case ruleset_file_path fs dir (r_path (s_rules manifest ! ri)) of
             None \<Rightarrow> (w, Some (sfail 2 ''ruleset path from Stdrewrite.yaml is unreadable''))
           | Some path \<Rightarrow>
               (case load path of
                  (None, Some err) \<Rightarrow>
                    (w, Some (sfail 2 (''cannot load ruleset '' @ member @ '': '' @ err)))
                | (None, None) \<Rightarrow> (w, Some (sfail 2 ''cannot load selected ruleset''))
                | (Some rs, err) \<Rightarrow>
                    if rname rs \<noteq> member
                    then (w, Some (sfail 8 ''ruleset name disagrees with Stdrewrite.yaml''))
                    else
                      (case run (fst w) rs err of
                         (w', st, status, err') \<Rightarrow>
                           if status \<noteq> CCW_OK
                           then ((w', snd w),
                                 Some (sfail (status_code status)
                                   (case err' of Some m \<Rightarrow> m | None \<Rightarrow> ''Oeuph rewrite failed'')))
                           else ((w', snd w @ [st]), None)))))"

text \<open>A loop over members that stops at the first error.\<close>

fun each_member ::
  "(string \<Rightarrow> 'a \<Rightarrow> 'a \<times> sched_error option) \<Rightarrow> string list \<Rightarrow> 'a \<Rightarrow> 'a \<times> sched_error option" where
  "each_member f [] w = (w, None)"
| "each_member f (m # ms) w =
     (case f m w of
        (w', Some e) \<Rightarrow> (w', Some e)
      | (w', None) \<Rightarrow> each_member f ms w')"

definition rewrite_body ::
  "(string \<Rightarrow> 'rs option \<times> string option) \<Rightarrow> ('rs \<Rightarrow> string)
     \<Rightarrow> ('w \<Rightarrow> 'rs \<Rightarrow> string option \<Rightarrow> 'w \<times> 'st \<times> ccw_status \<times> string option)
     \<Rightarrow> fs \<Rightarrow> ccw_sched \<Rightarrow> string \<Rightarrow> node \<Rightarrow> 'w \<times> 'st list \<Rightarrow> ('w \<times> 'st list) \<times> sched_error option" where
  "rewrite_body load rname run fs manifest dir n w =
     (if nd_kind n = NODE_REWRITE
      then each_member (apply_ruleset load rname run fs manifest dir) (nd_members n) w
      else (w, None))"

text \<open>
  The result: the new state, the statistics of the rulesets that ran (written to the caller's array
  when there is one), the value left in \<open>*stats_count\<close>, and success or the error. \<open>stats\<close> is the
  capacity of the array, \<open>None\<close> for a NULL array (whose capacity must then be 0).
\<close>

definition ccw_plan_apply_rewrites ::
  "(string \<Rightarrow> 'rs option \<times> string option) \<Rightarrow> ('rs \<Rightarrow> string)
     \<Rightarrow> ('w \<Rightarrow> 'rs \<Rightarrow> string option \<Rightarrow> 'w \<times> 'st \<times> ccw_status \<times> string option)
     \<Rightarrow> fs \<Rightarrow> ccw_plan \<Rightarrow> string \<Rightarrow> nat option \<Rightarrow> 'w \<Rightarrow> 'w \<times> 'st list \<times> nat \<times> (sched_error + unit)" where
  "ccw_plan_apply_rewrites load rname run fs plan dir stats w =
     (case parse_plan_text plan of
        Inl e \<Rightarrow> (w, [], 0, Inl e)
      | Inr (nodes, edges) \<Rightarrow>
          (case ccw_sched_new fs ''rewrite-execution'' (Some dir) of
             Inl e \<Rightarrow> (w, [], 0, Inl e)
           | Inr manifest \<Rightarrow>
               (let required = sum_list (map (\<lambda>n. if nd_kind n = NODE_REWRITE
                                                    then length (nd_members n) else 0) nodes)
                in if (case stats of None \<Rightarrow> False | Some capacity \<Rightarrow> required > capacity)
                   then (w, [], required, Inl (sfail 1 ''rewrite stats buffer is too small''))
                   else
                     (case run_plan (rewrite_body load rname run fs manifest dir) (length nodes) nodes edges
                             (replicate (length nodes) False) (w, []) of
                        ((w', sts), Some e) \<Rightarrow> (w', sts, required, Inl e)
                      | ((w', sts), None) \<Rightarrow> (w', sts, length sts, Inr ())))))"

section \<open>Kernel nodes\<close>

text \<open>
  The executor calls: \<open>kload w path\<close> gives the kernel id (negative on failure) and the message,
  \<open>kapply w kid capability err\<close> the status and the message, \<open>kunload w kid\<close> the new state.
\<close>

definition apply_capability ::
  "('w \<Rightarrow> int \<Rightarrow> string \<Rightarrow> string option \<Rightarrow> 'w \<times> ccw_status \<times> string option)
     \<Rightarrow> int \<Rightarrow> string \<Rightarrow> 'w \<times> string option \<Rightarrow> ('w \<times> string option) \<times> sched_error option" where
  "apply_capability kapply kid member w =
     (case kapply (fst w) kid member (snd w) of
        (w', st, err) \<Rightarrow>
          if st \<noteq> CCW_OK
          then ((w', err), Some (sfail (status_code st)
                  (case err of Some m \<Rightarrow> m | None \<Rightarrow> ''scheduled kernel failed'')))
          else ((w', err), None))"

definition kernel_body ::
  "('w \<Rightarrow> string \<Rightarrow> 'w \<times> int \<times> string option)
     \<Rightarrow> ('w \<Rightarrow> int \<Rightarrow> string \<Rightarrow> string option \<Rightarrow> 'w \<times> ccw_status \<times> string option)
     \<Rightarrow> ('w \<Rightarrow> int \<Rightarrow> 'w) \<Rightarrow> ccw_sched \<Rightarrow> string \<Rightarrow> node \<Rightarrow> 'w \<Rightarrow> 'w \<times> sched_error option" where
  "kernel_body kload kapply kunload manifest dir n w =
     (if nd_kind n \<noteq> NODE_KERNEL then (w, None)
      else
        (case s_kernel_by_name manifest (nd_name n) of
           None \<Rightarrow> (w, Some (sfail 8 ''plan references a kernel absent from Kernel.yaml''))
         | Some ki \<Rightarrow>
             (case manifest_parent dir of
                None \<Rightarrow> (w, Some (sfail 2 ''kernel path from Kernel.yaml is unreadable''))
              | Some root \<Rightarrow>
                  (case kload w (path_join3 root [] (k_path (s_kernels manifest ! ki))) of
                     (w1, kid, err) \<Rightarrow>
                       if kid < 0
                       then (w1, Some (sfail kid (case err of Some m \<Rightarrow> m
                                                   | None \<Rightarrow> ''failed to load scheduled kernel'')))
                       else
                         (case each_member (apply_capability kapply kid) (nd_members n) (w1, err) of
                            ((w2, _), r) \<Rightarrow> (kunload w2 kid, r))))))"

definition ccw_plan_apply_kernels ::
  "('w \<Rightarrow> string \<Rightarrow> 'w \<times> int \<times> string option)
     \<Rightarrow> ('w \<Rightarrow> int \<Rightarrow> string \<Rightarrow> string option \<Rightarrow> 'w \<times> ccw_status \<times> string option)
     \<Rightarrow> ('w \<Rightarrow> int \<Rightarrow> 'w) \<Rightarrow> fs \<Rightarrow> ccw_plan \<Rightarrow> string \<Rightarrow> 'w \<Rightarrow> 'w \<times> (sched_error + unit)" where
  "ccw_plan_apply_kernels kload kapply kunload fs plan dir w =
     (case parse_plan_text plan of
        Inl e \<Rightarrow> (w, Inl e)
      | Inr (nodes, edges) \<Rightarrow>
          (case ccw_sched_new fs ''kernel-execution'' (Some dir) of
             Inl e \<Rightarrow> (w, Inl e)
           | Inr manifest \<Rightarrow>
               (case run_plan (kernel_body kload kapply kunload manifest dir) (length nodes) nodes edges
                       (replicate (length nodes) False) w of
                  (w', Some e) \<Rightarrow> (w', Inl e)
                | (w', None) \<Rightarrow> (w', Inr ()))))"

end
