(* ===== verification/Sched_Run.thy ===== *)
theory Sched_Run
  imports Sched_Exec Sched_Graph
begin

text \<open>
  The executor's loop is the second \<open>ready_picker\<close>: it runs the nodes of \<open>topo\<close> in order and stops at
  the first error, or reports a cycle when it is stuck.
\<close>

section \<open>The reference run\<close>

fun run_seq ::
  "(node \<Rightarrow> 'w \<Rightarrow> 'w \<times> sched_error option) \<Rightarrow> node list \<Rightarrow> nat list \<Rightarrow> 'w \<Rightarrow> 'w \<times> sched_error option" where
  "run_seq body nodes [] w = (w, None)"
| "run_seq body nodes (i # order) w =
     (case body (nodes ! i) w of
        (w', Some e) \<Rightarrow> (w', Some e)
      | (w', None) \<Rightarrow> run_seq body nodes order w')"

section \<open>The selection loop of the executor\<close>

definition executed :: "bool list \<Rightarrow> nat set" where
  "executed done = {i. i < length done \<and> done ! i}"

definition plan_ids :: "node list \<Rightarrow> bool" where
  "plan_ids nodes \<longleftrightarrow> (\<forall>i < length nodes. nd_id (nodes ! i) = Suc i)"

definition run_ok :: "node list \<Rightarrow> edge list \<Rightarrow> bool list \<Rightarrow> bool" where
  "run_ok nodes es done \<longleftrightarrow> plan_ids nodes \<and> edges_ok (length nodes) es \<and> length done = length nodes"

lemma select_ready_find:
  "select_ready k ns es done =
     find (\<lambda>i. \<not> done ! i \<and> node_ready es done (nd_id (ns ! (i - k)))) [k..<k + length ns]"
proof (induction ns arbitrary: k)
  case (Cons n ns)
  have "find (\<lambda>i. \<not> done ! i \<and> node_ready es done (nd_id ((n # ns) ! (i - k)))) [Suc k..<Suc k + length ns]
      = find (\<lambda>i. \<not> done ! i \<and> node_ready es done (nd_id (ns ! (i - Suc k)))) [Suc k..<Suc k + length ns]"
    by (rule find_cong) (auto simp: nth_Cons')
  with Cons show ?case by (simp add: upt_conv_Cons del: upt_Suc)
qed simp

lemma node_ready_iff:
  assumes "run_ok nodes es done" "i < length nodes"
  shows "(\<not> done ! i \<and> node_ready es done (nd_id (nodes ! i))) \<longleftrightarrow> ready es (executed done) i"
proof -
  have id: "nd_id (nodes ! i) = Suc i" and len: "length done = length nodes" and es: "edges_ok (length nodes) es"
    using assms by (auto simp: run_ok_def plan_ids_def)
  have "(\<not> (b = Suc i \<and> \<not> done ! (a - 1))) \<longleftrightarrow> (b = Suc i \<longrightarrow> a - 1 \<in> executed done)"
    if "(a, b) \<in> set es" for a b
  proof -
    have "a - 1 < length nodes" using es that by (auto simp: edges_ok_def)
    with len show ?thesis by (auto simp: executed_def)
  qed
  then have "node_ready es done (Suc i) \<longleftrightarrow> (\<forall>(a, b) \<in> set es. b = Suc i \<longrightarrow> a - 1 \<in> executed done)"
    unfolding node_ready_def by (intro ball_cong) auto
  with id len assms(2) show ?thesis by (simp add: ready_def executed_def)
qed

interpretation executor: ready_picker "length nodes" es "select_ready 0 nodes es" "\<lambda>i done. done[i := True]"
    executed "run_ok nodes es"
  for nodes es
proof
  show "select_ready 0 nodes es d = find (ready es (executed d)) [0..<length nodes]" if "run_ok nodes es d" for d
    unfolding select_ready_find using node_ready_iff [OF that] by (intro find_cong) simp_all
  show "executed (d[i := True]) = insert i (executed d)" if "run_ok nodes es d" "i < length nodes" for d i
    using that by (auto simp: executed_def run_ok_def nth_list_update)
qed (simp add: run_ok_def)

lemma run_plan_picks:
  "run_plan body k nodes es done w =
     (let order = picks (select_ready 0 nodes es) (\<lambda>i done. done[i := True]) k done
      in case run_seq body nodes order w of
           (w', Some e) \<Rightarrow> (w', Some e)
         | (w', None) \<Rightarrow> (w', if length order < k then Some (sfail 6 ''plan contains a cycle'') else None))"
  by (induction body k nodes es "done" w rule: run_plan.induct)
     (auto simp: Let_def split: option.splits prod.splits)

section \<open>What a parsed plan guarantees\<close>

lemma parse_node_id: "parse_node_record nn ws = Inr n \<Longrightarrow> nd_id n = Suc nn"
proof -
  assume r: "parse_node_record nn ws = Inr n"
  then obtain a b c ms where ws: "ws = a # b # c # ms" by (auto simp: parse_node_record_def split: list.splits)
  from r obtain i k where "scan_u a = Some i" "scan_u b = Some k"
    by (auto simp: ws parse_node_record_def split: option.splits)
  with r show ?thesis by (auto simp: ws parse_node_record_def split: if_splits)
qed

lemma parse_edge_pos: "parse_edge_record ws = Inr e \<Longrightarrow> 1 \<le> fst e \<and> 1 \<le> snd e"
proof -
  assume r: "parse_edge_record ws = Inr e"
  obtain a b where ws: "ws = [a, b]"
  proof (cases ws)
    case (Cons a xs)
    with r that show ?thesis
      by (cases xs; cases "tl xs") (simp_all add: parse_edge_record_def)
  qed (use r in \<open>simp add: parse_edge_record_def\<close>)
  from r obtain i k where "scan_u a = Some i" "scan_u b = Some k"
    by (cases "scan_u a"; cases "scan_u b") (simp_all add: ws parse_edge_record_def)
  with r show ?thesis by (auto simp: ws parse_edge_record_def split: if_splits)
qed

lemma parse_records_ok:
  assumes "parse_records nodes es ls = Inr (nodes', es')" "plan_ids nodes" "\<forall>e \<in> set es. 1 \<le> fst e \<and> 1 \<le> snd e"
  shows "plan_ids nodes' \<and> (\<forall>e \<in> set es'. 1 \<le> fst e \<and> 1 \<le> snd e)"
  using assms
proof (induction nodes es ls rule: parse_records.induct)
  case (2 nodes es line ls)
  show ?case
  proof (cases "strtok (CHR '' '') line")
    case Nil
    from "2.IH"(1) [OF Nil] "2.prems" Nil show ?thesis by simp
  next
    case (Cons item ws)
    have ids: "plan_ids (nodes @ [n])" if "parse_node_record (length nodes) ws = Inr n" for n
      using 2(6) parse_node_id [OF that] by (auto simp: plan_ids_def nth_append less_Suc_eq)
    consider "item = ''name''" | "item = ''node''" | "item = ''edge''" | "item \<notin> {''name'', ''node'', ''edge''}" by blast
    then show ?thesis
    proof cases
      case 1
      then have "length ws = 1" "parse_records nodes es ls = Inr (nodes', es')"
        using Cons "2.prems"(1) by (simp_all split: if_splits)
      with "2.IH"(2) [OF Cons 1] "2.prems" show ?thesis by simp
    next
      case i: 2
      then have ne: "item \<noteq> ''name''" by simp
      from i Cons "2.prems"(1) obtain n where n: "parse_node_record (length nodes) ws = Inr n"
        and r: "parse_records (nodes @ [n]) es ls = Inr (nodes', es')" by (simp split: sum.splits)
      show ?thesis by (rule "2.IH"(3) [OF Cons ne i n r ids [OF n] "2.prems"(3)])
    next
      case i: 3
      then have ne: "item \<noteq> ''name''" "item \<noteq> ''node''" by simp_all
      from i Cons "2.prems"(1) obtain e where e: "parse_edge_record ws = Inr e"
        and r: "parse_records nodes (es @ [e]) ls = Inr (nodes', es')" by (simp split: sum.splits)
      have "\<forall>e \<in> set (es @ [e]). 1 \<le> fst e \<and> 1 \<le> snd e" using "2.prems"(3) parse_edge_pos [OF e] by auto
      from "2.IH"(4) [OF Cons ne i e r "2.prems"(2) this] show ?thesis .
    qed (use Cons "2.prems"(1) in simp)
  qed
qed simp

lemma parsed_plan_ok:
  assumes "parse_plan_text plan = Inr (nodes, es)"
  shows "run_ok nodes es (replicate (length nodes) False) \<and> nodes \<noteq> []"
proof -
  obtain header ls where r: "parse_records [] [] ls = Inr (nodes, es)"
    and b: "\<forall>e \<in> set es. fst e \<le> length nodes \<and> snd e \<le> length nodes" and ne: "nodes \<noteq> []"
    using assms by (auto simp: parse_plan_text_def not_less split: list.splits if_splits sum.splits)
  from parse_records_ok [OF r] b ne show ?thesis
    by (auto simp: run_ok_def plan_ids_def edges_ok_def)
qed

text \<open>The run of a parsed plan: the nodes of \<open>topo\<close>, then the cycle error when some are left.\<close>

lemma run_parsed_plan:
  assumes "parse_plan_text plan = Inr (nodes, es)"
  defines "order \<equiv> topo (length nodes) (length nodes) es {}"
  shows "run_plan body (length nodes) nodes es (replicate (length nodes) False) w =
     (case run_seq body nodes order w of
        (w', Some e) \<Rightarrow> (w', Some e)
      | (w', None) \<Rightarrow> (w', if acyclic (set es) then None else Some (sfail 6 ''plan contains a cycle'')))"
proof -
  have ok: "run_ok nodes es (replicate (length nodes) False)" using parsed_plan_ok [OF assms(1)] by blast
  have ex: "executed (replicate (length nodes) False) = {}" by (auto simp: executed_def)
  have order: "picks (select_ready 0 nodes es) (\<lambda>i done. done[i := True]) (length nodes) (replicate (length nodes) False) = order"
    using executor.picks_topo [OF ok] ex by (simp add: order_def)
  have es: "edges_ok (length nodes) es" using ok by (simp add: run_ok_def)
  have "length order < length nodes \<longleftrightarrow> \<not> acyclic (set es)"
    using topo_complete_iff [OF es] topo_length [of "length nodes" "length nodes" es "{}"] unfolding order_def by linarith
  then show ?thesis unfolding run_plan_picks order Let_def by (simp split: prod.splits option.splits)
qed

lemma acyclic_run_topological:
  assumes "parse_plan_text plan = Inr (nodes, es)" "acyclic (set es)"
  shows "topological (length nodes) es (topo (length nodes) (length nodes) es {})"
proof -
  have "edges_ok (length nodes) es" using parsed_plan_ok [OF assms(1)] by (simp add: run_ok_def)
  with assms(2) show ?thesis by (simp add: topo_topological topo_complete_iff)
qed

end
