(* ===== verification/Sched_Check.thy ===== *)
theory Sched_Check
  imports Sched_Plan
begin

text \<open>
  Checking a plan file against the current manifests (\<open>ccw_plan_check\<close> of \<open>sched/sched.c\<close>). It reads
  the file by lines with \<open>fgets\<close> and \<open>sscanf\<close>, independently of \<open>parse_plan_text\<close>.
\<close>

section \<open>One line\<close>

lemma strchr_length: "strchr s c = Some r \<Longrightarrow> length r \<le> length s"
  by (induction s) (auto split: if_splits)

text \<open>
  The loop \<open>while (ok && *members)\<close>: scan one word, test it, go to the next space. The result is
  whether \<open>ok\<close> survives.
\<close>

function member_loop :: "(string \<Rightarrow> bool) \<Rightarrow> string \<Rightarrow> bool" where
  "member_loop known members =
     (case members of [] \<Rightarrow> True
      | c # rest \<Rightarrow>
          (case scan_s 511 members of None \<Rightarrow> True
           | Some w \<Rightarrow>
               known w \<and> (case strchr rest (CHR '' '') of None \<Rightarrow> True | Some members' \<Rightarrow> member_loop known members')))"
  by auto

termination
  by (relation "measure (length \<circ> snd)") (auto dest: strchr_length)

declare member_loop.simps [simp del]

text \<open>\<open>sscanf (line, "node %u %u %2047s", &id, &type, name) == 3\<close>: the type and the name.\<close>

definition scan_node :: "string \<Rightarrow> (nat \<times> string) option" where
  "scan_node line =
     (if \<not> starts_with ''node'' line then None
      else
        (let s1 = drop 4 line; s2 = scan_u_rest s1; s3 = scan_u_rest s2
         in case (scan_u s1, scan_u s2, scan_s 2047 s3) of
              (Some _, Some kind, Some name) \<Rightarrow> Some (kind, name)
            | _ \<Rightarrow> None))"

definition check_line :: "ccw_sched \<Rightarrow> string \<Rightarrow> bool" where
  "check_line s line =
     (case scan_node line of
        Some (kind, name) \<Rightarrow>
          (case strstr line name of None \<Rightarrow> False
           | Some at_name \<Rightarrow>
               (let members = drop (length name) at_name
                in if kind = NODE_KERNEL then
                     (case s_kernel_by_name s name of None \<Rightarrow> False
                      | Some i \<Rightarrow> member_loop (has_cap (s_kernels s ! i)) members)
                   else if kind = NODE_REWRITE then
                     member_loop (\<lambda>rule. s_ruleset_by_name s rule \<noteq> None) members
                   else kind = NODE_BARRIER))
      | None \<Rightarrow> scan_s 15 line \<in> {Some ''name'', Some ''edge''})"

section \<open>The file\<close>

text \<open>The final \<open>ok\<close> is the conjunction over the lines: a line can only clear it.\<close>

definition ccw_plan_check :: "fs \<Rightarrow> string \<Rightarrow> string option \<Rightarrow> sched_error + unit" where
  "ccw_plan_check fs path dir =
     (case fs path of None \<Rightarrow> Inl (sfail 7 ''cannot read plan'')
      | Some content \<Rightarrow>
          (case fgets_lines 4096 content of
             [] \<Rightarrow> Inl (sfail 8 ''invalid plan header'')
           | header # lines \<Rightarrow>
               if header \<noteq> ''CCW-SCHED-PLAN 1'' @ [newline] then Inl (sfail 8 ''invalid plan header'')
               else
                 (case ccw_sched_new fs ''check'' dir of
                    Inl e \<Rightarrow> Inl e
                  | Inr s \<Rightarrow>
                      if \<forall>line \<in> set lines. check_line s line then Inr ()
                      else Inl (sfail 8 ''plan is invalidated by manifest drift''))))"

section \<open>Laws\<close>

lemma strstr_after:
  assumes "\<And>p q. pre = p @ q \<Longrightarrow> q \<noteq> [] \<Longrightarrow> \<not> starts_with n (q @ n @ r)"
  shows "strstr (pre @ n @ r) n = Some (n @ r)"
  using assms
proof (induction pre)
  case Nil
  have "starts_with n (n @ r)" by (simp add: starts_with_def)
  then show ?case by (cases "n @ r") simp_all
next
  case (Cons c pre)
  have "\<not> starts_with n ((c # pre) @ n @ r)" using Cons.prems [of "[]" "c # pre"] by simp
  moreover have "strstr (pre @ n @ r) n = Some (n @ r)"
  proof (rule Cons.IH)
    show "\<not> starts_with n (q @ n @ r)" if "pre = p @ q" "q \<noteq> []" for p q
      using Cons.prems [of "c # p" q] that by simp
  qed
  ultimately show ?case by simp
qed

lemma strstr_word:
  assumes pre: "last pre = CHR '' ''" and n: "CHR '' '' \<notin> set n" and c: "c \<in> set n" "c \<notin> set pre"
  shows "strstr (pre @ n @ r) n = Some (n @ r)"
proof (rule strstr_after)
  fix p q assume pq: "pre = p @ q" "q \<noteq> []"
  have lq: "last q = CHR '' ''" using pq pre by simp
  show "\<not> starts_with n (q @ n @ r)"
  proof
    assume "starts_with n (q @ n @ r)"
    then have e: "take (length n) (q @ n @ r) = n" by (simp add: starts_with_def)
    show False
    proof (cases "length n \<le> length q")
      case True
      with e have "set n \<subseteq> set q" by (metis append_Nil2 diff_is_0_eq set_take_subset take_0 take_append)
      with c pq show False by auto
    next
      case False
      with e have "n = q @ take (length n - length q) (n @ r)" by simp
      then have "set q \<subseteq> set n" by (metis Un_upper1 set_append)
      moreover have "CHR '' '' \<in> set q" using last_in_set [OF pq(2)] lq by simp
      ultimately show False using n by blast
    qed
  qed
qed

lemma strchr_skip: "c \<notin> set x \<Longrightarrow> strchr (x @ s) c = strchr s c"
  by (induction x) auto

definition plain_word :: "string \<Rightarrow> bool" where
  "plain_word w \<longleftrightarrow> w \<noteq> [] \<and> (\<forall>c \<in> set w. \<not> isspace c)"

lemma plain_no_space: "plain_word w \<Longrightarrow> CHR '' '' \<notin> set w \<and> newline \<notin> set w"
  by (auto simp: plain_word_def isspace_def newline_def)

lemma isspace_space [simp]: "isspace (CHR '' '')" "isspace newline"
  by (simp_all add: isspace_def newline_def)

lemma member_loop_end: "member_loop known [newline]"
  by (simp add: member_loop.simps [of known "[newline]"] scan_s_def)

lemma member_loop_words:
  assumes "\<forall>w \<in> set ws. plain_word w \<and> length w \<le> 511"
  shows "member_loop known (concat (map (\<lambda>w. CHR '' '' # w) ws) @ [newline]) \<longleftrightarrow> (\<forall>w \<in> set ws. known w)"
  using assms
proof (induction ws)
  case Nil
  then show ?case by (simp add: member_loop_end)
next
  case (Cons w ws)
  let ?t = "concat (map (\<lambda>w. CHR '' '' # w) ws) @ [newline]"
  have w: "plain_word w" "length w \<le> 511" using Cons.prems by auto
  have hd: "isspace (hd ?t)" by (cases ws) simp_all
  have "scan_s 511 ([CHR '' ''] @ w @ ?t) = Some w"
    by (rule scan_s_word) (use w hd in \<open>auto simp: plain_word_def\<close>)
  then have sc: "scan_s 511 (CHR '' '' # w @ ?t) = Some w" by simp
  have st: "strchr (w @ ?t) (CHR '' '') = strchr ?t (CHR '' '')"
    using plain_no_space [OF w(1)] by (simp add: strchr_skip)
  have rest: "(case strchr ?t (CHR '' '') of None \<Rightarrow> True | Some m \<Rightarrow> member_loop known m) \<longleftrightarrow> (\<forall>w \<in> set ws. known w)"
  proof (cases ws)
    case Nil
    then show ?thesis by (simp add: newline_def)
  next
    case (Cons x xs)
    then have "strchr ?t (CHR '' '') = Some ?t" by simp
    then show ?thesis using Cons.IH Cons.prems by (simp only: option.case) simp
  qed
  have e: "concat (map (\<lambda>w. CHR '' '' # w) (w # ws)) @ [newline] = CHR '' '' # w @ ?t" by simp
  have "member_loop known (CHR '' '' # w @ ?t) \<longleftrightarrow>
      known w \<and> (case strchr ?t (CHR '' '') of None \<Rightarrow> True | Some m \<Rightarrow> member_loop known m)"
    by (subst member_loop.simps) (simp only: list.case sc option.case st)
  then show ?case unfolding e rest by simp
qed

end
