(* ===== verification/Sched_Round.thy ===== *)
theory Sched_Round
  imports Sched_Machine Sched_Acyclic Sched_Run Sched_Check
begin

text \<open>
  Sealed text and its two readers: \<open>parse_plan_text\<close> gives back the nodes and edges of the scheduler,
  and \<open>ccw_plan_check\<close> accepts it exactly when the manifests still provide what its nodes name. Both
  need words without spaces, which \<open>clean_scalar\<close> does not ensure.
\<close>

section \<open>Words\<close>

definition token :: "string \<Rightarrow> bool" where
  "token w \<longleftrightarrow> clean_scalar w \<and> CHR '' '' \<notin> set w"

definition plan_tokens :: "ccw_sched \<Rightarrow> bool" where
  "plan_tokens s \<longleftrightarrow> token (s_name s) \<and> (\<forall>n \<in> set (s_nodes s). token (nd_name n) \<and> (\<forall>m \<in> set (nd_members n). token m))"

lemma token_word: "token w \<Longrightarrow> w \<noteq> [] \<and> CHR '' '' \<notin> set w \<and> newline \<notin> set w \<and> clean_scalar w"
  by (simp add: token_def clean_scalar_def strchr_None)

definition words_line :: "string \<Rightarrow> string list \<Rightarrow> string" where
  "words_line w ws = w @ concat (map (\<lambda>x. CHR '' '' # x) ws)"

lemma node_line_words:
  "node_line n = words_line ''node'' ([dec_nat (nd_id n), dec_nat (nd_kind n), nd_name n] @ nd_members n)"
  by (simp add: node_line_def words_line_def)

lemma edge_line_words: "edge_line e = words_line ''edge'' [dec_nat (fst e), dec_nat (snd e)]"
  by (simp add: edge_line_def words_line_def)

lemma name_line_words: "''name '' @ n = words_line ''name'' [n]"
  by (simp add: words_line_def)

lemma dec_nat_word: "CHR '' '' \<notin> set (dec_nat n) \<and> newline \<notin> set (dec_nat n)"
  using dec_nat_not_space [of _ n] by (auto simp: isspace_def newline_def)

lemma words_tokens:
  assumes "w \<noteq> []" "CHR '' '' \<notin> set w" "\<forall>x \<in> set ws. x \<noteq> [] \<and> CHR '' '' \<notin> set x"
  shows "strtok (CHR '' '') (words_line w ws) = w # ws"
  unfolding words_line_def using assms by (intro strtok_words) auto

lemma words_no_newline:
  assumes "newline \<notin> set w" "\<forall>x \<in> set ws. newline \<notin> set x"
  shows "newline \<notin> set (words_line w ws)"
  using assms by (auto simp: words_line_def newline_def)

lemma literal_words:
  "newline \<notin> set ''node''" "newline \<notin> set ''edge''" "newline \<notin> set ''name''"
  "newline \<notin> set ''CCW-SCHED-PLAN 1''"
  by (simp_all add: newline_def)

section \<open>Reading the text back\<close>

lemma plan_lines_clean:
  assumes "plan_tokens s"
  shows "\<forall>l \<in> set (plan_lines s). newline \<notin> set l \<and> l \<noteq> []"
proof -
  have "newline \<notin> set (node_line n)" if "n \<in> set (s_nodes s)" for n
    unfolding node_line_words using assms that token_word dec_nat_word literal_words
    by (intro words_no_newline) (auto simp: plan_tokens_def)
  moreover have "newline \<notin> set (edge_line e)" for e
    unfolding edge_line_words using dec_nat_word literal_words by (intro words_no_newline) auto
  moreover have "newline \<notin> set (''name '' @ s_name s)"
    unfolding name_line_words using assms token_word literal_words by (intro words_no_newline) (auto simp: plan_tokens_def)
  moreover have "node_line n \<noteq> []" "edge_line e \<noteq> []" for n e
    by (simp_all add: node_line_def edge_line_def)
  ultimately show ?thesis using literal_words(4) by (auto simp: plan_lines_def)
qed

lemma parse_node_line:
  assumes ok: "node_ok s n" and id: "nd_id n = Suc nn" "Suc nn < uint_mod"
    and tok: "token (nd_name n)" "\<forall>m \<in> set (nd_members n). token m"
  shows "strtok (CHR '' '') (node_line n) = ''node'' # [dec_nat (nd_id n), dec_nat (nd_kind n), nd_name n] @ nd_members n
    \<and> parse_node_record nn ([dec_nat (nd_id n), dec_nat (nd_kind n), nd_name n] @ nd_members n) = Inr n"
proof
  show "strtok (CHR '' '') (node_line n) = ''node'' # [dec_nat (nd_id n), dec_nat (nd_kind n), nd_name n] @ nd_members n"
    unfolding node_line_words using tok token_word dec_nat_word by (intro words_tokens) auto
  have k: "nd_kind n = NODE_KERNEL \<or> nd_kind n = NODE_REWRITE \<or> nd_kind n = NODE_BARRIER"
    using ok by (auto simp: node_ok_def)
  then have "nd_kind n < uint_mod" by (auto simp: NODE_KERNEL_def NODE_REWRITE_def NODE_BARRIER_def uint_mod_def)
  then have sc: "scan_u (dec_nat (nd_kind n)) = Some (nd_kind n)" "scan_u (dec_nat (nd_id n)) = Some (Suc nn)"
    using id by (simp_all add: scan_u_dec_nat)
  have "\<not> (\<exists>m \<in> set (nd_members n). \<not> clean_scalar m)" "clean_scalar (nd_name n)" using tok by (auto simp: token_def)
  moreover have "\<not> (nd_kind n = NODE_REWRITE \<and> nd_members n = [] \<or> nd_kind n = NODE_BARRIER \<and> nd_members n \<noteq> [])"
    using ok by (auto simp: node_ok_def NODE_KERNEL_def NODE_REWRITE_def NODE_BARRIER_def)
  ultimately show "parse_node_record nn ([dec_nat (nd_id n), dec_nat (nd_kind n), nd_name n] @ nd_members n) = Inr n"
    using k id sc by (auto simp: parse_node_record_def)
qed

lemma parse_edge_line:
  assumes "1 \<le> fst e" "1 \<le> snd e" "fst e < uint_mod" "snd e < uint_mod"
  shows "strtok (CHR '' '') (edge_line e) = [''edge'', dec_nat (fst e), dec_nat (snd e)]
    \<and> parse_edge_record [dec_nat (fst e), dec_nat (snd e)] = Inr e"
proof
  show "strtok (CHR '' '') (edge_line e) = [''edge'', dec_nat (fst e), dec_nat (snd e)]"
    unfolding edge_line_words using dec_nat_word by (intro words_tokens) auto
  show "parse_edge_record [dec_nat (fst e), dec_nat (snd e)] = Inr e"
    using assms by (cases e) (simp add: parse_edge_record_def scan_u_dec_nat)
qed

lemma parse_node_lines:
  assumes "\<forall>n \<in> set ns. node_ok s n \<and> token (nd_name n) \<and> (\<forall>m \<in> set (nd_members n). token m)"
    "map nd_id ns = [Suc (length nodes)..<Suc (length nodes + length ns)]" "length nodes + length ns < uint_mod"
  shows "parse_records nodes es (map node_line ns @ rest) = parse_records (nodes @ ns) es rest"
  using assms
proof (induction ns arbitrary: nodes)
  case (Cons n ns)
  have ids: "nd_id n = Suc (length nodes)" "map nd_id ns = [Suc (Suc (length nodes))..<Suc (Suc (length nodes) + length ns)]"
    using Cons.prems(2) by (simp_all add: upt_conv_Cons del: upt_Suc)
  have len: "Suc (length nodes) < uint_mod" using Cons.prems(3) by simp
  have p: "strtok (CHR '' '') (node_line n) = ''node'' # [dec_nat (nd_id n), dec_nat (nd_kind n), nd_name n] @ nd_members n
    \<and> parse_node_record (length nodes) ([dec_nat (nd_id n), dec_nat (nd_kind n), nd_name n] @ nd_members n) = Inr n"
    using Cons.prems(1) by (intro parse_node_line [OF _ ids(1) len, of s]) auto
  have "parse_records nodes es (map node_line (n # ns) @ rest) = parse_records (nodes @ [n]) es (map node_line ns @ rest)"
    using p by simp
  also have "\<dots> = parse_records ((nodes @ [n]) @ ns) es rest"
    using Cons.prems ids(2) by (intro Cons.IH) (simp_all del: upt_Suc)
  finally show ?case by simp
qed simp

lemma parse_edge_lines:
  assumes "\<forall>e \<in> set es. 1 \<le> fst e \<and> 1 \<le> snd e \<and> fst e < uint_mod \<and> snd e < uint_mod"
  shows "parse_records nodes es0 (map edge_line es) = Inr (nodes, es0 @ es)"
  using assms
proof (induction es arbitrary: es0)
  case (Cons e es)
  then show ?case using parse_edge_line [of e] by simp
qed simp

lemma plan_text_parses:
  assumes wf: "wf_sched s" and len: "length (s_nodes s) < uint_mod" and tok: "plan_tokens s" and ne: "s_nodes s \<noteq> []"
  shows "parse_plan_text (plan_text s) = Inr (s_nodes s, s_edges s)"
proof -
  have g: "wf_graph s" using wf len by (simp add: wf_sched_def)
  have es: "\<forall>e \<in> set (s_edges s). 1 \<le> fst e \<and> 1 \<le> snd e \<and> fst e \<le> length (s_nodes s) \<and> snd e \<le> length (s_nodes s)"
    using g by (auto simp: wf_graph_def edges_ok_def)
  have lines: "strtok newline (plan_text s) = plan_lines s"
    unfolding plan_text_def by (rule strtok_lines) (use plan_lines_clean [OF tok] in blast)
  have name: "strtok (CHR '' '') (''name '' @ s_name s) = [''name'', s_name s]"
    unfolding name_line_words using tok token_word by (intro words_tokens) (auto simp: plan_tokens_def)
  have "parse_records [] [] (map node_line (s_nodes s) @ map edge_line (s_edges s))
      = parse_records (s_nodes s) [] (map edge_line (s_edges s))"
    using parse_node_lines [of "s_nodes s" s "[]" "[]" "map edge_line (s_edges s)"] wf g len tok
    by (simp add: wf_sched_def wf_graph_def plan_tokens_def del: upt_Suc)
  also have "\<dots> = Inr (s_nodes s, s_edges s)"
    using parse_edge_lines [of "s_edges s" "s_nodes s" "[]"] es len by fastforce
  finally have "parse_records [] [] ((''name '' @ s_name s) # map node_line (s_nodes s) @ map edge_line (s_edges s))
      = Inr (s_nodes s, s_edges s)"
    unfolding parse_records.simps(2) name by simp
  moreover have "\<not> (\<exists>e \<in> set (s_edges s). fst e > length (s_nodes s) \<or> snd e > length (s_nodes s))"
    using es by (auto simp: not_less)
  ultimately show ?thesis using lines ne by (simp add: parse_plan_text_def plan_lines_def)
qed

section \<open>Checking the text\<close>

text \<open>What \<open>sscanf\<close> and \<open>fgets\<close> need: words free of white space and within the buffers, and names
  that cannot be found earlier in the line by \<open>strstr\<close>.\<close>

definition check_words :: "ccw_sched \<Rightarrow> bool" where
  "check_words s \<longleftrightarrow>
     (\<forall>l \<in> set (plan_lines s). Suc (length l) < 4096)
     \<and> (\<forall>n \<in> set (s_nodes s). plain_word (nd_name n) \<and> length (nd_name n) \<le> 2047
          \<and> (\<exists>c \<in> set (nd_name n). c \<notin> set ''node '' \<and> \<not> isdigit c)
          \<and> (\<forall>m \<in> set (nd_members n). plain_word m \<and> length m \<le> 511))"

text \<open>The manifests of \<open>c\<close> provide what a node names.\<close>

definition provided :: "ccw_sched \<Rightarrow> node \<Rightarrow> bool" where
  "provided c n \<longleftrightarrow>
     (nd_kind n = NODE_KERNEL \<longrightarrow>
        (case s_kernel_by_name c (nd_name n) of None \<Rightarrow> False
         | Some i \<Rightarrow> \<forall>m \<in> set (nd_members n). has_cap (s_kernels c ! i) m))
     \<and> (nd_kind n = NODE_REWRITE \<longrightarrow> (\<forall>m \<in> set (nd_members n). s_ruleset_by_name c m \<noteq> None))"

lemma scan_node_line:
  assumes id: "nd_id n < uint_mod" "nd_kind n < uint_mod" and w: "plain_word (nd_name n)" "length (nd_name n) \<le> 2047"
  shows "scan_node (node_line n @ [newline]) = Some (nd_kind n, nd_name n)"
proof -
  define ms where "ms = concat (map (\<lambda>m. CHR '' '' # m) (nd_members n)) @ [newline]"
  define s3 where "s3 = CHR '' '' # nd_name n @ ms"
  define s2 where "s2 = CHR '' '' # dec_nat (nd_kind n) @ s3"
  define s1 where "s1 = CHR '' '' # dec_nat (nd_id n) @ s2"
  have hd: "isspace (hd ms)" by (cases "nd_members n") (simp_all add: ms_def)
  have line: "node_line n @ [newline] = ''node'' @ s1"
    by (simp add: node_line_def s1_def s2_def s3_def ms_def)
  have 1: "scan_u s1 = Some (nd_id n) \<and> scan_u_rest s1 = s2"
    using scan_u_dec_nat_append [OF id(1), of "[CHR '' '']" s2]
    by (simp add: s1_def s2_def isspace_not_isdigit)
  have 2: "scan_u s2 = Some (nd_kind n) \<and> scan_u_rest s2 = s3"
    using scan_u_dec_nat_append [OF id(2), of "[CHR '' '']" s3]
    by (simp add: s2_def s3_def isspace_not_isdigit)
  have 3: "scan_s 2047 s3 = Some (nd_name n)"
    using scan_s_word [of "nd_name n" 2047 ms "[CHR '' '']"] w hd by (simp add: s3_def plain_word_def)
  have "starts_with ''node'' (''node'' @ s1)" "drop 4 (''node'' @ s1) = s1"
    by (simp_all add: starts_with_def)
  then show ?thesis unfolding line scan_node_def using 1 2 3 by (simp add: Let_def)
qed

lemma check_node_line:
  assumes id: "nd_id n < uint_mod" and ok: "node_ok s n"
    and w: "plain_word (nd_name n)" "length (nd_name n) \<le> 2047" "\<forall>m \<in> set (nd_members n). plain_word m \<and> length m \<le> 511"
    and c: "c \<in> set (nd_name n)" "c \<notin> set ''node ''" "\<not> isdigit c"
  shows "check_line m (node_line n @ [newline]) \<longleftrightarrow> provided m n"
proof -
  define ms where "ms = concat (map (\<lambda>m. CHR '' '' # m) (nd_members n)) @ [newline]"
  define pre where "pre = ''node '' @ dec_nat (nd_id n) @ '' '' @ dec_nat (nd_kind n) @ '' ''"
  have k: "nd_kind n = NODE_KERNEL \<or> nd_kind n = NODE_REWRITE \<or> nd_kind n = NODE_BARRIER"
    using ok by (auto simp: node_ok_def)
  then have kk: "nd_kind n < uint_mod" by (auto simp: NODE_KERNEL_def NODE_REWRITE_def NODE_BARRIER_def uint_mod_def)
  have line: "node_line n @ [newline] = pre @ nd_name n @ ms" by (simp add: node_line_def pre_def ms_def)
  have "c \<notin> set pre" using c dec_nat_digits by (auto simp: pre_def)
  then have at_name: "strstr (node_line n @ [newline]) (nd_name n) = Some (nd_name n @ ms)"
    unfolding line using c(1) plain_no_space [OF w(1)] by (intro strstr_word) (simp_all add: pre_def)
  have loop: "member_loop f ms \<longleftrightarrow> (\<forall>w \<in> set (nd_members n). f w)" for f
    unfolding ms_def by (rule member_loop_words [OF w(3)])
  have ne: "NODE_KERNEL \<noteq> NODE_REWRITE" "NODE_KERNEL \<noteq> NODE_BARRIER" "NODE_REWRITE \<noteq> NODE_BARRIER"
    by (simp_all add: NODE_KERNEL_def NODE_REWRITE_def NODE_BARRIER_def)
  have eq: "check_line m (node_line n @ [newline]) \<longleftrightarrow>
      (if nd_kind n = NODE_KERNEL then
         (case s_kernel_by_name m (nd_name n) of None \<Rightarrow> False
          | Some i \<Rightarrow> member_loop (has_cap (s_kernels m ! i)) ms)
       else if nd_kind n = NODE_REWRITE then member_loop (\<lambda>rule. s_ruleset_by_name m rule \<noteq> None) ms
       else nd_kind n = NODE_BARRIER)"
    unfolding check_line_def scan_node_line [OF id kk w(1,2)] option.case prod.case at_name by (simp add: Let_def)
  show ?thesis unfolding eq loop provided_def using k ne by (auto split: option.splits)
qed

lemma check_other_line:
  assumes "l = words_line w ws" "w = ''name'' \<or> w = ''edge''" "ws \<noteq> []"
  shows "check_line m (l @ [newline])"
proof -
  obtain x xs where ws: "ws = x # xs" using assms(3) by (cases ws) auto
  let ?r = "concat (map (\<lambda>m. CHR '' '' # m) ws) @ [newline]"
  have l: "l @ [newline] = w @ ?r" by (simp add: assms(1) words_line_def)
  have "scan_node (w @ ?r) = None" using assms(2) by (auto simp: scan_node_def starts_with_def)
  moreover have "scan_s 15 (w @ ?r) = Some w"
    using scan_s_word [of w 15 ?r "[]"] assms(2) by (auto simp: ws isspace_def)
  ultimately show ?thesis unfolding l check_line_def using assms(2) by auto
qed

lemma plan_check_lines:
  assumes wf: "wf_sched s" and len: "length (s_nodes s) < uint_mod" and tok: "plan_tokens s" and fit: "check_words s"
  shows "fgets_lines 4096 (plan_text s) = map (\<lambda>l. l @ [newline]) (plan_lines s)
    \<and> ((\<forall>line \<in> set (tl (map (\<lambda>l. l @ [newline]) (plan_lines s))). check_line m line)
         \<longleftrightarrow> (\<forall>n \<in> set (s_nodes s). provided m n))"
proof
  have g: "wf_graph s" using wf len by (simp add: wf_sched_def)
  show "fgets_lines 4096 (plan_text s) = map (\<lambda>l. l @ [newline]) (plan_lines s)"
    unfolding plan_text_def
    by (rule fgets_lines_concat) (use fit plan_lines_clean [OF tok] in \<open>auto simp: check_words_def\<close>)
  have nodes: "check_line m (node_line n @ [newline]) \<longleftrightarrow> provided m n" if n: "n \<in> set (s_nodes s)" for n
  proof -
    have "nd_id n < uint_mod" using n nd_id_nth [OF g] len by (auto simp: in_set_conv_nth)
    moreover have "node_ok s n" using wf n by (simp add: wf_sched_def)
    moreover obtain c where "c \<in> set (nd_name n)" "c \<notin> set ''node ''" "\<not> isdigit c"
      using fit n unfolding check_words_def by blast
    ultimately show ?thesis using fit n unfolding check_words_def by (intro check_node_line) blast+
  qed
  have edges: "check_line m (edge_line e @ [newline])" for e
    by (rule check_other_line [OF edge_line_words]) simp_all
  have name: "check_line m ((''name '' @ s_name s) @ [newline])"
    by (rule check_other_line [OF name_line_words]) simp_all
  have tl: "tl (map (\<lambda>l. l @ [newline]) (plan_lines s)) =
      ((''name '' @ s_name s) @ [newline]) # map (\<lambda>n. node_line n @ [newline]) (s_nodes s)
        @ map (\<lambda>e. edge_line e @ [newline]) (s_edges s)"
    by (simp add: plan_lines_def)
  show "(\<forall>line \<in> set (tl (map (\<lambda>l. l @ [newline]) (plan_lines s))). check_line m line)
      \<longleftrightarrow> (\<forall>n \<in> set (s_nodes s). provided m n)"
    unfolding tl using nodes edges name by (auto simp del: append_assoc append.simps)
qed

lemma plan_check_iff:
  assumes wf: "wf_sched s" and len: "length (s_nodes s) < uint_mod" and tok: "plan_tokens s" and fit: "check_words s"
    and stored: "fs path = Some (plan_text s)" and new: "ccw_sched_new fs ''check'' dir = Inr m"
  shows "ccw_plan_check fs path dir =
    (if \<forall>n \<in> set (s_nodes s). provided m n then Inr ()
     else Inl (sfail 8 ''plan is invalidated by manifest drift''))"
proof -
  let ?ls = "tl (map (\<lambda>l. l @ [newline]) (plan_lines s))"
  have ls: "fgets_lines 4096 (plan_text s) = (''CCW-SCHED-PLAN 1'' @ [newline]) # ?ls"
    using plan_check_lines [OF wf len tok fit] by (simp add: plan_lines_def)
  have iff: "(\<forall>line \<in> set ?ls. check_line m line) \<longleftrightarrow> (\<forall>n \<in> set (s_nodes s). provided m n)"
    using plan_check_lines [OF wf len tok fit, of m] by blast
  show ?thesis unfolding ccw_plan_check_def stored option.case ls list.case new sum.case iff by (simp only: simp_thms if_False)
qed

text \<open>Without drift every node is provided, when kernel names are unique.\<close>

lemma fresh_provided:
  assumes wf: "wf_sched s" and n: "n \<in> set (s_nodes s)" and m: "wf_manifest m"
    and same: "s_kernels m = s_kernels s" "s_rules m = s_rules s" and d: "distinct (map k_name (s_kernels s))"
  shows "provided m n"
proof -
  have ok: "node_ok s n" using wf n by (simp add: wf_sched_def)
  have "\<exists>i. s_kernel_by_name m (nd_name n) = Some i \<and> (\<forall>c \<in> set (nd_members n). has_cap (s_kernels m ! i) c)"
    if kernel: "nd_kind n = NODE_KERNEL"
  proof -
    obtain k where k: "k \<in> set (s_kernels s)" "nd_name n = k_name k" "nd_members n = k_caps k"
      using ok kernel by (auto simp: node_ok_def NODE_KERNEL_def NODE_REWRITE_def NODE_BARRIER_def)
    then obtain i where i: "i < length (s_kernels s)" "s_kernels s ! i = k" by (auto simp: in_set_conv_nth)
    have "named_at k_name (s_kernels s) (k_name k) = Some i" using named_at_distinct [OF d i(1)] i(2) by simp
    with m same k i show ?thesis by (simp add: wf_manifest_def has_cap_def)
  qed
  moreover have "s_ruleset_by_name m c \<noteq> None" if "nd_kind n = NODE_REWRITE" "c \<in> set (nd_members n)" for c
  proof -
    have "c \<in> r_name ` set (s_rules s)"
      using ok that by (auto simp: node_ok_def NODE_KERNEL_def NODE_REWRITE_def NODE_BARRIER_def)
    with m same named_at_None [of r_name "s_rules s" c] show ?thesis by (simp add: wf_manifest_def)
  qed
  ultimately show ?thesis by (force simp: provided_def)
qed

end
