(* ===== verification/Sched_Spec.thy ===== *)
theory Sched_Spec
  imports Sched_Round
begin

text \<open>
  Specifications of the scheduler's selections: what a rewrite pattern matches, which kernel a
  capability request chooses, and how many statistics a rewrite run leaves.
\<close>

section \<open>Patterns\<close>

text \<open>A pattern is its literal pieces; a text matches when gaps fill the stars.\<close>

definition fills :: "string list \<Rightarrow> string list \<Rightarrow> string" where
  "fills pieces gaps = hd pieces @ concat (map2 (@) gaps (tl pieces))"

definition glob_match :: "string \<Rightarrow> string \<Rightarrow> bool" where
  "glob_match pattern s \<longleftrightarrow>
     (\<exists>gaps. length gaps + 1 = length (split_on (CHR ''*'') pattern) \<and> s = fills (split_on (CHR ''*'') pattern) gaps)"

lemma glob_nil: "glob_match [] s \<longleftrightarrow> s = []"
  by (simp add: glob_match_def fills_def)

lemma glob_char:
  assumes "p \<noteq> CHR ''*''"
  shows "glob_match (p # pattern) s \<longleftrightarrow> (\<exists>s'. s = p # s' \<and> glob_match pattern s')"
proof -
  obtain w ws where ss: "split_on (CHR ''*'') pattern = w # ws" using split_on_nonempty by (metis neq_Nil_conv)
  show ?thesis using assms by (auto simp: glob_match_def fills_def ss)
qed

lemma glob_star: "glob_match (CHR ''*'' # pattern) s \<longleftrightarrow> (\<exists>u s'. s = u @ s' \<and> glob_match pattern s')"
proof -
  obtain w ws where ss: "split_on (CHR ''*'') pattern = w # ws" using split_on_nonempty by (metis neq_Nil_conv)
  show ?thesis
  proof
    assume "glob_match (CHR ''*'' # pattern) s"
    then obtain gaps where g: "length gaps = Suc (length ws)" "s = concat (map2 (@) gaps (w # ws))"
      by (auto simp: glob_match_def fills_def ss)
    then obtain u gs where "gaps = u # gs" by (cases gaps) auto
    with g show "\<exists>u s'. s = u @ s' \<and> glob_match pattern s'"
      by (auto simp: glob_match_def fills_def ss)
  next
    assume "\<exists>u s'. s = u @ s' \<and> glob_match pattern s'"
    then obtain u gs where "length gs = length ws" "s = u @ w @ concat (map2 (@) gs ws)"
      by (auto simp: glob_match_def fills_def ss)
    then show "glob_match (CHR ''*'' # pattern) s"
      unfolding glob_match_def fills_def by (intro exI [of _ "u # gs"]) (simp add: ss)
  qed
qed

lemma wildcard_glob: "wildcard pattern s \<longleftrightarrow> glob_match pattern s"
proof (induction pattern s rule: wildcard.induct)
  case (1 s)
  then show ?case by (simp add: glob_nil)
next
  case (2 p pattern s)
  show ?case
  proof (cases "p = CHR ''*''")
    case True
    show ?thesis
    proof (cases s)
      case Nil
      with 2(1) True show ?thesis by (simp add: glob_star)
    next
      case (Cons c t)
      have w: "wildcard (p # pattern) s \<longleftrightarrow> wildcard pattern s \<or> wildcard (p # pattern) t"
        using True by (simp add: Cons)
      have "glob_match (p # pattern) s \<longleftrightarrow> glob_match pattern s \<or> glob_match (p # pattern) t"
        unfolding True glob_star Cons
        by (auto simp: Cons_eq_append_conv)
      moreover have "wildcard (p # pattern) t \<longleftrightarrow> glob_match (p # pattern) t" if "\<not> wildcard pattern s"
        using 2(2) [OF True that Cons] .
      ultimately show ?thesis using w 2(1) [OF True] by blast
    qed
  next
    case False
    with 2(3) show ?thesis by (auto simp: glob_char split: list.splits)
  qed
qed

section \<open>Capability requests\<close>

lemma select_match_default: "select_match s None m is' = (case m of Some i \<Rightarrow> Some i | None \<Rightarrow> (case is' of [] \<Rightarrow> None | i # _ \<Rightarrow> Some i))"
proof (induction is' arbitrary: m)
  case (Cons i js)
  then show ?case by (cases m) auto
qed (simp split: option.splits)

lemma select_match_prefer:
  "select_match s (Some p) m js =
     (case filter (\<lambda>i. k_name (s_kernels s ! i) = p) js of
        [] \<Rightarrow> (case m of Some i \<Rightarrow> Some i | None \<Rightarrow> (case js of [] \<Rightarrow> None | i # _ \<Rightarrow> Some i))
      | named \<Rightarrow> Some (last named))"
proof (induction js arbitrary: m)
  case (Cons i js)
  then show ?case
    by (cases m; cases "filter (\<lambda>i. k_name (s_kernels s ! i) = p) js") auto
qed (simp split: option.splits)

text \<open>The kernel a request chooses: the only provider, or the last provider with the preferred name.\<close>

definition chosen :: "ccw_sched \<Rightarrow> string \<Rightarrow> string option \<Rightarrow> nat option" where
  "chosen s cap wanted =
     (let ps = providers (s_kernels s) cap
      in case wanted of
           None \<Rightarrow> (if length ps = 1 then Some (hd ps) else None)
         | Some p \<Rightarrow> (let named = filter (\<lambda>i. k_name (s_kernels s ! i) = p) ps
                     in if named = [] then None else Some (last named)))"

lemma require_capability_chosen:
  assumes wf: "wf_manifest s"
  shows "case chosen s cap wanted of
      Some i \<Rightarrow> ccw_sched_require_capability s cap wanted
                 = add_node s NODE_KERNEL (k_name (s_kernels s ! i)) (k_caps (s_kernels s ! i))
    | None \<Rightarrow> \<exists>msg. ccw_sched_require_capability s cap wanted = (s, Inl (sfail 4 msg))"
proof -
  let ?ps = "providers (s_kernels s) cap"
  have ix: "s_capability_index s cap = (if ?ps = [] then None else Some ?ps)"
    using wf by (simp add: wf_manifest_def cap_index_def)
  show ?thesis
  proof (cases "?ps = []")
    case True
    then show ?thesis using ix by (auto simp: chosen_def Let_def ccw_sched_require_capability_def split: option.splits)
  next
    case False
    then obtain j js where ps: "?ps = j # js" by (cases ?ps) auto
    show ?thesis
    proof (cases wanted)
      case None
      then show ?thesis using ix ps
        by (cases js) (auto simp: chosen_def Let_def ccw_sched_require_capability_def select_match_default)
    next
      case (Some p)
      let ?named = "filter (\<lambda>i. k_name (s_kernels s ! i) = p) ?ps"
      show ?thesis
      proof (cases "?named = []")
        case True
        then have "k_name (s_kernels s ! j) \<noteq> p" by (auto simp: ps split: if_splits)
        with True show ?thesis using ix ps Some
          by (auto simp: chosen_def Let_def ccw_sched_require_capability_def select_match_prefer)
      next
        case False
        then have "last ?named \<in> set ?named" by (rule last_in_set)
        then have "k_name (s_kernels s ! last ?named) = p" by simp
        moreover have "select_match s (Some p) None ?ps = Some (last ?named)"
          using False by (cases ?named) (simp_all add: select_match_prefer)
        ultimately show ?thesis using ix Some False \<open>?ps \<noteq> []\<close>
          by (auto simp: chosen_def Let_def ccw_sched_require_capability_def)
      qed
    qed
  qed
qed

section \<open>Rewrite statistics\<close>

lemma each_member_stats:
  assumes "\<And>m w w' e. f m w = (w', e) \<Longrightarrow> e = None \<Longrightarrow> length (snd w') = Suc (length (snd w))"
  shows "each_member f ms w = (w', None) \<Longrightarrow> length (snd w') = length (snd w) + length ms"
proof (induction ms arbitrary: w)
  case (Cons m ms)
  then obtain w1 where 1: "f m w = (w1, None)" "each_member f ms w1 = (w', None)"
    by (auto split: prod.splits option.splits)
  from Cons.IH [OF 1(2)] assms [OF 1(1)] show ?case by simp
qed simp

lemma apply_ruleset_stats:
  "apply_ruleset load rname run fs m dir member w = (w', None) \<Longrightarrow> length (snd w') = Suc (length (snd w))"
  by (auto simp: apply_ruleset_def split: option.splits prod.splits if_splits)

lemma rewrite_body_stats:
  assumes "rewrite_body load rname run fs m dir n w = (w', None)"
  shows "length (snd w') = length (snd w) + (if nd_kind n = NODE_REWRITE then length (nd_members n) else 0)"
proof (cases "nd_kind n = NODE_REWRITE")
  case True
  with assms have "each_member (apply_ruleset load rname run fs m dir) (nd_members n) w = (w', None)"
    by (simp add: rewrite_body_def)
  then have "length (snd w') = length (snd w) + length (nd_members n)"
    by (rule each_member_stats [rotated]) (simp add: apply_ruleset_stats)
  with True show ?thesis by simp
qed (use assms in \<open>simp add: rewrite_body_def\<close>)

definition rewrite_members :: "node list \<Rightarrow> nat" where
  "rewrite_members nodes = sum_list (map (\<lambda>n. if nd_kind n = NODE_REWRITE then length (nd_members n) else 0) nodes)"

lemma run_seq_stats:
  "run_seq (rewrite_body load rname run fs m dir) nodes order w = (w', None) \<Longrightarrow>
     length (snd w') = length (snd w) + rewrite_members (map (nth nodes) order)"
proof (induction order arbitrary: w)
  case (Cons i order)
  then obtain w1 where 1: "rewrite_body load rname run fs m dir (nodes ! i) w = (w1, None)"
    "run_seq (rewrite_body load rname run fs m dir) nodes order w1 = (w', None)"
    by (auto split: prod.splits option.splits)
  from Cons.IH [OF 1(2)] rewrite_body_stats [OF 1(1)] show ?case by (simp add: rewrite_members_def)
qed (simp add: rewrite_members_def)

lemma rewrite_members_order:
  assumes "topological (length nodes) es order"
  shows "rewrite_members (map (nth nodes) order) = rewrite_members nodes"
proof -
  let ?f = "\<lambda>n. if nd_kind n = NODE_REWRITE then length (nd_members n) else 0"
  have o: "distinct order" "set order = {0..<length nodes}" using assms by (auto simp: topological_def)
  have "rewrite_members (map (nth nodes) order) = (\<Sum>i \<in> set order. ?f (nodes ! i))"
    using o(1) by (simp add: rewrite_members_def sum_list_distinct_conv_sum_set comp_def)
  also have "\<dots> = sum_list (map (\<lambda>i. ?f (nodes ! i)) [0..<length nodes])"
    unfolding o(2) by (simp add: interv_sum_list_conv_sum_set_nat)
  also have "map (\<lambda>i. ?f (nodes ! i)) [0..<length nodes] = map ?f nodes"
    using map_nth [of nodes] by (metis (no_types, lifting) list.map_comp comp_def map_cong)
  finally show ?thesis by (simp add: rewrite_members_def)
qed

end
