(* ===== verification/Sched_Frame.thy ===== *)
theory Sched_Frame
  imports Sched_Spec
begin

text \<open>
  What stays fixed: no operation changes the manifest part of a scheduler, and loading depends on the
  pipeline name only through the name field. Together they let a plan be compared with the manifests
  it was built from.
\<close>

section \<open>Operations keep the manifests\<close>

definition same_manifest :: "ccw_sched \<Rightarrow> ccw_sched \<Rightarrow> bool" where
  "same_manifest s s' \<longleftrightarrow> s_kernels s' = s_kernels s \<and> s_rules s' = s_rules s \<and> s_name s' = s_name s"

lemma same_manifest_refl: "same_manifest s s"
  by (simp add: same_manifest_def)

lemma same_manifest_trans: "same_manifest s s' \<Longrightarrow> same_manifest s' s'' \<Longrightarrow> same_manifest s s''"
  by (simp add: same_manifest_def)

lemma same_add_edge: "same_manifest s (add_edge_raw s a b)"
  by (simp add: same_manifest_def add_edge_raw_def)

lemma same_barrier_edges: "same_manifest s (barrier_edges s ns i)"
  by (induction s ns i rule: barrier_edges.induct)
     (auto simp: same_manifest_refl intro: same_manifest_trans same_add_edge)

lemma same_edges_into: "same_manifest s (edges_into s i)"
proof -
  have "same_manifest s (fold (\<lambda>j s. add_edge_raw s j i) js s)" for js
    by (induction js arbitrary: s) (auto simp: same_manifest_refl intro: same_manifest_trans same_add_edge)
  then show ?thesis by (simp add: edges_into_def)
qed

lemma same_add_node: "same_manifest s (fst (add_node s kind name members))"
  using same_barrier_edges [of s "s_nodes s"] by (auto simp: add_node_def Let_def same_manifest_def)

lemma same_require_capability: "same_manifest s (fst (ccw_sched_require_capability s cap wanted))"
  using same_add_node by (auto simp: ccw_sched_require_capability_def Let_def same_manifest_refl split: option.splits)

lemma step_same_manifest: "sched_step s s' \<Longrightarrow> same_manifest s s'"
proof (induction rule: sched_step.induct)
  case (require_kernel s name)
  then show ?case using same_add_node
    by (auto simp: ccw_sched_require_kernel_def same_manifest_refl split: option.splits)
next
  case (require_capability s cap wanted)
  then show ?case by (rule same_require_capability)
next
  case (probe_capability s cap wanted)
  then show ?case by (simp add: probe_same same_require_capability)
next
  case (rewrite s pattern)
  then show ?case using same_add_node
    by (auto simp: ccw_sched_rewrite_def Let_def same_manifest_refl split: option.splits)
next
  case (edge a b s)
  then show ?case by (simp add: ccw_sched_edge_def same_manifest_refl same_add_edge)
next
  case (barrier s label)
  let ?r = "add_node s NODE_BARRIER (case label of Some l \<Rightarrow> l | None \<Rightarrow> ''barrier'') []"
  have "same_manifest s (fst ?r)" by (rule same_add_node)
  then show ?case
    unfolding ccw_sched_barrier_def
    by (cases ?r; cases "snd ?r") (auto intro: same_manifest_trans same_edges_into)
next
  case (seal s)
  then show ?case
    by (auto simp: ccw_sched_seal_def Let_def same_manifest_def split: option.splits)
qed

lemma steps_same_manifest: "sched_step\<^sup>*\<^sup>* s s' \<Longrightarrow> same_manifest s s'"
  by (induction rule: rtranclp_induct) (auto intro: same_manifest_refl same_manifest_trans step_same_manifest)

section \<open>The pipeline name does not matter to loading\<close>

definition rename :: "string \<Rightarrow> ccw_sched \<Rightarrow> ccw_sched" where
  "rename x s = s\<lparr>s_name := x\<rparr>"

lemma index_kernel_rename: "index_kernel (rename x s) i = rename x (index_kernel s i)"
  by (simp add: index_kernel_def rename_def Let_def)

lemma index_ruleset_rename: "index_ruleset (rename x s) i = rename x (index_ruleset s i)"
  by (simp add: index_ruleset_def rename_def Let_def)

lemma finish_kernel_rename:
  "finish_kernel (rename x s) p = map_option (\<lambda>(s', p'). (rename x s', p')) (finish_kernel s p)"
proof -
  have "(rename x s)\<lparr>s_kernels := ks\<rparr> = rename x (s\<lparr>s_kernels := ks\<rparr>)" for ks by (simp add: rename_def)
  moreover have "s_kernels (rename x s) = s_kernels s" by (simp add: rename_def)
  ultimately show ?thesis
    by (simp add: finish_kernel_def index_kernel_rename split: option.splits)
qed

lemma load_kernels_loop_rename:
  "load_kernels_loop (rename x s) p b ls = map_option (\<lambda>(s', p'). (rename x s', p')) (load_kernels_loop s p b ls)"
proof (induction s p b ls rule: load_kernels_loop.induct)
  case (2 s current in_caps line ls)
  show ?case
  proof (cases "starts_with ''- path:'' (strip line)")
    case True
    show ?thesis
    proof (cases "finish_kernel s current")
      case None
      with True show ?thesis unfolding load_kernels_loop.simps(2) Let_def finish_kernel_rename by simp
    next
      case (Some r)
      obtain s' c' where "r = (s', c')" by (cases r)
      with Some True "2.IH"(1) [OF refl True Some] show ?thesis
        unfolding load_kernels_loop.simps(2) Let_def finish_kernel_rename by simp
    qed
  next
    case False
    note IH = "2.IH"(2-) [OF refl False]
    show ?thesis unfolding load_kernels_loop.simps(2) Let_def using False IH by (auto split: if_splits)
  qed
qed simp

lemma load_rules_loop_rename:
  "load_rules_loop (rename x s) path ls = map_option (rename x) (load_rules_loop s path ls)"
proof (induction s path ls rule: load_rules_loop.induct)
  case (2 s path line ls)
  have upd: "(rename x s)\<lparr>s_rules := rs\<rparr> = rename x (s\<lparr>s_rules := rs\<rparr>)" "s_rules (rename x s) = s_rules s" for rs
    by (simp_all add: rename_def)
  show ?case
    unfolding load_rules_loop.simps(2) Let_def upd index_ruleset_rename
    using 2 by (auto split: option.splits simp: Let_def)
qed simp

lemma load_kernels_rename: "load_kernels fs (rename x s) = map_sum id (rename x) (load_kernels fs s)"
proof (cases "fs (take 1023 (s_manifest_dir s @ ''/Kernel.yaml''))")
  case None
  then show ?thesis by (simp add: load_kernels_def rename_def)
next
  case (Some content)
  have "s_manifest_dir (rename x s) = s_manifest_dir s" "\<And>s. s_kernels (rename x s) = s_kernels s"
    by (simp_all add: rename_def)
  with Some show ?thesis
    unfolding load_kernels_def by (simp add: load_kernels_loop_rename finish_kernel_rename split: option.splits prod.splits)
qed

lemma load_rules_rename: "load_rules fs (rename x s) = map_sum id (rename x) (load_rules fs s)"
proof (cases "fs (take 1023 (s_manifest_dir s @ ''/Stdrewrite.yaml''))")
  case None
  then show ?thesis by (simp add: load_rules_def rename_def)
next
  case (Some content)
  have "s_manifest_dir (rename x s) = s_manifest_dir s" "\<And>s. s_rules (rename x s) = s_rules s"
    by (simp_all add: rename_def)
  with Some show ?thesis
    unfolding load_rules_def by (simp add: load_rules_loop_rename split: option.splits)
qed

lemma new_rename:
  assumes new: "ccw_sched_new fs name dir = Inr s" and x: "clean_scalar x"
  shows "ccw_sched_new fs x dir = Inr (rename x s)"
proof -
  let ?d = "case dir of Some d \<Rightarrow> d | None \<Rightarrow> ''manifests''"
  have e: "empty_sched x ?d = rename x (empty_sched name ?d)" by (simp add: empty_sched_def rename_def)
  obtain s1 where "load_kernels fs (empty_sched name ?d) = Inr s1" "load_rules fs s1 = Inr s"
    using new by (auto simp: ccw_sched_new_def split: if_splits sum.splits)
  with x show ?thesis
    by (simp add: ccw_sched_new_def e load_kernels_rename load_rules_rename)
qed

end
