(* ===== verification/Manifest_Tool.thy ===== *)
theory Manifest_Tool
  imports Sched_Manifest "HOL-Library.Char_ord" "HOL-Library.List_Lexorder"
begin

text \<open>
  The manifest generator (\<open>tools/ccw-manifest/ccw_manifest.c\<close>): the capability grammar, what it reads
  from kernel and ruleset sources, and the YAML it writes. The kernel executor it queries is a
  parameter. \<open>qsort\<close> under \<open>strcmp\<close> is \<open>sort\<close> in the lexicographic order of bytes.
\<close>

section \<open>The capability grammar\<close>

definition cap_char :: "char \<Rightarrow> bool" where
  "cap_char c \<longleftrightarrow> (97 \<le> (of_char c :: nat) \<and> (of_char c :: nat) \<le> 122) \<or> isdigit c \<or> c = CHR ''-''"

fun cap_scan :: "string \<Rightarrow> nat \<Rightarrow> nat \<Rightarrow> bool" where
  "cap_scan [] segments seglen = (if seglen = 0 then False else segments + 1 \<ge> 2)"
| "cap_scan (c # p) segments seglen =
     (if c = CHR ''.'' then (if seglen = 0 then False else cap_scan p (segments + 1) 0)
      else if \<not> cap_char c then False
      else cap_scan p segments (seglen + 1))"

definition capability_valid :: "string option \<Rightarrow> bool" where
  "capability_valid cap = (case cap of None \<Rightarrow> False | Some s \<Rightarrow> s \<noteq> [] \<and> cap_scan s 0 0)"

section \<open>Kernels\<close>

record kernel_entry =
  ke_path :: string
  ke_library :: "string option"
  ke_name :: "string option"
  ke_version :: "string option"
  ke_description :: "string option"
  ke_caps :: "string list"

definition ends_with_scm :: "string \<Rightarrow> bool" where
  "ends_with_scm name \<longleftrightarrow> length name > 4 \<and> drop (length name - 4) name = ''.scm''"

text \<open>\<open>names\<close> is what \<open>readdir\<close> returns for the kernel directory.\<close>

definition collect_kernels :: "string \<Rightarrow> string list \<Rightarrow> kernel_entry list" where
  "collect_kernels kernel_dir names =
     sort_key ke_path
       (map (\<lambda>n. \<lparr>ke_path = take 1023 (kernel_dir @ ''/'' @ n), ke_library = None, ke_name = None,
                   ke_version = None, ke_description = None, ke_caps = []\<rparr>)
         (filter ends_with_scm names))"

text \<open>The parenthesis group after \<open>define-library\<close>, from the first line that has one.\<close>

definition library_in_line :: "string \<Rightarrow> string option" where
  "library_in_line line =
     (case strstr line ''define-library'' of None \<Rightarrow> None
      | Some at \<Rightarrow>
          (case strchr at (CHR ''('') of None \<Rightarrow> None
           | Some opn \<Rightarrow>
               (case strchr opn (CHR '')'') of None \<Rightarrow> None
                | Some cls \<Rightarrow> Some (take (length opn - length cls + 1) opn))))"

fun first_library :: "string list \<Rightarrow> string option" where
  "first_library [] = None"
| "first_library (line # lines) =
     (case library_in_line line of Some l \<Rightarrow> Some l | None \<Rightarrow> first_library lines)"

definition read_library_name :: "fs \<Rightarrow> string \<Rightarrow> string option" where
  "read_library_name fs path =
     (case fs path of None \<Rightarrow> None | Some content \<Rightarrow> first_library (fgets_lines 1024 content))"

text \<open>The capabilities an executor reports (NULL entries are skipped); an invalid one is an error.\<close>

fun collect_caps :: "string option list \<Rightarrow> string list option" where
  "collect_caps [] = Some []"
| "collect_caps (None # cs) = collect_caps cs"
| "collect_caps (Some c # cs) =
     (if \<not> capability_valid (Some c) then None
      else (case collect_caps cs of None \<Rightarrow> None | Some rest \<Rightarrow> Some (c # rest)))"

definition populate ::
  "(string \<Rightarrow> int) \<Rightarrow> (int \<Rightarrow> string option \<times> string option \<times> string option) \<Rightarrow> (int \<Rightarrow> string option list)
     \<Rightarrow> fs \<Rightarrow> string \<Rightarrow> kernel_entry \<Rightarrow> kernel_entry option" where
  "populate kload kinfo kcaps fs root e =
     (let full = take 2047 (root @ ''/'' @ ke_path e); i = kload full
      in if i < 0 then None
         else
           (case collect_caps (kcaps i) of None \<Rightarrow> None
            | Some caps \<Rightarrow>
                (case kinfo i of (name, version, description) \<Rightarrow>
                   Some (e\<lparr>ke_library := read_library_name fs full, ke_name := name,
                          ke_version := version, ke_description := description, ke_caps := sort caps\<rparr>))))"

section \<open>Rulesets\<close>

record ruleset_entry =
  re_path :: string
  re_name :: "string option"
  re_description :: "string option"
  re_rules :: nat
  re_side_conditions :: bool

record ruleset_scan =
  rs_in_header :: bool
  rs_desc :: "string option"
  rs_name :: "string option"
  rs_rules :: nat
  rs_side :: bool

definition blank :: "char \<Rightarrow> bool" where "blank c \<longleftrightarrow> c = CHR '' '' \<or> c = CHR 0x09"
definition eol :: "char \<Rightarrow> bool" where "eol c \<longleftrightarrow> c = newline \<or> c = carriage_return"

definition trim_end :: "(char \<Rightarrow> bool) \<Rightarrow> string \<Rightarrow> string" where
  "trim_end p s = rev (dropWhile p (rev s))"

text \<open>The number of places where \<open>(rule \<close> occurs.\<close>

fun count_rules :: "string \<Rightarrow> nat" where
  "count_rules [] = 0"
| "count_rules (c # s) = (if starts_with ''(rule '' (c # s) then 1 else 0) + count_rules s"

definition ruleset_name_in :: "string \<Rightarrow> string option" where
  "ruleset_name_in line =
     (case strstr line ''(ruleset '' of None \<Rightarrow> None
      | Some r \<Rightarrow>
          (let rs = dropWhile blank (drop 9 r)
           in case strchr rs (CHR '')'') of None \<Rightarrow> None
              | Some e \<Rightarrow> Some (trim_end blank (take (length rs - length e) rs))))"

definition scan_ruleset_line :: "ruleset_scan \<Rightarrow> string \<Rightarrow> ruleset_scan" where
  "scan_ruleset_line st line =
     (let comment = starts_with '';;;'' line;
          txt = dropWhile blank (drop 3 line);
          st1 = (if rs_in_header st \<and> comment then
                   (if strstr txt ''rewrite-salvo/'' = None \<and> strstr txt ''stdrewrite/'' = None
                    then st\<lparr>rs_desc := Some ((case rs_desc st of None \<Rightarrow> [] | Some d \<Rightarrow> d @ '' '') @ trim_end eol txt)\<rparr>
                    else st)
                 else if \<not> comment then st\<lparr>rs_in_header := False\<rparr>
                 else st);
          st2 = (if rs_name st1 = None then st1\<lparr>rs_name := ruleset_name_in line\<rparr> else st1);
          st3 = st2\<lparr>rs_rules := rs_rules st2 + count_rules line\<rparr>
      in if \<not> rs_side st3 \<and> strstr line '':side-condition'' \<noteq> None then st3\<lparr>rs_side := True\<rparr> else st3)"

text \<open>A file that cannot be opened leaves the entry as it is (the caller goes on).\<close>

definition parse_ruleset :: "fs \<Rightarrow> string \<Rightarrow> ruleset_entry \<Rightarrow> ruleset_entry" where
  "parse_ruleset fs full_path re =
     (case fs full_path of None \<Rightarrow> re
      | Some content \<Rightarrow>
          (let st = foldl scan_ruleset_line
                \<lparr>rs_in_header = True, rs_desc = None, rs_name = None, rs_rules = 0, rs_side = False\<rparr>
                (fgets_lines 2048 content)
           in re\<lparr>re_name := Some (case rs_name st of None \<Rightarrow> [] | Some n \<Rightarrow> n),
                 re_description := Some (case rs_desc st of None \<Rightarrow> [] | Some d \<Rightarrow> d),
                 re_rules := rs_rules st, re_side_conditions := rs_side st\<rparr>))"

section \<open>YAML emission\<close>

definition or_empty :: "string option \<Rightarrow> string" where
  "or_empty s = (case s of Some x \<Rightarrow> x | None \<Rightarrow> [])"

definition nl :: "string \<Rightarrow> string" where "nl s = s @ [newline]"

definition emit_header :: "string \<Rightarrow> string" where
  "emit_header derivation =
     nl (''# GENERATED by ccw-manifest '' @ [CHR 0xE2, CHR 0x80, CHR 0x94] @ '' DO NOT EDIT.'')
     @ nl (''# '' @ derivation)
     @ nl ''# Regenerate: ccw-manifest ; verify: ccw-manifest --check''
     @ nl ''generator: ccw-manifest/0.1''
     @ nl ''glue_abi: 1''"

definition kernel_yaml :: "kernel_entry \<Rightarrow> string" where
  "kernel_yaml e =
     nl (''  - path: '' @ ke_path e)
     @ nl (''    library: '' @ (case ke_library e of Some l \<Rightarrow> l | None \<Rightarrow> ''()''))
     @ nl (''    name: '' @ or_empty (ke_name e))
     @ nl (''    version: '' @ or_empty (ke_version e))
     @ nl (''    description: '' @ or_empty (ke_description e))
     @ (if ke_caps e = [] then nl ''    capabilities: []''
        else nl ''    capabilities:'' @ concat (map (\<lambda>c. nl (''      - '' @ c)) (ke_caps e)))"

definition render_kernel_yaml :: "kernel_entry list \<Rightarrow> string" where
  "render_kernel_yaml entries =
     emit_header ''Source of truth: kernel-capabilities of each listed kernel.''
     @ nl ''kernels:'' @ concat (map kernel_yaml entries)"

text \<open>The fixed end of \<open>Capabilities.yaml\<close>.\<close>

definition stereotypes :: "string list" where
  "stereotypes =
     [''stereotypes:'',
      ''  oop:'',
      ''    version: 0.1.0'',
      ''    kernels:'',
      ''      - oop-vtable-lower'',
      ''      - oop-devirtualize'',
      ''      - oop-null-check'',
      ''      - exception-lower'',
      ''    order:'',
      ''      - [oop-devirtualize, oop-vtable-lower]'',
      ''      - [oop-vtable-lower, oop-null-check]'',
      ''  functional:'',
      ''    version: 0.1.0'',
      ''    kernels:'',
      ''      - pattern-match-lower'',
      ''      - functional-pipeline-lower'',
      ''      - inline'',
      ''      - closure-convert'',
      ''      - lambda-lift'',
      ''      - tail-call'',
      ''    order:'',
      ''      - [pattern-match-lower, inline]'',
      ''      - [inline, closure-convert]'',
      ''      - [closure-convert, lambda-lift]'',
      ''      - [lambda-lift, tail-call]'']"

definition capability_yaml :: "kernel_entry list \<Rightarrow> string \<Rightarrow> string" where
  "capability_yaml entries cap =
     nl (''  '' @ cap @ '':'')
     @ concat (map (\<lambda>e. concat (map (\<lambda>c. if c = cap then nl (''    - '' @ ke_path e) else []) (ke_caps e))) entries)"

definition render_capabilities_yaml :: "kernel_entry list \<Rightarrow> string" where
  "render_capabilities_yaml entries =
     (let caps = sort (dedup [] (concat (map ke_caps entries)))
      in emit_header ''Inverted index derived from Kernel.yaml.''
         @ nl ''capabilities:'' @ nl ''  frontend.delphi: []'' @ nl ''  frontend.sml: []''
         @ concat (map (capability_yaml entries) caps)
         @ concat (map nl stereotypes))"

definition ruleset_yaml :: "ruleset_entry \<Rightarrow> string" where
  "ruleset_yaml e =
     nl (''  - path: '' @ re_path e @ ''/'')
     @ nl (''    name: '' @ or_empty (re_name e))
     @ nl (''    description: '' @ or_empty (re_description e))
     @ nl ''    semantics: equivalence''
     @ nl (''    side_conditions: '' @ (if re_side_conditions e then ''true'' else ''false''))
     @ nl (''    rules: '' @ dec_nat (re_rules e))
     @ nl ''    profiles: [core]''"

definition render_stdrewrite_yaml :: "ruleset_entry list \<Rightarrow> string" where
  "render_stdrewrite_yaml entries =
     emit_header ''Source of truth: the rule declarations in each listed ruleset directory.''
     @ nl ''rule_format: 1''
     @ nl (''total_rules: '' @ dec_nat (sum_list (map re_rules entries)))
     @ nl ''rulesets:''
     @ concat (map ruleset_yaml entries)
     @ (if entries = [] then nl ''rule_format: 1'' @ nl ''total_rules: 0'' @ nl ''rulesets: []'' else [])"

text \<open>\<open>have = None\<close>: the file is missing or empty. The result is the exit code contribution.\<close>

definition report_diff :: "string \<Rightarrow> string option \<Rightarrow> nat" where
  "report_diff want have_text = (if have_text = Some want then 0 else 1)"

end
