(* ===== verification/Manifest_Load.thy ===== *)
theory Manifest_Load
  imports Manifest_Tool Sched_Index
begin

text \<open>
  The generator and the scheduler agree: the YAML the generator writes for its kernels and rulesets is
  what the scheduler's line reader loads back. The capability grammar is the documented one.
\<close>

section \<open>The capability grammar\<close>

lemma cap_scan_spec:
  "cap_scan p segments seglen \<longleftrightarrow>
     (let ss = split_on (CHR ''.'') p
      in (seglen + length (hd ss) > 0) \<and> (\<forall>s \<in> set (tl ss). s \<noteq> []) \<and> (\<forall>s \<in> set ss. \<forall>c \<in> set s. cap_char c)
         \<and> segments + length ss \<ge> 2)"
proof (induction p segments seglen rule: cap_scan.induct)
  case (2 c p segments seglen)
  obtain t ts where ss: "split_on (CHR ''.'') p = t # ts" using split_on_nonempty by (metis neq_Nil_conv)
  show ?case
    using 2 ss by (cases "c = CHR ''.''"; cases "cap_char c") (auto simp: Let_def)
qed (auto simp: Let_def)

lemma capability_valid_spec:
  "capability_valid (Some cap) \<longleftrightarrow>
     length (split_on (CHR ''.'') cap) \<ge> 2
     \<and> (\<forall>s \<in> set (split_on (CHR ''.'') cap). s \<noteq> [] \<and> (\<forall>c \<in> set s. cap_char c))"
proof -
  obtain t ts where ss: "split_on (CHR ''.'') cap = t # ts" using split_on_nonempty by (metis neq_Nil_conv)
  show ?thesis
    by (cases "cap = []") (auto simp: capability_valid_def cap_scan_spec Let_def ss)
qed

lemma split_on_chars: "set s \<subseteq> insert d (\<Union> (set ` set (split_on d s)))"
proof (induction s)
  case (Cons c s)
  obtain t ts where ss: "split_on d s = t # ts" using split_on_nonempty by (metis neq_Nil_conv)
  show ?case using Cons unfolding ss split_on.simps list.case by auto
qed simp

lemma capability_chars:
  assumes "capability_valid (Some cap)" "c \<in> set cap"
  shows "cap_char c \<or> c = CHR ''.''"
proof -
  have "set cap \<subseteq> insert (CHR ''.'') (\<Union> (set ` set (split_on (CHR ''.'') cap)))" by (rule split_on_chars)
  with assms(2) have "c = CHR ''.'' \<or> (\<exists>s \<in> set (split_on (CHR ''.'') cap). c \<in> set s)" by blast
  with assms(1) show ?thesis unfolding capability_valid_spec by blast
qed

lemma collect_caps_valid: "collect_caps cs = Some caps \<Longrightarrow> \<forall>c \<in> set caps. capability_valid (Some c)"
  by (induction cs arbitrary: caps rule: collect_caps.induct) (auto split: if_splits option.splits)

section \<open>Trimming a written line\<close>

definition tidy :: "string \<Rightarrow> bool" where
  "tidy w \<longleftrightarrow> w \<noteq> [] \<and> \<not> isspace (hd w) \<and> \<not> isspace (last w)"

lemma rtrim_append: "x \<noteq> [] \<Longrightarrow> \<not> isspace (last x) \<Longrightarrow> rtrim (x @ y) = x @ rtrim y"
proof -
  assume "x \<noteq> []" "\<not> isspace (last x)"
  then have x: "dropWhile isspace (rev x) = rev x" by (cases x rule: rev_cases) auto
  have "dropWhile isspace (rev y @ rev x) = dropWhile isspace (rev y) @ rev x"
    using x by (metis append_Nil dropWhile_append dropWhile_eq_Nil_conv)
  then show ?thesis by (simp add: rtrim_def)
qed

lemma rtrim_space: "isspace c \<Longrightarrow> rtrim (x @ [c]) = rtrim x"
  by (simp add: rtrim_def)

lemma strip_space: "isspace c \<Longrightarrow> strip (c # s) = strip s"
  by (simp add: strip_def)

lemma strip_newline: "isspace c \<Longrightarrow> strip (s @ [c]) = strip s"
proof (cases "\<forall>x \<in> set s. isspace x")
  case True
  moreover assume "isspace c"
  ultimately have 1: "dropWhile isspace (s @ [c]) = []" and 2: "dropWhile isspace s = []"
    by (simp_all add: dropWhile_eq_Nil_conv)
  show ?thesis unfolding strip_def 1 2 ..
next
  case False
  moreover assume c: "isspace c"
  ultimately have "dropWhile isspace (s @ [c]) = dropWhile isspace s @ [c]"
    by (auto simp: dropWhile_append1)
  then show ?thesis using c by (simp add: strip_def rtrim_space)
qed

lemma rtrim_tidy: "tidy w \<Longrightarrow> rtrim w = w"
  using rtrim_append [of w "[]"] by (simp add: tidy_def rtrim_def)

lemma strip_blanks: "\<forall>c \<in> set b. isspace c \<Longrightarrow> strip (b @ s) = strip s"
  by (induction b) (simp_all add: strip_space)

lemma isspace_blank: "isspace (CHR '' '')" "isspace newline"
  by (simp_all add: isspace_def newline_def)

text \<open>A written line: blanks, a key and a value. The key survives; a tidy value is intact.\<close>

lemma strip_key:
  assumes "\<forall>c \<in> set b. isspace c" "tidy k"
  shows "strip (nl (b @ k @ v)) = k @ rtrim v"
proof -
  have "strip (nl (b @ k @ v)) = strip (k @ v)"
    using strip_newline [OF isspace_blank(2), of "b @ k @ v"] strip_blanks [OF assms(1)] by (simp add: nl_def)
  moreover have "dropWhile isspace (k @ v) = k @ v" using assms(2) by (cases k) (simp_all add: tidy_def)
  ultimately show ?thesis using assms(2) rtrim_append [of k v] by (simp add: strip_def tidy_def)
qed

lemma strip_value:
  assumes "\<forall>c \<in> set b. isspace c" "tidy k" "tidy w"
  shows "strip (nl (b @ k @ '' '' @ w)) = k @ '' '' @ w"
  using strip_key [OF assms(1,2), of "'' '' @ w"] assms(3) rtrim_append [of "'' '' @ w" "[]"]
  by (simp add: tidy_def rtrim_def)

lemma strip_tidy: "tidy w \<Longrightarrow> strip ('' '' @ w) = w \<and> strip w = w"
proof -
  assume w: "tidy w"
  then have "dropWhile isspace w = w" by (cases w) (simp_all add: tidy_def)
  then have "strip w = w" using rtrim_tidy [OF w] by (simp add: strip_def)
  then show ?thesis by (simp add: strip_space isspace_blank)
qed

section \<open>The lines of \<open>Kernel.yaml\<close>\<close>

definition header_lines :: "string \<Rightarrow> string list" where
  "header_lines derivation =
     [''# GENERATED by ccw-manifest '' @ [CHR 0xE2, CHR 0x80, CHR 0x94] @ '' DO NOT EDIT.'',
      ''# '' @ derivation, ''# Regenerate: ccw-manifest ; verify: ccw-manifest --check'',
      ''generator: ccw-manifest/0.1'', ''glue_abi: 1'']"

definition kernel_lines :: "kernel_entry \<Rightarrow> string list" where
  "kernel_lines e =
     [''  - path: '' @ ke_path e,
      ''    library: '' @ (case ke_library e of Some l \<Rightarrow> l | None \<Rightarrow> ''()''),
      ''    name: '' @ or_empty (ke_name e),
      ''    version: '' @ or_empty (ke_version e),
      ''    description: '' @ or_empty (ke_description e)]
     @ (if ke_caps e = [] then [''    capabilities: []'']
        else ''    capabilities:'' # map (\<lambda>c. ''      - '' @ c) (ke_caps e))"

definition kernel_file_lines :: "kernel_entry list \<Rightarrow> string list" where
  "kernel_file_lines entries =
     header_lines ''Source of truth: kernel-capabilities of each listed kernel.'' @ [''kernels:'']
     @ concat (map kernel_lines entries)"

lemma concat_nl: "concat (map (\<lambda>e. concat (map nl (f e))) es) = concat (map nl (concat (map f es)))"
  by (induction es) simp_all

lemma kernel_yaml_lines: "kernel_yaml e = concat (map nl (kernel_lines e))"
  by (simp add: kernel_yaml_def kernel_lines_def comp_def)

lemma header_yaml_lines: "emit_header d = concat (map nl (header_lines d))"
  by (simp only: emit_header_def header_lines_def list.map concat.simps append_Nil2)

lemma render_kernel_lines: "render_kernel_yaml es = concat (map nl (kernel_file_lines es))"
proof -
  have "concat (map kernel_yaml es) = concat (map nl (concat (map kernel_lines es)))"
    using concat_nl [of kernel_lines es] by (simp only: kernel_yaml_lines [THEN ext])
  then show ?thesis by (simp add: render_kernel_yaml_def kernel_file_lines_def header_yaml_lines)
qed

section \<open>Loading the kernels\<close>

definition kernel_of :: "kernel_entry \<Rightarrow> kernel" where
  "kernel_of e = \<lparr>k_name = or_empty (ke_name e), k_path = ke_path e, k_caps = ke_caps e\<rparr>"

definition pending_of :: "kernel_entry \<Rightarrow> pending" where
  "pending_of e = \<lparr>p_name = Some (or_empty (ke_name e)), p_path = Some (ke_path e), p_caps = ke_caps e\<rparr>"

text \<open>The entries the two sides agree on: trimmed names, paths and capabilities, lines within the
  reader's buffer.\<close>

definition entry_ok :: "kernel_entry \<Rightarrow> bool" where
  "entry_ok e \<longleftrightarrow> tidy (ke_path e) \<and> tidy (or_empty (ke_name e)) \<and> clean_scalar (or_empty (ke_name e))
     \<and> (\<forall>c \<in> set (ke_caps e). capability_valid (Some c))
     \<and> (\<forall>l \<in> set (kernel_lines e). newline \<notin> set l \<and> Suc (length l) < 2048)"

definition add_kernel :: "ccw_sched \<Rightarrow> kernel_entry \<Rightarrow> ccw_sched" where
  "add_kernel s e = index_kernel (s\<lparr>s_kernels := s_kernels s @ [kernel_of e]\<rparr>) (length (s_kernels s))"

lemma finish_pending: "entry_ok e \<Longrightarrow> finish_kernel s (pending_of e) = Some (add_kernel s e, no_kernel)"
  by (simp add: finish_kernel_def pending_of_def entry_ok_def add_kernel_def kernel_of_def)

lemma path_line:
  assumes "finish_kernel s cur = Some (s', no_kernel)" "tidy p"
  shows "load_kernels_loop s cur b (nl (''  - path: '' @ p) # ls)
    = load_kernels_loop s' \<lparr>p_name = None, p_path = Some p, p_caps = []\<rparr> False ls"
proof -
  have st: "strip (nl (''  - path: '' @ p)) = ''- path: '' @ p"
    using strip_value [of "''  ''" "''- path:''" p] assms(2) by (simp add: isspace_def tidy_def)
  have sw: "starts_with ''- path:'' (''- path: '' @ p)" "drop 7 (''- path: '' @ p) = '' '' @ p"
    by (simp_all add: starts_with_def)
  have "strip ('' '' @ p) = p" using strip_tidy [OF assms(2)] by blast
  then show ?thesis
    unfolding load_kernels_loop.simps(2) st Let_def using assms(1) sw by (simp add: no_kernel_def)
qed

lemma name_line:
  assumes "p_path cur \<noteq> None" "tidy n"
  shows "load_kernels_loop s cur b (nl (''    name: '' @ n) # ls)
    = load_kernels_loop s (cur\<lparr>p_name := Some n\<rparr>) b ls"
proof -
  have st: "strip (nl (''    name: '' @ n)) = ''name: '' @ n"
    using strip_value [of "''    ''" "''name:''" n] assms(2) by (simp add: isspace_def tidy_def)
  have sw: "\<not> starts_with ''- path:'' (''name: '' @ n)" "starts_with ''name:'' (''name: '' @ n)"
    "drop 5 (''name: '' @ n) = '' '' @ n"
    by (simp_all add: starts_with_def)
  have "strip ('' '' @ n) = n" using strip_tidy [OF assms(2)] by blast
  then show ?thesis
    unfolding load_kernels_loop.simps(2) st Let_def using assms(1) sw by simp
qed

text \<open>Lines of other keys end the capability list and change nothing else.\<close>

lemma other_line:
  assumes "strip l = c # p" "c \<notin> {CHR ''-'', CHR ''n'', CHR ''#''}" "c # p \<noteq> ''capabilities:''"
  shows "load_kernels_loop s cur b (l # ls) = load_kernels_loop s cur False ls"
proof -
  have "\<not> starts_with ''- path:'' (c # p)" "\<not> starts_with ''name:'' (c # p)" "\<not> starts_with ''- '' (c # p)"
    using assms(2) by (auto simp: starts_with_def)
  then show ?thesis unfolding load_kernels_loop.simps(2) assms(1) Let_def using assms(2,3) by auto
qed

lemma comment_line:
  assumes "strip l = CHR ''#'' # p"
  shows "load_kernels_loop s cur b (l # ls) = load_kernels_loop s cur b ls"
proof -
  have "\<not> starts_with ''- path:'' (CHR ''#'' # p)" "\<not> starts_with ''name:'' (CHR ''#'' # p)"
    "\<not> starts_with ''- '' (CHR ''#'' # p)" "CHR ''#'' # p \<noteq> ''capabilities:''"
    by (auto simp: starts_with_def)
  then show ?thesis unfolding load_kernels_loop.simps(2) assms(1) Let_def by simp
qed

lemma caps_line:
  assumes "p_path cur \<noteq> None"
  shows "load_kernels_loop s cur b (nl ''    capabilities:'' # ls) = load_kernels_loop s cur True ls"
proof -
  have "strip (nl ''    capabilities:'') = ''capabilities:''"
    by (simp add: nl_def newline_def strip_def rtrim_def isspace_def)
  with assms show ?thesis by (simp add: starts_with_def)
qed

lemma valid_cap_tidy:
  assumes "capability_valid (Some c)"
  shows "tidy c \<and> CHR '':'' \<notin> set c"
proof -
  have ch: "\<not> isspace x \<and> x \<noteq> CHR '':''" if "x \<in> set c" for x
    using capability_chars [OF assms that] by (auto simp: cap_char_def isspace_def isdigit_def)
  have "c \<noteq> []" using assms by (auto simp: capability_valid_def)
  with ch show ?thesis by (auto simp: tidy_def)
qed

lemma cap_lines:
  assumes "\<forall>c \<in> set cs. capability_valid (Some c)"
  shows "load_kernels_loop s cur True (map (\<lambda>c. nl (''      - '' @ c)) cs @ ls)
    = load_kernels_loop s (cur\<lparr>p_caps := p_caps cur @ cs\<rparr>) True ls"
  using assms
proof (induction cs arbitrary: cur)
  case (Cons c cs)
  then have c: "tidy c" "CHR '':'' \<notin> set c" using valid_cap_tidy by simp_all
  have st: "strip (nl (''      - '' @ c)) = ''- '' @ c"
    using strip_value [of "''      ''" "''-''" c] c by (simp add: isspace_def tidy_def)
  have np: "\<not> starts_with ''- path:'' (''- '' @ c)"
  proof
    assume "starts_with ''- path:'' (''- '' @ c)"
    then have "take 5 c = ''path:''" by (simp add: starts_with_def numeral_eq_Suc)
    then have "CHR '':'' \<in> set (take 5 c)" by simp
    with c(2) show False by (auto dest: in_set_takeD)
  qed
  have sw: "\<not> starts_with ''name:'' (''- '' @ c)" "''- '' @ c \<noteq> ''capabilities:''" "starts_with ''- '' (''- '' @ c)"
    "drop 2 (''- '' @ c) = c"
    by (simp_all add: starts_with_def)
  have "strip c = c" using strip_tidy [OF c(1)] by blast
  then have "load_kernels_loop s cur True (nl (''      - '' @ c) # map (\<lambda>c. nl (''      - '' @ c)) cs @ ls)
      = load_kernels_loop s (cur\<lparr>p_caps := p_caps cur @ [c]\<rparr>) True (map (\<lambda>c. nl (''      - '' @ c)) cs @ ls)"
    unfolding load_kernels_loop.simps(2) st Let_def using np sw by simp
  with Cons show ?case by simp
qed simp

lemma path_None_line: "p_path no_kernel = None"
  by (simp add: no_kernel_def)

lemma keys_tidy: "tidy ''library:''" "tidy ''version:''" "tidy ''description:''" "tidy ''generator:''" "tidy ''glue_abi:''"
  "tidy ''kernels:''" "tidy ''#''" "tidy ''capabilities:''" "tidy ''semantics:''" "tidy ''side_conditions:''"
  "tidy ''rules:''" "tidy ''profiles:''" "tidy ''rule_format:''" "tidy ''total_rules:''" "tidy ''rulesets:''"
  by (simp_all add: tidy_def isspace_def)

lemma blanks: "\<forall>c \<in> set ''    ''. isspace c" "\<forall>c \<in> set []. isspace c" "\<forall>c \<in> set ''  ''. isspace c"
  by (simp_all add: isspace_def)

lemma load_entry:
  assumes e: "entry_ok e" and f: "finish_kernel s cur = Some (s', no_kernel)"
  shows "\<exists>b'. load_kernels_loop s cur b (map nl (kernel_lines e) @ ls) = load_kernels_loop s' (pending_of e) b' ls"
proof -
  let ?c1 = "\<lparr>p_name = None, p_path = Some (ke_path e), p_caps = []\<rparr>"
  let ?c2 = "\<lparr>p_name = Some (or_empty (ke_name e)), p_path = Some (ke_path e), p_caps = []\<rparr>"
  define lib where "lib = (case ke_library e of Some l \<Rightarrow> l | None \<Rightarrow> ''()'')"
  define caps where "caps = map nl (if ke_caps e = [] then [''    capabilities: []'']
      else ''    capabilities:'' # map (\<lambda>c. ''      - '' @ c) (ke_caps e))"
  have other: "load_kernels_loop s cur b (nl (''    '' @ k @ v) # ls) = load_kernels_loop s cur False ls"
    if "tidy k" "k @ rtrim v = c # p" "c \<notin> {CHR ''-'', CHR ''n'', CHR ''#''}" "c # p \<noteq> ''capabilities:''"
    for s cur b k v c p ls
    using strip_key [OF blanks(1) that(1), of v] that by (intro other_line) auto
  have lib1: "load_kernels_loop s cur b (nl (''    library: '' @ lib) # ls) = load_kernels_loop s cur False ls"
    for s cur b ls using other [OF keys_tidy(1), of "'' '' @ lib"] by simp
  have ver: "load_kernels_loop s cur b (nl (''    version: '' @ v) # ls) = load_kernels_loop s cur False ls"
    for s cur b v ls using other [OF keys_tidy(2), of "'' '' @ v"] by simp
  have desc: "load_kernels_loop s cur b (nl (''    description: '' @ v) # ls) = load_kernels_loop s cur False ls"
    for s cur b v ls using other [OF keys_tidy(3), of "'' '' @ v"] by simp
  have none: "load_kernels_loop s cur b (nl ''    capabilities: []'' # ls) = load_kernels_loop s cur False ls"
    for s cur b ls using other [OF keys_tidy(8), of "'' []''"] by (simp add: rtrim_def isspace_def)
  have caps1: "\<exists>b'. load_kernels_loop s' ?c2 False (caps @ ls) = load_kernels_loop s' (pending_of e) b' ls"
  proof (cases "ke_caps e = []")
    case True
    then show ?thesis using none by (auto simp: caps_def pending_of_def)
  next
    case False
    have "load_kernels_loop s' ?c2 True (map (\<lambda>c. nl (''      - '' @ c)) (ke_caps e) @ ls)
        = load_kernels_loop s' (pending_of e) True ls"
      using cap_lines [of "ke_caps e" s' ?c2 ls] e by (simp add: entry_ok_def pending_of_def)
    moreover have "caps = nl ''    capabilities:'' # map (\<lambda>c. nl (''      - '' @ c)) (ke_caps e)"
      using False by (simp add: caps_def)
    ultimately show ?thesis using caps_line [of ?c2] by (intro exI [of _ True]) simp
  qed
  define l1 where "l1 = nl (''  - path: '' @ ke_path e)"
  define l2 where "l2 = nl (''    library: '' @ lib)"
  define l3 where "l3 = nl (''    name: '' @ or_empty (ke_name e))"
  define l4 where "l4 = nl (''    version: '' @ or_empty (ke_version e))"
  define l5 where "l5 = nl (''    description: '' @ or_empty (ke_description e))"
  have lines: "map nl (kernel_lines e) = [l1, l2, l3, l4, l5] @ caps"
    by (simp only: kernel_lines_def lib_def caps_def l1_def l2_def l3_def l4_def l5_def list.map map_append)
  have t: "tidy (ke_path e)" "tidy (or_empty (ke_name e))" using e by (simp_all add: entry_ok_def)
  have p1: "load_kernels_loop s cur b (l1 # ls) = load_kernels_loop s' ?c1 False ls" for ls
    unfolding l1_def by (rule path_line [OF f t(1)])
  have p2: "load_kernels_loop s' ?c1 False (l2 # ls) = load_kernels_loop s' ?c1 False ls" for ls
    unfolding l2_def by (rule lib1)
  have p3: "load_kernels_loop s' ?c1 False (l3 # ls) = load_kernels_loop s' ?c2 False ls" for ls
    using name_line [of ?c1 "or_empty (ke_name e)" s' False ls] t(2) unfolding l3_def by simp
  have p4: "load_kernels_loop s' ?c2 False (l4 # ls) = load_kernels_loop s' ?c2 False ls" for ls
    unfolding l4_def by (rule ver)
  have p5: "load_kernels_loop s' ?c2 False (l5 # ls) = load_kernels_loop s' ?c2 False ls" for ls
    unfolding l5_def by (rule desc)
  have "load_kernels_loop s cur b (map nl (kernel_lines e) @ ls) = load_kernels_loop s' ?c2 False (caps @ ls)"
    unfolding lines by (simp only: append.simps p1 p2 p3 p4 p5)
  with caps1 show ?thesis by simp
qed

lemma load_entries:
  assumes "\<forall>e \<in> set es. entry_ok e" "finish_kernel s cur = Some (s', no_kernel)"
  shows "\<exists>s1 c1. load_kernels_loop s cur b (map nl (concat (map kernel_lines es))) = Some (s1, c1)
    \<and> finish_kernel s1 c1 = Some (foldl add_kernel s' es, no_kernel)"
  using assms
proof (induction es arbitrary: s cur b s')
  case (Cons e es)
  have e: "entry_ok e" using Cons.prems(1) by simp
  obtain b' where b': "load_kernels_loop s cur b (map nl (kernel_lines e) @ map nl (concat (map kernel_lines es)))
      = load_kernels_loop s' (pending_of e) b' (map nl (concat (map kernel_lines es)))"
    using load_entry [OF e Cons.prems(2)] by blast
  have "\<exists>s1 c1. load_kernels_loop s' (pending_of e) b' (map nl (concat (map kernel_lines es))) = Some (s1, c1)
    \<and> finish_kernel s1 c1 = Some (foldl add_kernel (add_kernel s' e) es, no_kernel)"
    by (rule Cons.IH) (use Cons.prems(1) finish_pending [OF e] in simp_all)
  with b' show ?case by simp
qed simp

lemma load_header:
  assumes "\<forall>l \<in> set ls. \<exists>k v. l = k @ v \<and> tidy k \<and> hd k \<notin> {CHR ''-'', CHR ''n''} \<and> hd k \<noteq> CHR ''c''"
  shows "load_kernels_loop s cur False (map nl ls @ rest) = load_kernels_loop s cur False rest"
  using assms
proof (induction ls)
  case (Cons l ls)
  then obtain k v where l: "l = k @ v" and k: "tidy k" "hd k \<notin> {CHR ''-'', CHR ''n'', CHR ''c''}" by auto
  then obtain c p where cp: "k = c # p" by (cases k) (auto simp: tidy_def)
  have st: "strip (nl l) = c # p @ rtrim v" using strip_key [OF blanks(2) k(1), of v] by (simp add: l cp)
  show ?case
  proof (cases "c = CHR ''#''")
    case True
    with comment_line [of "nl l"] st Cons show ?thesis by simp
  next
    case False
    with k(2) cp have "c \<notin> {CHR ''-'', CHR ''n'', CHR ''#''}" "c # p @ rtrim v \<noteq> ''capabilities:''" by auto
    with other_line [OF st] Cons show ?thesis by simp
  qed
qed simp

lemma s_kernels_add: "s_kernels (foldl add_kernel s es) = s_kernels s @ map kernel_of es"
  by (induction es arbitrary: s) (simp_all add: add_kernel_def index_kernel_def Let_def)

lemma header_keys:
  "\<forall>l \<in> set (header_lines d @ [''kernels:'']). \<exists>k v. l = k @ v \<and> tidy k \<and> hd k \<notin> {CHR ''-'', CHR ''n''} \<and> hd k \<noteq> CHR ''c''"
proof -
  have c: "\<exists>k v. CHR ''#'' # w = k @ v \<and> tidy k \<and> hd k \<notin> {CHR ''-'', CHR ''n''} \<and> hd k \<noteq> CHR ''c''" for w
    by (intro exI [of _ "''#''"] exI [of _ w]) (simp add: keys_tidy)
  have k: "\<exists>k' v'. k @ v = k' @ v' \<and> tidy k' \<and> hd k' \<notin> {CHR ''-'', CHR ''n''} \<and> hd k' \<noteq> CHR ''c''"
    if "tidy k" "hd k \<notin> {CHR ''-'', CHR ''n''}" "hd k \<noteq> CHR ''c''" for k v :: string
    using that by blast
  show ?thesis
    using c k [OF keys_tidy(4), of "'' ccw-manifest/0.1''"] k [OF keys_tidy(5), of "'' 1''"] k [OF keys_tidy(6), of "[]"]
    unfolding header_lines_def by simp
qed

lemma load_rendered_kernels:
  assumes ok: "\<forall>e \<in> set es. entry_ok e" and ne: "es \<noteq> []"
    and stored: "fs (take 1023 (s_manifest_dir s @ ''/Kernel.yaml'')) = Some (render_kernel_yaml es)"
    and fresh: "s_kernels s = []"
  shows "load_kernels fs s = Inr (foldl add_kernel s es)"
proof -
  let ?hd = "header_lines ''Source of truth: kernel-capabilities of each listed kernel.'' @ [''kernels:'']"
  have short: "newline \<notin> set l \<and> Suc (length l) < 2048" if "l \<in> set ?hd" for l
    using that by (auto simp: header_lines_def newline_def)
  have lines: "\<forall>l \<in> set (kernel_file_lines es). newline \<notin> set l \<and> Suc (length l) < 2048"
  proof
    fix l assume "l \<in> set (kernel_file_lines es)"
    then have "l \<in> set ?hd \<or> (\<exists>e \<in> set es. l \<in> set (kernel_lines e))" unfolding kernel_file_lines_def by auto
    with short ok show "newline \<notin> set l \<and> Suc (length l) < 2048" unfolding entry_ok_def by blast
  qed
  have "nl = (\<lambda>l. l @ [newline])" by (simp add: nl_def fun_eq_iff)
  then have gets: "fgets_lines 2048 (render_kernel_yaml es) = map nl (kernel_file_lines es)"
    using fgets_lines_concat [OF lines] by (simp only: render_kernel_lines)
  have fin: "finish_kernel s no_kernel = Some (s, no_kernel)" by (simp add: finish_kernel_def no_kernel_def)
  obtain s1 c1 where r: "load_kernels_loop s no_kernel False (map nl (concat (map kernel_lines es))) = Some (s1, c1)"
    "finish_kernel s1 c1 = Some (foldl add_kernel s es, no_kernel)"
    using load_entries [OF ok fin] by blast
  have "load_kernels_loop s no_kernel False (map nl (kernel_file_lines es)) = Some (s1, c1)"
    using load_header [OF header_keys, of s no_kernel _ "map nl (concat (map kernel_lines es))"] r(1)
    unfolding kernel_file_lines_def map_append by (simp only: append_assoc)
  with r(2) stored ne fresh show ?thesis
    unfolding load_kernels_def stored option.case gets by (simp add: s_kernels_add)
qed

section \<open>Loading the rulesets\<close>

definition ruleset_lines :: "ruleset_entry \<Rightarrow> string list" where
  "ruleset_lines e =
     [''  - path: '' @ re_path e @ ''/'', ''    name: '' @ or_empty (re_name e),
      ''    description: '' @ or_empty (re_description e), ''    semantics: equivalence'',
      ''    side_conditions: '' @ (if re_side_conditions e then ''true'' else ''false''),
      ''    rules: '' @ dec_nat (re_rules e), ''    profiles: [core]'']"

definition rules_head :: "ruleset_entry list \<Rightarrow> string list" where
  "rules_head es = header_lines ''Source of truth: the rule declarations in each listed ruleset directory.''
     @ [''rule_format: 1'', ''total_rules: '' @ dec_nat (sum_list (map re_rules es)), ''rulesets:'']"

definition ruleset_of :: "ruleset_entry \<Rightarrow> ruleset" where
  "ruleset_of e = \<lparr>r_name = or_empty (re_name e), r_path = re_path e @ ''/''\<rparr>"

definition rule_entry_ok :: "ruleset_entry \<Rightarrow> bool" where
  "rule_entry_ok e \<longleftrightarrow> tidy (re_path e) \<and> clean_scalar (re_path e) \<and> tidy (or_empty (re_name e))
     \<and> clean_scalar (or_empty (re_name e))
     \<and> (\<forall>l \<in> set (ruleset_lines e). newline \<notin> set l \<and> Suc (length l) < 2048)"

definition add_rule :: "ccw_sched \<Rightarrow> ruleset_entry \<Rightarrow> ccw_sched" where
  "add_rule s e = index_ruleset (s\<lparr>s_rules := s_rules s @ [ruleset_of e]\<rparr>) (length (s_rules s))"

lemma render_rules_lines:
  assumes "es \<noteq> []"
  shows "render_stdrewrite_yaml es = concat (map nl (rules_head es @ concat (map ruleset_lines es)))"
proof -
  have "ruleset_yaml e = concat (map nl (ruleset_lines e))" for e
    by (simp only: ruleset_yaml_def ruleset_lines_def list.map concat.simps append_Nil2)
  then have "concat (map ruleset_yaml es) = concat (map nl (concat (map ruleset_lines es)))"
    using concat_nl [of ruleset_lines es] by presburger
  with assms show ?thesis
    by (simp add: render_stdrewrite_yaml_def rules_head_def header_yaml_lines)
qed

lemma rule_other_line:
  assumes "strip l = c # p" "c \<notin> {CHR ''-'', CHR ''n''}"
  shows "load_rules_loop s path (l # ls) = load_rules_loop s path ls"
proof -
  have "\<not> starts_with ''- path:'' (c # p)" "\<not> starts_with ''name:'' (c # p)"
    using assms(2) by (auto simp: starts_with_def)
  then show ?thesis unfolding load_rules_loop.simps(2) assms(1) Let_def by simp
qed

lemma rule_path_line:
  assumes "tidy w" "clean_scalar w"
  shows "load_rules_loop s path (nl (''  - path: '' @ w) # ls) = load_rules_loop s (Some w) ls"
proof -
  have st: "strip (nl (''  - path: '' @ w)) = ''- path: '' @ w"
    using strip_value [of "''  ''" "''- path:''" w] assms(1) by (simp add: isspace_def tidy_def)
  have sw: "starts_with ''- path:'' (''- path: '' @ w)" "drop 7 (''- path: '' @ w) = '' '' @ w"
    by (simp_all add: starts_with_def)
  have "strip ('' '' @ w) = w" using strip_tidy [OF assms(1)] by blast
  then show ?thesis unfolding load_rules_loop.simps(2) st Let_def using assms(2) sw by simp
qed

lemma rule_name_line:
  assumes "tidy w" "clean_scalar w"
  shows "load_rules_loop s (Some pt) (nl (''    name: '' @ w) # ls)
    = load_rules_loop (index_ruleset (s\<lparr>s_rules := s_rules s @ [\<lparr>r_name = w, r_path = pt\<rparr>]\<rparr>) (length (s_rules s))) None ls"
proof -
  have st: "strip (nl (''    name: '' @ w)) = ''name: '' @ w"
    using strip_value [of "''    ''" "''name:''" w] assms(1) by (simp add: isspace_def tidy_def)
  have sw: "\<not> starts_with ''- path:'' (''name: '' @ w)" "starts_with ''name:'' (''name: '' @ w)"
    "drop 5 (''name: '' @ w) = '' '' @ w"
    by (simp_all add: starts_with_def)
  have "strip ('' '' @ w) = w" using strip_tidy [OF assms(1)] by blast
  then show ?thesis unfolding load_rules_loop.simps(2) st Let_def using assms(2) sw by simp
qed

lemma load_rule_entry:
  assumes e: "rule_entry_ok e"
  shows "load_rules_loop s path (map nl (ruleset_lines e) @ ls) = load_rules_loop (add_rule s e) None ls"
proof -
  define l1 where "l1 = nl (''  - path: '' @ re_path e @ ''/'')"
  define l2 where "l2 = nl (''    name: '' @ or_empty (re_name e))"
  define l3 where "l3 = nl (''    description: '' @ or_empty (re_description e))"
  define l4 where "l4 = nl (''    semantics: equivalence'')"
  define l5 where "l5 = nl (''    side_conditions: '' @ (if re_side_conditions e then ''true'' else ''false''))"
  define l6 where "l6 = nl (''    rules: '' @ dec_nat (re_rules e))"
  define l7 where "l7 = nl (''    profiles: [core]'')"
  have lines: "map nl (ruleset_lines e) = [l1, l2, l3, l4, l5, l6, l7]"
    by (simp only: ruleset_lines_def l1_def l2_def l3_def l4_def l5_def l6_def l7_def list.map)
  have w: "tidy (re_path e @ ''/'')" "clean_scalar (re_path e @ ''/'')"
    using e by (auto simp: rule_entry_ok_def tidy_def isspace_def clean_scalar_def strchr_None newline_def carriage_return_def)
  have n: "tidy (or_empty (re_name e))" "clean_scalar (or_empty (re_name e))" using e by (simp_all add: rule_entry_ok_def)
  have skip: "load_rules_loop s path (nl (''    '' @ k @ v) # ls) = load_rules_loop s path ls"
    if "tidy k" "k = c # p" "c \<notin> {CHR ''-'', CHR ''n''}" for s path k v c p ls
    using rule_other_line [of "nl (''    '' @ k @ v)" c "p @ rtrim v"] strip_key [OF blanks(1) that(1), of v] that by simp
  have p1: "load_rules_loop s path (l1 # ls) = load_rules_loop s (Some (re_path e @ ''/'')) ls" for s path ls
    using rule_path_line [OF w] by (simp add: l1_def)
  have p2: "load_rules_loop s (Some (re_path e @ ''/'')) (l2 # ls) = load_rules_loop (add_rule s e) None ls" for s ls
    using rule_name_line [OF n] by (simp add: l2_def add_rule_def ruleset_of_def)
  have p3: "load_rules_loop s path (l3 # ls) = load_rules_loop s path ls" for s path ls
    using skip [OF keys_tidy(3), of _ _ _ _ "'' '' @ or_empty (re_description e)"] by (simp add: l3_def)
  have p4: "load_rules_loop s path (l4 # ls) = load_rules_loop s path ls" for s path ls
    using skip [OF keys_tidy(9), of _ _ _ _ "'' equivalence''"] by (simp add: l4_def)
  have p5: "load_rules_loop s path (l5 # ls) = load_rules_loop s path ls" for s path ls
    using skip [OF keys_tidy(10), of _ _ _ _ "'' '' @ (if re_side_conditions e then ''true'' else ''false'')"]
    unfolding l5_def by simp
  have p6: "load_rules_loop s path (l6 # ls) = load_rules_loop s path ls" for s path ls
    using skip [OF keys_tidy(11), of _ _ _ _ "'' '' @ dec_nat (re_rules e)"] by (simp add: l6_def)
  have p7: "load_rules_loop s path (l7 # ls) = load_rules_loop s path ls" for s path ls
    using skip [OF keys_tidy(12), of _ _ _ _ "'' [core]''"] by (simp add: l7_def)
  show ?thesis unfolding lines by (simp only: append.simps p1 p2 p3 p4 p5 p6 p7)
qed

lemma load_rule_entries:
  assumes "\<forall>e \<in> set es. rule_entry_ok e"
  shows "load_rules_loop s None (map nl (concat (map ruleset_lines es))) = Some (foldl add_rule s es)"
  using assms by (induction es arbitrary: s) (simp_all add: load_rule_entry)

lemma load_rules_header:
  assumes "\<forall>l \<in> set ls. \<exists>k v. l = k @ v \<and> tidy k \<and> hd k \<notin> {CHR ''-'', CHR ''n''} \<and> hd k \<noteq> CHR ''c''"
  shows "load_rules_loop s path (map nl ls @ rest) = load_rules_loop s path rest"
  using assms
proof (induction ls)
  case (Cons l ls)
  then obtain k v where l: "l = k @ v" and k: "tidy k" "hd k \<notin> {CHR ''-'', CHR ''n''}" by auto
  then obtain c p where cp: "k = c # p" by (cases k) (auto simp: tidy_def)
  have st: "strip (nl l) = c # p @ rtrim v" using strip_key [OF blanks(2) k(1), of v] by (simp add: l cp)
  with rule_other_line [OF st] k(2) cp Cons show ?case by simp
qed simp

lemma rules_head_keys:
  "\<forall>l \<in> set (rules_head es). \<exists>k v. l = k @ v \<and> tidy k \<and> hd k \<notin> {CHR ''-'', CHR ''n''} \<and> hd k \<noteq> CHR ''c''"
proof -
  have k: "\<exists>k' v'. k @ v = k' @ v' \<and> tidy k' \<and> hd k' \<notin> {CHR ''-'', CHR ''n''} \<and> hd k' \<noteq> CHR ''c''"
    if "tidy k" "hd k \<notin> {CHR ''-'', CHR ''n''}" "hd k \<noteq> CHR ''c''" for k v :: string
    using that by blast
  show ?thesis
    using header_keys [of "''Source of truth: the rule declarations in each listed ruleset directory.''"]
      k [OF keys_tidy(13), of "'' 1''"] k [OF keys_tidy(14), of "'' '' @ dec_nat (sum_list (map re_rules es))"]
      k [OF keys_tidy(15), of "[]"]
    unfolding rules_head_def by simp
qed

lemma s_rules_add: "s_rules (foldl add_rule s es) = s_rules s @ map ruleset_of es
    \<and> s_kernels (foldl add_rule s es) = s_kernels s \<and> s_name (foldl add_rule s es) = s_name s"
  by (induction es arbitrary: s) (simp_all add: add_rule_def index_ruleset_def Let_def)

lemma load_rendered_rules:
  assumes ok: "\<forall>e \<in> set es. rule_entry_ok e" and ne: "es \<noteq> []"
    and total: "Suc (length (dec_nat (sum_list (map re_rules es)))) < 2000"
    and stored: "fs (take 1023 (s_manifest_dir s @ ''/Stdrewrite.yaml'')) = Some (render_stdrewrite_yaml es)"
  shows "load_rules fs s = Inr (foldl add_rule s es)"
proof -
  let ?ls = "rules_head es @ concat (map ruleset_lines es)"
  have digits: "newline \<notin> set (dec_nat n)" for n using dec_nat_not_space [of newline n] isspace_blank by auto
  have short: "newline \<notin> set l \<and> Suc (length l) < 2048" if "l \<in> set (rules_head es)" for l
    using that total digits by (auto simp: rules_head_def header_lines_def newline_def)
  have lines: "\<forall>l \<in> set ?ls. newline \<notin> set l \<and> Suc (length l) < 2048"
  proof
    fix l assume "l \<in> set ?ls"
    then have "l \<in> set (rules_head es) \<or> (\<exists>e \<in> set es. l \<in> set (ruleset_lines e))" by auto
    with short ok show "newline \<notin> set l \<and> Suc (length l) < 2048" unfolding rule_entry_ok_def by blast
  qed
  have "nl = (\<lambda>l. l @ [newline])" by (simp add: nl_def fun_eq_iff)
  then have gets: "fgets_lines 2048 (render_stdrewrite_yaml es) = map nl ?ls"
    using fgets_lines_concat [OF lines] by (simp only: render_rules_lines [OF ne])
  have "load_rules_loop s None (map nl ?ls) = Some (foldl add_rule s es)"
    using load_rules_header [OF rules_head_keys, of s None es "map nl (concat (map ruleset_lines es))"] load_rule_entries [OF ok]
    unfolding map_append by (simp only:)
  with ne show ?thesis unfolding load_rules_def stored option.case gets by (simp add: s_rules_add)
qed

section \<open>Both manifests\<close>

lemma add_kernel_frame: "s_manifest_dir (foldl add_kernel s es) = s_manifest_dir s \<and> s_rules (foldl add_kernel s es) = s_rules s
    \<and> s_name (foldl add_kernel s es) = s_name s"
  by (induction es arbitrary: s) (simp_all add: add_kernel_def index_kernel_def Let_def)

lemma rendered_manifests_load:
  assumes k: "\<forall>e \<in> set ks. entry_ok e" "ks \<noteq> []" and r: "\<forall>e \<in> set rs. rule_entry_ok e" "rs \<noteq> []"
    and total: "Suc (length (dec_nat (sum_list (map re_rules rs)))) < 2000"
    and kfile: "fs (take 1023 (dir @ ''/Kernel.yaml'')) = Some (render_kernel_yaml ks)"
    and rfile: "fs (take 1023 (dir @ ''/Stdrewrite.yaml'')) = Some (render_stdrewrite_yaml rs)"
    and name: "clean_scalar name"
  shows "ccw_sched_new fs name (Some dir) = Inr (foldl add_rule (foldl add_kernel (empty_sched name dir) ks) rs)
    \<and> s_kernels (foldl add_rule (foldl add_kernel (empty_sched name dir) ks) rs) = map kernel_of ks
    \<and> s_rules (foldl add_rule (foldl add_kernel (empty_sched name dir) ks) rs) = map ruleset_of rs"
proof -
  let ?s0 = "empty_sched name dir"
  let ?s1 = "foldl add_kernel ?s0 ks"
  have 1: "load_kernels fs ?s0 = Inr ?s1"
    by (rule load_rendered_kernels [OF k]) (use kfile in \<open>simp_all add: empty_sched_def\<close>)
  have "load_rules fs ?s1 = Inr (foldl add_rule ?s1 rs)"
    by (rule load_rendered_rules [OF r total]) (use rfile add_kernel_frame [of ?s0 ks] in \<open>simp add: empty_sched_def\<close>)
  with 1 name show ?thesis
    by (simp add: ccw_sched_new_def s_rules_add s_kernels_add add_kernel_frame) (simp add: empty_sched_def)
qed

end
