(* ===== verification/SHA256.thy ===== *)
theory SHA256
  imports CStrings
begin

unbundle bit_operations_syntax

text \<open>
  The plan hash (\<open>rotr\<close>, \<open>sha256_block\<close> and \<open>ccw_plan_hash\<close> of \<open>sched/sched.c\<close>) on 32-bit words, and
  SHA-256 as the standard states it. A \<open>char\<close> of the text is read as an unsigned byte.
\<close>

section \<open>The code\<close>

type_synonym w32 = "32 word"

definition rotr :: "w32 \<Rightarrow> nat \<Rightarrow> w32" where
  "rotr x n = (drop_bit n x OR push_bit (32 - n) x)"

text \<open>The table \<open>k\<close>, by rows.\<close>

definition sha_k :: "w32 list" where
  "sha_k = concat
    [[0x428a2f98, 0x71374491, 0xb5c0fbcf, 0xe9b5dba5],
     [0x3956c25b, 0x59f111f1, 0x923f82a4, 0xab1c5ed5],
     [0xd807aa98, 0x12835b01, 0x243185be, 0x550c7dc3],
     [0x72be5d74, 0x80deb1fe, 0x9bdc06a7, 0xc19bf174],
     [0xe49b69c1, 0xefbe4786, 0x0fc19dc6, 0x240ca1cc],
     [0x2de92c6f, 0x4a7484aa, 0x5cb0a9dc, 0x76f988da],
     [0x983e5152, 0xa831c66d, 0xb00327c8, 0xbf597fc7],
     [0xc6e00bf3, 0xd5a79147, 0x06ca6351, 0x14292967],
     [0x27b70a85, 0x2e1b2138, 0x4d2c6dfc, 0x53380d13],
     [0x650a7354, 0x766a0abb, 0x81c2c92e, 0x92722c85],
     [0xa2bfe8a1, 0xa81a664b, 0xc24b8b70, 0xc76c51a3],
     [0xd192e819, 0xd6990624, 0xf40e3585, 0x106aa070],
     [0x19a4c116, 0x1e376c08, 0x2748774c, 0x34b0bcb5],
     [0x391c0cb3, 0x4ed8aa4a, 0x5b9cca4f, 0x682e6ff3],
     [0x748f82ee, 0x78a5636f, 0x84c87814, 0x8cc70208],
     [0x90befffa, 0xa4506ceb, 0xbef9a3f7, 0xc67178f2]]"

definition sha_init :: "w32 list" where
  "sha_init = [0x6a09e667, 0xbb67ae85, 0x3c6ef372, 0xa54ff53a,
               0x510e527f, 0x9b05688c, 0x1f83d9ab, 0x5be0cd19]"

text \<open>The first loop: sixteen big-endian words of the block.\<close>

definition block_word :: "w32 list \<Rightarrow> nat \<Rightarrow> w32" where
  "block_word block i =
     (push_bit 24 (block ! (i * 4)) OR push_bit 16 (block ! (i * 4 + 1))
      OR push_bit 8 (block ! (i * 4 + 2)) OR block ! (i * 4 + 3))"

text \<open>The second loop: \<open>k\<close> more entries of \<open>w\<close>.\<close>

fun extend_w :: "nat \<Rightarrow> w32 list \<Rightarrow> w32 list" where
  "extend_w 0 w = w"
| "extend_w (Suc k) w =
     (let i = length w;
          s0 = rotr (w ! (i - 15)) 7 XOR rotr (w ! (i - 15)) 18 XOR drop_bit 3 (w ! (i - 15));
          s1 = rotr (w ! (i - 2)) 17 XOR rotr (w ! (i - 2)) 19 XOR drop_bit 10 (w ! (i - 2))
      in extend_w k (w @ [w ! (i - 16) + s0 + w ! (i - 7) + s1]))"

text \<open>The third loop, from round \<open>i\<close>, on the eight working variables.\<close>

type_synonym vars = "w32 \<times> w32 \<times> w32 \<times> w32 \<times> w32 \<times> w32 \<times> w32 \<times> w32"

fun rounds :: "w32 list \<Rightarrow> nat \<Rightarrow> nat \<Rightarrow> vars \<Rightarrow> vars" where
  "rounds w i 0 (a, b, c, d, e, f, g, h) = (a, b, c, d, e, f, g, h)"
| "rounds w i (Suc n) (a, b, c, d, e, f, g, h) =
     (let s1 = rotr e 6 XOR rotr e 11 XOR rotr e 25;
          ch = (e AND f) XOR (NOT e AND g);
          s0 = rotr a 2 XOR rotr a 13 XOR rotr a 22;
          maj = (a AND b) XOR (a AND c) XOR (b AND c);
          t1 = h + s1 + ch + sha_k ! i + w ! i;
          t2 = s0 + maj
      in rounds w (Suc i) n (t1 + t2, a, b, c, d + t1, e, f, g))"

definition sha256_block :: "w32 list \<Rightarrow> w32 list \<Rightarrow> w32 list" where
  "sha256_block state block =
     (case rounds (extend_w 48 (map (block_word block) [0..<16])) 0 64
             (state ! 0, state ! 1, state ! 2, state ! 3, state ! 4, state ! 5, state ! 6, state ! 7) of
        (a, b, c, d, e, f, g, h) \<Rightarrow>
          [state ! 0 + a, state ! 1 + b, state ! 2 + c, state ! 3 + d,
           state ! 4 + e, state ! 5 + f, state ! 6 + g, state ! 7 + h])"

definition text_bytes :: "string \<Rightarrow> w32 list" where
  "text_bytes s = map of_char s"

text \<open>The loop over the full blocks of the text.\<close>

fun hash_full :: "nat \<Rightarrow> w32 list \<Rightarrow> w32 list \<Rightarrow> w32 list" where
  "hash_full 0 state bytes = state"
| "hash_full (Suc n) state bytes = hash_full n (sha256_block state (take 64 bytes)) (drop 64 bytes)"

text \<open>\<open>for (i = 0; i < 8; i++) block[63 - i] = (unsigned char)(bits >> (i * 8))\<close>.\<close>

definition put_length :: "64 word \<Rightarrow> w32 list \<Rightarrow> w32 list" where
  "put_length bits block =
     fold (\<lambda>i b. b[63 - i := of_nat (unat (drop_bit (i * 8) bits) mod 256)]) [0..<8] block"

definition zero_block :: "w32 list" where
  "zero_block = replicate 64 0"

definition hex_digit :: "nat \<Rightarrow> char" where
  "hex_digit d = (if d < 10 then char_of (48 + d) else char_of (87 + d))"

text \<open>\<open>printf\<close> of \<open>%08x\<close>.\<close>

definition hex8 :: "w32 \<Rightarrow> string" where
  "hex8 x = map (\<lambda>i. hex_digit (unat (drop_bit (4 * i) x) mod 16)) [7, 6, 5, 4, 3, 2, 1, 0]"

definition ccw_plan_hash :: "string \<Rightarrow> string" where
  "ccw_plan_hash text =
     (let full = length text div 64;
          state1 = hash_full full sha_init (text_bytes text);
          n = length text - full * 64;
          block1 = (text_bytes (drop (full * 64) text) @ drop n zero_block)[n := 0x80];
          (state2, block2) = (if n \<ge> 56 then (sha256_block state1 block1, zero_block)
                              else (state1, block1));
          bits = (of_nat (length text) * 8 :: 64 word);
          state3 = sha256_block state2 (put_length bits block2)
      in concat (map hex8 state3))"

section \<open>The standard\<close>

definition Ch :: "w32 \<Rightarrow> w32 \<Rightarrow> w32 \<Rightarrow> w32" where
  "Ch x y z = (x AND y) XOR (NOT x AND z)"

definition Maj :: "w32 \<Rightarrow> w32 \<Rightarrow> w32 \<Rightarrow> w32" where
  "Maj x y z = (x AND y) XOR (x AND z) XOR (y AND z)"

definition Sigma0 :: "w32 \<Rightarrow> w32" where
  "Sigma0 x = word_rotr 2 x XOR word_rotr 13 x XOR word_rotr 22 x"

definition Sigma1 :: "w32 \<Rightarrow> w32" where
  "Sigma1 x = word_rotr 6 x XOR word_rotr 11 x XOR word_rotr 25 x"

definition sigma0 :: "w32 \<Rightarrow> w32" where
  "sigma0 x = word_rotr 7 x XOR word_rotr 18 x XOR drop_bit 3 x"

definition sigma1 :: "w32 \<Rightarrow> w32" where
  "sigma1 x = word_rotr 17 x XOR word_rotr 19 x XOR drop_bit 10 x"

text \<open>The message schedule of a block of sixteen words.\<close>

fun W :: "(nat \<Rightarrow> w32) \<Rightarrow> nat \<Rightarrow> w32" where
  "W m t = (if t < 16 then m t
            else sigma1 (W m (t - 2)) + W m (t - 7) + sigma0 (W m (t - 15)) + W m (t - 16))"

declare W.simps [simp del]

definition sha_round :: "(nat \<Rightarrow> w32) \<Rightarrow> nat \<Rightarrow> vars \<Rightarrow> vars" where
  "sha_round m t v =
     (case v of (a, b, c, d, e, f, g, h) \<Rightarrow>
        (let T1 = h + Sigma1 e + Ch e f g + sha_k ! t + W m t;
             T2 = Sigma0 a + Maj a b c
         in (T1 + T2, a, b, c, d + T1, e, f, g)))"

text \<open>A word of four bytes, most significant first.\<close>

definition be_word :: "w32 list \<Rightarrow> nat \<Rightarrow> w32" where
  "be_word block i = (\<Sum>j < 4. block ! (4 * i + j) * 2 ^ (24 - 8 * j))"

definition sha_compress :: "w32 list \<Rightarrow> w32 list \<Rightarrow> w32 list" where
  "sha_compress H block =
     (case fold (sha_round (be_word block)) [0..<64] (H ! 0, H ! 1, H ! 2, H ! 3, H ! 4, H ! 5, H ! 6, H ! 7) of
        (a, b, c, d, e, f, g, h) \<Rightarrow>
          map2 (+) H [a, b, c, d, e, f, g, h])"

text \<open>
  Padding: a one bit, the least number of zero bits that makes the length 448 modulo 512, and the
  length of the message in bits as a 64-bit big-endian number; then blocks of 64 bytes.
\<close>

definition sha_pad :: "w32 list \<Rightarrow> w32 list" where
  "sha_pad msg =
     msg @ [0x80] @ replicate ((119 - length msg mod 64) mod 64) 0
       @ map (\<lambda>i. of_nat (8 * length msg div 256 ^ (7 - i) mod 256)) [0..<8]"

fun sha_blocks :: "w32 list \<Rightarrow> w32 list list" where
  "sha_blocks [] = []"
| "sha_blocks (x # xs) = take 64 (x # xs) # sha_blocks (drop 63 xs)"

definition sha256 :: "w32 list \<Rightarrow> w32 list" where
  "sha256 msg = fold (\<lambda>b H. sha_compress H b) (sha_blocks (sha_pad msg)) sha_init"

end
