(* ===== verification/SHA256_Proof.thy ===== *)
theory SHA256_Proof
  imports SHA256
begin

unbundle bit_operations_syntax

text \<open>
  The plan hash is SHA-256: rotation, message schedule, rounds, block function, padding.
\<close>

section \<open>Rotation and words\<close>

lemma rotr_eq: "0 < n \<Longrightarrow> n < 32 \<Longrightarrow> rotr x n = word_rotr n x"
proof (rule bit_eqI)
  fix k assume n: "0 < n" "n < 32" and "possible_bit TYPE(32 word) k"
  then have k: "k < 32" by simp
  show "bit (rotr x n) k = bit (word_rotr n x) k"
  proof (cases "k + n < 32")
    case True
    then have "\<not> 32 - n \<le> k" using n by simp
    with True k show ?thesis
      by (simp add: rotr_def bit_or_iff bit_drop_bit_eq bit_push_bit_iff bit_word_rotr_iff add.commute)
  next
    case False
    then have "(k + n) mod 32 = k - (32 - n)" "32 - n \<le> k" using n k by (simp_all add: mod_if)
    moreover have "\<not> bit x (n + k)" using False bit_imp_le_length [of x "n + k"] by auto
    ultimately show ?thesis using False n k
      by (simp add: rotr_def bit_or_iff bit_drop_bit_eq bit_push_bit_iff bit_word_rotr_iff)
  qed
qed

lemma byte_bit: "x < 256 \<Longrightarrow> bit x k \<Longrightarrow> k < 8" for x :: w32
proof -
  assume "x < 256" "bit x k"
  then have "x AND mask 8 = x" by (intro less_mask_eq) simp
  with \<open>bit x k\<close> have "bit (x AND mask 8) k" by simp
  then show "k < 8" by (simp add: bit_and_iff bit_mask_iff)
qed

lemma block_word_eq:
  assumes "\<forall>x \<in> set block. x < 256" and "i * 4 + 3 < length block"
  shows "block_word block i = be_word block i"
proof -
  let ?b = "\<lambda>j. block ! (i * 4 + j)"
  have b: "?b j < 256" if "j < 4" for j using assms that by simp
  have 3: "push_bit 8 (?b 2) OR ?b 3 = push_bit 8 (?b 2) + ?b 3"
    by (rule disjunctive_add [symmetric]) (use byte_bit [OF b, of 3] in \<open>force simp: bit_push_bit_iff\<close>)
  have o': "bit (push_bit 8 (?b 2) OR ?b 3) k \<Longrightarrow> k < 16" for k
    using byte_bit [OF b, of 2] byte_bit [OF b, of 3] by (fastforce simp: bit_or_iff bit_push_bit_iff)
  have 2: "push_bit 16 (?b 1) OR (push_bit 8 (?b 2) OR ?b 3) = push_bit 16 (?b 1) + (push_bit 8 (?b 2) OR ?b 3)"
    by (rule disjunctive_add [symmetric]) (use o' in \<open>force simp: bit_push_bit_iff\<close>)
  have o2: "bit (push_bit 16 (?b 1) OR (push_bit 8 (?b 2) OR ?b 3)) k \<Longrightarrow> k < 24" for k
    using o' byte_bit [OF b, of 1] by (fastforce simp: bit_or_iff bit_push_bit_iff)
  have 1: "push_bit 24 (?b 0) OR (push_bit 16 (?b 1) OR (push_bit 8 (?b 2) OR ?b 3))
      = push_bit 24 (?b 0) + (push_bit 16 (?b 1) OR (push_bit 8 (?b 2) OR ?b 3))"
    by (rule disjunctive_add [symmetric]) (use o2 in \<open>force simp: bit_push_bit_iff\<close>)
  have "block_word block i = push_bit 24 (?b 0) + (push_bit 16 (?b 1) + (push_bit 8 (?b 2) + ?b 3))"
    unfolding 3 [symmetric] 2 [symmetric] 1 [symmetric] by (simp add: block_word_def or.assoc)
  also have "\<dots> = be_word block i"
    by (simp add: be_word_def push_bit_eq_mult mult.commute lessThan_nat_numeral eval_nat_numeral add_ac)
  finally show ?thesis .
qed

section \<open>Schedule and rounds\<close>

lemma extend_w_W:
  assumes "16 \<le> n"
  shows "extend_w k (map (W m) [0..<n]) = map (W m) [0..<n + k]"
  using assms
proof (induction k arbitrary: n)
  case 0
  then show ?case by simp
next
  case (Suc k)
  have "W m n = sigma1 (W m (n - 2)) + W m (n - 7) + sigma0 (W m (n - 15)) + W m (n - 16)"
    using Suc.prems by (subst W.simps) simp
  then have "W m (n - 16) + (rotr (W m (n - 15)) 7 XOR rotr (W m (n - 15)) 18 XOR drop_bit 3 (W m (n - 15)))
      + W m (n - 7) + (rotr (W m (n - 2)) 17 XOR rotr (W m (n - 2)) 19 XOR drop_bit 10 (W m (n - 2))) = W m n"
    by (simp add: sigma0_def sigma1_def rotr_eq add_ac)
  then have "extend_w (Suc k) (map (W m) [0..<n]) = extend_w k (map (W m) [0..<Suc n])"
    using Suc.prems by (simp add: Let_def)
  also have "\<dots> = map (W m) [0..<Suc n + k]" using Suc by (intro Suc.IH) simp
  finally show ?case by simp
qed

lemma schedule_eq:
  assumes "\<forall>x \<in> set block. x < 256" and "length block = 64"
  shows "extend_w 48 (map (block_word block) [0..<16]) = map (W (be_word block)) [0..<64]"
proof -
  have "map (block_word block) [0..<16] = map (W (be_word block)) [0..<16]"
  proof (rule map_cong [OF refl])
    fix t assume "t \<in> set [0..<16::nat]"
    then show "block_word block t = W (be_word block) t"
      using block_word_eq [OF assms(1), of t] assms(2) by (simp add: W.simps)
  qed
  then show ?thesis using extend_w_W [of 16 48 "be_word block"] by (simp only:) simp
qed

lemma vars_cases:
  obtains a b c d e f g h where "v = (a, b, c, d, e, f, g, h)"
  by (metis surj_pair)

lemma rounds_fold:
  assumes "\<forall>t < i + n. w ! t = W m t"
  shows "rounds w i n v = fold (sha_round m) [i..<i + n] v"
  using assms
proof (induction n arbitrary: i v)
  case 0
  then show ?case by (cases v rule: vars_cases) simp
next
  case (Suc n)
  obtain a b c d e f g h where v: "v = (a, b, c, d, e, f, g, h)" by (rule vars_cases)
  have "rounds w i (Suc n) v = rounds w (Suc i) n (sha_round m i v)"
    using Suc.prems by (simp add: v sha_round_def Let_def Sigma0_def Sigma1_def Ch_def Maj_def rotr_eq)
  also have "\<dots> = fold (sha_round m) [Suc i..<Suc i + n] (sha_round m i v)"
    using Suc.prems by (intro Suc.IH) simp
  finally show ?case by (simp add: upt_conv_Cons del: upt_Suc)
qed

lemma block_eq_compress:
  assumes "\<forall>x \<in> set block. x < 256" and "length block = 64" and "length H = 8"
  shows "sha256_block H block = sha_compress H block"
proof -
  have r: "rounds (extend_w 48 (map (block_word block) [0..<16])) 0 64 v
      = fold (sha_round (be_word block)) [0..<64] v" for v
    unfolding schedule_eq [OF assms(1,2)] using rounds_fold [of 0 64 _ "be_word block" v] by simp
  obtain h0 h1 h2 h3 h4 h5 h6 h7 where H: "H = [h0, h1, h2, h3, h4, h5, h6, h7]"
    using assms(3) by (auto simp: numeral_eq_Suc length_Suc_conv)
  obtain a b c d e f g h where "fold (sha_round (be_word block)) [0..<64] (h0, h1, h2, h3, h4, h5, h6, h7)
      = (a, b, c, d, e, f, g, h)" by (rule vars_cases)
  then show ?thesis
    unfolding sha256_block_def sha_compress_def r by (simp add: H eval_nat_numeral)
qed

lemma length_compress: "length H = 8 \<Longrightarrow> length (sha_compress H b) = 8"
  by (simp add: sha_compress_def split: prod.splits)

section \<open>Blocks\<close>

lemma sha_blocks_append: "length a = 64 \<Longrightarrow> sha_blocks (a @ b) = a # sha_blocks b"
  by (cases a) auto

definition hash_blocks :: "w32 list \<Rightarrow> w32 list list \<Rightarrow> w32 list" where
  "hash_blocks H bs = fold (\<lambda>b H. sha_compress H b) bs H"

lemma hash_blocks_length: "length H = 8 \<Longrightarrow> length (hash_blocks H bs) = 8"
  unfolding hash_blocks_def by (induction bs arbitrary: H) (simp_all add: length_compress)

lemma hash_full_eq:
  assumes "\<forall>x \<in> set bytes. x < 256" "length H = 8" "64 * n \<le> length bytes"
  shows "hash_full n H bytes = hash_blocks H (sha_blocks (take (64 * n) bytes))
    \<and> sha_blocks (bytes @ r) = sha_blocks (take (64 * n) bytes) @ sha_blocks (drop (64 * n) bytes @ r)"
  using assms
proof (induction n arbitrary: H bytes)
  case 0
  then show ?case by (simp add: hash_blocks_def)
next
  case (Suc n)
  let ?a = "take 64 bytes" and ?b = "drop 64 bytes"
  have a: "length ?a = 64" "\<forall>x \<in> set ?a. x < 256" "\<forall>x \<in> set ?b. x < 256"
    using Suc.prems by (auto dest: in_set_takeD in_set_dropD)
  have t: "take (64 * Suc n) bytes = ?a @ take (64 * n) ?b" by (simp add: take_add)
  have d: "drop (64 * Suc n) bytes = drop (64 * n) ?b" by (simp add: add.commute)
  have IH: "hash_full n (sha_compress H ?a) ?b = hash_blocks (sha_compress H ?a) (sha_blocks (take (64 * n) ?b))
    \<and> sha_blocks (?b @ r) = sha_blocks (take (64 * n) ?b) @ sha_blocks (drop (64 * n) ?b @ r)"
    using Suc.prems a by (intro Suc.IH) (simp_all add: length_compress)
  have "sha_blocks (bytes @ r) = ?a # sha_blocks (?b @ r)"
    using sha_blocks_append [OF a(1), of "?b @ r"] by (metis append.assoc append_take_drop_id)
  with IH a Suc.prems show ?case
    unfolding t d by (simp add: sha_blocks_append block_eq_compress hash_blocks_def)
qed

section \<open>Padding\<close>

definition length_bytes :: "64 word \<Rightarrow> w32 list" where
  "length_bytes bits = map (\<lambda>i. of_nat (unat (drop_bit (8 * (7 - i)) bits) mod 256)) [0..<8]"

lemma put_length_eq:
  assumes "length b = 64"
  shows "put_length bits b = take 56 b @ length_bytes bits"
proof -
  obtain c where b: "b = take 56 b @ c" "length c = 8" using assms 
  proof -
    have "b = take 56 b @ drop 56 b" "length (drop 56 b) = 8" using assms by simp_all
    with that show ?thesis by blast
  qed
  obtain c0 c1 c2 c3 c4 c5 c6 c7 where c: "c = [c0, c1, c2, c3, c4, c5, c6, c7]"
    using b(2) by (auto simp: numeral_eq_Suc length_Suc_conv)
  have l: "length (take 56 b) = 56" using assms by simp
  have "put_length bits (a @ [c0, c1, c2, c3, c4, c5, c6, c7]) = a @ length_bytes bits"
    if "length a = 56" for a
    using that by (simp add: put_length_def length_bytes_def upt_rec list_update_append mult.commute)
  from this [OF l] show ?thesis using b(1) c by metis
qed

lemma length_bytes_eq:
  assumes "8 * n < 2 ^ 64"
  shows "length_bytes (of_nat n * 8) = map (\<lambda>i. of_nat (8 * n div 256 ^ (7 - i) mod 256)) [0..<8]"
proof -
  have u: "unat (of_nat n * 8 :: 64 word) = 8 * n"
  proof -
    have "(of_nat n * 8 :: 64 word) = of_nat (8 * n)" by simp
    with assms show ?thesis by (simp only: unat_of_nat) simp
  qed
  have "unat (drop_bit (8 * k) (of_nat n * 8 :: 64 word)) = 8 * n div 256 ^ k" for k
  proof -
    have "unat (drop_bit (8 * k) (of_nat n * 8 :: 64 word)) = drop_bit (8 * k) (unat (of_nat n * 8 :: 64 word))"
      by (rule unat_drop_bit_eq)
    also have "\<dots> = 8 * n div 256 ^ k" unfolding u drop_bit_eq_div power_mult by simp
    finally show ?thesis .
  qed
  then show ?thesis by (simp add: length_bytes_def)
qed

lemma of_nat_byte: "n < 256 \<Longrightarrow> (of_nat n :: w32) < 256"
  by (simp add: word_less_nat_alt unat_of_nat)

lemma of_char_byte: "(of_char c :: w32) < 256"
proof -
  have "(of_char c :: w32) = of_nat (of_char c)" by (simp only: of_nat_of_char)
  then show ?thesis using of_nat_byte [of "of_char c"] by (simp only: nat_of_char_less_256)
qed

lemma length_bytes_byte: "\<forall>x \<in> set (length_bytes bits). x < 256"
  by (auto simp: length_bytes_def intro!: of_nat_byte)

section \<open>The hash\<close>

lemma text_bytes_byte: "\<forall>x \<in> set (text_bytes s). x < 256"
  by (auto simp: text_bytes_def of_char_byte)

lemma length_sha_init: "length sha_init = 8"
  by (simp add: sha_init_def)

text \<open>The last one or two blocks of the code are those of the padded rest.\<close>

lemma last_blocks:
  fixes bits :: "64 word" and rest H :: "w32 list"
  assumes rest: "length rest < 64" "\<forall>x \<in> set rest. x < 256" and H: "length H = 8"
  defines "n \<equiv> length rest" and "len \<equiv> length_bytes bits"
  shows "(let block1 = (rest @ drop n zero_block)[n := 0x80];
              (state2, block2) = (if n \<ge> 56 then (sha256_block H block1, zero_block) else (H, block1))
          in sha256_block state2 (put_length bits block2))
    = hash_blocks H (sha_blocks (rest @ [0x80] @ replicate ((119 - n) mod 64) 0 @ len))"
proof -
  let ?b = "rest @ [0x80] @ replicate (63 - n) 0"
  have b1: "(rest @ drop n zero_block)[n := 0x80] = ?b"
  proof -
    have "drop n zero_block = 0 # replicate (63 - n) 0"
    proof -
      have "64 - n = Suc (63 - n)" using rest(1) by (simp add: n_def)
      then show ?thesis by (simp add: zero_block_def)
    qed
    then show ?thesis by (simp add: n_def)
  qed
  have lb: "length ?b = 64" using rest(1) by (simp add: n_def)
  have bb: "\<forall>x \<in> set ?b. x < 256" using rest(2) by auto
  have ll: "length len = 8" by (simp add: len_def length_bytes_def)
  have lz: "length zero_block = 64" "take 56 zero_block = replicate 56 0" by (simp_all add: zero_block_def)
  have bl: "\<forall>x \<in> set len. x < 256" by (simp add: len_def length_bytes_byte)
  show ?thesis
  proof (cases "n \<ge> 56")
    case True
    have "(119 - n) mod 64 = 63 - n + 56" using True rest(1) by (simp add: n_def)
    then have split: "rest @ [0x80] @ replicate ((119 - n) mod 64) 0 @ len = ?b @ (replicate 56 0 @ len)"
      by (simp only: replicate_add append_assoc)
    have "sha_blocks (replicate 56 0 @ len) = [replicate 56 0 @ len]"
      using sha_blocks_append [of "replicate 56 0 @ len" "[]"] ll by simp
    then have "sha_blocks (rest @ [0x80] @ replicate ((119 - n) mod 64) 0 @ len) = [?b, replicate 56 0 @ len]"
      unfolding split using sha_blocks_append [OF lb] by simp
    moreover have "sha256_block (sha_compress H ?b) (replicate 56 0 @ len) = sha_compress (sha_compress H ?b) (replicate 56 0 @ len)"
      using bl ll H by (intro block_eq_compress) (auto simp: length_compress)
    ultimately show ?thesis
      using True block_eq_compress [OF bb lb H] unfolding b1 Let_def
      by (simp add: put_length_eq [OF lz(1)] lz(2) hash_blocks_def len_def [symmetric])
  next
    case False
    then have m: "(119 - n) mod 64 = 55 - n" by (simp add: mod_if)
    have t: "take 56 ?b = rest @ [0x80] @ replicate (55 - n) 0" using False by (simp add: n_def take_Cons')
    let ?c = "rest @ [0x80] @ replicate (55 - n) 0 @ len"
    have lc: "length ?c = 64" using False ll by (simp add: n_def)
    have "sha_blocks ?c = [?c]" using sha_blocks_append [OF lc, of "[]"] by simp
    moreover have "sha256_block H ?c = sha_compress H ?c"
      using rest(2) bl lc H by (intro block_eq_compress) auto
    moreover have "put_length bits ?b = ?c"
      unfolding put_length_eq [OF lb] t by (simp add: len_def)
    ultimately show ?thesis
      using False unfolding b1 Let_def by (simp add: m hash_blocks_def)
  qed
qed

lemma plan_hash_eq:
  assumes "8 * length text < 2 ^ 64"
  shows "ccw_plan_hash text = concat (map hex8 (sha256 (text_bytes text)))"
proof -
  let ?bytes = "text_bytes text" and ?q = "length text div 64" and ?bits = "of_nat (length text) * 8 :: 64 word"
  let ?rest = "drop (64 * ?q) ?bytes" and ?n = "length text mod 64"
  have lt: "length ?bytes = length text" by (simp add: text_bytes_def)
  have n: "length text - ?q * 64 = ?n" by (simp add: minus_div_mult_eq_mod)
  have lr: "length ?rest = ?n" using lt by (simp add: minus_mult_div_eq_mod)
  have rest: "text_bytes (drop (?q * 64) text) = ?rest" by (simp add: text_bytes_def drop_map mult.commute)
  have rb: "\<forall>x \<in> set ?rest. x < 256" using text_bytes_byte by (auto dest: in_set_dropD)
  have pad: "sha_pad ?bytes = ?bytes @ ([0x80] @ replicate ((119 - ?n) mod 64) 0 @ length_bytes ?bits)"
    unfolding sha_pad_def lt length_bytes_eq [OF assms] ..
  have full: "hash_full ?q sha_init ?bytes = hash_blocks sha_init (sha_blocks (take (64 * ?q) ?bytes))"
    "sha_blocks (?bytes @ r) = sha_blocks (take (64 * ?q) ?bytes) @ sha_blocks (?rest @ r)" for r
    using hash_full_eq [OF text_bytes_byte length_sha_init, of ?q "text" r] lt by auto
  let ?H = "hash_blocks sha_init (sha_blocks (take (64 * ?q) ?bytes))"
  have H: "length ?H = 8" by (rule hash_blocks_length [OF length_sha_init])
  have "sha256 ?bytes = hash_blocks ?H (sha_blocks (?rest @ [0x80] @ replicate ((119 - ?n) mod 64) 0 @ length_bytes ?bits))"
    unfolding sha256_def pad full(2) by (simp add: hash_blocks_def)
  also have "\<dots> = (let block1 = (?rest @ drop ?n zero_block)[?n := 0x80];
              (state2, block2) = (if ?n \<ge> 56 then (sha256_block ?H block1, zero_block) else (?H, block1))
          in sha256_block state2 (put_length ?bits block2))"
    using last_blocks [OF _ rb H, of ?bits] lr by simp
  finally show ?thesis
    unfolding ccw_plan_hash_def Let_def full(1) n rest by (simp add: Let_def split: prod.splits if_splits)
qed

end
