(* ===== verification/Sched_Demo.thy ===== *)
theory Sched_Demo
  imports Sched_Spec Manifest_Load SHA256_Proof "HOL-Library.Code_Target_Nat"
begin

text \<open>
  Concrete manifests and schedulers, on which the properties of the scheduler are instantiated: two
  kernels and two rulesets as the manifest generator writes them, and a plan over them.
\<close>

section \<open>Manifests\<close>

definition demo_kernels :: "kernel_entry list" where
  "demo_kernels =
     [\<lparr>ke_path = ''kernels/fold.scm'', ke_library = Some ''(ccweave kernel fold)'', ke_name = Some ''const-fold'',
       ke_version = Some ''0.1.0'', ke_description = None, ke_caps = [''opt.fold'']\<rparr>,
      \<lparr>ke_path = ''kernels/inline.scm'', ke_library = None, ke_name = Some ''inline'',
       ke_version = None, ke_description = Some ''inliner'', ke_caps = [''opt.fold'', ''opt.inline'']\<rparr>]"

definition demo_rules :: "ruleset_entry list" where
  "demo_rules =
     [\<lparr>re_path = ''arith/identity'', re_name = Some ''arith.identity'', re_description = None, re_rules = 3,
       re_side_conditions = False\<rparr>,
      \<lparr>re_path = ''arith/shift'', re_name = Some ''arith.shift'', re_description = Some ''shifts'', re_rules = 2,
       re_side_conditions = True\<rparr>]"

definition demo_new :: "string \<Rightarrow> ccw_sched" where
  "demo_new name = foldl add_rule (foldl add_kernel (empty_sched name ''m'') demo_kernels) demo_rules"

lemma demo_kernels_ok: "\<forall>e \<in> set demo_kernels. entry_ok e"
  by code_simp

lemma demo_rules_ok: "\<forall>e \<in> set demo_rules. rule_entry_ok e"
  by code_simp

section \<open>Plans\<close>

text \<open>A kernel, a barrier, a rewrite of two rulesets, a second kernel.\<close>

definition demo_plan :: ccw_sched where
  "demo_plan =
     fst (ccw_sched_require_capability
       (fst (ccw_sched_rewrite
         (fst (ccw_sched_barrier
           (fst (ccw_sched_require_kernel (demo_new ''demo'') ''const-fold'')) None)) ''arith.*'')) ''opt.inline'' None)"

definition demo_cyclic :: ccw_sched where
  "demo_cyclic = fst (ccw_sched_edge demo_plan 4 1)"

definition demo_sealed :: ccw_sched where
  "demo_sealed = fst (ccw_sched_seal demo_plan)"

section \<open>The file system\<close>

definition demo_fs :: fs where
  "demo_fs path =
     (if path = ''m/Kernel.yaml'' then Some (render_kernel_yaml demo_kernels)
      else if path = ''m/Stdrewrite.yaml'' then Some (render_stdrewrite_yaml demo_rules)
      else if path = ''demo.plan'' then Some (plan_text demo_plan)
      else None)"

lemma demo_files:
  "demo_fs (take 1023 (''m'' @ ''/Kernel.yaml'')) = Some (render_kernel_yaml demo_kernels)"
  "demo_fs (take 1023 (''m'' @ ''/Stdrewrite.yaml'')) = Some (render_stdrewrite_yaml demo_rules)"
  by (simp_all add: demo_fs_def)

lemma demo_created_from:
  assumes "fs (take 1023 (''m'' @ ''/Kernel.yaml'')) = Some (render_kernel_yaml demo_kernels)"
    "fs (take 1023 (''m'' @ ''/Stdrewrite.yaml'')) = Some (render_stdrewrite_yaml demo_rules)" "clean_scalar name"
  shows "ccw_sched_new fs name (Some ''m'') = Inr (demo_new name)"
  unfolding demo_new_def
  by (rule conjunct1, rule rendered_manifests_load [OF demo_kernels_ok _ demo_rules_ok _ _ assms])
     (simp_all add: demo_kernels_def demo_rules_def dec_nat.simps)

lemma demo_created: "clean_scalar name \<Longrightarrow> ccw_sched_new demo_fs name (Some ''m'') = Inr (demo_new name)"
  by (rule demo_created_from [OF demo_files])

lemma demo_name: "clean_scalar ''demo''"
  by code_simp

lemma reachable_step: "sched_reachable s \<Longrightarrow> sched_step s s' \<Longrightarrow> sched_reachable s'"
  by (auto simp: sched_reachable_def intro: rtranclp.rtrancl_into_rtrancl)

lemma demo_new_reachable: "clean_scalar name \<Longrightarrow> sched_reachable (demo_new name)"
proof -
  assume "clean_scalar name"
  then have "sched_created (demo_new name)" unfolding sched_created_def using demo_created by blast
  then show ?thesis unfolding sched_reachable_def by blast
qed

lemma demo_plan_reachable: "sched_reachable demo_plan"
  unfolding demo_plan_def
  by (rule reachable_step [OF _ sched_step.require_capability],
      rule reachable_step [OF _ sched_step.rewrite],
      rule reachable_step [OF _ sched_step.barrier],
      rule reachable_step [OF _ sched_step.require_kernel],
      rule demo_new_reachable [OF demo_name])

lemma demo_cyclic_reachable: "sched_reachable demo_cyclic"
  unfolding demo_cyclic_def
  by (rule reachable_step [OF demo_plan_reachable], rule sched_step.edge) (simp_all add: uint_mod_def)

lemma demo_sealed_reachable: "sched_reachable demo_sealed"
  unfolding demo_sealed_def by (rule reachable_step [OF demo_plan_reachable], rule sched_step.seal)

lemma demo_values:
  "s_edges demo_plan = [(1, 2), (2, 3), (2, 4)]"
  "map nd_kind (s_nodes demo_plan) = [1, 3, 2, 1]"
  "map nd_members (s_nodes demo_plan) = [[''opt.fold''], [], [''arith.identity'', ''arith.shift''], [''opt.fold'', ''opt.inline'']]"
  "acyclic_check demo_plan \<and> \<not> acyclic_check demo_cyclic"
  by code_simp+

lemma demo_sizes: "length (s_nodes demo_plan) < uint_mod \<and> length (s_edges demo_plan) < UINT_MAX
    \<and> length (s_nodes demo_cyclic) < uint_mod \<and> length (s_edges demo_cyclic) < UINT_MAX"
  by code_simp

lemma demo_tokens: "plan_tokens demo_plan \<and> s_nodes demo_plan \<noteq> []"
  by code_simp

lemma demo_words: "check_words demo_plan"
  by code_simp

lemma demo_seals: "ccw_sched_seal demo_plan = (demo_plan\<lparr>s_sealed := True\<rparr>, Inr (plan_text demo_plan))"
proof -
  have "\<not> s_sealed demo_plan" "\<exists>n \<in> set (s_nodes demo_plan). nd_kind n \<noteq> NODE_BARRIER" by code_simp+
  with demo_values(4) show ?thesis by (simp add: ccw_sched_seal_def can_mutate_def)
qed

end
