(* ===== verification/Sched_Props.thy ===== *)
theory Sched_Props
  imports Sched_Frame Sched_Demo
begin

text \<open>
  The properties of the scheduler and of the manifest generator, each with its claim id, and their
  instances on the plans of \<open>Sched_Demo\<close>.
\<close>

section \<open>The scheduler's state\<close>

text \<open>C4: every scheduler that any sequence of API calls can reach from a loaded manifest is well
  formed: its indexes agree with the manifest, node ids count from 1, edges join existing nodes and
  are recorded once, every node says what the manifest says, and barriers are connected to all nodes
  before them and all work nodes after them (while ids fit 32 bits).\<close>

theorem reachable_schedulers_wf:
  assumes "sched_reachable s"
  shows "wf_sched s"
  by (rule sched_reachable_wf [OF assms])

theorem reachable_schedulers_wf_witness: "wf_sched demo_plan \<and> wf_sched demo_cyclic \<and> wf_sched demo_sealed"
  using reachable_schedulers_wf [OF demo_plan_reachable] reachable_schedulers_wf [OF demo_cyclic_reachable]
    reachable_schedulers_wf [OF demo_sealed_reachable] by blast

text \<open>A sealed scheduler is frozen: every operation on it fails and no sequence of operations
  changes it.\<close>

theorem sealed_frozen:
  assumes "s_sealed s"
  shows "(\<forall>s'. sched_step\<^sup>*\<^sup>* s s' \<longrightarrow> s' = s)
    \<and> (\<forall>n. \<exists>e. ccw_sched_require_kernel s n = (s, Inl e))
    \<and> (\<forall>c p. \<exists>e. ccw_sched_require_capability s c p = (s, Inl e))
    \<and> (\<forall>p. ccw_sched_rewrite s p = (s, Inl (sfail 3 ''scheduler is sealed'')))
    \<and> (\<forall>a b. \<exists>e. ccw_sched_edge s a b = (s, Inl e))
    \<and> (\<forall>l. \<exists>e. ccw_sched_barrier s l = (s, Inl e))
    \<and> ccw_sched_seal s = (s, Inl (sfail 3 ''scheduler is sealed''))"
proof -
  have node: "add_node s k n ms = (s, Inl (sfail 1 ''out of memory or invalid node name''))" for k n ms
    using assms by (simp add: add_node_def can_mutate_def)
  have "\<exists>e. ccw_sched_require_kernel s n = (s, Inl e)" for n
    by (auto simp: ccw_sched_require_kernel_def node split: option.splits)
  moreover have "\<exists>e. ccw_sched_require_capability s c p = (s, Inl e)" for c p
    by (auto simp: ccw_sched_require_capability_def node Let_def split: option.splits)
  moreover have "\<exists>e. ccw_sched_edge s a b = (s, Inl e)" for a b
    using assms by (simp add: ccw_sched_edge_def can_mutate_def)
  moreover have "\<exists>e. ccw_sched_barrier s l = (s, Inl e)" for l
    by (simp add: ccw_sched_barrier_def node)
  ultimately show ?thesis
    using assms sealed_steps by (auto simp: ccw_sched_rewrite_def ccw_sched_seal_def can_mutate_def)
qed

theorem sealed_frozen_witness:
  "ccw_sched_edge demo_sealed 1 4 \<noteq> ccw_sched_edge demo_plan 1 4
   \<and> (\<exists>e. ccw_sched_edge demo_sealed 1 4 = (demo_sealed, Inl e))"
proof -
  have "s_sealed demo_sealed" by (simp add: demo_sealed_def demo_seals)
  note sealed_frozen [OF this]
  then have "\<exists>e. ccw_sched_edge demo_sealed 1 4 = (demo_sealed, Inl e)" by blast
  moreover have "snd (ccw_sched_edge demo_plan 1 4) = Inr ()" by code_simp
  ultimately show ?thesis by (elim exE) (metis snd_conv sum.simps(4))
qed

text \<open>The manifest lookups of a reachable scheduler: a name finds the first kernel (ruleset)
  with that name and fails exactly when there is none; a capability finds exactly the kernels that
  declare it, in manifest order.\<close>

theorem manifest_lookups:
  assumes "sched_reachable s"
  shows "(case s_kernel_by_name s n of
       None \<Rightarrow> n \<notin> k_name ` set (s_kernels s)
     | Some i \<Rightarrow> i < length (s_kernels s) \<and> k_name (s_kernels s ! i) = n \<and> (\<forall>j < i. k_name (s_kernels s ! j) \<noteq> n))
   \<and> (case s_ruleset_by_name s n of
       None \<Rightarrow> n \<notin> r_name ` set (s_rules s)
     | Some i \<Rightarrow> i < length (s_rules s) \<and> r_name (s_rules s ! i) = n \<and> (\<forall>j < i. r_name (s_rules s ! j) \<noteq> n))
   \<and> (case s_capability_index s n of
       None \<Rightarrow> (\<forall>k \<in> set (s_kernels s). \<not> has_cap k n)
     | Some is \<Rightarrow> is \<noteq> [] \<and> sorted is \<and> distinct is
         \<and> set is = {i. i < length (s_kernels s) \<and> has_cap (s_kernels s ! i) n})"
proof -
  have wf: "wf_manifest s" using sched_reachable_wf [OF assms] by (simp add: wf_sched_def)
  have first: "case named_at f xs n of
       None \<Rightarrow> n \<notin> f ` set xs
     | Some i \<Rightarrow> i < length xs \<and> f (xs ! i) = n \<and> (\<forall>j < i. f (xs ! j) \<noteq> n)" for f :: "'a \<Rightarrow> string" and xs
    by (auto simp: named_at_def find_None_iff find_Some_iff in_set_conv_nth split: option.splits)
  have caps: "case cap_index ks n of
       None \<Rightarrow> (\<forall>k \<in> set ks. \<not> has_cap k n)
     | Some is \<Rightarrow> is \<noteq> [] \<and> sorted is \<and> distinct is \<and> set is = {i. i < length ks \<and> has_cap (ks ! i) n}" for ks
    by (auto simp: cap_index_def providers_def filter_empty_conv in_set_conv_nth sorted_wrt_filter)
  show ?thesis using wf first [of k_name "s_kernels s"] first [of r_name "s_rules s"] caps [of "s_kernels s"]
    by (simp only: wf_manifest_def)
qed

theorem manifest_lookups_witness:
  "s_kernel_by_name demo_plan ''inline'' = Some 1 \<and> k_name (s_kernels demo_plan ! 1) = ''inline''"
proof -
  have "s_kernel_by_name demo_plan ''inline'' = Some 1" by code_simp
  with manifest_lookups [OF demo_plan_reachable, of "''inline''"] show ?thesis by simp
qed

text \<open>A capability request takes the only provider of the capability, or the last provider that
  has the preferred name; with no or several providers, or without the preferred one, it is error 4
  and changes nothing.\<close>

theorem require_capability_spec:
  assumes "sched_reachable s"
  shows "case chosen s cap wanted of
      Some i \<Rightarrow> ccw_sched_require_capability s cap wanted
                 = add_node s NODE_KERNEL (k_name (s_kernels s ! i)) (k_caps (s_kernels s ! i))
    | None \<Rightarrow> \<exists>msg. ccw_sched_require_capability s cap wanted = (s, Inl (sfail 4 msg))"
  by (rule require_capability_chosen) (use sched_reachable_wf [OF assms] in \<open>simp add: wf_sched_def\<close>)

theorem require_capability_spec_witness:
  "(\<exists>msg. ccw_sched_require_capability demo_plan ''opt.fold'' None = (demo_plan, Inl (sfail 4 msg)))
   \<and> ccw_sched_require_capability demo_plan ''opt.fold'' (Some ''inline'')
     = add_node demo_plan NODE_KERNEL ''inline'' [''opt.fold'', ''opt.inline'']"
proof
  have "chosen demo_plan ''opt.fold'' None = None" by code_simp
  with require_capability_spec [OF demo_plan_reachable, of "''opt.fold''" None]
  show "\<exists>msg. ccw_sched_require_capability demo_plan ''opt.fold'' None = (demo_plan, Inl (sfail 4 msg))" by simp
  have "chosen demo_plan ''opt.fold'' (Some ''inline'') = Some 1 \<and> k_name (s_kernels demo_plan ! 1) = ''inline''
    \<and> k_caps (s_kernels demo_plan ! 1) = [''opt.fold'', ''opt.inline'']" by code_simp
  with require_capability_spec [OF demo_plan_reachable, of "''opt.fold''" "Some ''inline''"]
  show "ccw_sched_require_capability demo_plan ''opt.fold'' (Some ''inline'')
     = add_node demo_plan NODE_KERNEL ''inline'' [''opt.fold'', ''opt.inline'']" by simp
qed

text \<open>A rewrite pattern matches a ruleset name exactly when the name is the pattern's literal
  pieces in order with arbitrary text in place of the stars.\<close>

theorem wildcard_spec: "wildcard pattern name \<longleftrightarrow> glob_match pattern name"
  by (rule wildcard_glob)

section \<open>Sealing\<close>

text \<open>C21: sealing succeeds exactly on an unsealed scheduler that has a work node and whose
  dependencies are acyclic; it then yields the text of the plan and freezes the scheduler. Otherwise
  it reports code 3 or 6 and changes nothing.\<close>

theorem seal_spec:
  assumes r: "sched_reachable s" and small: "length (s_nodes s) < uint_mod" "length (s_edges s) < UINT_MAX"
  shows "ccw_sched_seal s =
    (if s_sealed s then (s, Inl (sfail 3 ''scheduler is sealed''))
     else if \<forall>n \<in> set (s_nodes s). nd_kind n = NODE_BARRIER then (s, Inl (sfail 6 ''plan contains no work nodes''))
     else if acyclic (set (s_edges s)) then (s\<lparr>s_sealed := True\<rparr>, Inr (plan_text s))
     else (s, Inl (sfail 6 ''plan contains a cycle'')))"
proof -
  have "wf_graph s" using sched_reachable_wf [OF r] small(1) by (simp add: wf_sched_def)
  note iff = acyclic_check_iff [OF this small(2)]
  show ?thesis unfolding ccw_sched_seal_def can_mutate_def Let_def iff by auto
qed

theorem seal_spec_witness:
  "snd (ccw_sched_seal demo_cyclic) = Inl (sfail 6 ''plan contains a cycle'')
   \<and> \<not> acyclic (set (s_edges demo_cyclic)) \<and> acyclic (set (s_edges demo_plan))"
proof -
  have c: "snd (ccw_sched_seal demo_cyclic) = Inl (sfail 6 ''plan contains a cycle'')" by code_simp
  have "s_sealed demo_cyclic = False \<and> \<not> (\<forall>n \<in> set (s_nodes demo_cyclic). nd_kind n = NODE_BARRIER)" by code_simp
  then have "\<not> acyclic (set (s_edges demo_cyclic))"
    using seal_spec [OF demo_cyclic_reachable] demo_sizes c by (auto split: if_splits)
  moreover have "acyclic (set (s_edges demo_plan))"
    using seal_spec [OF demo_plan_reachable] demo_sizes demo_seals by (auto split: if_splits)
  ultimately show ?thesis using c by blast
qed

text \<open>C11: the text of a plan whose names are single words reads back as exactly the nodes and the
  edges of the scheduler that wrote it.\<close>

theorem plan_text_roundtrip:
  assumes "sched_reachable s" "length (s_nodes s) < uint_mod" "plan_tokens s" "s_nodes s \<noteq> []"
  shows "parse_plan_text (plan_text s) = Inr (s_nodes s, s_edges s)"
  by (rule plan_text_parses [OF sched_reachable_wf [OF assms(1)] assms(2-4)])

theorem plan_text_roundtrip_witness:
  "parse_plan_text (plan_text demo_plan) = Inr (s_nodes demo_plan, s_edges demo_plan)"
  using plan_text_roundtrip [OF demo_plan_reachable] demo_sizes demo_tokens by blast

section \<open>Execution\<close>


definition demo_kload :: "string list \<Rightarrow> string \<Rightarrow> string list \<times> int \<times> string option" where
  "demo_kload w path = (w @ [path], 0, None)"

definition demo_kapply :: "string list \<Rightarrow> int \<Rightarrow> string \<Rightarrow> string option \<Rightarrow> string list \<times> ccw_status \<times> string option" where
  "demo_kapply w kid cap err = (w @ [cap], CCW_OK, None)"


text \<open>Barriers separate: in every order that respects the edges of a reachable scheduler, all
  nodes created before a barrier come before it, and all work nodes created after it come after it.\<close>

theorem barrier_separates:
  assumes r: "sched_reachable s" and small: "length (s_nodes s) < uint_mod"
    and order: "topological (length (s_nodes s)) (s_edges s) order"
    and ij: "i < j" "j < length (s_nodes s)"
    and barrier: "nd_kind (s_nodes s ! i) = NODE_BARRIER \<or> nd_kind (s_nodes s ! j) = NODE_BARRIER"
  shows "\<exists>p q. p < q \<and> q < length (s_nodes s) \<and> order ! p = i \<and> order ! q = j"
proof -
  have "wf_graph s" using sched_reachable_wf [OF r] small by (simp add: wf_sched_def)
  then have e: "(Suc i, Suc j) \<in> set (s_edges s)"
    using ij barrier unfolding wf_graph_def barriers_hold_def by blast
  have "\<forall>(a, b) \<in> set (s_edges s). \<exists>p q. p < q \<and> q < length (s_nodes s) \<and> order ! p = a - 1 \<and> order ! q = b - 1"
    using order unfolding topological_def by (elim conjE)
  from bspec [OF this e] show ?thesis by simp
qed

theorem barrier_separates_witness:
  "\<exists>p q. p < q \<and> q < 4 \<and> [0, 1, 3, 2] ! p = (1 :: nat) \<and> [0, 1, 3, 2] ! q = (3 :: nat)"
proof -
  have n: "length (s_nodes demo_plan) = 4" "nd_kind (s_nodes demo_plan ! 1) = NODE_BARRIER" by code_simp+
  let ?before = "\<lambda>(a :: nat) b. \<exists>p q. p < q \<and> q < 4 \<and> [0, 1, 3, 2 :: nat] ! p = a - 1 \<and> [0, 1, 3, 2 :: nat] ! q = b - 1"
  have "?before 1 2" by (rule exI [of _ 0], rule exI [of _ 1]) simp
  moreover have "?before 2 3" by (rule exI [of _ 1], rule exI [of _ 3]) simp
  moreover have "?before 2 4" by (rule exI [of _ 1], rule exI [of _ 2]) simp
  ultimately have "\<forall>(a, b) \<in> set (s_edges demo_plan). ?before a b" unfolding demo_values(1) by simp
  moreover have "distinct [0, 1, 3, 2 :: nat]" "set [0, 1, 3, 2 :: nat] = {0..<4}" by (auto simp: atLeast0LessThan lessThan_Suc numeral_eq_Suc)
  ultimately have "topological 4 (s_edges demo_plan) [0, 1, 3, 2]"
    unfolding topological_def by (intro conjI)
  then show ?thesis
    using barrier_separates [OF demo_plan_reachable, of "[0, 1, 3, 2]" 1 3] demo_sizes n by simp
qed

text \<open>C37: a plan text with cyclic dependencies (which sealing never produces) ends in an error when
  its kernels are run, whatever the kernels do.\<close>

theorem cyclic_plan_fails:
  assumes p: "parse_plan_text plan = Inr (nodes, es)" and cyc: "\<not> acyclic (set es)"
  shows "\<exists>w' e. ccw_plan_apply_kernels kload kapply kunload fs plan dir w = (w', Inl e)"
proof (cases "ccw_sched_new fs ''kernel-execution'' (Some dir)")
  case (Inl e)
  then show ?thesis by (simp add: ccw_plan_apply_kernels_def p)
next
  case (Inr m)
  then show ?thesis unfolding ccw_plan_apply_kernels_def p sum.case prod.case Inr run_parsed_plan [OF p]
    using cyc by (simp split: prod.splits option.splits)
qed

theorem cyclic_plan_fails_witness:
  "\<exists>w' e. ccw_plan_apply_kernels demo_kload demo_kapply (\<lambda>w _. w) demo_fs
     (''CCW-SCHED-PLAN 1'' @ [newline] @ ''node 1 3 b'' @ [newline] @ ''edge 1 1'') ''m'' [] = (w', Inl e)"
proof (rule cyclic_plan_fails)
  show "parse_plan_text (''CCW-SCHED-PLAN 1'' @ [newline] @ ''node 1 3 b'' @ [newline] @ ''edge 1 1'')
      = Inr ([\<lparr>nd_id = 1, nd_kind = 3, nd_name = ''b'', nd_members = []\<rparr>], [(1, 1)])" by code_simp
  show "\<not> acyclic (set [(1 :: nat, 1 :: nat)])" by (auto simp: acyclic_def)
qed

text \<open>A successful rewrite run leaves one statistics record per member of every rewrite node,
  reports their number, and never writes more than the caller's buffer holds.\<close>

theorem rewrite_run_statistics:
  assumes p: "parse_plan_text plan = Inr (nodes, es)"
    and run: "ccw_plan_apply_rewrites load rname apply_rs fs plan dir stats w = (w', sts, count, Inr ())"
  shows "count = rewrite_members nodes \<and> length sts = count
    \<and> (case stats of None \<Rightarrow> True | Some capacity \<Rightarrow> count \<le> capacity)"
proof -
  obtain m where m: "ccw_sched_new fs ''rewrite-execution'' (Some dir) = Inr m"
    using run by (auto simp: ccw_plan_apply_rewrites_def p split: sum.splits)
  let ?body = "rewrite_body load rname apply_rs fs m dir"
  have run1: "run_plan ?body (length nodes) nodes es (replicate (length nodes) False) (w, []) = ((w', sts), None)"
    and cnt: "count = length sts" and cap: "case stats of None \<Rightarrow> True | Some capacity \<Rightarrow> rewrite_members nodes \<le> capacity"
    using run by (auto simp: ccw_plan_apply_rewrites_def p m Let_def rewrite_members_def not_less
        split: prod.splits option.splits if_splits)
  let ?order = "topo (length nodes) (length nodes) es {}"
  have seq: "run_seq ?body nodes ?order (w, []) = ((w', sts), None)" and ac: "acyclic (set es)"
    using run1 unfolding run_parsed_plan [OF p] by (auto split: prod.splits option.splits if_splits)
  have "length sts = rewrite_members (map (nth nodes) ?order)"
    using run_seq_stats [OF seq] by simp
  also have "\<dots> = rewrite_members nodes"
    by (rule rewrite_members_order [OF acyclic_run_topological [OF p ac]])
  finally show ?thesis using cnt cap by (simp split: option.splits)
qed

theorem rewrite_run_statistics_witness:
  "let r = ccw_plan_apply_rewrites (\<lambda>p. (None :: unit option, None :: string option)) (\<lambda>_. []) (\<lambda>w _ e. (w, (), CCW_OK, e))
        demo_fs (''CCW-SCHED-PLAN 1'' @ [newline] @ ''node 1 3 b'') ''m'' (Some 7) (0 :: nat)
   in fst (snd (snd r)) = 0 \<and> fst (snd r) = []"
proof -
  let ?plan = "''CCW-SCHED-PLAN 1'' @ [newline] @ ''node 1 3 b''"
  let ?load = "\<lambda>p :: string. (None :: unit option, None :: string option)"
  let ?run = "\<lambda>(w :: nat) (_ :: unit) (e :: string option). (w, (), CCW_OK, e)"
  have p: "parse_plan_text ?plan = Inr ([\<lparr>nd_id = 1, nd_kind = 3, nd_name = ''b'', nd_members = []\<rparr>], [])" by code_simp
  have m: "ccw_sched_new demo_fs ''rewrite-execution'' (Some ''m'') = Inr (demo_new ''rewrite-execution'')"
    by (rule demo_created) code_simp
  have r: "ccw_plan_apply_rewrites ?load (\<lambda>_. []) ?run demo_fs ?plan ''m'' (Some 7) 0 = (0, [], 0, Inr ())"
    unfolding ccw_plan_apply_rewrites_def p sum.case prod.case m
    by (simp add: rewrite_body_def NODE_REWRITE_def node_ready_def)
  from rewrite_run_statistics [OF p r] r show ?thesis by (simp add: rewrite_members_def NODE_REWRITE_def)
qed

section \<open>Plan files\<close>





text \<open>C23: the hash of a plan is the SHA-256 of its text in hexadecimal, for texts shorter than
  \<open>2^61\<close> bytes.\<close>

theorem plan_hash_sha256:
  assumes "8 * length content < 2 ^ 64"
  shows "ccw_plan_hash content = concat (map hex8 (sha256 (text_bytes content)))"
  by (rule plan_hash_eq [OF assms])

theorem plan_hash_sha256_witness:
  "ccw_plan_hash ''abc'' = concat (map hex8 (sha256 (text_bytes ''abc'')))"
  by (rule plan_hash_sha256) simp

section \<open>The manifest generator\<close>

text \<open>C24: the two sides of the manifests agree: the YAML the generator writes for trimmed, clean
  kernel and ruleset entries loads back as exactly those kernels (name, path, capabilities) and
  rulesets.\<close>

theorem generated_manifests_load:
  assumes "\<forall>e \<in> set ks. entry_ok e" "ks \<noteq> []" "\<forall>e \<in> set rs. rule_entry_ok e" "rs \<noteq> []"
    and "Suc (length (dec_nat (sum_list (map re_rules rs)))) < 2000"
    and "fs (take 1023 (dir @ ''/Kernel.yaml'')) = Some (render_kernel_yaml ks)"
    and "fs (take 1023 (dir @ ''/Stdrewrite.yaml'')) = Some (render_stdrewrite_yaml rs)"
    and "clean_scalar name"
  shows "\<exists>s. ccw_sched_new fs name (Some dir) = Inr s
    \<and> s_kernels s = map kernel_of ks \<and> s_rules s = map ruleset_of rs"
  using rendered_manifests_load [OF assms] by blast

theorem generated_manifests_load_witness:
  "\<exists>s. ccw_sched_new demo_fs ''demo'' (Some ''m'') = Inr s
    \<and> s_kernels s = map kernel_of demo_kernels \<and> s_rules s = map ruleset_of demo_rules"
  by (rule generated_manifests_load [OF demo_kernels_ok _ demo_rules_ok _ _ demo_files demo_name])
     (simp_all add: demo_kernels_def demo_rules_def dec_nat.simps)

text \<open>The capability ids the generator accepts are those of the documented grammar: at least two
  pieces separated by dots, each a non-empty word over lower case letters, digits and hyphens.\<close>

theorem capability_grammar:
  "capability_valid (Some cap) \<longleftrightarrow>
     length (split_on (CHR ''.'') cap) \<ge> 2
     \<and> (\<forall>w \<in> set (split_on (CHR ''.'') cap). w \<noteq> [] \<and> (\<forall>c \<in> set w. cap_char c))"
  by (rule capability_valid_spec)

theorem capability_grammar_witness:
  "capability_valid (Some ''opt.const-fold'') \<and> \<not> capability_valid (Some ''opt..fold'') \<and> \<not> capability_valid (Some ''opt'')"
  unfolding capability_grammar by code_simp

end
