(* ===== verification/Oeuph_Egraph.thy ===== *)
theory Oeuph_Egraph
  imports IR_Profiles
begin

text \<open>
  The e-graph of Oeuph (\<open>oeuph/ccw_oeuph.c\<close>): e-nodes in an array, a union-find over their indices with
  path halving, hash-consing, and the congruence rebuild. An \<open>int\<close> index is a natural number, -1 is
  \<open>None\<close>. \<open>eg_find\<close> changes the graph (it shortens paths), so every operation returns the graph.
  The allocated sizes of the two arrays are kept beside the shared capacity.
\<close>

section \<open>State\<close>

definition CCW_MAX_CHILDREN :: nat where "CCW_MAX_CHILDREN = 4"

record enode =
  en_opcode :: string
  en_is_const :: bool
  en_value :: "64 word"
  en_reg :: string
  en_children :: "nat list"
  en_eclass :: nat

definition no_enode :: enode where
  "no_enode = \<lparr>en_opcode = [], en_is_const = False, en_value = 0, en_reg = [], en_children = [], en_eclass = 0\<rparr>"

record egraph =
  g_nodes :: "enode list"
  g_parent :: "nat list"
  g_cap :: nat
  g_class_count :: nat
  g_nodes_room :: nat
  g_parent_room :: nat

definition empty_egraph :: egraph where
  "empty_egraph = \<lparr>g_nodes = [], g_parent = [], g_cap = 0, g_class_count = 0, g_nodes_room = 0, g_parent_room = 0\<rparr>"

definition g_count :: "egraph \<Rightarrow> nat" where
  "g_count g = length (g_nodes g)"

text \<open>
  \<open>reserve_items\<close>: \<open>room\<close> is the size of the block at \<open>*items\<close> in elements, 0 for a NULL pointer.
  The capacity is the caller's variable, which the two arrays of the graph share.
\<close>

function grow :: "nat \<Rightarrow> nat \<Rightarrow> nat" where
  "grow next_cap needed = (if 0 < next_cap \<and> next_cap < needed then grow (next_cap * 2) needed else next_cap)"
  by auto

termination by (relation "measure (\<lambda>(n, m). m - n)") auto

declare grow.simps [simp del]

definition reserve_items :: "nat \<Rightarrow> nat \<Rightarrow> nat \<Rightarrow> nat \<times> nat" where
  "reserve_items room capacity needed =
     (if needed \<le> capacity \<and> room > 0 then (room, capacity)
      else let next_cap = grow (if capacity > 0 then capacity * 2 else 64) needed in (next_cap, next_cap))"

section \<open>Union-find\<close>

text \<open>
  The loop of \<open>eg_find\<close>, with a bound on its rounds. In a graph the parent of an index is never larger
  than the index, so a path is shorter than the array (\<open>find_loop_root\<close> shows the bound suffices).
\<close>

fun find_loop :: "nat \<Rightarrow> nat list \<Rightarrow> nat \<Rightarrow> nat list \<times> nat" where
  "find_loop 0 p c = (p, c)"
| "find_loop (Suc k) p c =
     (if p ! c \<noteq> c
      then (let p' = p[c := p ! (p ! c)] in find_loop k p' (p' ! c))
      else (p, c))"

definition eg_find :: "egraph \<Rightarrow> nat \<Rightarrow> egraph \<times> nat" where
  "eg_find g c =
     (case find_loop (length (g_parent g)) (g_parent g) c of (p, r) \<Rightarrow> (g\<lparr>g_parent := p\<rparr>, r))"

definition eg_union :: "egraph \<Rightarrow> nat \<Rightarrow> nat \<Rightarrow> egraph \<times> bool" where
  "eg_union g a b =
     (let (g1, a') = eg_find g a; (g2, b') = eg_find g1 b
      in if a' = b' then (g2, False)
         else if a' < b' then (g2\<lparr>g_parent := (g_parent g2)[b' := a']\<rparr>, True)
         else (g2\<lparr>g_parent := (g_parent g2)[a' := b']\<rparr>, True))"

section \<open>Hash-consing\<close>

text \<open>The comparison of two e-nodes up to their children.\<close>

definition same_label :: "enode \<Rightarrow> enode \<Rightarrow> bool" where
  "same_label e n \<longleftrightarrow> en_is_const e = en_is_const n \<and> en_opcode e = en_opcode n \<and> en_reg e = en_reg n
     \<and> (en_is_const e \<longrightarrow> en_value e = en_value n) \<and> length (en_children e) = length (en_children n)"

fun same_children :: "egraph \<Rightarrow> nat list \<Rightarrow> nat list \<Rightarrow> egraph \<times> bool" where
  "same_children g (c # cs) (d # ds) =
     (let (g1, a) = eg_find g c; (g2, b) = eg_find g1 d
      in if a \<noteq> b then (g2, False) else same_children g2 cs ds)"
| "same_children g _ _ = (g, True)"

text \<open>The search of \<open>eg_add_node\<close>, over the indices from \<open>i\<close>.\<close>

fun find_same :: "egraph \<Rightarrow> enode \<Rightarrow> nat list \<Rightarrow> egraph \<times> nat option" where
  "find_same g n [] = (g, None)"
| "find_same g n (i # is) =
     (if same_label (g_nodes g ! i) n then
        (case same_children g (en_children (g_nodes g ! i)) (en_children n) of
           (g1, True) \<Rightarrow> (g1, Some i)
         | (g1, False) \<Rightarrow> find_same g1 n is)
      else find_same g n is)"

definition append_node :: "egraph \<Rightarrow> enode \<Rightarrow> egraph" where
  "append_node g n =
     (let (nroom, cap1) = (if g_count g = g_cap g then reserve_items (g_nodes_room g) (g_cap g) (g_count g + 1)
                           else (g_nodes_room g, g_cap g));
          (proom, cap2) = (if g_count g = g_cap g then reserve_items (g_parent_room g) cap1 (g_count g + 1)
                           else (g_parent_room g, cap1))
      in g\<lparr>g_nodes := g_nodes g @ [n\<lparr>en_eclass := g_count g\<rparr>], g_parent := g_parent g @ [g_count g],
           g_cap := cap2, g_class_count := g_class_count g + 1, g_nodes_room := nroom, g_parent_room := proom\<rparr>)"

text \<open>Every index below the count lies inside both blocks; an e-node beyond them is written behind a block.\<close>

definition in_rooms :: "egraph \<Rightarrow> bool" where
  "in_rooms g \<longleftrightarrow> g_count g \<le> g_nodes_room g \<and> g_count g \<le> g_parent_room g"

definition eg_add_node :: "egraph \<Rightarrow> enode \<Rightarrow> egraph \<times> nat" where
  "eg_add_node g n =
     (case find_same g n [0..<g_count g] of
        (g1, Some i) \<Rightarrow> (g1, i)
      | (g1, None) \<Rightarrow> (append_node g1 n, g_count g1))"

fun class_count_loop :: "egraph \<Rightarrow> nat list \<Rightarrow> egraph \<times> nat" where
  "class_count_loop g [] = (g, 0)"
| "class_count_loop g (i # is) =
     (let (g1, r) = eg_find g i; (g2, n) = class_count_loop g1 is in (g2, (if r = i then 1 else 0) + n))"

definition eg_class_count :: "egraph \<Rightarrow> egraph \<times> nat" where
  "eg_class_count g = class_count_loop g [0..<g_count g]"

section \<open>Rebuild\<close>

text \<open>The body of the two inner loops, and one pass over all pairs \<open>i < j\<close>.\<close>

definition rebuild_pair :: "egraph \<Rightarrow> nat \<Rightarrow> nat \<Rightarrow> egraph \<times> bool" where
  "rebuild_pair g i j =
     (if same_label (g_nodes g ! i) (g_nodes g ! j) then
        (case same_children g (en_children (g_nodes g ! i)) (en_children (g_nodes g ! j)) of
           (g1, False) \<Rightarrow> (g1, False)
         | (g1, True) \<Rightarrow> eg_union g1 i j)
      else (g, False))"

fun rebuild_pass :: "egraph \<Rightarrow> bool \<Rightarrow> (nat \<times> nat) list \<Rightarrow> egraph \<times> bool" where
  "rebuild_pass g changed [] = (g, changed)"
| "rebuild_pass g changed ((i, j) # ps) =
     (let (g1, c) = rebuild_pair g i j in rebuild_pass g1 (changed \<or> c) ps)"

definition index_pairs :: "nat \<Rightarrow> (nat \<times> nat) list" where
  "index_pairs n = concat (map (\<lambda>i. map (\<lambda>j. (i, j)) [Suc i..<n]) [0..<n])"

text \<open>A pass that changes something joins two classes, so there are at most as many as e-nodes.\<close>

fun rebuild_loop :: "nat \<Rightarrow> egraph \<Rightarrow> egraph" where
  "rebuild_loop 0 g = g"
| "rebuild_loop (Suc k) g =
     (case rebuild_pass g False (index_pairs (g_count g)) of
        (g1, True) \<Rightarrow> rebuild_loop k g1
      | (g1, False) \<Rightarrow> g1)"

definition eg_rebuild :: "egraph \<Rightarrow> egraph" where
  "eg_rebuild g = rebuild_loop (Suc (g_count g)) g"

end
