(* ===== verification/Oeuph_Find.thy ===== *)
theory Oeuph_Find
  imports Oeuph_Egraph
begin

text \<open>
  The union-find implements an equivalence: \<open>root\<close> follows parents without changing them, path halving
  keeps every root, and a union joins exactly two classes. \<open>wf_eg\<close> is the invariant of the e-graph.
\<close>

section \<open>The reference\<close>

text \<open>\<open>uf p\<close>: no parent is larger than its index, so parents lead to a root.\<close>

definition uf :: "nat list \<Rightarrow> bool" where
  "uf p \<longleftrightarrow> (\<forall>i < length p. p ! i \<le> i)"

function root :: "nat list \<Rightarrow> nat \<Rightarrow> nat" where
  "root p c = (if p ! c < c then root p (p ! c) else c)"
  by auto

termination by (relation "measure snd") auto

declare root.simps [simp del]

lemma root_le: "root p c \<le> c"
proof (induction p c rule: root.induct)
  case (1 p c)
  then show ?case by (subst root.simps) auto
qed

lemma root_parent: "root p (p ! c) = root p c" if "uf p" "c < length p"
proof (cases "p ! c < c")
  case True
  then show ?thesis by (subst (2) root.simps) simp
next
  case False
  with that have "p ! c = c" by (auto simp: uf_def le_less)
  then show ?thesis by simp
qed

lemma root_fixed: "uf p \<Longrightarrow> c < length p \<Longrightarrow> p ! root p c = root p c"
proof (induction p c rule: root.induct)
  case (1 p c)
  show ?case
  proof (cases "p ! c < c")
    case True
    with 1 show ?thesis by (subst (1 2) root.simps) simp
  next
    case False
    with 1 have "p ! c = c" by (auto simp: uf_def le_less)
    with False show ?thesis by (subst (1 2) root.simps) simp
  qed
qed

lemma root_self: "p ! c = c \<Longrightarrow> root p c = c"
  by (subst root.simps) simp

lemma root_root: "uf p \<Longrightarrow> c < length p \<Longrightarrow> root p (root p c) = root p c"
  by (rule root_self [OF root_fixed])

lemma root_less: "c < n \<Longrightarrow> root p c < n"
  using root_le [of p c] by simp

section \<open>Path halving\<close>

lemma uf_update: "uf p \<Longrightarrow> v \<le> c \<Longrightarrow> uf (p[c := v])"
proof (unfold uf_def, intro allI impI)
  fix i
  assume "\<forall>i < length p. p ! i \<le> i" "v \<le> c" "i < length (p[c := v])"
  then show "p[c := v] ! i \<le> i" by (cases "i = c") simp_all
qed

lemma root_halve:
  assumes u: "uf p" and c: "c < length p"
  shows "root (p[c := p ! (p ! c)]) x = root p x"
proof (induction x rule: less_induct)
  case (less x)
  have pc: "p ! c \<le> c" "p ! c < length p" using u c by (auto simp: uf_def intro: le_less_trans)
  have ppc: "p ! (p ! c) \<le> p ! c" using u pc(2) by (simp add: uf_def)
  show ?case
  proof (cases "x = c")
    case False
    then have "p[c := p ! (p ! c)] ! x = p ! x" by simp
    with less show ?thesis by (subst (1 2) root.simps) simp
  next
    case True
    show ?thesis
    proof (cases "p ! (p ! c) < c")
      case True
      then have "root (p[c := p ! (p ! c)]) c = root (p[c := p ! (p ! c)]) (p ! (p ! c))"
        using c by (subst root.simps) simp
      also have "\<dots> = root p (p ! (p ! c))" using less True \<open>x = c\<close> by simp
      also have "\<dots> = root p c" using root_parent [OF u] c pc(2) by simp
      finally show ?thesis using \<open>x = c\<close> by simp
    next
      case False
      with pc ppc have "p ! c = c" by simp
      then have "p[c := p ! (p ! c)] = p" by (metis list_update_id)
      then show ?thesis by simp
    qed
  qed
qed

lemma find_loop_root:
  assumes "uf p" "c < length p" "c \<le> k"
  shows "snd (find_loop k p c) = root p c \<and> uf (fst (find_loop k p c))
    \<and> length (fst (find_loop k p c)) = length p \<and> root (fst (find_loop k p c)) = root p"
  using assms
proof (induction k p c rule: find_loop.induct)
  case (1 p c)
  then have "p ! c = c" by (metis le_zero_eq uf_def)
  with 1 show ?case by (simp add: root_self)
next
  case (2 k p c)
  show ?case
  proof (cases "p ! c = c")
    case True
    with 2 show ?thesis by (simp add: root_self)
  next
    case False
    let ?p = "p[c := p ! (p ! c)]"
    have pc: "p ! c < c" using False 2 by (auto simp: uf_def le_less)
    then have ppc: "p ! (p ! c) \<le> p ! c" using 2 by (simp add: uf_def)
    have u: "uf ?p" using uf_update 2 pc ppc by simp
    have r: "root ?p = root p" using root_halve [OF 2(2,3)] by (simp add: fun_eq_iff)
    have "root p (?p ! c) = root p c"
      using root_parent [OF 2(2)] 2(3) pc by simp
    moreover have "?p ! c < length ?p" "?p ! c \<le> k" using 2(3,4) pc ppc by auto
    ultimately show ?thesis using 2(1) [OF False refl u] False r by (simp add: Let_def)
  qed
qed

section \<open>Unions\<close>

lemma root_union:
  assumes u: "uf p" and ab: "a < b" "b < length p" "p ! a = a" "p ! b = b"
  shows "root (p[b := a]) x = (if root p x = b then a else root p x)"
proof (induction x rule: less_induct)
  case (less x)
  show ?case
  proof (cases "x = b")
    case True
    have "root (p[b := a]) b = root (p[b := a]) a" using ab by (subst root.simps) simp
    also have "\<dots> = a" using ab by (intro root_self) simp
    finally show ?thesis using True ab by (simp add: root_self)
  next
    case False
    show ?thesis
    proof (cases "p ! x < x")
      case True
      with False less [OF True] show ?thesis by (subst (1 2 3) root.simps) simp
    next
      case nf: False
      with False have "root (p[b := a]) x = x" "root p x = x" by (subst root.simps, simp)+
      with False show ?thesis by simp
    qed
  qed
qed

section \<open>The e-graph invariant\<close>

text \<open>Children are older e-nodes; the union-find covers exactly the e-nodes.\<close>

definition wf_eg :: "egraph \<Rightarrow> bool" where
  "wf_eg g \<longleftrightarrow> length (g_parent g) = g_count g \<and> uf (g_parent g)
     \<and> (\<forall>i < g_count g. \<forall>c \<in> set (en_children (g_nodes g ! i)). c < i)"

definition rep :: "egraph \<Rightarrow> nat \<Rightarrow> nat" where
  "rep g = root (g_parent g)"

lemma wf_empty: "wf_eg empty_egraph"
  by (simp add: wf_eg_def empty_egraph_def g_count_def uf_def)

lemma wf_child: "wf_eg g \<Longrightarrow> i < g_count g \<Longrightarrow> c \<in> set (en_children (g_nodes g ! i)) \<Longrightarrow> c < i \<and> c < g_count g"
  unfolding wf_eg_def by (meson less_trans)

text \<open>Operations that only shorten paths.\<close>

definition halved :: "egraph \<Rightarrow> egraph \<Rightarrow> bool" where
  "halved g g' \<longleftrightarrow> g_nodes g' = g_nodes g \<and> (wf_eg g \<longrightarrow> wf_eg g' \<and> rep g' = rep g)"

lemma halved_refl: "halved g g"
  by (simp add: halved_def)

lemma halved_trans: "halved g g' \<Longrightarrow> halved g' g'' \<Longrightarrow> halved g g''"
  by (simp add: halved_def)

lemma eg_find_spec:
  assumes "wf_eg g" "c < g_count g"
  shows "snd (eg_find g c) = rep g c \<and> wf_eg (fst (eg_find g c)) \<and> rep (fst (eg_find g c)) = rep g
    \<and> g_nodes (fst (eg_find g c)) = g_nodes g"
proof -
  have p: "uf (g_parent g)" "c < length (g_parent g)" "length (g_parent g) = g_count g"
    using assms by (simp_all add: wf_eg_def)
  note f = find_loop_root [OF p(1,2), of "length (g_parent g)"]
  obtain q r where q: "find_loop (length (g_parent g)) (g_parent g) c = (q, r)" by (cases "find_loop (length (g_parent g)) (g_parent g) c")
  have "eg_find g c = (g\<lparr>g_parent := q\<rparr>, r)" by (simp add: eg_find_def q)
  moreover have "r = rep g c" "uf q" "length q = g_count g" "root q = rep g"
    using f p q by (simp_all add: rep_def)
  ultimately show ?thesis using assms(1) by (simp add: wf_eg_def rep_def g_count_def)
qed

lemma eg_find_E:
  assumes "wf_eg g" "c < g_count g" "eg_find g c = (g', r)"
  shows "r = rep g c" "wf_eg g'" "rep g' = rep g" "g_nodes g' = g_nodes g" "g_count g' = g_count g"
  using eg_find_spec [OF assms(1,2)] assms(3) by (simp_all add: g_count_def)

lemma rep_less: "wf_eg g \<Longrightarrow> c < g_count g \<Longrightarrow> rep g c < g_count g"
  by (simp add: rep_def root_less)

lemma rep_le: "rep g c \<le> c"
  by (simp add: rep_def root_le)

lemma rep_rep: "wf_eg g \<Longrightarrow> c < g_count g \<Longrightarrow> rep g (rep g c) = rep g c"
  by (simp add: rep_def wf_eg_def root_root)

text \<open>A union joins the two classes under the smaller root, and tells whether they were different.\<close>

lemma eg_union_spec:
  assumes wf: "wf_eg g" and a: "a < g_count g" and b: "b < g_count g" and u: "eg_union g a b = (g', r)"
  shows "wf_eg g'" "g_nodes g' = g_nodes g" "g_count g' = g_count g" "r \<longleftrightarrow> rep g a \<noteq> rep g b"
    "rep g' x = (if rep g x = max (rep g a) (rep g b) then min (rep g a) (rep g b) else rep g x)"
proof -
  obtain g1 a' where f1: "eg_find g a = (g1, a')" by (cases "eg_find g a")
  note e1 = eg_find_E [OF wf a f1]
  obtain g2 b' where f2: "eg_find g1 b = (g2, b')" by (cases "eg_find g1 b")
  have b1: "b < g_count g1" using b e1 by simp
  note e2 = eg_find_E [OF e1(2) b1 f2]
  have ab: "a' = rep g a" "b' = rep g b" "rep g2 = rep g" "g_nodes g2 = g_nodes g" "g_count g2 = g_count g" "wf_eg g2"
    using e1 e2 by simp_all
  have uf2: "uf (g_parent g2)" "length (g_parent g2) = g_count g2" using ab(6) by (simp_all add: wf_eg_def)
  have fx: "g_parent g2 ! rep g a = rep g a" "g_parent g2 ! rep g b = rep g b" "rep g a < g_count g2" "rep g b < g_count g2"
    using root_fixed [OF uf2(1)] rep_less [OF wf] a b ab by (auto simp: uf2(2) rep_def [of g2, symmetric])
  have main: "wf_eg (g2\<lparr>g_parent := (g_parent g2)[m := l]\<rparr>)
    \<and> rep (g2\<lparr>g_parent := (g_parent g2)[m := l]\<rparr>) x = (if rep g x = m then l else rep g x)"
    if lm: "l < m" "m < g_count g2" "g_parent g2 ! l = l" "g_parent g2 ! m = m" for l m x
  proof
    show "wf_eg (g2\<lparr>g_parent := (g_parent g2)[m := l]\<rparr>)"
      using ab(6) lm uf_update [OF uf2(1), of l m] by (simp add: wf_eg_def g_count_def)
    show "rep (g2\<lparr>g_parent := (g_parent g2)[m := l]\<rparr>) x = (if rep g x = m then l else rep g x)"
      using root_union [OF uf2(1) lm(1) _ lm(3,4)] lm(2) uf2(2) ab(3) by (simp add: rep_def)
  qed
  consider "a' = b'" | "a' < b'" | "b' < a'" by linarith
  then have "wf_eg g' \<and> g_nodes g' = g_nodes g \<and> g_count g' = g_count g \<and> (r \<longleftrightarrow> rep g a \<noteq> rep g b)
    \<and> rep g' x = (if rep g x = max (rep g a) (rep g b) then min (rep g a) (rep g b) else rep g x)"
  proof cases
    case 1
    with u ab show ?thesis by (simp add: eg_union_def f1 f2)
  next
    case 2
    with u have "g' = g2\<lparr>g_parent := (g_parent g2)[b' := a']\<rparr>" "r" by (simp_all add: eg_union_def f1 f2)
    with main [of a' b' x] 2 ab fx show ?thesis by (simp add: g_count_def)
  next
    case 3
    with u have "g' = g2\<lparr>g_parent := (g_parent g2)[a' := b']\<rparr>" "r" by (simp_all add: eg_union_def f1 f2)
    with main [of b' a' x] 3 ab fx show ?thesis by (simp add: g_count_def)
  qed
  then show "wf_eg g'" "g_nodes g' = g_nodes g" "g_count g' = g_count g" "r \<longleftrightarrow> rep g a \<noteq> rep g b"
    "rep g' x = (if rep g x = max (rep g a) (rep g b) then min (rep g a) (rep g b) else rep g x)" by blast+
qed

section \<open>Hash-consing\<close>

text \<open>Two e-nodes are congruent when they agree up to the classes of their children.\<close>

definition congruent :: "egraph \<Rightarrow> enode \<Rightarrow> enode \<Rightarrow> bool" where
  "congruent g e n \<longleftrightarrow> same_label e n \<and> map (rep g) (en_children e) = map (rep g) (en_children n)"

lemma same_children_spec:
  assumes "wf_eg g" "\<forall>c \<in> set cs. c < g_count g" "\<forall>d \<in> set ds. d < g_count g" "same_children g cs ds = (g', r)"
    "length cs = length ds"
  shows "wf_eg g' \<and> rep g' = rep g \<and> g_nodes g' = g_nodes g \<and> (r \<longleftrightarrow> map (rep g) cs = map (rep g) ds)"
  using assms
proof (induction g cs ds rule: same_children.induct)
  case (1 g c cs d ds)
  obtain g1 a where f1: "eg_find g c = (g1, a)" by (cases "eg_find g c")
  have c: "c < g_count g" and d: "d < g_count g" using 1 by auto
  note e1 = eg_find_E [OF 1(2) c f1]
  obtain g2 b where f2: "eg_find g1 d = (g2, b)" by (cases "eg_find g1 d")
  have d1: "d < g_count g1" using d e1 by simp
  note e2 = eg_find_E [OF e1(2) d1 f2]
  show ?case
  proof (cases "a = b")
    case False
    with 1(5) e1 e2 show ?thesis by (auto simp: f1 f2)
  next
    case True
    have "same_children g2 cs ds = (g', r)" using 1(5) True by (simp add: f1 f2)
    moreover have "g_count g2 = g_count g" using e1 e2 by simp
    ultimately have "wf_eg g' \<and> rep g' = rep g2 \<and> g_nodes g' = g_nodes g2 \<and> (r \<longleftrightarrow> map (rep g2) cs = map (rep g2) ds)"
      using 1(1) [OF f1 [symmetric] refl f2 [symmetric] refl] True 1(3,4,6) e1 e2 f1 f2 by simp
    with e1 e2 True show ?thesis by simp
  qed
qed auto

lemma find_same_spec:
  assumes "wf_eg g" "\<forall>i \<in> set is. i < g_count g" "\<forall>c \<in> set (en_children n). c < g_count g"
    "find_same g n is = (g', r)"
  shows "wf_eg g' \<and> rep g' = rep g \<and> g_nodes g' = g_nodes g
    \<and> r = find (\<lambda>i. congruent g (g_nodes g ! i) n) is"
  using assms
proof (induction "is" arbitrary: g)
  case (Cons i js)
  have i: "i < g_count g" using Cons.prems by simp
  have len: "length (en_children (g_nodes g ! i)) = length (en_children n)" if "same_label (g_nodes g ! i) n"
    using that by (simp add: same_label_def)
  show ?case
  proof (cases "same_label (g_nodes g ! i) n")
    case False
    with Cons show ?thesis by (auto simp: congruent_def)
  next
    case True
    obtain g1 s where s: "same_children g (en_children (g_nodes g ! i)) (en_children n) = (g1, s)"
      by (cases "same_children g (en_children (g_nodes g ! i)) (en_children n)")
    have sp: "wf_eg g1 \<and> rep g1 = rep g \<and> g_nodes g1 = g_nodes g
      \<and> (s \<longleftrightarrow> map (rep g) (en_children (g_nodes g ! i)) = map (rep g) (en_children n))"
      using wf_child [OF Cons.prems(1) i] by (intro same_children_spec [OF Cons.prems(1) _ Cons.prems(3) s len [OF True]]) blast
    show ?thesis
    proof (cases s)
      case t: True
      with Cons.prems(4) True s have "g' = g1" "r = Some i" by simp_all
      with sp t True show ?thesis by (simp add: congruent_def)
    next
      case f: False
      with Cons.prems(4) True s have fs: "find_same g1 n js = (g', r)" by simp
      have "g_count g1 = g_count g" using sp by (simp add: g_count_def)
      then have IH: "wf_eg g' \<and> rep g' = rep g1 \<and> g_nodes g' = g_nodes g1
        \<and> r = find (\<lambda>i. congruent g1 (g_nodes g1 ! i) n) js"
        using Cons.prems sp by (intro Cons.IH [OF _ _ _ fs]) auto
      have "congruent g1 = congruent g" using sp by (intro ext) (simp add: congruent_def)
      with IH sp f True show ?thesis by (simp add: congruent_def)
    qed
  qed
qed simp

lemma root_append: "uf p \<Longrightarrow> x < length p \<Longrightarrow> root (p @ q) x = root p x"
proof (induction p x rule: root.induct)
  case (1 p x)
  then have "(p @ q) ! x = p ! x" by (simp add: nth_append)
  moreover have "p ! x < length p" if "p ! x < x" using that 1 by simp
  ultimately show ?case using 1 by (subst (1 2) root.simps) simp
qed

lemma append_node_spec:
  assumes wf: "wf_eg g" and n: "\<forall>c \<in> set (en_children n). c < g_count g"
  shows "wf_eg (append_node g n)" "g_nodes (append_node g n) = g_nodes g @ [n\<lparr>en_eclass := g_count g\<rparr>]"
    "g_count (append_node g n) = Suc (g_count g)"
    "\<And>x. x < g_count g \<Longrightarrow> rep (append_node g n) x = rep g x"
    "rep (append_node g n) (g_count g) = g_count g"
proof -
  have p: "g_parent (append_node g n) = g_parent g @ [g_count g]"
    and ns: "g_nodes (append_node g n) = g_nodes g @ [n\<lparr>en_eclass := g_count g\<rparr>]"
    by (simp_all add: append_node_def Let_def split: prod.splits)
  have len: "length (g_parent g) = g_count g" "uf (g_parent g)" using wf by (simp_all add: wf_eg_def)
  have uf1: "uf (g_parent g @ [g_count g])" using len by (auto simp: uf_def nth_append)
  show c: "g_count (append_node g n) = Suc (g_count g)" by (simp add: g_count_def ns)
  show "g_nodes (append_node g n) = g_nodes g @ [n\<lparr>en_eclass := g_count g\<rparr>]" by (rule ns)
  show "wf_eg (append_node g n)"
    using wf n uf1 len unfolding wf_eg_def c p ns by (auto simp: nth_append less_Suc_eq g_count_def)
  show "rep (append_node g n) x = rep g x" if "x < g_count g" for x
    using root_append [OF len(2)] that len(1) by (simp add: rep_def p)
  show "rep (append_node g n) (g_count g) = g_count g"
    unfolding rep_def p by (rule root_self) (simp add: len(1) nth_append)
qed

text \<open>Adding a node gives the first congruent e-node, or a new one that is its own class.\<close>

lemma eg_add_node_spec:
  assumes wf: "wf_eg g" and n: "\<forall>c \<in> set (en_children n). c < g_count g" and r: "eg_add_node g n = (g', i)"
  shows "wf_eg g'" "i < g_count g'" "\<And>x. x < g_count g \<Longrightarrow> rep g' x = rep g x"
    "\<And>j. j < g_count g \<Longrightarrow> g_nodes g' ! j = g_nodes g ! j" "g_count g \<le> g_count g'"
    "case find (\<lambda>j. congruent g (g_nodes g ! j) n) [0..<g_count g] of
       Some j \<Rightarrow> i = j \<and> g_nodes g' = g_nodes g
     | None \<Rightarrow> i = g_count g \<and> g_nodes g' = g_nodes g @ [n\<lparr>en_eclass := g_count g\<rparr>] \<and> rep g' i = i"
proof -
  obtain g1 s where s: "find_same g n [0..<g_count g] = (g1, s)" by (cases "find_same g n [0..<g_count g]")
  have sp: "wf_eg g1 \<and> rep g1 = rep g \<and> g_nodes g1 = g_nodes g
      \<and> s = find (\<lambda>j. congruent g (g_nodes g ! j) n) [0..<g_count g]"
    by (rule find_same_spec [OF wf _ n s]) simp
  have c1: "g_count g1 = g_count g" using sp by (simp add: g_count_def)
  have n1: "\<forall>c \<in> set (en_children n). c < g_count g1" using n c1 by simp
  note ap = append_node_spec [OF conjunct1 [OF sp] n1]
  have "wf_eg g' \<and> i < g_count g' \<and> (\<forall>x < g_count g. rep g' x = rep g x)
    \<and> (\<forall>j < g_count g. g_nodes g' ! j = g_nodes g ! j) \<and> g_count g \<le> g_count g'
    \<and> (case find (\<lambda>j. congruent g (g_nodes g ! j) n) [0..<g_count g] of
       Some j \<Rightarrow> i = j \<and> g_nodes g' = g_nodes g
     | None \<Rightarrow> i = g_count g \<and> g_nodes g' = g_nodes g @ [n\<lparr>en_eclass := g_count g\<rparr>] \<and> rep g' i = i)"
  proof (cases s)
    case None
    with r s have g': "g' = append_node g1 n" "i = g_count g1" by (simp_all add: eg_add_node_def)
    have "\<forall>j < g_count g. g_nodes g' ! j = g_nodes g ! j" using ap(2) sp by (simp add: g' nth_append g_count_def)
    moreover have "find (\<lambda>j. congruent g (g_nodes g ! j) n) [0..<g_count g] = None" using sp None by simp
    ultimately show ?thesis using ap sp c1 by (simp add: g')
  next
    case (Some j)
    with r s have g': "g' = g1" "i = j" by (simp_all add: eg_add_node_def)
    have f: "find (\<lambda>j. congruent g (g_nodes g ! j) n) [0..<g_count g] = Some j" using sp Some by simp
    then have "j < g_count g" by (auto simp: find_Some_iff)
    with sp c1 f show ?thesis by (simp add: g')
  qed
  then show "wf_eg g'" "i < g_count g'" "\<And>x. x < g_count g \<Longrightarrow> rep g' x = rep g x"
    "\<And>j. j < g_count g \<Longrightarrow> g_nodes g' ! j = g_nodes g ! j" "g_count g \<le> g_count g'"
    "case find (\<lambda>j. congruent g (g_nodes g ! j) n) [0..<g_count g] of
       Some j \<Rightarrow> i = j \<and> g_nodes g' = g_nodes g
     | None \<Rightarrow> i = g_count g \<and> g_nodes g' = g_nodes g @ [n\<lparr>en_eclass := g_count g\<rparr>] \<and> rep g' i = i" by blast+
qed

end
