(* ===== verification/Oeuph_Rebuild.thy ===== *)
theory Oeuph_Rebuild
  imports Oeuph_Find
begin

text \<open>
  \<open>eg_rebuild\<close> restores congruence: its result identifies exactly the pairs of the least congruence
  over the equivalence it starts from (\<open>closure\<close>), and its loop stops because every round that changes
  something joins two classes.
\<close>

section \<open>The least congruence\<close>

inductive closure :: "egraph \<Rightarrow> nat \<Rightarrow> nat \<Rightarrow> bool" for g where
  base: "i < g_count g \<Longrightarrow> j < g_count g \<Longrightarrow> rep g i = rep g j \<Longrightarrow> closure g i j"
| sym: "closure g i j \<Longrightarrow> closure g j i"
| trans: "closure g i j \<Longrightarrow> closure g j k \<Longrightarrow> closure g i k"
| cong: "i < g_count g \<Longrightarrow> j < g_count g \<Longrightarrow> same_label (g_nodes g ! i) (g_nodes g ! j) \<Longrightarrow>
    list_all2 (closure g) (en_children (g_nodes g ! i)) (en_children (g_nodes g ! j)) \<Longrightarrow> closure g i j"

definition congruence_closed :: "egraph \<Rightarrow> bool" where
  "congruence_closed g \<longleftrightarrow> (\<forall>i < g_count g. \<forall>j < g_count g.
     congruent g (g_nodes g ! i) (g_nodes g ! j) \<longrightarrow> rep g i = rep g j)"

text \<open>
  \<open>merged g g'\<close>: the operation may have joined classes, and only pairs that every relation \<open>R\<close> of a
  given family holds of. The family is the congruences, or the equality of values under rules.
\<close>

definition within :: "egraph \<Rightarrow> (nat \<Rightarrow> nat \<Rightarrow> bool) \<Rightarrow> bool" where
  "within g R \<longleftrightarrow> (\<forall>i < g_count g. \<forall>j < g_count g. rep g i = rep g j \<longrightarrow> R i j)"

definition congruence_on :: "egraph \<Rightarrow> (nat \<Rightarrow> nat \<Rightarrow> bool) \<Rightarrow> bool" where
  "congruence_on g R \<longleftrightarrow> (\<forall>i j. R i j \<longrightarrow> R j i) \<and> (\<forall>i j k. R i j \<longrightarrow> R j k \<longrightarrow> R i k)
     \<and> (\<forall>i < g_count g. \<forall>j < g_count g. same_label (g_nodes g ! i) (g_nodes g ! j) \<longrightarrow>
          list_all2 R (en_children (g_nodes g ! i)) (en_children (g_nodes g ! j)) \<longrightarrow> R i j)"

definition coarser :: "egraph \<Rightarrow> egraph \<Rightarrow> bool" where
  "coarser g g' \<longleftrightarrow> (\<forall>i j. rep g i = rep g j \<longrightarrow> rep g' i = rep g' j)"

lemma coarser_refl: "coarser g g"
  by (simp add: coarser_def)

lemma coarser_trans: "coarser g g' \<Longrightarrow> coarser g' g'' \<Longrightarrow> coarser g g''"
  unfolding coarser_def by blast

lemma closure_bound: "closure g i j \<Longrightarrow> i < g_count g \<and> j < g_count g"
  by (induction rule: closure.induct) auto

lemma congruence_closure: "congruence_on g (closure g)"
  unfolding congruence_on_def
proof (intro conjI allI impI)
  show "closure g j i" if "closure g i j" for i j using that by (rule closure.sym)
  show "closure g i k" if "closure g i j" "closure g j k" for i j k using that by (rule closure.trans)
qed (rule closure.cong)

text \<open>The closure is inside every congruence over the classes.\<close>

lemma closure_least: "closure g i j \<Longrightarrow> within g R \<Longrightarrow> congruence_on g R \<Longrightarrow> R i j"
proof (induction rule: closure.induct)
  case (cong i j)
  then have "list_all2 R (en_children (g_nodes g ! i)) (en_children (g_nodes g ! j))"
    by (auto elim: list_all2_mono)
  with cong(1-3,6) show ?case by (simp add: congruence_on_def)
next
  case (trans i j k)
  then have "R i j" "R j k" by blast+
  with trans(6) show ?case unfolding congruence_on_def by blast
next
  case (sym i j)
  then have "R i j" by blast
  with sym(4) show ?case unfolding congruence_on_def by blast
qed (simp add: within_def)

lemma within_union:
  assumes wf: "wf_eg g" and ab: "a < g_count g" "b < g_count g" and u: "eg_union g a b = (g', r)"
    and R: "within g R" "R a b" "\<And>i j. R i j \<Longrightarrow> R j i" "\<And>i j k. R i j \<Longrightarrow> R j k \<Longrightarrow> R i k"
  shows "within g' R"
  unfolding within_def
proof (intro allI impI)
  fix i j
  note e = eg_union_spec [OF wf ab u]
  assume "i < g_count g'" "j < g_count g'" and ij: "rep g' i = rep g' j"
  then have b: "i < g_count g" "j < g_count g" using e(3) by simp_all
  have R': "R x y" if "x < g_count g" "y < g_count g" "rep g x = rep g y" for x y
    using R(1) that by (simp add: within_def)
  from ij e(5) [of i] e(5) [of j] have "rep g i = rep g j \<or> (rep g i = rep g a \<and> rep g j = rep g b)
      \<or> (rep g i = rep g b \<and> rep g j = rep g a)" by (auto simp: max_def min_def split: if_splits)
  then show "R i j" using R' b ab R(2-4) by metis
qed

section \<open>The number of classes\<close>

definition classes :: "egraph \<Rightarrow> nat" where
  "classes g = card {i. i < g_count g \<and> rep g i = i}"

lemma finite_roots: "finite {i. i < g_count g \<and> rep g i = i}"
  by simp

lemma classes_le: "classes g \<le> g_count g"
proof -
  have "classes g \<le> card {..<g_count g}" unfolding classes_def by (rule card_mono) auto
  then show ?thesis by simp
qed

lemma classes_union:
  assumes wf: "wf_eg g" and ab: "a < g_count g" "b < g_count g" and u: "eg_union g a b = (g', True)"
  shows "Suc (classes g') = classes g"
proof -
  note e = eg_union_spec [OF wf ab u]
  let ?m = "max (rep g a) (rep g b)" and ?l = "min (rep g a) (rep g b)"
  have lm: "?l < ?m" using e(4) by (auto simp: max_def min_def)
  have m: "?m < g_count g" "rep g ?m = ?m"
    using rep_less [OF wf] rep_rep [OF wf] ab by (auto simp: max_def)
  have l: "rep g ?l = ?l" using rep_rep [OF wf] ab by (simp add: min_def)
  have r': "rep g' i = (if rep g i = ?m then ?l else rep g i)" for i by (rule e(5))
  have "{i. i < g_count g' \<and> rep g' i = i} = {i. i < g_count g \<and> rep g i = i} - {?m}" (is "?A = ?B - _")
  proof (intro set_eqI iffI)
    show "i \<in> ?B - {?m}" if "i \<in> ?A" for i
    proof (cases "rep g i = ?m")
      case True
      with that r' have "i = ?l" by simp
      with True l lm show ?thesis by simp
    next
      case False
      with that r' e(3) have "rep g i = i" "i < g_count g" by simp_all
      with False show ?thesis by auto
    qed
    show "i \<in> ?A" if "i \<in> ?B - {?m}" for i
      using that e(3) r' by simp
  qed
  moreover have "?m \<in> ?B" using m by simp
  ultimately show ?thesis using card_Suc_Diff1 [OF finite_roots [of g], of ?m] unfolding classes_def by simp
qed

lemma class_count_loop_spec:
  assumes "wf_eg g" "\<forall>i \<in> set js. i < g_count g" "class_count_loop g js = (g', n)"
  shows "wf_eg g' \<and> rep g' = rep g \<and> g_nodes g' = g_nodes g \<and> n = length (filter (\<lambda>i. rep g i = i) js)"
  using assms
proof (induction js arbitrary: g g' n)
  case (Cons i js)
  obtain g1 r where f: "eg_find g i = (g1, r)" by (cases "eg_find g i")
  have i: "i < g_count g" using Cons by simp
  note e = eg_find_E [OF Cons.prems(1) i f]
  obtain g2 k where c: "class_count_loop g1 js = (g2, k)" by (cases "class_count_loop g1 js")
  have "wf_eg g2 \<and> rep g2 = rep g1 \<and> g_nodes g2 = g_nodes g1 \<and> k = length (filter (\<lambda>i. rep g1 i = i) js)"
    using Cons.prems e by (intro Cons.IH [OF _ _ c]) auto
  with Cons.prems(3) e c f show ?case by auto
qed simp

lemma eg_class_count_spec:
  assumes wf: "wf_eg g" and c: "eg_class_count g = (g', n)"
  shows "wf_eg g'" "rep g' = rep g" "g_nodes g' = g_nodes g" "n = classes g"
proof -
  have s: "wf_eg g' \<and> rep g' = rep g \<and> g_nodes g' = g_nodes g
      \<and> n = length (filter (\<lambda>i. rep g i = i) [0..<g_count g])"
    using c by (intro class_count_loop_spec [OF wf]) (simp_all add: eg_class_count_def)
  moreover have "length (filter (\<lambda>i. rep g i = i) [0..<g_count g]) = card (set (filter (\<lambda>i. rep g i = i) [0..<g_count g]))"
    by (rule distinct_card [symmetric]) simp
  moreover have "set (filter (\<lambda>i. rep g i = i) [0..<g_count g]) = {i. i < g_count g \<and> rep g i = i}" by auto
  ultimately show "wf_eg g'" "rep g' = rep g" "g_nodes g' = g_nodes g" "n = classes g"
    unfolding classes_def by simp_all
qed

section \<open>One pair, one pass, the loop\<close>

lemma rebuild_pair_spec:
  assumes wf: "wf_eg g" and ij: "i < g_count g" "j < g_count g" and r: "rebuild_pair g i j = (g', c)"
  shows "wf_eg g' \<and> g_nodes g' = g_nodes g \<and> coarser g g'
    \<and> (c \<longleftrightarrow> congruent g (g_nodes g ! i) (g_nodes g ! j) \<and> rep g i \<noteq> rep g j)
    \<and> (c \<longrightarrow> Suc (classes g') = classes g) \<and> (\<not> c \<longrightarrow> rep g' = rep g)
    \<and> (\<forall>R. within g R \<longrightarrow> congruence_on g R \<longrightarrow> within g' R)"
proof (cases "same_label (g_nodes g ! i) (g_nodes g ! j)")
  case False
  with r have "g' = g" "\<not> c" by (simp_all add: rebuild_pair_def)
  with wf False show ?thesis by (simp add: congruent_def coarser_refl)
next
  case True
  then have len: "length (en_children (g_nodes g ! i)) = length (en_children (g_nodes g ! j))"
    by (simp add: same_label_def)
  have ch: "\<forall>d \<in> set (en_children (g_nodes g ! x)). d < g_count g" if "x < g_count g" for x
    using wf_child [OF wf that] by blast
  obtain g1 s where s: "same_children g (en_children (g_nodes g ! i)) (en_children (g_nodes g ! j)) = (g1, s)"
    by (cases "same_children g (en_children (g_nodes g ! i)) (en_children (g_nodes g ! j))")
  have sp: "wf_eg g1" "rep g1 = rep g" "g_nodes g1 = g_nodes g"
    "s \<longleftrightarrow> map (rep g) (en_children (g_nodes g ! i)) = map (rep g) (en_children (g_nodes g ! j))"
    using same_children_spec [OF wf ch [OF ij(1)] ch [OF ij(2)] s len] by simp_all
  have cnt: "g_count g1 = g_count g" "classes g1 = classes g" using sp by (simp_all add: g_count_def classes_def)
  have resp: "within g1 R = within g R" for R using sp cnt by (simp add: within_def)
  show ?thesis
  proof (cases s)
    case False
    with r True s have "g' = g1" "\<not> c" by (simp_all add: rebuild_pair_def)
    with False sp resp show ?thesis by (simp add: congruent_def coarser_def)
  next
    case t: True
    with r True s have u: "eg_union g1 i j = (g', c)" by (simp add: rebuild_pair_def)
    have ij1: "i < g_count g1" "j < g_count g1" using ij cnt by simp_all
    note e = eg_union_spec [OF sp(1) ij1 u]
    have cg: "congruent g (g_nodes g ! i) (g_nodes g ! j)" using True t sp(4) by (simp add: congruent_def)
    have co: "coarser g g'" using e(5) sp(2) by (simp add: coarser_def)
    have "within g' R" if R: "within g R" "congruence_on g R" for R
    proof -
      have "list_all2 R (en_children (g_nodes g ! i)) (en_children (g_nodes g ! j))"
      proof (rule list_all2_all_nthI [OF len])
        fix n
        assume n: "n < length (en_children (g_nodes g ! i))"
        with len have "rep g (en_children (g_nodes g ! i) ! n) = rep g (en_children (g_nodes g ! j) ! n)"
          using t sp(4) by (metis nth_map)
        moreover have "en_children (g_nodes g ! i) ! n < g_count g" "en_children (g_nodes g ! j) ! n < g_count g"
          using ch ij n len by auto
        ultimately show "R (en_children (g_nodes g ! i) ! n) (en_children (g_nodes g ! j) ! n)"
          using R(1) by (simp add: within_def)
      qed
      then have "R i j" using R(2) True ij by (simp add: congruence_on_def)
      moreover have "R x y \<Longrightarrow> R y x" "R x y \<Longrightarrow> R y z \<Longrightarrow> R x z" for x y z
        using R(2) unfolding congruence_on_def by blast+
      ultimately show ?thesis by (intro within_union [OF sp(1) ij1 u]) (use R(1) resp in blast)+
    qed
    moreover have "Suc (classes g') = classes g" if c using classes_union [OF sp(1) ij1] u that cnt by simp
    moreover have "rep g' = rep g" if "\<not> c" using e(4,5) that sp(2) by (auto simp: fun_eq_iff)
    ultimately show ?thesis using e sp cg co by simp
  qed
qed

lemma rebuild_pass_spec:
  assumes "wf_eg g" "\<forall>(i, j) \<in> set ps. i < g_count g \<and> j < g_count g" "rebuild_pass g ch ps = (g', c)"
  shows "wf_eg g' \<and> g_nodes g' = g_nodes g \<and> coarser g g'
    \<and> (\<not> c \<longrightarrow> \<not> ch \<and> rep g' = rep g
        \<and> (\<forall>(i, j) \<in> set ps. congruent g (g_nodes g ! i) (g_nodes g ! j) \<longrightarrow> rep g i = rep g j))
    \<and> classes g' \<le> classes g \<and> (c \<longrightarrow> \<not> ch \<longrightarrow> classes g' < classes g)
    \<and> (\<forall>R. within g R \<longrightarrow> congruence_on g R \<longrightarrow> within g' R)"
  using assms
proof (induction g ch ps rule: rebuild_pass.induct)
  case (1 g changed)
  then show ?case by (auto simp: coarser_refl)
next
  case (2 g changed i j ps)
  obtain g1 c1 where p: "rebuild_pair g i j = (g1, c1)" by (cases "rebuild_pair g i j")
  have ij: "i < g_count g" "j < g_count g" using 2 by auto
  note s = rebuild_pair_spec [OF 2(2) ij p]
  have cnt: "g_count g1 = g_count g" using s by (simp add: g_count_def)
  have r: "rebuild_pass g1 (changed \<or> c1) ps = (g', c)" using 2(4) p by simp
  note t = 2(1) [OF p [symmetric] refl _ _ r]
  have t': "wf_eg g' \<and> g_nodes g' = g_nodes g1 \<and> coarser g1 g'
    \<and> (\<not> c \<longrightarrow> \<not> (changed \<or> c1) \<and> rep g' = rep g1
        \<and> (\<forall>(i, j) \<in> set ps. congruent g1 (g_nodes g1 ! i) (g_nodes g1 ! j) \<longrightarrow> rep g1 i = rep g1 j))
    \<and> classes g' \<le> classes g1 \<and> (c \<longrightarrow> \<not> (changed \<or> c1) \<longrightarrow> classes g' < classes g1)
    \<and> (\<forall>R. within g1 R \<longrightarrow> congruence_on g1 R \<longrightarrow> within g' R)"
    using s 2(3) cnt by (intro t) auto
  have cong: "congruent g1 = congruent g" if "rep g1 = rep g" using that by (intro ext) (simp add: congruent_def)
  have con: "congruence_on g1 = congruence_on g" using s cnt by (intro ext) (simp add: congruence_on_def)
  have A: "wf_eg g' \<and> g_nodes g' = g_nodes g" using s t' by simp
  have B: "coarser g g'" using s t' coarser_trans by blast
  have C: "\<not> changed \<and> rep g' = rep g
        \<and> (\<forall>(i, j) \<in> set ((i, j) # ps). congruent g (g_nodes g ! i) (g_nodes g ! j) \<longrightarrow> rep g i = rep g j)"
    if "\<not> c"
  proof -
    have "\<not> changed" "\<not> c1" "rep g1 = rep g" "rep g' = rep g1" using that s t' by auto
    then show ?thesis using that s t' cong by simp
  qed
  have D: "classes g' \<le> classes g" "c \<longrightarrow> \<not> changed \<longrightarrow> classes g' < classes g"
  proof -
    have "classes g1 \<le> classes g" "c1 \<longrightarrow> classes g1 < classes g" using s by (cases c1; auto simp: classes_def cnt)+
    then show "classes g' \<le> classes g" "c \<longrightarrow> \<not> changed \<longrightarrow> classes g' < classes g" using t' by auto
  qed
  have E: "\<forall>R. within g R \<longrightarrow> congruence_on g R \<longrightarrow> within g' R" using s t' con by simp
  show ?case using A B C D E by blast
qed

lemma set_index_pairs: "set (index_pairs n) = {(i, j). i < j \<and> j < n}"
  by (force simp: index_pairs_def)

lemma congruent_sym: "congruent g e n \<Longrightarrow> congruent g n e"
  by (auto simp: congruent_def same_label_def)

lemma rebuild_loop_spec:
  assumes "wf_eg g" "classes g < k"
  shows "wf_eg (rebuild_loop k g) \<and> g_nodes (rebuild_loop k g) = g_nodes g \<and> coarser g (rebuild_loop k g)
    \<and> congruence_closed (rebuild_loop k g) \<and> classes (rebuild_loop k g) \<le> classes g
    \<and> (\<forall>R. within g R \<longrightarrow> congruence_on g R \<longrightarrow> within (rebuild_loop k g) R)
    \<and> (\<forall>m. classes g < m \<longrightarrow> rebuild_loop m g = rebuild_loop k g)"
  using assms
proof (induction k arbitrary: g)
  case (Suc k)
  obtain g1 c where p: "rebuild_pass g False (index_pairs (g_count g)) = (g1, c)"
    by (cases "rebuild_pass g False (index_pairs (g_count g))")
  have "\<forall>(i, j) \<in> set (index_pairs (g_count g)). i < g_count g \<and> j < g_count g" by (auto simp: set_index_pairs)
  note s = rebuild_pass_spec [OF Suc.prems(1) this p]
  have cnt: "g_count g1 = g_count g" using s by (simp add: g_count_def)
  show ?case
  proof (cases c)
    case False
    have m: "rebuild_loop m g = g1" if "0 < m" for m using that p False by (cases m) simp_all
    have eq: "rep g1 = rep g" "g_nodes g1 = g_nodes g" using s False by simp_all
    have pr: "rep g i = rep g j" if "i < j" "j < g_count g" "congruent g (g_nodes g ! i) (g_nodes g ! j)" for i j
      using s False that by (auto simp: set_index_pairs)
    have "rep g i = rep g j" if "i < g_count g" "j < g_count g" "congruent g (g_nodes g ! i) (g_nodes g ! j)" for i j
      using pr [of i j] pr [of j i] that congruent_sym by (cases i j rule: linorder_cases) metis+
    moreover have "congruent g1 = congruent g" using eq by (intro ext) (simp add: congruent_def)
    ultimately have "congruence_closed g1" unfolding congruence_closed_def cnt eq by simp
    moreover have "rebuild_loop (Suc k) g = g1" by (rule m) simp
    ultimately show ?thesis using s m by (simp del: rebuild_loop.simps)
  next
    case True
    then have lt: "classes g1 < classes g" using s by simp
    have step: "rebuild_loop (Suc m) g = rebuild_loop m g1" for m using p True by simp
    have IH: "wf_eg (rebuild_loop k g1) \<and> g_nodes (rebuild_loop k g1) = g_nodes g1 \<and> coarser g1 (rebuild_loop k g1)
      \<and> congruence_closed (rebuild_loop k g1) \<and> classes (rebuild_loop k g1) \<le> classes g1
      \<and> (\<forall>R. within g1 R \<longrightarrow> congruence_on g1 R \<longrightarrow> within (rebuild_loop k g1) R)
      \<and> (\<forall>m. classes g1 < m \<longrightarrow> rebuild_loop m g1 = rebuild_loop k g1)"
      using s lt Suc.prems by (intro Suc.IH) auto
    have con: "congruence_on g1 = congruence_on g" using s cnt by (intro ext) (simp add: congruence_on_def)
    have "rebuild_loop m g = rebuild_loop k g1" if "classes g < m" for m
      using that lt IH step by (cases m) auto
    moreover have "coarser g (rebuild_loop k g1)" using s IH coarser_trans by blast
    ultimately show ?thesis using IH s lt con unfolding step by simp
  qed
qed simp

lemma eg_rebuild_spec:
  assumes "wf_eg g"
  shows "wf_eg (eg_rebuild g)" "g_nodes (eg_rebuild g) = g_nodes g" "g_count (eg_rebuild g) = g_count g"
    "coarser g (eg_rebuild g)" "congruence_closed (eg_rebuild g)"
    "within g R \<Longrightarrow> congruence_on g R \<Longrightarrow> within (eg_rebuild g) R"
    "classes g < m \<Longrightarrow> rebuild_loop m g = eg_rebuild g"
  using rebuild_loop_spec [OF assms, of "Suc (g_count g)"] classes_le [of g]
  by (simp_all add: eg_rebuild_def g_count_def)

text \<open>The rebuilt classes are the least congruence.\<close>

lemma rebuild_closure:
  assumes wf: "wf_eg g" and ij: "i < g_count g" "j < g_count g"
  shows "rep (eg_rebuild g) i = rep (eg_rebuild g) j \<longleftrightarrow> closure g i j"
proof
  note e = eg_rebuild_spec [OF wf]
  have "within g (closure g)" by (simp add: within_def closure.base)
  then have "within (eg_rebuild g) (closure g)" by (rule e(6) [OF _ congruence_closure])
  then show "closure g i j" if "rep (eg_rebuild g) i = rep (eg_rebuild g) j"
    using that ij e(3) by (simp add: within_def)
  let ?R = "\<lambda>i j. rep (eg_rebuild g) i = rep (eg_rebuild g) j"
  have "within g ?R" using e(4) unfolding within_def coarser_def by blast
  moreover have "congruence_on g ?R"
    unfolding congruence_on_def
  proof (intro conjI allI impI)
    show "?R j i" if "?R i j" for i j using that by (rule HOL.sym)
    show "?R i k" if "?R i j" "?R j k" for i j k using that by (rule HOL.trans)
    fix i j
    assume "i < g_count g" "j < g_count g" "same_label (g_nodes g ! i) (g_nodes g ! j)"
      "list_all2 ?R (en_children (g_nodes g ! i)) (en_children (g_nodes g ! j))"
    moreover from this(4) have "map (rep (eg_rebuild g)) (en_children (g_nodes g ! i))
        = map (rep (eg_rebuild g)) (en_children (g_nodes g ! j))"
      unfolding list_all2_conv_all_nth by (intro nth_equalityI) simp_all
    ultimately show "?R i j"
      using e(5) by (simp add: congruence_closed_def congruent_def e(2,3))
  qed
  ultimately show "?R i j" if "closure g i j" using closure_least [OF that] by blast
qed

end
