(* ===== verification/Oeuph_Pattern.thy ===== *)
theory Oeuph_Pattern
  imports IR_Core
begin

text \<open>
  Rewrite patterns (\<open>oeuph/ccw_oeuph_pattern.c\<close>), rulesets and their files
  (\<open>oeuph/ccw_oeuph.c\<close>, \<open>oeuph/ccw_oeuph_ruleset_load.c\<close>). S-expressions are read and printed by the
  vendored SFSEXP library: \<open>parse_sexp\<close> and \<open>print_sexp\<close> are parameters, and \<open>sexp\<close> is the part of its
  tree the code reads (\<open>ty\<close>, \<open>aty\<close>, \<open>val\<close>, \<open>list\<close>/\<open>next\<close>). Allocation succeeds.
\<close>

section \<open>S-expressions\<close>

datatype sexp_aty = SEXP_BASIC | SEXP_SQUOTE | SEXP_DQUOTE | SEXP_BINARY

datatype sexp = SexpValue sexp_aty "string option" | SexpList "sexp list"

fun sexp_items :: "sexp \<Rightarrow> sexp list" where
  "sexp_items (SexpList xs) = xs"
| "sexp_items (SexpValue a v) = []"

text \<open>\<open>item->ty == SEXP_VALUE\<close> and its \<open>val\<close>, with NULL items and NULL values as \<open>None\<close>.\<close>

definition item_at :: "sexp list \<Rightarrow> nat \<Rightarrow> sexp option" where
  "item_at xs i = (if i < length xs then Some (xs ! i) else None)"

fun atom_text :: "sexp option \<Rightarrow> string option" where
  "atom_text (Some (SexpValue a v)) = v"
| "atom_text _ = None"

definition is_atom :: "sexp option \<Rightarrow> string \<Rightarrow> bool" where
  "is_atom item s \<longleftrightarrow> atom_text item = Some s"

section \<open>Integers\<close>

definition llong_max :: int where "llong_max = 9223372036854775807"
definition llong_min :: int where "llong_min = - 9223372036854775808"

text \<open>\<open>strtoll (s, &end, 10)\<close>: the value, saturated, and the text at \<open>end\<close>; \<open>None\<close> when \<open>end == s\<close>.\<close>

definition strtoll :: "string \<Rightarrow> (int \<times> string) option" where
  "strtoll s =
     (let t = dropWhile isspace s;
          neg = (t \<noteq> [] \<and> hd t = CHR ''-'');
          u = (if t \<noteq> [] \<and> (hd t = CHR ''-'' \<or> hd t = CHR ''+'') then tl t else t);
          ds = takeWhile isdigit u;
          v = (if neg then - int (digits_val ds) else int (digits_val ds))
      in if ds = [] then None
         else Some (if v < llong_min then llong_min else if v > llong_max then llong_max else v,
                    dropWhile isdigit u))"

definition parse_integer :: "string option \<Rightarrow> 64 word option" where
  "parse_integer s =
     (case s of
        None \<Rightarrow> None
      | Some t \<Rightarrow>
          if t = [] then None
          else (case strtoll t of
                  None \<Rightarrow> None
                | Some (v, rest) \<Rightarrow> if rest \<noteq> [] then None else Some (word_of_int v)))"

section \<open>Patterns\<close>

datatype ccw_pat_kind = CCW_PAT_VAR | CCW_PAT_CONST | CCW_PAT_CONST_VAR | CCW_PAT_OP

definition CCW_PAT_MAX_CHILDREN :: nat where "CCW_PAT_MAX_CHILDREN = 4"
definition CCW_PAT_MAX_NODES :: nat where "CCW_PAT_MAX_NODES = 64"

text \<open>\<open>snprintf (text, 32, "%s", s)\<close>.\<close>

definition text32 :: "string \<Rightarrow> string" where
  "text32 s = take 31 s"

record ccw_pat_node =
  p_kind :: ccw_pat_kind
  p_text :: string
  p_value :: "64 word"
  p_children :: "nat list"

definition blank_pat :: ccw_pat_node where
  "blank_pat = \<lparr>p_kind = CCW_PAT_VAR, p_text = [], p_value = 0, p_children = []\<rparr>"

record ccw_pattern =
  p_nodes :: "ccw_pat_node list"
  p_root :: nat

text \<open>The parser's state: the nodes allocated so far, the first failure.\<close>

record pstate =
  ps_nodes :: "ccw_pat_node list"
  ps_reason :: string
  ps_failed :: bool

definition pfail :: "pstate \<Rightarrow> string \<Rightarrow> pstate" where
  "pfail s msg = s\<lparr>ps_reason := (if ps_failed s then ps_reason s else msg), ps_failed := True\<rparr>"

definition alloc_node :: "pstate \<Rightarrow> pstate \<times> nat option" where
  "alloc_node s =
     (if length (ps_nodes s) \<ge> CCW_PAT_MAX_NODES then (pfail s ''pattern too large'', None)
      else (s\<lparr>ps_nodes := ps_nodes s @ [blank_pat]\<rparr>, Some (length (ps_nodes s))))"

definition set_pat :: "pstate \<Rightarrow> nat \<Rightarrow> (ccw_pat_node \<Rightarrow> ccw_pat_node) \<Rightarrow> pstate" where
  "set_pat s i f = s\<lparr>ps_nodes := (ps_nodes s)[i := f (ps_nodes s ! i)]\<rparr>"

definition parse_atom :: "pstate \<Rightarrow> sexp_aty \<Rightarrow> string option \<Rightarrow> pstate \<times> nat option" where
  "parse_atom s aty val =
     (case val of
        None \<Rightarrow> (pfail s ''pattern atoms must be identifiers or integers'', None)
      | Some t \<Rightarrow>
          if aty = SEXP_DQUOTE then (pfail s ''pattern atoms must be identifiers or integers'', None)
          else
            (case alloc_node s of
               (s1, None) \<Rightarrow> (s1, None)
             | (s1, Some i) \<Rightarrow>
                 if t \<noteq> [] \<and> hd t = CHR ''?''
                 then (set_pat s1 i (\<lambda>n. n\<lparr>p_kind := CCW_PAT_VAR, p_text := text32 t\<rparr>), Some i)
                 else (case parse_integer (Some t) of
                         Some v \<Rightarrow> (set_pat s1 i (\<lambda>n. n\<lparr>p_kind := CCW_PAT_CONST, p_value := v\<rparr>), Some i)
                       | None \<Rightarrow> (set_pat s1 i (\<lambda>n. n\<lparr>p_kind := CCW_PAT_OP, p_text := text32 t\<rparr>), Some i))))"

text \<open>The branch of \<open>parse_list\<close> for \<open>(iconst ...)\<close>, on the allocated node.\<close>

definition parse_iconst :: "pstate \<Rightarrow> nat \<Rightarrow> sexp list \<Rightarrow> pstate \<times> nat option" where
  "parse_iconst s i xs =
     (case atom_text (item_at xs 1) of
        None \<Rightarrow> (pfail s ''iconst needs exactly one integer or ?var'', None)
      | Some t \<Rightarrow>
          if length xs \<noteq> 2 then (pfail s ''iconst needs exactly one integer or ?var'', None)
          else if t \<noteq> [] \<and> hd t = CHR ''?''
          then (set_pat s i (\<lambda>n. n\<lparr>p_kind := CCW_PAT_CONST_VAR, p_text := text32 t\<rparr>), Some i)
          else (case parse_integer (Some t) of
                  Some v \<Rightarrow> (set_pat s i (\<lambda>n. n\<lparr>p_kind := CCW_PAT_CONST, p_value := v\<rparr>), Some i)
                | None \<Rightarrow> (pfail s ''iconst needs an integer or ?var'', None)))"

text \<open>
  \<open>parse_node\<close> and \<open>parse_list\<close>; \<open>parse_operands\<close> is the loop over the operands of the node \<open>i\<close>. The test
  for a NULL source in \<open>parse_node\<close> never fires: the loop stays below the number of children.
\<close>

fun parse_node :: "pstate \<Rightarrow> sexp \<Rightarrow> pstate \<times> nat option"
  and parse_operands :: "pstate \<Rightarrow> nat \<Rightarrow> sexp list \<Rightarrow> pstate \<times> nat option" where
  "parse_node s (SexpValue aty val) = parse_atom s aty val"
| "parse_node s (SexpList []) = (pfail s ''list must start with an opcode'', None)"
| "parse_node s (SexpList (x # xs)) =
     (case atom_text (Some x) of
        None \<Rightarrow> (pfail s ''list must start with an opcode'', None)
      | Some h \<Rightarrow>
          (case alloc_node s of
             (s1, None) \<Rightarrow> (s1, None)
           | (s1, Some i) \<Rightarrow>
               if h = ''iconst'' then parse_iconst s1 i (x # xs)
               else parse_operands (set_pat s1 i (\<lambda>n. n\<lparr>p_kind := CCW_PAT_OP, p_text := text32 h\<rparr>)) i xs))"
| "parse_operands s i [] = (s, Some i)"
| "parse_operands s i (x # xs) =
     (case parse_node s x of
        (s1, None) \<Rightarrow> (s1, None)
      | (s1, Some child) \<Rightarrow>
          if ps_failed s1 then (s1, None)
          else if length (p_children (ps_nodes s1 ! i)) \<ge> CCW_PAT_MAX_CHILDREN
          then (pfail s1 ''too many operands in pattern'', None)
          else parse_operands (set_pat s1 i (\<lambda>n. n\<lparr>p_children := p_children n @ [child]\<rparr>)) i xs)"

text \<open>\<open>ccw_pattern_parse\<close>: the reason on failure. A NULL text fails without a reason.\<close>

definition ccw_pattern_parse :: "(string \<Rightarrow> sexp option) \<Rightarrow> string option \<Rightarrow> string + ccw_pattern" where
  "ccw_pattern_parse parse_sexp input =
     (case input of
        None \<Rightarrow> Inl []
      | Some t \<Rightarrow>
          (case parse_sexp t of
             None \<Rightarrow> Inl ''invalid pattern S-expression''
           | Some source \<Rightarrow>
               (case parse_node \<lparr>ps_nodes = [], ps_reason = [], ps_failed = False\<rparr> source of
                  (s, root) \<Rightarrow>
                    (case root of
                       None \<Rightarrow> Inl (ps_reason s)
                     | Some r \<Rightarrow> if ps_failed s then Inl (ps_reason s)
                                 else Inr \<lparr>p_nodes = ps_nodes s, p_root = r\<rparr>))))"

section \<open>Rulesets\<close>

record ccw_rule =
  r_name :: string
  r_lhs :: ccw_pattern
  r_rhs :: ccw_pattern
  r_bidirectional :: bool
  r_side :: "(64 word \<Rightarrow> bool) option"

record ccw_oeuph_ruleset =
  rs_name :: string
  rs_rules :: "ccw_rule list"

definition ccw_oeuph_ruleset_create :: "string option \<Rightarrow> ccw_oeuph_ruleset" where
  "ccw_oeuph_ruleset_create name =
     \<lparr>rs_name = take 63 (case name of Some s \<Rightarrow> s | None \<Rightarrow> ''unnamed''), rs_rules = []\<rparr>"

definition ccw_oeuph_ruleset_name :: "ccw_oeuph_ruleset option \<Rightarrow> string" where
  "ccw_oeuph_ruleset_name rs = (case rs of Some r \<Rightarrow> rs_name r | None \<Rightarrow> [])"

definition ccw_oeuph_ruleset_size :: "ccw_oeuph_ruleset option \<Rightarrow> nat" where
  "ccw_oeuph_ruleset_size rs = (case rs of Some r \<Rightarrow> length (rs_rules r) | None \<Rightarrow> 0)"

text \<open>\<open>rule_error\<close>: the message is formatted into 256 bytes.\<close>

definition rule_error :: "string \<Rightarrow> (ccw_status \<times> string)" where
  "rule_error msg = (CCW_ERR_TYPE, take 255 msg)"

definition ccw_oeuph_rule_add ::
  "(string \<Rightarrow> sexp option) \<Rightarrow> ccw_oeuph_ruleset \<Rightarrow> string option \<Rightarrow> string option \<Rightarrow> string option \<Rightarrow> bool
     \<Rightarrow> (64 word \<Rightarrow> bool) option \<Rightarrow> (ccw_status \<times> string) + ccw_oeuph_ruleset" where
  "ccw_oeuph_rule_add parse_sexp rs rule_name lhs rhs bidirectional side =
     (let name = take 63 (case rule_name of Some s \<Rightarrow> s | None \<Rightarrow> ''unnamed'')
      in case ccw_pattern_parse parse_sexp lhs of
           Inl reason \<Rightarrow> Inl (rule_error (name @ '': bad lhs: '' @ reason))
         | Inr l \<Rightarrow>
             (case ccw_pattern_parse parse_sexp rhs of
                Inl reason \<Rightarrow> Inl (rule_error (name @ '': bad rhs: '' @ reason))
              | Inr r \<Rightarrow>
                  Inr (rs\<lparr>rs_rules := rs_rules rs @
                    [\<lparr>r_name = name, r_lhs = l, r_rhs = r, r_bidirectional = bidirectional, r_side = side\<rparr>]\<rparr>)))"

section \<open>Ruleset files\<close>

text \<open>\<open>contents\<close> is \<open>None\<close> when the file cannot be opened. The buffer of an empty file stays NULL.\<close>

definition read_whole_file :: "string option \<Rightarrow> string option" where
  "read_whole_file contents = (case contents of None \<Rightarrow> None | Some [] \<Rightarrow> None | Some t \<Rightarrow> Some t)"

definition wrap_source :: "string \<Rightarrow> string" where
  "wrap_source t = ''(ccw-ruleset-root'' @ [newline] @ takeWhile (\<lambda>c. c \<noteq> CHR 0x00) t @ [newline] @ '')''"

text \<open>The option loop of a rule form, over what follows the right-hand side.\<close>

fun rule_options :: "bool \<Rightarrow> sexp list \<Rightarrow> bool" where
  "rule_options b (opt # value # rest) =
     rule_options (if is_atom (Some opt) '':bidirectional'' then \<not> is_atom (Some value) ''#f'' else b) rest"
| "rule_options b _ = b"

definition load_rule ::
  "(string \<Rightarrow> sexp option) \<Rightarrow> (sexp \<Rightarrow> string option) \<Rightarrow> ccw_oeuph_ruleset \<Rightarrow> sexp list
     \<Rightarrow> string + ccw_oeuph_ruleset" where
  "load_rule parse_sexp print_sexp rs items =
     (case (atom_text (item_at items 1), items) of
        (Some name, _ # _ # lhs # rhs # opts) \<Rightarrow>
          (case (print_sexp lhs, print_sexp rhs) of
             (Some l, Some r) \<Rightarrow>
               (case ccw_oeuph_rule_add parse_sexp rs (Some name) (Some l) (Some r) (rule_options True opts) None of
                  Inl (st, msg) \<Rightarrow> Inl msg
                | Inr rs' \<Rightarrow> Inr rs')
           | _ \<Rightarrow> Inl ''invalid rule'')
      | _ \<Rightarrow> Inl ''rule needs name, lhs, and rhs'')"

fun load_forms ::
  "(string \<Rightarrow> sexp option) \<Rightarrow> (sexp \<Rightarrow> string option) \<Rightarrow> ccw_oeuph_ruleset option \<Rightarrow> sexp list
     \<Rightarrow> string + ccw_oeuph_ruleset option" where
  "load_forms parse_sexp print_sexp rs [] = Inr rs"
| "load_forms parse_sexp print_sexp rs (SexpValue a v # forms) = Inl ''ruleset top-level form must be a list''"
| "load_forms parse_sexp print_sexp rs (SexpList items # forms) =
     (if is_atom (item_at items 0) ''ruleset'' then
        (case atom_text (item_at items 1) of
           None \<Rightarrow> Inl ''ruleset form needs one name''
         | Some name \<Rightarrow>
             if length items \<noteq> 2 then Inl ''ruleset form needs one name''
             else load_forms parse_sexp print_sexp
                    (if rs = None then Some (ccw_oeuph_ruleset_create (Some name)) else rs) forms)
      else if is_atom (item_at items 0) ''rule'' then
        (case rs of
           None \<Rightarrow> Inl ''rule appears before the ruleset declaration''
         | Some r \<Rightarrow>
             (case load_rule parse_sexp print_sexp r items of
                Inl e \<Rightarrow> Inl e
              | Inr r' \<Rightarrow> load_forms parse_sexp print_sexp (Some r') forms))
      else load_forms parse_sexp print_sexp rs forms)"

definition ccw_oeuph_ruleset_load ::
  "(string \<Rightarrow> sexp option) \<Rightarrow> (sexp \<Rightarrow> string option) \<Rightarrow> string option \<Rightarrow> string + ccw_oeuph_ruleset" where
  "ccw_oeuph_ruleset_load parse_sexp print_sexp contents =
     (case read_whole_file contents of
        None \<Rightarrow> Inl ''cannot read ruleset file''
      | Some source \<Rightarrow>
          (case parse_sexp (wrap_source source) of
             None \<Rightarrow> Inl ''invalid ruleset S-expression''
           | Some root \<Rightarrow>
               (case load_forms parse_sexp print_sexp None (drop 1 (sexp_items root)) of
                  Inl e \<Rightarrow> Inl e
                | Inr None \<Rightarrow> Inl ''file declares no ruleset''
                | Inr (Some rs) \<Rightarrow> Inr rs)))"

end
