(* ===== verification/Oeuph_Match.thy ===== *)
theory Oeuph_Match
  imports Oeuph_Egraph Oeuph_Pattern
begin

text \<open>
  Matching, instantiation and extraction (\<open>oeuph/ccw_oeuph.c\<close>). Every function that may call \<open>eg_find\<close>
  returns the graph. Recursion over a pattern's indices has a bound on its depth: a parsed pattern has at
  most \<open>CCW_PAT_MAX_NODES\<close> nodes and its children have larger indices (\<open>wf_pattern\<close>), so the bound
  \<open>pattern_depth\<close> is never reached.
\<close>

section \<open>Bindings\<close>

record binding =
  b_name :: string
  b_eclass :: nat
  b_value :: "64 word"
  b_is_value :: bool

definition binding_find :: "binding list \<Rightarrow> string \<Rightarrow> binding option" where
  "binding_find b name = find (\<lambda>x. b_name x = name) b"

definition binding_add_class :: "binding list \<Rightarrow> string \<Rightarrow> nat \<Rightarrow> binding list \<times> bool" where
  "binding_add_class b name c =
     (case binding_find b name of
        Some f \<Rightarrow> (b, \<not> b_is_value f \<and> b_eclass f = c)
      | None \<Rightarrow>
          if length b \<ge> CCW_PAT_MAX_NODES then (b, False)
          else (b @ [\<lparr>b_name = text32 name, b_eclass = c, b_value = 0, b_is_value = False\<rparr>], True))"

definition binding_add_value :: "binding list \<Rightarrow> string \<Rightarrow> 64 word \<Rightarrow> binding list \<times> bool" where
  "binding_add_value b name v =
     (case binding_find b name of
        Some f \<Rightarrow> (b, b_is_value f \<and> b_value f = v)
      | None \<Rightarrow>
          if length b \<ge> CCW_PAT_MAX_NODES then (b, False)
          else (b @ [\<lparr>b_name = text32 name, b_eclass = 0, b_value = v, b_is_value = True\<rparr>], True))"

section \<open>Matching\<close>

definition pattern_depth :: nat where "pattern_depth = Suc CCW_PAT_MAX_NODES"

text \<open>
  \<open>match_args\<close> is the loop over the operands, \<open>match_any\<close> the search of a child pattern among the e-nodes of
  the class \<open>want\<close>. A failed attempt leaves the bindings as they were before it.
\<close>

function (sequential) match_node ::
    "nat \<Rightarrow> ccw_pattern \<Rightarrow> egraph \<Rightarrow> nat \<Rightarrow> nat \<Rightarrow> binding list \<Rightarrow> egraph \<times> binding list \<times> bool"
  and match_args ::
    "nat \<Rightarrow> ccw_pattern \<Rightarrow> egraph \<Rightarrow> nat list \<Rightarrow> nat list \<Rightarrow> binding list \<Rightarrow> egraph \<times> binding list \<times> bool"
  and match_any ::
    "nat \<Rightarrow> ccw_pattern \<Rightarrow> egraph \<Rightarrow> nat \<Rightarrow> nat \<Rightarrow> nat list \<Rightarrow> binding list \<Rightarrow> egraph \<times> binding list \<times> bool" where
  "match_node 0 pat g pidx nidx b = (g, b, False)"
| "match_node (Suc k) pat g pidx nidx b =
     (let p = p_nodes pat ! pidx; n = g_nodes g ! nidx
      in case p_kind p of
           CCW_PAT_VAR \<Rightarrow>
             (let (g1, c) = eg_find g nidx; (b1, ok) = binding_add_class b (p_text p) c in (g1, b1, ok))
         | CCW_PAT_CONST \<Rightarrow> (g, b, en_is_const n \<and> en_value n = p_value p)
         | CCW_PAT_CONST_VAR \<Rightarrow>
             if en_is_const n
             then (let (b1, ok) = binding_add_value b (p_text p) (en_value n) in (g, b1, ok))
             else (g, b, False)
         | CCW_PAT_OP \<Rightarrow>
             if en_is_const n \<or> en_opcode n \<noteq> p_text p then (g, b, False)
             else if length (en_children n) \<noteq> length (p_children p) then (g, b, False)
             else match_args k pat g (p_children p) (en_children n) b)"
| "match_args k pat g (p # ps) (c # cs) b =
     (let (g1, want) = eg_find g c
      in case match_any k pat g1 p want [0..<g_count g1] b of
           (g2, b2, False) \<Rightarrow> (g2, b2, False)
         | (g2, b2, True) \<Rightarrow> match_args k pat g2 ps cs b2)"
| "match_args k pat g _ _ b = (g, b, True)"
| "match_any k pat g p want [] b = (g, b, False)"
| "match_any k pat g p want (j # js) b =
     (let (g1, r) = eg_find g j
      in if r \<noteq> want then match_any k pat g1 p want js b
         else (case match_node k pat g1 p j b of
                 (g2, b2, True) \<Rightarrow> (g2, b2, True)
               | (g2, b2, False) \<Rightarrow> match_any k pat g2 p want js b))"
  by pat_completeness auto

termination
  by (relation "measures [\<lambda>x. case x of Inl (k, _) \<Rightarrow> k | Inr (Inl (k, _)) \<Rightarrow> k | Inr (Inr (k, _)) \<Rightarrow> k,
      \<lambda>x. case x of Inl _ \<Rightarrow> 0 | Inr (Inl _) \<Rightarrow> 2 | Inr (Inr _) \<Rightarrow> 1,
      \<lambda>x. case x of Inl _ \<Rightarrow> 0 | Inr (Inl (_, _, _, ps, _)) \<Rightarrow> length ps | Inr (Inr (_, _, _, _, _, js, _)) \<Rightarrow> length js]")
    auto

section \<open>Instantiation\<close>

text \<open>The scan for a representative of a bound class.\<close>

fun find_member :: "egraph \<Rightarrow> nat \<Rightarrow> nat list \<Rightarrow> egraph \<times> nat option" where
  "find_member g c [] = (g, None)"
| "find_member g c (i # is) =
     (let (g1, r) = eg_find g i in if r = c then (g1, Some i) else find_member g1 c is)"

function (sequential) instantiate ::
    "nat \<Rightarrow> ccw_pattern \<Rightarrow> binding list \<Rightarrow> egraph \<Rightarrow> nat \<Rightarrow> egraph \<times> nat option"
  and instantiate_args ::
    "nat \<Rightarrow> ccw_pattern \<Rightarrow> binding list \<Rightarrow> egraph \<Rightarrow> nat list \<Rightarrow> nat list \<Rightarrow> egraph \<times> nat list option" where
  "instantiate 0 pat b g pidx = (g, None)"
| "instantiate (Suc k) pat b g pidx =
     (let p = p_nodes pat ! pidx
      in case p_kind p of
           CCW_PAT_VAR \<Rightarrow>
             (case binding_find b (p_text p) of
                None \<Rightarrow> (g, None)
              | Some f \<Rightarrow> if b_is_value f then (g, None) else find_member g (b_eclass f) [0..<g_count g])
         | CCW_PAT_CONST \<Rightarrow>
             (case eg_add_node g (no_enode\<lparr>en_is_const := True, en_value := p_value p\<rparr>) of (g1, i) \<Rightarrow> (g1, Some i))
         | CCW_PAT_CONST_VAR \<Rightarrow>
             (case binding_find b (p_text p) of
                None \<Rightarrow> (g, None)
              | Some f \<Rightarrow>
                  if \<not> b_is_value f then (g, None)
                  else (case eg_add_node g (no_enode\<lparr>en_is_const := True, en_value := b_value f\<rparr>) of
                          (g1, i) \<Rightarrow> (g1, Some i)))
         | CCW_PAT_OP \<Rightarrow>
             (case instantiate_args k pat b g (p_children p) [] of
                (g1, None) \<Rightarrow> (g1, None)
              | (g1, Some cs) \<Rightarrow>
                  (case eg_add_node g1 (no_enode\<lparr>en_opcode := text32 (p_text p), en_children := cs\<rparr>) of
                     (g2, i) \<Rightarrow> (g2, Some i))))"
| "instantiate_args k pat b g [] cs = (g, Some cs)"
| "instantiate_args k pat b g (p # ps) cs =
     (case instantiate k pat b g p of
        (g1, None) \<Rightarrow> (g1, None)
      | (g1, Some c) \<Rightarrow> instantiate_args k pat b g1 ps (cs @ [c]))"
  by pat_completeness auto

termination
  by (relation "measures [\<lambda>x. case x of Inl (k, _) \<Rightarrow> k | Inr (k, _) \<Rightarrow> k,
      \<lambda>x. case x of Inl _ \<Rightarrow> 0 | Inr (_, _, _, _, ps, _) \<Rightarrow> Suc (length ps)]") auto

section \<open>Cost models and extraction\<close>

datatype ccw_cost_model = CCW_COST_PERFORMANCE | CCW_COST_CANONICAL

definition INT32_MAX :: nat where "INT32_MAX = 2147483647"

definition node_cost :: "enode \<Rightarrow> ccw_cost_model \<Rightarrow> nat" where
  "node_cost n model =
     (if en_is_const n \<or> en_opcode n = [] then 1
      else if model = CCW_COST_CANONICAL then 10 + of_char (hd (en_opcode n))
      else if en_opcode n = ''imul'' then 30
      else if en_opcode n = ''idiv'' then 40
      else if en_opcode n = ''shl'' \<or> en_opcode n = ''shr'' then 4
      else if en_opcode n = ''iadd'' \<or> en_opcode n = ''isub'' then 5
      else if en_opcode n = ''imov'' then 2
      else 10)"

text \<open>
  The state of \<open>extract\<close>: the graph and its two arrays, \<open>best_node\<close> (\<open>None\<close> for -1) and \<open>best_cost\<close>. The sums of
  costs are of type \<open>int\<close>: \<open>x_overflow\<close> tells that one has left its range, which is undefined in C.
\<close>

record extraction =
  x_graph :: egraph
  x_node :: "nat option list"
  x_cost :: "nat list"
  x_overflow :: bool

text \<open>The loop over the children: \<open>None\<close> when one of them has no cost yet.\<close>

fun children_cost :: "extraction \<Rightarrow> nat \<Rightarrow> nat list \<Rightarrow> extraction \<times> nat option" where
  "children_cost x cost [] = (x, Some cost)"
| "children_cost x cost (c # cs) =
     (let (g1, cls) = eg_find (x_graph x) c; x1 = x\<lparr>x_graph := g1\<rparr>; k = x_cost x ! cls
      in if k = INT32_MAX then (x1, None)
         else children_cost (x1\<lparr>x_overflow := x_overflow x \<or> cost + k > INT32_MAX\<rparr>) (cost + k) cs)"

definition extract_step :: "ccw_cost_model \<Rightarrow> extraction \<Rightarrow> nat \<Rightarrow> extraction \<times> bool" where
  "extract_step model x i =
     (let n = g_nodes (x_graph x) ! i
      in case children_cost x (node_cost n model) (en_children n) of
           (x1, None) \<Rightarrow> (x1, False)
         | (x1, Some cost) \<Rightarrow>
             (let (g2, cls) = eg_find (x_graph x1) i; x2 = x1\<lparr>x_graph := g2\<rparr>
              in if cost < x_cost x2 ! cls
                    \<or> (cost = x_cost x2 ! cls \<and> (case x_node x2 ! cls of None \<Rightarrow> False | Some b \<Rightarrow> i < b))
                 then (x2\<lparr>x_node := (x_node x2)[cls := Some i], x_cost := (x_cost x2)[cls := cost]\<rparr>, True)
                 else (x2, False)))"

fun extract_pass :: "ccw_cost_model \<Rightarrow> extraction \<Rightarrow> bool \<Rightarrow> nat list \<Rightarrow> extraction \<times> bool" where
  "extract_pass model x changed [] = (x, changed)"
| "extract_pass model x changed (i # is) =
     (let (x1, c) = extract_step model x i in extract_pass model x1 (changed \<or> c) is)"

partial_function (option) extract_loop :: "ccw_cost_model \<Rightarrow> extraction \<Rightarrow> extraction option" where
  "extract_loop model x =
     (case extract_pass model x False [0..<g_count (x_graph x)] of
        (x1, c) \<Rightarrow> if c then extract_loop model x1 else Some x1)"

text \<open>\<open>None\<close> when a sum has overflowed.\<close>

definition extract_best :: "egraph \<Rightarrow> ccw_cost_model \<Rightarrow> extraction option" where
  "extract_best g model =
     (case extract_loop model
             \<lparr>x_graph = g, x_node = replicate (g_count g) None, x_cost = replicate (g_count g) INT32_MAX, x_overflow = False\<rparr> of
        None \<Rightarrow> None
      | Some x \<Rightarrow> if x_overflow x then None else Some x)"

end
