(* ===== verification/Oeuph_Sem.thy ===== *)
theory Oeuph_Sem
  imports Oeuph_Rebuild Oeuph_Match
begin

text \<open>
  What patterns and e-nodes mean. \<open>pat_term\<close> reads a pattern as a term; under an interpretation (\<open>F\<close> of
  opcodes, \<open>C\<close> of constants, \<open>\<rho>\<close> of registers) terms and e-nodes have values, and a graph is sound when
  equal classes have equal values. Matching finds instances, instantiation builds them, and both keep
  the graph sound.
\<close>

section \<open>Patterns as terms\<close>

datatype pterm = PVar string | PConst "64 word" | PConstVar string | POp string "pterm list"

definition wf_pattern :: "ccw_pattern \<Rightarrow> bool" where
  "wf_pattern pat \<longleftrightarrow> p_root pat < length (p_nodes pat) \<and> length (p_nodes pat) \<le> CCW_PAT_MAX_NODES
     \<and> (\<forall>i < length (p_nodes pat). length (p_text (p_nodes pat ! i)) \<le> 31
          \<and> length (p_children (p_nodes pat ! i)) \<le> CCW_PAT_MAX_CHILDREN
          \<and> (\<forall>c \<in> set (p_children (p_nodes pat ! i)). i < c \<and> c < length (p_nodes pat)))"

function pat_term :: "ccw_pat_node list \<Rightarrow> nat \<Rightarrow> pterm" where
  "pat_term ns i =
     (let p = ns ! i
      in case p_kind p of
           CCW_PAT_VAR \<Rightarrow> PVar (p_text p)
         | CCW_PAT_CONST \<Rightarrow> PConst (p_value p)
         | CCW_PAT_CONST_VAR \<Rightarrow> PConstVar (p_text p)
         | CCW_PAT_OP \<Rightarrow> POp (p_text p)
             (map (\<lambda>c. if i < c \<and> c < length ns then pat_term ns c else PVar []) (p_children p)))"
  by auto

termination by (relation "measure (\<lambda>(ns, i). length ns - i)") auto

declare pat_term.simps [simp del]

lemma pat_term_wf:
  assumes "wf_pattern pat" "i < length (p_nodes pat)"
  shows "pat_term (p_nodes pat) i =
     (let p = p_nodes pat ! i
      in case p_kind p of
           CCW_PAT_VAR \<Rightarrow> PVar (p_text p)
         | CCW_PAT_CONST \<Rightarrow> PConst (p_value p)
         | CCW_PAT_CONST_VAR \<Rightarrow> PConstVar (p_text p)
         | CCW_PAT_OP \<Rightarrow> POp (p_text p) (map (pat_term (p_nodes pat)) (p_children p)))"
proof -
  have "\<forall>c \<in> set (p_children (p_nodes pat ! i)). i < c \<and> c < length (p_nodes pat)"
    using assms unfolding wf_pattern_def by blast
  then have "map (\<lambda>c. if i < c \<and> c < length (p_nodes pat) then pat_term (p_nodes pat) c else PVar [])
      (p_children (p_nodes pat ! i)) = map (pat_term (p_nodes pat)) (p_children (p_nodes pat ! i))"
    by (intro map_cong refl) simp
  then show ?thesis by (subst pat_term.simps) (simp only: Let_def)
qed

fun const_vars :: "pterm \<Rightarrow> string set" where
  "const_vars (PConstVar x) = {x}"
| "const_vars (POp f ts) = (\<Union>t \<in> set ts. const_vars t)"
| "const_vars _ = {}"

fun ops_named :: "pterm \<Rightarrow> bool" where
  "ops_named (POp f ts) \<longleftrightarrow> f \<noteq> [] \<and> (\<forall>t \<in> set ts. ops_named t)"
| "ops_named _ \<longleftrightarrow> True"

text \<open>The value of a term under an assignment of its class variables and its constant variables.\<close>

fun tval :: "(string \<Rightarrow> 'v list \<Rightarrow> 'v) \<Rightarrow> (64 word \<Rightarrow> 'v) \<Rightarrow> (string \<Rightarrow> 'v) \<Rightarrow> (string \<Rightarrow> 64 word) \<Rightarrow> pterm \<Rightarrow> 'v" where
  "tval F C \<sigma> \<kappa> (PVar x) = \<sigma> x"
| "tval F C \<sigma> \<kappa> (PConst v) = C v"
| "tval F C \<sigma> \<kappa> (PConstVar x) = C (\<kappa> x)"
| "tval F C \<sigma> \<kappa> (POp f ts) = F f (map (tval F C \<sigma> \<kappa>) ts)"

section \<open>E-nodes as values\<close>

function nval :: "(string \<Rightarrow> 'v list \<Rightarrow> 'v) \<Rightarrow> (64 word \<Rightarrow> 'v) \<Rightarrow> (string \<Rightarrow> 'v) \<Rightarrow> enode list \<Rightarrow> nat \<Rightarrow> 'v" where
  "nval F C \<rho> ns i =
     (let n = ns ! i
      in if en_is_const n then C (en_value n)
         else if en_opcode n = [] \<and> en_children n = [] then \<rho> (en_reg n)
         else F (en_opcode n) (map (\<lambda>c. if c < i then nval F C \<rho> ns c else \<rho> []) (en_children n)))"
  by auto

termination by (relation "measure (\<lambda>(F, C, \<rho>, ns, i). i)") auto

declare nval.simps [simp del]

text \<open>The value an e-node has when its children have the values \<open>v\<close>.\<close>

definition eval_node ::
  "(string \<Rightarrow> 'v list \<Rightarrow> 'v) \<Rightarrow> (64 word \<Rightarrow> 'v) \<Rightarrow> (string \<Rightarrow> 'v) \<Rightarrow> (nat \<Rightarrow> 'v) \<Rightarrow> enode \<Rightarrow> 'v" where
  "eval_node F C \<rho> v n =
     (if en_is_const n then C (en_value n)
      else if en_opcode n = [] \<and> en_children n = [] then \<rho> (en_reg n)
      else F (en_opcode n) (map v (en_children n)))"

lemma nval_node: "wf_eg g \<Longrightarrow> i < g_count g \<Longrightarrow>
    nval F C \<rho> (g_nodes g) i = eval_node F C \<rho> (nval F C \<rho> (g_nodes g)) (g_nodes g ! i)"
  using wf_child [of g i]
  by (subst nval.simps) (auto simp: Let_def eval_node_def intro!: arg_cong2 [where f = F] map_cong)

lemma eval_node_cong:
  assumes "same_label e n" "map v (en_children e) = map w (en_children n)"
  shows "eval_node F C \<rho> v e = eval_node F C \<rho> w n"
  using assms by (auto simp: same_label_def eval_node_def)

lemma nval_prefix: "i < length ns \<Longrightarrow> nval F C \<rho> (ns @ ms) i = nval F C \<rho> ns i"
proof (induction i rule: less_induct)
  case (less i)
  then have "(ns @ ms) ! i = ns ! i" by (simp add: nth_append)
  moreover have "(\<lambda>c. if c < i then nval F C \<rho> (ns @ ms) c else \<rho> []) = (\<lambda>c. if c < i then nval F C \<rho> ns c else \<rho> [])"
    using less by (intro ext) simp
  ultimately show ?case by (subst (1 2) nval.simps) (simp only: )
qed

definition same_value ::
  "(string \<Rightarrow> 'v list \<Rightarrow> 'v) \<Rightarrow> (64 word \<Rightarrow> 'v) \<Rightarrow> (string \<Rightarrow> 'v) \<Rightarrow> egraph \<Rightarrow> nat \<Rightarrow> nat \<Rightarrow> bool" where
  "same_value F C \<rho> g i j \<longleftrightarrow> nval F C \<rho> (g_nodes g) i = nval F C \<rho> (g_nodes g) j"

definition sound_eg ::
  "(string \<Rightarrow> 'v list \<Rightarrow> 'v) \<Rightarrow> (64 word \<Rightarrow> 'v) \<Rightarrow> (string \<Rightarrow> 'v) \<Rightarrow> egraph \<Rightarrow> bool" where
  "sound_eg F C \<rho> g \<longleftrightarrow> wf_eg g \<and> within g (same_value F C \<rho> g)"

lemma same_value_congruence: "wf_eg g \<Longrightarrow> congruence_on g (same_value F C \<rho> g)"
  unfolding congruence_on_def same_value_def
proof (intro conjI allI impI)
  fix i j
  assume wf: "wf_eg g" and ij: "i < g_count g" "j < g_count g" and l: "same_label (g_nodes g ! i) (g_nodes g ! j)"
    and c: "list_all2 (\<lambda>i j. nval F C \<rho> (g_nodes g) i = nval F C \<rho> (g_nodes g) j)
      (en_children (g_nodes g ! i)) (en_children (g_nodes g ! j))"
  from c have "map (nval F C \<rho> (g_nodes g)) (en_children (g_nodes g ! i))
      = map (nval F C \<rho> (g_nodes g)) (en_children (g_nodes g ! j))"
    unfolding list_all2_conv_all_nth by (intro nth_equalityI) simp_all
  then show "nval F C \<rho> (g_nodes g) i = nval F C \<rho> (g_nodes g) j"
    unfolding nval_node [OF wf ij(1)] nval_node [OF wf ij(2)] by (rule eval_node_cong [OF l])
qed simp_all

lemma sound_rep: "sound_eg F C \<rho> g \<Longrightarrow> i < g_count g \<Longrightarrow> j < g_count g \<Longrightarrow> rep g i = rep g j \<Longrightarrow>
    nval F C \<rho> (g_nodes g) i = nval F C \<rho> (g_nodes g) j"
  unfolding sound_eg_def within_def same_value_def by blast

lemma within_cong:
  assumes "\<And>x. x < g_count g \<Longrightarrow> rep g' x = rep g x" "g_nodes g' = g_nodes g"
  shows "within g' R = within g R" "same_value F C \<rho> g' = same_value F C \<rho> g"
proof -
  have c: "g_count g' = g_count g" by (simp add: g_count_def assms(2))
  show "within g' R = within g R" unfolding within_def c using assms(1) by (simp cong: imp_cong)
  show "same_value F C \<rho> g' = same_value F C \<rho> g" by (intro ext) (simp only: same_value_def assms(2))
qed

lemma sound_halved:
  assumes "sound_eg F C \<rho> g" "wf_eg g'" "rep g' = rep g" "g_nodes g' = g_nodes g"
  shows "sound_eg F C \<rho> g'"
proof -
  have "rep g' x = rep g x" for x by (simp add: assms(3))
  note c = within_cong(1) [OF this assms(4)] within_cong(2) [OF this assms(4), of F C \<rho>]
  show ?thesis using assms(1,2) unfolding sound_eg_def c by simp
qed

text \<open>A rebuild merges only e-nodes of equal value.\<close>

lemma sound_rebuild:
  assumes s: "sound_eg F C \<rho> g"
  shows "sound_eg F C \<rho> (eg_rebuild g)"
proof -
  have wf: "wf_eg g" and w: "within g (same_value F C \<rho> g)" using s by (simp_all add: sound_eg_def)
  note e = eg_rebuild_spec [OF wf]
  have "within (eg_rebuild g) (same_value F C \<rho> g)" by (rule e(6) [OF w same_value_congruence [OF wf]])
  moreover have "same_value F C \<rho> (eg_rebuild g) = same_value F C \<rho> g"
    by (intro ext) (simp add: same_value_def e(2))
  ultimately show ?thesis using e(1) by (simp add: sound_eg_def)
qed

lemma sound_union:
  assumes s: "sound_eg F C \<rho> g" and ab: "a < g_count g" "b < g_count g"
    and v: "nval F C \<rho> (g_nodes g) a = nval F C \<rho> (g_nodes g) b" and u: "eg_union g a b = (g', r)"
  shows "sound_eg F C \<rho> g'" "g_nodes g' = g_nodes g" "g_count g' = g_count g"
proof -
  have wf: "wf_eg g" and w: "within g (same_value F C \<rho> g)" using s by (simp_all add: sound_eg_def)
  note e = eg_union_spec [OF wf ab u]
  have "within g' (same_value F C \<rho> g)"
    by (rule within_union [OF wf ab u w]) (use v in \<open>auto simp: same_value_def\<close>)
  then show "sound_eg F C \<rho> g'" using e(1,2) by (simp add: sound_eg_def same_value_def [abs_def])
  show "g_nodes g' = g_nodes g" "g_count g' = g_count g" by (rule e)+
qed

text \<open>Adding an e-node keeps the old values and yields one of the expected value.\<close>

definition grown :: "egraph \<Rightarrow> egraph \<Rightarrow> bool" where
  "grown g g' \<longleftrightarrow> wf_eg g' \<and> (\<exists>ms. g_nodes g' = g_nodes g @ ms) \<and> (\<forall>x < g_count g. rep g' x = rep g x)"

lemma grown_refl: "wf_eg g \<Longrightarrow> grown g g"
  by (simp add: grown_def)

lemma grown_count: "grown g g' \<Longrightarrow> g_count g \<le> g_count g'"
  by (auto simp: grown_def g_count_def)

lemma grown_trans: "grown g g' \<Longrightarrow> grown g' g'' \<Longrightarrow> grown g g''"
  using grown_count [of g g'] by (fastforce simp: grown_def)

lemma grown_nval: "grown g g' \<Longrightarrow> i < g_count g \<Longrightarrow> nval F C \<rho> (g_nodes g') i = nval F C \<rho> (g_nodes g) i"
  by (auto simp: grown_def g_count_def nval_prefix)

lemma grown_halved: "wf_eg g' \<Longrightarrow> rep g' = rep g \<Longrightarrow> g_nodes g' = g_nodes g \<Longrightarrow> grown g g'"
  by (simp add: grown_def)

lemma add_node_sound:
  assumes s: "sound_eg F C \<rho> g" and n: "\<forall>c \<in> set (en_children n). c < g_count g" and r: "eg_add_node g n = (g', i)"
  shows "sound_eg F C \<rho> g'" "grown g g'" "i < g_count g'"
    "nval F C \<rho> (g_nodes g') i = eval_node F C \<rho> (nval F C \<rho> (g_nodes g)) n"
proof -
  have wf: "wf_eg g" using s by (simp add: sound_eg_def)
  note e = eg_add_node_spec [OF wf n r]
  let ?f = "find (\<lambda>j. congruent g (g_nodes g ! j) n) [0..<g_count g]"
  have "sound_eg F C \<rho> g' \<and> grown g g' \<and> nval F C \<rho> (g_nodes g') i = eval_node F C \<rho> (nval F C \<rho> (g_nodes g)) n"
  proof (cases ?f)
    case (Some j)
    then have ij: "i = j" "g_nodes g' = g_nodes g" using e(6) by simp_all
    have j: "j < g_count g" "congruent g (g_nodes g ! j) n" using Some by (auto simp: find_Some_iff)
    have cnt: "g_count g' = g_count g" using ij by (simp add: g_count_def)
    have gr: "grown g g'" using e(1,3) ij cnt by (simp add: grown_def)
    have c: "within g' R = within g R" "same_value F C \<rho> g' = same_value F C \<rho> g" for R
      by (rule within_cong; use e(3) ij(2) in simp)+
    have "sound_eg F C \<rho> g'" using s e(1) unfolding sound_eg_def c by simp
    moreover have "nval F C \<rho> (g_nodes g) j = eval_node F C \<rho> (nval F C \<rho> (g_nodes g)) n"
      unfolding nval_node [OF wf j(1)]
    proof (rule eval_node_cong)
      show "same_label (g_nodes g ! j) n" using j(2) by (simp add: congruent_def)
      have len: "length (en_children (g_nodes g ! j)) = length (en_children n)"
        using j(2) by (simp add: congruent_def same_label_def)
      show "map (nval F C \<rho> (g_nodes g)) (en_children (g_nodes g ! j)) = map (nval F C \<rho> (g_nodes g)) (en_children n)"
      proof (rule nth_equalityI)
        fix k
        assume "k < length (map (nval F C \<rho> (g_nodes g)) (en_children (g_nodes g ! j)))"
        then have k: "k < length (en_children (g_nodes g ! j))" by simp
        have "rep g (en_children (g_nodes g ! j) ! k) = rep g (en_children n ! k)"
          using j(2) k len unfolding congruent_def by (metis nth_map)
        moreover have "en_children (g_nodes g ! j) ! k < g_count g" using wf_child [OF wf j(1)] k by simp
        moreover have "en_children n ! k < g_count g" using n k len by simp
        ultimately have "nval F C \<rho> (g_nodes g) (en_children (g_nodes g ! j) ! k)
            = nval F C \<rho> (g_nodes g) (en_children n ! k)" by (intro sound_rep [OF s])
        then show "map (nval F C \<rho> (g_nodes g)) (en_children (g_nodes g ! j)) ! k
            = map (nval F C \<rho> (g_nodes g)) (en_children n) ! k"
          using k len by simp
      qed (simp add: len)
    qed
    ultimately show ?thesis using gr ij by simp
  next
    case None
    then have i: "i = g_count g" "g_nodes g' = g_nodes g @ [n\<lparr>en_eclass := g_count g\<rparr>]" "rep g' i = i"
      using e(6) by auto
    have gr: "grown g g'" using e(1,3) i by (simp add: grown_def)
    have cnt: "g_count g' = Suc (g_count g)" using i by (simp add: g_count_def)
    have old: "rep g' x < g_count g" if "x < g_count g" for x using e(3) [OF that] rep_less [OF wf that] by simp
    have "same_value F C \<rho> g' x y" if xy: "x < g_count g'" "y < g_count g'" "rep g' x = rep g' y" for x y
    proof -
      consider "x = i" "y = i" | "x < g_count g" "y < g_count g" | "x = i" "y < g_count g" | "x < g_count g" "y = i"
        using xy cnt i(1) by linarith
      then show ?thesis
      proof cases
        case 2
        have "rep g x = rep g y" using e(3) [OF 2(1)] e(3) [OF 2(2)] xy(3) by simp
        then have "nval F C \<rho> (g_nodes g) x = nval F C \<rho> (g_nodes g) y" by (rule sound_rep [OF s 2])
        then show ?thesis unfolding same_value_def grown_nval [OF gr 2(1)] grown_nval [OF gr 2(2)] .
      next
        case 3
        with xy(3) i(1,3) old [of y] show ?thesis by simp
      next
        case 4
        with xy(3) i(1,3) old [of x] show ?thesis by simp
      qed (simp add: same_value_def)
    qed
    then have "sound_eg F C \<rho> g'" using e(1) by (simp add: sound_eg_def within_def)
    moreover have "nval F C \<rho> (g_nodes g') i = eval_node F C \<rho> (nval F C \<rho> (g_nodes g)) n"
    proof -
      have "g_nodes g' ! i = n\<lparr>en_eclass := g_count g\<rparr>" using i by (simp add: g_count_def nth_append)
      moreover have "map (nval F C \<rho> (g_nodes g')) (en_children n) = map (nval F C \<rho> (g_nodes g)) (en_children n)"
        using n by (intro map_cong refl grown_nval [OF gr]) blast
      ultimately show ?thesis unfolding nval_node [OF e(1,2), of F C \<rho>]
        by (intro eval_node_cong) (simp_all add: same_label_def)
    qed
    ultimately show ?thesis using gr by blast
  qed
  with e(2) show "sound_eg F C \<rho> g'" "grown g g'" "i < g_count g'"
    "nval F C \<rho> (g_nodes g') i = eval_node F C \<rho> (nval F C \<rho> (g_nodes g)) n" by blast+
qed

end
