(* ===== verification/Oeuph_Run.thy ===== *)
theory Oeuph_Run
  imports Oeuph_Match IR_Machine
begin

text \<open>
  The bridge to the IR, saturation under a budget, writeback, and \<open>ccw_oeuph_run\<close>
  (\<open>oeuph/ccw_oeuph.c\<close>). The clock is a parameter: \<open>late s n\<close> tells whether more than \<open>s\<close> seconds have
  passed when the check of the \<open>n\<close>th iteration reads it.
\<close>

section \<open>Budgets and statistics\<close>

record ccw_oeuph_budget =
  max_nodes :: int
  max_classes :: int
  max_iterations :: int
  max_seconds :: double
  seed :: "64 word"

text \<open>The double 5.0 is 0x4014000000000000.\<close>

definition ccw_oeuph_default_budget :: ccw_oeuph_budget where
  "ccw_oeuph_default_budget =
     \<lparr>max_nodes = 4096, max_classes = 2048, max_iterations = 30, max_seconds = 0x4014000000000000,
      seed = 0x5eed\<rparr>"

record ccw_oeuph_stats =
  s_ruleset :: string
  s_iterations :: nat
  s_nodes :: nat
  s_classes :: nat
  s_matches :: nat
  s_applications :: nat
  s_saturated :: bool
  s_budget_hit :: string

section \<open>Import\<close>

definition import_operand :: "egraph \<Rightarrow> ccw_ir \<Rightarrow> ccw_node \<Rightarrow> egraph \<times> nat" where
  "import_operand g ir opnd =
     (case ccw_ir_const_int_value ir opnd of
        Inr v \<Rightarrow> eg_add_node g (no_enode\<lparr>en_is_const := True, en_value := v\<rparr>)
      | Inl e \<Rightarrow>
          eg_add_node g (no_enode\<lparr>en_reg := text32 (case ccw_ir_operand_name ir opnd of Some s \<Rightarrow> s | None \<Rightarrow> [])\<rparr>))"

fun import_operands :: "egraph \<Rightarrow> ccw_ir \<Rightarrow> ccw_node list \<Rightarrow> egraph \<times> nat list" where
  "import_operands g ir [] = (g, [])"
| "import_operands g ir (x # xs) =
     (let (g1, c) = import_operand g ir x; (g2, cs) = import_operands g1 ir xs in (g2, c # cs))"

definition import_instr :: "egraph \<Rightarrow> ccw_ir \<Rightarrow> ccw_node \<Rightarrow> egraph \<times> nat option" where
  "import_instr g ir ins =
     (let opcode = text32 (case ccw_ir_instr_opcode ir ins of Some s \<Rightarrow> s | None \<Rightarrow> ''nop'');
          nops = nat (ccw_ir_instr_operand_count ir ins)
      in if nops > CCW_MAX_CHILDREN then (g, None)
         else
           (let (g1, cs) = import_operands g ir (map (\<lambda>i. ccw_ir_instr_operand ir ins (int i)) [0..<nops]);
                (g2, i) = eg_add_node g1 (no_enode\<lparr>en_opcode := opcode, en_children := cs\<rparr>)
            in (g2, Some i)))"

section \<open>Saturation\<close>

text \<open>The state of the two inner loops: the graph, the statistics and \<open>grew\<close>.\<close>

type_synonym sat = "egraph \<times> ccw_oeuph_stats \<times> bool"

definition side_ok :: "(64 word \<Rightarrow> bool) option \<Rightarrow> binding list \<Rightarrow> bool" where
  "side_ok side b =
     (case side of None \<Rightarrow> True | Some P \<Rightarrow> list_ex (\<lambda>x. b_is_value x \<and> P (b_value x)) b)"

definition try_rule ::
  "(64 word \<Rightarrow> bool) option \<Rightarrow> ccw_pattern \<Rightarrow> ccw_pattern \<Rightarrow> nat \<Rightarrow> sat \<Rightarrow> sat" where
  "try_rule side from to ni s =
     (case s of (g, st, grew) \<Rightarrow>
        (case match_node pattern_depth from g (p_root from) ni [] of
           (g1, b, False) \<Rightarrow> (g1, st, grew)
         | (g1, b, True) \<Rightarrow>
             (let st1 = st\<lparr>s_matches := s_matches st + 1\<rparr>
              in if \<not> side_ok side b then (g1, st1, grew)
                 else
                   (case instantiate pattern_depth to b g1 (p_root to) of
                      (g2, None) \<Rightarrow> (g2, st1, grew)
                    | (g2, Some made) \<Rightarrow>
                        (case eg_union g2 ni made of
                           (g3, True) \<Rightarrow> (g3, st1\<lparr>s_applications := s_applications st1 + 1\<rparr>, True)
                         | (g3, False) \<Rightarrow> (g3, st1, grew))))))"

text \<open>The e-nodes of the snapshot; the directions of a rule; the rules.\<close>

definition apply_direction ::
  "(64 word \<Rightarrow> bool) option \<Rightarrow> ccw_pattern \<Rightarrow> ccw_pattern \<Rightarrow> sat \<Rightarrow> sat" where
  "apply_direction side from to s = fold (try_rule side from to) [0..<g_count (fst s)] s"

definition apply_rule :: "ccw_rule \<Rightarrow> sat \<Rightarrow> sat" where
  "apply_rule r s =
     (let s1 = apply_direction (r_side r) (r_lhs r) (r_rhs r) s
      in if r_bidirectional r then apply_direction (r_side r) (r_rhs r) (r_lhs r) s1 else s1)"

definition stop_at :: "string \<Rightarrow> ccw_oeuph_stats \<Rightarrow> ccw_oeuph_stats" where
  "stop_at why st = st\<lparr>s_saturated := False, s_budget_hit := why\<rparr>"

text \<open>The loop over iterations; the first argument is how many are left.\<close>

fun saturate ::
  "nat \<Rightarrow> (double \<Rightarrow> nat \<Rightarrow> bool) \<Rightarrow> ccw_oeuph_budget \<Rightarrow> ccw_rule list \<Rightarrow> egraph \<Rightarrow> ccw_oeuph_stats
     \<Rightarrow> egraph \<times> ccw_oeuph_stats" where
  "saturate 0 late budget rules g st = (g, st)"
| "saturate (Suc k) late budget rules g st =
     (case fold apply_rule rules (g, st\<lparr>s_iterations := s_iterations st + 1\<rparr>, False) of
        (g1, st1, grew) \<Rightarrow>
          (let g2 = eg_rebuild g1
           in if int (g_count g2) > max_nodes budget then (g2, stop_at ''nodes'' st1)
              else
                (let (g3, classes) = eg_class_count g2
                 in if int classes > max_classes budget then (g3, stop_at ''classes'' st1)
                    else if late (max_seconds budget) (s_iterations st1) then (g3, stop_at ''time'' st1)
                    else if \<not> grew then (g3, st1)
                    else saturate k late budget rules g3 (if k = 0 then stop_at ''iterations'' st1 else st1))))"

section \<open>Writeback\<close>

text \<open>The comparison of an operand with the e-node that replaces it.\<close>

definition operand_matches :: "ccw_ir \<Rightarrow> enode \<Rightarrow> ccw_node \<Rightarrow> bool" where
  "operand_matches ir child opnd =
     (if en_is_const child then ccw_ir_const_int_value ir opnd = Inr (en_value child)
      else ccw_ir_operand_name ir opnd = Some (en_reg child))"

definition unchanged_instr :: "ccw_ir \<Rightarrow> ccw_node \<Rightarrow> egraph \<Rightarrow> enode \<Rightarrow> bool" where
  "unchanged_instr ir ins g n =
     (ccw_ir_instr_opcode ir ins = Some (en_opcode n)
      \<and> int (length (en_children n)) = ccw_ir_instr_operand_count ir ins
      \<and> list_all (\<lambda>i. operand_matches ir (g_nodes g ! (en_children n ! i)) (ccw_ir_instr_operand ir ins (int i)))
          [0..<length (en_children n)])"

definition build_operand :: "ccw_ir \<Rightarrow> enode \<Rightarrow> ccw_ir \<times> ccw_node" where
  "build_operand ir child =
     (if en_is_const child then ccw_ir_operand_const_int ir CCW_TY_I64 (en_value child)
      else ccw_ir_operand_reg ir (Some (en_reg child)))"

fun build_operands :: "ccw_ir \<Rightarrow> ccw_node \<Rightarrow> enode list \<Rightarrow> ccw_ir \<times> bool" where
  "build_operands ir built [] = (ir, True)"
| "build_operands ir built (c # cs) =
     (let (ir1, opnd) = build_operand ir c
      in if opnd = 0 then (ir1, False)
         else (let (ir2, st) = ccw_ir_instr_add_operand ir1 built opnd
               in if st \<noteq> CCW_OK then (ir2, False) else build_operands ir2 built cs))"

definition writeback_instr :: "ccw_ir \<Rightarrow> ccw_node \<Rightarrow> egraph \<Rightarrow> nat \<Rightarrow> ccw_ir \<times> bool" where
  "writeback_instr ir ins g idx =
     (let n = g_nodes g ! idx
      in if en_is_const n \<or> en_opcode n = [] then (ir, False)
         else if unchanged_instr ir ins g n then (ir, False)
         else
           (let (ir1, built) = ccw_ir_instr_build ir (Some (en_opcode n)) (ccw_ir_instr_type ir ins)
            in if built = 0 then (ir1, False)
               else
                 (let ir2 = (case ccw_ir_instr_dest ir1 ins of
                               None \<Rightarrow> ir1
                             | Some d \<Rightarrow> fst (ccw_ir_instr_set_dest ir1 built (Some d)));
                      (ir3, ok) = build_operands ir2 built (map ((!) (g_nodes g)) (en_children n))
                  in if \<not> ok then (ir3, False)
                     else (let (ir4, st) = ccw_ir_instr_replace ir3 ins built in (ir4, st = CCW_OK)))))"

section \<open>The run\<close>

text \<open>
  One instruction: import, saturation, extraction, writeback. \<open>None\<close> stands for what has no defined behaviour in C:
  an e-node written behind the blocks of the graph (the count never falls, so it is looked at after saturation), or
  a cost outside the range of \<open>int\<close>.
\<close>

definition rewrite_instr ::
  "(double \<Rightarrow> nat \<Rightarrow> bool) \<Rightarrow> ccw_oeuph_budget \<Rightarrow> ccw_cost_model \<Rightarrow> ccw_rule list \<Rightarrow> ccw_node
     \<Rightarrow> ccw_ir \<times> ccw_oeuph_stats \<Rightarrow> (ccw_ir \<times> ccw_oeuph_stats) option" where
  "rewrite_instr late budget model rules ins s =
     (case s of (ir, st) \<Rightarrow>
        (case import_instr empty_egraph ir ins of
           (g, None) \<Rightarrow> Some (ir, st)
         | (g, Some root) \<Rightarrow>
             (let (g1, root_class) = eg_find g root;
                  (g2, st1) = saturate (nat (max_iterations budget)) late budget rules g1 st
              in if \<not> in_rooms g2 then None else
                 case extract_best g2 model of
                   None \<Rightarrow> None
                 | Some x \<Rightarrow>
                     (let (g3, c) = eg_find (x_graph x) root_class;
                          ir1 = (case x_node x ! c of None \<Rightarrow> ir | Some chosen \<Rightarrow> fst (writeback_instr ir ins g3 chosen));
                          (g4, classes) = eg_class_count g3
                      in Some (ir1, st1\<lparr>s_nodes := s_nodes st1 + g_count g4, s_classes := s_classes st1 + classes\<rparr>)))))"

text \<open>
  The three loops over positions. A writeback only exchanges an instruction for another, so the counts,
  which the code reads again in every round, are those read here at the start of each loop.
\<close>

fun run_block ::
  "(ccw_node \<Rightarrow> ccw_ir \<times> ccw_oeuph_stats \<Rightarrow> (ccw_ir \<times> ccw_oeuph_stats) option) \<Rightarrow> ccw_node \<Rightarrow> nat list
     \<Rightarrow> ccw_ir \<times> ccw_oeuph_stats \<Rightarrow> (ccw_ir \<times> ccw_oeuph_stats) option" where
  "run_block step blk [] s = Some s"
| "run_block step blk (i # is) s =
     (case step (ccw_ir_block_instr_ref (fst s) blk (int i)) s of
        None \<Rightarrow> None | Some s1 \<Rightarrow> run_block step blk is s1)"

fun run_function ::
  "(ccw_node \<Rightarrow> ccw_ir \<times> ccw_oeuph_stats \<Rightarrow> (ccw_ir \<times> ccw_oeuph_stats) option) \<Rightarrow> ccw_node \<Rightarrow> nat list
     \<Rightarrow> ccw_ir \<times> ccw_oeuph_stats \<Rightarrow> (ccw_ir \<times> ccw_oeuph_stats) option" where
  "run_function step fn [] s = Some s"
| "run_function step fn (i # is) s =
     (let blk = ccw_ir_function_block_ref (fst s) fn (int i)
      in case run_block step blk [0..<nat (ccw_ir_block_instr_count (fst s) blk)] s of
           None \<Rightarrow> None | Some s1 \<Rightarrow> run_function step fn is s1)"

fun run_functions ::
  "(ccw_node \<Rightarrow> ccw_ir \<times> ccw_oeuph_stats \<Rightarrow> (ccw_ir \<times> ccw_oeuph_stats) option) \<Rightarrow> nat list
     \<Rightarrow> ccw_ir \<times> ccw_oeuph_stats \<Rightarrow> (ccw_ir \<times> ccw_oeuph_stats) option" where
  "run_functions step [] s = Some s"
| "run_functions step (i # is) s =
     (let fn = ccw_ir_function_ref (fst s) (int i)
      in case run_function step fn [0..<nat (ccw_ir_function_block_count (fst s) fn)] s of
           None \<Rightarrow> None | Some s1 \<Rightarrow> run_functions step is s1)"

definition ccw_oeuph_run ::
  "(double \<Rightarrow> nat \<Rightarrow> bool) \<Rightarrow> ccw_ir \<Rightarrow> ccw_oeuph_ruleset option \<Rightarrow> ccw_oeuph_budget \<Rightarrow> ccw_cost_model
     \<Rightarrow> (ccw_ir \<times> ccw_oeuph_stats option \<times> ccw_status) option" where
  "ccw_oeuph_run late ir ruleset budget model =
     (case ruleset of
        None \<Rightarrow> Some (ir, None, CCW_ERR_TYPE)
      | Some rs \<Rightarrow>
          (case run_functions (rewrite_instr late budget model (rs_rules rs))
                  [0..<nat (ccw_ir_function_count ir)]
                  (ir, \<lparr>s_ruleset = take 63 (rs_name rs), s_iterations = 0, s_nodes = 0, s_classes = 0,
                        s_matches = 0, s_applications = 0, s_saturated = True, s_budget_hit = []\<rparr>) of
             None \<Rightarrow> None
           | Some (ir', st) \<Rightarrow> Some (ir', Some st, CCW_OK)))"

end
