(* ===== verification/Oeuph_Sound.thy ===== *)
theory Oeuph_Sound
  imports Oeuph_Sem Oeuph_Run
begin

text \<open>
  Matching returns bindings under which the pattern has the value of the matched e-node; instantiation
  builds an e-node with the value of the other side; so a rule that is valid as an equation keeps the
  graph sound, and so does saturation.
\<close>

section \<open>Bindings\<close>

definition agrees :: "(nat \<Rightarrow> 'v) \<Rightarrow> binding list \<Rightarrow> (string \<Rightarrow> 'v) \<Rightarrow> (string \<Rightarrow> 64 word) \<Rightarrow> bool" where
  "agrees v b \<sigma> \<kappa> \<longleftrightarrow> (\<forall>x \<in> set b. if b_is_value x then \<kappa> (b_name x) = b_value x else \<sigma> (b_name x) = v (b_eclass x))"

definition bind_ok :: "egraph \<Rightarrow> binding list \<Rightarrow> bool" where
  "bind_ok g b \<longleftrightarrow> distinct (map b_name b)
     \<and> (\<forall>x \<in> set b. \<not> b_is_value x \<longrightarrow> b_eclass x < g_count g \<and> rep g (b_eclass x) = b_eclass x)"

lemma binding_find_Some: "binding_find b x = Some f \<Longrightarrow> f \<in> set b \<and> b_name f = x"
  by (auto simp: binding_find_def find_Some_iff)

lemma binding_find_None: "binding_find b x = None \<Longrightarrow> x \<notin> b_name ` set b"
  by (auto simp: binding_find_def find_None_iff)

lemma agrees_append: "agrees v (b @ ys) \<sigma> \<kappa> \<Longrightarrow> agrees v b \<sigma> \<kappa>"
  by (simp add: agrees_def)

lemma binding_find_distinct: "distinct (map b_name b) \<Longrightarrow> f \<in> set b \<Longrightarrow> binding_find b (b_name f) = Some f"
  by (induction b) (auto simp: binding_find_def)

lemma ex_agrees:
  assumes "distinct (map b_name b)"
  shows "\<exists>\<sigma> \<kappa>. agrees v b \<sigma> \<kappa>"
proof -
  let ?s = "\<lambda>x. case binding_find b x of Some f \<Rightarrow> v (b_eclass f) | None \<Rightarrow> v 0"
  let ?k = "\<lambda>x. case binding_find b x of Some f \<Rightarrow> b_value f | None \<Rightarrow> 0"
  have "agrees v b ?s ?k" using binding_find_distinct [OF assms] by (auto simp: agrees_def)
  then show ?thesis by blast
qed

text \<open>What a match does to the graph and to the bindings; \<open>V\<close> is the set of constant variables.\<close>

definition match_post :: "egraph \<Rightarrow> binding list \<Rightarrow> string set \<Rightarrow> egraph \<Rightarrow> binding list \<Rightarrow> bool" where
  "match_post g b V g' b' \<longleftrightarrow> wf_eg g' \<and> rep g' = rep g \<and> g_nodes g' = g_nodes g \<and> bind_ok g b'
     \<and> (\<exists>ys. b' = b @ ys \<and> (\<forall>y \<in> set ys. b_is_value y \<longrightarrow> b_name y \<in> V))"

lemma match_postD:
  assumes "match_post g b V g' b'"
  shows "wf_eg g'" "rep g' = rep g" "g_nodes g' = g_nodes g" "g_count g' = g_count g" "bind_ok g b'"
    "agrees v b' \<sigma> \<kappa> \<Longrightarrow> agrees v b \<sigma> \<kappa>"
  using assms by (auto simp: match_post_def g_count_def intro: agrees_append)

lemma match_post_refl: "wf_eg g \<Longrightarrow> bind_ok g b \<Longrightarrow> match_post g b V g b"
  by (simp add: match_post_def)

lemma bind_ok_cong: "rep g' = rep g \<Longrightarrow> g_nodes g' = g_nodes g \<Longrightarrow> bind_ok g' = bind_ok g"
  by (intro ext) (simp add: bind_ok_def g_count_def)

lemma match_post_trans:
  assumes "match_post g b V g1 b1" "match_post g1 b1 W g2 b2" "V \<subseteq> U" "W \<subseteq> U"
  shows "match_post g b U g2 b2"
proof -
  have "bind_ok g1 = bind_ok g" using assms(1) by (intro bind_ok_cong) (simp_all add: match_post_def)
  with assms show ?thesis by (fastforce simp: match_post_def)
qed

lemma match_post_find:
  assumes "wf_eg g" "c < g_count g" "eg_find g c = (g', r)" "bind_ok g b"
  shows "match_post g b V g' b"
  using eg_find_E [OF assms(1-3)] assms(4) by (simp add: match_post_def)

lemma match_post_sound: "sound_eg F C \<rho> g \<Longrightarrow> match_post g b V g' b' \<Longrightarrow> sound_eg F C \<rho> g'"
  by (rule sound_halved) (simp_all add: match_post_def)

lemma add_class_post:
  assumes g: "wf_eg g" "c < g_count g" "rep g c = c" and b: "bind_ok g b" and t: "length x \<le> 31"
    and r: "binding_add_class b x c = (b', ok)"
  shows "match_post g b V g b'" "ok \<Longrightarrow> agrees v b' \<sigma> \<kappa> \<Longrightarrow> \<sigma> x = v c"
proof -
  have "match_post g b V g b' \<and> (ok \<longrightarrow> agrees v b' \<sigma> \<kappa> \<longrightarrow> \<sigma> x = v c)"
  proof (cases "binding_find b x")
    case (Some f)
    with r have "b' = b" "ok = (\<not> b_is_value f \<and> b_eclass f = c)" by (auto simp: binding_add_class_def)
    with binding_find_Some [OF Some] match_post_refl [OF g(1) b] show ?thesis by (auto simp: agrees_def)
  next
    case None
    show ?thesis
    proof (cases "length b \<ge> CCW_PAT_MAX_NODES")
      case True
      with None r have "b' = b" "\<not> ok" by (auto simp: binding_add_class_def)
      with match_post_refl [OF g(1) b] show ?thesis by simp
    next
      case False
      let ?n = "\<lparr>b_name = x, b_eclass = c, b_value = 0, b_is_value = False\<rparr>"
      from False None r t have "b' = b @ [?n]" by (auto simp: binding_add_class_def text32_def)
      with binding_find_None [OF None] g b show ?thesis by (auto simp: match_post_def bind_ok_def agrees_def)
    qed
  qed
  then show "match_post g b V g b'" "ok \<Longrightarrow> agrees v b' \<sigma> \<kappa> \<Longrightarrow> \<sigma> x = v c" by blast+
qed

lemma add_value_post:
  assumes g: "wf_eg g" and b: "bind_ok g b" and t: "length x \<le> 31" and r: "binding_add_value b x c = (b', ok)"
  shows "match_post g b {x} g b'" "ok \<Longrightarrow> agrees v b' \<sigma> \<kappa> \<Longrightarrow> \<kappa> x = c"
proof -
  have "match_post g b {x} g b' \<and> (ok \<longrightarrow> agrees v b' \<sigma> \<kappa> \<longrightarrow> \<kappa> x = c)"
  proof (cases "binding_find b x")
    case (Some f)
    with r have "b' = b" "ok = (b_is_value f \<and> b_value f = c)" by (auto simp: binding_add_value_def)
    with binding_find_Some [OF Some] match_post_refl [OF g(1) b] show ?thesis by (auto simp: agrees_def)
  next
    case None
    show ?thesis
    proof (cases "length b \<ge> CCW_PAT_MAX_NODES")
      case True
      with None r have "b' = b" "\<not> ok" by (auto simp: binding_add_value_def)
      with match_post_refl [OF g(1) b] show ?thesis by simp
    next
      case False
      let ?n = "\<lparr>b_name = x, b_eclass = 0, b_value = c, b_is_value = True\<rparr>"
      from False None r t have "b' = b @ [?n]" by (auto simp: binding_add_value_def text32_def)
      with binding_find_None [OF None] g b show ?thesis by (auto simp: match_post_def bind_ok_def agrees_def)
    qed
  qed
  then show "match_post g b {x} g b'" "ok \<Longrightarrow> agrees v b' \<sigma> \<kappa> \<Longrightarrow> \<kappa> x = c" by blast+
qed

section \<open>Matching\<close>

lemma wf_pattern_node:
  assumes "wf_pattern pat" "i < length (p_nodes pat)"
  shows "length (p_text (p_nodes pat ! i)) \<le> 31" "\<forall>c \<in> set (p_children (p_nodes pat ! i)). c < length (p_nodes pat)"
  using assms unfolding wf_pattern_def by blast+

lemma match_sound:
  fixes F :: "string \<Rightarrow> 'v list \<Rightarrow> 'v"
  shows "sound_eg F C \<rho> g \<Longrightarrow> wf_pattern pat \<Longrightarrow> pidx < length (p_nodes pat) \<Longrightarrow>
      ops_named (pat_term (p_nodes pat) pidx) \<Longrightarrow> nidx < g_count g \<Longrightarrow> bind_ok g b \<Longrightarrow>
      match_node k pat g pidx nidx b = (g', b', ok) \<Longrightarrow>
      match_post g b (const_vars (pat_term (p_nodes pat) pidx)) g' b'
      \<and> (ok \<longrightarrow> (\<forall>\<sigma> \<kappa>. agrees (nval F C \<rho> (g_nodes g)) b' \<sigma> \<kappa> \<longrightarrow>
            tval F C \<sigma> \<kappa> (pat_term (p_nodes pat) pidx) = nval F C \<rho> (g_nodes g) nidx))"
    and "sound_eg F C \<rho> g \<Longrightarrow> wf_pattern pat \<Longrightarrow> \<forall>p \<in> set ps. p < length (p_nodes pat) \<and> ops_named (pat_term (p_nodes pat) p) \<Longrightarrow>
      length ps = length cs \<Longrightarrow> \<forall>c \<in> set cs. c < g_count g \<Longrightarrow> bind_ok g b \<Longrightarrow>
      match_args k pat g ps cs b = (g', b', ok) \<Longrightarrow>
      match_post g b (\<Union>p \<in> set ps. const_vars (pat_term (p_nodes pat) p)) g' b'
      \<and> (ok \<longrightarrow> (\<forall>\<sigma> \<kappa>. agrees (nval F C \<rho> (g_nodes g)) b' \<sigma> \<kappa> \<longrightarrow>
            map (\<lambda>p. tval F C \<sigma> \<kappa> (pat_term (p_nodes pat) p)) ps = map (nval F C \<rho> (g_nodes g)) cs))"
    and "sound_eg F C \<rho> g \<Longrightarrow> wf_pattern pat \<Longrightarrow> p < length (p_nodes pat) \<Longrightarrow> ops_named (pat_term (p_nodes pat) p) \<Longrightarrow>
      \<forall>j \<in> set js. j < g_count g \<Longrightarrow> bind_ok g b \<Longrightarrow>
      match_any k pat g p want js b = (g', b', ok) \<Longrightarrow>
      match_post g b (const_vars (pat_term (p_nodes pat) p)) g' b'
      \<and> (ok \<longrightarrow> (\<exists>j \<in> set js. rep g j = want \<and> (\<forall>\<sigma> \<kappa>. agrees (nval F C \<rho> (g_nodes g)) b' \<sigma> \<kappa> \<longrightarrow>
            tval F C \<sigma> \<kappa> (pat_term (p_nodes pat) p) = nval F C \<rho> (g_nodes g) j)))"
proof (induction k pat g pidx nidx b and k pat g ps cs b and k pat g p want js b
    arbitrary: g' b' ok and g' b' ok and g' b' ok
    rule: match_node_match_args_match_any.induct)
  case (1 pat g pidx nidx b)
  then show ?case by (auto simp: sound_eg_def intro: match_post_refl)
next
  case (2 k pat g pidx nidx b)
  have wf: "wf_eg g" using 2 by (simp add: sound_eg_def)
  let ?p = "p_nodes pat ! pidx" and ?n = "g_nodes g ! nidx"
  note t = pat_term_wf [OF 2(3,4)] and node = wf_pattern_node [OF 2(3,4)]
  show ?case
  proof (cases "p_kind ?p")
    case CCW_PAT_VAR
    obtain g1 c where f: "eg_find g nidx = (g1, c)" by (cases "eg_find g nidx")
    note e = eg_find_E [OF wf 2(6) f]
    obtain b1 k1 where a: "binding_add_class b (p_text ?p) c = (b1, k1)" by (cases "binding_add_class b (p_text ?p) c")
    have r: "g' = g1" "b' = b1" "ok = k1" using 2(8) CCW_PAT_VAR f a by (simp_all add: Let_def)
    have c: "c < g_count g" "rep g c = c" using e rep_less [OF wf 2(6)] rep_rep [OF wf 2(6)] by simp_all
    note p = add_class_post [OF wf c 2(7) node(1) a]
    have "match_post g1 b1 {} g1 b1"
      using p(1) [of "{}"] e bind_ok_cong [OF e(3,4)] by (intro match_post_refl) (simp_all add: match_post_def)
    then have "match_post g b {} g1 b1"
      using p(1) [of "{}"] e by (simp add: match_post_def)
    moreover have "nval F C \<rho> (g_nodes g) c = nval F C \<rho> (g_nodes g) nidx"
      using sound_rep [OF 2(2) c(1) 2(6)] c e by simp
    then have "\<sigma> (p_text ?p) = nval F C \<rho> (g_nodes g) nidx"
      if "k1" "agrees (nval F C \<rho> (g_nodes g)) b1 \<sigma> \<kappa>" for \<sigma> \<kappa>
      using p(2) [OF that] by simp
    ultimately show ?thesis using CCW_PAT_VAR r t by (auto simp: Let_def)
  next
    case CCW_PAT_CONST
    have "g' = g" "b' = b" "ok = (en_is_const ?n \<and> en_value ?n = p_value ?p)" using 2(8) CCW_PAT_CONST by (auto simp: Let_def)
    then show ?thesis using match_post_refl [OF wf 2(7)] CCW_PAT_CONST t nval_node [OF wf 2(6), of F C \<rho>]
      by (simp add: Let_def eval_node_def)
  next
    case CCW_PAT_CONST_VAR
    show ?thesis
    proof (cases "en_is_const ?n")
      case False
      then have "g' = g" "b' = b" "\<not> ok" using 2(8) CCW_PAT_CONST_VAR by (simp_all add: Let_def)
      then show ?thesis using match_post_refl [OF wf 2(7)] by simp
    next
      case True
      obtain b1 k1 where a: "binding_add_value b (p_text ?p) (en_value ?n) = (b1, k1)"
        by (cases "binding_add_value b (p_text ?p) (en_value ?n)")
      have r: "g' = g" "b' = b1" "ok = k1" using 2(8) CCW_PAT_CONST_VAR True a by (simp_all add: Let_def)
      note p = add_value_post [OF wf 2(7) node(1) a]
      show ?thesis using p(1) p(2) [where v = "nval F C \<rho> (g_nodes g)"] CCW_PAT_CONST_VAR r t True
          nval_node [OF wf 2(6), of F C \<rho>]
        by (auto simp: Let_def eval_node_def)
    qed
  next
    case CCW_PAT_OP
    show ?thesis
    proof (cases "en_is_const ?n \<or> en_opcode ?n \<noteq> p_text ?p \<or> length (en_children ?n) \<noteq> length (p_children ?p)")
      case True
      then have "g' = g" "b' = b" "\<not> ok" using 2(8) CCW_PAT_OP by (auto simp: Let_def split: if_splits)
      then show ?thesis using match_post_refl [OF wf 2(7)] by simp
    next
      case False
      then have m: "match_args k pat g (p_children ?p) (en_children ?n) b = (g', b', ok)"
        using 2(8) CCW_PAT_OP by (simp add: Let_def)
      have named: "p_text ?p \<noteq> []" "\<forall>c \<in> set (p_children ?p). ops_named (pat_term (p_nodes pat) c)"
        using 2(5) CCW_PAT_OP t by (simp_all add: Let_def)
      have IH: "match_post g b (\<Union>p \<in> set (p_children ?p). const_vars (pat_term (p_nodes pat) p)) g' b'
        \<and> (ok \<longrightarrow> (\<forall>\<sigma> \<kappa>. agrees (nval F C \<rho> (g_nodes g)) b' \<sigma> \<kappa> \<longrightarrow>
            map (\<lambda>p. tval F C \<sigma> \<kappa> (pat_term (p_nodes pat) p)) (p_children ?p) = map (nval F C \<rho> (g_nodes g)) (en_children ?n)))"
        using False named(2) node(2) wf_child [OF wf 2(6)]
        by (intro 2(1) [OF refl refl CCW_PAT_OP _ _ 2(2,3) _ _ _ 2(7) m]) auto
      have "nval F C \<rho> (g_nodes g) nidx = F (p_text ?p) (map (nval F C \<rho> (g_nodes g)) (en_children ?n))"
        using nval_node [OF wf 2(6), of F C \<rho>] False named(1) by (simp add: eval_node_def)
      then show ?thesis using IH CCW_PAT_OP t by (simp add: Let_def comp_def)
    qed
  qed
next
  case (3 k pat g p ps c cs b)
  have wf: "wf_eg g" using 3 by (simp add: sound_eg_def)
  have c: "c < g_count g" using 3 by simp
  obtain g1 want where f: "eg_find g c = (g1, want)" by (cases "eg_find g c")
  note e = eg_find_E [OF wf c f]
  note p1 = match_post_find [OF wf c f 3(8), of "{}"]
  have s1: "sound_eg F C \<rho> g1" by (rule match_post_sound [OF 3(3) p1])
  have b1: "bind_ok g1 b" using 3(8) bind_ok_cong [OF e(3,4)] by simp
  obtain g2 b2 k2 where a: "match_any k pat g1 p want [0..<g_count g1] b = (g2, b2, k2)"
    by (cases "match_any k pat g1 p want [0..<g_count g1] b") auto
  have pp: "p < length (p_nodes pat)" "ops_named (pat_term (p_nodes pat) p)" using 3(5) by simp_all
  have A: "match_post g1 b (const_vars (pat_term (p_nodes pat) p)) g2 b2
      \<and> (k2 \<longrightarrow> (\<exists>j \<in> set [0..<g_count g1]. rep g1 j = want \<and> (\<forall>\<sigma> \<kappa>. agrees (nval F C \<rho> (g_nodes g1)) b2 \<sigma> \<kappa> \<longrightarrow>
            tval F C \<sigma> \<kappa> (pat_term (p_nodes pat) p) = nval F C \<rho> (g_nodes g1) j)))"
    by (rule 3(1) [OF f [symmetric] refl s1 3(4) pp _ b1 a]) simp
  have p2: "match_post g b (const_vars (pat_term (p_nodes pat) p)) g2 b2"
    using match_post_trans [OF p1 conjunct1 [OF A] _ subset_refl] by simp
  show ?case
  proof (cases k2)
    case False
    then have "g' = g2" "b' = b2" "\<not> ok" using 3(9) f a by simp_all
    moreover have "match_post g b (\<Union>p \<in> set (p # ps). const_vars (pat_term (p_nodes pat) p)) g2 b2"
      using match_post_trans [OF p1 conjunct1 [OF A]] by simp
    ultimately show ?thesis by simp
  next
    case True
    then have r: "match_args k pat g2 ps cs b2 = (g', b', ok)" using 3(9) f a by simp
    note d = match_postD [OF p2]
    have s2: "sound_eg F C \<rho> g2" by (rule match_post_sound [OF 3(3) p2])
    have b2: "bind_ok g2 b2" using d(5) bind_ok_cong [OF d(2,3)] by simp
    have B: "match_post g2 b2 (\<Union>p \<in> set ps. const_vars (pat_term (p_nodes pat) p)) g' b'
      \<and> (ok \<longrightarrow> (\<forall>\<sigma> \<kappa>. agrees (nval F C \<rho> (g_nodes g2)) b' \<sigma> \<kappa> \<longrightarrow>
            map (\<lambda>p. tval F C \<sigma> \<kappa> (pat_term (p_nodes pat) p)) ps = map (nval F C \<rho> (g_nodes g2)) cs))"
      using 3(5,6,7) d(4) True by (intro 3(2) [OF f [symmetric] refl a [symmetric] refl _ s2 3(4) _ _ _ b2 r]) auto
    have "match_post g b (\<Union>p \<in> set (p # ps). const_vars (pat_term (p_nodes pat) p)) g' b'"
      using match_post_trans [OF p2 conjunct1 [OF B]] by simp
    moreover have "tval F C \<sigma> \<kappa> (pat_term (p_nodes pat) p) = nval F C \<rho> (g_nodes g) c"
      if ag: "agrees (nval F C \<rho> (g_nodes g)) b' \<sigma> \<kappa>" for \<sigma> \<kappa>
    proof -
      obtain j where j: "j < g_count g" "rep g j = want"
        "\<forall>\<sigma> \<kappa>. agrees (nval F C \<rho> (g_nodes g)) b2 \<sigma> \<kappa> \<longrightarrow>
            tval F C \<sigma> \<kappa> (pat_term (p_nodes pat) p) = nval F C \<rho> (g_nodes g) j"
        using A True e by auto
      have "agrees (nval F C \<rho> (g_nodes g)) b2 \<sigma> \<kappa>" using match_postD(6) [OF conjunct1 [OF B] ag] .
      then have "tval F C \<sigma> \<kappa> (pat_term (p_nodes pat) p) = nval F C \<rho> (g_nodes g) j" using j(3) by blast
      also have "\<dots> = nval F C \<rho> (g_nodes g) c" using sound_rep [OF 3(3) j(1) c] j(2) e(1) by simp
      finally show ?thesis .
    qed
    ultimately show ?thesis using B d(3) by simp
  qed
next
  case (6 k pat g p want j js b)
  have wf: "wf_eg g" using 6 by (simp add: sound_eg_def)
  have j: "j < g_count g" using 6 by simp
  obtain g1 r where f: "eg_find g j = (g1, r)" by (cases "eg_find g j")
  note e = eg_find_E [OF wf j f]
  note p1 = match_post_find [OF wf j f 6(9), of "{}"]
  have s1: "sound_eg F C \<rho> g1" by (rule match_post_sound [OF 6(4) p1])
  have b1: "bind_ok g1 b" using 6(9) bind_ok_cong [OF e(3,4)] by simp
  let ?V = "const_vars (pat_term (p_nodes pat) p)"
  show ?case
  proof (cases "r = want")
    case False
    then have m: "match_any k pat g1 p want js b = (g', b', ok)" using 6(10) f by simp
    have "match_post g1 b ?V g' b'
      \<and> (ok \<longrightarrow> (\<exists>j \<in> set js. rep g1 j = want \<and> (\<forall>\<sigma> \<kappa>. agrees (nval F C \<rho> (g_nodes g1)) b' \<sigma> \<kappa> \<longrightarrow>
            tval F C \<sigma> \<kappa> (pat_term (p_nodes pat) p) = nval F C \<rho> (g_nodes g1) j)))"
      using 6(8) e by (intro 6(1) [OF f [symmetric] refl False s1 6(5-7) _ b1 m]) simp
    with match_post_trans [OF p1 _ empty_subsetI subset_refl] e show ?thesis by auto
  next
    case True
    obtain g2 b2 k2 where a: "match_node k pat g1 p j b = (g2, b2, k2)" by (cases "match_node k pat g1 p j b") auto
    have j1: "j < g_count g1" using j e by simp
    have A: "match_post g1 b ?V g2 b2
      \<and> (k2 \<longrightarrow> (\<forall>\<sigma> \<kappa>. agrees (nval F C \<rho> (g_nodes g1)) b2 \<sigma> \<kappa> \<longrightarrow>
            tval F C \<sigma> \<kappa> (pat_term (p_nodes pat) p) = nval F C \<rho> (g_nodes g1) j))"
      using True by (intro 6(2) [OF f [symmetric] refl _ s1 6(5-7) j1 b1 a]) simp
    have p2: "match_post g b ?V g2 b2" by (rule match_post_trans [OF p1 conjunct1 [OF A]]) simp_all
    show ?thesis
    proof (cases k2)
      case t: True
      then have "g' = g2" "b' = b2" "ok" using 6(10) f a True by simp_all
      then show ?thesis using A p2 t True e by auto
    next
      case F: False
      then have m: "match_any k pat g2 p want js b = (g', b', ok)" using 6(10) f a True by simp
      note d = match_postD [OF p2]
      have s2: "sound_eg F C \<rho> g2" by (rule match_post_sound [OF 6(4) p2])
      have b2: "bind_ok g2 b" using 6(9) bind_ok_cong [OF d(2,3)] by simp
      have B: "match_post g2 b ?V g' b'
        \<and> (ok \<longrightarrow> (\<exists>j \<in> set js. rep g2 j = want \<and> (\<forall>\<sigma> \<kappa>. agrees (nval F C \<rho> (g_nodes g2)) b' \<sigma> \<kappa> \<longrightarrow>
            tval F C \<sigma> \<kappa> (pat_term (p_nodes pat) p) = nval F C \<rho> (g_nodes g2) j)))"
        using 6(8) d(4) True F by (intro 6(3) [OF f [symmetric] refl _ a [symmetric] refl _ s2 6(5-7) _ b2 m]) auto
      have "match_post g b {} g2 b" using d(1-3) 6(9) by (simp add: match_post_def)
      then have "match_post g b ?V g' b'" by (rule match_post_trans [OF _ conjunct1 [OF B] empty_subsetI subset_refl])
      with B d show ?thesis by auto
    qed
  qed
qed (auto simp: sound_eg_def intro: match_post_refl)

section \<open>Instantiation\<close>

lemma find_member_spec:
  assumes "wf_eg g" "\<forall>i \<in> set js. i < g_count g" "find_member g c js = (g', r)"
  shows "wf_eg g' \<and> rep g' = rep g \<and> g_nodes g' = g_nodes g \<and> (\<forall>i. r = Some i \<longrightarrow> i < g_count g \<and> rep g i = c)"
  using assms
proof (induction js arbitrary: g g' r)
  case (Cons i js)
  obtain g1 x where f: "eg_find g i = (g1, x)" by (cases "eg_find g i")
  have i: "i < g_count g" using Cons by simp
  note e = eg_find_E [OF Cons.prems(1) i f]
  show ?case
  proof (cases "x = c")
    case True
    with Cons.prems(3) f have "g' = g1" "r = Some i" by simp_all
    with e True i show ?thesis by simp
  next
    case False
    with Cons.prems(3) f have m: "find_member g1 c js = (g', r)" by simp
    have "wf_eg g' \<and> rep g' = rep g1 \<and> g_nodes g' = g_nodes g1 \<and> (\<forall>i. r = Some i \<longrightarrow> i < g_count g1 \<and> rep g1 i = c)"
      using Cons.prems e by (intro Cons.IH [OF _ _ m]) auto
    with e show ?thesis by simp
  qed
qed simp

definition covered :: "egraph \<Rightarrow> binding list \<Rightarrow> bool" where
  "covered g b \<longleftrightarrow> (\<forall>x \<in> set b. \<not> b_is_value x \<longrightarrow> b_eclass x < g_count g \<and> rep g (b_eclass x) = b_eclass x)"

lemma covered_grown: "covered g b \<Longrightarrow> grown g g' \<Longrightarrow> covered g' b"
  using grown_count [of g g'] unfolding covered_def grown_def by fastforce

lemma agrees_grown:
  assumes "covered g b" "grown g g'"
  shows "agrees (nval F C \<rho> (g_nodes g')) b = agrees (nval F C \<rho> (g_nodes g)) b"
proof (intro ext)
  fix \<sigma> \<kappa>
  have "nval F C \<rho> (g_nodes g') (b_eclass x) = nval F C \<rho> (g_nodes g) (b_eclass x)" if "x \<in> set b" "\<not> b_is_value x" for x
    using assms(1) that by (intro grown_nval [OF assms(2)]) (simp add: covered_def)
  then show "agrees (nval F C \<rho> (g_nodes g')) b \<sigma> \<kappa> = agrees (nval F C \<rho> (g_nodes g)) b \<sigma> \<kappa>"
    by (auto simp: agrees_def)
qed

lemma instantiate_sound:
  fixes F :: "string \<Rightarrow> 'v list \<Rightarrow> 'v"
  shows "sound_eg F C \<rho> g \<Longrightarrow> wf_pattern pat \<Longrightarrow> pidx < length (p_nodes pat) \<Longrightarrow>
      ops_named (pat_term (p_nodes pat) pidx) \<Longrightarrow> covered g b \<Longrightarrow>
      instantiate k pat b g pidx = (g', r) \<Longrightarrow>
      sound_eg F C \<rho> g' \<and> grown g g' \<and> (\<forall>i. r = Some i \<longrightarrow> i < g_count g'
        \<and> (\<forall>\<sigma> \<kappa>. agrees (nval F C \<rho> (g_nodes g')) b \<sigma> \<kappa> \<longrightarrow>
              tval F C \<sigma> \<kappa> (pat_term (p_nodes pat) pidx) = nval F C \<rho> (g_nodes g') i))"
    and "sound_eg F C \<rho> g \<Longrightarrow> wf_pattern pat \<Longrightarrow>
      \<forall>p \<in> set ps. p < length (p_nodes pat) \<and> ops_named (pat_term (p_nodes pat) p) \<Longrightarrow> covered g b \<Longrightarrow>
      \<forall>c \<in> set cs. c < g_count g \<Longrightarrow>
      instantiate_args k pat b g ps cs = (g', rs) \<Longrightarrow>
      sound_eg F C \<rho> g' \<and> grown g g' \<and> (\<forall>ds. rs = Some ds \<longrightarrow> (\<exists>es. ds = cs @ es \<and> (\<forall>c \<in> set es. c < g_count g')
        \<and> (\<forall>\<sigma> \<kappa>. agrees (nval F C \<rho> (g_nodes g')) b \<sigma> \<kappa> \<longrightarrow>
              map (\<lambda>p. tval F C \<sigma> \<kappa> (pat_term (p_nodes pat) p)) ps = map (nval F C \<rho> (g_nodes g')) es)))"
proof (induction k pat b g pidx and k pat b g ps cs arbitrary: g' r and g' rs rule: instantiate_instantiate_args.induct)
  case (1 pat b g pidx)
  then show ?case by (auto simp: sound_eg_def intro: grown_refl)
next
  case (2 k pat b g pidx)
  have wf: "wf_eg g" using 2 by (simp add: sound_eg_def)
  let ?p = "p_nodes pat ! pidx"
  note t = pat_term_wf [OF 2(3,4)] and node = wf_pattern_node [OF 2(3,4)]
  have fail: ?case if "g' = g" "r = None" using that 2(2) grown_refl [OF wf] by simp
  show ?case
  proof (cases "p_kind ?p")
    case CCW_PAT_VAR
    show ?thesis
    proof (cases "binding_find b (p_text ?p)")
      case None
      with 2(7) CCW_PAT_VAR fail show ?thesis by (simp add: Let_def)
    next
      case (Some f)
      show ?thesis
      proof (cases "b_is_value f")
        case True
        with 2(7) CCW_PAT_VAR Some fail show ?thesis by (simp add: Let_def)
      next
        case False
        have m: "find_member g (b_eclass f) [0..<g_count g] = (g', r)" using False 2(7) CCW_PAT_VAR Some by (simp add: Let_def)
        have f: "wf_eg g' \<and> rep g' = rep g \<and> g_nodes g' = g_nodes g \<and> (\<forall>i. r = Some i \<longrightarrow> i < g_count g \<and> rep g i = b_eclass f)"
          by (rule find_member_spec [OF wf _ m]) simp
        have cls: "b_eclass f < g_count g" "rep g (b_eclass f) = b_eclass f"
          using 2(6) False binding_find_Some [OF Some] by (auto simp: covered_def)
        have s: "sound_eg F C \<rho> g'" using f by (intro sound_halved [OF 2(2)]) simp_all
        have gr: "grown g g'" using f by (intro grown_halved) simp_all
        have "tval F C \<sigma> \<kappa> (pat_term (p_nodes pat) pidx) = nval F C \<rho> (g_nodes g') i"
          if i: "r = Some i" and ag: "agrees (nval F C \<rho> (g_nodes g')) b \<sigma> \<kappa>" for i \<sigma> \<kappa>
        proof -
          have "\<sigma> (p_text ?p) = nval F C \<rho> (g_nodes g) (b_eclass f)"
            using ag binding_find_Some [OF Some] False f by (auto simp: agrees_def)
          also have "\<dots> = nval F C \<rho> (g_nodes g) i" using f i cls by (intro sound_rep [OF 2(2)]) simp_all
          finally show ?thesis using t CCW_PAT_VAR f by (simp add: Let_def)
        qed
        with s gr f show ?thesis by (auto simp: g_count_def)
      qed
    qed
  next
    case CCW_PAT_CONST
    let ?n = "no_enode\<lparr>en_is_const := True, en_value := p_value ?p\<rparr>"
    obtain i where a: "eg_add_node g ?n = (g', i)" "r = Some i"
      using 2(7) CCW_PAT_CONST by (auto simp: Let_def split: prod.splits)
    have "\<forall>c \<in> set (en_children ?n). c < g_count g" by (simp add: no_enode_def)
    from add_node_sound [OF 2(2) this a(1)] show ?thesis using a(2) t CCW_PAT_CONST by (simp add: Let_def eval_node_def)
  next
    case CCW_PAT_CONST_VAR
    show ?thesis
    proof (cases "binding_find b (p_text ?p)")
      case None
      with 2(7) CCW_PAT_CONST_VAR fail show ?thesis by (simp add: Let_def)
    next
      case (Some f)
      let ?n = "no_enode\<lparr>en_is_const := True, en_value := b_value f\<rparr>"
      show ?thesis
      proof (cases "b_is_value f")
        case False
        with 2(7) CCW_PAT_CONST_VAR Some fail show ?thesis by (simp add: Let_def)
      next
        case True
        obtain i where a: "eg_add_node g ?n = (g', i)" "r = Some i"
          using 2(7) CCW_PAT_CONST_VAR Some True by (auto simp: Let_def split: prod.splits)
        have "\<forall>c \<in> set (en_children ?n). c < g_count g" by (simp add: no_enode_def)
        note n = add_node_sound [OF 2(2) this a(1)]
        have "\<kappa> (p_text ?p) = b_value f" if "agrees v b \<sigma> \<kappa>" for v :: "nat \<Rightarrow> 'v" and \<sigma> \<kappa>
          using that True binding_find_Some [OF Some] by (auto simp: agrees_def)
        with n show ?thesis using a(2) t CCW_PAT_CONST_VAR by (simp add: Let_def eval_node_def)
      qed
    qed
  next
    case CCW_PAT_OP
    obtain g1 rs where a: "instantiate_args k pat b g (p_children ?p) [] = (g1, rs)"
      by (cases "instantiate_args k pat b g (p_children ?p) []")
    have named: "p_text ?p \<noteq> []" "\<forall>c \<in> set (p_children ?p). ops_named (pat_term (p_nodes pat) c)"
      using 2(5) CCW_PAT_OP t by (simp_all add: Let_def)
    have IH: "sound_eg F C \<rho> g1 \<and> grown g g1 \<and> (\<forall>ds. rs = Some ds \<longrightarrow> (\<exists>es. ds = [] @ es \<and> (\<forall>c \<in> set es. c < g_count g1)
        \<and> (\<forall>\<sigma> \<kappa>. agrees (nval F C \<rho> (g_nodes g1)) b \<sigma> \<kappa> \<longrightarrow>
              map (\<lambda>p. tval F C \<sigma> \<kappa> (pat_term (p_nodes pat) p)) (p_children ?p) = map (nval F C \<rho> (g_nodes g1)) es)))"
      using named(2) node(2) by (intro 2(1) [OF refl CCW_PAT_OP 2(2,3) _ 2(6) _ a]) auto
    show ?thesis
    proof (cases rs)
      case None
      then have "g' = g1" "r = None" using 2(7) CCW_PAT_OP a by (simp_all add: Let_def)
      with IH show ?thesis by simp
    next
      case (Some es)
      let ?n = "no_enode\<lparr>en_opcode := text32 (p_text ?p), en_children := es\<rparr>"
      obtain i where i: "eg_add_node g1 ?n = (g', i)" "r = Some i"
        using 2(7) CCW_PAT_OP a Some by (auto simp: Let_def split: prod.splits)
      have es: "\<forall>c \<in> set es. c < g_count g1" and v: "\<forall>\<sigma> \<kappa>. agrees (nval F C \<rho> (g_nodes g1)) b \<sigma> \<kappa> \<longrightarrow>
              map (\<lambda>p. tval F C \<sigma> \<kappa> (pat_term (p_nodes pat) p)) (p_children ?p) = map (nval F C \<rho> (g_nodes g1)) es"
        using IH Some by auto
      have s1: "sound_eg F C \<rho> g1" and gr1: "grown g g1" using IH by simp_all
      have "\<forall>c \<in> set (en_children ?n). c < g_count g1" using es by simp
      note n = add_node_sound [OF s1 this i(1)]
      have ag: "agrees (nval F C \<rho> (g_nodes g')) b = agrees (nval F C \<rho> (g_nodes g1)) b"
        by (rule agrees_grown [OF covered_grown [OF 2(6) gr1] n(2)])
      have "text32 (p_text ?p) = p_text ?p" using node(1) by (simp add: text32_def)
      then have "nval F C \<rho> (g_nodes g') i = F (p_text ?p) (map (nval F C \<rho> (g_nodes g1)) es)"
        using n(4) named(1) by (simp add: eval_node_def no_enode_def)
      then show ?thesis using i(2) n(1,3) grown_trans [OF gr1 n(2)] v t CCW_PAT_OP
        by (simp add: Let_def comp_def ag)
    qed
  qed
next
  case (3 k pat b g cs)
  then show ?case by (auto simp: sound_eg_def intro: grown_refl)
next
  case (4 k pat b g p ps cs)
  obtain g1 r1 where a: "instantiate k pat b g p = (g1, r1)" by (cases "instantiate k pat b g p")
  have p: "p < length (p_nodes pat)" "ops_named (pat_term (p_nodes pat) p)" using 4(5) by simp_all
  note A = 4(1) [OF 4(3,4) p 4(6) a]
  show ?case
  proof (cases r1)
    case None
    then have "g' = g1" "rs = None" using 4(8) a by simp_all
    with A show ?thesis by simp
  next
    case (Some c)
    then have r: "instantiate_args k pat b g1 ps (cs @ [c]) = (g', rs)" using 4(8) a by simp
    have s1: "sound_eg F C \<rho> g1" and gr1: "grown g g1" and c: "c < g_count g1"
      and v: "\<forall>\<sigma> \<kappa>. agrees (nval F C \<rho> (g_nodes g1)) b \<sigma> \<kappa> \<longrightarrow>
              tval F C \<sigma> \<kappa> (pat_term (p_nodes pat) p) = nval F C \<rho> (g_nodes g1) c"
      using A Some by simp_all
    have cov: "covered g1 b" by (rule covered_grown [OF 4(6) gr1])
    have B: "sound_eg F C \<rho> g' \<and> grown g1 g' \<and> (\<forall>ds. rs = Some ds \<longrightarrow> (\<exists>es. ds = (cs @ [c]) @ es \<and> (\<forall>c \<in> set es. c < g_count g')
        \<and> (\<forall>\<sigma> \<kappa>. agrees (nval F C \<rho> (g_nodes g')) b \<sigma> \<kappa> \<longrightarrow>
              map (\<lambda>p. tval F C \<sigma> \<kappa> (pat_term (p_nodes pat) p)) ps = map (nval F C \<rho> (g_nodes g')) es)))"
      using 4(5,7) grown_count [OF gr1] c Some
      by (intro 4(2) [OF a [symmetric] _ s1 4(4) _ cov _ r]) auto
    have ag: "agrees (nval F C \<rho> (g_nodes g')) b = agrees (nval F C \<rho> (g_nodes g1)) b"
      using B by (intro agrees_grown [OF cov]) simp
    have c': "c < g_count g'" "nval F C \<rho> (g_nodes g') c = nval F C \<rho> (g_nodes g1) c"
      using B grown_count [of g1 g'] c grown_nval [of g1 g' c] by simp_all
    have "\<exists>es. ds = cs @ es \<and> (\<forall>c \<in> set es. c < g_count g')
        \<and> (\<forall>\<sigma> \<kappa>. agrees (nval F C \<rho> (g_nodes g')) b \<sigma> \<kappa> \<longrightarrow>
              map (\<lambda>p. tval F C \<sigma> \<kappa> (pat_term (p_nodes pat) p)) (p # ps) = map (nval F C \<rho> (g_nodes g')) es)"
      if "rs = Some ds" for ds
    proof -
      obtain es where "ds = (cs @ [c]) @ es" "\<forall>c \<in> set es. c < g_count g'"
        "\<forall>\<sigma> \<kappa>. agrees (nval F C \<rho> (g_nodes g')) b \<sigma> \<kappa> \<longrightarrow>
              map (\<lambda>p. tval F C \<sigma> \<kappa> (pat_term (p_nodes pat) p)) ps = map (nval F C \<rho> (g_nodes g')) es"
        using B \<open>rs = Some ds\<close> by blast
      then show ?thesis using v c' ag by (intro exI [of _ "c # es"]) simp
    qed
    then show ?thesis using B grown_trans [OF gr1] by simp
  qed
qed

end
