(* ===== verification/Oeuph_Saturate.thy ===== *)
theory Oeuph_Saturate
  imports Oeuph_Sound
begin

text \<open>
  Saturation with valid rules keeps a sound graph sound and its e-nodes in place.
\<close>

section \<open>Valid rules\<close>

definition side_holds :: "(64 word \<Rightarrow> bool) option \<Rightarrow> (string \<Rightarrow> 64 word) \<Rightarrow> string set \<Rightarrow> bool" where
  "side_holds side \<kappa> V \<longleftrightarrow> (case side of None \<Rightarrow> True | Some P \<Rightarrow> \<exists>x \<in> V. P (\<kappa> x))"

definition term_of_pattern :: "ccw_pattern \<Rightarrow> pterm" where
  "term_of_pattern pat = pat_term (p_nodes pat) (p_root pat)"

definition proper_pattern :: "ccw_pattern \<Rightarrow> bool" where
  "proper_pattern pat \<longleftrightarrow> wf_pattern pat \<and> ops_named (term_of_pattern pat)"

text \<open>The equation that a rule asserts in one direction, under its side condition.\<close>

definition valid_direction ::
  "(string \<Rightarrow> 'v list \<Rightarrow> 'v) \<Rightarrow> (64 word \<Rightarrow> 'v) \<Rightarrow> (64 word \<Rightarrow> bool) option \<Rightarrow> pterm \<Rightarrow> pterm \<Rightarrow> bool" where
  "valid_direction F C side l r \<longleftrightarrow>
     (\<forall>\<sigma> \<kappa>. side_holds side \<kappa> (const_vars l) \<longrightarrow> tval F C \<sigma> \<kappa> l = tval F C \<sigma> \<kappa> r)"

definition valid_rule :: "(string \<Rightarrow> 'v list \<Rightarrow> 'v) \<Rightarrow> (64 word \<Rightarrow> 'v) \<Rightarrow> ccw_rule \<Rightarrow> bool" where
  "valid_rule F C r \<longleftrightarrow> proper_pattern (r_lhs r) \<and> proper_pattern (r_rhs r)
     \<and> valid_direction F C (r_side r) (term_of_pattern (r_lhs r)) (term_of_pattern (r_rhs r))
     \<and> (r_bidirectional r \<longrightarrow> valid_direction F C (r_side r) (term_of_pattern (r_rhs r)) (term_of_pattern (r_lhs r)))"

text \<open>A sound graph that extends another.\<close>

definition sound_ext ::
  "(string \<Rightarrow> 'v list \<Rightarrow> 'v) \<Rightarrow> (64 word \<Rightarrow> 'v) \<Rightarrow> (string \<Rightarrow> 'v) \<Rightarrow> egraph \<Rightarrow> egraph \<Rightarrow> bool" where
  "sound_ext F C \<rho> g g' \<longleftrightarrow> sound_eg F C \<rho> g' \<and> (\<exists>ms. g_nodes g' = g_nodes g @ ms)"

lemma sound_ext_refl: "sound_eg F C \<rho> g \<Longrightarrow> sound_ext F C \<rho> g g"
  by (simp add: sound_ext_def)

lemma sound_ext_trans: "sound_ext F C \<rho> g g1 \<Longrightarrow> sound_ext F C \<rho> g1 g2 \<Longrightarrow> sound_ext F C \<rho> g g2"
  by (auto simp: sound_ext_def)

lemma sound_ext_count: "sound_ext F C \<rho> g g' \<Longrightarrow> g_count g \<le> g_count g'"
  by (auto simp: sound_ext_def g_count_def)

lemma sound_ext_nval: "sound_ext F C \<rho> g g' \<Longrightarrow> i < g_count g \<Longrightarrow>
    nval F C \<rho> (g_nodes g') i = nval F C \<rho> (g_nodes g) i"
  by (auto simp: sound_ext_def g_count_def nval_prefix)

lemma sound_ext_node: "sound_ext F C \<rho> g g' \<Longrightarrow> i < g_count g \<Longrightarrow> g_nodes g' ! i = g_nodes g ! i"
  by (auto simp: sound_ext_def g_count_def nth_append)

section \<open>One match\<close>

lemma side_ok_holds:
  assumes "side_ok side b" "agrees v b \<sigma> \<kappa>" "\<forall>y \<in> set b. b_is_value y \<longrightarrow> b_name y \<in> V"
  shows "side_holds side \<kappa> V"
proof (cases side)
  case (Some P)
  then obtain y where "y \<in> set b" "b_is_value y" "P (b_value y)" using assms(1) by (auto simp: side_ok_def list_ex_iff)
  with assms(2,3) have "b_name y \<in> V" "P (\<kappa> (b_name y))" by (auto simp: agrees_def)
  with Some show ?thesis by (auto simp: side_holds_def)
qed (simp add: side_holds_def)

lemma try_rule_sound:
  assumes s: "sound_eg F C \<rho> g" and ni: "ni < g_count g" and pf: "proper_pattern from" and pt: "proper_pattern to"
    and v: "valid_direction F C side (term_of_pattern from) (term_of_pattern to)"
    and r: "try_rule side from to ni (g, st, gr) = (g', st', gr')"
  shows "sound_ext F C \<rho> g g'"
proof -
  have frm: "wf_pattern from" "p_root from < length (p_nodes from)" "ops_named (pat_term (p_nodes from) (p_root from))"
    and to: "wf_pattern to" "p_root to < length (p_nodes to)" "ops_named (pat_term (p_nodes to) (p_root to))"
    using pf pt unfolding proper_pattern_def term_of_pattern_def wf_pattern_def by blast+
  have b0: "bind_ok g []" by (simp add: bind_ok_def)
  obtain g1 b ok where m: "match_node pattern_depth from g (p_root from) ni [] = (g1, b, ok)"
    by (cases "match_node pattern_depth from g (p_root from) ni []") auto
  note M = match_sound(1) [OF s frm ni b0 m]
  note d = match_postD [OF conjunct1 [OF M]]
  have s1: "sound_eg F C \<rho> g1" by (rule match_post_sound [OF s conjunct1 [OF M]])
  have e1: "sound_ext F C \<rho> g g1" using s1 d(3) by (simp add: sound_ext_def)
  show ?thesis
  proof (cases "ok \<and> side_ok side b")
    case False
    with r m have "g' = g1" by (cases ok) (simp_all add: try_rule_def Let_def)
    with e1 show ?thesis by simp
  next
    case True
    obtain g2 made where i: "instantiate pattern_depth to b g1 (p_root to) = (g2, made)"
      by (cases "instantiate pattern_depth to b g1 (p_root to)")
    have cov: "covered g1 b" using d(2,4,5) by (simp add: covered_def bind_ok_def)
    note I = instantiate_sound(1) [OF s1 to cov i]
    have s2: "sound_eg F C \<rho> g2" and gr2: "grown g1 g2" using I by simp_all
    have e2: "sound_ext F C \<rho> g g2" using s2 gr2 d(3) by (auto simp: sound_ext_def grown_def)
    show ?thesis
    proof (cases made)
      case None
      with r m i True have "g' = g2" by (simp add: try_rule_def Let_def)
      with e2 show ?thesis by simp
    next
      case (Some k)
      obtain g3 u where un: "eg_union g2 ni k = (g3, u)" by (cases "eg_union g2 ni k")
      have g': "g' = g3" using r m i True Some un by (cases u) (simp_all add: try_rule_def Let_def)
      have k: "k < g_count g2" using I Some by simp
      have ni2: "ni < g_count g2" using ni sound_ext_count [OF e2] by simp
      have "distinct (map b_name b)" using d(5) by (simp add: bind_ok_def)
      then obtain \<sigma> \<kappa> where ag: "agrees (nval F C \<rho> (g_nodes g)) b \<sigma> \<kappa>"
        using ex_agrees [of b "nval F C \<rho> (g_nodes g)"] by blast
      have ag2: "agrees (nval F C \<rho> (g_nodes g2)) b \<sigma> \<kappa>"
        using ag d(3) unfolding agrees_grown [OF cov gr2] by simp
      have "\<forall>y \<in> set b. b_is_value y \<longrightarrow> b_name y \<in> const_vars (term_of_pattern from)"
        using M by (auto simp: match_post_def term_of_pattern_def)
      then have "side_holds side \<kappa> (const_vars (term_of_pattern from))"
        using True side_ok_holds [OF _ ag] by blast
      then have "tval F C \<sigma> \<kappa> (term_of_pattern from) = tval F C \<sigma> \<kappa> (term_of_pattern to)"
        using v by (simp add: valid_direction_def)
      moreover have "tval F C \<sigma> \<kappa> (term_of_pattern from) = nval F C \<rho> (g_nodes g) ni"
        using M True ag by (simp add: term_of_pattern_def)
      moreover have "tval F C \<sigma> \<kappa> (term_of_pattern to) = nval F C \<rho> (g_nodes g2) k"
        using I Some ag2 by (simp add: term_of_pattern_def)
      moreover have "nval F C \<rho> (g_nodes g2) ni = nval F C \<rho> (g_nodes g) ni" by (rule sound_ext_nval [OF e2 ni])
      ultimately have "nval F C \<rho> (g_nodes g2) ni = nval F C \<rho> (g_nodes g2) k" by simp
      note U = sound_union [OF s2 ni2 k this un]
      have "sound_ext F C \<rho> g2 g3" using U by (simp add: sound_ext_def)
      with e2 g' show ?thesis using sound_ext_trans by blast
    qed
  qed
qed

section \<open>The loops\<close>

lemma fold_sound_ext:
  assumes "\<And>x s. x \<in> set xs \<Longrightarrow> sound_eg F C \<rho> (fst s) \<Longrightarrow> g_count base \<le> g_count (fst s) \<Longrightarrow>
      sound_ext F C \<rho> (fst s) (fst (f x s))"
    and "sound_eg F C \<rho> (fst s)" "g_count base \<le> g_count (fst s)"
  shows "sound_ext F C \<rho> (fst s) (fst (fold f xs s))"
  using assms
proof (induction xs arbitrary: s)
  case Nil
  then show ?case by (simp add: sound_ext_refl)
next
  case (Cons x xs)
  have e: "sound_ext F C \<rho> (fst s) (fst (f x s))" using Cons.prems by simp
  then have "sound_eg F C \<rho> (fst (f x s))" by (simp add: sound_ext_def)
  moreover have "g_count base \<le> g_count (fst (f x s))" using sound_ext_count [OF e] Cons.prems(3) by simp
  ultimately have "sound_ext F C \<rho> (fst (f x s)) (fst (fold f xs (f x s)))"
    using Cons.prems(1) by (intro Cons.IH) auto
  then show ?case using sound_ext_trans [OF e] by simp
qed

lemma apply_direction_sound:
  assumes s: "sound_eg F C \<rho> (fst s)" and p: "proper_pattern from" "proper_pattern to"
    and v: "valid_direction F C side (term_of_pattern from) (term_of_pattern to)"
  shows "sound_ext F C \<rho> (fst s) (fst (apply_direction side from to s))"
  unfolding apply_direction_def
proof (rule fold_sound_ext [where base = "fst s"])
  fix ni and u :: sat
  assume ni: "ni \<in> set [0..<g_count (fst s)]" "sound_eg F C \<rho> (fst u)" "g_count (fst s) \<le> g_count (fst u)"
  obtain g st gr where u: "u = (g, st, gr)" by (cases u)
  obtain g' st' gr' where r: "try_rule side from to ni (g, st, gr) = (g', st', gr')"
    by (cases "try_rule side from to ni (g, st, gr)")
  have "sound_ext F C \<rho> g g'" using ni u by (intro try_rule_sound [OF _ _ p v r]) simp_all
  with u r show "sound_ext F C \<rho> (fst u) (fst (try_rule side from to ni u))" by simp
qed (use s in simp_all)

lemma apply_rule_sound:
  assumes s: "sound_eg F C \<rho> (fst s)" and v: "valid_rule F C r"
  shows "sound_ext F C \<rho> (fst s) (fst (apply_rule r s))"
proof -
  have p: "proper_pattern (r_lhs r)" "proper_pattern (r_rhs r)"
    and l: "valid_direction F C (r_side r) (term_of_pattern (r_lhs r)) (term_of_pattern (r_rhs r))"
    and b: "r_bidirectional r \<Longrightarrow> valid_direction F C (r_side r) (term_of_pattern (r_rhs r)) (term_of_pattern (r_lhs r))"
    using v by (simp_all add: valid_rule_def)
  let ?s = "apply_direction (r_side r) (r_lhs r) (r_rhs r) s"
  have e: "sound_ext F C \<rho> (fst s) (fst ?s)" by (rule apply_direction_sound [OF s p l])
  then have s1: "sound_eg F C \<rho> (fst ?s)" by (simp add: sound_ext_def)
  show ?thesis
  proof (cases "r_bidirectional r")
    case True
    then show ?thesis using sound_ext_trans [OF e apply_direction_sound [OF s1 p(2,1) b]]
      by (simp add: apply_rule_def Let_def)
  qed (simp add: apply_rule_def Let_def e)
qed

lemma saturate_sound:
  assumes "sound_eg F C \<rho> g" "\<forall>r \<in> set rules. valid_rule F C r" "saturate k late budget rules g st = (g', st')"
  shows "sound_ext F C \<rho> g g'"
  using assms
proof (induction k arbitrary: g st)
  case 0
  then show ?case by (simp add: sound_ext_refl)
next
  case (Suc k)
  obtain g1 st1 gr where f: "fold apply_rule rules (g, st\<lparr>s_iterations := s_iterations st + 1\<rparr>, False) = (g1, st1, gr)"
    by (cases "fold apply_rule rules (g, st\<lparr>s_iterations := s_iterations st + 1\<rparr>, False)")
  have "sound_ext F C \<rho> (fst (g, st\<lparr>s_iterations := s_iterations st + 1\<rparr>, False))
      (fst (fold apply_rule rules (g, st\<lparr>s_iterations := s_iterations st + 1\<rparr>, False)))"
    using Suc.prems by (intro fold_sound_ext [where base = empty_egraph] apply_rule_sound)
      (auto simp: empty_egraph_def g_count_def)
  then have e1: "sound_ext F C \<rho> g g1" unfolding f by simp
  then have s2: "sound_eg F C \<rho> (eg_rebuild g1)" by (intro sound_rebuild) (simp add: sound_ext_def)
  have "wf_eg g1" using e1 by (simp add: sound_ext_def sound_eg_def)
  then have e2: "sound_ext F C \<rho> g (eg_rebuild g1)" using e1 s2 eg_rebuild_spec(2) by (simp add: sound_ext_def)
  obtain g3 n where c: "eg_class_count (eg_rebuild g1) = (g3, n)" by (cases "eg_class_count (eg_rebuild g1)")
  have wf2: "wf_eg (eg_rebuild g1)" using s2 by (simp add: sound_eg_def)
  note cc = eg_class_count_spec [OF wf2 c]
  have s3: "sound_eg F C \<rho> g3" by (rule sound_halved [OF s2 cc(1-3)])
  have e3: "sound_ext F C \<rho> g g3" using e2 s3 cc(3) by (simp add: sound_ext_def)
  consider "g' = eg_rebuild g1" | "g' = g3"
    | st2 where "saturate k late budget rules g3 st2 = (g', st')"
    using Suc.prems(3) f c by (auto simp: Let_def split: if_splits)
  then show ?case
  proof cases
    case 3
    then show ?thesis using Suc.IH [OF s3 Suc.prems(2)] sound_ext_trans [OF e3] by blast
  qed (use e2 e3 in simp_all)
qed

end
