(* ===== verification/Oeuph_Extract.thy ===== *)
theory Oeuph_Extract
  imports Oeuph_Rebuild Oeuph_Match
begin

text \<open>
  Extraction. The costs of a graph are specified by \<open>class_cost\<close>: the costs of the finite trees that choose
  an e-node in every class they visit. \<open>extract_best\<close> returns for every class the least such cost (below the
  sentinel), reached by the e-node of least index among those that reach it.
\<close>

section \<open>The costs of a class\<close>

inductive class_cost :: "egraph \<Rightarrow> ccw_cost_model \<Rightarrow> nat \<Rightarrow> nat \<Rightarrow> bool" for g model where
  "i < g_count g \<Longrightarrow> list_all2 (\<lambda>c k. class_cost g model (rep g c) k) (en_children (g_nodes g ! i)) ks \<Longrightarrow>
     class_cost g model (rep g i) (node_cost (g_nodes g ! i) model + sum_list ks)"

definition unpriced :: "egraph \<Rightarrow> nat list \<Rightarrow> nat list \<Rightarrow> bool" where
  "unpriced g costs cs \<longleftrightarrow> (\<exists>c \<in> set cs. costs ! rep g c = INT32_MAX)"

text \<open>The cost of an e-node under the recorded costs of its children's classes.\<close>

definition total_cost :: "egraph \<Rightarrow> ccw_cost_model \<Rightarrow> nat list \<Rightarrow> nat \<Rightarrow> nat" where
  "total_cost g model costs i =
     node_cost (g_nodes g ! i) model + (\<Sum>c \<leftarrow> en_children (g_nodes g ! i). costs ! rep g c)"

definition ready :: "egraph \<Rightarrow> nat list \<Rightarrow> nat \<Rightarrow> bool" where
  "ready g costs i \<longleftrightarrow> \<not> unpriced g costs (en_children (g_nodes g ! i))"

section \<open>One step\<close>

definition same_classes :: "egraph \<Rightarrow> egraph \<Rightarrow> bool" where
  "same_classes g g' \<longleftrightarrow> wf_eg g' \<and> rep g' = rep g \<and> g_nodes g' = g_nodes g"

lemma same_classes_count: "same_classes g g' \<Longrightarrow> g_count g' = g_count g"
  by (simp add: same_classes_def g_count_def)

lemma same_classes_find: "same_classes g g1 \<Longrightarrow> c < g_count g \<Longrightarrow> eg_find g1 c = (g2, r) \<Longrightarrow>
    r = rep g c \<and> same_classes g g2"
  using eg_find_E [of g1 c g2 r] same_classes_count [of g g1] by (simp add: same_classes_def)

lemma children_cost_spec:
  assumes "same_classes g (x_graph x)" "\<forall>c \<in> set cs. c < g_count g" "children_cost x k cs = (x', r)"
  shows "(\<exists>g' b. x' = x\<lparr>x_graph := g', x_overflow := b\<rparr> \<and> same_classes g g'
      \<and> (b \<longrightarrow> x_overflow x \<or> INT32_MAX < k + (\<Sum>c \<leftarrow> cs. x_cost x ! rep g c)))
    \<and> r = (if unpriced g (x_cost x) cs then None else Some (k + (\<Sum>c \<leftarrow> cs. x_cost x ! rep g c)))"
  using assms
proof (induction cs arbitrary: x k)
  case Nil
  then have "x' = x\<lparr>x_graph := x_graph x, x_overflow := x_overflow x\<rparr>" "r = Some k" by simp_all
  with Nil show ?case unfolding unpriced_def by fastforce
next
  case (Cons c cs)
  obtain g1 cls where f: "eg_find (x_graph x) c = (g1, cls)" by (cases "eg_find (x_graph x) c")
  have c: "c < g_count g" using Cons by simp
  note e = same_classes_find [OF Cons.prems(1) c f]
  show ?case
  proof (cases "x_cost x ! cls = INT32_MAX")
    case True
    then have "x' = x\<lparr>x_graph := g1\<rparr>" "r = None" using Cons.prems(3) f by (simp_all add: Let_def)
    then have "x' = x\<lparr>x_graph := g1, x_overflow := x_overflow x\<rparr>" "r = None" by (cases x, simp)+
    with e True show ?thesis unfolding unpriced_def by fastforce
  next
    case False
    let ?x = "x\<lparr>x_graph := g1, x_overflow := x_overflow x \<or> k + x_cost x ! cls > INT32_MAX\<rparr>"
    have r: "children_cost ?x (k + x_cost x ! cls) cs = (x', r)"
      using False Cons.prems(3) f by (simp add: Let_def)
    have "(\<exists>g' b. x' = ?x\<lparr>x_graph := g', x_overflow := b\<rparr> \<and> same_classes g g'
        \<and> (b \<longrightarrow> x_overflow ?x \<or> INT32_MAX < k + x_cost x ! cls + (\<Sum>c \<leftarrow> cs. x_cost ?x ! rep g c)))
      \<and> r = (if unpriced g (x_cost ?x) cs then None else Some (k + x_cost x ! cls + (\<Sum>c \<leftarrow> cs. x_cost ?x ! rep g c)))"
      using e Cons.prems(2) by (intro Cons.IH [OF _ _ r]) simp_all
    with e False show ?thesis by (fastforce simp: unpriced_def add.assoc)
  qed
qed

text \<open>The update test of the loop body.\<close>

definition improves :: "extraction \<Rightarrow> nat \<Rightarrow> nat \<Rightarrow> nat \<Rightarrow> bool" where
  "improves x cls cost i \<longleftrightarrow> cost < x_cost x ! cls
     \<or> (cost = x_cost x ! cls \<and> (case x_node x ! cls of None \<Rightarrow> False | Some b \<Rightarrow> i < b))"

lemma extract_step_spec:
  assumes g: "wf_eg g" "same_classes g (x_graph x)" and i: "i < g_count g" and r: "extract_step model x i = (x', ch)"
  shows "same_classes g (x_graph x')"
    "ch \<longleftrightarrow> ready g (x_cost x) i \<and> improves x (rep g i) (total_cost g model (x_cost x) i) i"
    "x_node x' = (if ch then (x_node x)[rep g i := Some i] else x_node x)"
    "x_cost x' = (if ch then (x_cost x)[rep g i := total_cost g model (x_cost x) i] else x_cost x)"
    "x_overflow x' \<longrightarrow> x_overflow x \<or> INT32_MAX < total_cost g model (x_cost x) i"
proof -
  have n: "g_nodes (x_graph x) = g_nodes g" using g(2) by (simp add: same_classes_def)
  obtain x1 c where cc: "children_cost x (node_cost (g_nodes g ! i) model) (en_children (g_nodes g ! i)) = (x1, c)"
    by (cases "children_cost x (node_cost (g_nodes g ! i) model) (en_children (g_nodes g ! i))")
  have "\<forall>c \<in> set (en_children (g_nodes g ! i)). c < g_count g" using wf_child [OF g(1) i] by blast
  from children_cost_spec [OF g(2) this cc] obtain g1 b where x1: "x1 = x\<lparr>x_graph := g1, x_overflow := b\<rparr>" and s1: "same_classes g g1"
    and b: "b \<longrightarrow> x_overflow x \<or> INT32_MAX < total_cost g model (x_cost x) i"
    and c: "c = (if ready g (x_cost x) i then Some (total_cost g model (x_cost x) i) else None)"
    by (auto simp: ready_def total_cost_def)
  have "same_classes g (x_graph x')
    \<and> (ch \<longleftrightarrow> ready g (x_cost x) i \<and> improves x (rep g i) (total_cost g model (x_cost x) i) i)
    \<and> x_node x' = (if ch then (x_node x)[rep g i := Some i] else x_node x)
    \<and> x_cost x' = (if ch then (x_cost x)[rep g i := total_cost g model (x_cost x) i] else x_cost x)
    \<and> (x_overflow x' \<longrightarrow> x_overflow x \<or> INT32_MAX < total_cost g model (x_cost x) i)"
  proof (cases "ready g (x_cost x) i")
    case False
    with r cc c n have "x' = x1" "\<not> ch" by (simp_all add: extract_step_def)
    with False x1 s1 b show ?thesis by simp
  next
    case True
    obtain g2 cls where f: "eg_find g1 i = (g2, cls)" by (cases "eg_find g1 i")
    note e = same_classes_find [OF s1 i f]
    show ?thesis
    proof (cases "improves x (rep g i) (total_cost g model (x_cost x) i) i")
      case t: True
      then have "x' = x\<lparr>x_graph := g2, x_overflow := b, x_node := (x_node x)[rep g i := Some i],
          x_cost := (x_cost x)[rep g i := total_cost g model (x_cost x) i]\<rparr>" "ch"
        using r cc c n True x1 f e by (auto simp: extract_step_def improves_def Let_def)
      with t True e b show ?thesis by simp
    next
      case False
      then have "x' = x\<lparr>x_graph := g2, x_overflow := b\<rparr>" "\<not> ch"
        using r cc c n True x1 f e by (auto simp: extract_step_def improves_def Let_def)
      with False True e b show ?thesis by simp
    qed
  qed
  then show "same_classes g (x_graph x')"
    "ch \<longleftrightarrow> ready g (x_cost x) i \<and> improves x (rep g i) (total_cost g model (x_cost x) i) i"
    "x_node x' = (if ch then (x_node x)[rep g i := Some i] else x_node x)"
    "x_cost x' = (if ch then (x_cost x)[rep g i := total_cost g model (x_cost x) i] else x_cost x)"
    "x_overflow x' \<longrightarrow> x_overflow x \<or> INT32_MAX < total_cost g model (x_cost x) i" by blast+
qed

section \<open>The invariant\<close>

definition priced :: "egraph \<Rightarrow> ccw_cost_model \<Rightarrow> extraction \<Rightarrow> nat \<Rightarrow> bool" where
  "priced g model x cls \<longleftrightarrow>
     (case x_node x ! cls of
        None \<Rightarrow> x_cost x ! cls = INT32_MAX
      | Some i \<Rightarrow> i < g_count g \<and> rep g i = cls \<and> x_cost x ! cls < INT32_MAX
          \<and> class_cost g model cls (x_cost x ! cls) \<and> ready g (x_cost x) i \<and> total_cost g model (x_cost x) i \<le> x_cost x ! cls)"

definition xinv :: "egraph \<Rightarrow> ccw_cost_model \<Rightarrow> extraction \<Rightarrow> bool" where
  "xinv g model x \<longleftrightarrow> same_classes g (x_graph x) \<and> length (x_node x) = g_count g \<and> length (x_cost x) = g_count g
     \<and> (\<forall>cls < g_count g. priced g model x cls)"

lemma xinv_cost_le: "xinv g model x \<Longrightarrow> cls < g_count g \<Longrightarrow> x_cost x ! cls \<le> INT32_MAX"
proof -
  assume "xinv g model x" "cls < g_count g"
  then have "priced g model x cls" unfolding xinv_def by blast
  then show ?thesis by (auto simp: priced_def split: option.splits)
qed

text \<open>Recorded costs only fall, which keeps e-nodes ready and their totals below what was recorded.\<close>

lemma total_cost_mono:
  assumes wf: "wf_eg g" and i: "i < g_count g" and c: "\<And>cls. cls < g_count g \<Longrightarrow> costs' ! cls \<le> costs ! cls"
  shows "total_cost g model costs' i \<le> total_cost g model costs i"
proof -
  have "(\<Sum>c \<leftarrow> en_children (g_nodes g ! i). costs' ! rep g c) \<le> (\<Sum>c \<leftarrow> en_children (g_nodes g ! i). costs ! rep g c)"
    using wf_child [OF wf i] rep_less [OF wf] by (intro sum_list_mono c) blast
  then show ?thesis by (simp add: total_cost_def)
qed

lemma ready_mono:
  assumes wf: "wf_eg g" and i: "i < g_count g" and c: "\<And>cls. cls < g_count g \<Longrightarrow> costs' ! cls \<le> costs ! cls"
    and m: "\<And>cls. cls < g_count g \<Longrightarrow> costs ! cls \<le> INT32_MAX" and r: "ready g costs i"
  shows "ready g costs' i"
  unfolding ready_def unpriced_def
proof
  assume "\<exists>d \<in> set (en_children (g_nodes g ! i)). costs' ! rep g d = INT32_MAX"
  then obtain d where d: "d \<in> set (en_children (g_nodes g ! i))" "costs' ! rep g d = INT32_MAX" by blast
  have "rep g d < g_count g" using wf_child [OF wf i d(1)] rep_less [OF wf] by blast
  from c [OF this] m [OF this] d(2) have "costs ! rep g d = INT32_MAX" by simp
  with d(1) r show False by (auto simp: ready_def unpriced_def)
qed

lemma ready_class_cost:
  assumes inv: "xinv g model x" and wf: "wf_eg g" and i: "i < g_count g" and r: "ready g (x_cost x) i"
  shows "class_cost g model (rep g i) (total_cost g model (x_cost x) i)"
proof -
  have "class_cost g model (rep g c) (x_cost x ! rep g c)" if "c \<in> set (en_children (g_nodes g ! i))" for c
  proof -
    have cls: "rep g c < g_count g" using wf_child [OF wf i that] rep_less [OF wf] by blast
    have "x_cost x ! rep g c \<noteq> INT32_MAX" using r that by (auto simp: ready_def unpriced_def)
    moreover have "priced g model x (rep g c)" using inv cls by (simp add: xinv_def)
    ultimately show ?thesis by (auto simp: priced_def split: option.splits)
  qed
  then have "list_all2 (\<lambda>c k. class_cost g model (rep g c) k) (en_children (g_nodes g ! i))
      (map (\<lambda>c. x_cost x ! rep g c) (en_children (g_nodes g ! i)))"
    by (simp add: list_all2_conv_all_nth)
  from class_cost.intros [OF i this] show ?thesis by (simp add: total_cost_def)
qed

lemma xinv_step:
  assumes wf: "wf_eg g" and inv: "xinv g model x" and i: "i < g_count g" and r: "extract_step model x i = (x', ch)"
  shows "xinv g model x'" "\<And>cls. cls < g_count g \<Longrightarrow> x_cost x' ! cls \<le> x_cost x ! cls"
proof -
  have sc: "same_classes g (x_graph x)" and len: "length (x_node x) = g_count g" "length (x_cost x) = g_count g"
    using inv by (simp_all add: xinv_def)
  note s = extract_step_spec [OF wf sc i r]
  have ri: "rep g i < g_count g" by (rule rep_less [OF wf i])
  show le: "x_cost x' ! cls \<le> x_cost x ! cls" if "cls < g_count g" for cls
    using s(2,4) that len by (cases "cls = rep g i") (auto simp: improves_def)
  have mono: "total_cost g model (x_cost x') j \<le> total_cost g model (x_cost x) j" if "j < g_count g" for j
    by (rule total_cost_mono [OF wf that le])
  have rmono: "ready g (x_cost x') j" if "j < g_count g" "ready g (x_cost x) j" for j
    by (rule ready_mono [OF wf that(1) le xinv_cost_le [OF inv] that(2)])
  have "priced g model x' cls" if cls: "cls < g_count g" for cls
  proof (cases "ch \<and> cls = rep g i")
    case True
    then have upd: "x_node x' ! cls = Some i" "x_cost x' ! cls = total_cost g model (x_cost x) i"
      and rd: "ready g (x_cost x) i" and im: "improves x (rep g i) (total_cost g model (x_cost x) i) i"
      using s ri len by simp_all
    have "priced g model x (rep g i)" using inv ri by (simp add: xinv_def)
    then have "total_cost g model (x_cost x) i < INT32_MAX"
      using im by (auto simp: priced_def improves_def split: option.splits)
    then show ?thesis using upd True i ready_class_cost [OF inv wf i rd] mono [OF i] rmono [OF i rd]
      by (simp add: priced_def)
  next
    case False
    then have same: "x_node x' ! cls = x_node x ! cls" "x_cost x' ! cls = x_cost x ! cls"
      using s(3,4) by auto
    have p: "priced g model x cls" using inv cls by (simp add: xinv_def)
    show ?thesis
    proof (cases "x_node x ! cls")
      case None
      with p same show ?thesis by (simp add: priced_def)
    next
      case (Some j)
      then have j: "j < g_count g" "ready g (x_cost x) j" "total_cost g model (x_cost x) j \<le> x_cost x ! cls"
        using p by (simp_all add: priced_def)
      from mono [OF j(1)] j(3) have "total_cost g model (x_cost x') j \<le> x_cost x ! cls" by (rule order_trans)
      with Some p same rmono [OF j(1,2)] show ?thesis by (simp add: priced_def)
    qed
  qed
  then show "xinv g model x'" using s len by (simp add: xinv_def)
qed

section \<open>The loop ends\<close>

text \<open>Every change lowers a cost, or keeps it and lowers the index of the e-node.\<close>

definition slot_weight :: "egraph \<Rightarrow> extraction \<Rightarrow> nat \<Rightarrow> nat" where
  "slot_weight g x cls = x_cost x ! cls * (g_count g + 2) + (case x_node x ! cls of None \<Rightarrow> 0 | Some i \<Rightarrow> Suc i)"

definition weight :: "egraph \<Rightarrow> extraction \<Rightarrow> nat" where
  "weight g x = (\<Sum>cls < g_count g. slot_weight g x cls)"

lemma weight_step:
  assumes wf: "wf_eg g" and inv: "xinv g model x" and i: "i < g_count g" and r: "extract_step model x i = (x', ch)"
  shows "ch \<Longrightarrow> weight g x' < weight g x" "\<not> ch \<Longrightarrow> x_node x' = x_node x \<and> x_cost x' = x_cost x"
    "weight g x' \<le> weight g x"
proof -
  have sc: "same_classes g (x_graph x)" and len: "length (x_node x) = g_count g" "length (x_cost x) = g_count g"
    using inv by (simp_all add: xinv_def)
  note s = extract_step_spec [OF wf sc i r]
  have ri: "rep g i < g_count g" by (rule rep_less [OF wf i])
  show keep: "x_node x' = x_node x \<and> x_cost x' = x_cost x" if "\<not> ch" using s that by simp
  show lt: "weight g x' < weight g x" if ch
  proof -
    let ?t = "total_cost g model (x_cost x) i" and ?c = "rep g i"
    have im: "improves x ?c ?t i" using s(2) that by simp
    have upd: "x_node x' = (x_node x)[?c := Some i]" "x_cost x' = (x_cost x)[?c := ?t]" using s(3,4) that by simp_all
    have "slot_weight g x' ?c = ?t * (g_count g + 2) + Suc i" using upd ri len by (simp add: slot_weight_def)
    moreover have "\<dots> < slot_weight g x ?c"
    proof (cases "?t < x_cost x ! ?c")
      case True
      then have "Suc ?t * (g_count g + 2) \<le> x_cost x ! ?c * (g_count g + 2)" by (intro mult_le_mono1) simp
      then show ?thesis using i by (simp add: slot_weight_def)
    next
      case False
      with im show ?thesis by (auto simp: improves_def slot_weight_def split: option.splits)
    qed
    ultimately have lt: "slot_weight g x' ?c < slot_weight g x ?c" by simp
    have eq: "slot_weight g x' cls = slot_weight g x cls" if "cls \<noteq> ?c" for cls
      using that by (simp add: slot_weight_def upd)
    have "slot_weight g x' cls \<le> slot_weight g x cls" for cls using lt eq by (cases "cls = ?c") simp_all
    with lt ri have "\<forall>cls \<in> {..<g_count g}. slot_weight g x' cls \<le> slot_weight g x cls"
      "\<exists>cls \<in> {..<g_count g}. slot_weight g x' cls < slot_weight g x cls" by blast+
    then show ?thesis unfolding weight_def by (intro sum_strict_mono_ex1) simp_all
  qed
  show "weight g x' \<le> weight g x"
    using lt keep by (cases ch) (auto simp: weight_def slot_weight_def)
qed

lemma extract_pass_spec:
  assumes "wf_eg g" "xinv g model x" "\<forall>i \<in> set js. i < g_count g" "extract_pass model x ch js = (x', c)"
  shows "xinv g model x' \<and> weight g x' \<le> weight g x \<and> (c \<longrightarrow> \<not> ch \<longrightarrow> weight g x' < weight g x)
    \<and> (\<not> c \<longrightarrow> \<not> ch \<and> x_node x' = x_node x \<and> x_cost x' = x_cost x
        \<and> (\<forall>i \<in> set js. \<not> (ready g (x_cost x) i \<and> improves x (rep g i) (total_cost g model (x_cost x) i) i)))"
  using assms
proof (induction js arbitrary: x ch)
  case (Cons i js)
  obtain x1 d where s: "extract_step model x i = (x1, d)" by (cases "extract_step model x i")
  have i: "i < g_count g" using Cons by simp
  note v = xinv_step [OF Cons.prems(1,2) i s] and w = weight_step [OF Cons.prems(1,2) i s]
  have sc: "same_classes g (x_graph x)" using Cons.prems(2) by (simp add: xinv_def)
  note sp = extract_step_spec [OF Cons.prems(1) sc i s]
  have r: "extract_pass model x1 (ch \<or> d) js = (x', c)" using Cons.prems(4) s by simp
  have IH: "xinv g model x' \<and> weight g x' \<le> weight g x1 \<and> (c \<longrightarrow> \<not> (ch \<or> d) \<longrightarrow> weight g x' < weight g x1)
    \<and> (\<not> c \<longrightarrow> \<not> (ch \<or> d) \<and> x_node x' = x_node x1 \<and> x_cost x' = x_cost x1
        \<and> (\<forall>i \<in> set js. \<not> (ready g (x_cost x1) i \<and> improves x1 (rep g i) (total_cost g model (x_cost x1) i) i)))"
    using Cons.prems(3) by (intro Cons.IH [OF Cons.prems(1) v(1) _ r]) simp
  show ?case
  proof (cases d)
    case True
    with IH w show ?thesis by auto
  next
    case False
    then have same: "x_node x1 = x_node x" "x_cost x1 = x_cost x" using w(2) by simp_all
    have "improves x1 = improves x" by (intro ext) (simp add: improves_def same)
    moreover have "weight g x1 = weight g x" by (simp add: weight_def slot_weight_def same)
    ultimately have "improves x1 = improves x \<and> weight g x1 = weight g x" by blast
    with IH False same sp(2) show ?thesis by simp
  qed
qed simp

text \<open>The cost of the term that an e-node was built as. After its turn in a pass, its class costs no more.\<close>

fun tree_cost :: "egraph \<Rightarrow> ccw_cost_model \<Rightarrow> nat \<Rightarrow> nat" where
  "tree_cost g model i =
     node_cost (g_nodes g ! i) model + (\<Sum>c \<leftarrow> filter (\<lambda>c. c < i) (en_children (g_nodes g ! i)). tree_cost g model c)"

declare tree_cost.simps [simp del]

lemma tree_cost_wf:
  assumes "wf_eg g" "i < g_count g"
  shows "tree_cost g model i = node_cost (g_nodes g ! i) model + (\<Sum>c \<leftarrow> en_children (g_nodes g ! i). tree_cost g model c)"
proof -
  have "filter (\<lambda>c. c < i) (en_children (g_nodes g ! i)) = en_children (g_nodes g ! i)"
    using wf_child [OF assms] by (simp add: filter_id_conv)
  then show ?thesis by (subst tree_cost.simps) simp
qed

lemma child_le_tree_cost:
  assumes "wf_eg g" "i < g_count g" "c \<in> set (en_children (g_nodes g ! i))"
  shows "tree_cost g model c \<le> tree_cost g model i"
  using member_le_sum_list [of "tree_cost g model c" "map (tree_cost g model) (en_children (g_nodes g ! i))"] assms
  by (simp add: tree_cost_wf)

definition covered :: "egraph \<Rightarrow> ccw_cost_model \<Rightarrow> extraction \<Rightarrow> nat \<Rightarrow> bool" where
  "covered g model x m \<longleftrightarrow> (\<forall>j < m. x_cost x ! rep g j \<le> tree_cost g model j)"

lemma covered_step:
  assumes wf: "wf_eg g" and inv: "xinv g model x" and c: "covered g model x i" and i: "i < g_count g"
    and r: "extract_step model x i = (x', ch)"
  shows "total_cost g model (x_cost x) i \<le> tree_cost g model i" "covered g model x' (Suc i)"
proof -
  have le: "x_cost x ! rep g d \<le> tree_cost g model d" if "d \<in> set (en_children (g_nodes g ! i))" for d
    using c wf_child [OF wf i that] by (simp add: covered_def)
  then have "(\<Sum>d \<leftarrow> en_children (g_nodes g ! i). x_cost x ! rep g d) \<le> (\<Sum>d \<leftarrow> en_children (g_nodes g ! i). tree_cost g model d)"
    by (intro sum_list_mono)
  then show t: "total_cost g model (x_cost x) i \<le> tree_cost g model i"
    by (simp add: total_cost_def tree_cost_wf [OF wf i])
  have sc: "same_classes g (x_graph x)" and len: "length (x_cost x) = g_count g" using inv by (simp_all add: xinv_def)
  note s = extract_step_spec [OF wf sc i r]
  have ri: "rep g i < g_count g" by (rule rep_less [OF wf i])
  have own: "x_cost x' ! rep g i \<le> tree_cost g model i"
  proof (cases "ready g (x_cost x) i")
    case True
    then have "x_cost x' ! rep g i \<le> total_cost g model (x_cost x) i"
      using s(2,4) ri len by (cases ch) (auto simp: improves_def)
    with t show ?thesis by simp
  next
    case False
    then obtain d where d: "d \<in> set (en_children (g_nodes g ! i))" "x_cost x ! rep g d = INT32_MAX"
      by (auto simp: ready_def unpriced_def)
    then have "INT32_MAX \<le> tree_cost g model i" using le [OF d(1)] child_le_tree_cost [OF wf i d(1), of model] by simp
    moreover have "x_cost x' ! rep g i \<le> INT32_MAX" by (rule xinv_cost_le [OF xinv_step(1) [OF wf inv i r] ri])
    ultimately show ?thesis by simp
  qed
  have "x_cost x' ! rep g j \<le> tree_cost g model j" if "j < i" for j
  proof -
    have "rep g j < g_count g" using that i by (intro rep_less [OF wf]) simp
    from xinv_step(2) [OF wf inv i r this] c that show ?thesis by (fastforce simp: covered_def)
  qed
  with own show "covered g model x' (Suc i)" by (auto simp: covered_def less_Suc_eq)
qed

lemma extract_pass_overflow:
  assumes "wf_eg g" "xinv g model x" "covered g model x k" "extract_pass model x ch [k..<g_count g] = (x', c)"
    "x_overflow x'"
  shows "x_overflow x \<or> (\<exists>i < g_count g. INT32_MAX < tree_cost g model i)"
  using assms
proof (induction "g_count g - k" arbitrary: k x ch)
  case (Suc n)
  then have k: "k < g_count g" by simp
  obtain x1 d where s: "extract_step model x k = (x1, d)" by (cases "extract_step model x k")
  have r: "extract_pass model x1 (ch \<or> d) [Suc k..<g_count g] = (x', c)"
    using Suc.prems(4) s k by (simp add: upt_conv_Cons)
  have sc: "same_classes g (x_graph x)" using Suc.prems(2) by (simp add: xinv_def)
  note cs = covered_step [OF Suc.prems(1-3) k s]
  have "x_overflow x1 \<or> (\<exists>i < g_count g. INT32_MAX < tree_cost g model i)"
    using Suc.hyps(2) xinv_step(1) [OF Suc.prems(1,2) k s] cs(2) r Suc.prems by (intro Suc.hyps(1)) simp_all
  then show ?case
    using extract_step_spec(5) [OF Suc.prems(1) sc k s] cs(1) k by (meson less_le_trans)
qed simp

definition settled :: "egraph \<Rightarrow> ccw_cost_model \<Rightarrow> extraction \<Rightarrow> bool" where
  "settled g model x \<longleftrightarrow> (\<forall>i < g_count g. ready g (x_cost x) i \<longrightarrow>
     \<not> improves x (rep g i) (total_cost g model (x_cost x) i) i)"

lemma extract_loop_ends:
  assumes "wf_eg g" "xinv g model x"
  shows "\<exists>y. extract_loop model x = Some y \<and> xinv g model y \<and> settled g model y
    \<and> (x_overflow y \<longrightarrow> x_overflow x \<or> (\<exists>i < g_count g. INT32_MAX < tree_cost g model i))"
  using assms
proof (induction "weight g x" arbitrary: x rule: less_induct)
  case less
  have cnt: "g_count (x_graph x) = g_count g" using less.prems(2) same_classes_count by (simp add: xinv_def)
  obtain x1 c where p: "extract_pass model x False [0..<g_count g] = (x1, c)"
    by (cases "extract_pass model x False [0..<g_count g]")
  have "\<forall>i \<in> set [0..<g_count g]. i < g_count g" by simp
  note s = extract_pass_spec [OF less.prems this p]
  have o: "x_overflow x1 \<longrightarrow> x_overflow x \<or> (\<exists>i < g_count g. INT32_MAX < tree_cost g model i)"
    using extract_pass_overflow [OF less.prems _ p] by (auto simp: covered_def)
  show ?case
  proof (cases c)
    case True
    then have "weight g x1 < weight g x" "xinv g model x1" using s by simp_all
    from less.hyps [OF this(1) less.prems(1) this(2)] show ?thesis
      using True p cnt o by (subst extract_loop.simps) auto
  next
    case False
    then have "x_node x1 = x_node x" "x_cost x1 = x_cost x" using s by simp_all
    then have "improves x1 = improves x" by (intro ext) (simp add: improves_def)
    then have "settled g model x1" using s False \<open>x_cost x1 = x_cost x\<close> by (simp add: settled_def)
    then show ?thesis using s False p cnt o by (subst extract_loop.simps) simp
  qed
qed

lemma extract_ends:
  assumes "wf_eg g"
  shows "case extract_best g model of
      None \<Rightarrow> \<exists>i < g_count g. INT32_MAX < tree_cost g model i
    | Some x \<Rightarrow> xinv g model x \<and> settled g model x"
proof -
  have "xinv g model \<lparr>x_graph = g, x_node = replicate (g_count g) None, x_cost = replicate (g_count g) INT32_MAX, x_overflow = False\<rparr>"
    using assms by (simp add: xinv_def same_classes_def priced_def)
  from extract_loop_ends [OF assms this] show ?thesis by (auto simp: extract_best_def)
qed

section \<open>What it returns\<close>

text \<open>No tree is cheaper than the recorded cost.\<close>

lemma settled_least:
  assumes wf: "wf_eg g" and inv: "xinv g model x" and st: "settled g model x"
  shows "class_cost g model cls k \<Longrightarrow> k < INT32_MAX \<Longrightarrow> x_cost x ! cls \<le> k"
proof (induction rule: class_cost.induct)
  case (1 i ks)
  have len: "length ks = length (en_children (g_nodes g ! i))" using 1(2) by (simp add: list_all2_lengthD)
  have le: "x_cost x ! rep g (en_children (g_nodes g ! i) ! n) \<le> ks ! n \<and> ks ! n < INT32_MAX" if "n < length ks" for n
  proof -
    have "ks ! n \<le> sum_list ks" using that by (intro member_le_sum_list) simp_all
    then have "ks ! n < INT32_MAX" using 1(3) by simp
    moreover have "class_cost g model (rep g (en_children (g_nodes g ! i) ! n)) (ks ! n)
        \<and> (ks ! n < INT32_MAX \<longrightarrow> x_cost x ! rep g (en_children (g_nodes g ! i) ! n) \<le> ks ! n)"
      using 1(2) that len by (simp add: list_all2_conv_all_nth)
    ultimately show ?thesis by simp
  qed
  have rd: "ready g (x_cost x) i"
    unfolding ready_def unpriced_def
  proof
    assume "\<exists>c \<in> set (en_children (g_nodes g ! i)). x_cost x ! rep g c = INT32_MAX"
    then obtain n where "n < length ks" "x_cost x ! rep g (en_children (g_nodes g ! i) ! n) = INT32_MAX"
      using len by (auto simp: in_set_conv_nth)
    with le [of n] show False by auto
  qed
  have "(\<Sum>c \<leftarrow> en_children (g_nodes g ! i). x_cost x ! rep g c) \<le> sum_list ks"
  proof -
    have "map (\<lambda>c. x_cost x ! rep g c) (en_children (g_nodes g ! i)) =
        map (\<lambda>n. x_cost x ! rep g (en_children (g_nodes g ! i) ! n)) [0..<length ks]"
      by (rule nth_equalityI) (simp_all add: len)
    moreover have "sum_list (map (\<lambda>n. x_cost x ! rep g (en_children (g_nodes g ! i) ! n)) [0..<length ks])
        \<le> sum_list (map ((!) ks) [0..<length ks])"
      using le by (intro sum_list_mono) simp
    moreover have "map ((!) ks) [0..<length ks] = ks" by (rule map_nth)
    ultimately show ?thesis by simp
  qed
  then have "total_cost g model (x_cost x) i \<le> node_cost (g_nodes g ! i) model + sum_list ks" by (simp add: total_cost_def)
  moreover have "x_cost x ! rep g i \<le> total_cost g model (x_cost x) i"
    using st rd 1(1) by (auto simp: settled_def improves_def)
  ultimately show ?case by simp
qed

lemma settled_choice:
  assumes inv: "xinv g model x" and st: "settled g model x" and c: "cls < g_count g" and n: "x_node x ! cls = Some i"
  shows "i < g_count g \<and> rep g i = cls \<and> class_cost g model cls (x_cost x ! cls) \<and> x_cost x ! cls < INT32_MAX
    \<and> ready g (x_cost x) i \<and> total_cost g model (x_cost x) i = x_cost x ! cls
    \<and> (\<forall>j < i. rep g j = cls \<longrightarrow> ready g (x_cost x) j \<longrightarrow> total_cost g model (x_cost x) j \<noteq> x_cost x ! cls)"
proof -
  have p: "i < g_count g" "rep g i = cls" "x_cost x ! cls < INT32_MAX" "class_cost g model cls (x_cost x ! cls)"
    "ready g (x_cost x) i" "total_cost g model (x_cost x) i \<le> x_cost x ! cls"
    using inv c n by (auto simp: xinv_def priced_def split: option.splits)
  have q: "\<not> improves x cls (total_cost g model (x_cost x) j) j" if "j < g_count g" "rep g j = cls" "ready g (x_cost x) j" for j
    using st that by (auto simp: settled_def)
  have "total_cost g model (x_cost x) i = x_cost x ! cls" using q [OF p(1,2,5)] p(6) by (auto simp: improves_def)
  moreover have "total_cost g model (x_cost x) j \<noteq> x_cost x ! cls"
    if "j < i" "rep g j = cls" "ready g (x_cost x) j" for j
    using q [of j] that p(1) n by (auto simp: improves_def)
  ultimately show ?thesis using p by simp
qed

text \<open>A class with a tree below the sentinel has a choice.\<close>

lemma settled_some:
  assumes wf: "wf_eg g" and inv: "xinv g model x" and st: "settled g model x" and c: "cls < g_count g"
    and k: "class_cost g model cls k" "k < INT32_MAX"
  shows "x_node x ! cls \<noteq> None"
  using settled_least [OF wf inv st k] k(2) inv c by (auto simp: xinv_def priced_def split: option.splits)

text \<open>What is recorded for a class.\<close>

lemma settled_class:
  assumes wf: "wf_eg g" and x: "xinv g model x" "settled g model x" and c: "cls < g_count g"
  shows "case x_node x ! cls of
       None \<Rightarrow> (\<forall>k. class_cost g model cls k \<longrightarrow> INT32_MAX \<le> k)
     | Some i \<Rightarrow> i < g_count g \<and> rep g i = cls \<and> x_cost x ! cls < INT32_MAX
         \<and> class_cost g model cls (x_cost x ! cls) \<and> total_cost g model (x_cost x) i = x_cost x ! cls
         \<and> (\<forall>k. class_cost g model cls k \<longrightarrow> x_cost x ! cls \<le> k)
         \<and> (\<forall>j < i. rep g j = cls \<longrightarrow> ready g (x_cost x) j \<longrightarrow> total_cost g model (x_cost x) j \<noteq> x_cost x ! cls)"
proof (cases "x_node x ! cls")
  case None
  with settled_some [OF wf x c] show ?thesis by (auto simp: not_le [symmetric])
next
  case (Some i)
  note s = settled_choice [OF x c Some]
  have "x_cost x ! cls \<le> k" if "class_cost g model cls k" for k
    using settled_least [OF wf x that] s by (cases "k < INT32_MAX") simp_all
  with s Some show ?thesis by simp
qed

end
