(* ===== verification/Oeuph_View.thy ===== *)
theory Oeuph_View
  imports Oeuph_Run
begin

text \<open>
  What an instruction looks like without its ids (\<open>instr_view\<close>), and the effect of \<open>writeback_instr\<close> on
  the views of a module: one instruction is exchanged for the one the chosen e-node describes, everything
  else stays.
\<close>

section \<open>Views\<close>

datatype operand_view = SInt "64 word" | SReg string | SOther

record instr_view =
  v_opcode :: "string option"
  v_dest :: "string option"
  v_type :: ccw_ir_type
  v_operands :: "operand_view list"

definition operand_view_of :: "ccw_ir_node \<Rightarrow> operand_view" where
  "operand_view_of x =
     (if n_kind x \<noteq> CCW_NODE_OPERAND then SOther
      else if n_okind x = CCW_OPND_CONST_INT then SInt (n_ival x)
      else if n_okind x = CCW_OPND_REG then (case n_name x of Some s \<Rightarrow> SReg s | None \<Rightarrow> SOther)
      else SOther)"

definition oview :: "heap \<Rightarrow> ccw_node \<Rightarrow> operand_view" where
  "oview h x = (case h x of Some n \<Rightarrow> operand_view_of n | None \<Rightarrow> SOther)"

definition iview :: "heap \<Rightarrow> ccw_node \<Rightarrow> instr_view" where
  "iview h i =
     (case h i of
        Some n \<Rightarrow> \<lparr>v_opcode = n_opcode n, v_dest = n_name n, v_type = n_type n, v_operands = map (oview h) (n_children n)\<rparr>
      | None \<Rightarrow> \<lparr>v_opcode = None, v_dest = None, v_type = CCW_TY_VOID, v_operands = []\<rparr>)"

definition block_view :: "ccw_ir \<Rightarrow> ccw_node \<Rightarrow> instr_view list" where
  "block_view ir b = map (iview (ccw_ir_node_get ir)) (children_of ir b CCW_NODE_BLOCK)"

definition enode_view :: "enode \<Rightarrow> operand_view" where
  "enode_view c = (if en_is_const c then SInt (en_value c) else SReg (en_reg c))"

section \<open>Building the replacement\<close>

text \<open>\<open>ir'\<close> is \<open>ir\<close> with fresh nodes, of which \<open>built\<close> is a detached instruction with this view.\<close>

definition staged :: "ccw_ir \<Rightarrow> ccw_ir \<Rightarrow> ccw_node \<Rightarrow> instr_view \<Rightarrow> bool" where
  "staged ir ir' built v \<longleftrightarrow> wf_ir ir' \<and> m_functions ir' = m_functions ir \<and> built = next_id ir \<and> built < next_id ir'
     \<and> (\<forall>j < next_id ir. ccw_ir_node_get ir' j = ccw_ir_node_get ir j)
     \<and> at (ccw_ir_node_get ir') built (\<lambda>n. n_kind n = CCW_NODE_INSTR \<and> \<not> n_attached n)
     \<and> iview (ccw_ir_node_get ir') built = v"

lemma get_next: "ccw_ir_node_get ir j = Some n \<Longrightarrow> j < next_id ir"
  using nt.get_bound by blast

lemma next_id_upd [simp]: "next_id (upd_node ir i f) = next_id ir"
  by (simp add: next_id_def)

lemma next_id_new: "ccw_ir_node_new ir k = (ir1, i) \<Longrightarrow> next_id ir1 = Suc (next_id ir)"
  using nt.new_next [of ir k] by simp

lemma staged_build:
  assumes wf: "wf_ir ir" and r: "ccw_ir_instr_build ir (Some op) t = (ir1, built)"
  shows "staged ir ir1 built \<lparr>v_opcode = Some op, v_dest = None, v_type = t, v_operands = []\<rparr>" "built \<noteq> 0"
proof -
  obtain ir0 i where n: "ccw_ir_node_new ir CCW_NODE_INSTR = (ir0, i)" by (cases "ccw_ir_node_new ir CCW_NODE_INSTR")
  let ?f = "\<lambda>n :: ccw_ir_node. n\<lparr>n_opcode := Some op, n_type := t, n_attached := False\<rparr>"
  have e: "ir1 = upd_node ir0 i ?f" "built = i" using r n by (auto simp: ccw_ir_instr_build_def)
  note a = alloc_facts [OF wf n, of ?f, simplified]
  have "wf_ir (fst (ccw_ir_instr_build ir (Some op) t))" by (rule wf_instr_build [OF wf])
  then have wf1: "wf_ir ir1" using r by simp
  have h: "ccw_ir_node_get ir1 = (ccw_ir_node_get ir)(i \<mapsto> ?f (blank_node CCW_NODE_INSTR i))" using a(4) e by simp
  show "built \<noteq> 0" using a(2) e by simp
  show "staged ir ir1 built \<lparr>v_opcode = Some op, v_dest = None, v_type = t, v_operands = []\<rparr>"
    unfolding staged_def
    using wf1 a e next_id_new [OF n] by (simp add: h at_upd iview_def blank_node_def)
qed

lemma staged_node:
  assumes "staged ir ir' built v"
  obtains n where "ccw_ir_node_get ir' built = Some n" "n_kind n = CCW_NODE_INSTR" "\<not> n_attached n"
    "v = \<lparr>v_opcode = n_opcode n, v_dest = n_name n, v_type = n_type n, v_operands = map (oview (ccw_ir_node_get ir')) (n_children n)\<rparr>"
  using assms by (auto simp: staged_def iview_def elim!: atE)

lemma oview_upd_instr:
  assumes "h i = Some n" "n_kind n = CCW_NODE_INSTR" "n_kind m = CCW_NODE_INSTR"
  shows "oview (h(i \<mapsto> m)) = oview h"
  using assms by (intro ext) (simp add: oview_def operand_view_of_def)

lemma staged_dest:
  assumes s: "staged ir ir' built v" and r: "ccw_ir_instr_set_dest ir' built (Some d) = (ir2, st)"
  shows "staged ir ir2 built (v\<lparr>v_dest := Some d\<rparr>)"
proof -
  obtain n where n: "ccw_ir_node_get ir' built = Some n" "n_kind n = CCW_NODE_INSTR" "\<not> n_attached n"
    and v: "v = \<lparr>v_opcode = n_opcode n, v_dest = n_name n, v_type = n_type n,
      v_operands = map (oview (ccw_ir_node_get ir')) (n_children n)\<rparr>"
    by (rule staged_node [OF s])
  have ir2: "ir2 = upd_node ir' built (\<lambda>n. n\<lparr>n_name := Some d\<rparr>)"
    using r n by (simp add: ccw_ir_instr_set_dest_def ccw_ir_node_get_kind_def)
  have h: "ccw_ir_node_get ir2 = (ccw_ir_node_get ir')(built \<mapsto> n\<lparr>n_name := Some d\<rparr>)"
    unfolding ir2 by (rule get_upd_keep [OF n(1)]) simp
  have "wf_ir (fst (ccw_ir_instr_set_dest ir' built (Some d)))" using s by (intro wf_set_dest) (simp add: staged_def)
  then have wf2: "wf_ir ir2" using r by simp
  have o: "oview (ccw_ir_node_get ir2) = oview (ccw_ir_node_get ir')" unfolding h
    by (rule oview_upd_instr [where n = n]) (simp_all add: n)
  have fr: "m_functions ir2 = m_functions ir'" "next_id ir2 = next_id ir'" by (simp_all add: ir2)
  have "at (ccw_ir_node_get ir2) built (\<lambda>n. n_kind n = CCW_NODE_INSTR \<and> \<not> n_attached n)" using n by (simp add: h at_upd)
  moreover have "iview (ccw_ir_node_get ir2) built = v\<lparr>v_dest := Some d\<rparr>"
  proof -
    have "ccw_ir_node_get ir2 built = Some (n\<lparr>n_name := Some d\<rparr>)" by (simp add: h)
    then show ?thesis by (simp add: iview_def v o)
  qed
  moreover have "\<forall>j < next_id ir. ccw_ir_node_get ir2 j = ccw_ir_node_get ir j"
    using s by (simp add: h staged_def)
  ultimately show ?thesis using s wf2 fr by (simp add: staged_def)
qed

lemma next_id_operand_new: "next_id (fst (ccw_operand_new ir k name)) = Suc (next_id ir)"
proof -
  obtain ir1 i where n: "ccw_ir_node_new ir CCW_NODE_OPERAND = (ir1, i)" by fastforce
  then show ?thesis using next_id_new [OF n] by (simp add: ccw_operand_new_def)
qed

lemma build_operand_effect:
  assumes wf: "wf_ir ir" and r: "build_operand ir c = (ir1, opnd)"
  obtains m where "opnd = next_id ir" "0 < opnd" "wf_ir ir1" "m_functions ir1 = m_functions ir"
    "next_id ir1 = Suc (next_id ir)" "ccw_ir_node_get ir1 = (ccw_ir_node_get ir)(opnd \<mapsto> m)"
    "n_kind m = CCW_NODE_OPERAND" "operand_view_of m = enode_view c"
proof (cases "en_is_const c")
  case True
  note a = wf_operand_new [OF wf, where name = None and k = CCW_OPND_CONST_INT, simplified]
  let ?new = "ccw_operand_new ir CCW_OPND_CONST_INT None"
  let ?m = "(blank_node CCW_NODE_OPERAND (next_id ir))\<lparr>n_okind := CCW_OPND_CONST_INT, n_name := None\<rparr>"
  let ?f = "\<lambda>n :: ccw_ir_node. n\<lparr>n_type := CCW_TY_I64, n_ival := en_value c\<rparr>"
  have g: "ccw_ir_node_get (fst ?new) (next_id ir) = Some ?m" using a(2) by simp
  have e: "ir1 = upd_node (fst ?new) (next_id ir) ?f" "opnd = next_id ir"
    using r True a(3) g
    by (auto simp: build_operand_def ccw_ir_operand_const_int_def case_prod_beta)
  have "wf_ir (fst (ccw_ir_operand_const_int ir CCW_TY_I64 (en_value c)))" by (rule wf_operand_const(1) [OF wf])
  then have wf1: "wf_ir ir1" using r True by (simp add: build_operand_def)
  have h: "ccw_ir_node_get ir1 = (ccw_ir_node_get ir)(opnd \<mapsto> ?f ?m)"
    unfolding e(1) using get_upd_keep [where f = ?f, OF g] a(2) e(2) by simp
  have v: "operand_view_of (?f ?m) = enode_view c" using True by (simp add: operand_view_of_def blank_node_def enode_view_def)
  show ?thesis
    by (rule that [OF e(2) _ wf1 _ _ h _ v]) (use e a next_id_operand_new in \<open>simp_all add: blank_node_def\<close>)
next
  case False
  note a = wf_operand_new [OF wf, where name = "Some (en_reg c)" and k = CCW_OPND_REG, simplified]
  let ?new = "ccw_operand_new ir CCW_OPND_REG (Some (en_reg c))"
  let ?m = "(blank_node CCW_NODE_OPERAND (next_id ir))\<lparr>n_okind := CCW_OPND_REG, n_name := Some (en_reg c)\<rparr>"
  have e: "ir1 = fst ?new" "opnd = next_id ir"
    using r False a(3) by (simp_all add: build_operand_def ccw_ir_operand_reg_def split: prod.splits)
  have h: "ccw_ir_node_get ir1 = (ccw_ir_node_get ir)(opnd \<mapsto> ?m)" using a(2) e by simp
  have v: "operand_view_of ?m = enode_view c" using False by (simp add: operand_view_of_def blank_node_def enode_view_def)
  show ?thesis
    by (rule that [OF e(2) _ _ _ _ h _ v]) (use e a next_id_operand_new in \<open>simp_all add: blank_node_def\<close>)
qed

text \<open>The operands of a live instruction are live, so a fresh node does not change its view.\<close>

lemma instr_children_operands:
  assumes wf: "wf_ir ir" and n: "ccw_ir_node_get ir i = Some n" "n_kind n = CCW_NODE_INSTR" and c: "c \<in> set (n_children n)"
  shows "at (ccw_ir_node_get ir) c is_operand"
  using wf_heap_instr [OF wf_heapD [OF wf] n] c by (simp add: instr_ok_def)

lemma iview_frame:
  assumes wf: "wf_ir ir" and n: "ccw_ir_node_get ir i = Some n" "n_kind n = CCW_NODE_INSTR"
    and i: "h i = Some n" and c: "\<And>c. at (ccw_ir_node_get ir) c is_operand \<Longrightarrow> h c = ccw_ir_node_get ir c"
  shows "iview h i = iview (ccw_ir_node_get ir) i"
proof -
  have "map (oview h) (n_children n) = map (oview (ccw_ir_node_get ir)) (n_children n)"
    using c instr_children_operands [OF wf n] by (intro map_cong) (simp_all add: oview_def)
  then show ?thesis using n(1) i by (simp add: iview_def)
qed

lemma staged_operand:
  assumes s: "staged ir ir' built v" and o: "build_operand ir' c = (ir1, opnd)"
  shows "staged ir ir1 built v" "opnd \<noteq> 0" "at (ccw_ir_node_get ir1) opnd is_operand"
    "oview (ccw_ir_node_get ir1) opnd = enode_view c"
proof -
  have wf: "wf_ir ir'" using s by (simp add: staged_def)
  obtain m where m: "opnd = next_id ir'" "0 < opnd" "wf_ir ir1" "m_functions ir1 = m_functions ir'"
    "next_id ir1 = Suc (next_id ir')" "ccw_ir_node_get ir1 = (ccw_ir_node_get ir')(opnd \<mapsto> m)"
    "n_kind m = CCW_NODE_OPERAND" "operand_view_of m = enode_view c"
    by (rule build_operand_effect [OF wf o])
  obtain n where n: "ccw_ir_node_get ir' built = Some n" "n_kind n = CCW_NODE_INSTR" "\<not> n_attached n"
    by (rule staged_node [OF s])
  have lt: "built < opnd" using s m(1) by (simp add: staged_def)
  have "iview (ccw_ir_node_get ir1) built = iview (ccw_ir_node_get ir') built"
  proof (rule iview_frame [OF wf n(1,2)])
    show "ccw_ir_node_get ir1 built = Some n" using m(6) lt n(1) by simp
    show "ccw_ir_node_get ir1 c = ccw_ir_node_get ir' c" if "at (ccw_ir_node_get ir') c is_operand" for c
      using that m(1,6) by (auto simp: at_def dest!: get_next split: option.splits)
  qed
  then show "staged ir ir1 built v" using s m lt n unfolding staged_def by (auto simp: at_def)
  show "opnd \<noteq> 0" "at (ccw_ir_node_get ir1) opnd is_operand" "oview (ccw_ir_node_get ir1) opnd = enode_view c"
    using m by (simp_all add: at_def is_operand_def oview_def)
qed

lemma staged_add:
  assumes s: "staged ir ir1 built v" and o: "at (ccw_ir_node_get ir1) opnd is_operand"
    and r: "ccw_ir_instr_add_operand ir1 built opnd = (ir2, st)"
  shows "staged ir ir2 built (v\<lparr>v_operands := v_operands v @ [oview (ccw_ir_node_get ir1) opnd]\<rparr>)" "st = CCW_OK"
proof -
  obtain n where n: "ccw_ir_node_get ir1 built = Some n" "n_kind n = CCW_NODE_INSTR" "\<not> n_attached n"
    and v: "v = \<lparr>v_opcode = n_opcode n, v_dest = n_name n, v_type = n_type n,
      v_operands = map (oview (ccw_ir_node_get ir1)) (n_children n)\<rparr>"
    by (rule staged_node [OF s])
  obtain x where x: "ccw_ir_node_get ir1 opnd = Some x" "n_kind x = CCW_NODE_OPERAND"
    using o by (auto simp: is_operand_def elim!: atE)
  have ir2: "ir2 = upd_node ir1 built (\<lambda>n. n\<lparr>n_children := n_children n @ [opnd]\<rparr>)" and st: "st = CCW_OK"
    using r n x by (simp_all add: ccw_ir_instr_add_operand_def ccw_ir_node_get_kind_def)
  have h: "ccw_ir_node_get ir2 = (ccw_ir_node_get ir1)(built \<mapsto> n\<lparr>n_children := n_children n @ [opnd]\<rparr>)"
    unfolding ir2 by (rule get_upd_keep [OF n(1)]) simp
  have "wf_ir (fst (ccw_ir_instr_add_operand ir1 built opnd))" using s by (intro wf_add_operand) (simp add: staged_def)
  then have wf2: "wf_ir ir2" using r by simp
  have ov: "oview (ccw_ir_node_get ir2) = oview (ccw_ir_node_get ir1)" unfolding h
    by (rule oview_upd_instr [where n = n]) (simp_all add: n)
  have fr: "m_functions ir2 = m_functions ir1" "next_id ir2 = next_id ir1" by (simp_all add: ir2)
  have "at (ccw_ir_node_get ir2) built (\<lambda>n. n_kind n = CCW_NODE_INSTR \<and> \<not> n_attached n)" using n by (simp add: h at_upd)
  moreover have "iview (ccw_ir_node_get ir2) built = v\<lparr>v_operands := v_operands v @ [oview (ccw_ir_node_get ir1) opnd]\<rparr>"
  proof -
    have "ccw_ir_node_get ir2 built = Some (n\<lparr>n_children := n_children n @ [opnd]\<rparr>)" by (simp add: h)
    then show ?thesis by (simp add: iview_def v ov)
  qed
  moreover have "\<forall>j < next_id ir. ccw_ir_node_get ir2 j = ccw_ir_node_get ir j"
    using s by (simp add: h staged_def)
  ultimately show "staged ir ir2 built (v\<lparr>v_operands := v_operands v @ [oview (ccw_ir_node_get ir1) opnd]\<rparr>)"
    using s wf2 fr by (simp add: staged_def)
  show "st = CCW_OK" by (rule st)
qed

lemma staged_operands:
  assumes "staged ir ir' built v" "build_operands ir' built cs = (ir2, ok)"
  shows "ok \<and> staged ir ir2 built (v\<lparr>v_operands := v_operands v @ map enode_view cs\<rparr>)"
  using assms
proof (induction cs arbitrary: ir' v)
  case (Cons c cs)
  obtain ir1 opnd where o: "build_operand ir' c = (ir1, opnd)" by (cases "build_operand ir' c")
  note so = staged_operand [OF Cons.prems(1) o]
  obtain ir3 st where a: "ccw_ir_instr_add_operand ir1 built opnd = (ir3, st)" by (cases "ccw_ir_instr_add_operand ir1 built opnd")
  note sa = staged_add [OF so(1,3) a]
  have "build_operands ir3 built cs = (ir2, ok)" using Cons.prems(2) o a so(2) sa(2) by simp
  from Cons.IH [OF sa(1) this] show ?case using so(4) by simp
qed simp

section \<open>The exchange\<close>

text \<open>\<open>exchanged\<close>: in the block \<open>b\<close>, the instruction at one position got the view \<open>v\<close>; nothing else changed.\<close>

definition exchanged :: "ccw_ir \<Rightarrow> ccw_node \<Rightarrow> nat \<Rightarrow> instr_view \<Rightarrow> ccw_ir \<Rightarrow> bool" where
  "exchanged ir b k v ir' \<longleftrightarrow> wf_ir ir' \<and> m_functions ir' = m_functions ir
     \<and> (\<forall>f < next_id ir. children_of ir' f CCW_NODE_FUNCTION = children_of ir f CCW_NODE_FUNCTION)
     \<and> block_view ir' b = (block_view ir b)[k := v]
     \<and> (\<forall>c < next_id ir. c \<noteq> b \<longrightarrow> block_view ir' c = block_view ir c)
     \<and> next_id ir \<le> next_id ir'"

lemma exchanged_refl:
  "wf_ir ir \<Longrightarrow> k < length (block_view ir b) \<Longrightarrow> exchanged ir b k (block_view ir b ! k) ir"
  by (simp add: exchanged_def)

lemma exchange:
  assumes wf: "wf_ir ir" and B: "ccw_ir_node_get ir b = Some B" "n_kind B = CCW_NODE_BLOCK" and k: "k < length (n_children B)"
    and a: "ccw_ir_node_get ir (n_children B ! k) = Some a"
    and s: "staged ir ir3 built v" and d: "v_dest v = n_name a"
    and r: "ccw_ir_instr_replace ir3 (n_children B ! k) built = (ir', st)"
  shows "exchanged ir b k v ir'"
proof -
  let ?ins = "n_children B ! k"
  have st: "wf_ir ir3" "m_functions ir3 = m_functions ir" "built = next_id ir" "built < next_id ir3"
    "\<And>j. j < next_id ir \<Longrightarrow> ccw_ir_node_get ir3 j = ccw_ir_node_get ir j"
    "at (ccw_ir_node_get ir3) built (\<lambda>n. n_kind n = CCW_NODE_INSTR \<and> \<not> n_attached n)"
    "iview (ccw_ir_node_get ir3) built = v"
    using s unfolding staged_def by blast+
  have in': "?ins \<in> set (n_children B)" using k by simp
  obtain a' where a': "ccw_ir_node_get ir ?ins = Some a'" "n_kind a' = CCW_NODE_INSTR" "n_attached a'" "n_parent a' = b"
    by (rule block_instr [OF wf B in'])
  with a have ak: "n_kind a = CCW_NODE_INSTR" "n_attached a" "n_parent a = b" by simp_all
  have ltb: "b < next_id ir" "?ins < next_id ir" using B a by (simp_all add: get_next)
  have g3: "ccw_ir_node_get ir3 ?ins = Some a" "ccw_ir_node_get ir3 b = Some B" using st(5) ltb a B by simp_all
  have p: "edit_pair ir3 ?ins built" using g3 ak st(6) by (simp add: edit_pair_def at_def)
  obtain a2 n B2 xs ys where e: "ccw_ir_node_get ir3 ?ins = Some a2" "ccw_ir_node_get ir3 built = Some n"
    "ccw_ir_node_get ir3 (n_parent a2) = Some B2" "n_kind B2 = CCW_NODE_BLOCK"
    "n_children B2 = xs @ ?ins # ys" "distinct (xs @ ?ins # built # ys)"
    and "snd (ccw_ir_instr_replace ir3 ?ins built) = CCW_OK"
    and h: "ccw_ir_node_get (fst (ccw_ir_instr_replace ir3 ?ins built)) =
       (ccw_ir_node_get ir3)
         (?ins \<mapsto> a2\<lparr>n_parent := 0, n_attached := False\<rparr>,
          built \<mapsto> n\<lparr>n_name := inherited_dest a2 n, n_parent := n_parent a2, n_attached := True\<rparr>,
          n_parent a2 \<mapsto> B2\<lparr>n_children := xs @ built # ys\<rparr>)"
    and w: "wf_ir (fst (ccw_ir_instr_replace ir3 ?ins built))"
    by (rule replace_effect [OF st(1) p])
  have eq: "a2 = a" "B2 = B" using e g3 ak by simp_all
  have nk: "n_kind n = CCW_NODE_INSTR" using st(6) e(2) by (simp add: at_def)
  have nm: "n_name n = n_name a" using st(7) d e(2) by (auto simp: iview_def)
  have dest: "inherited_dest a n = n_name a" using nm by (simp add: inherited_dest_def)
  let ?h' = "ccw_ir_node_get ir'"
  have h': "?h' = (ccw_ir_node_get ir3)(?ins \<mapsto> a\<lparr>n_parent := 0, n_attached := False\<rparr>,
      built \<mapsto> n\<lparr>n_name := n_name a, n_parent := b, n_attached := True\<rparr>, b \<mapsto> B\<lparr>n_children := xs @ built # ys\<rparr>)"
    using h r eq ak(3) dest by simp
  have ne: "?ins \<noteq> b" "built \<noteq> b" "built \<noteq> ?ins" using a ak B ltb st(3) by auto
  have old: "?h' j = ccw_ir_node_get ir j" if "j < next_id ir" "j \<noteq> ?ins" "j \<noteq> b" for j
    using that st(3,5) ne by (simp add: h')
  have hb: "?h' built = Some (n\<lparr>n_name := n_name a, n_parent := b, n_attached := True\<rparr>)" "?h' b = Some (B\<lparr>n_children := xs @ built # ys\<rparr>)"
    using ne by (simp_all add: h')
  have ops: "?h' c = ccw_ir_node_get ir3 c" if "at (ccw_ir_node_get ir3) c is_operand" for c
    using that g3 ak B(2) e(2) nk by (auto simp: h' at_def is_operand_def)
  have bv: "iview ?h' built = v"
  proof -
    have "map (oview ?h') (n_children n) = map (oview (ccw_ir_node_get ir3)) (n_children n)"
      using ops instr_children_operands [OF st(1) e(2) nk] by (intro map_cong) (simp_all add: oview_def)
    then show ?thesis using hb(1) st(7) e(2) nm by (auto simp: iview_def)
  qed
  have iv: "iview ?h' c = iview (ccw_ir_node_get ir) c"
    if c: "ccw_ir_node_get ir c = Some m" "n_kind m = CCW_NODE_INSTR" "c \<noteq> ?ins" for c m
  proof (rule iview_frame [OF wf c(1,2)])
    have "c \<noteq> b" using c B by auto
    then show "?h' c = Some m" using old [OF get_next [OF c(1)] c(3)] c(1) by simp
    show "?h' d = ccw_ir_node_get ir d" if op: "at (ccw_ir_node_get ir) d is_operand" for d
    proof -
      obtain x where x: "ccw_ir_node_get ir d = Some x" "n_kind x = CCW_NODE_OPERAND"
        using op by (auto simp: is_operand_def elim!: atE)
      then have "d \<noteq> ?ins" "d \<noteq> b" using a ak(1) B by auto
      then show ?thesis by (rule old [OF get_next [OF x(1)]])
    qed
  qed
  have dB: "distinct (n_children B)" using wf_heap_block [OF wf_heapD [OF wf] B] by (simp add: block_ok_def)
  have "length xs < length (n_children B)" "n_children B ! length xs = ?ins"
    using e(5) eq(2) by (metis length_append length_Cons less_add_Suc1 add_Suc_right, metis nth_append_length)
  then have len: "length xs = k" using distinct_nth_eq [OF dB _ k] by simp
  have "(xs @ ?ins # ys)[length xs := built] = xs @ built # ys" by simp
  then have upd: "xs @ built # ys = (n_children B)[k := built]" using e(5) unfolding eq(2) len by (metis len)
  have "block_view ir' b = (block_view ir b)[k := v]"
  proof -
    have "block_view ir' b = map (iview ?h') ((n_children B)[k := built])"
      using hb(2) B(2) upd by (simp add: block_view_def children_of_def ccw_ir_node_get_kind_def)
    also have "\<dots> = (map (iview ?h') (n_children B))[k := v]" by (simp add: map_update bv)
    also have "\<dots> = (map (iview (ccw_ir_node_get ir)) (n_children B))[k := v]"
    proof (rule nth_equalityI)
      fix i
      assume "i < length ((map (iview ?h') (n_children B))[k := v])"
      then have i: "i < length (n_children B)" by simp
      show "(map (iview ?h') (n_children B))[k := v] ! i = (map (iview (ccw_ir_node_get ir)) (n_children B))[k := v] ! i"
      proof (cases "i = k")
        case False
        have "n_children B ! i \<in> set (n_children B)" using i by simp
        then obtain m where m: "ccw_ir_node_get ir (n_children B ! i) = Some m" "n_kind m = CCW_NODE_INSTR"
          using block_instr [OF wf B] by blast
        have "n_children B ! i \<noteq> ?ins" using False dB i k by (simp add: nth_eq_iff_index_eq)
        from iv [OF m this] show ?thesis using False i by simp
      qed (use i in simp)
    qed simp
    finally show ?thesis using B by (simp add: block_view_def children_of_def ccw_ir_node_get_kind_def)
  qed
  moreover have "block_view ir' c = block_view ir c" if c: "c < next_id ir" "c \<noteq> b" for c
  proof (cases "ccw_ir_node_get_kind ir c CCW_NODE_BLOCK")
    case None
    then have "ccw_ir_node_get_kind ir' c CCW_NODE_BLOCK = None"
      using old [OF c(1) _ c(2)] a ak h' ne c by (cases "c = ?ins") (auto simp: ccw_ir_node_get_kind_def)
    with None show ?thesis by (simp add: block_view_def children_of_def)
  next
    case (Some D)
    then have D: "ccw_ir_node_get ir c = Some D" "n_kind D = CCW_NODE_BLOCK" by (simp_all add: ir_simps)
    have "c \<noteq> ?ins" using D a ak by auto
    then have D': "?h' c = Some D" using old [OF c(1) _ c(2)] D(1) by simp
    have "iview ?h' i = iview (ccw_ir_node_get ir) i" if i: "i \<in> set (n_children D)" for i
    proof -
      obtain m where m: "ccw_ir_node_get ir i = Some m" "n_kind m = CCW_NODE_INSTR" "n_parent m = c"
        using block_instr [OF wf D i] by blast
      have "i \<noteq> ?ins" using m a ak c by auto
      from iv [OF m(1,2) this] show ?thesis .
    qed
    then show ?thesis using D D' by (simp add: block_view_def children_of_def ccw_ir_node_get_kind_def)
  qed
  moreover have "children_of ir' f CCW_NODE_FUNCTION = children_of ir f CCW_NODE_FUNCTION" if f: "f < next_id ir" for f
  proof -
    consider "f = ?ins" | "f = b" | "f \<noteq> ?ins" "f \<noteq> b" by blast
    then show ?thesis
    proof cases
      case 1
      have "?h' ?ins = Some (a\<lparr>n_parent := 0, n_attached := False\<rparr>)" using ne by (simp add: h')
      then show ?thesis unfolding 1 using a ak by (simp add: children_of_def ccw_ir_node_get_kind_def)
    next
      case 2
      then show ?thesis using hb(2) B by (simp add: children_of_def ccw_ir_node_get_kind_def)
    next
      case 3
      then show ?thesis using old [OF f] by (simp add: children_of_def ccw_ir_node_get_kind_def)
    qed
  qed
  moreover have "m_functions ir' = m_functions ir" "next_id ir' = next_id ir3"
  proof -
    have "m_functions (fst (ccw_ir_instr_replace ir3 ?ins built)) = m_functions ir3"
      "next_id (fst (ccw_ir_instr_replace ir3 ?ins built)) = next_id ir3"
      by (simp_all add: ccw_ir_instr_replace_def Let_def split: option.splits)
    then show "m_functions ir' = m_functions ir" "next_id ir' = next_id ir3" using r st(2) by simp_all
  qed
  moreover have "wf_ir ir'" using w r by simp
  ultimately show ?thesis using st(3,4) by (simp add: exchanged_def)
qed

text \<open>The writeback of an e-node: no change, or the exchange for its view.\<close>

definition written :: "instr_view \<Rightarrow> egraph \<Rightarrow> enode \<Rightarrow> instr_view" where
  "written v g n = v\<lparr>v_opcode := Some (en_opcode n), v_operands := map (\<lambda>c. enode_view (g_nodes g ! c)) (en_children n)\<rparr>"

lemma writeback_effect:
  assumes wf: "wf_ir ir" and B: "ccw_ir_node_get ir b = Some B" "n_kind B = CCW_NODE_BLOCK" and k: "k < length (n_children B)"
    and r: "writeback_instr ir (n_children B ! k) g idx = (ir', d)"
  shows "(ir' = ir \<and> \<not> d) \<or> (\<not> en_is_const (g_nodes g ! idx) \<and> en_opcode (g_nodes g ! idx) \<noteq> []
    \<and> exchanged ir b k (written (block_view ir b ! k) g (g_nodes g ! idx)) ir')"
proof -
  let ?ins = "n_children B ! k" and ?n = "g_nodes g ! idx"
  have "?ins \<in> set (n_children B)" using k by simp
  then obtain a where a: "ccw_ir_node_get ir ?ins = Some a" "n_kind a = CCW_NODE_INSTR" "n_attached a" "n_parent a = b"
    using block_instr [OF wf B] by blast
  show ?thesis
  proof (cases "en_is_const ?n \<or> en_opcode ?n = [] \<or> unchanged_instr ir ?ins g ?n")
    case True
    then show ?thesis using r by (auto simp: writeback_instr_def Let_def split: if_splits)
  next
    case False
    have ty: "ccw_ir_instr_type ir ?ins = n_type a" using a by (simp add: ccw_ir_instr_type_def ccw_ir_node_get_kind_def)
    obtain ir1 built where b: "ccw_ir_instr_build ir (Some (en_opcode ?n)) (n_type a) = (ir1, built)"
      by (cases "ccw_ir_instr_build ir (Some (en_opcode ?n)) (n_type a)")
    note s1 = staged_build [OF wf b]
    have "ccw_ir_node_get ir1 ?ins = Some a" using s1(1) get_next [OF a(1)] a(1) by (simp add: staged_def)
    then have dst: "ccw_ir_instr_dest ir1 ?ins = n_name a" using a(2) by (simp add: ccw_ir_instr_dest_def ccw_ir_node_get_kind_def)
    let ?ir2 = "case n_name a of None \<Rightarrow> ir1 | Some d \<Rightarrow> fst (ccw_ir_instr_set_dest ir1 built (Some d))"
    have s2: "staged ir ?ir2 built \<lparr>v_opcode = Some (en_opcode ?n), v_dest = n_name a, v_type = n_type a, v_operands = []\<rparr>"
    proof (cases "n_name a")
      case None
      with s1 show ?thesis by simp
    next
      case (Some d)
      obtain ir2 st where "ccw_ir_instr_set_dest ir1 built (Some d) = (ir2, st)" by (cases "ccw_ir_instr_set_dest ir1 built (Some d)")
      with staged_dest [OF s1(1) this] Some show ?thesis by simp
    qed
    obtain ir3 ok where o: "build_operands ?ir2 built (map ((!) (g_nodes g)) (en_children ?n)) = (ir3, ok)"
      by (cases "build_operands ?ir2 built (map ((!) (g_nodes g)) (en_children ?n))")
    let ?v = "\<lparr>v_opcode = Some (en_opcode ?n), v_dest = n_name a, v_type = n_type a,
        v_operands = map (\<lambda>c. enode_view (g_nodes g ! c)) (en_children ?n)\<rparr>"
    have s3: "staged ir ir3 built ?v" and ok: "ok" using staged_operands [OF s2 o] by (simp_all add: comp_def)
    obtain ir4 st where rp: "ccw_ir_instr_replace ir3 ?ins built = (ir4, st)" by (cases "ccw_ir_instr_replace ir3 ?ins built")
    have "ir' = ir4" using r False b s1(2) dst o ok rp ty by (simp add: writeback_instr_def Let_def)
    moreover have "exchanged ir b k ?v ir4" by (rule exchange [OF wf B k a(1) s3 _ rp]) simp
    moreover have "?v = written (block_view ir b ! k) g ?n"
      using a(1) k B by (simp add: written_def block_view_def children_of_def ccw_ir_node_get_kind_def iview_def)
    ultimately show ?thesis using False by simp
  qed
qed

end
