(* ===== verification/Oeuph_Preserve.thy ===== *)
theory Oeuph_Preserve
  imports Oeuph_Saturate Oeuph_Extract Oeuph_View
begin

text \<open>
  \<open>ccw_oeuph_run\<close> returns, and with valid rules it keeps the meaning of every instruction it may rewrite.
\<close>

section \<open>E-nodes made by rules name no register\<close>

definition no_new_regs :: "egraph \<Rightarrow> egraph \<Rightarrow> bool" where
  "no_new_regs g g' \<longleftrightarrow> (\<exists>ms. g_nodes g' = g_nodes g @ ms \<and> (\<forall>m \<in> set ms. en_reg m = []))"

lemma no_new_regs_same: "g_nodes g' = g_nodes g \<Longrightarrow> no_new_regs g g'"
  by (simp add: no_new_regs_def)

lemma no_new_regs_trans: "no_new_regs g g1 \<Longrightarrow> no_new_regs g1 g2 \<Longrightarrow> no_new_regs g g2"
  by (auto simp: no_new_regs_def)

lemma nodes_find: "g_nodes (fst (eg_find g c)) = g_nodes g"
  by (simp add: eg_find_def split: prod.splits)

lemma nodes_find': "eg_find g c = (g', r) \<Longrightarrow> g_nodes g' = g_nodes g"
  using nodes_find [of g c] by simp

lemma nodes_union: "g_nodes (fst (eg_union g a b)) = g_nodes g"
  by (simp add: eg_union_def Let_def split: prod.splits) (metis nodes_find')

lemma nodes_same_children: "g_nodes (fst (same_children g cs ds)) = g_nodes g"
  by (induction g cs ds rule: same_children.induct) (auto split: prod.splits dest!: nodes_find')

lemma nodes_find_same: "g_nodes (fst (find_same g n js)) = g_nodes g"
proof (induction g n js rule: find_same.induct)
  case (2 g n i js)
  show ?case
    using 2 nodes_same_children [of g "en_children (g_nodes g ! i)" "en_children n"]
    by (cases "same_children g (en_children (g_nodes g ! i)) (en_children n)") (auto split: bool.splits)
qed simp

lemma find_same_label:
  "find_same g n js = (g', Some i) \<Longrightarrow> same_label (g_nodes g ! i) n"
proof (induction g n js rule: find_same.induct)
  case (2 g n i' js)
  obtain g1 b where c: "same_children g (en_children (g_nodes g ! i')) (en_children n) = (g1, b)" by fastforce
  have "g_nodes g1 = g_nodes g" using nodes_same_children [of g "en_children (g_nodes g ! i')" "en_children n"] c by simp
  then show ?case using 2 c by (cases b) (auto split: if_splits)
qed simp

lemma no_new_regs_add:
  assumes "en_reg n = []" "eg_add_node g n = (g', i)"
  shows "no_new_regs g g'"
proof (cases "find_same g n [0..<g_count g]")
  case (Pair g1 r)
  then have "g_nodes g1 = g_nodes g" using nodes_find_same [of g n "[0..<g_count g]"] by simp
  moreover have "g' = (case r of None \<Rightarrow> append_node g1 n | Some i \<Rightarrow> g1)"
    using assms(2) Pair by (auto simp: eg_add_node_def split: option.splits)
  moreover have "g_nodes (append_node g1 n) = g_nodes g1 @ [n\<lparr>en_eclass := g_count g1\<rparr>]"
    by (simp add: append_node_def Let_def split: prod.splits)
  ultimately show ?thesis using assms(1) by (auto simp: no_new_regs_def split: option.splits)
qed

lemma nodes_match:
  "g_nodes (fst (match_node k pat g pidx nidx b)) = g_nodes g"
  "g_nodes (fst (match_args k pat g ps cs b)) = g_nodes g"
  "g_nodes (fst (match_any k pat g p want js b)) = g_nodes g"
proof (induction k pat g pidx nidx b and k pat g ps cs b and k pat g p want js b
    rule: match_node_match_args_match_any.induct)
  case (2 k pat g pidx nidx b)
  then show ?case
    by (auto simp: Let_def dest: nodes_find' split: ccw_pat_kind.splits prod.splits)
next
  case (3 k pat g p ps c cs b)
  obtain g1 want where f: "eg_find g c = (g1, want)" by fastforce
  obtain g2 b2 r where a: "match_any k pat g1 p want [0..<g_count g1] b = (g2, b2, r)" by (metis prod_cases3)
  show ?case
    using 3(1) [OF f [symmetric] refl] 3(2) [OF f [symmetric] refl a [symmetric] refl] f a nodes_find' [OF f]
    by (cases r) simp_all
next
  case (6 k pat g p want j js b)
  obtain g1 r where f: "eg_find g j = (g1, r)" by fastforce
  obtain g2 b2 s where a: "match_node k pat g1 p j b = (g2, b2, s)" by (metis prod_cases3)
  show ?case
  proof (cases "r = want")
    case True
    then show ?thesis
      using 6(2) [OF f [symmetric] refl] 6(3) [OF f [symmetric] refl _ a [symmetric] refl] f a nodes_find' [OF f]
      by (cases s) simp_all
  next
    case False
    then show ?thesis using 6(1) [OF f [symmetric] refl] f nodes_find' [OF f] by simp
  qed
qed simp_all

lemma nodes_find_member: "g_nodes (fst (find_member g c js)) = g_nodes g"
  by (induction g c js rule: find_member.induct) (auto split: prod.splits dest: nodes_find')

lemma no_new_regs_instantiate:
  "no_new_regs g (fst (instantiate k pat b g pidx))"
  "no_new_regs g (fst (instantiate_args k pat b g ps cs))"
proof (induction k pat b g pidx and k pat b g ps cs rule: instantiate_instantiate_args.induct)
  case (1 pat b g pidx)
  then show ?case by (simp add: no_new_regs_same)
next
  case (2 k pat b g pidx)
  have add: "no_new_regs h (fst (eg_add_node h n))" if "en_reg n = []" for h n
    using no_new_regs_add [OF that] by (cases "eg_add_node h n") simp
  show ?case
  proof (cases "p_kind (p_nodes pat ! pidx)")
    case CCW_PAT_VAR
    then show ?thesis using nodes_find_member
      by (auto simp: Let_def no_new_regs_same split: option.splits)
  next
    case CCW_PAT_CONST
    then show ?thesis using add [of "no_enode\<lparr>en_is_const := True, en_value := p_value (p_nodes pat ! pidx)\<rparr>" g]
      by (simp add: Let_def no_enode_def case_prod_beta)
  next
    case CCW_PAT_CONST_VAR
    then show ?thesis using add [of "no_enode\<lparr>en_is_const := True, en_value := v\<rparr>" g for v]
      by (auto simp: Let_def no_enode_def no_new_regs_same case_prod_beta split: option.splits)
  next
    case CCW_PAT_OP
    obtain g1 rs where a: "instantiate_args k pat b g (p_children (p_nodes pat ! pidx)) [] = (g1, rs)" by fastforce
    have g1: "no_new_regs g g1" using 2(1) [OF refl CCW_PAT_OP] a by simp
    show ?thesis
    proof (cases rs)
      case None
      then show ?thesis using CCW_PAT_OP a g1 by (simp add: Let_def)
    next
      case (Some cs)
      have "no_new_regs g1 (fst (eg_add_node g1 (no_enode\<lparr>en_opcode := text32 (p_text (p_nodes pat ! pidx)), en_children := cs\<rparr>)))"
        by (rule add) (simp add: no_enode_def)
      with g1 show ?thesis using CCW_PAT_OP a Some no_new_regs_trans by (simp add: Let_def case_prod_beta)
    qed
  qed
next
  case (3 k pat b g cs)
  then show ?case by (simp add: no_new_regs_same)
next
  case (4 k pat b g p ps cs)
  obtain g1 r where a: "instantiate k pat b g p = (g1, r)" by fastforce
  show ?case
  proof (cases r)
    case None
    then show ?thesis using 4(1) a by simp
  next
    case (Some c)
    then show ?thesis using 4(1) 4(2) [OF a [symmetric] Some] a no_new_regs_trans by simp
  qed
qed

lemma no_new_regs_try: "no_new_regs (fst s) (fst (try_rule side from to ni s))"
proof -
  obtain g st gr where s: "s = (g, st, gr)" by (cases s)
  obtain g1 b ok where m: "match_node pattern_depth from g (p_root from) ni [] = (g1, b, ok)" by (metis prod_cases3)
  have 1: "no_new_regs g g1" using nodes_match(1) [of pattern_depth "from" g "p_root from" ni "[]"] m by (simp add: no_new_regs_same)
  obtain g2 made where i: "instantiate pattern_depth to b g1 (p_root to) = (g2, made)" by fastforce
  have 2: "no_new_regs g g2"
    using no_new_regs_trans [OF 1] no_new_regs_instantiate(1) [of g1 pattern_depth to b "p_root to"] i by simp
  show ?thesis
  proof (cases "ok \<and> side_ok side b")
    case False
    then show ?thesis using s m 1 by (cases ok) (simp_all add: try_rule_def Let_def)
  next
    case True
    show ?thesis
    proof (cases made)
      case None
      then show ?thesis using s m i True 2 by (simp add: try_rule_def Let_def)
    next
      case (Some k)
      obtain g3 u where u: "eg_union g2 ni k = (g3, u)" by fastforce
      then have "no_new_regs g g3" using no_new_regs_trans [OF 2] nodes_union [of g2 ni k] by (simp add: no_new_regs_same)
      then show ?thesis using s m i True Some u by (cases u) (simp_all add: try_rule_def Let_def)
    qed
  qed
qed

lemma no_new_regs_fold:
  assumes "\<And>x s. no_new_regs (fst s) (fst (f x s))"
  shows "no_new_regs (fst s) (fst (fold f xs s))"
proof (induction xs arbitrary: s)
  case (Cons x xs)
  then show ?case using assms [of s x] no_new_regs_trans by fastforce
qed (simp add: no_new_regs_same)

lemma no_new_regs_rule: "no_new_regs (fst s) (fst (apply_rule r s))"
proof -
  have d: "no_new_regs (fst s) (fst (apply_direction side from to s))" for side "from" to s
    unfolding apply_direction_def by (rule no_new_regs_fold [OF no_new_regs_try])
  show ?thesis using d [of s] no_new_regs_trans [OF d d] by (simp add: apply_rule_def Let_def)
qed

text \<open>Saturation with valid rules, in one statement.\<close>

lemma saturate_spec:
  assumes s: "sound_eg F C \<rho> g" and v: "\<forall>r \<in> set rules. valid_rule F C r" and r: "saturate k late budget rules g st = (g', st')"
  shows "sound_ext F C \<rho> g g' \<and> no_new_regs g g'"
proof
  show "sound_ext F C \<rho> g g'" by (rule saturate_sound [OF s v r])
  show "no_new_regs g g'"
    using s r
  proof (induction k arbitrary: g st)
    case (Suc k)
    obtain g1 st1 gr where f: "fold apply_rule rules (g, st\<lparr>s_iterations := s_iterations st + 1\<rparr>, False) = (g1, st1, gr)"
      by (metis prod_cases3)
    have "no_new_regs (fst (g, st\<lparr>s_iterations := s_iterations st + 1\<rparr>, False))
        (fst (fold apply_rule rules (g, st\<lparr>s_iterations := s_iterations st + 1\<rparr>, False)))"
      by (rule no_new_regs_fold [OF no_new_regs_rule])
    then have 1: "no_new_regs g g1" unfolding f by simp
    obtain g3 n where c: "eg_class_count (eg_rebuild g1) = (g3, n)" by fastforce
    have "sound_ext F C \<rho> (fst (g, st\<lparr>s_iterations := s_iterations st + 1\<rparr>, False))
        (fst (fold apply_rule rules (g, st\<lparr>s_iterations := s_iterations st + 1\<rparr>, False)))"
      using Suc.prems(1) v by (intro fold_sound_ext [where base = empty_egraph] apply_rule_sound)
        (auto simp: empty_egraph_def g_count_def)
    then have s1: "sound_eg F C \<rho> g1" unfolding f by (simp add: sound_ext_def)
    then have wf1: "wf_eg g1" by (simp add: sound_eg_def)
    note e = eg_rebuild_spec [OF wf1] and cc = eg_class_count_spec [OF _ c]
    have s3: "sound_eg F C \<rho> g3" by (rule sound_halved [OF sound_rebuild [OF s1] cc(1-3)]) (rule e)+
    have 2: "no_new_regs g (eg_rebuild g1)" using no_new_regs_trans [OF 1] e(2) by (simp add: no_new_regs_same)
    have 3: "no_new_regs g g3" using no_new_regs_trans [OF 2] cc(3) [OF e(1)] by (simp add: no_new_regs_same)
    consider "g' = eg_rebuild g1" | "g' = g3" | st2 where "saturate k late budget rules g3 st2 = (g', st')"
      using Suc.prems(2) f c by (auto simp: Let_def split: if_splits)
    then show ?case
    proof cases
      case 3
      from Suc.IH [OF s3 this] \<open>no_new_regs g g3\<close> show ?thesis by (rule no_new_regs_trans [rotated])
    qed (use 2 3 in simp_all)
  qed (simp add: no_new_regs_same)
qed

section \<open>Meaning\<close>

fun operand_value :: "(64 word \<Rightarrow> 'v) \<Rightarrow> (string \<Rightarrow> 'v) \<Rightarrow> operand_view \<Rightarrow> 'v" where
  "operand_value C \<rho> (SInt v) = C v"
| "operand_value C \<rho> (SReg s) = \<rho> s"
| "operand_value C \<rho> SOther = \<rho> []"

definition view_value :: "(string \<Rightarrow> 'v list \<Rightarrow> 'v) \<Rightarrow> (64 word \<Rightarrow> 'v) \<Rightarrow> (string \<Rightarrow> 'v) \<Rightarrow> instr_view \<Rightarrow> 'v" where
  "view_value F C \<rho> v =
     F (case v_opcode v of Some f \<Rightarrow> f | None \<Rightarrow> []) (map (operand_value C \<rho>) (v_operands v))"

text \<open>The instructions whose meaning the e-graph can represent: short names, registers and integers.\<close>

fun plain_operand :: "operand_view \<Rightarrow> bool" where
  "plain_operand (SInt v) = True"
| "plain_operand (SReg s) = (length s \<le> 31)"
| "plain_operand SOther = False"

definition plain_view :: "instr_view \<Rightarrow> bool" where
  "plain_view v \<longleftrightarrow> (case v_opcode v of Some f \<Rightarrow> f \<noteq> [] \<and> length f \<le> 31 | None \<Rightarrow> False)
     \<and> list_all plain_operand (v_operands v)"

text \<open>
  A rewritten instruction keeps destination and type, and its value in every register environment; the
  exception is one that names the register with the empty name, which \<open>writeback_instr\<close> produces for a
  nested operation.
\<close>

definition keeps_meaning :: "(string \<Rightarrow> 'v list \<Rightarrow> 'v) \<Rightarrow> (64 word \<Rightarrow> 'v) \<Rightarrow> instr_view \<Rightarrow> instr_view \<Rightarrow> bool" where
  "keeps_meaning F C v v' \<longleftrightarrow> v_dest v' = v_dest v \<and> v_type v' = v_type v
     \<and> (plain_view v \<longrightarrow> SReg [] \<in> set (v_operands v') \<or> (\<forall>\<rho>. view_value F C \<rho> v' = view_value F C \<rho> v))"

lemma keeps_meaning_refl: "keeps_meaning F C v v"
  by (simp add: keeps_meaning_def)

section \<open>Import\<close>

definition regs_leaf :: "egraph \<Rightarrow> bool" where
  "regs_leaf g \<longleftrightarrow> (\<forall>n \<in> set (g_nodes g). en_reg n \<noteq> [] \<longrightarrow> en_opcode n = [] \<and> en_children n = [] \<and> \<not> en_is_const n)"

lemma regs_leaf_ext: "regs_leaf g \<Longrightarrow> no_new_regs g g' \<Longrightarrow> regs_leaf g'"
  by (auto simp: regs_leaf_def no_new_regs_def)

lemma regs_leaf_add:
  assumes "regs_leaf g" "en_reg n \<noteq> [] \<longrightarrow> en_opcode n = [] \<and> en_children n = [] \<and> \<not> en_is_const n" "eg_add_node g n = (g', i)"
  shows "regs_leaf g'"
proof (cases "find_same g n [0..<g_count g]")
  case (Pair g1 r)
  then have "g_nodes g1 = g_nodes g" using nodes_find_same [of g n "[0..<g_count g]"] by simp
  moreover have "g' = (case r of None \<Rightarrow> append_node g1 n | Some i \<Rightarrow> g1)"
    using assms(3) Pair by (auto simp: eg_add_node_def split: option.splits)
  moreover have "g_nodes (append_node g1 n) = g_nodes g1 @ [n\<lparr>en_eclass := g_count g1\<rparr>]"
    by (simp add: append_node_def Let_def split: prod.splits)
  ultimately show ?thesis using assms(1,2) by (auto simp: regs_leaf_def split: option.splits)
qed

lemma sound_empty: "sound_eg F C \<rho> empty_egraph"
  using wf_empty by (simp add: sound_eg_def within_def g_count_def empty_egraph_def)

lemma import_operand_spec:
  assumes s: "sound_eg F C \<rho> g" and l: "regs_leaf g" and r: "import_operand g ir x = (g', i)"
  shows "sound_eg F C \<rho> g' \<and> grown g g' \<and> regs_leaf g' \<and> i < g_count g'
    \<and> (plain_operand (oview (ccw_ir_node_get ir) x) \<longrightarrow>
        nval F C \<rho> (g_nodes g') i = operand_value C \<rho> (oview (ccw_ir_node_get ir) x))"
proof -
  define n where "n = (case ccw_ir_const_int_value ir x of
      Inr v \<Rightarrow> no_enode\<lparr>en_is_const := True, en_value := v\<rparr>
    | Inl e \<Rightarrow> no_enode\<lparr>en_reg := text32 (case ccw_ir_operand_name ir x of Some s \<Rightarrow> s | None \<Rightarrow> [])\<rparr>)"
  have a: "eg_add_node g n = (g', i)" using r by (simp add: import_operand_def n_def split: sum.splits)
  have c: "\<forall>c \<in> set (en_children n). c < g_count g" by (simp add: n_def no_enode_def split: sum.splits)
  have "en_reg n \<noteq> [] \<longrightarrow> en_opcode n = [] \<and> en_children n = [] \<and> \<not> en_is_const n"
    by (simp add: n_def no_enode_def split: sum.splits)
  from regs_leaf_add [OF l this a] add_node_sound [OF s c a]
  have "sound_eg F C \<rho> g' \<and> grown g g' \<and> regs_leaf g' \<and> i < g_count g'"
    "nval F C \<rho> (g_nodes g') i = eval_node F C \<rho> (nval F C \<rho> (g_nodes g)) n" by simp_all
  moreover have "eval_node F C \<rho> v n = operand_value C \<rho> (oview (ccw_ir_node_get ir) x)"
    if "plain_operand (oview (ccw_ir_node_get ir) x)" for v
    using that
    by (auto simp: n_def eval_node_def no_enode_def oview_def operand_view_of_def ccw_ir_const_int_value_def
        ccw_ir_operand_name_def ccw_ir_node_get_kind_def text32_def split: option.splits if_splits)
  ultimately show ?thesis by simp
qed

lemma import_operands_spec:
  assumes "sound_eg F C \<rho> g" "regs_leaf g" "import_operands g ir xs = (g', cs)"
  shows "sound_eg F C \<rho> g' \<and> grown g g' \<and> regs_leaf g' \<and> (\<forall>c \<in> set cs. c < g_count g')
    \<and> (list_all plain_operand (map (oview (ccw_ir_node_get ir)) xs) \<longrightarrow>
        map (nval F C \<rho> (g_nodes g')) cs = map (operand_value C \<rho> \<circ> oview (ccw_ir_node_get ir)) xs)"
  using assms
proof (induction xs arbitrary: g g' cs)
  case Nil
  then show ?case by (simp add: grown_refl sound_eg_def)
next
  case (Cons x xs)
  obtain g1 i where o: "import_operand g ir x = (g1, i)" by fastforce
  obtain cs' where r: "import_operands g1 ir xs = (g', cs')" "cs = i # cs'"
    using Cons.prems(3) o by (auto split: prod.splits)
  note A = import_operand_spec [OF Cons.prems(1,2) o]
  have B: "sound_eg F C \<rho> g' \<and> grown g1 g' \<and> regs_leaf g' \<and> (\<forall>c \<in> set cs'. c < g_count g')
    \<and> (list_all plain_operand (map (oview (ccw_ir_node_get ir)) xs) \<longrightarrow>
        map (nval F C \<rho> (g_nodes g')) cs' = map (operand_value C \<rho> \<circ> oview (ccw_ir_node_get ir)) xs)"
    using A by (intro Cons.IH [OF _ _ r(1)]) simp_all
  have gr1: "grown g1 g'" and i1: "i < g_count g1" using A B by simp_all
  have "i < g_count g'" using grown_count [OF gr1] i1 by simp
  moreover have "nval F C \<rho> (g_nodes g') i = nval F C \<rho> (g_nodes g1) i" by (rule grown_nval [OF gr1 i1])
  moreover have "grown g g'" using A gr1 grown_trans by blast
  ultimately show ?case using A B r(2) by simp
qed

lemma import_instr_spec:
  assumes i: "ccw_ir_node_get ir ins = Some a" "n_kind a = CCW_NODE_INSTR" and r: "import_instr empty_egraph ir ins = (g, Some rt)"
  shows "sound_eg F C \<rho> g \<and> regs_leaf g \<and> rt < g_count g
    \<and> (plain_view (iview (ccw_ir_node_get ir) ins) \<longrightarrow>
        nval F C \<rho> (g_nodes g) rt = view_value F C \<rho> (iview (ccw_ir_node_get ir) ins))"
proof -
  let ?v = "iview (ccw_ir_node_get ir) ins"
  have op: "ccw_ir_instr_opcode ir ins = n_opcode a" "children_of ir ins CCW_NODE_INSTR = n_children a"
    using i by (simp_all add: ccw_ir_instr_opcode_def children_of_def ccw_ir_node_get_kind_def)
  have xs: "map (\<lambda>i. ccw_ir_instr_operand ir ins (int i)) [0..<length (n_children a)] = n_children a"
    by (rule nth_equalityI) (simp_all add: ccw_ir_instr_operand_def vec_ref_def op)
  let ?op = "text32 (case n_opcode a of Some s \<Rightarrow> s | None \<Rightarrow> ''nop'')"
  obtain g1 cs where o: "import_operands empty_egraph ir (n_children a) = (g1, cs)" by fastforce
  let ?n = "no_enode\<lparr>en_opcode := ?op, en_children := cs\<rparr>"
  have ad: "eg_add_node g1 ?n = (g, rt)"
    using r o xs by (auto simp: import_instr_def Let_def ccw_ir_instr_operand_count_def op split: if_splits prod.splits)
  have "regs_leaf empty_egraph" by (simp add: regs_leaf_def empty_egraph_def)
  note A = import_operands_spec [OF sound_empty this o, of F C \<rho>]
  have s1: "sound_eg F C \<rho> g1" and "regs_leaf g1" using A by simp_all
  have c: "\<forall>c \<in> set (en_children ?n). c < g_count g1" using A by simp
  note B = add_node_sound [OF s1 c ad]
  have "regs_leaf g" by (rule regs_leaf_add [OF \<open>regs_leaf g1\<close> _ ad]) (simp add: no_enode_def)
  moreover have "eval_node F C \<rho> (nval F C \<rho> (g_nodes g1)) ?n = view_value F C \<rho> ?v" if p: "plain_view ?v"
  proof -
    obtain f where f: "n_opcode a = Some f" "f \<noteq> []" "length f \<le> 31"
      using p i by (auto simp: plain_view_def iview_def split: option.splits)
    have "map (nval F C \<rho> (g_nodes g1)) cs = map (operand_value C \<rho> \<circ> oview (ccw_ir_node_get ir)) (n_children a)"
      using A p i by (simp add: plain_view_def iview_def)
    with f i show ?thesis by (simp add: eval_node_def no_enode_def view_value_def iview_def text32_def)
  qed
  ultimately show ?thesis using B by simp
qed

end
