(* ===== verification/Oeuph_Rooms.thy ===== *)
theory Oeuph_Rooms
  imports Oeuph_Run
begin

text \<open>
  What the rewriter does to an e-graph, it does through three operations: \<open>eg_find\<close>, \<open>eg_union\<close> and
  \<open>eg_add_node\<close>. The locale \<open>egraph_property\<close> carries a property that these three keep through hash-consing,
  the rebuild, matching, instantiation, import and saturation. It is interpreted on the state of the two
  allocations, whose exact sizes follow for every graph the rewriter builds.
\<close>

section \<open>Properties of e-graphs\<close>

locale egraph_property =
  fixes P :: "egraph \<Rightarrow> bool"
  assumes P_find: "P g \<Longrightarrow> P (fst (eg_find g c))"
    and P_union: "P g \<Longrightarrow> P (fst (eg_union g a b))"
    and P_append: "P g \<Longrightarrow> P (append_node g n)"
begin

lemma find_eq: "eg_find g c = (g', r) \<Longrightarrow> P g \<Longrightarrow> P g'"
  using P_find [of g c] by simp

lemma union_eq: "eg_union g a b = (g', r) \<Longrightarrow> P g \<Longrightarrow> P g'"
  using P_union [of g a b] by simp

lemma same_children_P: "same_children g cs ds = (g', r) \<Longrightarrow> P g \<Longrightarrow> P g'"
  by (induction g cs ds rule: same_children.induct) (auto split: prod.splits if_splits dest!: find_eq)

lemma find_same_P: "find_same g n is = (g', r) \<Longrightarrow> P g \<Longrightarrow> P g'"
  by (induction g n "is" rule: find_same.induct)
    (auto split: prod.splits if_splits bool.splits dest!: same_children_P)

lemma add_node_P: "eg_add_node g n = (g', i) \<Longrightarrow> P g \<Longrightarrow> P g'"
  by (auto simp: eg_add_node_def split: prod.splits option.splits dest!: find_same_P intro: P_append)

lemma class_count_P: "class_count_loop g is = (g', k) \<Longrightarrow> P g \<Longrightarrow> P g'"
  by (induction g "is" arbitrary: g' k rule: class_count_loop.induct) (auto split: prod.splits dest!: find_eq)

lemma rebuild_pair_P: "rebuild_pair g i j = (g', r) \<Longrightarrow> P g \<Longrightarrow> P g'"
  by (auto simp: rebuild_pair_def split: prod.splits bool.splits if_splits dest!: same_children_P union_eq)

lemma rebuild_pass_P: "rebuild_pass g ch ps = (g', r) \<Longrightarrow> P g \<Longrightarrow> P g'"
  by (induction g ch ps rule: rebuild_pass.induct) (auto split: prod.splits dest!: rebuild_pair_P)

lemma rebuild_loop_P: "P g \<Longrightarrow> P (rebuild_loop k g)"
proof (induction k arbitrary: g)
  case (Suc k)
  obtain g1 c where r: "rebuild_pass g False (index_pairs (g_count g)) = (g1, c)" by fastforce
  then show ?case using Suc rebuild_pass_P by (cases c) auto
qed simp

lemma match_P:
  "match_node k pat g pidx nidx b = (g', r) \<Longrightarrow> P g \<Longrightarrow> P g'"
  "match_args k pat g ps cs b = (g', r) \<Longrightarrow> P g \<Longrightarrow> P g'"
  "match_any k pat g p want js b = (g', r) \<Longrightarrow> P g \<Longrightarrow> P g'"
proof (induction k pat g pidx nidx b and k pat g ps cs b and k pat g p want js b arbitrary: g' r and g' r and g' r
    rule: match_node_match_args_match_any.induct)
  case (2 k pat g pidx nidx b)
  show ?case
  proof (cases "p_kind (p_nodes pat ! pidx)")
    case CCW_PAT_VAR
    with 2(2,3) show ?thesis by (auto simp: Let_def split: prod.splits dest!: find_eq)
  next
    case CCW_PAT_OP
    with 2(1) [OF refl refl this] 2(2,3) show ?thesis by (auto simp: Let_def split: if_splits)
  qed (use 2(2,3) in \<open>auto simp: Let_def split: prod.splits if_splits\<close>)
next
  case (3 k pat g p ps c cs b)
  obtain g1 want where f: "eg_find g c = (g1, want)" by fastforce
  obtain g2 b2 ok where m: "match_any k pat g1 p want [0..<g_count g1] b = (g2, b2, ok)" by (rule prod_cases3)
  have "P g2" using 3(1) [OF f [symmetric] refl m] find_eq [OF f 3(4)] by blast
  then show ?case using 3(3) 3(2) [OF f [symmetric] refl m [symmetric] refl] by (cases ok) (simp_all add: f m)
next
  case (6 k pat g p want j js b)
  obtain g1 rep where f: "eg_find g j = (g1, rep)" by fastforce
  have p1: "P g1" by (rule find_eq [OF f 6(5)])
  obtain g2 b2 ok where m: "match_node k pat g1 p j b = (g2, b2, ok)" by (rule prod_cases3)
  show ?case
  proof (cases "rep = want")
    case True
    then have "P g2" using 6(2) [OF f [symmetric] refl _ m] p1 by blast
    then show ?thesis using 6(3) [OF f [symmetric] refl _ m [symmetric] refl] 6(4) True
      by (cases ok) (simp_all add: f m)
  next
    case False
    then show ?thesis using 6(1) [OF f [symmetric] refl] 6(4) p1 by (simp add: f)
  qed
qed auto

lemma find_member_P: "find_member g c is = (g', r) \<Longrightarrow> P g \<Longrightarrow> P g'"
  by (induction g c "is" rule: find_member.induct) (auto split: prod.splits if_splits dest!: find_eq)

lemma instantiate_P:
  "instantiate k pat b g pidx = (g', r) \<Longrightarrow> P g \<Longrightarrow> P g'"
  "instantiate_args k pat b g ps cs = (g', rs) \<Longrightarrow> P g \<Longrightarrow> P g'"
proof (induction k pat b g pidx and k pat b g ps cs arbitrary: g' r and g' rs
    rule: instantiate_instantiate_args.induct)
  case (2 k pat b g pidx)
  then show ?case
    by (auto simp: Let_def split: ccw_pat_kind.splits prod.splits if_splits option.splits
        dest!: find_member_P add_node_P)
next
  case (4 k pat b g p ps cs)
  then show ?case by (auto split: prod.splits option.splits)
qed auto

lemma import_operand_P: "import_operand g ir x = (g', i) \<Longrightarrow> P g \<Longrightarrow> P g'"
  by (auto simp: import_operand_def split: sum.splits dest!: add_node_P)

lemma import_operands_P: "import_operands g ir xs = (g', cs) \<Longrightarrow> P g \<Longrightarrow> P g'"
  by (induction g ir xs arbitrary: g' cs rule: import_operands.induct)
    (auto split: prod.splits dest!: import_operand_P)

lemma import_instr_P: "import_instr g ir ins = (g', i) \<Longrightarrow> P g \<Longrightarrow> P g'"
  by (auto simp: import_instr_def Let_def split: prod.splits if_splits dest!: import_operands_P add_node_P)

lemma try_rule_P: "P (fst s) \<Longrightarrow> P (fst (try_rule side from to ni s))"
  by (cases s) (auto simp: try_rule_def Let_def split: prod.splits bool.splits option.splits
      dest!: match_P(1) instantiate_P(1) union_eq)

lemma fold_P: "(\<And>x s. P (fst s) \<Longrightarrow> P (fst (f x s))) \<Longrightarrow> P (fst s) \<Longrightarrow> P (fst (fold f xs s))"
  by (induction xs arbitrary: s) auto

lemma apply_rule_P: "P (fst s) \<Longrightarrow> P (fst (apply_rule r s))"
  by (auto simp: apply_rule_def apply_direction_def Let_def intro!: fold_P try_rule_P)

lemma saturate_P: "saturate k late budget rules g st = (g', st') \<Longrightarrow> P g \<Longrightarrow> P g'"
proof (induction k late budget rules g st rule: saturate.induct)
  case (2 k late budget rules g st)
  obtain g1 st1 grew where f: "fold apply_rule rules (g, st\<lparr>s_iterations := s_iterations st + 1\<rparr>, False) = (g1, st1, grew)"
    by (rule prod_cases3)
  have "P g1" using fold_P [of apply_rule "(g, st\<lparr>s_iterations := s_iterations st + 1\<rparr>, False)" rules] apply_rule_P 2(3) f
    by simp
  then have p2: "P (eg_rebuild g1)" unfolding eg_rebuild_def by (rule rebuild_loop_P)
  obtain g3 n where c: "eg_class_count (eg_rebuild g1) = (g3, n)" by fastforce
  then have p3: "P g3" using p2 class_count_P by (auto simp: eg_class_count_def)
  note step = 2(2) [unfolded saturate.simps f prod.case Let_def c]
  show ?case
    using step p2 p3 2(1) [OF f [symmetric] refl refl _ refl c [symmetric]]
    by (simp split: if_splits)
qed simp

end

section \<open>The allocations\<close>

text \<open>
  The capacity is shared: the call for the nodes has set it when the call for the parents looks at it.
  So the first e-node gives the nodes 64 places and the parents 128, the 129th gives the nodes more, and
  the parents never get more.
\<close>

definition rooms :: "egraph \<Rightarrow> bool" where
  "rooms g \<longleftrightarrow>
     (if g_count g = 0 then g_cap g = 0 \<and> g_nodes_room g = 0 \<and> g_parent_room g = 0
      else if g_count g \<le> 128 then g_cap g = 128 \<and> g_nodes_room g = 64 \<and> g_parent_room g = 128
      else g_count g \<le> g_cap g \<and> g_nodes_room g = g_cap g \<and> g_parent_room g = 128)"

lemma rooms_in: "rooms g \<Longrightarrow> in_rooms g \<longleftrightarrow> g_count g \<le> 64"
  by (auto simp: rooms_def in_rooms_def split: if_splits)

lemma grow_enough: "needed \<le> n \<Longrightarrow> grow n needed = n"
  by (subst grow.simps) simp

lemma rooms_append:
  assumes "rooms g"
  shows "rooms (append_node g n)"
proof -
  have c: "g_count (append_node g n) = Suc (g_count g)" by (simp add: append_node_def g_count_def split: prod.split)
  consider "g_count g = 0" | "0 < g_count g" "g_count g < 128" | "g_count g = 128"
    | "128 < g_count g" "g_count g < g_cap g" | "128 < g_count g" "g_count g = g_cap g"
    using assms by (fastforce simp: rooms_def le_less)
  then show ?thesis
    using assms unfolding rooms_def c
    by cases (simp_all add: append_node_def reserve_items_def grow_enough Let_def)
qed

lemma g_count_parent: "g_count (g\<lparr>g_parent := p\<rparr>) = g_count g"
  by (simp add: g_count_def)

lemma rooms_parent: "rooms (g\<lparr>g_parent := p\<rparr>) \<longleftrightarrow> rooms g"
  by (simp add: rooms_def g_count_parent)

lemma rooms_find: "rooms g \<Longrightarrow> rooms (fst (eg_find g c))"
  by (simp add: eg_find_def rooms_parent split: prod.split)

lemma rooms_union: "rooms g \<Longrightarrow> rooms (fst (eg_union g a b))"
  using rooms_find [of g a] rooms_find [of "fst (eg_find g a)" b]
  by (auto simp: eg_union_def Let_def rooms_parent split: prod.splits)

interpretation rooms: egraph_property rooms
  by unfold_locales (rule rooms_find rooms_union rooms_append; assumption)+

lemma rooms_empty: "rooms empty_egraph"
  by (simp add: rooms_def empty_egraph_def g_count_def)

end
