(* ===== verification/Oeuph_Meaning.thy ===== *)
theory Oeuph_Meaning
  imports Oeuph_Preserve Oeuph_Rooms
begin

text \<open>
  The run as a whole: as long as its e-graphs and costs stay within their bounds, it keeps the module well formed and
  its blocks in place, and exchanges instructions only for instructions of the same meaning.
\<close>

section \<open>One instruction\<close>

text \<open>The value of a written-back e-node, unless one of its operands is a nested operation.\<close>

lemma written_value:
  assumes s: "sound_eg F C \<rho> g" and l: "regs_leaf g" and j: "j < g_count g"
    and n: "\<not> en_is_const (g_nodes g ! j)" "en_opcode (g_nodes g ! j) \<noteq> []"
    and nd: "SReg [] \<notin> set (v_operands (written v g (g_nodes g ! j)))"
  shows "view_value F C \<rho> (written v g (g_nodes g ! j)) = nval F C \<rho> (g_nodes g) j"
proof -
  let ?n = "g_nodes g ! j"
  have wf: "wf_eg g" using s by (simp add: sound_eg_def)
  have "operand_value C \<rho> (enode_view (g_nodes g ! c)) = nval F C \<rho> (g_nodes g) c" if c: "c \<in> set (en_children ?n)" for c
  proof -
    have cl: "c < g_count g" using wf_child [OF wf j c] by simp
    then have mem: "g_nodes g ! c \<in> set (g_nodes g)" by (simp add: g_count_def)
    have "enode_view (g_nodes g ! c) \<noteq> SReg []"
      using nd imageI [OF c, of "\<lambda>c. enode_view (g_nodes g ! c)"] by (simp add: written_def) metis
    then have "en_is_const (g_nodes g ! c) \<or> (en_opcode (g_nodes g ! c) = [] \<and> en_children (g_nodes g ! c) = [])"
      using l mem by (auto simp: enode_view_def regs_leaf_def split: if_splits)
    then show ?thesis using nval_node [OF wf cl, of F C \<rho>] by (auto simp: enode_view_def eval_node_def)
  qed
  then have "map (operand_value C \<rho>) (v_operands (written v g ?n)) = map (nval F C \<rho> (g_nodes g)) (en_children ?n)"
    by (simp add: written_def)
  then have "view_value F C \<rho> (written v g ?n) = F (en_opcode ?n) (map (nval F C \<rho> (g_nodes g)) (en_children ?n))"
    by (simp only: view_value_def) (simp add: written_def)
  then show ?thesis using nval_node [OF wf j, of F C \<rho>] n by (simp add: eval_node_def)
qed

text \<open>Saturation of an instruction leaves the blocks of the e-graph, or one of its terms costs more than an \<open>int\<close> holds.\<close>

definition escapes ::
  "(double \<Rightarrow> nat \<Rightarrow> bool) \<Rightarrow> ccw_oeuph_budget \<Rightarrow> ccw_cost_model \<Rightarrow> ccw_rule list \<Rightarrow> ccw_ir \<Rightarrow> ccw_node \<Rightarrow> bool" where
  "escapes late budget model rules ir ins \<longleftrightarrow>
     (\<exists>g0 root st g st'. import_instr empty_egraph ir ins = (g0, Some root)
        \<and> saturate (nat (max_iterations budget)) late budget rules (fst (eg_find g0 root)) st = (g, st')
        \<and> (64 < g_count g \<or> (\<exists>i < g_count g. INT32_MAX < tree_cost g model i)))"

lemma rewrite_instr_spec:
  assumes wf: "wf_ir ir" and B: "ccw_ir_node_get ir b = Some B" "n_kind B = CCW_NODE_BLOCK" and k: "k < length (n_children B)"
    and v: "\<forall>r \<in> set rules. valid_rule F C r"
  shows "case rewrite_instr late budget model rules (n_children B ! k) (ir, st) of
      None \<Rightarrow> escapes late budget model rules ir (n_children B ! k)
    | Some (ir', st') \<Rightarrow> \<exists>v'. exchanged ir b k v' ir' \<and> keeps_meaning F C (block_view ir b ! k) v'"
proof -
  let ?ins = "n_children B ! k" and ?v = "block_view ir b ! k"
  have len: "k < length (block_view ir b)" and vk: "?v = iview (ccw_ir_node_get ir) ?ins"
    using B k by (simp_all add: block_view_def children_of_def ccw_ir_node_get_kind_def)
  have keep: "exchanged ir b k ?v ir \<and> keeps_meaning F C ?v ?v"
    using exchanged_refl [OF wf len] keeps_meaning_refl by blast
  have "?ins \<in> set (n_children B)" using k by simp
  then obtain a where a: "ccw_ir_node_get ir ?ins = Some a" "n_kind a = CCW_NODE_INSTR"
    using block_instr [OF wf B] by blast
  obtain g rt where i: "import_instr empty_egraph ir ?ins = (g, rt)" by fastforce
  show ?thesis
  proof (cases rt)
    case None
    with i keep show ?thesis by (auto simp: rewrite_instr_def)
  next
    case (Some r0)
    note imp = import_instr_spec [OF a, of g r0]
    have I: "sound_eg F C \<rho> g \<and> regs_leaf g \<and> r0 < g_count g
      \<and> (plain_view ?v \<longrightarrow> nval F C \<rho> (g_nodes g) r0 = view_value F C \<rho> ?v)" for \<rho>
      using imp [of F C \<rho>] i Some vk by simp
    have wg: "wf_eg g" and r0: "r0 < g_count g" using I by (simp_all add: sound_eg_def)
    obtain g1 rc where f: "eg_find g r0 = (g1, rc)" by fastforce
    note e1 = eg_find_E [OF wg r0 f]
    have s1: "sound_eg F C \<rho> g1" for \<rho> using I e1 by (intro sound_halved [of F C \<rho> g g1]) simp_all
    obtain g2 st1 where sat: "saturate (nat (max_iterations budget)) late budget rules g1 st = (g2, st1)" by fastforce
    note S = saturate_spec [OF s1 v sat]
    have wf2: "wf_eg g2" using S by (simp add: sound_ext_def sound_eg_def)
    have rm: "in_rooms g2 \<longleftrightarrow> g_count g2 \<le> 64"
      using rooms.saturate_P [OF sat] rooms.find_eq [OF f] rooms.import_instr_P [OF i rooms_empty] by (intro rooms_in) blast
    have esc: "escapes late budget model rules ir ?ins"
      if "64 < g_count g2 \<or> (\<exists>i < g_count g2. INT32_MAX < tree_cost g2 model i)"
      using i Some f sat that unfolding escapes_def by fastforce
    note EX = extract_ends [OF wf2, of model]
    show ?thesis
    proof (cases "in_rooms g2 \<and> extract_best g2 model \<noteq> None")
      case False
      then have "rewrite_instr late budget model rules ?ins (ir, st) = None"
        using i Some f sat by (auto simp: rewrite_instr_def)
      moreover have "escapes late budget model rules ir ?ins" using False EX rm by (intro esc) auto
      ultimately show ?thesis by simp
    next
    case True
    obtain x where x: "extract_best g2 model = Some x" "xinv g2 model x" "settled g2 model x"
      using EX True by (auto split: option.splits)
    have sc: "same_classes g2 (x_graph x)" using x(2) by (simp add: xinv_def)
    have rc: "rc < g_count g2"
      using e1 rep_less [OF wg r0] sound_ext_count [OF conjunct1 [OF S]] by simp
    obtain g3 c where f3: "eg_find (x_graph x) rc = (g3, c)" by fastforce
    have c: "c = rep g2 rc" "same_classes g2 g3" using same_classes_find [OF sc rc f3] by simp_all
    have cl: "c < g_count g2" using c rep_less [OF wf2 rc] by simp
    define ir1 where "ir1 = (case x_node x ! c of None \<Rightarrow> ir | Some chosen \<Rightarrow> fst (writeback_instr ir ?ins g3 chosen))"
    obtain g4 ncl where cc: "eg_class_count g3 = (g4, ncl)" by fastforce
    have res: "rewrite_instr late budget model rules ?ins (ir, st)
        = Some (ir1, st1\<lparr>s_nodes := s_nodes st1 + g_count g4, s_classes := s_classes st1 + ncl\<rparr>)"
      using i Some f sat x(1) f3 cc True by (simp add: rewrite_instr_def ir1_def)
    have "\<exists>v'. exchanged ir b k v' ir1 \<and> keeps_meaning F C ?v v'"
    proof (cases "x_node x ! c")
      case None
      with keep show ?thesis by (auto simp: ir1_def)
    next
      case (Some j)
      note ch = settled_choice [OF x(2,3) cl Some]
      obtain ir2 d where w: "writeback_instr ir ?ins g3 j = (ir2, d)" by fastforce
      have ir1: "ir1 = ir2" using Some w by (simp add: ir1_def)
      from writeback_effect [OF wf B k w] show ?thesis
      proof
        assume "ir2 = ir \<and> \<not> d"
        with keep ir1 show ?thesis by blast
      next
        assume W: "\<not> en_is_const (g_nodes g3 ! j) \<and> en_opcode (g_nodes g3 ! j) \<noteq> []
          \<and> exchanged ir b k (written ?v g3 (g_nodes g3 ! j)) ir2"
        let ?w = "written ?v g3 (g_nodes g3 ! j)"
        have n3: "g_nodes g3 = g_nodes g2" using c by (simp add: same_classes_def)
        have l3: "regs_leaf g3"
          using I regs_leaf_ext [OF _ conjunct2 [OF S]] e1(4) n3 by (simp add: regs_leaf_def)
        have "view_value F C \<rho> ?w = view_value F C \<rho> ?v" if nd: "SReg [] \<notin> set (v_operands ?w)" and p: "plain_view ?v" for \<rho>
        proof -
          have S': "sound_eg F C \<rho> g2" "sound_ext F C \<rho> g1 g2" using S [of \<rho>] by (simp_all add: sound_ext_def)
          have s3: "sound_eg F C \<rho> g3" by (rule sound_halved [OF S'(1)]) (use c in \<open>simp_all add: same_classes_def\<close>)
          have j3: "j < g_count g3" using ch same_classes_count [OF c(2)] by simp
          have "view_value F C \<rho> ?w = nval F C \<rho> (g_nodes g3) j"
            using W by (intro written_value [OF s3 l3 j3 _ _ nd]) simp_all
          also have "\<dots> = nval F C \<rho> (g_nodes g2) rc"
            using ch c(1) sound_rep [OF S'(1) _ rc, of j] by (simp add: n3)
          also have "\<dots> = nval F C \<rho> (g_nodes g1) rc"
            using e1 rep_less [OF wg r0] by (intro sound_ext_nval [OF S'(2)]) simp
          also have "\<dots> = nval F C \<rho> (g_nodes g) r0"
            using e1 rep_less [OF wg r0] rep_rep [OF wg r0] I [of \<rho>] r0
            by (simp add: sound_rep [of F C \<rho> g "rep g r0" r0])
          also have "\<dots> = view_value F C \<rho> ?v" using I [of \<rho>] p by simp
          finally show ?thesis .
        qed
        then have "keeps_meaning F C ?v ?w" by (auto simp: keeps_meaning_def written_def)
        with W ir1 show ?thesis by blast
      qed
    qed
    with res show ?thesis by simp
    qed
  qed
qed

section \<open>Blocks\<close>

definition live_block :: "ccw_ir \<Rightarrow> ccw_node \<Rightarrow> bool" where
  "live_block ir b \<longleftrightarrow> ccw_ir_node_kind ir b = CCW_NODE_BLOCK"

lemma live_blockE:
  assumes "live_block ir b"
  obtains B where "ccw_ir_node_get ir b = Some B" "n_kind B = CCW_NODE_BLOCK" "children_of ir b CCW_NODE_BLOCK = n_children B"
    "length (block_view ir b) = length (n_children B)"
  using assms by (auto simp: live_block_def ccw_ir_node_kind_def children_of_def ccw_ir_node_get_kind_def block_view_def
      split: option.splits)

text \<open>The frame of a run: the functions and their blocks, and the views of the blocks not in \<open>X\<close>.\<close>

definition framed :: "ccw_node set \<Rightarrow> ccw_ir \<Rightarrow> ccw_ir \<Rightarrow> bool" where
  "framed X ir ir' \<longleftrightarrow> wf_ir ir' \<and> m_functions ir' = m_functions ir \<and> next_id ir \<le> next_id ir'
     \<and> (\<forall>f < next_id ir. children_of ir' f CCW_NODE_FUNCTION = children_of ir f CCW_NODE_FUNCTION)
     \<and> (\<forall>c < next_id ir. c \<notin> X \<longrightarrow> block_view ir' c = block_view ir c)"

lemma framed_refl: "wf_ir ir \<Longrightarrow> framed X ir ir"
  by (simp add: framed_def)

lemma framed_trans:
  assumes "framed X ir ir1" "framed Y ir1 ir2" "X \<subseteq> Z" "Y \<subseteq> Z"
  shows "framed Z ir ir2"
proof -
  have "next_id ir \<le> next_id ir1" using assms(1) by (simp add: framed_def)
  then have lt: "x < next_id ir1" if "x < next_id ir" for x using that by simp
  have "children_of ir2 f CCW_NODE_FUNCTION = children_of ir f CCW_NODE_FUNCTION" if "f < next_id ir" for f
    using assms(1,2) that lt [OF that] unfolding framed_def by simp
  moreover have "block_view ir2 c = block_view ir c" if "c < next_id ir" "c \<notin> Z" for c
    using assms that lt [OF that(1)] unfolding framed_def by (metis subsetD)
  ultimately show ?thesis using assms(1,2) unfolding framed_def by simp
qed

lemma exchanged_framed: "exchanged ir b k v ir' \<Longrightarrow> framed {b} ir ir'"
  by (simp add: exchanged_def framed_def)

text \<open>A block of a function stays one: it is listed by the function, and the module is well formed.\<close>

lemma listed_block:
  assumes wf: "wf_ir ir" and f: "f \<in> set (m_functions ir)" and b: "b \<in> set (children_of ir f CCW_NODE_FUNCTION)"
  shows "live_block ir b" "b < next_id ir" "f < next_id ir" "\<And>g. g \<in> set (m_functions ir) \<Longrightarrow> b \<in> set (children_of ir g CCW_NODE_FUNCTION) \<Longrightarrow> g = f"
proof -
  have own: "\<exists>B. ccw_ir_node_get ir b = Some B \<and> n_kind B = CCW_NODE_BLOCK \<and> n_parent B = g \<and> g < next_id ir"
    if bg: "b \<in> set (children_of ir g CCW_NODE_FUNCTION)" for g
  proof -
    obtain G where G: "ccw_ir_node_get ir g = Some G" "n_kind G = CCW_NODE_FUNCTION" "b \<in> set (n_children G)"
      using bg by (auto simp: children_of_def ccw_ir_node_get_kind_def split: option.splits if_splits)
    have "at (ccw_ir_node_get ir) b (is_block_of g)"
      using wf_heap_function [OF wf_heapD [OF wf] G(1,2)] G(3) by (simp add: function_ok_def)
    then show ?thesis using get_next [OF G(1)] by (auto simp: is_block_of_def elim!: atE)
  qed
  from own [OF b] show "live_block ir b" "b < next_id ir" "f < next_id ir"
    by (auto simp: live_block_def ccw_ir_node_kind_def get_next)
  show "g = f" if "b \<in> set (children_of ir g CCW_NODE_FUNCTION)" for g
    using own [OF b] own [OF that] by auto
qed

lemma framed_listed:
  assumes wf: "wf_ir ir" and fr: "framed X ir ir'" and f: "f \<in> set (m_functions ir)" and b: "b \<in> set (children_of ir f CCW_NODE_FUNCTION)"
  shows "live_block ir' b"
proof -
  have "f < next_id ir" by (rule listed_block(3) [OF wf f b])
  then have "f \<in> set (m_functions ir')" "b \<in> set (children_of ir' f CCW_NODE_FUNCTION)" using fr f b by (simp_all add: framed_def)
  then show ?thesis using fr by (intro listed_block(1)) (simp_all add: framed_def)
qed

definition meaning_kept :: "(string \<Rightarrow> 'v list \<Rightarrow> 'v) \<Rightarrow> (64 word \<Rightarrow> 'v) \<Rightarrow> instr_view list \<Rightarrow> instr_view list \<Rightarrow> bool" where
  "meaning_kept F C = list_all2 (keeps_meaning F C)"

text \<open>An instruction escapes in some module in which it looks as in this one: that is where a run has no defined result.\<close>

definition escapes_at ::
  "(double \<Rightarrow> nat \<Rightarrow> bool) \<Rightarrow> ccw_oeuph_budget \<Rightarrow> ccw_cost_model \<Rightarrow> ccw_rule list \<Rightarrow> ccw_ir \<Rightarrow> ccw_node \<Rightarrow> nat \<Rightarrow> bool" where
  "escapes_at late budget model rules ir b k \<longleftrightarrow>
     (\<exists>ir1. wf_ir ir1 \<and> k < length (block_view ir1 b) \<and> block_view ir1 b ! k = block_view ir b ! k
        \<and> escapes late budget model rules ir1 (ccw_ir_block_instr_ref ir1 b (int k)))"

lemma escapes_at_cong:
  "block_view ir b ! k = block_view ir' b ! k \<Longrightarrow> escapes_at late budget model rules ir b k = escapes_at late budget model rules ir' b k"
  by (simp add: escapes_at_def)

lemma run_block_spec:
  assumes "wf_ir ir" "f \<in> set (m_functions ir)" "b \<in> set (children_of ir f CCW_NODE_FUNCTION)"
    and v: "\<forall>r \<in> set rules. valid_rule F C r" and "distinct ks" "\<forall>k \<in> set ks. k < length (block_view ir b)"
  shows "case run_block (rewrite_instr late budget model rules) b ks (ir, st) of
      None \<Rightarrow> \<exists>k \<in> set ks. escapes_at late budget model rules ir b k
    | Some (ir', st') \<Rightarrow> framed {b} ir ir' \<and> length (block_view ir' b) = length (block_view ir b)
      \<and> (\<forall>k < length (block_view ir b). if k \<in> set ks then keeps_meaning F C (block_view ir b ! k) (block_view ir' b ! k)
         else block_view ir' b ! k = block_view ir b ! k)"
  using assms(1-3,5,6)
proof (induction ks arbitrary: ir st)
  case Nil
  then show ?case by (simp add: framed_refl)
next
  case (Cons k ks)
  have lb: "live_block ir b" and bl: "b < next_id ir" using listed_block [OF Cons.prems(1-3)] by simp_all
  obtain B where B: "ccw_ir_node_get ir b = Some B" "n_kind B = CCW_NODE_BLOCK" "children_of ir b CCW_NODE_BLOCK = n_children B"
    "length (block_view ir b) = length (n_children B)" by (rule live_blockE [OF lb])
  have k: "k < length (n_children B)" using Cons.prems(5) B(4) by simp
  have ref: "ccw_ir_block_instr_ref ir b (int k) = n_children B ! k" using B k by (simp add: ccw_ir_block_instr_ref_def vec_ref_def)
  note R0 = rewrite_instr_spec [OF Cons.prems(1) B(1,2) k v, of late budget model st]
  show ?case
  proof (cases "rewrite_instr late budget model rules (n_children B ! k) (ir, st)")
    case None
    with R0 ref k B(4) Cons.prems(1) have "escapes_at late budget model rules ir b k" by (auto simp: escapes_at_def)
    with None ref show ?thesis by simp
  next
    case (Some p)
    obtain ir1 st1 where p: "p = (ir1, st1)" by (cases p)
    obtain v' where w: "rewrite_instr late budget model rules (n_children B ! k) (ir, st) = Some (ir1, st1)"
      and ex: "exchanged ir b k v' ir1" and km: "keeps_meaning F C (block_view ir b ! k) v'"
      using R0 Some p by auto
    have fr: "framed {b} ir ir1" by (rule exchanged_framed [OF ex])
    have bv: "block_view ir1 b = (block_view ir b)[k := v']" using ex by (simp add: exchanged_def)
    have fl: "f < next_id ir" by (rule listed_block(3) [OF Cons.prems(1-3)])
    have run: "run_block (rewrite_instr late budget model rules) b (k # ks) (ir, st)
        = run_block (rewrite_instr late budget model rules) b ks (ir1, st1)" using w by (simp add: ref)
    note R = Cons.IH [of ir1 st1]
    have R: "case run_block (rewrite_instr late budget model rules) b ks (ir1, st1) of
        None \<Rightarrow> \<exists>k \<in> set ks. escapes_at late budget model rules ir1 b k
      | Some (ir', st') \<Rightarrow> framed {b} ir1 ir' \<and> length (block_view ir' b) = length (block_view ir1 b)
        \<and> (\<forall>k < length (block_view ir1 b). if k \<in> set ks then keeps_meaning F C (block_view ir1 b ! k) (block_view ir' b ! k)
           else block_view ir' b ! k = block_view ir1 b ! k)"
      using fr Cons.prems fl bv by (intro Cons.IH) (simp_all add: framed_def)
    show ?thesis
    proof (cases "run_block (rewrite_instr late budget model rules) b ks (ir1, st1)")
      case None
      with R obtain m where m: "m \<in> set ks" "escapes_at late budget model rules ir1 b m" by auto
      then have "m \<noteq> k" using Cons.prems(4) by auto
      then have "escapes_at late budget model rules ir b m" using m bv escapes_at_cong [of ir1 b m ir] by simp
      with m(1) show ?thesis unfolding run None by auto
    next
      case (Some q)
      obtain ir' st' where q: "q = (ir', st')" by (cases q)
      have K: "framed {b} ir1 ir'" "length (block_view ir' b) = length (block_view ir1 b)"
        "\<And>m. m < length (block_view ir1 b) \<Longrightarrow> if m \<in> set ks then keeps_meaning F C (block_view ir1 b ! m) (block_view ir' b ! m)
           else block_view ir' b ! m = block_view ir1 b ! m" using R Some q by auto
      have "if m \<in> set (k # ks) then keeps_meaning F C (block_view ir b ! m) (block_view ir' b ! m)
             else block_view ir' b ! m = block_view ir b ! m" if m: "m < length (block_view ir b)" for m
      proof (cases "m = k")
        case True
        then have "m \<notin> set ks" using Cons.prems(4) by simp
        with K(3) [of m] m bv True km show ?thesis by simp
      next
        case False
        then have "block_view ir1 b ! m = block_view ir b ! m" using bv by simp
        with False K(3) [of m] m bv show ?thesis by (auto split: if_splits)
      qed
      moreover have "framed {b} ir ir'" by (rule framed_trans [OF fr K(1) subset_refl subset_refl])
      moreover have "length (block_view ir' b) = length (block_view ir b)" using K(2) bv by simp
      ultimately show ?thesis unfolding run Some q option.case prod.case by blast
    qed
  qed
qed

lemma run_whole_block:
  assumes wf: "wf_ir ir" and f: "f \<in> set (m_functions ir)" and b: "b \<in> set (children_of ir f CCW_NODE_FUNCTION)"
    and v: "\<forall>r \<in> set rules. valid_rule F C r"
  shows "case run_block (rewrite_instr late budget model rules) b [0..<nat (ccw_ir_block_instr_count ir b)] (ir, st) of
      None \<Rightarrow> \<exists>k < length (block_view ir b). escapes_at late budget model rules ir b k
    | Some (ir', st') \<Rightarrow> framed {b} ir ir' \<and> meaning_kept F C (block_view ir b) (block_view ir' b)"
proof -
  have cnt: "nat (ccw_ir_block_instr_count ir b) = length (block_view ir b)"
    by (simp add: ccw_ir_block_instr_count_def block_view_def)
  have "\<forall>k \<in> set [0..<length (block_view ir b)]. k < length (block_view ir b)" by simp
  from run_block_spec [OF wf f b v distinct_upt this, of late budget model st] show ?thesis
    unfolding cnt meaning_kept_def list_all2_conv_all_nth
    by (cases "run_block (rewrite_instr late budget model rules) b [0..<length (block_view ir b)] (ir, st)") fastforce+
qed

section \<open>Functions\<close>

definition escapes_in ::
  "(double \<Rightarrow> nat \<Rightarrow> bool) \<Rightarrow> ccw_oeuph_budget \<Rightarrow> ccw_cost_model \<Rightarrow> ccw_rule list \<Rightarrow> ccw_ir \<Rightarrow> ccw_node \<Rightarrow> bool" where
  "escapes_in late budget model rules ir b \<longleftrightarrow> (\<exists>k < length (block_view ir b). escapes_at late budget model rules ir b k)"

lemma escapes_in_cong:
  "block_view ir b = block_view ir' b \<Longrightarrow> escapes_in late budget model rules ir b = escapes_in late budget model rules ir' b"
  using escapes_at_cong [of ir b _ ir'] by (simp add: escapes_in_def)

lemma run_function_spec:
  assumes "wf_ir ir" "f \<in> set (m_functions ir)" and v: "\<forall>r \<in> set rules. valid_rule F C r"
    and "distinct js" "\<forall>j \<in> set js. j < length (children_of ir f CCW_NODE_FUNCTION)"
  shows "case run_function (rewrite_instr late budget model rules) f js (ir, st) of
      None \<Rightarrow> \<exists>j \<in> set js. escapes_in late budget model rules ir (children_of ir f CCW_NODE_FUNCTION ! j)
    | Some (ir', st') \<Rightarrow> framed ((!) (children_of ir f CCW_NODE_FUNCTION) ` set js) ir ir'
      \<and> (\<forall>j \<in> set js. meaning_kept F C (block_view ir (children_of ir f CCW_NODE_FUNCTION ! j))
         (block_view ir' (children_of ir f CCW_NODE_FUNCTION ! j)))"
  using assms(1,2,4,5)
proof (induction js arbitrary: ir st)
  case Nil
  then show ?case by (simp add: framed_refl)
next
  case (Cons j js)
  let ?cs = "children_of ir f CCW_NODE_FUNCTION"
  let ?b = "?cs ! j"
  have j: "j < length ?cs" using Cons.prems(4) by simp
  then have b: "?b \<in> set ?cs" by simp
  have ref: "ccw_ir_function_block_ref ir f (int j) = ?b" using j by (simp add: ccw_ir_function_block_ref_def vec_ref_def)
  note W = run_whole_block [OF Cons.prems(1,2) b v, of late budget model st]
  have unfold: "run_function (rewrite_instr late budget model rules) f (j # js) (ir, st) =
      (case run_block (rewrite_instr late budget model rules) ?b [0..<nat (ccw_ir_block_instr_count ir ?b)] (ir, st) of
         None \<Rightarrow> None | Some s1 \<Rightarrow> run_function (rewrite_instr late budget model rules) f js s1)"
    by (simp add: ref Let_def)
  show ?case
  proof (cases "run_block (rewrite_instr late budget model rules) ?b [0..<nat (ccw_ir_block_instr_count ir ?b)] (ir, st)")
    case None
    with W unfold show ?thesis by (simp add: escapes_in_def)
  next
    case (Some p)
    obtain ir1 st1 where p: "p = (ir1, st1)" by (cases p)
    have fr: "framed {?b} ir ir1" and mk: "meaning_kept F C (block_view ir ?b) (block_view ir1 ?b)" using W Some p by simp_all
    have fl: "f < next_id ir" by (rule listed_block(3) [OF Cons.prems(1,2) b])
    have cs: "children_of ir1 f CCW_NODE_FUNCTION = ?cs" using fr fl by (simp add: framed_def)
    have dc: "distinct ?cs"
    proof -
      obtain G where "ccw_ir_node_get ir f = Some G" "n_kind G = CCW_NODE_FUNCTION" "?cs = n_children G"
        using b by (auto simp: children_of_def ccw_ir_node_get_kind_def split: option.splits if_splits)
      then show ?thesis using wf_heap_function [OF wf_heapD [OF Cons.prems(1)]] by (simp add: function_ok_def)
    qed
    have other: "?cs ! i \<noteq> ?b" if "i < length ?cs" "i \<noteq> j" for i
      using dc that j by (simp add: nth_eq_iff_index_eq)
    have bnd: "?cs ! i < next_id ir" if "i < length ?cs" for i
      using listed_block(2) [OF Cons.prems(1,2), of "?cs ! i"] that by simp
  have same: "block_view ir1 (?cs ! i) = block_view ir (?cs ! i)" if "i < length ?cs" "i \<noteq> j" for i
      using fr other [OF that] bnd [OF that(1)] by (simp add: framed_def)
    have run: "run_function (rewrite_instr late budget model rules) f (j # js) (ir, st)
        = run_function (rewrite_instr late budget model rules) f js (ir1, st1)" using unfold Some p by simp
    have R: "case run_function (rewrite_instr late budget model rules) f js (ir1, st1) of
        None \<Rightarrow> \<exists>j \<in> set js. escapes_in late budget model rules ir1 (children_of ir1 f CCW_NODE_FUNCTION ! j)
      | Some (ir', st') \<Rightarrow> framed ((!) (children_of ir1 f CCW_NODE_FUNCTION) ` set js) ir1 ir'
        \<and> (\<forall>j \<in> set js. meaning_kept F C (block_view ir1 (children_of ir1 f CCW_NODE_FUNCTION ! j))
           (block_view ir' (children_of ir1 f CCW_NODE_FUNCTION ! j)))"
      using fr Cons.prems cs by (intro Cons.IH) (simp_all add: framed_def)
    show ?thesis
    proof (cases "run_function (rewrite_instr late budget model rules) f js (ir1, st1)")
      case None
      with R obtain m where m: "m \<in> set js" "escapes_in late budget model rules ir1 (?cs ! m)" unfolding cs by auto
      then have "m < length ?cs" "m \<noteq> j" using Cons.prems(3,4) by auto
      then have "escapes_in late budget model rules ir (?cs ! m)" using m(2) same [of m] escapes_in_cong by blast
      with m(1) show ?thesis unfolding run None by auto
    next
      case (Some q)
      obtain ir' st' where q: "q = (ir', st')" by (cases q)
      have R2: "framed ((!) ?cs ` set js) ir1 ir'"
        and K: "\<And>i. i \<in> set js \<Longrightarrow> meaning_kept F C (block_view ir1 (?cs ! i)) (block_view ir' (?cs ! i))"
        using R Some q unfolding cs by auto
      have "meaning_kept F C (block_view ir (?cs ! i)) (block_view ir' (?cs ! i))" if i: "i \<in> set (j # js)" for i
      proof (cases "i = j")
        case True
        have "?b \<notin> (!) ?cs ` set js" using Cons.prems(3,4) other by force
        moreover have "?b < next_id ir1" using bnd [OF j] fr by (simp add: framed_def)
        ultimately have "block_view ir' ?b = block_view ir1 ?b" using R2 by (simp add: framed_def)
        with mk True show ?thesis by simp
      next
        case False
        then have i': "i \<in> set js" "i < length ?cs" using i Cons.prems(4) by auto
        with same [OF i'(2) False] K [OF i'(1)] show ?thesis by simp
      qed
      moreover have "framed ((!) ?cs ` set (j # js)) ir ir'" by (rule framed_trans [OF fr R2]) auto
      ultimately show ?thesis unfolding run Some q option.case prod.case by blast
    qed
  qed
qed

lemma run_whole_function:
  assumes wf: "wf_ir ir" and f: "f \<in> set (m_functions ir)" and v: "\<forall>r \<in> set rules. valid_rule F C r"
  shows "case run_function (rewrite_instr late budget model rules) f [0..<nat (ccw_ir_function_block_count ir f)] (ir, st) of
      None \<Rightarrow> \<exists>b \<in> set (children_of ir f CCW_NODE_FUNCTION). escapes_in late budget model rules ir b
    | Some (ir', st') \<Rightarrow> framed (set (children_of ir f CCW_NODE_FUNCTION)) ir ir'
      \<and> (\<forall>b \<in> set (children_of ir f CCW_NODE_FUNCTION). meaning_kept F C (block_view ir b) (block_view ir' b))"
proof -
  let ?cs = "children_of ir f CCW_NODE_FUNCTION"
  have cnt: "nat (ccw_ir_function_block_count ir f) = length ?cs" by (simp add: ccw_ir_function_block_count_def)
  have img: "(!) ?cs ` set [0..<length ?cs] = set ?cs" by (auto simp: in_set_conv_nth)
  have "\<forall>j \<in> set [0..<length ?cs]. j < length ?cs" by simp
  note R = run_function_spec [OF wf f v distinct_upt this, of late budget model st, unfolded img]
  show ?thesis
  proof (cases "run_function (rewrite_instr late budget model rules) f [0..<length ?cs] (ir, st)")
    case None
    with R show ?thesis unfolding cnt by (auto intro: nth_mem)
  next
    case (Some p)
    with R show ?thesis unfolding cnt by (fastforce simp: in_set_conv_nth)
  qed
qed

lemma run_functions_spec:
  assumes "wf_ir ir" and v: "\<forall>r \<in> set rules. valid_rule F C r"
    and "distinct fs" "\<forall>i \<in> set fs. i < length (m_functions ir)"
  shows "case run_functions (rewrite_instr late budget model rules) fs (ir, st) of
      None \<Rightarrow> \<exists>i \<in> set fs. \<exists>b \<in> set (children_of ir (m_functions ir ! i) CCW_NODE_FUNCTION). escapes_in late budget model rules ir b
    | Some (ir', st') \<Rightarrow> framed (\<Union>i \<in> set fs. set (children_of ir (m_functions ir ! i) CCW_NODE_FUNCTION)) ir ir'
      \<and> (\<forall>i \<in> set fs. \<forall>b \<in> set (children_of ir (m_functions ir ! i) CCW_NODE_FUNCTION).
           meaning_kept F C (block_view ir b) (block_view ir' b))"
  using assms(1,3,4)
proof (induction fs arbitrary: ir st)
  case Nil
  then show ?case by (simp add: framed_refl)
next
  case (Cons i fs)
  let ?f = "m_functions ir ! i"
  let ?cs = "\<lambda>i. set (children_of ir (m_functions ir ! i) CCW_NODE_FUNCTION)"
  have i: "i < length (m_functions ir)" using Cons.prems by simp
  then have f: "?f \<in> set (m_functions ir)" by simp
  have ref: "ccw_ir_function_ref ir (int i) = ?f" using i by (simp add: ccw_ir_function_ref_def vec_ref_def)
  note W = run_whole_function [OF Cons.prems(1) f v, of late budget model st]
  have unfold: "run_functions (rewrite_instr late budget model rules) (i # fs) (ir, st) =
      (case run_function (rewrite_instr late budget model rules) ?f [0..<nat (ccw_ir_function_block_count ir ?f)] (ir, st) of
         None \<Rightarrow> None | Some s1 \<Rightarrow> run_functions (rewrite_instr late budget model rules) fs s1)"
    by (simp add: ref Let_def)
  show ?case
  proof (cases "run_function (rewrite_instr late budget model rules) ?f [0..<nat (ccw_ir_function_block_count ir ?f)] (ir, st)")
    case None
    with W unfold show ?thesis by simp
  next
    case (Some p)
    obtain ir1 st1 where p: "p = (ir1, st1)" by (cases p)
    have fr: "framed (?cs i) ir ir1" and mk: "\<forall>b \<in> ?cs i. meaning_kept F C (block_view ir b) (block_view ir1 b)"
      using W Some p by simp_all
    have fns: "m_functions ir1 = m_functions ir" using fr by (simp add: framed_def)
    have live: "g < next_id ir" if "g \<in> set (m_functions ir)" for g
      using that Cons.prems(1) by (auto simp: wf_ir_def wf_heap_def at_def get_next split: option.splits)
    have cs: "children_of ir1 (m_functions ir ! m) CCW_NODE_FUNCTION = children_of ir (m_functions ir ! m) CCW_NODE_FUNCTION"
      if "m < length (m_functions ir)" for m
      using fr live [OF nth_mem [OF that]] by (simp add: framed_def)
    have cs': "set (children_of ir1 (m_functions ir1 ! m) CCW_NODE_FUNCTION) = ?cs m" if "m \<in> set fs" for m
      using cs Cons.prems(3) that fns by simp
    have df: "distinct (m_functions ir)" using Cons.prems(1) by (simp add: wf_ir_def wf_heap_def)
    have disj: "?cs i \<inter> ?cs m = {}" if m: "m \<in> set fs" for m
    proof -
      have "m_functions ir ! m \<noteq> ?f"
        using df m Cons.prems(2,3) i by (auto simp: nth_eq_iff_index_eq)
      then show ?thesis
        using listed_block(4) [OF Cons.prems(1) f] Cons.prems(3) m by (metis disjoint_iff list.set_intros(2) nth_mem)
    qed
    have bnd: "b < next_id ir" if "b \<in> ?cs m" "m < length (m_functions ir)" for b m
      using listed_block(2) [OF Cons.prems(1) nth_mem [OF that(2)] that(1)] .
    have same: "block_view ir1 b = block_view ir b" if "m \<in> set fs" "b \<in> ?cs m" for m b
      using fr disj [OF that(1)] bnd [OF that(2)] that Cons.prems(3) by (auto simp: framed_def)
    have run: "run_functions (rewrite_instr late budget model rules) (i # fs) (ir, st)
        = run_functions (rewrite_instr late budget model rules) fs (ir1, st1)" using unfold Some p by simp
    have R: "case run_functions (rewrite_instr late budget model rules) fs (ir1, st1) of
        None \<Rightarrow> \<exists>i \<in> set fs. \<exists>b \<in> set (children_of ir1 (m_functions ir1 ! i) CCW_NODE_FUNCTION). escapes_in late budget model rules ir1 b
      | Some (ir', st') \<Rightarrow> framed (\<Union>i \<in> set fs. set (children_of ir1 (m_functions ir1 ! i) CCW_NODE_FUNCTION)) ir1 ir'
        \<and> (\<forall>i \<in> set fs. \<forall>b \<in> set (children_of ir1 (m_functions ir1 ! i) CCW_NODE_FUNCTION).
             meaning_kept F C (block_view ir1 b) (block_view ir' b))"
      using fr Cons.prems fns by (intro Cons.IH) (simp_all add: framed_def)
    show ?thesis
    proof (cases "run_functions (rewrite_instr late budget model rules) fs (ir1, st1)")
      case None
      with R cs' obtain m b where m: "m \<in> set fs" "b \<in> ?cs m" "escapes_in late budget model rules ir1 b" by auto
      then have "escapes_in late budget model rules ir b" using same [OF m(1,2)] escapes_in_cong by blast
      with m show ?thesis unfolding run None by auto
    next
      case (Some q)
      obtain ir' st' where q: "q = (ir', st')" by (cases q)
      have R2: "framed (\<Union>i \<in> set fs. ?cs i) ir1 ir'"
        and K: "\<And>m b. m \<in> set fs \<Longrightarrow> b \<in> ?cs m \<Longrightarrow> meaning_kept F C (block_view ir1 b) (block_view ir' b)"
        using R Some q cs' by auto
      have "meaning_kept F C (block_view ir b) (block_view ir' b)" if m: "m \<in> set (i # fs)" and b: "b \<in> ?cs m" for m b
      proof (cases "m = i")
        case True
        then have "b \<notin> (\<Union>i \<in> set fs. ?cs i)" using disj b by blast
        moreover have "b < next_id ir1" using bnd [OF b] True i fr by (simp add: framed_def)
        ultimately have "block_view ir' b = block_view ir1 b" using R2 by (simp add: framed_def)
        with mk True b show ?thesis by simp
      next
        case False
        then have m': "m \<in> set fs" using m by simp
        with same [OF m' b] K [OF m' b] show ?thesis by simp
      qed
      moreover have "framed (\<Union>i \<in> set (i # fs). ?cs i) ir ir'" by (rule framed_trans [OF fr R2]) auto
      ultimately show ?thesis unfolding run Some q option.case prod.case by blast
    qed
  qed
qed

lemma run_meaning:
  assumes wf: "wf_ir ir" and v: "\<forall>r \<in> set (rs_rules rs). valid_rule F C r"
  shows "case ccw_oeuph_run late ir (Some rs) budget model of
      None \<Rightarrow> \<exists>f \<in> set (m_functions ir). \<exists>b \<in> set (children_of ir f CCW_NODE_FUNCTION). escapes_in late budget model (rs_rules rs) ir b
    | Some (ir', st, code) \<Rightarrow> code = CCW_OK \<and> wf_ir ir' \<and> m_functions ir' = m_functions ir
      \<and> (\<forall>f \<in> set (m_functions ir). children_of ir' f CCW_NODE_FUNCTION = children_of ir f CCW_NODE_FUNCTION
        \<and> (\<forall>b \<in> set (children_of ir f CCW_NODE_FUNCTION). meaning_kept F C (block_view ir b) (block_view ir' b)))"
proof -
  let ?st = "\<lparr>s_ruleset = take 63 (rs_name rs), s_iterations = 0, s_nodes = 0, s_classes = 0,
                        s_matches = 0, s_applications = 0, s_saturated = True, s_budget_hit = []\<rparr>"
  let ?run = "run_functions (rewrite_instr late budget model (rs_rules rs)) [0..<length (m_functions ir)] (ir, ?st)"
  have cnt: "nat (ccw_ir_function_count ir) = length (m_functions ir)" by (simp add: ccw_ir_function_count_def)
  have "\<forall>i \<in> set [0..<length (m_functions ir)]. i < length (m_functions ir)" by simp
  note R = run_functions_spec [OF wf v distinct_upt this, of late budget model ?st]
  show ?thesis
  proof (cases ?run)
    case None
    with R show ?thesis by (auto simp: ccw_oeuph_run_def cnt)
  next
    case (Some p)
    obtain ir' st' where p: "p = (ir', st')" by (cases p)
    have fr: "framed (\<Union>i \<in> set [0..<length (m_functions ir)]. set (children_of ir (m_functions ir ! i) CCW_NODE_FUNCTION)) ir ir'"
      and K: "\<forall>i \<in> set [0..<length (m_functions ir)]. \<forall>b \<in> set (children_of ir (m_functions ir ! i) CCW_NODE_FUNCTION).
         meaning_kept F C (block_view ir b) (block_view ir' b)" using R Some p by simp_all
    have live: "g < next_id ir" if "g \<in> set (m_functions ir)" for g
      using that wf by (auto simp: wf_ir_def wf_heap_def at_def get_next split: option.splits)
    have "children_of ir' f CCW_NODE_FUNCTION = children_of ir f CCW_NODE_FUNCTION
        \<and> (\<forall>b \<in> set (children_of ir f CCW_NODE_FUNCTION). meaning_kept F C (block_view ir b) (block_view ir' b))"
      if f: "f \<in> set (m_functions ir)" for f
      using fr K live [OF f] f by (auto simp: framed_def in_set_conv_nth)
    then show ?thesis using Some p fr by (simp add: ccw_oeuph_run_def cnt framed_def)
  qed
qed

section \<open>The operands that are written\<close>

lemma imported_unnamed:
  assumes "import_operand h ir x = (h', j)" "\<forall>v. ccw_ir_const_int_value ir x \<noteq> Inr v" "ccw_ir_operand_name ir x = None"
  shows "enode_view (g_nodes h' ! j) = SReg []"
proof -
  have a: "eg_add_node h (no_enode\<lparr>en_reg := []\<rparr>) = (h', j)"
    using assms by (auto simp: import_operand_def text32_def split: sum.splits)
  have eq: "g_nodes h' ! j = no_enode\<lparr>en_reg := [], en_eclass := g_count h\<rparr> \<or> same_label (g_nodes h' ! j) (no_enode\<lparr>en_reg := []\<rparr>)"
  proof (cases "find_same h (no_enode\<lparr>en_reg := []\<rparr>) [0..<g_count h]")
    case (Pair h1 r)
    have n: "g_nodes h1 = g_nodes h" using nodes_find_same [of h "no_enode\<lparr>en_reg := []\<rparr>" "[0..<g_count h]"] Pair by simp
    show ?thesis
    proof (cases r)
      case None
      then have "h' = append_node h1 (no_enode\<lparr>en_reg := []\<rparr>)" "j = g_count h1" using a Pair by (simp_all add: eg_add_node_def)
      moreover have "g_nodes (append_node h1 m) = g_nodes h @ [m\<lparr>en_eclass := g_count h1\<rparr>]" for m
        using n by (simp add: append_node_def Let_def split: prod.splits)
      moreover have "g_count h1 = length (g_nodes h)" "g_count h = length (g_nodes h)" using n by (simp_all add: g_count_def)
      ultimately show ?thesis by simp
    next
      case (Some i)
      then have "h' = h1" "j = i" using a Pair by (simp_all add: eg_add_node_def)
      then show ?thesis using find_same_label [of h "no_enode\<lparr>en_reg := []\<rparr>" "[0..<g_count h]" h1 i] Pair Some n by simp
    qed
  qed
  then show ?thesis by (auto simp: enode_view_def same_label_def no_enode_def)
qed

lemma written_operands:
  assumes wf: "wf_ir ir" and B: "ccw_ir_node_get ir b = Some B" "n_kind B = CCW_NODE_BLOCK" and k: "k < length (n_children B)"
    and rules: "\<forall>r \<in> set rules. proper_pattern (r_lhs r) \<and> proper_pattern (r_rhs r)"
    and imp: "import_instr empty_egraph ir (n_children B ! k) = (g0, Some rt)"
    and sat: "saturate n late budget rules (fst (eg_find g0 rt)) st = (g, st')"
    and i: "i < g_count g" and w: "writeback_instr ir (n_children B ! k) g i = (ir', True)"
  shows "v_operands (block_view ir' b ! k) =
      map (\<lambda>c. if en_is_const (g_nodes g ! c) then SInt (en_value (g_nodes g ! c))
               else if en_opcode (g_nodes g ! c) \<noteq> [] then SReg [] else SReg (en_reg (g_nodes g ! c)))
        (en_children (g_nodes g ! i))"
proof -
  let ?F = "\<lambda>(_ :: string) (_ :: unit list). ()" and ?C = "\<lambda>_ :: 64 word. ()" and ?\<rho> = "\<lambda>_ :: string. ()"
  have v: "\<forall>r \<in> set rules. valid_rule ?F ?C r" using rules by (simp add: valid_rule_def valid_direction_def)
  have "n_children B ! k \<in> set (n_children B)" using k by simp
  then obtain a where a: "ccw_ir_node_get ir (n_children B ! k) = Some a" "n_kind a = CCW_NODE_INSTR"
    using block_instr [OF wf B] by blast
  note I = import_instr_spec [OF a imp, of ?F ?C ?\<rho>]
  have wg: "wf_eg g0" and rtl: "rt < g_count g0" using I by (simp_all add: sound_eg_def)
  obtain g1 rc where f: "eg_find g0 rt = (g1, rc)" by fastforce
  note e = eg_find_E [OF wg rtl f]
  have s1: "sound_eg ?F ?C ?\<rho> g1" using I e by (intro sound_halved [of ?F ?C ?\<rho> g0 g1]) simp_all
  have l1: "regs_leaf g1" using I e(4) by (simp add: regs_leaf_def)
  note S = saturate_spec [OF s1 v, of n late budget st g st']
  have "sound_ext ?F ?C ?\<rho> g1 g \<and> no_new_regs g1 g" using S sat f by simp
  then have wf2: "wf_eg g" and l2: "regs_leaf g" using regs_leaf_ext [OF l1] by (simp_all add: sound_ext_def sound_eg_def)
  have "k < length (block_view ir b)" using B k by (simp add: block_view_def children_of_def ccw_ir_node_get_kind_def)
  then have "v_operands (block_view ir' b ! k) = map (\<lambda>c. enode_view (g_nodes g ! c)) (en_children (g_nodes g ! i))"
    using writeback_effect [OF wf B k w] by (auto simp: exchanged_def written_def)
  moreover have "enode_view (g_nodes g ! c) = (if en_is_const (g_nodes g ! c) then SInt (en_value (g_nodes g ! c))
               else if en_opcode (g_nodes g ! c) \<noteq> [] then SReg [] else SReg (en_reg (g_nodes g ! c)))"
    if c: "c \<in> set (en_children (g_nodes g ! i))" for c
  proof -
    have "c < g_count g" using wf_child [OF wf2 i c] i by simp
    then have "g_nodes g ! c \<in> set (g_nodes g)" by (simp add: g_count_def)
    with l2 show ?thesis by (auto simp: regs_leaf_def enode_view_def)
  qed
  ultimately show ?thesis by simp
qed

end
