(* ===== verification/Oeuph_Parse.thy ===== *)
theory Oeuph_Parse
  imports Oeuph_Saturate
begin

text \<open>
  The pattern parser against a grammar: \<open>sexp_term\<close> says which S-expressions are patterns and which term
  they denote; the parser accepts exactly these, up to \<open>CCW_PAT_MAX_NODES\<close> nodes, and builds that term.
\<close>

section \<open>The grammar\<close>

definition starts_var :: "string \<Rightarrow> bool" where
  "starts_var t \<longleftrightarrow> t \<noteq> [] \<and> hd t = CHR ''?''"

definition atom_term :: "sexp_aty \<Rightarrow> string option \<Rightarrow> pterm option" where
  "atom_term aty val =
     (case val of
        None \<Rightarrow> None
      | Some t \<Rightarrow>
          if aty = SEXP_DQUOTE then None
          else if starts_var t then Some (PVar (text32 t))
          else (case parse_integer (Some t) of Some v \<Rightarrow> Some (PConst v) | None \<Rightarrow> Some (POp (text32 t) [])))"

definition iconst_term :: "sexp list \<Rightarrow> pterm option" where
  "iconst_term xs =
     (case xs of
        [_, arg] \<Rightarrow>
          (case atom_text (Some arg) of
             None \<Rightarrow> None
           | Some t \<Rightarrow>
               if starts_var t then Some (PConstVar (text32 t))
               else map_option PConst (parse_integer (Some t)))
      | _ \<Rightarrow> None)"

fun sexp_term :: "sexp \<Rightarrow> pterm option" where
  "sexp_term (SexpValue aty val) = atom_term aty val"
| "sexp_term (SexpList []) = None"
| "sexp_term (SexpList (x # xs)) =
     (case atom_text (Some x) of
        None \<Rightarrow> None
      | Some h \<Rightarrow>
          if h = ''iconst'' then iconst_term (x # xs)
          else (case those (map sexp_term xs) of
                  None \<Rightarrow> None
                | Some ts \<Rightarrow> if length ts \<le> CCW_PAT_MAX_CHILDREN then Some (POp (text32 h) ts) else None))"

fun pnodes :: "pterm \<Rightarrow> nat" where
  "pnodes (POp f ts) = Suc (sum_list (map pnodes ts))"
| "pnodes _ = 1"

section \<open>Terms in a node array\<close>

inductive encodes :: "ccw_pat_node list \<Rightarrow> nat \<Rightarrow> pterm \<Rightarrow> bool" for ns where
  var: "i < length ns \<Longrightarrow> ns ! i = \<lparr>p_kind = CCW_PAT_VAR, p_text = x, p_value = 0, p_children = []\<rparr> \<Longrightarrow> encodes ns i (PVar x)"
| const: "i < length ns \<Longrightarrow> ns ! i = \<lparr>p_kind = CCW_PAT_CONST, p_text = [], p_value = v, p_children = []\<rparr> \<Longrightarrow> encodes ns i (PConst v)"
| cvar: "i < length ns \<Longrightarrow> ns ! i = \<lparr>p_kind = CCW_PAT_CONST_VAR, p_text = x, p_value = 0, p_children = []\<rparr> \<Longrightarrow> encodes ns i (PConstVar x)"
| opn: "i < length ns \<Longrightarrow> ns ! i = \<lparr>p_kind = CCW_PAT_OP, p_text = f, p_value = 0, p_children = cs\<rparr> \<Longrightarrow>
    list_all2 (\<lambda>c t. i < c \<and> encodes ns c t) cs ts \<Longrightarrow> encodes ns i (POp f ts)"

lemma encodes_bound: "encodes ns i t \<Longrightarrow> i < length ns"
  by (induction rule: encodes.induct) auto

lemma encodes_term: "encodes ns i t \<Longrightarrow> pat_term ns i = t"
proof (induction rule: encodes.induct)
  case (opn i f cs ts)
  have "map (\<lambda>c. if i < c \<and> c < length ns then pat_term ns c else PVar []) cs = ts"
    using opn(3) by (intro nth_equalityI) (auto simp: list_all2_conv_all_nth dest: encodes_bound)
  with opn(2) show ?case by (subst pat_term.simps) simp
qed (subst pat_term.simps, simp)+

text \<open>A term occupies indices from its root upwards; what lies below may change.\<close>

lemma encodes_frame:
  assumes "encodes ns i t" "\<And>j. i \<le> j \<Longrightarrow> j < length ns \<Longrightarrow> ns' ! j = ns ! j" "length ns \<le> length ns'"
  shows "encodes ns' i t"
  using assms
proof (induction rule: encodes.induct)
  case (opn i f cs ts)
  have "list_all2 (\<lambda>c t. i < c \<and> encodes ns' c t) cs ts"
  proof (rule list_all2_mono [OF opn(3)])
    fix c t
    assume ct: "i < c \<and> encodes ns c t \<and> ((\<forall>j\<ge>c. j < length ns \<longrightarrow> ns' ! j = ns ! j) \<longrightarrow> length ns \<le> length ns' \<longrightarrow> encodes ns' c t)"
    have "\<forall>j\<ge>c. j < length ns \<longrightarrow> ns' ! j = ns ! j"
    proof (intro allI impI)
      fix j
      assume "c \<le> j" "j < length ns"
      then show "ns' ! j = ns ! j" using ct by (intro opn(4)) simp_all
    qed
    with ct opn(5) show "i < c \<and> encodes ns' c t" by simp
  qed
  moreover have "i < length ns'" "ns' ! i = ns ! i" using opn(1,4,5) by simp_all
  ultimately show ?case using opn(2) by (intro encodes.opn) simp_all
qed (auto intro: encodes.intros)

definition node_fine :: "nat \<Rightarrow> nat \<Rightarrow> ccw_pat_node \<Rightarrow> bool" where
  "node_fine n i p \<longleftrightarrow> length (p_text p) \<le> 31 \<and> length (p_children p) \<le> CCW_PAT_MAX_CHILDREN
     \<and> (\<forall>c \<in> set (p_children p). i < c \<and> c < n)"

lemma node_fine_mono: "node_fine n i p \<Longrightarrow> n \<le> m \<Longrightarrow> node_fine m i p"
  by (auto simp: node_fine_def)

section \<open>The parser\<close>

definition fails :: "pstate \<times> nat option \<Rightarrow> bool" where
  "fails r \<longleftrightarrow> snd r = None \<and> ps_failed (fst r)"

definition appended :: "pstate \<Rightarrow> ccw_pat_node list \<Rightarrow> pstate" where
  "appended s ms = s\<lparr>ps_nodes := ps_nodes s @ ms\<rparr>"

text \<open>The specification of a call that should yield the term \<open>t\<close>, or fail.\<close>

definition parses :: "pstate \<Rightarrow> pterm option \<Rightarrow> pstate \<times> nat option \<Rightarrow> bool" where
  "parses s t r \<longleftrightarrow>
     (case t of
        None \<Rightarrow> fails r
      | Some t \<Rightarrow>
          if length (ps_nodes s) + pnodes t \<le> CCW_PAT_MAX_NODES
          then \<exists>ms. r = (appended s ms, Some (length (ps_nodes s))) \<and> length ms = pnodes t
            \<and> encodes (ps_nodes s @ ms) (length (ps_nodes s)) t
            \<and> (\<forall>k < length ms. node_fine (length (ps_nodes s) + length ms) (length (ps_nodes s) + k) (ms ! k))
          else fails r)"

lemma pnodes_pos: "0 < pnodes t"
  by (cases t) simp_all

lemma fails_pfail: "fails (pfail s msg, None)"
  by (simp add: fails_def pfail_def)

lemma alloc_node_eq:
  "alloc_node s = (if length (ps_nodes s) < CCW_PAT_MAX_NODES
     then (appended s [blank_pat], Some (length (ps_nodes s))) else (pfail s ''pattern too large'', None))"
  by (simp add: alloc_node_def appended_def)

lemma set_pat_last: "set_pat (appended s [p]) (length (ps_nodes s)) f = appended s [f p]"
  by (simp add: set_pat_def appended_def)

lemma parses_leaf:
  assumes "length (ps_nodes s) < CCW_PAT_MAX_NODES" "pnodes t = 1"
    "encodes (ps_nodes s @ [p]) (length (ps_nodes s)) t" "length (p_text p) \<le> 31" "p_children p = []"
  shows "parses s (Some t) (appended s [p], Some (length (ps_nodes s)))"
  using assms by (auto simp: parses_def node_fine_def)

lemma text32_length: "length (text32 t) \<le> 31"
  by (simp add: text32_def)

lemma parse_atom_spec: "parses s (atom_term aty val) (parse_atom s aty val)"
proof (cases val)
  case None
  then show ?thesis by (simp add: atom_term_def parse_atom_def parses_def fails_pfail)
next
  case (Some t)
  show ?thesis
  proof (cases "aty = SEXP_DQUOTE")
    case True
    with Some show ?thesis by (simp add: atom_term_def parse_atom_def parses_def fails_pfail)
  next
    case q: False
    have "\<exists>u. atom_term aty val = Some u \<and> pnodes u = 1"
      using Some q by (cases "starts_var t"; cases "parse_integer (Some t)") (simp_all add: atom_term_def)
    then obtain u where u: "atom_term aty val = Some u" "pnodes u = 1" by blast
    show ?thesis
    proof (cases "length (ps_nodes s) < CCW_PAT_MAX_NODES")
      case False
      then show ?thesis using Some q u by (simp add: parse_atom_def alloc_node_eq parses_def fails_pfail)
    next
      case True
      note leaf = parses_leaf [OF True]
      show ?thesis
      proof (cases "starts_var t")
        case v: True
        then have "parse_atom s aty val = (appended s [\<lparr>p_kind = CCW_PAT_VAR, p_text = text32 t, p_value = 0, p_children = []\<rparr>], Some (length (ps_nodes s)))"
          using Some q True by (simp add: parse_atom_def alloc_node_eq set_pat_last starts_var_def blank_pat_def)
        moreover have "atom_term aty val = Some (PVar (text32 t))" using Some q v by (simp add: atom_term_def)
        ultimately show ?thesis by (simp only:) (rule leaf; simp add: text32_length encodes.var)
      next
        case nv: False
        show ?thesis
        proof (cases "parse_integer (Some t)")
          case None
          then have "parse_atom s aty val = (appended s [\<lparr>p_kind = CCW_PAT_OP, p_text = text32 t, p_value = 0, p_children = []\<rparr>], Some (length (ps_nodes s)))"
            using Some q True nv by (auto simp: parse_atom_def alloc_node_eq set_pat_last starts_var_def blank_pat_def)
          moreover have "atom_term aty val = Some (POp (text32 t) [])" using Some q nv None by (simp add: atom_term_def)
          ultimately show ?thesis by (simp only:) (rule leaf; simp add: text32_length encodes.opn)
        next
          case (Some v)
          then have "parse_atom s aty val = (appended s [\<lparr>p_kind = CCW_PAT_CONST, p_text = [], p_value = v, p_children = []\<rparr>], Some (length (ps_nodes s)))"
            using \<open>val = Some t\<close> q True nv by (auto simp: parse_atom_def alloc_node_eq set_pat_last starts_var_def blank_pat_def)
          moreover have "atom_term aty val = Some (PConst v)" using \<open>val = Some t\<close> q nv Some by (simp add: atom_term_def)
          ultimately show ?thesis by (simp only:) (rule leaf; simp add: encodes.const)
        qed
      qed
    qed
  qed
qed

lemma parse_iconst_spec:
  assumes "length (ps_nodes s) < CCW_PAT_MAX_NODES"
  shows "parses s (iconst_term (x # xs)) (parse_iconst (appended s [blank_pat]) (length (ps_nodes s)) (x # xs))"
proof (cases xs)
  case Nil
  then show ?thesis by (simp add: iconst_term_def parse_iconst_def item_at_def parses_def fails_pfail)
next
  case (Cons y ys)
  show ?thesis
  proof (cases "ys = [] \<and> atom_text (Some y) \<noteq> None")
    case False
    then have "iconst_term (x # xs) = None" using Cons by (auto simp: iconst_term_def split: list.splits)
    moreover have "fails (parse_iconst (appended s [blank_pat]) (length (ps_nodes s)) (x # xs))"
      using False Cons by (auto simp: parse_iconst_def item_at_def fails_pfail split: option.splits)
    ultimately show ?thesis by (simp add: parses_def)
  next
    case True
    then obtain t where t: "atom_text (Some y) = Some t" and ys: "ys = []" by blast
    note leaf = parses_leaf [OF assms]
    show ?thesis
    proof (cases "starts_var t")
      case v: True
      then have "parse_iconst (appended s [blank_pat]) (length (ps_nodes s)) (x # xs)
          = (appended s [\<lparr>p_kind = CCW_PAT_CONST_VAR, p_text = text32 t, p_value = 0, p_children = []\<rparr>], Some (length (ps_nodes s)))"
        using Cons ys t by (simp add: parse_iconst_def item_at_def set_pat_last starts_var_def blank_pat_def)
      moreover have "iconst_term (x # xs) = Some (PConstVar (text32 t))" using Cons ys t v by (simp add: iconst_term_def)
      ultimately show ?thesis by (simp only:) (rule leaf; simp add: text32_length encodes.cvar)
    next
      case nv: False
      show ?thesis
      proof (cases "parse_integer (Some t)")
        case None
        then show ?thesis using Cons ys t nv
          by (auto simp: iconst_term_def parse_iconst_def item_at_def parses_def fails_pfail starts_var_def)
      next
        case (Some v)
        then have "parse_iconst (appended s [blank_pat]) (length (ps_nodes s)) (x # xs)
            = (appended s [\<lparr>p_kind = CCW_PAT_CONST, p_text = [], p_value = v, p_children = []\<rparr>], Some (length (ps_nodes s)))"
          using Cons ys t nv by (auto simp: parse_iconst_def item_at_def set_pat_last starts_var_def blank_pat_def)
        moreover have "iconst_term (x # xs) = Some (PConst v)" using Cons ys t nv Some by (simp add: iconst_term_def)
        ultimately show ?thesis by (simp only:) (rule leaf; simp add: encodes.const)
      qed
    qed
  qed
qed

text \<open>The same for the loop over the operands of node \<open>i\<close>.\<close>

definition parses_operands :: "pstate \<Rightarrow> nat \<Rightarrow> pterm list option \<Rightarrow> pstate \<times> nat option \<Rightarrow> bool" where
  "parses_operands s i ts r \<longleftrightarrow>
     (case ts of
        None \<Rightarrow> fails r
      | Some ts \<Rightarrow>
          (let p = ps_nodes s ! i; n = length (ps_nodes s); m = sum_list (map pnodes ts)
           in if length (p_children p) + length ts \<le> CCW_PAT_MAX_CHILDREN \<and> n + m \<le> CCW_PAT_MAX_NODES
              then \<exists>ms ds. r = (s\<lparr>ps_nodes := (ps_nodes s)[i := p\<lparr>p_children := p_children p @ ds\<rparr>] @ ms\<rparr>, Some i)
                \<and> length ms = m
                \<and> list_all2 (\<lambda>d t. n \<le> d \<and> encodes ((ps_nodes s)[i := p\<lparr>p_children := p_children p @ ds\<rparr>] @ ms) d t) ds ts
                \<and> (\<forall>k < m. node_fine (n + m) (n + k) (ms ! k))
              else fails r))"

lemma parses_operands_nil:
  assumes "i < length (ps_nodes s)" "length (ps_nodes s) \<le> CCW_PAT_MAX_NODES"
    "length (p_children (ps_nodes s ! i)) \<le> CCW_PAT_MAX_CHILDREN"
  shows "parses_operands s i (Some []) (s, Some i)"
  using assms by (simp add: parses_operands_def Let_def)

lemma parses_operands_step:
  assumes i: "i < length (ps_nodes s)" and t: "length ms1 = pnodes t" "encodes (ps_nodes s @ ms1) (length (ps_nodes s)) t"
    and fine: "\<forall>k < length ms1. node_fine (length (ps_nodes s) + length ms1) (length (ps_nodes s) + k) (ms1 ! k)"
    and r: "parses_operands (set_pat (appended s ms1) i (\<lambda>n. n\<lparr>p_children := p_children n @ [length (ps_nodes s)]\<rparr>)) i ts r"
  shows "parses_operands s i (map_option (Cons t) ts) r"
proof (cases ts)
  case None
  with r show ?thesis by (simp add: parses_operands_def)
next
  case (Some us)
  let ?p = "ps_nodes s ! i" and ?n = "length (ps_nodes s)"
  let ?m = "sum_list (map pnodes us)"
  define s1 where "s1 = set_pat (appended s ms1) i (\<lambda>n. n\<lparr>p_children := p_children n @ [?n]\<rparr>)"
  have nodes1: "ps_nodes s1 = (ps_nodes s)[i := ?p\<lparr>p_children := p_children ?p @ [?n]\<rparr>] @ ms1"
    using i by (simp add: s1_def set_pat_def appended_def nth_append list_update_append)
  have at1: "ps_nodes s1 ! i = ?p\<lparr>p_children := p_children ?p @ [?n]\<rparr>" using i by (simp add: nodes1 nth_append)
  have len1: "length (ps_nodes s1) = ?n + pnodes t" by (simp add: nodes1 t(1))
  have cond: "length (p_children (ps_nodes s1 ! i)) + length us \<le> CCW_PAT_MAX_CHILDREN
      \<and> length (ps_nodes s1) + ?m \<le> CCW_PAT_MAX_NODES
    \<longleftrightarrow> length (p_children ?p) + length (t # us) \<le> CCW_PAT_MAX_CHILDREN
      \<and> ?n + sum_list (map pnodes (t # us)) \<le> CCW_PAT_MAX_NODES"
    by (simp add: at1 len1 add.assoc)
  show ?thesis
  proof (cases "length (p_children ?p) + length (t # us) \<le> CCW_PAT_MAX_CHILDREN
      \<and> ?n + sum_list (map pnodes (t # us)) \<le> CCW_PAT_MAX_NODES")
    case False
    then have "fails r" using r Some cond unfolding s1_def [symmetric] by (simp add: parses_operands_def Let_def split: if_splits)
    with False Some show ?thesis by (auto simp: parses_operands_def Let_def)
  next
    case True
    from r have "parses_operands s1 i (Some us) r" by (simp add: s1_def Some)
    then obtain ms ds where ms: "r = (s1\<lparr>ps_nodes := (ps_nodes s1)[i := (ps_nodes s1 ! i)\<lparr>p_children := p_children (ps_nodes s1 ! i) @ ds\<rparr>] @ ms\<rparr>, Some i)"
      "length ms = ?m"
      "list_all2 (\<lambda>d t. length (ps_nodes s1) \<le> d \<and> encodes ((ps_nodes s1)[i := (ps_nodes s1 ! i)\<lparr>p_children := p_children (ps_nodes s1 ! i) @ ds\<rparr>] @ ms) d t) ds us"
      "\<forall>k < ?m. node_fine (length (ps_nodes s1) + ?m) (length (ps_nodes s1) + k) (ms ! k)"
      using True unfolding cond [symmetric] parses_operands_def Let_def by (auto split: if_splits)
    let ?ns = "(ps_nodes s)[i := ?p\<lparr>p_children := p_children ?p @ ?n # ds\<rparr>] @ ms1 @ ms"
    have ns: "(ps_nodes s1)[i := (ps_nodes s1 ! i)\<lparr>p_children := p_children (ps_nodes s1 ! i) @ ds\<rparr>] @ ms = ?ns"
      using i by (simp add: at1) (simp add: nodes1 list_update_append)
    have "encodes ?ns ?n t"
      by (rule encodes_frame [OF t(2)]) (use i in \<open>auto simp: nth_append\<close>)
    moreover have "list_all2 (\<lambda>d t. ?n \<le> d \<and> encodes ?ns d t) ds us"
      using ms(3) unfolding ns len1 by (rule list_all2_mono) simp
    moreover have "\<forall>k < length (ms1 @ ms). node_fine (?n + length (ms1 @ ms)) (?n + k) ((ms1 @ ms) ! k)"
    proof (intro allI impI)
      fix k
      assume k: "k < length (ms1 @ ms)"
      show "node_fine (?n + length (ms1 @ ms)) (?n + k) ((ms1 @ ms) ! k)"
      proof (cases "k < length ms1")
        case True
        with fine show ?thesis by (auto simp: nth_append intro: node_fine_mono)
      next
        case False
        define l where "l = k - pnodes t"
        have l: "k = pnodes t + l" "l < ?m" using False k ms(2) t(1) by (simp_all add: l_def)
        have "node_fine (?n + pnodes t + ?m) (?n + pnodes t + l) (ms ! l)" using ms(4) l(2) by (simp add: len1)
        with False show ?thesis by (simp add: nth_append t(1) ms(2) l(1) add.assoc)
      qed
    qed
    moreover have "r = (s\<lparr>ps_nodes := ?ns\<rparr>, Some i)" using ms(1) unfolding ns by (simp add: s1_def set_pat_def appended_def)
    moreover have "length (ms1 @ ms) = sum_list (map pnodes (t # us))" using ms(2) t(1) by simp
    ultimately show ?thesis using True Some unfolding parses_operands_def Let_def
      by (auto intro!: exI [of _ "ms1 @ ms"] exI [of _ "?n # ds"])
  qed
qed

lemma parser_spec:
  shows "\<not> ps_failed s \<Longrightarrow> length (ps_nodes s) \<le> CCW_PAT_MAX_NODES \<Longrightarrow> parses s (sexp_term x) (parse_node s x)"
    and "\<not> ps_failed s \<Longrightarrow> i < length (ps_nodes s) \<Longrightarrow> length (ps_nodes s) \<le> CCW_PAT_MAX_NODES \<Longrightarrow>
      length (p_children (ps_nodes s ! i)) \<le> CCW_PAT_MAX_CHILDREN \<Longrightarrow>
      parses_operands s i (those (map sexp_term xs)) (parse_operands s i xs)"
proof (induction s x and s i xs rule: parse_node_parse_operands.induct)
  case (1 s aty val)
  then show ?case by (simp add: parse_atom_spec)
next
  case (2 s)
  then show ?case by (simp add: parses_def fails_pfail)
next
  case (3 s x xs)
  show ?case
  proof (cases "atom_text (Some x)")
    case None
    then show ?thesis by (simp add: parses_def fails_pfail)
  next
    case (Some h)
    show ?thesis
    proof (cases "length (ps_nodes s) < CCW_PAT_MAX_NODES")
      case False
      then have "fails (parse_node s (SexpList (x # xs)))" using Some by (simp add: alloc_node_eq fails_pfail)
      moreover have "\<not> length (ps_nodes s) + pnodes t \<le> CCW_PAT_MAX_NODES" for t using False pnodes_pos [of t] by linarith
      ultimately show ?thesis by (simp add: parses_def del: parse_node.simps sexp_term.simps split: option.splits)
    next
      case True
      let ?n = "length (ps_nodes s)"
      let ?p = "\<lparr>p_kind = CCW_PAT_OP, p_text = text32 h, p_value = 0, p_children = []\<rparr>"
      show ?thesis
      proof (cases "h = ''iconst''")
        case ic: True
        then show ?thesis using parse_iconst_spec [OF True, of x xs] True Some by (simp add: alloc_node_eq)
      next
        case ni: False
        let ?s = "appended s [?p]"
        have set1: "set_pat (appended s [blank_pat]) ?n (\<lambda>n. n\<lparr>p_kind := CCW_PAT_OP, p_text := text32 h\<rparr>) = ?s"
          by (simp add: set_pat_last blank_pat_def)
        have call: "parse_node s (SexpList (x # xs)) = parse_operands ?s ?n xs"
          using Some True ni set1 by (simp add: alloc_node_eq)
        have alloc: "alloc_node s = (appended s [blank_pat], Some ?n)" using True by (simp add: alloc_node_eq)
        have sp: "ps_nodes ?s = ps_nodes s @ [?p]" by (simp add: appended_def)
        have "parses_operands ?s ?n (those (map sexp_term xs)) (parse_operands ?s ?n xs)"
          using 3(1) [OF Some alloc [symmetric] refl ni, unfolded set1] 3(2) True sp by (simp add: appended_def)
        then have P: "parses_operands ?s ?n (those (map sexp_term xs)) (parse_node s (SexpList (x # xs)))"
          by (simp only: call)
        show ?thesis
        proof (cases "those (map sexp_term xs)")
          case None
          with P Some ni show ?thesis by (simp add: parses_operands_def parses_def del: parse_node.simps)
        next
          case (Some ts)
          let ?m = "sum_list (map pnodes ts)"
          have trm: "sexp_term (SexpList (x # xs)) = (if length ts \<le> CCW_PAT_MAX_CHILDREN then Some (POp (text32 h) ts) else None)"
            using \<open>atom_text (Some x) = Some h\<close> ni Some by simp
          show ?thesis
          proof (cases "length ts \<le> CCW_PAT_MAX_CHILDREN \<and> ?n + Suc ?m \<le> CCW_PAT_MAX_NODES")
            case False
            then have "fails (parse_node s (SexpList (x # xs)))"
              using P Some sp by (auto simp: parses_operands_def Let_def simp del: parse_node.simps split: if_splits)
            with False trm show ?thesis by (auto simp: parses_def simp del: parse_node.simps sexp_term.simps)
          next
            case fit: True
            then obtain ms ds where r: "parse_node s (SexpList (x # xs)) = (?s\<lparr>ps_nodes := (ps_nodes ?s)[?n := (ps_nodes ?s ! ?n)\<lparr>p_children := p_children (ps_nodes ?s ! ?n) @ ds\<rparr>] @ ms\<rparr>, Some ?n)"
              "length ms = ?m"
              "list_all2 (\<lambda>d t. length (ps_nodes ?s) \<le> d \<and> encodes ((ps_nodes ?s)[?n := (ps_nodes ?s ! ?n)\<lparr>p_children := p_children (ps_nodes ?s ! ?n) @ ds\<rparr>] @ ms) d t) ds ts"
              "\<forall>k < ?m. node_fine (length (ps_nodes ?s) + ?m) (length (ps_nodes ?s) + k) (ms ! k)"
              using P Some sp unfolding parses_operands_def Let_def by (auto simp del: parse_node.simps)
            let ?q = "?p\<lparr>p_children := ds\<rparr>"
            have ns: "(ps_nodes ?s)[?n := (ps_nodes ?s ! ?n)\<lparr>p_children := p_children (ps_nodes ?s ! ?n) @ ds\<rparr>] @ ms = ps_nodes s @ ?q # ms"
              by (simp add: sp)
            have enc: "list_all2 (\<lambda>d t. ?n < d \<and> encodes (ps_nodes s @ ?q # ms) d t) ds ts"
              using r(3) unfolding ns by (rule list_all2_mono) (simp add: sp)
            have "encodes (ps_nodes s @ ?q # ms) ?n (POp (text32 h) ts)"
              by (rule encodes.opn [OF _ _ enc]) simp_all
            moreover have "\<forall>k < length (?q # ms). node_fine (?n + length (?q # ms)) (?n + k) ((?q # ms) ! k)"
            proof (intro allI impI)
              fix k
              assume k: "k < length (?q # ms)"
              show "node_fine (?n + length (?q # ms)) (?n + k) ((?q # ms) ! k)"
              proof (cases k)
                case 0
                have "\<forall>d \<in> set ds. ?n < d \<and> d < ?n + length (?q # ms)"
                proof
                  fix d
                  assume "d \<in> set ds"
                  then obtain t where "?n < d \<and> encodes (ps_nodes s @ ?q # ms) d t"
                    using enc by (auto simp: list_all2_conv_all_nth in_set_conv_nth)
                  then show "?n < d \<and> d < ?n + length (?q # ms)" using encodes_bound by fastforce
                qed
                moreover have "length ds = length ts" using enc by (simp add: list_all2_lengthD)
                ultimately show ?thesis using fit 0 by (simp add: node_fine_def text32_length)
              next
                case (Suc l)
                then show ?thesis using r(2,4) k by (simp add: sp)
              qed
            qed
            moreover have "parse_node s (SexpList (x # xs)) = (appended s (?q # ms), Some ?n)"
              using r(1) unfolding ns by (simp add: appended_def)
            ultimately show ?thesis using fit r(2) trm
              unfolding parses_def by (auto simp del: parse_node.simps sexp_term.simps intro!: exI [of _ "?q # ms"])
          qed
        qed
      qed
    qed
  qed
next
  case (4 s i)
  then show ?case by (simp add: parses_operands_nil)
next
  case (5 s i x xs)
  have P: "parses s (sexp_term x) (parse_node s x)" using 5(1) 5(3,5) by blast
  let ?n = "length (ps_nodes s)"
  have failed: ?case if f: "fails (parse_node s x)"
    and no: "\<And>t ts. sexp_term x = Some t \<Longrightarrow> those (map sexp_term xs) = Some ts \<Longrightarrow> \<not> ?n + sum_list (map pnodes (t # ts)) \<le> CCW_PAT_MAX_NODES"
  proof -
    obtain s1 where "parse_node s x = (s1, None)" "ps_failed s1"
      using f by (cases "parse_node s x") (simp add: fails_def)
    then have "fails (parse_operands s i (x # xs))" by (simp add: fails_def)
    with no show ?thesis
      by (auto simp: parses_operands_def Let_def simp del: parse_operands.simps split: option.splits)
  qed
  show ?case
  proof (cases "sexp_term x")
    case None
    with P show ?thesis by (intro failed) (simp_all add: parses_def)
  next
    case (Some t)
    show ?thesis
    proof (cases "?n + pnodes t \<le> CCW_PAT_MAX_NODES")
      case False
      with P Some show ?thesis by (intro failed) (simp_all add: parses_def)
    next
      case fit: True
      with P Some obtain ms where ms: "parse_node s x = (appended s ms, Some ?n)" "length ms = pnodes t"
        "encodes (ps_nodes s @ ms) ?n t" "\<forall>k < length ms. node_fine (?n + length ms) (?n + k) (ms ! k)"
        by (auto simp: parses_def)
      have nf: "\<not> ps_failed (appended s ms)" using 5(3) by (simp add: appended_def)
      have pc: "p_children (ps_nodes (appended s ms) ! i) = p_children (ps_nodes s ! i)"
        using 5(4) by (simp add: appended_def nth_append)
      show ?thesis
      proof (cases "length (p_children (ps_nodes s ! i)) \<ge> CCW_PAT_MAX_CHILDREN")
        case True
        then have "fails (parse_operands s i (x # xs))" using ms nf pc by (simp add: fails_pfail)
        moreover have "\<not> length (p_children (ps_nodes s ! i)) + Suc k \<le> CCW_PAT_MAX_CHILDREN" for k using True by simp
        ultimately show ?thesis using Some
          by (auto simp: parses_operands_def Let_def simp del: parse_operands.simps split: option.splits)
      next
        case False
        let ?s = "set_pat (appended s ms) i (\<lambda>n. n\<lparr>p_children := p_children n @ [?n]\<rparr>)"
        have call: "parse_operands s i (x # xs) = parse_operands ?s i xs" using ms nf pc False by simp
        have ns: "ps_nodes ?s = (ps_nodes s)[i := (ps_nodes s ! i)\<lparr>p_children := p_children (ps_nodes s ! i) @ [?n]\<rparr>] @ ms"
          using 5(4) by (simp add: set_pat_def appended_def nth_append list_update_append)
        have "parses_operands ?s i (those (map sexp_term xs)) (parse_operands ?s i xs)"
        proof (rule 5(2) [OF ms(1) [symmetric] refl _ _])
          show "\<not> ps_failed (appended s ms)" by (rule nf)
          show "\<not> CCW_PAT_MAX_CHILDREN \<le> length (p_children (ps_nodes (appended s ms) ! i))" using False pc by simp
          show "\<not> ps_failed ?s" using nf by (simp add: set_pat_def)
          show "i < length (ps_nodes ?s)" "length (ps_nodes ?s) \<le> CCW_PAT_MAX_NODES"
            "length (p_children (ps_nodes ?s ! i)) \<le> CCW_PAT_MAX_CHILDREN"
            using 5(4) fit ms(2) False by (simp_all add: ns nth_append)
        qed
        from parses_operands_step [OF 5(4) ms(2-4) this]
        have "parses_operands s i (map_option (Cons t) (those (map sexp_term xs))) (parse_operands s i (x # xs))"
          by (simp only: call)
        then show ?thesis using Some by simp
      qed
    qed
  qed
qed

section \<open>Whole patterns\<close>

lemma pattern_parse_accepts:
  assumes "parse_sexp t = Some x" "sexp_term x = Some u" "pnodes u \<le> CCW_PAT_MAX_NODES"
  shows "\<exists>pat. ccw_pattern_parse parse_sexp (Some t) = Inr pat \<and> wf_pattern pat \<and> term_of_pattern pat = u"
proof -
  let ?s = "\<lparr>ps_nodes = [], ps_reason = [], ps_failed = False\<rparr>"
  have "parses ?s (Some u) (parse_node ?s x)" using parser_spec(1) [of ?s x] assms(2) by simp
  then obtain ms where ms: "parse_node ?s x = (appended ?s ms, Some 0)" "length ms = pnodes u" "encodes ms 0 u"
    "\<forall>k < length ms. node_fine (length ms) k (ms ! k)"
    using assms(3) by (auto simp: parses_def)
  let ?p = "\<lparr>p_nodes = ms, p_root = 0\<rparr>"
  have "ccw_pattern_parse parse_sexp (Some t) = Inr ?p"
    using assms(1) ms(1) by (simp add: ccw_pattern_parse_def appended_def)
  moreover have "wf_pattern ?p"
  proof -
    have "0 < length ms \<and> length ms \<le> CCW_PAT_MAX_NODES" using ms(2) assms(3) pnodes_pos [of u] by linarith
    with ms(4) show ?thesis unfolding wf_pattern_def node_fine_def ccw_pattern.simps by blast
  qed
  moreover have "term_of_pattern ?p = u" using encodes_term [OF ms(3)] by (simp add: term_of_pattern_def)
  ultimately show ?thesis by blast
qed

lemma pattern_parse_rejects:
  assumes "ccw_pattern_parse parse_sexp input = Inr pat"
  shows "\<exists>t x u. input = Some t \<and> parse_sexp t = Some x \<and> sexp_term x = Some u \<and> pnodes u \<le> CCW_PAT_MAX_NODES"
proof -
  obtain t x where t: "input = Some t" "parse_sexp t = Some x"
    using assms by (auto simp: ccw_pattern_parse_def split: option.splits)
  let ?s = "\<lparr>ps_nodes = [], ps_reason = [], ps_failed = False\<rparr>"
  have P: "parses ?s (sexp_term x) (parse_node ?s x)" using parser_spec(1) [of ?s x] by simp
  have "\<not> fails (parse_node ?s x)"
    using assms t by (auto simp: ccw_pattern_parse_def fails_def split: prod.splits option.splits)
  with P t show ?thesis by (auto simp: parses_def split: option.splits if_splits)
qed

lemma pattern_parse_iff:
  "(\<exists>pat. ccw_pattern_parse parse_sexp (Some t) = Inr pat \<and> term_of_pattern pat = u)
   \<longleftrightarrow> (\<exists>x. parse_sexp t = Some x \<and> sexp_term x = Some u \<and> pnodes u \<le> CCW_PAT_MAX_NODES)"
proof
  assume "\<exists>pat. ccw_pattern_parse parse_sexp (Some t) = Inr pat \<and> term_of_pattern pat = u"
  then obtain pat where p: "ccw_pattern_parse parse_sexp (Some t) = Inr pat" "term_of_pattern pat = u" by blast
  from pattern_parse_rejects [OF p(1)] obtain x v where x: "parse_sexp t = Some x" "sexp_term x = Some v" "pnodes v \<le> CCW_PAT_MAX_NODES"
    by auto
  from pattern_parse_accepts [where parse_sexp = parse_sexp and t = t, OF x] p have "v = u" by auto
  with x show "\<exists>x. parse_sexp t = Some x \<and> sexp_term x = Some u \<and> pnodes u \<le> CCW_PAT_MAX_NODES" by blast
next
  assume "\<exists>x. parse_sexp t = Some x \<and> sexp_term x = Some u \<and> pnodes u \<le> CCW_PAT_MAX_NODES"
  then obtain x where "parse_sexp t = Some x" "sexp_term x = Some u" "pnodes u \<le> CCW_PAT_MAX_NODES" by blast
  from pattern_parse_accepts [where parse_sexp = parse_sexp and t = t, OF this]
  show "\<exists>pat. ccw_pattern_parse parse_sexp (Some t) = Inr pat \<and> term_of_pattern pat = u" by blast
qed

lemma pattern_parse_wf:
  assumes "ccw_pattern_parse parse_sexp input = Inr pat"
  shows "wf_pattern pat"
proof -
  from pattern_parse_rejects [OF assms] obtain t x u where t: "input = Some t" "parse_sexp t = Some x"
    "sexp_term x = Some u" "pnodes u \<le> CCW_PAT_MAX_NODES" by auto
  from pattern_parse_accepts [where parse_sexp = parse_sexp and t = t, OF t(2-4)] assms t(1) show ?thesis by auto
qed

section \<open>Terms as S-expressions\<close>

definition atom :: "string \<Rightarrow> sexp" where
  "atom s = SexpValue SEXP_BASIC (Some s)"

fun term_sexp :: "pterm \<Rightarrow> sexp" where
  "term_sexp (PVar x) = atom x"
| "term_sexp (PConst v) = SexpList [atom ''iconst'', atom (dec_int (sint v))]"
| "term_sexp (PConstVar x) = SexpList [atom ''iconst'', atom x]"
| "term_sexp (POp f ts) = SexpList (atom f # map term_sexp ts)"

fun printable :: "pterm \<Rightarrow> bool" where
  "printable (PVar x) \<longleftrightarrow> starts_var x \<and> length x \<le> 31"
| "printable (PConst v) \<longleftrightarrow> True"
| "printable (PConstVar x) \<longleftrightarrow> starts_var x \<and> length x \<le> 31"
| "printable (POp f ts) \<longleftrightarrow> f \<noteq> ''iconst'' \<and> length f \<le> 31 \<and> length ts \<le> CCW_PAT_MAX_CHILDREN \<and> (\<forall>t \<in> set ts. printable t)"

lemma strtoll_dec_int:
  assumes "llong_min \<le> i" "i \<le> llong_max"
  shows "strtoll (dec_int i) = Some (i, [])"
proof -
  obtain c cs where d: "dec_nat (nat \<bar>i\<bar>) = c # cs" and c: "isdigit c" "\<not> isspace c" "c \<noteq> CHR ''-''" "c \<noteq> CHR ''+''"
    and digs: "\<forall>x \<in> set (c # cs). isdigit x" by (rule dec_nat_head)
  have tw: "takeWhile isdigit cs = cs" "dropWhile isdigit cs = []"
    using digs by (simp_all add: takeWhile_eq_all_conv dropWhile_eq_Nil_conv)
  have v: "digits_val (c # cs) = nat \<bar>i\<bar>" using d digits_val_dec_nat [of "nat \<bar>i\<bar>"] by simp
  show ?thesis
  proof (cases "i < 0")
    case True
    then have e: "dec_int i = CHR ''-'' # c # cs" using d by (simp add: dec_int_def)
    have "dropWhile isspace (CHR ''-'' # c # cs) = CHR ''-'' # c # cs" by (simp add: isspace_def)
    then show ?thesis unfolding e strtoll_def Let_def using True assms c by (simp add: tw v)
  next
    case False
    then have e: "dec_int i = c # cs" using d by (simp add: dec_int_def)
    have "dropWhile isspace (c # cs) = c # cs" using c by simp
    then show ?thesis unfolding e strtoll_def Let_def using False assms c by (simp add: tw v)
  qed
qed

lemma dec_int_not_var: "dec_int i \<noteq> [] \<and> hd (dec_int i) \<noteq> CHR ''?''"
proof -
  obtain c cs where d: "dec_nat (nat \<bar>i\<bar>) = c # cs" and c: "isdigit c" by (rule dec_nat_head)
  have "c \<noteq> CHR ''?''" using c by (auto simp: isdigit_def)
  with d show ?thesis by (cases "i < 0") (simp_all add: dec_int_def)
qed

lemma parse_integer_dec: "parse_integer (Some (dec_int (sint (v :: 64 word)))) = Some v"
proof -
  have "llong_min \<le> sint v" "sint v \<le> llong_max"
    using sint_ge [of v] sint_lt [of v] by (simp_all add: llong_min_def llong_max_def)
  from strtoll_dec_int [OF this] show ?thesis using dec_int_not_var [of "sint v"] by (simp add: parse_integer_def)
qed

lemma those_map_Some: "(\<forall>x \<in> set xs. f x = Some (g x)) \<Longrightarrow> those (map f xs) = Some (map g xs)"
  by (induction xs) simp_all

lemma sexp_term_sexp: "printable t \<Longrightarrow> sexp_term (term_sexp t) = Some t"
proof (induction t rule: term_sexp.induct)
  case (2 v)
  then show ?case using parse_integer_dec [of v] dec_int_not_var [of "sint v"]
    by (simp add: atom_def iconst_term_def starts_var_def)
next
  case (4 f ts)
  have "those (map sexp_term (map term_sexp ts)) = Some (map id ts)"
    unfolding map_map using 4 by (intro those_map_Some) simp
  with 4 show ?case by (simp add: atom_def text32_def comp_def)
qed (simp_all add: atom_def atom_term_def iconst_term_def text32_def)

section \<open>Ruleset files\<close>

definition loaded_rule :: "ccw_rule \<Rightarrow> bool" where
  "loaded_rule r \<longleftrightarrow> wf_pattern (r_lhs r) \<and> wf_pattern (r_rhs r) \<and> r_side r = None \<and> length (r_name r) \<le> 63"

lemma rule_add_loaded:
  assumes "ccw_oeuph_rule_add ps rs nm l r b None = Inr rs'" "\<forall>r \<in> set (rs_rules rs). loaded_rule r"
  shows "\<forall>r \<in> set (rs_rules rs'). loaded_rule r"
  using assms by (auto simp: ccw_oeuph_rule_add_def Let_def loaded_rule_def split: sum.splits)
    (blast intro: pattern_parse_wf)+

lemma load_rule_loaded:
  assumes "load_rule ps pr rs items = Inr rs'" "\<forall>r \<in> set (rs_rules rs). loaded_rule r"
  shows "\<forall>r \<in> set (rs_rules rs'). loaded_rule r"
  using assms rule_add_loaded [OF _ assms(2)]
  by (auto simp: load_rule_def split: option.splits list.splits sum.splits)

lemma load_forms_loaded:
  assumes "load_forms ps pr rs forms = Inr (Some rs')" "\<forall>r0. rs = Some r0 \<longrightarrow> (\<forall>r \<in> set (rs_rules r0). loaded_rule r)"
  shows "\<forall>r \<in> set (rs_rules rs'). loaded_rule r"
  using assms
proof (induction ps pr rs forms rule: load_forms.induct)
  case (3 ps pr rs items forms)
  show ?case
  proof (cases "is_atom (item_at items 0) ''ruleset''")
    case True
    then obtain name where n: "atom_text (item_at items 1) = Some name" "length items = 2"
      "load_forms ps pr (if rs = None then Some (ccw_oeuph_ruleset_create (Some name)) else rs) forms = Inr (Some rs')"
      using 3(4) by (auto split: option.splits if_splits)
    show ?thesis
      by (rule 3(1) [OF True n(1) _ n(3)]) (use n(2) 3(5) in \<open>auto simp: ccw_oeuph_ruleset_create_def split: if_splits\<close>)
  next
    case nr: False
    show ?thesis
    proof (cases "is_atom (item_at items 0) ''rule''")
      case True
      then obtain r r' where r: "rs = Some r" "load_rule ps pr r items = Inr r'" "load_forms ps pr (Some r') forms = Inr (Some rs')"
        using 3(4) nr by (auto split: option.splits sum.splits)
      show ?thesis
        by (rule 3(2) [OF nr True r(1,2,3)]) (use load_rule_loaded [OF r(2)] 3(5) r(1) in simp)
    next
      case False
      then show ?thesis using 3(3) [OF nr False] 3(4,5) nr by simp
    qed
  qed
qed simp_all

lemma ruleset_load_rules:
  assumes "ccw_oeuph_ruleset_load ps pr contents = Inr rs"
  shows "\<forall>r \<in> set (rs_rules rs). loaded_rule r"
proof -
  obtain root where "load_forms ps pr None (drop 1 (sexp_items root)) = Inr (Some rs)"
    using assms by (auto simp: ccw_oeuph_ruleset_load_def split: option.splits sum.splits)
  then show ?thesis by (rule load_forms_loaded) simp
qed

end
