(* ===== verification/Oeuph_Demo.thy ===== *)
theory Oeuph_Demo
  imports Oeuph_Meaning Oeuph_Parse Oeuph_Rooms IR_Demo "HOL-Library.Code_Target_Nat"
begin

text \<open>
  Concrete rulesets, e-graphs and modules, on which the properties of Oeuph are instantiated. The rules
  are taken from \<open>rewrite-salvo/arith/strength-reduction\<close> and \<open>cmp/range\<close>. The S-expression library is
  instantiated by a printer and by the search of a text among the printed forms of a list.
\<close>

declare extract_loop.simps [code]

section \<open>S-expressions\<close>

fun demo_print :: "sexp \<Rightarrow> string" where
  "demo_print (SexpValue a v) = (case v of None \<Rightarrow> [] | Some t \<Rightarrow> t)"
| "demo_print (SexpList xs) = ''('' @ concat (map (\<lambda>x. demo_print x @ '' '') xs) @ '')''"

definition demo_parse :: "sexp list \<Rightarrow> string \<Rightarrow> sexp option" where
  "demo_parse known t = find (\<lambda>x. demo_print x = t) known"

definition mul_sexp :: "string \<Rightarrow> sexp" where
  "mul_sexp c = SexpList [atom ''imul'', atom ''?x'', SexpList [atom ''iconst'', atom c]]"

definition shl_sexp :: "string \<Rightarrow> sexp" where
  "shl_sexp c = SexpList [atom ''shl'', atom ''?x'', SexpList [atom ''iconst'', atom c]]"

definition add_shl_sexp :: sexp where
  "add_shl_sexp = SexpList [atom ''iadd'', shl_sexp ''1'', atom ''?x'']"

definition rule_sexp :: "string \<Rightarrow> sexp \<Rightarrow> sexp \<Rightarrow> sexp" where
  "rule_sexp n l r = SexpList [atom ''rule'', atom n, l, r, atom '':bidirectional'', atom ''#t'']"

definition strength_forms :: "sexp list" where
  "strength_forms =
     [SexpList [atom ''ruleset'', atom ''arith.strength-reduction''],
      rule_sexp ''mul-2-shl-1'' (mul_sexp ''2'') (shl_sexp ''1'')]"

definition demo_known :: "sexp list" where
  "demo_known = [mul_sexp ''2'', mul_sexp ''3'', shl_sexp ''1'', add_shl_sexp]"

text \<open>The library reads the wrapped file as these forms and every pattern as itself.\<close>

definition strength_parse :: "string \<Rightarrow> sexp option" where
  "strength_parse t =
     (if t = wrap_source ''strength'' then Some (SexpList (atom ''ccw-ruleset-root'' # strength_forms))
      else demo_parse demo_known t)"

definition strength_rules :: "(string + ccw_oeuph_ruleset)" where
  "strength_rules = ccw_oeuph_ruleset_load strength_parse (\<lambda>x. Some (demo_print x)) (Some ''strength'')"

definition the_rules :: ccw_oeuph_ruleset where
  "the_rules = (case strength_rules of Inr rs \<Rightarrow> rs | Inl e \<Rightarrow> ccw_oeuph_ruleset_create None)"

definition one_rule :: "string \<Rightarrow> sexp \<Rightarrow> sexp \<Rightarrow> ccw_oeuph_ruleset" where
  "one_rule n l r =
     (case ccw_oeuph_rule_add (demo_parse [l, r]) (ccw_oeuph_ruleset_create (Some ''demo'')) (Some n)
        (Some (demo_print l)) (Some (demo_print r)) False None of
        Inr rs \<Rightarrow> rs | Inl e \<Rightarrow> ccw_oeuph_ruleset_create None)"

lemma the_rules_loaded: "strength_rules = Inr the_rules \<and> length (rs_rules the_rules) = 1"
  by code_simp

section \<open>Modules\<close>

text \<open>A function with one instruction \<open>dest = opcode x, operand\<close>.\<close>

definition demo_instr :: "string \<Rightarrow> (ccw_ir \<Rightarrow> ccw_ir \<times> ccw_node) \<Rightarrow> ccw_ir" where
  "demo_instr opcode operand =
     (let ir0 = fst (ccw_ir_function_add (ccw_ir_module_create (Some ''demo'') CCW_PROFILE_TILLY) (Some ''main'') CCW_TY_I64);
          (ir1, b) = ccw_ir_block_add ir0 1 (Some ''entry'');
          (ir2, x) = ccw_ir_operand_reg ir1 (Some ''x'');
          (ir3, y) = operand ir2;
          (ir4, i) = ccw_ir_instr_build ir3 (Some opcode) CCW_TY_I64;
          ir5 = fst (ccw_ir_instr_set_dest ir4 i (Some ''d''));
          ir6 = fst (ccw_ir_instr_add_operand ir5 i x);
          ir7 = fst (ccw_ir_instr_add_operand ir6 i y)
      in fst (ccw_ir_block_append_instr ir7 b i))"

definition demo_mul :: "64 word \<Rightarrow> ccw_ir" where
  "demo_mul c = demo_instr ''imul'' (\<lambda>ir. ccw_ir_operand_const_int ir CCW_TY_I64 c)"

lemma wf_demo_instr:
  assumes "\<And>ir. wf_ir ir \<Longrightarrow> wf_ir (fst (operand ir))"
  shows "wf_ir (demo_instr opcode operand)"
  unfolding demo_instr_def Let_def split_beta
  by (intro wf_append wf_add_operand wf_set_dest wf_instr_build assms wf_operand_named wf_block_add
      wf_function_add wf_module_create)

lemma wf_demo_mul: "wf_ir (demo_mul c)"
  unfolding demo_mul_def by (intro wf_demo_instr wf_operand_const)

text \<open>Words with the opcodes of the rules.\<close>

definition word_op :: "string \<Rightarrow> 64 word list \<Rightarrow> 64 word" where
  "word_op f xs =
     (case xs of
        [a, b] \<Rightarrow>
          if f = ''imul'' then a * b
          else if f = ''iadd'' then a + b
          else if f = ''shl'' then push_bit (unat b) a
          else 0
      | _ \<Rightarrow> 0)"

lemma the_rules_terms:
  "map (\<lambda>r. (term_of_pattern (r_lhs r), term_of_pattern (r_rhs r), r_side r)) (rs_rules the_rules)
     = [(POp ''imul'' [PVar ''?x'', PConst 2], POp ''shl'' [PVar ''?x'', PConst 1], None)]"
  by code_simp

definition run_views :: "ccw_ir \<Rightarrow> ccw_oeuph_ruleset \<Rightarrow> ccw_cost_model \<Rightarrow> instr_view list" where
  "run_views ir rs model =
     (case ccw_oeuph_run (\<lambda>_ _. False) ir (Some rs) ccw_oeuph_default_budget model of
        Some (ir', _) \<Rightarrow> block_view ir' 2 | None \<Rightarrow> [])"

lemma demo_mul_2: "run_views (demo_mul 2) the_rules CCW_COST_PERFORMANCE
    = [\<lparr>v_opcode = Some ''shl'', v_dest = Some ''d'', v_type = CCW_TY_I64, v_operands = [SReg ''x'', SInt 1]\<rparr>]"
  by code_simp

text \<open>What saturation makes of \<open>imul x 2\<close>.\<close>

definition demo_stats :: ccw_oeuph_stats where
  "demo_stats = \<lparr>s_ruleset = [], s_iterations = 0, s_nodes = 0, s_classes = 0, s_matches = 0, s_applications = 0,
     s_saturated = True, s_budget_hit = []\<rparr>"

lemma demo_saturated: "case import_instr empty_egraph (demo_mul 2) 5 of
    (g, i) \<Rightarrow> g_count (fst (saturate 2 (\<lambda>_ _. False) ccw_oeuph_default_budget (rs_rules the_rules) g demo_stats)) = 5"
  by code_simp

text \<open>The rule \<open>mul-3-shift-add\<close> of \<open>arith/strength-reduction\<close>: the shift inside the sum has no name to write.\<close>

definition mul3_rules :: ccw_oeuph_ruleset where
  "mul3_rules = one_rule ''mul-3-shift-add'' (mul_sexp ''3'') add_shl_sexp"

definition mul3_import :: "egraph \<times> nat option" where
  "mul3_import = import_instr empty_egraph (demo_mul 3) 5"

definition mul3_graph :: "egraph \<times> ccw_oeuph_stats" where
  "mul3_graph = saturate 2 (\<lambda>_ _. False) ccw_oeuph_default_budget (rs_rules mul3_rules) (fst (eg_find (fst mul3_import) 2)) demo_stats"

definition mul3_written :: "ccw_ir \<times> bool" where
  "mul3_written = writeback_instr (demo_mul 3) 5 (fst mul3_graph) 5"

lemma mul3_block: "case ccw_ir_node_get (demo_mul 3) 2 of None \<Rightarrow> False
    | Some B \<Rightarrow> n_kind B = CCW_NODE_BLOCK \<and> n_children B = [5]"
  by code_simp

lemma mul3_proper: "\<forall>r \<in> set (rs_rules mul3_rules). proper_pattern (r_lhs r) \<and> proper_pattern (r_rhs r)"
  by code_simp

lemma mul3_made: "snd mul3_import = Some 2" "snd mul3_written = True"
  by code_simp+

lemma mul3_nodes: "g_nodes (fst mul3_graph) =
    [no_enode\<lparr>en_reg := ''x''\<rparr>, no_enode\<lparr>en_is_const := True, en_value := 3, en_eclass := 1\<rparr>,
     no_enode\<lparr>en_opcode := ''imul'', en_children := [0, 1], en_eclass := 2\<rparr>,
     no_enode\<lparr>en_is_const := True, en_value := 1, en_eclass := 3\<rparr>,
     no_enode\<lparr>en_opcode := ''shl'', en_children := [0, 3], en_eclass := 4\<rparr>,
     no_enode\<lparr>en_opcode := ''iadd'', en_children := [4, 0], en_eclass := 5\<rparr>]"
  by code_simp

lemma mul3_before: "v_operands (block_view (demo_mul 3) 2 ! 0) = [SReg ''x'', SInt 3]"
  by code_simp

end
