(* ===== verification/Oeuph_Props.thy ===== *)
theory Oeuph_Props
  imports Oeuph_Demo Oeuph_Extract
begin

text \<open>
  The properties of the rewriter Oeuph, each with its claim id, and their instances on the graphs, rules
  and modules of \<open>Oeuph_Demo\<close>.
\<close>

section \<open>The e-graph\<close>

text \<open>C2: the rebuild of a well-formed e-graph is its congruence closure. It keeps the e-nodes and the
  form of the graph; two e-nodes are in one class afterwards exactly when the least equivalence that
  contains the old classes and is closed under equal operators on equivalent children says so; and the
  loop is done after at most one round more than there are classes, so more rounds change nothing.\<close>

theorem rebuild_congruence_closure:
  assumes "wf_eg g"
  shows "wf_eg (eg_rebuild g) \<and> g_nodes (eg_rebuild g) = g_nodes g
    \<and> (\<forall>i < g_count g. \<forall>j < g_count g. rep (eg_rebuild g) i = rep (eg_rebuild g) j \<longleftrightarrow> closure g i j)
    \<and> (\<forall>m > classes g. rebuild_loop m g = eg_rebuild g)"
  using eg_rebuild_spec [OF assms] rebuild_closure [OF assms] by blast

text \<open>Small graphs: leaves and operators.\<close>

definition leaf_node :: "string \<Rightarrow> enode" where
  "leaf_node x = no_enode\<lparr>en_reg := x\<rparr>"

definition op_node :: "string \<Rightarrow> nat list \<Rightarrow> enode" where
  "op_node f cs = no_enode\<lparr>en_opcode := f, en_children := cs\<rparr>"

text \<open>The e-nodes \<open>x\<close>, \<open>y\<close>, \<open>f x\<close>, \<open>f y\<close>, \<open>g (f x)\<close>, \<open>g (f y)\<close>, with the classes of \<open>x\<close> and \<open>y\<close> joined.\<close>

definition demo_eg :: egraph where
  "demo_eg = fst (eg_union (foldl (\<lambda>g n. fst (eg_add_node g n)) empty_egraph
     [leaf_node ''x'', leaf_node ''y'', op_node ''f'' [0], op_node ''f'' [1], op_node ''g'' [2], op_node ''g'' [3]]) 0 1)"

lemma wf_eg_check: "wf_eg g \<longleftrightarrow> length (g_parent g) = g_count g \<and> list_all (\<lambda>i. g_parent g ! i \<le> i) [0..<length (g_parent g)]
    \<and> list_all (\<lambda>i. list_all (\<lambda>c. c < i) (en_children (g_nodes g ! i))) [0..<g_count g]"
  by (auto simp: wf_eg_def uf_def list_all_iff)

lemma wf_demo_eg: "wf_eg demo_eg"
  unfolding wf_eg_check by code_simp

theorem rebuild_congruence_closure_witness: "closure demo_eg 4 5 \<and> rep demo_eg 4 \<noteq> rep demo_eg 5 \<and> \<not> closure demo_eg 2 4"
proof -
  have c: "4 < g_count demo_eg" "5 < g_count demo_eg" "2 < g_count demo_eg" by code_simp+
  have r: "rep (eg_rebuild demo_eg) 4 = rep (eg_rebuild demo_eg) 5" "rep demo_eg 4 \<noteq> rep demo_eg 5"
    "rep (eg_rebuild demo_eg) 2 \<noteq> rep (eg_rebuild demo_eg) 4" by code_simp+
  note t = rebuild_congruence_closure [OF wf_demo_eg]
  show ?thesis using t c r by blast
qed

text \<open>C5: extraction of a well-formed graph ends. Its costs are of type \<open>int\<close>: either a sum leaves that type, which
  needs an e-node whose own term costs more than \<open>INT32_MAX\<close>, or for every class it has found the cheapest term of
  the class, with the smallest e-node among those that begin such a term, or that the class has no term cheaper than
  the sentinel of the cost array.\<close>

theorem extraction_optimal:
  assumes "wf_eg g"
  shows "case extract_best g model of
      None \<Rightarrow> \<exists>i < g_count g. INT32_MAX < tree_cost g model i
    | Some x \<Rightarrow> \<forall>cls < g_count g.
       (case x_node x ! cls of
          None \<Rightarrow> (\<forall>k. class_cost g model cls k \<longrightarrow> INT32_MAX \<le> k)
        | Some i \<Rightarrow> i < g_count g \<and> rep g i = cls \<and> x_cost x ! cls < INT32_MAX
            \<and> class_cost g model cls (x_cost x ! cls) \<and> total_cost g model (x_cost x) i = x_cost x ! cls
            \<and> (\<forall>k. class_cost g model cls k \<longrightarrow> x_cost x ! cls \<le> k)
            \<and> (\<forall>j < i. rep g j = cls \<longrightarrow> ready g (x_cost x) j \<longrightarrow> total_cost g model (x_cost x) j \<noteq> x_cost x ! cls))"
proof (cases "extract_best g model")
  case None
  with extract_ends [OF assms, of model] show ?thesis by simp
next
  case (Some x)
  with extract_ends [OF assms, of model] have "xinv g model x" "settled g model x" by simp_all
  from settled_class [OF assms this] Some show ?thesis by simp
qed

text \<open>In \<open>imul x 2 = shl x 1\<close> the shift is taken.\<close>

definition shift_eg :: egraph where
  "shift_eg = fst (eg_union (foldl (\<lambda>g n. fst (eg_add_node g n)) empty_egraph
     [leaf_node ''x'', no_enode\<lparr>en_is_const := True, en_value := 2\<rparr>, op_node ''imul'' [0, 1],
      no_enode\<lparr>en_is_const := True, en_value := 1\<rparr>, op_node ''shl'' [0, 3]]) 2 4)"

lemma wf_shift_eg: "wf_eg shift_eg"
  unfolding wf_eg_check by code_simp

theorem extraction_optimal_witness:
  "class_cost shift_eg CCW_COST_PERFORMANCE 2 6 \<and> \<not> class_cost shift_eg CCW_COST_PERFORMANCE 2 5"
proof -
  have r: "map_option (\<lambda>x. (x_node x ! 2, x_cost x ! 2)) (extract_best shift_eg CCW_COST_PERFORMANCE) = Some (Some 4, 6)"
    "2 < g_count shift_eg" by code_simp+
  then obtain y where y: "extract_best shift_eg CCW_COST_PERFORMANCE = Some y" "x_node y ! 2 = Some 4" "x_cost y ! 2 = 6"
    by auto
  have "\<not> (6::nat) \<le> 5" by simp
  with extraction_optimal [OF wf_shift_eg, of CCW_COST_PERFORMANCE] show ?thesis
    unfolding y(1) option.case by (elim allE [of _ 2]) (use r(2) y(2,3) in auto)
qed

section \<open>The allocations\<close>

text \<open>C6: the two arrays of an e-graph are large enough exactly as long as it has at most 64 e-nodes: for
  every instruction, rule list and budget, whatever saturation makes of the imported instruction lies
  inside the two blocks if and only if there are no more than 64 e-nodes. (The two reservations share one
  capacity, so the 65th e-node is written behind the end of the first block.)\<close>

theorem egraph_allocations:
  assumes "import_instr empty_egraph ir ins = (g, i)" "saturate k late budget rules g st = (g', st')"
  shows "in_rooms g' \<longleftrightarrow> g_count g' \<le> 64"
  using rooms.import_instr_P [OF assms(1) rooms_empty] rooms.saturate_P [OF assms(2)] rooms_in by blast

theorem egraph_allocations_witness:
  "case import_instr empty_egraph (demo_mul 2) 5 of
     (g, i) \<Rightarrow> in_rooms (fst (saturate 2 (\<lambda>_ _. False) ccw_oeuph_default_budget (rs_rules the_rules) g demo_stats))"
proof -
  obtain g i where g: "import_instr empty_egraph (demo_mul 2) 5 = (g, i)" by fastforce
  obtain g' st' where s: "saturate 2 (\<lambda>_ _. False) ccw_oeuph_default_budget (rs_rules the_rules) g demo_stats = (g', st')"
    by fastforce
  from egraph_allocations [OF g s] demo_saturated show ?thesis by (simp add: g s)
qed

section \<open>Patterns and rulesets\<close>

text \<open>C7: a pattern text is accepted exactly when the S-expression it reads as is a term of the pattern
  grammar with at most 64 nodes; the parsed pattern is well formed and means that term.\<close>

theorem pattern_parse_exact:
  "(\<exists>pat. ccw_pattern_parse parse_sexp (Some t) = Inr pat \<and> wf_pattern pat \<and> term_of_pattern pat = u)
   \<longleftrightarrow> (\<exists>x. parse_sexp t = Some x \<and> sexp_term x = Some u \<and> pnodes u \<le> CCW_PAT_MAX_NODES)"
  using pattern_parse_iff [of parse_sexp t u] pattern_parse_wf [where parse_sexp = parse_sexp and input = "Some t"] by blast

text \<open>C8: every pattern term that fits the limits (names of at most 31 characters, at most four operands,
  at most 64 nodes, variables that begin with a question mark, no operator called iconst) is read back
  from its S-expression.\<close>

theorem pattern_roundtrip:
  assumes "printable u" "pnodes u \<le> CCW_PAT_MAX_NODES" "parse_sexp t = Some (term_sexp u)"
  shows "\<exists>pat. ccw_pattern_parse parse_sexp (Some t) = Inr pat \<and> wf_pattern pat \<and> term_of_pattern pat = u"
  by (rule pattern_parse_accepts [where parse_sexp = parse_sexp and t = t, OF assms(3) sexp_term_sexp [OF assms(1)] assms(2)])

theorem pattern_roundtrip_witness:
  "\<exists>pat. ccw_pattern_parse (\<lambda>t. Some (term_sexp (POp ''iadd'' [PVar ''?x'', PConst (-1)]))) (Some ''(iadd ?x (iconst -1))'') = Inr pat
     \<and> wf_pattern pat \<and> term_of_pattern pat = POp ''iadd'' [PVar ''?x'', PConst (-1)]"
  by (rule pattern_roundtrip) (code_simp | simp)+

text \<open>C9: whatever a ruleset file contains, the rules that are loaded from it have well-formed patterns
  and names of at most 63 characters, and none of them has a side condition: a rule of a file is always
  applied unconditionally.\<close>

theorem loaded_rules_unconditional:
  assumes "ccw_oeuph_ruleset_load parse_sexp print_sexp contents = Inr rs" "r \<in> set (rs_rules rs)"
  shows "wf_pattern (r_lhs r) \<and> wf_pattern (r_rhs r) \<and> r_side r = None \<and> length (r_name r) \<le> 63"
  using ruleset_load_rules [OF assms(1)] assms(2) by (simp add: loaded_rule_def)

theorem loaded_rules_unconditional_witness: "r_side (hd (rs_rules the_rules)) = None"
proof -
  have "hd (rs_rules the_rules) \<in> set (rs_rules the_rules)" by code_simp
  from loaded_rules_unconditional [OF _ this] the_rules_loaded show ?thesis unfolding strength_rules_def by blast
qed

section \<open>The run\<close>

text \<open>C1: rewriting a well-formed module with rules that are valid in an interpretation of opcodes, constants and
  registers keeps the module well formed, its functions, blocks and numbers of instructions the same, and every
  instruction's destination and type. It keeps the value of every instruction that the e-graph can represent
  (\<open>plain_view\<close>: an opcode of 1 to 31 characters, and as operands only integer constants and registers with names of
  at most 31 characters), in every register environment, unless the instruction that is written has an operand
  register with the empty name (which stands for a nested operation, see \<open>unnamed_operands\<close>). A run has no
  defined result only where an instruction makes saturation build more than 64 e-nodes, which are written behind the
  blocks of the graph, or a term whose cost is not an \<open>int\<close>.\<close>

theorem oeuph_run_preserves_meaning:
  assumes "wf_ir ir" "\<forall>r \<in> set (rs_rules rs). valid_rule F C r"
  shows "case ccw_oeuph_run late ir (Some rs) budget model of
      None \<Rightarrow> \<exists>f \<in> set (m_functions ir). \<exists>b \<in> set (children_of ir f CCW_NODE_FUNCTION). escapes_in late budget model (rs_rules rs) ir b
    | Some (ir', st, code) \<Rightarrow> code = CCW_OK \<and> wf_ir ir' \<and> m_functions ir' = m_functions ir
      \<and> (\<forall>f \<in> set (m_functions ir). children_of ir' f CCW_NODE_FUNCTION = children_of ir f CCW_NODE_FUNCTION
        \<and> (\<forall>b \<in> set (children_of ir f CCW_NODE_FUNCTION).
             list_all2 (\<lambda>v v'. v_dest v' = v_dest v \<and> v_type v' = v_type v
                 \<and> (plain_view v \<and> SReg [] \<notin> set (v_operands v') \<longrightarrow> (\<forall>\<rho>. view_value F C \<rho> v' = view_value F C \<rho> v)))
               (block_view ir b) (block_view ir' b)))"
proof -
  have "keeps_meaning F C = (\<lambda>v v'. v_dest v' = v_dest v \<and> v_type v' = v_type v
      \<and> (plain_view v \<and> SReg [] \<notin> set (v_operands v') \<longrightarrow> (\<forall>\<rho>. view_value F C \<rho> v' = view_value F C \<rho> v)))"
    by (auto simp: keeps_meaning_def fun_eq_iff)
  with run_meaning [OF assms, of late budget model] show ?thesis by (simp only: meaning_kept_def)
qed

lemma the_rules_valid: "\<forall>r \<in> set (rs_rules the_rules). valid_rule word_op (\<lambda>v. v) r"
proof -
  obtain r where r: "rs_rules the_rules = [r]" using the_rules_loaded by (auto simp: length_Suc_conv)
  then have t: "term_of_pattern (r_lhs r) = POp ''imul'' [PVar ''?x'', PConst 2]"
    "term_of_pattern (r_rhs r) = POp ''shl'' [PVar ''?x'', PConst 1]" "r_side r = None"
    using the_rules_terms by simp_all
  have "loaded_rule r" using ruleset_load_rules [of strength_parse] the_rules_loaded r by (simp add: strength_rules_def)
  with t show ?thesis
    by (simp add: r valid_rule_def proper_pattern_def loaded_rule_def valid_direction_def word_op_def push_bit_eq_mult)
qed

theorem oeuph_run_preserves_meaning_witness:
  "\<exists>ir' st v'. ccw_oeuph_run (\<lambda>_ _. False) (demo_mul 2) (Some the_rules) ccw_oeuph_default_budget CCW_COST_PERFORMANCE
       = Some (ir', st, CCW_OK)
     \<and> block_view ir' 2 = [v'] \<and> v_opcode v' = Some ''shl''
     \<and> view_value word_op (\<lambda>v. v) (\<lambda>_. 21) v' = view_value word_op (\<lambda>v. v) (\<lambda>_. 21) (hd (block_view (demo_mul 2) 2))"
proof -
  have m: "m_functions (demo_mul 2) = [1]" "children_of (demo_mul 2) 1 CCW_NODE_FUNCTION = [2]"
    "block_view (demo_mul 2) 2 \<noteq> []" "list_all plain_view (block_view (demo_mul 2) 2)" by code_simp+
  obtain ir' st code where r: "ccw_oeuph_run (\<lambda>_ _. False) (demo_mul 2) (Some the_rules) ccw_oeuph_default_budget
        CCW_COST_PERFORMANCE = Some (ir', st, code)"
    and v: "block_view ir' 2 = [\<lparr>v_opcode = Some ''shl'', v_dest = Some ''d'', v_type = CCW_TY_I64, v_operands = [SReg ''x'', SInt 1]\<rparr>]"
    using demo_mul_2 by (auto simp: run_views_def split: option.splits prod.splits)
  from oeuph_run_preserves_meaning [OF wf_demo_mul [of 2] the_rules_valid, where late = "\<lambda>_ _. False" and budget = ccw_oeuph_default_budget
      and model = CCW_COST_PERFORMANCE]
  show ?thesis using m r v by (cases "block_view (demo_mul 2) 2") auto
qed

text \<open>C40: what an instruction that Oeuph writes has as operands. The chosen e-node's children become integer
  constants and registers; a child that is an operation becomes the register with the empty name, although no
  instruction of the module computes it. And every operand that is neither an integer constant nor named (a float
  constant) is read as that register, so it comes back as one.\<close>

theorem unnamed_operands:
  assumes "wf_ir ir" "ccw_ir_node_get ir b = Some B" "n_kind B = CCW_NODE_BLOCK" "k < length (n_children B)"
    and "\<forall>r \<in> set rules. proper_pattern (r_lhs r) \<and> proper_pattern (r_rhs r)"
    and "import_instr empty_egraph ir (n_children B ! k) = (g0, Some rt)"
    and "saturate n late budget rules (fst (eg_find g0 rt)) st = (g, st')"
    and "i < g_count g" "writeback_instr ir (n_children B ! k) g i = (ir', True)"
  shows "v_operands (block_view ir' b ! k) =
      map (\<lambda>c. if en_is_const (g_nodes g ! c) then SInt (en_value (g_nodes g ! c))
               else if en_opcode (g_nodes g ! c) \<noteq> [] then SReg [] else SReg (en_reg (g_nodes g ! c)))
        (en_children (g_nodes g ! i))
    \<and> (\<forall>x h h' j. import_operand h ir x = (h', j) \<and> (\<forall>v. ccw_ir_const_int_value ir x \<noteq> Inr v) \<and> ccw_ir_operand_name ir x = None
         \<longrightarrow> enode_view (g_nodes h' ! j) = SReg [])"
  using written_operands [OF assms] imported_unnamed by blast

text \<open>With the rule mul-3-shift-add of arith/strength-reduction a run turns \<open>d = imul x, 3\<close> into \<open>d = iadd r, x\<close> where
  \<open>r\<close> is the register with the empty name.\<close>

theorem unnamed_operands_witness:
  "v_operands (block_view (fst mul3_written) 2 ! 0) = [SReg [], SReg ''x'']
     \<and> v_operands (block_view (demo_mul 3) 2 ! 0) = [SReg ''x'', SInt 3]"
proof -
  obtain B where B: "ccw_ir_node_get (demo_mul 3) 2 = Some B" "n_kind B = CCW_NODE_BLOCK" "n_children B = [5]"
    using mul3_block by (auto split: option.splits)
  have s: "saturate 2 (\<lambda>_ _. False) ccw_oeuph_default_budget (rs_rules mul3_rules) (fst (eg_find (fst mul3_import) 2)) demo_stats
      = (fst mul3_graph, snd mul3_graph)" by (simp add: mul3_graph_def)
  have i: "import_instr empty_egraph (demo_mul 3) 5 = (fst mul3_import, Some 2)"
    using mul3_made(1) by (simp add: mul3_import_def prod_eq_iff)
  have w: "writeback_instr (demo_mul 3) 5 (fst mul3_graph) 5 = (fst mul3_written, True)"
    using mul3_made(2) by (simp add: mul3_written_def prod_eq_iff)
  have count: "5 < g_count (fst mul3_graph)" by (simp add: g_count_def mul3_nodes)
  have k: "0 < length (n_children B)" "n_children B ! 0 = 5" using B(3) by simp_all
  note t = unnamed_operands [OF wf_demo_mul B(1,2) k(1), unfolded k(2), OF mul3_proper i s count w]
  then show ?thesis using mul3_before by (simp add: mul3_nodes no_enode_def)
qed

end
