(* ===== verification/Ccwld_Expr.thy ===== *)
theory Ccwld_Expr
  imports CStrings
begin

unbundle bit_operations_syntax

text \<open>
  The linker's plan records and its deferred expressions (\<open>toolchain/ccwld/expr/ccwld_expr.h\<close> and \<open>.c\<close>).
  A NULL expression pointer is \<open>NullExpr\<close>; names may be NULL. The evaluator marks the nodes it has
  entered in the trees themselves. A node is entered only through the root of its tree, so the marks that
  matter are those of the roots of symbol expressions: \<open>visited\<close> lists the symbols whose expression is
  marked. Error texts are cut to the buffer of 256 bytes; allocation succeeds.
\<close>

section \<open>Expressions\<close>

datatype ccwld_op_tag =
    CCWLD_OP_ADD | CCWLD_OP_SUB | CCWLD_OP_MUL | CCWLD_OP_DIV | CCWLD_OP_MOD | CCWLD_OP_AND | CCWLD_OP_OR
  | CCWLD_OP_XOR | CCWLD_OP_SHL | CCWLD_OP_SHR | CCWLD_OP_NEG | CCWLD_OP_NOT | CCWLD_OP_ABS | CCWLD_OP_EQ
  | CCWLD_OP_NE | CCWLD_OP_LT | CCWLD_OP_LE | CCWLD_OP_GT | CCWLD_OP_GE | CCWLD_OP_LAND | CCWLD_OP_LOR

fun op_char :: "ccwld_op_tag \<Rightarrow> char" where
  "op_char CCWLD_OP_ADD = CHR ''+''" | "op_char CCWLD_OP_SUB = CHR ''-''" | "op_char CCWLD_OP_MUL = CHR ''*''"
| "op_char CCWLD_OP_DIV = CHR ''/''" | "op_char CCWLD_OP_MOD = CHR ''%''" | "op_char CCWLD_OP_AND = CHR ''&''"
| "op_char CCWLD_OP_OR = CHR ''|''" | "op_char CCWLD_OP_XOR = CHR ''^''" | "op_char CCWLD_OP_SHL = CHR ''<''"
| "op_char CCWLD_OP_SHR = CHR ''>''" | "op_char CCWLD_OP_NEG = CHR ''~''" | "op_char CCWLD_OP_NOT = CHR ''!''"
| "op_char CCWLD_OP_ABS = CHR ''A''" | "op_char CCWLD_OP_EQ = CHR ''e''" | "op_char CCWLD_OP_NE = CHR ''n''"
| "op_char CCWLD_OP_LT = CHR ''l''" | "op_char CCWLD_OP_LE = CHR ''L''" | "op_char CCWLD_OP_GT = CHR ''g''"
| "op_char CCWLD_OP_GE = CHR ''G''" | "op_char CCWLD_OP_LAND = CHR ''a''" | "op_char CCWLD_OP_LOR = CHR ''o''"

text \<open>
  One constructor per kind, with the fields that the kind's C constructors set. \<open>ExprAlign a n b\<close> has the
  literal boundary \<open>n\<close>, or 0 and the expression \<open>b\<close>; \<open>ExprSegmentStart\<close> has the default.
\<close>

datatype ccwld_expr =
    NullExpr
  | ExprInt "64 word"
  | ExprSymbol "string option"
  | ExprDot
  | ExprBinary ccwld_op_tag ccwld_expr ccwld_expr
  | ExprUnary ccwld_op_tag ccwld_expr
  | ExprAlign ccwld_expr "64 word" ccwld_expr
  | ExprMax ccwld_expr ccwld_expr
  | ExprMin ccwld_expr ccwld_expr
  | ExprCond ccwld_expr ccwld_expr ccwld_expr
  | ExprDefined "string option"
  | ExprRegionOrigin "string option"
  | ExprRegionLength "string option"
  | ExprSizeof "string option"
  | ExprAddr "string option"
  | ExprLoadaddr "string option"
  | ExprSizeofHeaders
  | ExprSegmentStart "string option" ccwld_expr

definition ccwld_expr_align :: "ccwld_expr \<Rightarrow> 64 word \<Rightarrow> ccwld_expr" where
  "ccwld_expr_align a boundary = ExprAlign a boundary NullExpr"

definition ccwld_expr_align_to :: "ccwld_expr \<Rightarrow> ccwld_expr \<Rightarrow> ccwld_expr" where
  "ccwld_expr_align_to a boundary = ExprAlign a 0 boundary"

definition ccwld_expr_segment_start :: "string option \<Rightarrow> ccwld_expr" where
  "ccwld_expr_segment_start name = ExprSegmentStart name NullExpr"

definition ccwld_expr_segment_start2 :: "string option \<Rightarrow> ccwld_expr \<Rightarrow> ccwld_expr" where
  "ccwld_expr_segment_start2 name d = ExprSegmentStart name d"

section \<open>The plan\<close>

text \<open>The fields of the plan's records that the expressions and the link phases read or write.\<close>

record ccwld_mem =
  mem_name :: string
  mem_attrs :: string
  mem_origin :: "64 word"
  mem_length :: "64 word"

record ccwld_sel =
  sel_file_glob :: "string option"
  sel_globs :: "string list"
  sel_keep :: bool

record ccwld_sec =
  sec_name :: string
  sec_region :: "string option"
  sec_at_region :: "string option"
  sec_phdr :: "string option"
  sec_sels :: "ccwld_sel list"
  sec_align :: "64 word"
  sec_subalign :: "64 word"
  sec_vma_expr :: ccwld_expr
  sec_at_expr :: ccwld_expr
  sec_load :: bool
  sec_fill :: ccwld_expr
  sec_vma :: "64 word"
  sec_lma :: "64 word"
  sec_size :: "64 word"

record ccwld_sym =
  sym_name :: string
  sym_expr :: ccwld_expr
  sym_provide :: bool
  sym_hidden :: bool
  sym_visibility :: "string option"
  sym_binding :: "string option"
  sym_sec_idx :: int
  sym_seq :: nat
  sym_site :: "string option"
  sym_resolved_value :: "64 word"
  sym_resolved :: bool

record ccwld_dotstep =
  dot_expr :: ccwld_expr
  dot_sec_idx :: int
  dot_seq :: nat
  dot_site :: "string option"

record ccwld_attr =
  attr_name :: string
  attr_visibility :: "string option"
  attr_binding :: "string option"
  attr_alias :: "string option"

record ccwld_phdr =
  phdr_name :: "string option"
  phdr_type :: string
  phdr_vaddr :: "64 word"
  phdr_flags :: "32 word"
  phdr_align :: "64 word"

record ccwld_input =
  in_path :: string
  in_as_needed :: bool
  in_startup :: bool
  in_is_group :: bool
  in_group_start :: bool

record ccwld_ver =
  ver_symbol :: string
  ver_version :: string
  ver_is_default :: bool

record ccwld_lto_cfg =
  lto_pipeline :: "string option"
  lto_jobs :: "32 word"
  lto_cache_dir :: "string option"
  lto_enabled :: bool

record ccwld_plugin =
  plug_path :: string
  plug_options :: "string option"

text \<open>A hook's function is a number here: what the functions do is a parameter of the driver.\<close>

datatype ccwld_phase =
    CCWLD_PHASE_LOAD | CCWLD_PHASE_RESOLVE | CCWLD_PHASE_GC | CCWLD_PHASE_LAYOUT | CCWLD_PHASE_EMIT
  | CCWLD_PHASE_LTO | CCWLD_PHASE_RELOCATE

fun phase_code :: "ccwld_phase \<Rightarrow> nat" where
  "phase_code CCWLD_PHASE_LOAD = 0" | "phase_code CCWLD_PHASE_RESOLVE = 1" | "phase_code CCWLD_PHASE_GC = 2"
| "phase_code CCWLD_PHASE_LAYOUT = 3" | "phase_code CCWLD_PHASE_EMIT = 4" | "phase_code CCWLD_PHASE_LTO = 5"
| "phase_code CCWLD_PHASE_RELOCATE = 6"

record ccwld_hook =
  hook_phase :: ccwld_phase
  hook_fn :: nat

record ccwld_plan =
  pl_target :: string
  out_kind :: "string option"
  out_format :: "string option"
  out_entry :: "string option"
  out_soname :: "string option"
  out_osabi :: "string option"
  pl_sealed :: bool
  pl_inputs :: "ccwld_input list"
  pl_paths :: "string list"
  pl_mems :: "ccwld_mem list"
  pl_secs :: "ccwld_sec list"
  pl_syms :: "ccwld_sym list"
  pl_dotsteps :: "ccwld_dotstep list"
  pl_stmt_seq :: nat
  pl_attrs :: "ccwld_attr list"
  pl_phdrs :: "ccwld_phdr list"
  pl_vers :: "ccwld_ver list"
  pl_env :: "(string \<times> string) list"
  pl_lto :: ccwld_lto_cfg
  pl_plugins :: "ccwld_plugin list"
  pl_hooks :: "ccwld_hook list"
  pl_gc_sections :: bool
  pl_as_needed_default :: bool
  pl_no_cache :: bool
  pl_reproducible :: bool
  pl_cache_dir :: "string option"
  pl_frontend :: string
  pl_gensym :: nat
  pl_serialized :: "string option"
  pl_plan_hash :: string

section \<open>Lookup\<close>

definition find_index :: "('a \<Rightarrow> bool) \<Rightarrow> 'a list \<Rightarrow> nat option" where
  "find_index P xs = find (\<lambda>i. P (xs ! i)) [0..<length xs]"

definition plan_find_symbol :: "ccwld_plan \<Rightarrow> string option \<Rightarrow> nat option" where
  "plan_find_symbol p name =
     (case name of None \<Rightarrow> None | Some n \<Rightarrow> find_index (\<lambda>s. sym_name s = n) (pl_syms p))"

definition plan_find_region :: "ccwld_plan \<Rightarrow> string option \<Rightarrow> ccwld_mem option" where
  "plan_find_region p name = (case name of None \<Rightarrow> None | Some n \<Rightarrow> find (\<lambda>m. mem_name m = n) (pl_mems p))"

definition plan_find_section :: "ccwld_plan \<Rightarrow> string option \<Rightarrow> ccwld_sec option" where
  "plan_find_section p name = (case name of None \<Rightarrow> None | Some n \<Rightarrow> find (\<lambda>s. sec_name s = n) (pl_secs p))"

section \<open>Evaluation\<close>

definition err_text :: "string \<Rightarrow> string" where
  "err_text s = take 255 s"

text \<open>\<open>name ? name : ""\<close>; \<open>%s\<close> of a NULL pointer prints \<open>(null)\<close>.\<close>

definition or_empty :: "string option \<Rightarrow> string" where
  "or_empty n = (case n of Some s \<Rightarrow> s | None \<Rightarrow> [])"

definition or_null :: "string option \<Rightarrow> string" where
  "or_null n = (case n of Some s \<Rightarrow> s | None \<Rightarrow> ''(null)'')"

definition truth :: "bool \<Rightarrow> 64 word" where
  "truth b = (if b then 1 else 0)"

definition align_to :: "64 word \<Rightarrow> 64 word \<Rightarrow> 64 word" where
  "align_to a boundary = (if boundary = 0 then a else (a + boundary - 1) AND NOT (boundary - 1))"

fun unary_op :: "ccwld_op_tag \<Rightarrow> 64 word \<Rightarrow> string + 64 word" where
  "unary_op CCWLD_OP_NEG a = Inr (- a)"
| "unary_op CCWLD_OP_NOT a = Inr (truth (a = 0))"
| "unary_op CCWLD_OP_ABS a = Inr (if a <s 0 then - a else a)"
| "unary_op t a = Inl (''unknown unary operator '' @ [CHR 0x27, op_char t, CHR 0x27])"

fun binary_op :: "ccwld_op_tag \<Rightarrow> 64 word \<Rightarrow> 64 word \<Rightarrow> string + 64 word" where
  "binary_op CCWLD_OP_ADD a b = Inr (a + b)"
| "binary_op CCWLD_OP_SUB a b = Inr (a - b)"
| "binary_op CCWLD_OP_MUL a b = Inr (a * b)"
| "binary_op CCWLD_OP_DIV a b = (if b = 0 then Inl ''division by zero'' else Inr (a div b))"
| "binary_op CCWLD_OP_MOD a b = (if b = 0 then Inl ''modulo by zero'' else Inr (a mod b))"
| "binary_op CCWLD_OP_AND a b = Inr (a AND b)"
| "binary_op CCWLD_OP_OR a b = Inr (a OR b)"
| "binary_op CCWLD_OP_XOR a b = Inr (a XOR b)"
| "binary_op CCWLD_OP_SHL a b = Inr (push_bit (unat (b AND 63)) a)"
| "binary_op CCWLD_OP_SHR a b = Inr (drop_bit (unat (b AND 63)) a)"
| "binary_op CCWLD_OP_EQ a b = Inr (truth (a = b))"
| "binary_op CCWLD_OP_NE a b = Inr (truth (a \<noteq> b))"
| "binary_op CCWLD_OP_LT a b = Inr (truth (a < b))"
| "binary_op CCWLD_OP_LE a b = Inr (truth (a \<le> b))"
| "binary_op CCWLD_OP_GT a b = Inr (truth (a > b))"
| "binary_op CCWLD_OP_GE a b = Inr (truth (a \<ge> b))"
| "binary_op CCWLD_OP_LAND a b = Inr (truth (a \<noteq> 0 \<and> b \<noteq> 0))"
| "binary_op CCWLD_OP_LOR a b = Inr (truth (a \<noteq> 0 \<or> b \<noteq> 0))"
| "binary_op t a b = Inl (''unknown binary operator '' @ [CHR 0x27, op_char t, CHR 0x27])"

text \<open>
  \<open>eval_inner\<close>. \<open>res\<close> is \<open>plan->resolve_sym\<close> (\<open>None\<close> when it is not installed). The first argument bounds the
  nesting of symbols; a symbol in evaluation is marked, so the number of plan symbols is never exceeded.
\<close>

type_synonym resolver = "(string \<Rightarrow> 64 word option) option"
type_synonym evaluated = "nat list \<times> (string + 64 word)"

definition resolve_name :: "resolver \<Rightarrow> string option \<Rightarrow> 64 word option" where
  "resolve_name res name = (case (res, name) of (Some f, Some n) \<Rightarrow> f n | _ \<Rightarrow> None)"

fun eval_inner :: "nat \<Rightarrow> ccwld_plan \<Rightarrow> resolver \<Rightarrow> 64 word \<Rightarrow> nat list \<Rightarrow> ccwld_expr \<Rightarrow> evaluated" where
  "eval_inner k p res dot vis NullExpr = (vis, Inl ''null expression node'')"
| "eval_inner k p res dot vis (ExprInt n) = (vis, Inr n)"
| "eval_inner k p res dot vis ExprDot = (vis, Inr dot)"
| "eval_inner k p res dot vis (ExprSymbol name) =
     (case plan_find_symbol p name of
        Some i \<Rightarrow>
          if i \<in> set vis then (vis, Inl ''cyclic dependency in expression'')
          else (case k of 0 \<Rightarrow> (vis, Inl []) | Suc k' \<Rightarrow>
                  if sym_expr (pl_syms p ! i) = NullExpr then (vis, Inl ''null expression node'')
                  else eval_inner k' p res dot (i # vis) (sym_expr (pl_syms p ! i)))
      | None \<Rightarrow>
          (case resolve_name res name of
             Some v \<Rightarrow> (vis, Inr v)
           | None \<Rightarrow> (vis, Inl (err_text (''undefined symbol '' @ [CHR 0x27] @ or_empty name @ [CHR 0x27])))))"
| "eval_inner k p res dot vis (ExprDefined name) =
     (vis, Inr (truth (plan_find_symbol p name \<noteq> None \<or> resolve_name res name \<noteq> None)))"
| "eval_inner k p res dot vis (ExprRegionOrigin name) =
     (vis, case plan_find_region p name of
             None \<Rightarrow> Inl (err_text (''undefined region '' @ [CHR 0x27] @ or_null name @ [CHR 0x27]))
           | Some r \<Rightarrow> Inr (mem_origin r))"
| "eval_inner k p res dot vis (ExprRegionLength name) =
     (vis, case plan_find_region p name of
             None \<Rightarrow> Inl (err_text (''undefined region '' @ [CHR 0x27] @ or_null name @ [CHR 0x27]))
           | Some r \<Rightarrow> Inr (mem_length r))"
| "eval_inner k p res dot vis ExprSizeofHeaders = (vis, Inr 64)"
| "eval_inner k p res dot vis (ExprSizeof name) =
     (vis, case plan_find_section p name of
             None \<Rightarrow> Inl (err_text (''undefined section '' @ [CHR 0x27] @ or_null name @ [CHR 0x27]))
           | Some s \<Rightarrow> Inr (sec_size s))"
| "eval_inner k p res dot vis (ExprAddr name) =
     (vis, case plan_find_section p name of
             None \<Rightarrow> Inl (err_text (''undefined section '' @ [CHR 0x27] @ or_null name @ [CHR 0x27]))
           | Some s \<Rightarrow> Inr (sec_vma s))"
| "eval_inner k p res dot vis (ExprLoadaddr name) =
     (vis, case plan_find_section p name of
             None \<Rightarrow> Inl (err_text (''undefined section '' @ [CHR 0x27] @ or_null name @ [CHR 0x27]))
           | Some s \<Rightarrow> Inr (sec_lma s))"
| "eval_inner k p res dot vis (ExprSegmentStart name d) =
     (case find (\<lambda>h. phdr_name h \<noteq> None \<and> phdr_name h = name) (pl_phdrs p) of
        Some h \<Rightarrow> (vis, Inr (phdr_vaddr h))
      | None \<Rightarrow>
          if d \<noteq> NullExpr then eval_inner k p res dot vis d
          else (vis, Inl (err_text (''undefined segment '' @ [CHR 0x27] @ or_empty name @ [CHR 0x27]))))"
| "eval_inner k p res dot vis (ExprAlign a n b) =
     (case eval_inner k p res dot vis a of
        (vis1, Inl e) \<Rightarrow> (vis1, Inl e)
      | (vis1, Inr x) \<Rightarrow>
          if n = 0 \<and> b \<noteq> NullExpr
          then (case eval_inner k p res dot vis1 b of
                  (vis2, Inl e) \<Rightarrow> (vis2, Inl e)
                | (vis2, Inr y) \<Rightarrow> (vis2, Inr (align_to x y)))
          else (vis1, Inr (align_to x n)))"
| "eval_inner k p res dot vis (ExprUnary t a) =
     (case eval_inner k p res dot vis a of
        (vis1, Inl e) \<Rightarrow> (vis1, Inl e)
      | (vis1, Inr x) \<Rightarrow> (vis1, unary_op t x))"
| "eval_inner k p res dot vis (ExprBinary t a b) =
     (case eval_inner k p res dot vis a of
        (vis1, Inl e) \<Rightarrow> (vis1, Inl e)
      | (vis1, Inr x) \<Rightarrow>
          (case eval_inner k p res dot vis1 b of
             (vis2, Inl e) \<Rightarrow> (vis2, Inl e)
           | (vis2, Inr y) \<Rightarrow> (vis2, binary_op t x y)))"
| "eval_inner k p res dot vis (ExprMax a b) =
     (case eval_inner k p res dot vis a of
        (vis1, Inl e) \<Rightarrow> (vis1, Inl e)
      | (vis1, Inr x) \<Rightarrow>
          (case eval_inner k p res dot vis1 b of
             (vis2, Inl e) \<Rightarrow> (vis2, Inl e)
           | (vis2, Inr y) \<Rightarrow> (vis2, Inr (if x > y then x else y))))"
| "eval_inner k p res dot vis (ExprMin a b) =
     (case eval_inner k p res dot vis a of
        (vis1, Inl e) \<Rightarrow> (vis1, Inl e)
      | (vis1, Inr x) \<Rightarrow>
          (case eval_inner k p res dot vis1 b of
             (vis2, Inl e) \<Rightarrow> (vis2, Inl e)
           | (vis2, Inr y) \<Rightarrow> (vis2, Inr (if x < y then x else y))))"
| "eval_inner k p res dot vis (ExprCond a b c) =
     (case eval_inner k p res dot vis a of
        (vis1, Inl e) \<Rightarrow> (vis1, Inl e)
      | (vis1, Inr x) \<Rightarrow> if x \<noteq> 0 then eval_inner k p res dot vis1 b else eval_inner k p res dot vis1 c)"

text \<open>
  \<open>ccwld_expr_eval\<close>: \<open>own\<close> is the symbol whose expression \<open>e\<close> is, if it is one. Only the marks of that tree
  are taken away, before and after.
\<close>

definition ccwld_expr_eval ::
  "ccwld_plan \<Rightarrow> resolver \<Rightarrow> nat option \<Rightarrow> 64 word \<Rightarrow> nat list \<Rightarrow> ccwld_expr \<Rightarrow> evaluated" where
  "ccwld_expr_eval p res own dot vis e =
     (if e = NullExpr then (vis, Inl ''invalid arguments to eval'')
      else
        (let mine = (case own of None \<Rightarrow> [] | Some i \<Rightarrow> [i]);
             (vis1, r) = eval_inner (Suc (length (pl_syms p))) p res dot
               (mine @ filter (\<lambda>i. own \<noteq> Some i) vis) e
         in (filter (\<lambda>i. own \<noteq> Some i) vis1, r)))"

section \<open>Equality and serialization\<close>

fun ccwld_expr_equal :: "ccwld_expr \<Rightarrow> ccwld_expr \<Rightarrow> bool" where
  "ccwld_expr_equal NullExpr y = (y = NullExpr)"
| "ccwld_expr_equal (ExprInt m) y = (case y of ExprInt n \<Rightarrow> m = n | _ \<Rightarrow> False)"
| "ccwld_expr_equal (ExprSymbol m) y = (case y of ExprSymbol n \<Rightarrow> m = n | _ \<Rightarrow> False)"
| "ccwld_expr_equal (ExprDefined m) y = (case y of ExprDefined n \<Rightarrow> m = n | _ \<Rightarrow> False)"
| "ccwld_expr_equal (ExprRegionOrigin m) y = (case y of ExprRegionOrigin n \<Rightarrow> m = n | _ \<Rightarrow> False)"
| "ccwld_expr_equal (ExprRegionLength m) y = (case y of ExprRegionLength n \<Rightarrow> m = n | _ \<Rightarrow> False)"
| "ccwld_expr_equal (ExprSizeof m) y = (case y of ExprSizeof n \<Rightarrow> m = n | _ \<Rightarrow> False)"
| "ccwld_expr_equal (ExprAddr m) y = (case y of ExprAddr n \<Rightarrow> m = n | _ \<Rightarrow> False)"
| "ccwld_expr_equal (ExprLoadaddr m) y = (case y of ExprLoadaddr n \<Rightarrow> m = n | _ \<Rightarrow> False)"
| "ccwld_expr_equal ExprDot y = (y = ExprDot)"
| "ccwld_expr_equal ExprSizeofHeaders y = (y = ExprSizeofHeaders)"
| "ccwld_expr_equal (ExprBinary s a b) y =
     (case y of ExprBinary t c d \<Rightarrow> s = t \<and> ccwld_expr_equal a c \<and> ccwld_expr_equal b d | _ \<Rightarrow> False)"
| "ccwld_expr_equal (ExprUnary s a) y = (case y of ExprUnary t c \<Rightarrow> s = t \<and> ccwld_expr_equal a c | _ \<Rightarrow> False)"
| "ccwld_expr_equal (ExprAlign a m b) y =
     (case y of ExprAlign c n d \<Rightarrow> ccwld_expr_equal a c \<and> ccwld_expr_equal b d | _ \<Rightarrow> False)"
| "ccwld_expr_equal (ExprMax a b) y =
     (case y of ExprMax c d \<Rightarrow> ccwld_expr_equal a c \<and> ccwld_expr_equal b d | _ \<Rightarrow> False)"
| "ccwld_expr_equal (ExprMin a b) y =
     (case y of ExprMin c d \<Rightarrow> ccwld_expr_equal a c \<and> ccwld_expr_equal b d | _ \<Rightarrow> False)"
| "ccwld_expr_equal (ExprCond a b c) y =
     (case y of ExprCond d e f \<Rightarrow> ccwld_expr_equal a d \<and> ccwld_expr_equal b e \<and> ccwld_expr_equal c f | _ \<Rightarrow> False)"
| "ccwld_expr_equal (ExprSegmentStart m a) y =
     (case y of ExprSegmentStart n c \<Rightarrow> m = n \<and> ccwld_expr_equal a c | _ \<Rightarrow> False)"

fun binary_text :: "ccwld_op_tag \<Rightarrow> string" where
  "binary_text CCWLD_OP_ADD = ''+''" | "binary_text CCWLD_OP_SUB = ''-''" | "binary_text CCWLD_OP_MUL = ''*''"
| "binary_text CCWLD_OP_DIV = ''/''" | "binary_text CCWLD_OP_MOD = ''%''" | "binary_text CCWLD_OP_AND = ''&''"
| "binary_text CCWLD_OP_OR = ''|''" | "binary_text CCWLD_OP_XOR = ''^''" | "binary_text CCWLD_OP_SHL = ''<<''"
| "binary_text CCWLD_OP_SHR = ''>>''" | "binary_text CCWLD_OP_EQ = ''==''" | "binary_text CCWLD_OP_NE = ''!=''"
| "binary_text CCWLD_OP_LT = ''<''" | "binary_text CCWLD_OP_LE = ''<=''" | "binary_text CCWLD_OP_GT = ''>''"
| "binary_text CCWLD_OP_GE = ''>=''" | "binary_text CCWLD_OP_LAND = ''&&''" | "binary_text CCWLD_OP_LOR = ''||''"
| "binary_text _ = ''?''"

text \<open>
  \<open>APPEND_BUF\<close> formats a fragment into 256 bytes and copies as many bytes as the whole fragment has: a longer
  fragment reads behind the buffer, for which the result is \<open>None\<close>.
\<close>

definition append_buf :: "string \<Rightarrow> string option \<Rightarrow> string option" where
  "append_buf frag s = (case s of None \<Rightarrow> None | Some t \<Rightarrow> if length frag \<ge> 256 then None else Some (t @ frag))"

fun ccwld_expr_to_string :: "ccwld_expr \<Rightarrow> string option \<Rightarrow> string option" where
  "ccwld_expr_to_string NullExpr s = append_buf ''null'' s"
| "ccwld_expr_to_string (ExprInt n) s = append_buf (dec_nat (unat n)) s"
| "ccwld_expr_to_string (ExprSymbol n) s = append_buf (''sym('' @ or_empty n @ '')'') s"
| "ccwld_expr_to_string ExprDot s = append_buf ''dot'' s"
| "ccwld_expr_to_string (ExprDefined n) s = append_buf (''defined('' @ or_empty n @ '')'') s"
| "ccwld_expr_to_string (ExprRegionOrigin n) s = append_buf (''origin('' @ or_empty n @ '')'') s"
| "ccwld_expr_to_string (ExprRegionLength n) s = append_buf (''length('' @ or_empty n @ '')'') s"
| "ccwld_expr_to_string (ExprSizeof n) s = append_buf (''sizeof('' @ or_empty n @ '')'') s"
| "ccwld_expr_to_string (ExprAddr n) s = append_buf (''addr('' @ or_empty n @ '')'') s"
| "ccwld_expr_to_string (ExprLoadaddr n) s = append_buf (''loadaddr('' @ or_empty n @ '')'') s"
| "ccwld_expr_to_string ExprSizeofHeaders s = append_buf ''sizeof_headers'' s"
| "ccwld_expr_to_string (ExprSegmentStart n d) s =
     (if d \<noteq> NullExpr
      then append_buf '')'' (ccwld_expr_to_string d (append_buf (''segment_start('' @ or_empty n @ '','') s))
      else append_buf (''segment_start('' @ or_empty n @ '')'') s)"
| "ccwld_expr_to_string (ExprAlign a n b) s =
     (let t = ccwld_expr_to_string a (append_buf ''align('' s)
      in if n \<noteq> 0 then append_buf ('','' @ dec_nat (unat n) @ '')'') t
         else append_buf '')'' (ccwld_expr_to_string b (append_buf '','' t)))"
| "ccwld_expr_to_string (ExprUnary t a) s =
     append_buf '')'' (ccwld_expr_to_string a (append_buf (''('' @ [op_char t]) s))"
| "ccwld_expr_to_string (ExprMax a b) s =
     append_buf '')'' (ccwld_expr_to_string b (append_buf '','' (ccwld_expr_to_string a (append_buf ''max('' s))))"
| "ccwld_expr_to_string (ExprMin a b) s =
     append_buf '')'' (ccwld_expr_to_string b (append_buf '','' (ccwld_expr_to_string a (append_buf ''min('' s))))"
| "ccwld_expr_to_string (ExprCond a b c) s =
     append_buf '')'' (ccwld_expr_to_string c (append_buf '','' (ccwld_expr_to_string b (append_buf '',''
       (ccwld_expr_to_string a (append_buf ''cond('' s))))))"
| "ccwld_expr_to_string (ExprBinary t a b) s =
     append_buf '')'' (ccwld_expr_to_string b (append_buf (binary_text t) (ccwld_expr_to_string a (append_buf ''('' s))))"

end
