(* ===== verification/Ccwld_State.thy ===== *)
theory Ccwld_State
  imports Ccwld_Expr
begin

unbundle bit_operations_syntax

text \<open>
  The state that the link phases share (\<open>toolchain/ccwld/phases/ccwld_phases.h\<close>, \<open>ccwld_state.c\<close>). Pointers
  to resolved symbols and input sections are indices. A section's \<open>data\<close> is \<open>None\<close> for NULL. An \<open>int\<close>
  that may be negative is an \<open>int\<close>. Phases return the state and an error, \<open>None\<close> for success. Memory
  is not freed and allocation succeeds; diagnostics raised in callbacks are not modelled.
\<close>

section \<open>Records\<close>

record ccwld_isec =
  is_name :: string
  is_data :: "8 word list option"
  is_size :: "64 word"
  is_align :: "64 word"
  is_flags :: "64 word"
  is_type :: "32 word"
  is_live :: nat
  is_placed :: bool
  is_out_sec :: int
  is_out_off :: "64 word"
  is_root :: bool

record ccwld_isym =
  sy_name :: string
  sy_binding :: int
  sy_visibility :: int
  sy_shndx :: int
  sy_value :: "64 word"
  sy_size :: "64 word"
  sy_obj :: int

record ccwld_ireloc =
  rl_sec :: int
  rl_offset :: "64 word"
  rl_type :: "32 word"
  rl_sym :: string
  rl_addend :: "64 word"

text \<open>The data of an archive member is a part of \<open>ob_raw\<close>, the owned copy of the archive.\<close>

record ccwld_ar_member =
  am_name :: string
  am_pos :: nat
  am_size :: nat
  am_hdr_off :: nat
  am_extracted :: bool

record ccwld_obj =
  ob_path :: string
  ob_kind :: string
  ob_format :: string
  ob_machine :: int
  ob_raw :: "8 word list"
  ob_secs :: "ccwld_isec list"
  ob_syms :: "ccwld_isym list"
  ob_relocs :: "ccwld_ireloc list"
  ob_members :: "ccwld_ar_member list"
  ob_ar_syms :: "(string \<times> nat) list"
  ob_used :: bool
  ob_as_needed :: bool
  ob_is_dso :: bool
  ob_is_lto :: bool
  ob_from_group :: bool

record ccwld_rsym =
  rs_name :: string
  rs_defined :: bool
  rs_obj :: int
  rs_isym :: int
  rs_weak :: bool
  rs_from_script :: bool
  rs_provided :: bool
  rs_referenced :: bool
  rs_script_idx :: int
  rs_value :: "64 word"
  rs_value_known :: bool
  rs_size :: "64 word"
  rs_binding :: string
  rs_visibility :: string

type_synonym ccwld_error = "nat \<times> string"

record ccwld_diag =
  dg_code :: nat
  dg_is_error :: bool
  dg_message :: string
  dg_node :: string
  dg_site :: string

text \<open>\<open>st_marks\<close> are the marks on the symbol expressions of the plan (\<open>Ccwld_Expr\<close>).\<close>

record ccwld_state =
  st_plan :: ccwld_plan
  st_marks :: "nat list"
  st_objs :: "ccwld_obj list"
  st_rsyms :: "ccwld_rsym list"
  st_stats :: "(string \<times> nat) list"
  st_notes :: "(string \<times> string) list"
  st_diags :: "ccwld_diag list"
  st_pending :: "ccwld_diag list"
  st_in_callback :: nat
  st_hook_depth :: nat
  st_machine :: int
  st_dot :: "64 word"
  st_entry :: "64 word option"
  st_undefined_strong :: nat
  st_reloc_errors :: nat
  st_lma :: "(string \<times> 64 word) list"
  st_sec_laid :: "bool list"
  st_muts :: "(string \<times> nat \<times> nat) list"

definition CCWLD_EXIT_OK :: nat where "CCWLD_EXIT_OK = 0"
definition CCWLD_EXIT_LINK :: nat where "CCWLD_EXIT_LINK = 1"
definition CCWLD_EXIT_USAGE :: nat where "CCWLD_EXIT_USAGE = 2"
definition CCWLD_EXIT_ABI :: nat where "CCWLD_EXIT_ABI = 3"
definition CCWLD_EXIT_INTERNAL :: nat where "CCWLD_EXIT_INTERNAL = 4"

definition ccwld_error_set :: "nat \<Rightarrow> string \<Rightarrow> ccwld_error" where
  "ccwld_error_set code msg = (code, take 511 msg)"

definition ccwld_state_new :: "ccwld_plan \<Rightarrow> ccwld_state" where
  "ccwld_state_new p =
     \<lparr>st_plan = p, st_marks = [], st_objs = [], st_rsyms = [], st_stats = [], st_notes = [],
      st_diags = [], st_pending = [], st_in_callback = 0, st_hook_depth = 0, st_machine = 0, st_dot = 0,
      st_entry = None, st_undefined_strong = 0, st_reloc_errors = 0, st_lma = [], st_sec_laid = [], st_muts = []\<rparr>"

section \<open>Text\<close>

definition quote :: char where "quote = CHR 0x27"

definition hex_char :: "nat \<Rightarrow> char" where
  "hex_char d = (if d < 10 then digit_char d else char_of (87 + d))"

fun hex_nat :: "nat \<Rightarrow> string" where
  "hex_nat n = (if n < 16 then [hex_char n] else hex_nat (n div 16) @ [hex_char (n mod 16)])"

declare hex_nat.simps [simp del]

section \<open>Diagnostics\<close>

text \<open>Errors raised while a hook or plugin runs are buffered. The buffers cut the texts.\<close>

definition diag_push :: "nat \<Rightarrow> bool \<Rightarrow> string option \<Rightarrow> string option \<Rightarrow> string \<Rightarrow> ccwld_state \<Rightarrow> ccwld_state" where
  "diag_push code is_error node site msg st =
     (let d = \<lparr>dg_code = code, dg_is_error = is_error, dg_message = take 447 msg, dg_node = take 95 (or_empty node),
               dg_site = take 95 (or_empty site)\<rparr>
      in if st_in_callback st \<noteq> 0 then st\<lparr>st_pending := st_pending st @ [d]\<rparr> else st\<lparr>st_diags := st_diags st @ [d]\<rparr>)"

definition ccwld_diag_error :: "nat \<Rightarrow> string option \<Rightarrow> string option \<Rightarrow> string \<Rightarrow> ccwld_state \<Rightarrow> ccwld_state" where
  "ccwld_diag_error code node site msg st = diag_push code True node site msg st"

definition ccwld_diag_warn :: "string option \<Rightarrow> string option \<Rightarrow> string \<Rightarrow> ccwld_state \<Rightarrow> ccwld_state" where
  "ccwld_diag_warn node site msg st = diag_push CCWLD_EXIT_OK False node site msg st"

definition ccwld_diag_flush_pending :: "ccwld_state \<Rightarrow> ccwld_state" where
  "ccwld_diag_flush_pending st = st\<lparr>st_diags := st_diags st @ st_pending st, st_pending := []\<rparr>"

text \<open>\<open>ccwld_diag_print\<close>: the text that it writes.\<close>

definition diag_line :: "ccwld_diag \<Rightarrow> string" where
  "diag_line d =
     ''ccwld: '' @ (if dg_is_error d then ''error'' else ''warning'') @ '': '' @ dg_message d
     @ (if dg_node d \<noteq> [] then '' [plan: '' @ dg_node d @ '']'' else [])
     @ (if dg_site d \<noteq> [] then '' [site: '' @ dg_site d @ '']'' else []) @ [newline]"

definition ccwld_diag_print :: "ccwld_state \<Rightarrow> string" where
  "ccwld_diag_print st = concat (map diag_line (st_diags st))"

section \<open>Resolved symbols\<close>

definition new_rsym :: "string \<Rightarrow> ccwld_rsym" where
  "new_rsym name =
     \<lparr>rs_name = name, rs_defined = False, rs_obj = -1, rs_isym = -1, rs_weak = False, rs_from_script = False,
      rs_provided = False, rs_referenced = False, rs_script_idx = -1, rs_value = 0, rs_value_known = False,
      rs_size = 0, rs_binding = ''global'', rs_visibility = ''default''\<rparr>"

text \<open>\<open>ccwld_state_rsym\<close> finds the symbol or appends it; the index stands for the pointer.\<close>

definition find_rsym :: "ccwld_state \<Rightarrow> string \<Rightarrow> nat option" where
  "find_rsym st name = find_index (\<lambda>r. rs_name r = name) (st_rsyms st)"

definition ccwld_state_rsym :: "ccwld_state \<Rightarrow> string \<Rightarrow> ccwld_state \<times> nat" where
  "ccwld_state_rsym st name =
     (case find_rsym st name of
        Some i \<Rightarrow> (st, i)
      | None \<Rightarrow> (st\<lparr>st_rsyms := st_rsyms st @ [new_rsym name]\<rparr>, length (st_rsyms st)))"

definition upd_rsym :: "nat \<Rightarrow> (ccwld_rsym \<Rightarrow> ccwld_rsym) \<Rightarrow> ccwld_state \<Rightarrow> ccwld_state" where
  "upd_rsym i f st = st\<lparr>st_rsyms := (st_rsyms st)[i := f (st_rsyms st ! i)]\<rparr>"

definition upd_obj :: "nat \<Rightarrow> (ccwld_obj \<Rightarrow> ccwld_obj) \<Rightarrow> ccwld_state \<Rightarrow> ccwld_state" where
  "upd_obj i f st = st\<lparr>st_objs := (st_objs st)[i := f (st_objs st ! i)]\<rparr>"

definition upd_isec :: "nat \<Rightarrow> nat \<Rightarrow> (ccwld_isec \<Rightarrow> ccwld_isec) \<Rightarrow> ccwld_state \<Rightarrow> ccwld_state" where
  "upd_isec i k f = upd_obj i (\<lambda>ob. ob\<lparr>ob_secs := (ob_secs ob)[k := f (ob_secs ob ! k)]\<rparr>)"

text \<open>Section \<open>k\<close> of object \<open>i\<close>.\<close>

definition sec_at :: "ccwld_state \<Rightarrow> nat \<Rightarrow> nat \<Rightarrow> ccwld_isec" where
  "sec_at st i k = ob_secs (st_objs st ! i) ! k"

definition has_sec :: "ccwld_state \<Rightarrow> nat \<Rightarrow> nat \<Rightarrow> bool" where
  "has_sec st i k = (i < length (st_objs st) \<and> k < length (ob_secs (st_objs st ! i)))"

lemma st_objs_upd_isec:
  "st_objs (upd_isec i k f st)
    = (st_objs st)[i := (st_objs st ! i)\<lparr>ob_secs := (ob_secs (st_objs st ! i))[k := f (sec_at st i k)]\<rparr>]"
  by (simp add: upd_isec_def upd_obj_def sec_at_def)

lemma sec_at_upd_isec:
  "has_sec st i k \<Longrightarrow> sec_at (upd_isec i k f st) i' k' = (if i' = i \<and> k' = k then f (sec_at st i k) else sec_at st i' k')"
  by (auto simp: has_sec_def sec_at_def st_objs_upd_isec nth_list_update)

lemma has_sec_upd_isec [simp]: "has_sec (upd_isec i k f st) i' k' = has_sec st i' k'"
  by (cases "i < length (st_objs st)") (auto simp: has_sec_def st_objs_upd_isec nth_list_update)

lemma upd_isec_frame [simp]:
  "st_plan (upd_isec i k f st) = st_plan st" "st_rsyms (upd_isec i k f st) = st_rsyms st"
  "length (st_objs (upd_isec i k f st)) = length (st_objs st)"
  by (simp_all add: upd_isec_def upd_obj_def)

text \<open>\<open>ccwld_state_isec\<close>: a symbol's section index is 1-based; the result is the index of the section.\<close>

definition ccwld_state_isec :: "ccwld_state \<Rightarrow> int \<Rightarrow> int \<Rightarrow> nat option" where
  "ccwld_state_isec st obj shndx =
     (if obj < 0 \<or> nat obj \<ge> length (st_objs st) then None
      else if shndx - 1 < 0 \<or> nat (shndx - 1) \<ge> length (ob_secs (st_objs st ! nat obj)) then None
      else Some (nat (shndx - 1)))"

definition ccwld_state_reset_resolution :: "ccwld_state \<Rightarrow> ccwld_state" where
  "ccwld_state_reset_resolution st = st\<lparr>st_rsyms := [], st_undefined_strong := 0\<rparr>"

section \<open>Statistics and mutation records\<close>

text \<open>The bucket's name has 48 bytes, the comparison is with the whole name.\<close>

definition ccwld_state_record_stat :: "string \<Rightarrow> ccwld_state \<Rightarrow> ccwld_state" where
  "ccwld_state_record_stat name st =
     (case find_index (\<lambda>s. fst s = name) (st_stats st) of
        Some i \<Rightarrow> st\<lparr>st_stats := (st_stats st)[i := (fst (st_stats st ! i), snd (st_stats st ! i) + 1)]\<rparr>
      | None \<Rightarrow> st\<lparr>st_stats := st_stats st @ [(take 47 name, 1)]\<rparr>)"

definition CCWLD_MUT_PLUGIN :: nat where "CCWLD_MUT_PLUGIN = 0"
definition CCWLD_MUT_HOOK :: nat where "CCWLD_MUT_HOOK = 1"

definition ccwld_state_record_mut :: "string \<Rightarrow> nat \<Rightarrow> nat \<Rightarrow> ccwld_state \<Rightarrow> ccwld_state \<times> bool" where
  "ccwld_state_record_mut key src phase st =
     (case find (\<lambda>(k, s, ph). ph = phase \<and> k = key) (st_muts st) of
        Some (k, s, ph) \<Rightarrow> (st, s = src)
      | None \<Rightarrow> (st\<lparr>st_muts := st_muts st @ [(take 159 key, src, phase)]\<rparr>, True))"

definition ccwld_state_conflict_scan :: "nat \<Rightarrow> ccwld_state \<Rightarrow> ccwld_state" where
  "ccwld_state_conflict_scan phase st =
     (case find (\<lambda>(k, s, ph). ph = phase \<and> s = CCWLD_MUT_PLUGIN
                   \<and> list_ex (\<lambda>(k', s', ph'). ph' = phase \<and> s' = CCWLD_MUT_HOOK \<and> k' = k) (st_muts st)) (st_muts st) of
        None \<Rightarrow> st
      | Some (k, s, ph) \<Rightarrow>
          ccwld_diag_warn None None (''plugin and hook both mutated '' @ [quote] @ k @ [quote] @ '' at phase '' @ dec_nat phase
            @ ''; plugins ran first (deterministic order)'') st)"

section \<open>Input files\<close>

text \<open>The file system is a function from paths to contents; a directory cannot be read.\<close>

type_synonym files = "string \<Rightarrow> 8 word list option"

definition ccwld_find_input :: "files \<Rightarrow> ccwld_plan \<Rightarrow> string \<Rightarrow> string option" where
  "ccwld_find_input fs p path =
     find (\<lambda>c. fs c \<noteq> None) (path # map (\<lambda>dir. dir @ ''/'' @ path) (pl_paths p))"

section \<open>Relocation names\<close>

definition ccwld_reloc_name :: "int \<Rightarrow> 32 word \<Rightarrow> string" where
  "ccwld_reloc_name machine type =
     (let table =
        (if machine = 62 then
           [(1, ''R_X86_64_64''), (2, ''R_X86_64_PC32''), (10, ''R_X86_64_32''), (11, ''R_X86_64_32S''),
            (13, ''R_X86_64_PC16''), (14, ''R_X86_64_PC8''), (41, ''R_X86_64_PLT32'')]
         else if machine = 183 then
           [(257, ''R_AARCH64_ABS64''), (275, ''R_AARCH64_ADR_PREL_PG_HI21''),
            (277, ''R_AARCH64_ADD_ABS_LO12_NC''), (283, ''R_AARCH64_CALL26'')]
         else if machine = 243 then
           [(2, ''R_RISCV_64''), (23, ''R_RISCV_PCREL_HI20''), (24, ''R_RISCV_PCREL_LO12_I''),
            (25, ''R_RISCV_PCREL_LO12_S'')]
         else [])
      in case map_of table type of Some n \<Rightarrow> n | None \<Rightarrow> ''R_'' @ dec_nat (unat type))"

end
