(* ===== verification/Ccwld_Glob.thy ===== *)
theory Ccwld_Glob
  imports Ccwld_State
begin

text \<open>
  Selector patterns (\<open>glob_seg\<close>, \<open>glob_match\<close> and \<open>sec_matches\<close> of \<open>toolchain/ccwld/phases/ccwld_gc.c\<close>) and the
  language they denote. The end of a list is the terminating NUL. \<open>char\<close> is signed, as on the hosts of the
  linker: a range of a character class compares signed values.
\<close>

section \<open>The matcher\<close>

definition signed_char :: "char \<Rightarrow> int" where
  "signed_char c = (if (of_char c :: int) < 128 then of_char c else of_char c - 256)"

text \<open>The loop \<open>for (; q < end; q++)\<close> over the class between the brackets.\<close>

fun class_scan :: "char \<Rightarrow> string \<Rightarrow> bool" where
  "class_scan c [] = False"
| "class_scan c (a # m # b # q) =
     (if m = CHR ''-'' then (signed_char a \<le> signed_char c \<and> signed_char c \<le> signed_char b) \<or> class_scan c q
      else a = c \<or> class_scan c (m # b # q))"
| "class_scan c (a # q) = (a = c \<or> class_scan c q)"

definition class_match :: "string \<Rightarrow> char \<Rightarrow> bool" where
  "class_match cls c =
     (let negate = (case cls of x # _ \<Rightarrow> x = CHR ''!'' \<or> x = CHR ''^'' | [] \<Rightarrow> False);
          matched = class_scan c (if negate then tl cls else cls)
      in matched \<noteq> negate)"

fun string_tails :: "string \<Rightarrow> string list" where
  "string_tails [] = [[]]"
| "string_tails (c # s) = (c # s) # string_tails s"

definition bracket_class :: "string \<Rightarrow> string" where
  "bracket_class q = takeWhile (\<lambda>c. c \<noteq> CHR '']'') q"

definition bracket_rest :: "string \<Rightarrow> string" where
  "bracket_rest q = tl (dropWhile (\<lambda>c. c \<noteq> CHR '']'') q)"

lemma length_bracket_rest: "length (bracket_rest q) \<le> length q"
  using length_dropWhile_le [of "\<lambda>c. c \<noteq> CHR '']''" q] by (simp add: bracket_rest_def)

function glob_seg :: "string \<Rightarrow> string \<Rightarrow> bool" where
  "glob_seg [] str = (str = [])"
| "glob_seg (p # pat) str =
     (if p = CHR ''*'' then pat = [] \<or> list_ex (glob_seg pat) (string_tails str)
      else if p = CHR ''?'' then (case str of [] \<Rightarrow> False | c # s \<Rightarrow> glob_seg pat s)
      else if p = CHR ''['' \<and> CHR '']'' \<in> set pat \<and> bracket_class pat \<noteq> [] then
        (case str of
           [] \<Rightarrow> False
         | c # s \<Rightarrow> class_match (bracket_class pat) c \<and> glob_seg (bracket_rest pat) s)
      else (case str of [] \<Rightarrow> False | c # s \<Rightarrow> p = c \<and> glob_seg pat s))"
  by pat_completeness auto
termination
  by (relation "measure (\<lambda>(p, s). length p)") (auto simp: le_imp_less_Suc length_bracket_rest)

declare glob_seg.simps [simp del]

text \<open>\<open>strrchr\<close>: what follows the last slash.\<close>

definition basename :: "string \<Rightarrow> string" where
  "basename str = rev (takeWhile (\<lambda>c. c \<noteq> CHR ''/'') (rev str))"

definition glob_match :: "string \<Rightarrow> string \<Rightarrow> bool" where
  "glob_match pat str = glob_seg pat (if CHR ''/'' \<in> set pat then str else basename str)"

definition sel_file_pattern :: "ccwld_sel \<Rightarrow> string" where
  "sel_file_pattern sel = (case sel_file_glob sel of Some g \<Rightarrow> g | None \<Rightarrow> ''*'')"

text \<open>\<open>sec_matches\<close>: \<open>None\<close> for 0, otherwise the \<open>keep\<close> of the first selector that matches.\<close>

fun sels_match :: "ccwld_sel list \<Rightarrow> string \<Rightarrow> string \<Rightarrow> bool option" where
  "sels_match [] objpath secname = None"
| "sels_match (sel # sels) objpath secname =
     (if \<not> glob_match (sel_file_pattern sel) objpath then sels_match sels objpath secname
      else if list_ex (\<lambda>g. glob_match g secname) (sel_globs sel) then Some (sel_keep sel)
      else sels_match sels objpath secname)"

definition sec_matches :: "ccwld_sec \<Rightarrow> string \<Rightarrow> string \<Rightarrow> bool option" where
  "sec_matches out objpath secname = sels_match (sec_sels out) objpath secname"

section \<open>The language of a pattern\<close>

text \<open>
  The grammar of patterns, independent of the matcher. A class is the text between a bracket and the first closing
  bracket, if there is one and the text is not empty; a leading exclamation mark or caret negates it; a dash between
  two characters makes a range, of bytes with a sign.
\<close>

datatype class_item = Single char | Range char char
datatype glob_token = AnyString | AnyChar | CharClass bool "class_item list" | Literal char

inductive class_denotes :: "string \<Rightarrow> class_item list \<Rightarrow> bool" where
  class_end: "class_denotes [] []"
| class_range: "class_denotes q ts \<Longrightarrow> class_denotes (a # CHR ''-'' # b # q) (Range a b # ts)"
| class_single: "\<nexists>b r. q = CHR ''-'' # b # r \<Longrightarrow> class_denotes q ts \<Longrightarrow> class_denotes (a # q) (Single a # ts)"

definition negation :: "string \<Rightarrow> bool" where
  "negation cls = (\<exists>q. cls = CHR ''!'' # q \<or> cls = CHR ''^'' # q)"

inductive denotes :: "string \<Rightarrow> glob_token list \<Rightarrow> bool" where
  denotes_end: "denotes [] []"
| denotes_star: "denotes pat ts \<Longrightarrow> denotes (CHR ''*'' # pat) (AnyString # ts)"
| denotes_mark: "denotes pat ts \<Longrightarrow> denotes (CHR ''?'' # pat) (AnyChar # ts)"
| denotes_class: "\<lbrakk>cls \<noteq> []; CHR '']'' \<notin> set cls; class_denotes (if negation cls then tl cls else cls) cs; denotes pat ts\<rbrakk> \<Longrightarrow>
    denotes (CHR ''['' # cls @ CHR '']'' # pat) (CharClass (negation cls) cs # ts)"
| denotes_char: "\<lbrakk>c \<noteq> CHR ''*''; c \<noteq> CHR ''?''; \<nexists>cls q. c = CHR ''['' \<and> pat = cls @ CHR '']'' # q \<and> cls \<noteq> [] \<and> CHR '']'' \<notin> set cls;
    denotes pat ts\<rbrakk> \<Longrightarrow> denotes (c # pat) (Literal c # ts)"

definition byte_value :: "char \<Rightarrow> int" where
  "byte_value c = sint (of_char c :: 8 word)"

fun item_has :: "class_item \<Rightarrow> char \<Rightarrow> bool" where
  "item_has (Single a) c = (c = a)"
| "item_has (Range a b) c = (byte_value c \<in> {byte_value a..byte_value b})"

inductive in_language :: "glob_token list \<Rightarrow> string \<Rightarrow> bool" where
  lang_Nil: "in_language [] []"
| lang_Literal: "in_language ts s \<Longrightarrow> in_language (Literal c # ts) (c # s)"
| lang_AnyChar: "in_language ts s \<Longrightarrow> in_language (AnyChar # ts) (c # s)"
| lang_Class: "\<lbrakk>(\<exists>x \<in> set cs. item_has x c) \<noteq> neg; in_language ts s\<rbrakk> \<Longrightarrow> in_language (CharClass neg cs # ts) (c # s)"
| lang_AnyString: "in_language ts s \<Longrightarrow> in_language (AnyString # ts) (u @ s)"

inductive_simps in_language_simps:
  "in_language [] s" "in_language (Literal c # ts) s" "in_language (AnyChar # ts) s" "in_language (CharClass neg cs # ts) s"
  "in_language (AnyString # ts) s"

inductive_simps class_denotes_simps: "class_denotes [] ts" "class_denotes (a # q) ts"
inductive_simps denotes_simps: "denotes [] ts" "denotes (c # pat) ts"

section \<open>The matcher decides the language\<close>

lemma byte_value_signed: "byte_value c = signed_char c"
proof -
  have n: "(of_char c :: nat) < 256" by (rule nat_of_char_less_256)
  have "(of_char c :: 8 word) = of_nat (of_char c)" by (rule of_nat_of_char [symmetric])
  moreover have "sint (of_nat k :: 8 word) = (if k < 128 then int k else int k - 256)" if k: "k < 256" for k
  proof -
    have "(of_nat k :: 8 word) = of_int (if k < 128 then int k else int k - 256)"
      by simp
    then have "sint (of_nat k :: 8 word) = signed_take_bit 7 (if k < 128 then int k else int k - 256)"
      by (simp only: signed_of_int) simp
    also have "\<dots> = (if k < 128 then int k else int k - 256)" using k by (intro signed_take_bit_int_eq_self) auto
    finally show ?thesis .
  qed
  moreover have "(of_char c :: int) = int (of_char c)" by (rule of_nat_of_char [symmetric])
  ultimately show ?thesis using n by (simp add: byte_value_def signed_char_def)
qed

text \<open>The class that a text denotes, and the pattern.\<close>

fun class_items :: "string \<Rightarrow> class_item list" where
  "class_items [] = []"
| "class_items (a # m # b # q) = (if m = CHR ''-'' then Range a b # class_items q else Single a # class_items (m # b # q))"
| "class_items (a # q) = Single a # class_items q"

lemma class_denotes_iff: "class_denotes q ts \<longleftrightarrow> ts = class_items q"
  by (induction q arbitrary: ts rule: class_items.induct) (auto simp: class_denotes_simps)

lemma class_scan_items: "class_scan c q = (\<exists>x \<in> set (class_items q). item_has x c)"
  by (induction c q rule: class_scan.induct) (auto simp: byte_value_signed)

lemma class_match_items:
  "class_match cls c = ((\<exists>x \<in> set (class_items (if negation cls then tl cls else cls)). item_has x c) \<noteq> negation cls)"
proof -
  have "(case cls of x # _ \<Rightarrow> x = CHR ''!'' \<or> x = CHR ''^'' | [] \<Rightarrow> False) = negation cls"
    by (cases cls) (auto simp: negation_def)
  then show ?thesis by (simp add: class_match_def class_scan_items)
qed

function glob_tokens :: "string \<Rightarrow> glob_token list" where
  "glob_tokens [] = []"
| "glob_tokens (p # pat) =
     (if p = CHR ''*'' then AnyString # glob_tokens pat
      else if p = CHR ''?'' then AnyChar # glob_tokens pat
      else if p = CHR ''['' \<and> CHR '']'' \<in> set pat \<and> bracket_class pat \<noteq> [] then
        (let cls = bracket_class pat
         in CharClass (negation cls) (class_items (if negation cls then tl cls else cls)) # glob_tokens (bracket_rest pat))
      else Literal p # glob_tokens pat)"
  by pat_completeness auto
termination
  by (relation "measure length") (auto simp: le_imp_less_Suc length_bracket_rest)

declare glob_tokens.simps [simp del]

lemma string_tails_iff: "t \<in> set (string_tails s) \<longleftrightarrow> (\<exists>u. s = u @ t)"
proof (induction s)
  case (Cons c s)
  then show ?case by (auto simp: Cons_eq_append_conv)
qed simp

definition is_class :: "char \<Rightarrow> string \<Rightarrow> bool" where
  "is_class p pat = (p = CHR ''['' \<and> CHR '']'' \<in> set pat \<and> bracket_class pat \<noteq> [])"

lemma glob_seg_cases:
  "glob_seg (CHR ''*'' # pat) str = (pat = [] \<or> list_ex (glob_seg pat) (string_tails str))"
  "glob_seg (CHR ''?'' # pat) str = (case str of [] \<Rightarrow> False | c # s \<Rightarrow> glob_seg pat s)"
  "is_class p pat \<Longrightarrow> glob_seg (p # pat) str
     = (case str of [] \<Rightarrow> False | c # s \<Rightarrow> class_match (bracket_class pat) c \<and> glob_seg (bracket_rest pat) s)"
  "\<lbrakk>p \<noteq> CHR ''*''; p \<noteq> CHR ''?''; \<not> is_class p pat\<rbrakk> \<Longrightarrow> glob_seg (p # pat) str
     = (case str of [] \<Rightarrow> False | c # s \<Rightarrow> p = c \<and> glob_seg pat s)"
proof -
  show "is_class p pat \<Longrightarrow> glob_seg (p # pat) str
     = (case str of [] \<Rightarrow> False | c # s \<Rightarrow> class_match (bracket_class pat) c \<and> glob_seg (bracket_rest pat) s)"
    unfolding is_class_def by (subst glob_seg.simps(2)) (elim conjE, simp)
  show "\<lbrakk>p \<noteq> CHR ''*''; p \<noteq> CHR ''?''; \<not> is_class p pat\<rbrakk> \<Longrightarrow> glob_seg (p # pat) str
     = (case str of [] \<Rightarrow> False | c # s \<Rightarrow> p = c \<and> glob_seg pat s)"
    unfolding is_class_def by (subst glob_seg.simps(2)) (simp only: if_False)
qed (simp_all add: glob_seg.simps(2))

lemma glob_tokens_cases:
  "glob_tokens (CHR ''*'' # pat) = AnyString # glob_tokens pat"
  "glob_tokens (CHR ''?'' # pat) = AnyChar # glob_tokens pat"
  "is_class p pat \<Longrightarrow> glob_tokens (p # pat) = (let cls = bracket_class pat
     in CharClass (negation cls) (class_items (if negation cls then tl cls else cls)) # glob_tokens (bracket_rest pat))"
  "\<lbrakk>p \<noteq> CHR ''*''; p \<noteq> CHR ''?''; \<not> is_class p pat\<rbrakk> \<Longrightarrow> glob_tokens (p # pat) = Literal p # glob_tokens pat"
proof -
  show "is_class p pat \<Longrightarrow> glob_tokens (p # pat) = (let cls = bracket_class pat
     in CharClass (negation cls) (class_items (if negation cls then tl cls else cls)) # glob_tokens (bracket_rest pat))"
    unfolding is_class_def by (subst glob_tokens.simps(2)) (elim conjE, simp)
  show "\<lbrakk>p \<noteq> CHR ''*''; p \<noteq> CHR ''?''; \<not> is_class p pat\<rbrakk> \<Longrightarrow> glob_tokens (p # pat) = Literal p # glob_tokens pat"
    unfolding is_class_def by (subst glob_tokens.simps(2)) (simp only: if_False)
qed (simp_all add: glob_tokens.simps(2))

lemma glob_seg_language: "glob_seg pat str = in_language (glob_tokens pat) str"
proof (induction "length pat" arbitrary: pat str rule: less_induct)
  case less
  show ?case
  proof (cases pat)
    case Nil
    then show ?thesis by (simp add: glob_seg.simps glob_tokens.simps in_language_simps)
  next
    case (Cons p q)
    have IH: "glob_seg q = in_language (glob_tokens q)" "glob_seg (bracket_rest q) = in_language (glob_tokens (bracket_rest q))"
      using less Cons length_bracket_rest [of q] by (auto simp: fun_eq_iff le_imp_less_Suc)
    consider "p = CHR ''*''" | "p = CHR ''?''" | "is_class p q" | "p \<noteq> CHR ''*''" "p \<noteq> CHR ''?''" "\<not> is_class p q"
      by blast
    then show ?thesis
    proof cases
      case 1
      show ?thesis
      proof (cases "q = []")
        case True
        then show ?thesis
          using Cons 1 lang_AnyString [OF lang_Nil, of str] by (simp add: glob_seg_cases glob_tokens_cases glob_tokens.simps)
      next
        case False
        then show ?thesis
          using Cons 1 IH(1) by (auto simp: glob_seg_cases glob_tokens_cases in_language_simps list_ex_iff string_tails_iff)
      qed
    next
      case 2
      then show ?thesis
        using Cons IH(1) by (cases str) (simp_all add: glob_seg_cases(2) glob_tokens_cases(2) in_language_simps)
    next
      case 3
      then show ?thesis
        using Cons IH(2) by (cases str) (simp_all add: glob_seg_cases(3) glob_tokens_cases(3) in_language_simps class_match_items Let_def)
    next
      case 4
      then show ?thesis
        using Cons IH(1) by (cases str) (auto simp: glob_seg_cases(4) glob_tokens_cases(4) in_language_simps)
    qed
  qed
qed

text \<open>Every pattern denotes exactly one list of tokens.\<close>

lemma bracket_split:
  assumes "CHR '']'' \<in> set pat"
  shows "pat = cls @ CHR '']'' # q \<and> CHR '']'' \<notin> set cls \<longleftrightarrow> cls = bracket_class pat \<and> q = bracket_rest pat"
proof -
  have "dropWhile (\<lambda>c. c \<noteq> CHR '']'') pat = CHR '']'' # bracket_rest pat"
    using assms hd_dropWhile [of "\<lambda>c. c \<noteq> CHR '']''" pat] by (cases "dropWhile (\<lambda>c. c \<noteq> CHR '']'') pat") (auto simp: bracket_rest_def dropWhile_eq_Nil_conv)
  then have p: "bracket_class pat @ CHR '']'' # bracket_rest pat = pat"
    by (metis bracket_class_def takeWhile_dropWhile_id)
  moreover have "CHR '']'' \<notin> set (bracket_class pat)" by (auto simp: bracket_class_def dest: set_takeWhileD)
  moreover have "cls = bracket_class pat \<and> q = bracket_rest pat" if "pat = cls @ CHR '']'' # q" "CHR '']'' \<notin> set cls"
    using that by (auto simp: bracket_class_def bracket_rest_def takeWhile_append dropWhile_append)
  ultimately show ?thesis by metis
qed

lemma class_text_iff:
  "(\<exists>cls q. p = CHR ''['' \<and> pat = cls @ CHR '']'' # q \<and> cls \<noteq> [] \<and> CHR '']'' \<notin> set cls) \<longleftrightarrow> is_class p pat"
proof (cases "CHR '']'' \<in> set pat")
  case True
  then show ?thesis using bracket_split [OF True] unfolding is_class_def by metis
qed (auto simp: is_class_def)

lemma denotes_iff: "denotes pat ts \<longleftrightarrow> ts = glob_tokens pat"
proof (induction "length pat" arbitrary: pat ts rule: less_induct)
  case less
  show ?case
  proof (cases pat)
    case Nil
    then show ?thesis by (auto simp: denotes_simps glob_tokens.simps)
  next
    case (Cons p q)
    have IH: "denotes q us \<longleftrightarrow> us = glob_tokens q" "denotes (bracket_rest q) us \<longleftrightarrow> us = glob_tokens (bracket_rest q)" for us
      using less Cons length_bracket_rest [of q] by (simp_all add: le_imp_less_Suc)
    show ?thesis
    proof (cases "is_class p q")
      case True
      then have b: "CHR '']'' \<in> set q" "p = CHR ''[''" "bracket_class q \<noteq> []" by (simp_all add: is_class_def)
      have "denotes (p # q) ts \<longleftrightarrow> (\<exists>cls r us cs. (q = cls @ CHR '']'' # r \<and> CHR '']'' \<notin> set cls) \<and> cls \<noteq> []
          \<and> class_denotes (if negation cls then tl cls else cls) cs \<and> denotes r us \<and> ts = CharClass (negation cls) cs # us)"
        using b(2) class_text_iff [of p q] True unfolding denotes_simps by auto blast+
      also have "\<dots> \<longleftrightarrow> ts = glob_tokens (p # q)"
        unfolding bracket_split [OF b(1)] using b(3) IH(2) True by (simp add: class_denotes_iff glob_tokens_cases(3) Let_def)
      finally show ?thesis using Cons by simp
    next
      case False
      then have n: "\<nexists>cls r. p = CHR ''['' \<and> q = cls @ CHR '']'' # r \<and> cls \<noteq> [] \<and> CHR '']'' \<notin> set cls"
        using class_text_iff [of p q] by simp
      consider "p = CHR ''*''" | "p = CHR ''?''" | "p \<noteq> CHR ''*''" "p \<noteq> CHR ''?''" by blast
      then show ?thesis
      proof cases
        case 3
        have "denotes (p # q) ts \<longleftrightarrow> (\<exists>us. denotes q us \<and> ts = Literal p # us)"
          unfolding denotes_simps using 3 n by auto
        then show ?thesis using Cons IH(1) glob_tokens_cases(4) [OF 3 False] by auto
      qed (use Cons IH(1) in \<open>auto simp: denotes_simps glob_tokens_cases\<close>)
    qed
  qed
qed

lemma glob_denotes: "glob_seg pat str \<longleftrightarrow> (\<exists>ts. denotes pat ts \<and> in_language ts str)"
  by (simp add: denotes_iff glob_seg_language)

text \<open>The names of sections have no slash, so a plain name selects itself.\<close>

lemma basename_plain [simp]: "CHR ''/'' \<notin> set s \<Longrightarrow> basename s = s"
proof -
  assume "CHR ''/'' \<notin> set s"
  then have "takeWhile (\<lambda>c. c \<noteq> CHR ''/'') (rev s) = rev s" by (intro takeWhile_eq_all_conv [THEN iffD2]) auto
  then show ?thesis by (simp only: basename_def rev_rev_ident)
qed

end
