(* ===== verification/Ccwld_Gc.thy ===== *)
theory Ccwld_Gc
  imports Ccwld_Glob
begin

unbundle bit_operations_syntax

text \<open>
  Dead-section elimination (\<open>toolchain/ccwld/phases/ccwld_gc.c\<close>). A section is live (1), marked (2) or dead
  (0). \<open>mark_sec\<close> and \<open>mark_from_relocs\<close> call each other; their first argument bounds the nesting, for
  which the number of sections is enough, since every nested call marks a section (\<open>Ccwld_Gc_Proof\<close>).
\<close>

definition defining_sec :: "ccwld_state \<Rightarrow> string \<Rightarrow> (nat \<times> nat) option" where
  "defining_sec st name =
     (case find (\<lambda>r. rs_name r = name \<and> rs_defined r \<and> \<not> rs_obj r < 0 \<and> \<not> rs_isym r < 0
                   \<and> nat (rs_isym r) < length (ob_syms (st_objs st ! nat (rs_obj r)))) (st_rsyms st) of
        None \<Rightarrow> None
      | Some r \<Rightarrow>
          (case ccwld_state_isec st (rs_obj r) (sy_shndx (ob_syms (st_objs st ! nat (rs_obj r)) ! nat (rs_isym r))) of
             None \<Rightarrow> None
           | Some k \<Rightarrow> Some (nat (rs_obj r), k)))"

definition set_live :: "nat \<Rightarrow> nat \<Rightarrow> nat \<Rightarrow> ccwld_state \<Rightarrow> ccwld_state" where
  "set_live i k v = upd_isec i k (\<lambda>s. s\<lparr>is_live := v\<rparr>)"

function (sequential) mark_sec :: "nat \<Rightarrow> nat \<Rightarrow> nat \<Rightarrow> ccwld_state \<Rightarrow> ccwld_state"
  and mark_from_relocs :: "nat \<Rightarrow> ccwld_ireloc list \<Rightarrow> nat \<Rightarrow> ccwld_state \<Rightarrow> ccwld_state" where
  "mark_sec 0 i k st = st"
| "mark_sec (Suc n) i k st =
     (if i \<ge> length (st_objs st) then st
      else if k \<ge> length (ob_secs (st_objs st ! i)) then st
      else if is_live (sec_at st i k) \<noteq> 1 then st
      else mark_from_relocs n (ob_relocs (st_objs st ! i)) k (set_live i k 2 st))"
| "mark_from_relocs n [] k st = st"
| "mark_from_relocs n (r # rs) k st =
     mark_from_relocs n rs k
       (if rl_sec r \<noteq> int k \<or> rl_sym r = [] then st
        else (case defining_sec st (rl_sym r) of None \<Rightarrow> st | Some (j, t) \<Rightarrow> mark_sec n j t st))"
  by pat_completeness auto
termination
  by (relation "measures [\<lambda>x. case x of Inl (n, _) \<Rightarrow> n | Inr (n, _) \<Rightarrow> n, \<lambda>x. case x of Inl _ \<Rightarrow> 0 | Inr (n, rs, _) \<Rightarrow> Suc (length rs)]")
    auto

definition section_count :: "ccwld_state \<Rightarrow> nat" where
  "section_count st = sum_list (map (\<lambda>ob. length (ob_secs ob)) (st_objs st))"

definition gc_mark :: "nat \<Rightarrow> nat \<Rightarrow> ccwld_state \<Rightarrow> ccwld_state" where
  "gc_mark i k st = mark_sec (section_count st) i k st"

definition gc_positions :: "ccwld_state \<Rightarrow> (nat \<times> nat) list" where
  "gc_positions st = concat (map (\<lambda>i. map (Pair i) [0..<length (ob_secs (st_objs st ! i))]) [0..<length (st_objs st)])"

definition kept_by_plan :: "ccwld_plan \<Rightarrow> string \<Rightarrow> string \<Rightarrow> bool" where
  "kept_by_plan p path name = list_ex (\<lambda>out. sec_matches out path name = Some True) (pl_secs p)"

text \<open>The body of the loop over the sections.\<close>

definition gc_root :: "nat \<times> nat \<Rightarrow> ccwld_state \<Rightarrow> ccwld_state" where
  "gc_root v st =
     (case v of (i, k) \<Rightarrow>
        let s = sec_at st i k
        in if is_live s \<noteq> 1 then st
           else if is_flags s AND 2 = 0 then set_live i k 0 st
           else
             (let st1 = (if kept_by_plan (st_plan st) (ob_path (st_objs st ! i)) (is_name s)
                         then upd_isec i k (\<lambda>s. s\<lparr>is_root := True\<rparr>) st else st)
              in if \<not> is_root (sec_at st1 i k) then st1 else gc_mark i k st1))"

definition gc_symbol :: "string \<Rightarrow> ccwld_state \<Rightarrow> ccwld_state" where
  "gc_symbol name st = (case defining_sec st name of None \<Rightarrow> st | Some (i, k) \<Rightarrow> gc_mark i k st)"

definition gc_entry :: "ccwld_state \<Rightarrow> ccwld_state" where
  "gc_entry st =
     (case out_entry (st_plan st) of
        None \<Rightarrow> st
      | Some n \<Rightarrow> if n = [] then st else gc_symbol n st)"

definition gc_dynamic :: "ccwld_rsym \<Rightarrow> ccwld_state \<Rightarrow> ccwld_state" where
  "gc_dynamic r st =
     (if \<not> rs_referenced r \<or> \<not> rs_defined r \<or> rs_from_script r \<or> rs_obj r < 0 then st
      else if \<not> ob_is_dso (st_objs st ! nat (rs_obj r)) then st
      else gc_symbol (rs_name r) st)"

definition gc_sweep_sec :: "ccwld_isec \<Rightarrow> ccwld_isec" where
  "gc_sweep_sec s = (if is_live s = 2 then s\<lparr>is_live := 1\<rparr> else if is_live s = 1 then s\<lparr>is_live := 0\<rparr> else s)"

definition gc_sweep :: "ccwld_state \<Rightarrow> ccwld_state" where
  "gc_sweep st =
     st\<lparr>st_objs := map (\<lambda>ob. if ob_is_lto ob then ob else ob\<lparr>ob_secs := map gc_sweep_sec (ob_secs ob)\<rparr>) (st_objs st)\<rparr>"

definition ccwld_phase_gc :: "ccwld_state \<Rightarrow> ccwld_state" where
  "ccwld_phase_gc st =
     (if \<not> pl_gc_sections (st_plan st) then st
      else
        (let st1 = fold gc_root (gc_positions st) st;
             st2 = gc_entry st1;
             st3 = fold gc_dynamic (st_rsyms st) st2
         in gc_sweep st3))"

end
