(* ===== verification/Ccwld_Gc_Proof.thy ===== *)
theory Ccwld_Gc_Proof
  imports Ccwld_Gc
begin

unbundle bit_operations_syntax

text \<open>
  What dead-section elimination keeps: marking follows the edges of the relocation graph, whose nodes are the
  sections, and ends closed under them; so a section stays alive only if it can be reached from a root, and
  every section that can be reached from a root through allocated sections does.
\<close>

section \<open>The graph does not change\<close>

definition same_graph :: "ccwld_state \<Rightarrow> ccwld_state \<Rightarrow> bool" where
  "same_graph st st' =
     (st_rsyms st' = st_rsyms st \<and> st_plan st' = st_plan st \<and> length (st_objs st') = length (st_objs st) \<and>
      (\<forall>i. ob_syms (st_objs st' ! i) = ob_syms (st_objs st ! i) \<and> ob_relocs (st_objs st' ! i) = ob_relocs (st_objs st ! i)
        \<and> ob_path (st_objs st' ! i) = ob_path (st_objs st ! i) \<and> ob_is_dso (st_objs st' ! i) = ob_is_dso (st_objs st ! i)
        \<and> ob_is_lto (st_objs st' ! i) = ob_is_lto (st_objs st ! i)
        \<and> length (ob_secs (st_objs st' ! i)) = length (ob_secs (st_objs st ! i))) \<and>
      (\<forall>i k. has_sec st i k \<longrightarrow> is_flags (sec_at st' i k) = is_flags (sec_at st i k) \<and> is_name (sec_at st' i k) = is_name (sec_at st i k)))"

lemma same_graph_refl [simp]: "same_graph st st"
  by (simp add: same_graph_def)

lemma same_graph_has_sec: "same_graph st st' \<Longrightarrow> has_sec st' i k = has_sec st i k"
  by (simp add: same_graph_def has_sec_def)

lemma same_graph_trans: "\<lbrakk>same_graph st st1; same_graph st1 st2\<rbrakk> \<Longrightarrow> same_graph st st2"
  by (simp add: same_graph_def has_sec_def)

lemma same_graph_upd:
  assumes "\<And>s. is_flags (f s) = is_flags s \<and> is_name (f s) = is_name s"
  shows "same_graph st (upd_isec i k f st)"
proof -
  have upd: "st_objs (upd_isec i k f st) ! j
      = (if i = j \<and> i < length (st_objs st) then (st_objs st ! i)\<lparr>ob_secs := (ob_secs (st_objs st ! i))[k := f (sec_at st i k)]\<rparr>
         else st_objs st ! j)" for j
    by (cases "i = j") (auto simp: st_objs_upd_isec list_update_beyond)
  moreover have "is_flags (sec_at (upd_isec i k f st) i' k') = is_flags (sec_at st i' k')
      \<and> is_name (sec_at (upd_isec i k f st) i' k') = is_name (sec_at st i' k')" if "has_sec st i' k'" for i' k'
    using that assms by (cases "k' = k") (auto simp: sec_at_def upd has_sec_def)
  ultimately show ?thesis by (simp add: same_graph_def)
qed

lemma same_graph_set_live [simp]: "same_graph st (set_live i k v st)"
  unfolding set_live_def by (rule same_graph_upd) simp

lemma same_graph_defining: "same_graph st st' \<Longrightarrow> defining_sec st' n = defining_sec st n"
  by (simp add: same_graph_def defining_sec_def ccwld_state_isec_def cong: option.case_cong if_cong)

section \<open>Nodes, edges and marks\<close>

type_synonym node = "nat \<times> nat"

definition live_of :: "ccwld_state \<Rightarrow> node \<Rightarrow> nat" where
  "live_of st v = is_live (sec_at st (fst v) (snd v))"

definition is_node :: "ccwld_state \<Rightarrow> node \<Rightarrow> bool" where
  "is_node st v = has_sec st (fst v) (snd v)"

definition white :: "ccwld_state \<Rightarrow> node \<Rightarrow> bool" where
  "white st v = (is_node st v \<and> live_of st v = 1)"

definition reloc_edge :: "ccwld_state \<Rightarrow> node \<Rightarrow> node \<Rightarrow> bool" where
  "reloc_edge st v w =
     (\<exists>r \<in> set (ob_relocs (st_objs st ! fst v)). rl_sec r = int (snd v) \<and> rl_sym r \<noteq> [] \<and> defining_sec st (rl_sym r) = Some w)"

lemma same_graph_edge: "same_graph st st' \<Longrightarrow> reloc_edge st' v w = reloc_edge st v w"
  by (simp add: reloc_edge_def same_graph_defining) (simp add: same_graph_def)

lemma same_graph_node: "same_graph st st' \<Longrightarrow> is_node st' v = is_node st v"
  by (simp add: is_node_def same_graph_has_sec)

text \<open>\<open>st'\<close> comes from \<open>st\<close> by marking sections reachable from \<open>v\<close> through live ones.\<close>

definition white_path :: "ccwld_state \<Rightarrow> node \<Rightarrow> node \<Rightarrow> bool" where
  "white_path st = (\<lambda>v w. white st v \<and> (\<lambda>a b. reloc_edge st a b \<and> white st b)\<^sup>*\<^sup>* v w)"

definition grown :: "(node \<Rightarrow> bool) \<Rightarrow> ccwld_state \<Rightarrow> ccwld_state \<Rightarrow> bool" where
  "grown R st st' =
     (same_graph st st' \<and>
      (\<forall>v. is_node st v \<longrightarrow> is_root (sec_at st' (fst v) (snd v)) = is_root (sec_at st (fst v) (snd v)) \<and>
         (live_of st' v = live_of st v \<or> live_of st v = 1 \<and> live_of st' v = 2 \<and> R v)))"

lemma marks_grown_refl [simp]: "grown R st st"
  by (simp add: grown_def)

lemma grown_mono: "\<lbrakk>grown R st st'; \<And>v. R v \<Longrightarrow> S v\<rbrakk> \<Longrightarrow> grown S st st'"
  unfolding grown_def by blast

lemma marks_grown_trans:
  assumes "grown R st st1" "grown R st1 st2"
  shows "grown R st st2"
proof -
  have "same_graph st st2" using assms same_graph_trans unfolding grown_def by blast
  moreover have "is_node st1 v = is_node st v" for v using assms(1) same_graph_node unfolding grown_def by blast
  ultimately show ?thesis using assms unfolding grown_def by (metis one_eq_numeral_iff semiring_norm(85))
qed

lemma grown_white: "\<lbrakk>grown R st st'; white st' v\<rbrakk> \<Longrightarrow> white st v"
  unfolding grown_def white_def by (metis one_eq_numeral_iff same_graph_node semiring_norm(85))

definition whites :: "ccwld_state \<Rightarrow> node set" where
  "whites st = {v. white st v}"

lemma finite_whites: "finite (whites st)"
proof (rule finite_subset)
  show "whites st \<subseteq> (\<Union>i<length (st_objs st). Pair i ` {..<length (ob_secs (st_objs st ! i))})"
    by (force simp: whites_def white_def is_node_def has_sec_def)
qed simp

lemma live_of_set_live:
  "is_node st (i, k) \<Longrightarrow> live_of (set_live i k v st) w = (if w = (i, k) then v else live_of st w)"
  by (cases w) (auto simp: live_of_def set_live_def is_node_def sec_at_upd_isec)

lemma is_root_set_live: "is_node st (i, k) \<Longrightarrow> is_root (sec_at (set_live i k v st) a b) = is_root (sec_at st a b)"
  by (auto simp: set_live_def is_node_def sec_at_upd_isec)

lemma grown_set_live: "white st (i, k) \<Longrightarrow> grown (\<lambda>v. v = (i, k)) st (set_live i k 2 st)"
  by (auto simp: grown_def white_def live_of_set_live is_root_set_live)

lemma whites_set_live: "white st (i, k) \<Longrightarrow> whites (set_live i k 2 st) = whites st - {(i, k)}"
  by (auto simp: whites_def white_def live_of_set_live is_node_def same_graph_has_sec [OF same_graph_set_live] split: if_splits)

section \<open>Marking\<close>

text \<open>Nothing marked in between has an edge to a white section.\<close>

definition closed_marks :: "ccwld_state \<Rightarrow> ccwld_state \<Rightarrow> bool" where
  "closed_marks st st' = (\<forall>v w. white st v \<and> \<not> white st' v \<and> reloc_edge st v w \<longrightarrow> \<not> white st' w)"

lemma closed_marks_refl [simp]: "closed_marks st st"
  unfolding closed_marks_def by blast

lemma whites_grown: "grown R st st' \<Longrightarrow> whites st' \<subseteq> whites st"
  using grown_white by (auto simp: whites_def)

lemma white_path_shrink:
  assumes "white_path st' v w" "grown R st st'"
  shows "white_path st v w"
proof -
  have e: "reloc_edge st' a b = reloc_edge st a b" for a b using assms(2) same_graph_edge unfolding grown_def by blast
  have "(\<lambda>a b. reloc_edge st' a b \<and> white st' b)\<^sup>*\<^sup>* v w" using assms(1) by (simp add: white_path_def)
  then have "(\<lambda>a b. reloc_edge st a b \<and> white st b)\<^sup>*\<^sup>* v w"
    by (rule rtranclp_mono [THEN predicate2D, rotated]) (auto simp: e grown_white [OF assms(2)])
  then show ?thesis using assms grown_white by (auto simp: white_path_def)
qed

lemma mark_grown:
  "grown (white_path st (i, k)) st (mark_sec n i k st)"
  "\<lbrakk>is_node st (i', k'); \<And>r. r \<in> set rs \<Longrightarrow> r \<in> set (ob_relocs (st_objs st ! i'))\<rbrakk>
   \<Longrightarrow> grown (\<lambda>w. \<exists>u. reloc_edge st (i', k') u \<and> white_path st u w) st (mark_from_relocs n rs k' st)"
proof (induction n i k st and n rs k' st arbitrary: and i' rule: mark_sec_mark_from_relocs.induct)
  case (1 i k st)
  then show ?case by simp
next
  case (2 n i k st)
  show ?case
  proof (cases "white st (i, k)")
    case False
    then have "mark_sec (Suc n) i k st = st" by (auto simp: white_def is_node_def has_sec_def live_of_def)
    then show ?thesis by simp
  next
    case True
    let ?st1 = "set_live i k 2 st"
    have nd: "is_node st (i, k)" using True by (simp add: white_def)
    have eq: "mark_sec (Suc n) i k st = mark_from_relocs n (ob_relocs (st_objs st ! i)) k ?st1"
      using True by (auto simp: white_def is_node_def has_sec_def live_of_def)
    have g1: "grown (\<lambda>v. v = (i, k)) st ?st1" by (rule grown_set_live [OF True])
    have r: "ob_relocs (st_objs ?st1 ! i) = ob_relocs (st_objs st ! i)"
      using g1 by (auto simp: grown_def same_graph_def)
    have g2: "grown (\<lambda>w. \<exists>u. reloc_edge ?st1 (i, k) u \<and> white_path ?st1 u w) ?st1 (mark_from_relocs n (ob_relocs (st_objs st ! i)) k ?st1)"
      using 2(1) [of i] True nd r same_graph_node [OF same_graph_set_live]
      by (auto simp: white_def is_node_def has_sec_def live_of_def)
    have e: "reloc_edge ?st1 a b = reloc_edge st a b" for a b by (simp add: same_graph_edge)
    have "white_path st (i, k) w" if "reloc_edge st (i, k) u" "white_path st u w" for u w
      using that True unfolding white_path_def by (auto intro: converse_rtranclp_into_rtranclp)
    then have "grown (white_path st (i, k)) ?st1 (mark_from_relocs n (ob_relocs (st_objs st ! i)) k ?st1)"
      by (intro grown_mono [OF g2]) (auto simp: e dest: white_path_shrink [OF _ g1])
    moreover have "grown (white_path st (i, k)) st ?st1"
      using True by (intro grown_mono [OF g1]) (auto simp: white_path_def)
    ultimately show ?thesis unfolding eq by (rule marks_grown_trans [rotated])
  qed
next
  case (3 n k st)
  then show ?case by simp
next
  case (4 n r rs k st)
  let ?R = "\<lambda>w. \<exists>u. reloc_edge st (i', k) u \<and> white_path st u w"
  define st1 where "st1 = (if rl_sec r \<noteq> int k \<or> rl_sym r = [] then st
    else (case defining_sec st (rl_sym r) of None \<Rightarrow> st | Some (j, t) \<Rightarrow> mark_sec n j t st))"
  have g1: "grown ?R st st1"
  proof (cases "rl_sec r \<noteq> int k \<or> rl_sym r = [] \<or> defining_sec st (rl_sym r) = None")
    case True
    then show ?thesis by (auto simp: st1_def)
  next
    case False
    then obtain j t where d: "defining_sec st (rl_sym r) = Some (j, t)" by auto
    then have e: "reloc_edge st (i', k) (j, t)" using False "4.prems"(2) by (auto simp: reloc_edge_def)
    have g: "grown (white_path st (j, t)) st (mark_sec n j t st)"
      by (rule 4(1) [OF _ d refl]) (use False in blast)
    have "st1 = mark_sec n j t st" using False d by (simp add: st1_def)
    then show ?thesis using grown_mono [OF g, of ?R] e by auto
  qed
  have sg: "same_graph st st1" using g1 by (simp add: grown_def)
  have "grown (\<lambda>w. \<exists>u. reloc_edge st1 (i', k) u \<and> white_path st1 u w) st1 (mark_from_relocs n rs k st1)"
    using 4(2) [of i'] "4.prems" sg same_graph_node [OF sg] unfolding st1_def [symmetric]
    by (simp add: same_graph_def)
  then have "grown ?R st1 (mark_from_relocs n rs k st1)"
    by (rule grown_mono) (auto simp: same_graph_edge [OF sg] dest: white_path_shrink [OF _ g1])
  then show ?case using marks_grown_trans [OF g1] by (simp add: st1_def)
qed

text \<open>With fuel for every white section, what is marked is closed under the edges.\<close>

lemma not_white_grown: "\<lbrakk>grown R st st'; \<not> white st v\<rbrakk> \<Longrightarrow> \<not> white st' v"
  using grown_white by blast

lemma card_whites_grown: "grown R st st' \<Longrightarrow> card (whites st') \<le> card (whites st)"
  by (simp add: card_mono finite_whites whites_grown)

lemma mark_closed:
  "card (whites st) \<le> n \<Longrightarrow> \<not> white (mark_sec n i k st) (i, k) \<and> closed_marks st (mark_sec n i k st)"
  "\<lbrakk>card (whites st) \<le> n; is_node st (i', k'); \<And>r. r \<in> set rs \<Longrightarrow> r \<in> set (ob_relocs (st_objs st ! i'))\<rbrakk>
   \<Longrightarrow> closed_marks st (mark_from_relocs n rs k' st)
     \<and> (\<forall>r \<in> set rs. \<forall>w. rl_sec r = int k' \<and> rl_sym r \<noteq> [] \<and> defining_sec st (rl_sym r) = Some w
          \<longrightarrow> \<not> white (mark_from_relocs n rs k' st) w)"
proof (induction n i k st and n rs k' st arbitrary: and i' rule: mark_sec_mark_from_relocs.induct)
  case (1 i k st)
  then have "whites st = {}" using finite_whites by simp
  then show ?case by (auto simp: whites_def closed_marks_def)
next
  case (2 n i k st)
  show ?case
  proof (cases "white st (i, k)")
    case False
    then have "mark_sec (Suc n) i k st = st" by (auto simp: white_def is_node_def has_sec_def live_of_def)
    then show ?thesis using False unfolding closed_marks_def by (simp only:) blast
  next
    case True
    let ?st1 = "set_live i k 2 st"
    have nd: "is_node st (i, k)" using True by (simp add: white_def)
    have c: "\<not> i \<ge> length (st_objs st)" "\<not> k \<ge> length (ob_secs (st_objs st ! i))" "\<not> is_live (sec_at st i k) \<noteq> 1"
      using True by (auto simp: white_def is_node_def has_sec_def live_of_def)
    define st' where "st' = mark_from_relocs n (ob_relocs (st_objs st ! i)) k ?st1"
    have eq: "mark_sec (Suc n) i k st = st'" using c by (simp add: st'_def)
    have g1: "grown (\<lambda>v. v = (i, k)) st ?st1" by (rule grown_set_live [OF True])
    have sg: "same_graph st ?st1" by simp
    have r: "ob_relocs (st_objs ?st1 ! i) = ob_relocs (st_objs st ! i)" using sg by (simp only: same_graph_def)
    have "card (whites ?st1) \<le> n"
      using 2(2) True by (simp add: whites_set_live finite_whites whites_def [of st] card_Diff_singleton)
    then have IH: "closed_marks ?st1 st'"
      "\<And>r w. \<lbrakk>r \<in> set (ob_relocs (st_objs st ! i)); rl_sec r = int k; rl_sym r \<noteq> []; defining_sec ?st1 (rl_sym r) = Some w\<rbrakk>
         \<Longrightarrow> \<not> white st' w"
      using 2(1) [OF c, of i] nd r same_graph_node [OF sg] unfolding st'_def by auto
    have g2: "grown (\<lambda>w. \<exists>u. reloc_edge ?st1 (i, k) u \<and> white_path ?st1 u w) ?st1 st'"
      unfolding st'_def by (rule mark_grown(2)) (use nd r same_graph_node [OF sg] in auto)
    have "\<not> white ?st1 (i, k)" using nd by (simp add: white_def live_of_set_live)
    then have nw: "\<not> white st' (i, k)" by (rule not_white_grown [OF g2])
    have "\<not> white st' w" if "white st v" "\<not> white st' v" "reloc_edge st v w" for v w
    proof (cases "v = (i, k)")
      case True
      then show ?thesis using that(3) IH(2) same_graph_defining [OF sg] by (cases w) (auto simp: reloc_edge_def)
    next
      case False
      then have "white ?st1 v" using that(1) nd by (simp add: white_def live_of_set_live same_graph_node [OF sg])
      then show ?thesis using that IH(1) same_graph_edge [OF sg] unfolding closed_marks_def by blast
    qed
    then show ?thesis using nw unfolding eq closed_marks_def by blast
  qed
next
  case (3 n k st)
  then show ?case by simp
next
  case (4 n r rs k st)
  define st1 where "st1 = (if rl_sec r \<noteq> int k \<or> rl_sym r = [] then st
    else (case defining_sec st (rl_sym r) of None \<Rightarrow> st | Some (j, t) \<Rightarrow> mark_sec n j t st))"
  define st' where "st' = mark_from_relocs n rs k st1"
  have st': "mark_from_relocs n (r # rs) k st = st'" by (simp add: st1_def st'_def)
  have A: "grown (\<lambda>_. True) st st1 \<and> closed_marks st st1
    \<and> (\<forall>w. rl_sec r = int k \<and> rl_sym r \<noteq> [] \<and> defining_sec st (rl_sym r) = Some w \<longrightarrow> \<not> white st1 w)"
  proof (cases "rl_sec r \<noteq> int k \<or> rl_sym r = [] \<or> defining_sec st (rl_sym r) = None")
    case True
    then show ?thesis by (auto simp: st1_def closed_marks_def)
  next
    case False
    then obtain j t where d: "defining_sec st (rl_sym r) = Some (j, t)" by auto
    have "\<not> white (mark_sec n j t st) (j, t) \<and> closed_marks st (mark_sec n j t st)"
      by (rule 4(1) [OF _ d refl 4(3)]) (use False in blast)
    moreover have "st1 = mark_sec n j t st" using False d by (simp add: st1_def)
    moreover have "grown (\<lambda>_. True) st (mark_sec n j t st)" by (rule grown_mono [OF mark_grown(1)]) simp
    ultimately show ?thesis using d by auto
  qed
  then have g1: "grown (\<lambda>_. True) st st1" and sg: "same_graph st st1" by (auto simp: grown_def)
  have rel: "ob_relocs (st_objs st1 ! i') = ob_relocs (st_objs st ! i')" using sg by (simp only: same_graph_def)
  have "card (whites st1) \<le> n" using card_whites_grown [OF g1] 4(3) by linarith
  then have B: "closed_marks st1 st'"
    "\<forall>r \<in> set rs. \<forall>w. rl_sec r = int k \<and> rl_sym r \<noteq> [] \<and> defining_sec st1 (rl_sym r) = Some w \<longrightarrow> \<not> white st' w"
    using 4(2) [of i', folded st1_def] "4.prems" same_graph_node [OF sg] rel unfolding st'_def by auto
  have g2: "grown (\<lambda>w. \<exists>u. reloc_edge st1 (i', k) u \<and> white_path st1 u w) st1 st'"
    unfolding st'_def by (rule mark_grown(2)) (use "4.prems" rel same_graph_node [OF sg] in auto)
  have "closed_marks st st'"
    using A B(1) not_white_grown [OF g2] same_graph_edge [OF sg] unfolding closed_marks_def by blast
  moreover have "\<forall>w. rl_sec r = int k \<and> rl_sym r \<noteq> [] \<and> defining_sec st (rl_sym r) = Some w \<longrightarrow> \<not> white st' w"
    using A not_white_grown [OF g2] by blast
  ultimately show ?case using B(2) same_graph_defining [OF sg] unfolding st' by simp
qed

section \<open>The roots\<close>

definition allocated :: "ccwld_state \<Rightarrow> node \<Rightarrow> bool" where
  "allocated st v = (is_flags (sec_at st (fst v) (snd v)) AND 2 \<noteq> 0)"

definition plan_root :: "ccwld_state \<Rightarrow> node \<Rightarrow> bool" where
  "plan_root st v =
     (is_node st v \<and> allocated st v \<and>
      (is_root (sec_at st (fst v) (snd v))
       \<or> kept_by_plan (st_plan st) (ob_path (st_objs st ! fst v)) (is_name (sec_at st (fst v) (snd v)))))"

text \<open>Sections that a kept selector or an earlier hook chose, that of the entry symbol, those a shared object names.\<close>

definition gc_is_root :: "ccwld_state \<Rightarrow> node \<Rightarrow> bool" where
  "gc_is_root st v =
     (plan_root st v
      \<or> (\<exists>n. out_entry (st_plan st) = Some n \<and> n \<noteq> [] \<and> defining_sec st n = Some v)
      \<or> (\<exists>r \<in> set (st_rsyms st). rs_referenced r \<and> rs_defined r \<and> \<not> rs_from_script r \<and> \<not> rs_obj r < 0
           \<and> ob_is_dso (st_objs st ! nat (rs_obj r)) \<and> defining_sec st (rs_name r) = Some v))"

text \<open>The states of the phase, seen from its first state.\<close>

definition gc_between :: "ccwld_state \<Rightarrow> ccwld_state \<Rightarrow> bool" where
  "gc_between st0 st =
     (same_graph st0 st \<and>
      (\<forall>v. is_node st0 v \<longrightarrow>
         (is_root (sec_at st0 (fst v) (snd v)) \<longrightarrow> is_root (sec_at st (fst v) (snd v)))
         \<and> (is_root (sec_at st (fst v) (snd v)) \<and> allocated st0 v \<longrightarrow> is_root (sec_at st0 (fst v) (snd v)) \<or> plan_root st0 v)
         \<and> (live_of st v = 1 \<longrightarrow> live_of st0 v = 1)
         \<and> (live_of st v = 0 \<longrightarrow> live_of st0 v = 0 \<or> \<not> allocated st0 v)
         \<and> live_of st v \<le> 2
         \<and> (live_of st v = 2 \<longrightarrow> live_of st0 v = 1 \<and> (\<exists>u. gc_is_root st0 u \<and> white_path st0 u v))
         \<and> (live_of st v = 2 \<longrightarrow> (\<forall>w. reloc_edge st0 v w \<longrightarrow> \<not> white st w))))"

lemma same_graph_plan_root_frame:
  "same_graph st st' \<Longrightarrow> allocated st' v = allocated st v" if "is_node st v"
  using that by (simp add: allocated_def same_graph_def is_node_def)

lemma gc_between_start:
  "\<forall>v. is_node st v \<longrightarrow> live_of st v \<le> 1 \<Longrightarrow> gc_between st st"
  by (force simp: gc_between_def)

lemma gc_between_mark:
  assumes b: "gc_between st0 st" and g: "grown (white_path st u) st st'" and c: "closed_marks st st'"
    and r: "gc_is_root st0 u"
  shows "gc_between st0 st'"
proof -
  have sg: "same_graph st0 st" "same_graph st st'" using b g by (auto simp: gc_between_def grown_def)
  have nd: "is_node st v = is_node st0 v" for v using same_graph_node [OF sg(1)] by simp
  have w0: "white st0 v" if "white st v" for v using that b nd by (cases v) (auto simp: white_def gc_between_def)
  have path: "white_path st0 u v" if "white_path st u v" for v
  proof -
    have "(\<lambda>a b. reloc_edge st a b \<and> white st b)\<^sup>*\<^sup>* u v" using that by (simp add: white_path_def)
    then have "(\<lambda>a b. reloc_edge st0 a b \<and> white st0 b)\<^sup>*\<^sup>* u v"
      by (rule rtranclp_mono [THEN predicate2D, rotated]) (auto simp: same_graph_edge [OF sg(1)] w0)
    then show ?thesis using that w0 by (simp add: white_path_def)
  qed
  have "(is_root (sec_at st0 (fst v) (snd v)) \<longrightarrow> is_root (sec_at st' (fst v) (snd v)))
         \<and> (is_root (sec_at st' (fst v) (snd v)) \<and> allocated st0 v \<longrightarrow> is_root (sec_at st0 (fst v) (snd v)) \<or> plan_root st0 v)
         \<and> (live_of st' v = 1 \<longrightarrow> live_of st0 v = 1)
         \<and> (live_of st' v = 0 \<longrightarrow> live_of st0 v = 0 \<or> \<not> allocated st0 v)
         \<and> live_of st' v \<le> 2
         \<and> (live_of st' v = 2 \<longrightarrow> live_of st0 v = 1 \<and> (\<exists>u. gc_is_root st0 u \<and> white_path st0 u v))
         \<and> (live_of st' v = 2 \<longrightarrow> (\<forall>w. reloc_edge st0 v w \<longrightarrow> \<not> white st' w))" if v: "is_node st0 v" for v
  proof -
    have old: "is_root (sec_at st' (fst v) (snd v)) = is_root (sec_at st (fst v) (snd v))"
      "live_of st' v = live_of st v \<or> live_of st v = 1 \<and> live_of st' v = 2 \<and> white_path st u v"
      using g v nd by (cases v; auto simp: grown_def)+
    note bv = b [unfolded gc_between_def, THEN conjunct2, rule_format, OF v]
    show ?thesis
    proof (cases "live_of st' v = live_of st v")
      case True
      have "\<forall>w. reloc_edge st0 v w \<longrightarrow> \<not> white st w" if "live_of st v = 2"
        using bv that by (elim conjE) blast
      then have "\<not> white st' w" if "live_of st' v = 2" "reloc_edge st0 v w" for w
        using that True not_white_grown [OF g, of w] by metis
      then show ?thesis using bv old(1) True by simp
    next
      case False
      then have n: "live_of st v = 1" "live_of st' v = 2" "white_path st u v" using old(2) by auto
      have "white st v" "\<not> white st' v" using n v nd by (auto simp: white_def)
      then have cl: "\<not> white st' w" if "reloc_edge st0 v w" for w
        using c that same_graph_edge [OF sg(1)] unfolding closed_marks_def by blast
      have "\<exists>u. gc_is_root st0 u \<and> white_path st0 u v" using n(3) r path by blast
      then show ?thesis using bv n cl unfolding old(1) by (simp del: split_paired_All split_paired_Ex)
    qed
  qed
  then show ?thesis using same_graph_trans [OF sg] unfolding gc_between_def by blast
qed

lemma whites_section_count: "card (whites st) \<le> section_count st"
proof -
  let ?S = "SIGMA i:{..<length (st_objs st)}. {..<length (ob_secs (st_objs st ! i))}"
  have "whites st \<subseteq> ?S" by (auto simp: whites_def white_def is_node_def has_sec_def)
  then have "card (whites st) \<le> card ?S" by (intro card_mono) auto
  also have "\<dots> = (\<Sum>i<length (st_objs st). length (ob_secs (st_objs st ! i)))" by (simp add: card_SigmaI)
  also have "\<dots> = section_count st"
    by (simp add: section_count_def sum_list_sum_nth lessThan_atLeast0)
  finally show ?thesis .
qed

lemma gc_mark_spec:
  "grown (white_path st (i, k)) st (gc_mark i k st)" "closed_marks st (gc_mark i k st)" "\<not> white (gc_mark i k st) (i, k)"
  unfolding gc_mark_def using mark_grown(1) mark_closed(1) [OF whites_section_count] by blast+

lemma gc_between_gc_mark:
  "\<lbrakk>gc_between st0 st; gc_is_root st0 (i, k)\<rbrakk> \<Longrightarrow> gc_between st0 (gc_mark i k st)"
  using gc_between_mark gc_mark_spec by blast

lemma gc_between_kill:
  assumes b: "gc_between st0 st" and v: "is_node st0 (i, k)" "\<not> allocated st0 (i, k)" "live_of st (i, k) = 1"
  shows "gc_between st0 (set_live i k 0 st)"
proof -
  have sg: "same_graph st0 st" using b by (simp add: gc_between_def)
  have nd: "is_node st w = is_node st0 w" for w using same_graph_node [OF sg] by simp
  have l: "live_of (set_live i k 0 st) w = (if w = (i, k) then 0 else live_of st w)" for w
    using live_of_set_live v(1) nd by blast
  have ro: "is_root (sec_at (set_live i k 0 st) a b) = is_root (sec_at st a b)" for a b
    using is_root_set_live v(1) nd by blast
  have wh: "white (set_live i k 0 st) w \<Longrightarrow> white st w" for w
    by (auto simp: white_def l same_graph_node [OF same_graph_set_live] split: if_splits)
  show ?thesis
    unfolding gc_between_def
  proof (intro conjI allI impI)
    show "same_graph st0 (set_live i k 0 st)" using same_graph_trans [OF sg] by simp
  next
    fix w
    assume w: "is_node st0 w"
    note bw = b [unfolded gc_between_def, THEN conjunct2, rule_format, OF w]
    show "is_root (sec_at (set_live i k 0 st) (fst w) (snd w))" if "is_root (sec_at st0 (fst w) (snd w))"
      using bw that ro by simp
    show "is_root (sec_at st0 (fst w) (snd w)) \<or> plan_root st0 w"
      if "is_root (sec_at (set_live i k 0 st) (fst w) (snd w)) \<and> allocated st0 w" using bw that ro by simp
    show "live_of st0 w = 1" if "live_of (set_live i k 0 st) w = 1" using bw that l by (auto split: if_splits)
    show "live_of st0 w = 0 \<or> \<not> allocated st0 w" if "live_of (set_live i k 0 st) w = 0"
      using bw that l v(2) by (metis (full_types))
    show "live_of (set_live i k 0 st) w \<le> 2" using bw l by (simp split: if_splits)
    show "live_of st0 w = 1" if "live_of (set_live i k 0 st) w = 2" using bw that l by (auto split: if_splits)
    show "\<exists>u. gc_is_root st0 u \<and> white_path st0 u w" if "live_of (set_live i k 0 st) w = 2"
      using bw that l by (metis zero_neq_numeral)
    show "\<not> white (set_live i k 0 st) x" if "live_of (set_live i k 0 st) w = 2" "reloc_edge st0 w x" for x
      using bw that l wh by (metis zero_neq_numeral)
  qed
qed

lemma gc_between_flag:
  assumes b: "gc_between st0 st" and v: "plan_root st0 (i, k)"
  shows "gc_between st0 (upd_isec i k (\<lambda>s. s\<lparr>is_root := True\<rparr>) st)"
proof -
  let ?st1 = "upd_isec i k (\<lambda>s. s\<lparr>is_root := True\<rparr>) st"
  have sg: "same_graph st0 st" using b by (simp add: gc_between_def)
  have sg1: "same_graph st ?st1" by (rule same_graph_upd) simp
  have nd: "has_sec st i k" using v same_graph_has_sec [OF sg] by (simp add: plan_root_def is_node_def)
  have l: "live_of ?st1 w = live_of st w" for w using sec_at_upd_isec [OF nd] by (simp add: live_of_def)
  have ro: "is_root (sec_at ?st1 a b) = (is_root (sec_at st a b) \<or> (a, b) = (i, k))" for a b
    using sec_at_upd_isec [OF nd, of "is_root_update (\<lambda>_. True)" a b] by (auto split: if_splits)
  have wh: "white ?st1 w = white st w" for w by (simp add: white_def l same_graph_node [OF sg1])
  show ?thesis
    using b v same_graph_trans [OF sg sg1] unfolding gc_between_def
    by (simp add: l ro wh del: split_paired_All split_paired_Ex) (metis prod.collapse)
qed

section \<open>The phase\<close>

lemma gc_between_root:
  assumes b: "gc_between st0 st" and v: "is_node st0 (i, k)"
  shows "gc_between st0 (gc_root (i, k) st)"
proof -
  have sg: "same_graph st0 st" using b by (simp add: gc_between_def)
  have fl: "is_flags (sec_at st i k) = is_flags (sec_at st0 i k)" "is_name (sec_at st i k) = is_name (sec_at st0 i k)"
    "ob_path (st_objs st ! i) = ob_path (st_objs st0 ! i)" "st_plan st = st_plan st0"
    using sg v by (auto simp: same_graph_def is_node_def)
  let ?keep = "kept_by_plan (st_plan st) (ob_path (st_objs st ! i)) (is_name (sec_at st i k))"
  let ?flag = "upd_isec i k (\<lambda>s. s\<lparr>is_root := True\<rparr>) st"
  consider "is_live (sec_at st i k) \<noteq> 1" | "is_live (sec_at st i k) = 1" "\<not> allocated st0 (i, k)"
    | "is_live (sec_at st i k) = 1" "allocated st0 (i, k)" ?keep
    | "is_live (sec_at st i k) = 1" "allocated st0 (i, k)" "\<not> ?keep"
    by blast
  then show ?thesis
  proof cases
    case 1
    then show ?thesis using b by (simp add: gc_root_def)
  next
    case 2
    then have "gc_root (i, k) st = set_live i k 0 st" by (simp add: gc_root_def Let_def allocated_def fl)
    then show ?thesis using gc_between_kill [OF b v] 2 by (simp add: live_of_def)
  next
    case 3
    then have pr: "plan_root st0 (i, k)" using v fl by (simp add: plan_root_def)
    have "has_sec st i k" using v same_graph_has_sec [OF sg] by (simp add: is_node_def)
    then have "gc_root (i, k) st = gc_mark i k ?flag"
      using 3 by (simp add: gc_root_def Let_def allocated_def fl sec_at_upd_isec)
    moreover have "gc_is_root st0 (i, k)" using pr by (simp add: gc_is_root_def)
    ultimately show ?thesis using gc_between_gc_mark [OF gc_between_flag [OF b pr]] by simp
  next
    case 4
    then have eq: "gc_root (i, k) st = (if is_root (sec_at st i k) then gc_mark i k st else st)"
      by (simp add: gc_root_def Let_def allocated_def fl)
    show ?thesis
    proof (cases "is_root (sec_at st i k)")
      case True
      then have "plan_root st0 (i, k)"
        using b [unfolded gc_between_def, THEN conjunct2, rule_format, OF v] 4(2) v by (simp add: plan_root_def)
      then show ?thesis using eq True gc_between_gc_mark [OF b] by (simp add: gc_is_root_def)
    next
      case False
      then show ?thesis using eq b by simp
    qed
  qed
qed

lemma gc_root_done:
  assumes b: "gc_between st0 st" and v: "plan_root st0 (i, k)"
  shows "\<not> white (gc_root (i, k) st) (i, k)"
proof -
  have sg: "same_graph st0 st" using b by (simp add: gc_between_def)
  have nd: "is_node st0 (i, k)" "has_sec st i k"
    using v same_graph_has_sec [OF sg] by (auto simp: plan_root_def is_node_def)
  have fl: "is_flags (sec_at st i k) = is_flags (sec_at st0 i k)" "is_name (sec_at st i k) = is_name (sec_at st0 i k)"
    "ob_path (st_objs st ! i) = ob_path (st_objs st0 ! i)" "st_plan st = st_plan st0"
    using sg nd(1) by (auto simp: same_graph_def is_node_def)
  show ?thesis
  proof (cases "is_live (sec_at st i k) = 1")
    case False
    then show ?thesis by (simp add: gc_root_def white_def live_of_def)
  next
    case True
    let ?keep = "kept_by_plan (st_plan st0) (ob_path (st_objs st0 ! i)) (is_name (sec_at st0 i k))"
    let ?st1 = "if ?keep then upd_isec i k (\<lambda>s. s\<lparr>is_root := True\<rparr>) st else st"
    have "is_root (sec_at st i k) \<or> ?keep"
      using v b [unfolded gc_between_def, THEN conjunct2, rule_format, OF nd(1)] by (auto simp: plan_root_def fl)
    then have "is_root (sec_at ?st1 i k)" using nd(2) by (cases ?keep) (simp_all add: sec_at_upd_isec)
    then have "gc_root (i, k) st = gc_mark i k ?st1"
      using True v by (simp add: gc_root_def Let_def plan_root_def allocated_def fl)
    then show ?thesis using gc_mark_spec(3) by simp
  qed
qed

text \<open>A step of the phase keeps a section that is not white so, unless the step starts from another state.\<close>

lemma gc_root_not_white: "\<lbrakk>\<not> white st w; is_node st v\<rbrakk> \<Longrightarrow> \<not> white (gc_root v st) w"
proof -
  assume w: "\<not> white st w" and v: "is_node st v"
  obtain i k where ik: "v = (i, k)" by (cases v)
  let ?flag = "upd_isec i k (\<lambda>s. s\<lparr>is_root := True\<rparr>) st"
  have hs: "has_sec st i k" using v ik by (simp add: is_node_def)
  have f: "\<not> white ?flag w" using w sec_at_upd_isec [OF hs, of "is_root_update (\<lambda>_. True)" "fst w" "snd w"]
    by (auto simp: white_def is_node_def live_of_def split: if_splits)
  have k: "\<not> white (set_live i k 0 st) w"
    using w live_of_set_live [where v = 0 and w = w] v ik same_graph_node [OF same_graph_set_live] by (auto simp: white_def)
  have m: "\<not> white (gc_mark i k s) w" if "\<not> white s w" for s
    using not_white_grown [OF gc_mark_spec(1) that] .
  show ?thesis
    using w f k m [OF w] m [OF f] unfolding ik gc_root_def Let_def by simp
qed

lemma gc_roots:
  assumes "gc_between st0 st" "\<forall>v \<in> set vs. is_node st0 v"
  shows "gc_between st0 (fold gc_root vs st) \<and> (\<forall>w. (\<not> white st w \<or> w \<in> set vs \<and> plan_root st0 w) \<longrightarrow> \<not> white (fold gc_root vs st) w)"
  using assms
proof (induction vs arbitrary: st)
  case Nil
  then show ?case by simp
next
  case (Cons v vs)
  obtain i k where v: "v = (i, k)" by (cases v)
  have sg: "same_graph st0 st" using Cons.prems(1) by (simp add: gc_between_def)
  have nd: "is_node st0 (i, k)" "is_node st v" using Cons.prems(2) v same_graph_node [OF sg] by auto
  have b: "gc_between st0 (gc_root v st)" using gc_between_root [OF Cons.prems(1) nd(1)] v by simp
  have IH: "gc_between st0 (fold gc_root vs (gc_root v st))
    \<and> (\<forall>w. (\<not> white (gc_root v st) w \<or> w \<in> set vs \<and> plan_root st0 w) \<longrightarrow> \<not> white (fold gc_root vs (gc_root v st)) w)"
    using Cons.IH [OF b] Cons.prems(2) by simp
  have "\<not> white (gc_root v st) w" if "\<not> white st w \<or> w = v \<and> plan_root st0 w" for w
    using that gc_root_not_white [OF _ nd(2)] gc_root_done [OF Cons.prems(1), of i k] v by blast
  then show ?case using IH by (simp del: split_paired_All) blast
qed

lemma gc_symbol_spec:
  assumes b: "gc_between st0 st" and r: "\<And>v. defining_sec st0 n = Some v \<Longrightarrow> gc_is_root st0 v"
  shows "gc_between st0 (gc_symbol n st) \<and> (\<forall>w. (\<not> white st w \<or> defining_sec st0 n = Some w) \<longrightarrow> \<not> white (gc_symbol n st) w)"
proof -
  have d: "defining_sec st n = defining_sec st0 n" using b same_graph_defining unfolding gc_between_def by blast
  show ?thesis
  proof (cases "defining_sec st0 n")
    case None
    then show ?thesis using b d by (simp add: gc_symbol_def)
  next
    case (Some v)
    obtain i k where v: "v = (i, k)" by (cases v)
    then have eq: "gc_symbol n st = gc_mark i k st" using Some d by (simp add: gc_symbol_def)
    have "gc_between st0 (gc_mark i k st)" using gc_between_gc_mark [OF b] r Some v by simp
    moreover have "\<not> white (gc_mark i k st) w" if "\<not> white st w \<or> v = w" for w
      using that gc_mark_spec(3) not_white_grown [OF gc_mark_spec(1)] v by blast
    ultimately show ?thesis using Some unfolding eq by auto
  qed
qed

definition dynamic_root :: "ccwld_state \<Rightarrow> ccwld_rsym \<Rightarrow> bool" where
  "dynamic_root st r =
     (rs_referenced r \<and> rs_defined r \<and> \<not> rs_from_script r \<and> \<not> rs_obj r < 0 \<and> ob_is_dso (st_objs st ! nat (rs_obj r)))"

lemma gc_dynamics:
  assumes "gc_between st0 st" "set rs \<subseteq> set (st_rsyms st0)"
  shows "gc_between st0 (fold gc_dynamic rs st)
    \<and> (\<forall>w. (\<not> white st w \<or> (\<exists>r \<in> set rs. dynamic_root st0 r \<and> defining_sec st0 (rs_name r) = Some w))
          \<longrightarrow> \<not> white (fold gc_dynamic rs st) w)"
  using assms
proof (induction rs arbitrary: st)
  case Nil
  then show ?case by simp
next
  case (Cons r rs)
  have sg: "same_graph st0 st" using Cons.prems(1) by (simp add: gc_between_def)
  have step: "gc_dynamic r st = (if dynamic_root st0 r then gc_symbol (rs_name r) st else st)"
    using sg by (auto simp: gc_dynamic_def dynamic_root_def same_graph_def)
  have A: "gc_between st0 (gc_dynamic r st) \<and> (\<forall>w. (\<not> white st w \<or> dynamic_root st0 r \<and> defining_sec st0 (rs_name r) = Some w)
      \<longrightarrow> \<not> white (gc_dynamic r st) w)"
  proof (cases "dynamic_root st0 r")
    case True
    have "gc_is_root st0 v" if "defining_sec st0 (rs_name r) = Some v" for v
      using that True Cons.prems(2) unfolding gc_is_root_def dynamic_root_def by auto
    then show ?thesis using gc_symbol_spec [OF Cons.prems(1), of "rs_name r"] True step by simp
  next
    case False
    then show ?thesis using Cons.prems(1) step by simp
  qed
  then have "gc_between st0 (gc_dynamic r st)" by (rule conjunct1)
  then have IH: "gc_between st0 (fold gc_dynamic rs (gc_dynamic r st))
    \<and> (\<forall>w. (\<not> white (gc_dynamic r st) w \<or> (\<exists>r \<in> set rs. dynamic_root st0 r \<and> defining_sec st0 (rs_name r) = Some w))
          \<longrightarrow> \<not> white (fold gc_dynamic rs (gc_dynamic r st)) w)"
    using Cons.IH Cons.prems(2) by simp
  then show ?case using A by (simp del: split_paired_All) blast
qed

lemma gc_positions_nodes: "v \<in> set (gc_positions st) \<longleftrightarrow> is_node st v"
  by (cases v) (force simp: gc_positions_def is_node_def has_sec_def)

text \<open>The state before the sweep: closed, and no root is left white.\<close>

definition gc_marked :: "ccwld_state \<Rightarrow> ccwld_state" where
  "gc_marked st = fold gc_dynamic (st_rsyms st) (gc_entry (fold gc_root (gc_positions st) st))"

lemma gc_marked_spec:
  assumes "\<forall>v. is_node st v \<longrightarrow> live_of st v \<le> 1"
  shows "gc_between st (gc_marked st)" and "gc_is_root st w \<Longrightarrow> \<not> white (gc_marked st) w"
proof -
  define st1 where "st1 = fold gc_root (gc_positions st) st"
  have A: "gc_between st st1" "\<And>w. plan_root st w \<Longrightarrow> \<not> white st1 w"
    using gc_roots [OF gc_between_start [OF assms], of "gc_positions st"] gc_positions_nodes
    unfolding st1_def by (auto simp: plan_root_def)
  have pl: "st_plan st1 = st_plan st" using A(1) by (simp add: gc_between_def same_graph_def)
  define st2 where "st2 = gc_entry st1"
  have B: "gc_between st st2 \<and> (\<forall>w. (\<not> white st1 w
      \<or> (\<exists>n. out_entry (st_plan st) = Some n \<and> n \<noteq> [] \<and> defining_sec st n = Some w)) \<longrightarrow> \<not> white st2 w)"
  proof (cases "\<exists>n. out_entry (st_plan st) = Some n \<and> n \<noteq> []")
    case True
    then obtain n where n: "out_entry (st_plan st) = Some n" "n \<noteq> []" by blast
    then have "gc_is_root st v" if "defining_sec st n = Some v" for v using that by (auto simp: gc_is_root_def)
    then show ?thesis using gc_symbol_spec [OF A(1), of n] n pl by (simp add: st2_def gc_entry_def)
  next
    case False
    then have "st2 = st1" using pl by (auto simp: st2_def gc_entry_def split: option.split)
    then show ?thesis using A(1) False by auto
  qed
  have C: "gc_between st (gc_marked st)
    \<and> (\<forall>w. (\<not> white st2 w \<or> (\<exists>r \<in> set (st_rsyms st). dynamic_root st r \<and> defining_sec st (rs_name r) = Some w))
          \<longrightarrow> \<not> white (gc_marked st) w)"
    using gc_dynamics [of st st2 "st_rsyms st"] B unfolding gc_marked_def st2_def st1_def by simp
  then show "gc_between st (gc_marked st)" by (rule conjunct1)
  assume "gc_is_root st w"
  then show "\<not> white (gc_marked st) w"
    using A(2) [of w] B C unfolding gc_is_root_def dynamic_root_def by blast
qed

definition alloc_path :: "ccwld_state \<Rightarrow> node \<Rightarrow> node \<Rightarrow> bool" where
  "alloc_path st v w =
     (white st v \<and> allocated st v \<and> (\<lambda>a b. reloc_edge st a b \<and> white st b \<and> allocated st b)\<^sup>*\<^sup>* v w)"

lemma gc_marked_alloc:
  assumes "\<forall>v. is_node st v \<longrightarrow> live_of st v \<le> 1" "gc_is_root st u" "alloc_path st u v"
  shows "live_of (gc_marked st) v = 2"
proof -
  note b = gc_marked_spec(1) [OF assms(1)]
  have sg: "same_graph st (gc_marked st)" using b by (simp add: gc_between_def)
  have two: "live_of (gc_marked st) w = 2" if "\<not> white (gc_marked st) w" "white st w" "allocated st w" for w
  proof -
    have "is_node st w" "live_of st w = 1" using that(2) by (auto simp: white_def)
    moreover have "live_of (gc_marked st) w \<noteq> 1" using that(1) \<open>is_node st w\<close> same_graph_node [OF sg] by (simp add: white_def)
    ultimately show ?thesis using b [unfolded gc_between_def, THEN conjunct2, rule_format, of w] that(3) by linarith
  qed
  have "(\<lambda>a b. reloc_edge st a b \<and> white st b \<and> allocated st b)\<^sup>*\<^sup>* u v" using assms(3) by (simp add: alloc_path_def)
  then have "white st v \<and> allocated st v \<and> live_of (gc_marked st) v = 2"
  proof (induction rule: rtranclp_induct)
    case base
    then show ?case using two gc_marked_spec(2) [OF assms(1,2)] assms(3) by (simp add: alloc_path_def)
  next
    case (step x y)
    then have "is_node st x" by (simp add: white_def)
    then have "\<not> white (gc_marked st) y"
      using b [unfolded gc_between_def, THEN conjunct2, rule_format, of x] step by blast
    then show ?case using two step by blast
  qed
  then show ?thesis by blast
qed

lemma live_of_sweep:
  "is_node st v \<Longrightarrow> live_of (gc_sweep st) v
    = (if ob_is_lto (st_objs st ! fst v) then live_of st v
       else if live_of st v = 2 then 1 else if live_of st v = 1 then 0 else live_of st v)"
  by (simp add: live_of_def gc_sweep_def sec_at_def is_node_def has_sec_def gc_sweep_sec_def)

theorem gc_phase:
  assumes "pl_gc_sections (st_plan st)" "\<forall>v. is_node st v \<longrightarrow> live_of st v \<le> 1"
  shows "\<lbrakk>is_node st v; \<not> ob_is_lto (st_objs st ! fst v); live_of (ccwld_phase_gc st) v \<noteq> 0\<rbrakk>
      \<Longrightarrow> \<exists>u. gc_is_root st u \<and> white_path st u v"
    and "\<lbrakk>gc_is_root st u; alloc_path st u v\<rbrakk> \<Longrightarrow> live_of (ccwld_phase_gc st) v \<noteq> 0"
proof -
  note b = gc_marked_spec(1) [OF assms(2)]
  have sg: "same_graph st (gc_marked st)" using b by (simp add: gc_between_def)
  have eq: "ccwld_phase_gc st = gc_sweep (gc_marked st)" using assms(1) by (simp add: ccwld_phase_gc_def gc_marked_def)
  have lto: "ob_is_lto (st_objs (gc_marked st) ! i) = ob_is_lto (st_objs st ! i)" for i using sg by (simp add: same_graph_def)
  show "\<exists>u. gc_is_root st u \<and> white_path st u v"
    if "is_node st v" "\<not> ob_is_lto (st_objs st ! fst v)" "live_of (ccwld_phase_gc st) v \<noteq> 0"
  proof -
    have "live_of (gc_marked st) v = 2 \<or> live_of (gc_marked st) v > 2"
      using that same_graph_node [OF sg] unfolding eq by (simp add: live_of_sweep lto split: if_splits)
    then show ?thesis using b [unfolded gc_between_def, THEN conjunct2, rule_format, OF that(1)]
      by (elim conjE disjE) (simp_all del: split_paired_Ex)
  qed
  assume r: "gc_is_root st u" "alloc_path st u v"
  have "live_of (gc_marked st) v = 2" by (rule gc_marked_alloc [OF assms(2) r])
  moreover have "white st v"
    using r(2) unfolding alloc_path_def by (metis (no_types, lifting) rtranclp.cases)
  ultimately show "live_of (ccwld_phase_gc st) v \<noteq> 0"
    using same_graph_node [OF sg] unfolding eq by (simp add: live_of_sweep white_def)
qed

end
