(* ===== verification/Ccwld_Layout.thy ===== *)
theory Ccwld_Layout
  imports Ccwld_Glob
begin

unbundle bit_operations_syntax

text \<open>
  The layout phase (\<open>toolchain/ccwld/phases/ccwld_layout.c\<close>): sections are placed in plan order, the location
  counter advances, deferred expressions are evaluated against the symbols known so far. Addresses wrap.
\<close>

definition align_up :: "64 word \<Rightarrow> 64 word \<Rightarrow> 64 word" where
  "align_up v a = (if a \<le> 1 then v else (v + a - 1) AND NOT (a - 1))"

definition layout_resolver :: "ccwld_state \<Rightarrow> string \<Rightarrow> 64 word option" where
  "layout_resolver st name =
     (case find_rsym st name of
        None \<Rightarrow> None
      | Some i \<Rightarrow>
          (let r = st_rsyms st ! i in if rs_defined r \<and> rs_value_known r then Some (rs_value r) else None))"

text \<open>Evaluation of an expression of the plan; \<open>own\<close> is the symbol that it defines.\<close>

definition layout_eval :: "nat option \<Rightarrow> 64 word \<Rightarrow> ccwld_expr \<Rightarrow> ccwld_state \<Rightarrow> ccwld_state \<times> (string + 64 word)" where
  "layout_eval own dot e st =
     (let (marks, r) = ccwld_expr_eval (st_plan st) (Some (layout_resolver st)) own dot (st_marks st) e
      in (st\<lparr>st_marks := marks\<rparr>, r))"

definition upd_sec :: "nat \<Rightarrow> (ccwld_sec \<Rightarrow> ccwld_sec) \<Rightarrow> ccwld_state \<Rightarrow> ccwld_state" where
  "upd_sec i f st = st\<lparr>st_plan := (st_plan st)\<lparr>pl_secs := (pl_secs (st_plan st))[i := f (pl_secs (st_plan st) ! i)]\<rparr>\<rparr>"

definition upd_sym :: "nat \<Rightarrow> (ccwld_sym \<Rightarrow> ccwld_sym) \<Rightarrow> ccwld_state \<Rightarrow> ccwld_state" where
  "upd_sym i f st = st\<lparr>st_plan := (st_plan st)\<lparr>pl_syms := (pl_syms (st_plan st))[i := f (pl_syms (st_plan st) ! i)]\<rparr>\<rparr>"

definition out_sec :: "ccwld_state \<Rightarrow> nat \<Rightarrow> ccwld_sec" where
  "out_sec st i = pl_secs (st_plan st) ! i"

section \<open>Symbols of a section\<close>

definition refresh_symbol :: "ccwld_state \<Rightarrow> nat \<Rightarrow> ccwld_rsym \<Rightarrow> ccwld_rsym" where
  "refresh_symbol st out_idx r =
     (if \<not> rs_defined r \<or> rs_from_script r \<or> rs_obj r < 0 \<or> rs_isym r < 0 \<or> rs_value_known r then r
      else
        (let ob = st_objs st ! nat (rs_obj r)
         in if nat (rs_isym r) \<ge> length (ob_syms ob) then r
            else
              (let s = ob_syms ob ! nat (rs_isym r)
               in if sy_shndx s < 0 then r\<lparr>rs_value := sy_value s, rs_value_known := True\<rparr>
                  else if sy_shndx s = 0 then r
                  else
                    (case ccwld_state_isec st (rs_obj r) (sy_shndx s) of
                       None \<Rightarrow> r
                     | Some k \<Rightarrow>
                         (let sec = sec_at st (nat (rs_obj r)) k
                          in if is_out_sec sec \<noteq> int out_idx then r
                             else r\<lparr>rs_value := sec_vma (out_sec st out_idx) + is_out_off sec + sy_value s,
                                    rs_value_known := True\<rparr>)))))"

definition refresh_symbols_for_section :: "nat \<Rightarrow> ccwld_state \<Rightarrow> ccwld_state" where
  "refresh_symbols_for_section out_idx st = st\<lparr>st_rsyms := map (refresh_symbol st out_idx) (st_rsyms st)\<rparr>"

section \<open>Statements\<close>

text \<open>\<open>eval_sym\<close> for the symbol \<open>i\<close> of the plan.\<close>

definition or_unknown :: "string option \<Rightarrow> string" where
  "or_unknown s = (case s of Some t \<Rightarrow> t | None \<Rightarrow> ''?'')"

definition eval_sym :: "nat \<Rightarrow> 64 word \<Rightarrow> ccwld_state \<Rightarrow> ccwld_state \<times> ccwld_error option" where
  "eval_sym i dot st =
     (let sy = pl_syms (st_plan st) ! i; (st1, ri) = ccwld_state_rsym st (sym_name sy)
      in if sym_provide sy \<and> \<not> rs_defined (st_rsyms st1 ! ri) then (st1, None)
         else
           (case layout_eval (Some i) dot (sym_expr sy) st1 of
              (st2, Inl msg) \<Rightarrow>
                (st2, Some (ccwld_error_set CCWLD_EXIT_LINK (''deferred expression for symbol '' @ [quote] @ sym_name sy
                   @ [quote] @ '' failed: '' @ msg @ '' (defined at '' @ or_unknown (sym_site sy) @ '')'')))
            | (st2, Inr v) \<Rightarrow>
                (upd_rsym ri (\<lambda>r. (if rs_defined r then r else r\<lparr>rs_defined := True, rs_from_script := True\<rparr>)
                                    \<lparr>rs_value := v, rs_value_known := True\<rparr>)
                   (upd_sym i (\<lambda>s. s\<lparr>sym_resolved := True, sym_resolved_value := v\<rparr>) st2), None)))"

fun run_dotsteps ::
  "ccwld_dotstep list \<Rightarrow> int \<Rightarrow> nat \<Rightarrow> 64 word \<Rightarrow> ccwld_state \<Rightarrow> ccwld_state \<times> (ccwld_error + 64 word)" where
  "run_dotsteps [] sec_idx round dot st = (st, Inr dot)"
| "run_dotsteps (d # ds) sec_idx round dot st =
     (if dot_sec_idx d \<noteq> sec_idx \<or> dot_seq d \<noteq> round then run_dotsteps ds sec_idx round dot st
      else
        (case layout_eval None dot (dot_expr d) st of
           (st1, Inl msg) \<Rightarrow>
             (st1, Inl (ccwld_error_set CCWLD_EXIT_LINK (''location-counter assignment failed: '' @ msg
                @ '' (defined at '' @ or_unknown (dot_site d) @ '')'')))
         | (st1, Inr v) \<Rightarrow> run_dotsteps ds sec_idx round v (st1\<lparr>st_dot := v\<rparr>)))"

fun run_syms :: "nat list \<Rightarrow> int \<Rightarrow> nat \<Rightarrow> 64 word \<Rightarrow> ccwld_state \<Rightarrow> ccwld_state \<times> ccwld_error option" where
  "run_syms [] sec_idx round dot st = (st, None)"
| "run_syms (i # is) sec_idx round dot st =
     (let sy = pl_syms (st_plan st) ! i
      in if sym_sec_idx sy \<noteq> sec_idx \<or> sym_seq sy \<noteq> round \<or> sym_resolved sy then run_syms is sec_idx round dot st
         else
           (case eval_sym i dot st of
              (st1, Some e) \<Rightarrow> (st1, Some e)
            | (st1, None) \<Rightarrow> run_syms is sec_idx round dot st1))"

fun run_rounds :: "nat list \<Rightarrow> int \<Rightarrow> 64 word \<Rightarrow> ccwld_state \<Rightarrow> ccwld_state \<times> ccwld_error option" where
  "run_rounds [] sec_idx dot st = (st, None)"
| "run_rounds (round # rounds) sec_idx dot st =
     (case run_dotsteps (pl_dotsteps (st_plan st)) sec_idx round dot st of
        (st1, Inl e) \<Rightarrow> (st1, Some e)
      | (st1, Inr dot1) \<Rightarrow>
          (case run_syms [0..<length (pl_syms (st_plan st1))] sec_idx round dot1 st1 of
             (st2, Some e) \<Rightarrow> (st2, Some e)
           | (st2, None) \<Rightarrow> run_rounds rounds sec_idx dot1 st2))"

definition run_statements :: "int \<Rightarrow> 64 word \<Rightarrow> ccwld_state \<Rightarrow> ccwld_state \<times> ccwld_error option" where
  "run_statements sec_idx dot st = run_rounds [0..<Suc (pl_stmt_seq (st_plan st))] sec_idx dot st"

section \<open>Placing input sections\<close>

definition place_candidate :: "ccwld_sel \<Rightarrow> ccwld_obj \<Rightarrow> ccwld_isec \<Rightarrow> bool" where
  "place_candidate sel ob s =
     (\<not> (is_live s = 0 \<or> is_placed s \<or> is_flags s AND 2 = 0) \<and> glob_match (sel_file_pattern sel) (ob_path ob)
      \<and> list_ex (\<lambda>g. glob_match g (is_name s)) (sel_globs sel))"

definition place_isec :: "nat \<Rightarrow> ccwld_sel \<Rightarrow> nat \<Rightarrow> nat \<Rightarrow> ccwld_state \<times> 64 word \<Rightarrow> ccwld_state \<times> 64 word" where
  "place_isec i sel oi k cur =
     (case cur of (st, dot) \<Rightarrow>
        let s = sec_at st oi k; out = out_sec st i
        in if \<not> place_candidate sel (st_objs st ! oi) s then (st, dot)
           else
             (let sub = (if sec_subalign out \<noteq> 0 then sec_subalign out else is_align s);
                  off = align_up (dot - sec_vma out) sub
              in (upd_isec oi k (\<lambda>s. s\<lparr>is_out_sec := int i, is_out_off := off, is_placed := True\<rparr>) st,
                  sec_vma out + off + is_size s)))"

definition skip_obj :: "ccwld_obj \<Rightarrow> bool" where
  "skip_obj ob = (ob_is_lto ob \<or> ob_is_dso ob \<and> \<not> ob_used ob)"

definition place_obj :: "nat \<Rightarrow> ccwld_sel \<Rightarrow> nat \<Rightarrow> ccwld_state \<times> 64 word \<Rightarrow> ccwld_state \<times> 64 word" where
  "place_obj i sel oi cur =
     (let ob = st_objs (fst cur) ! oi
      in if skip_obj ob then cur else fold (place_isec i sel oi) [0..<length (ob_secs ob)] cur)"

definition place_sel :: "nat \<Rightarrow> ccwld_sel \<Rightarrow> ccwld_state \<times> 64 word \<Rightarrow> ccwld_state \<times> 64 word" where
  "place_sel i sel cur = fold (place_obj i sel) [0..<length (st_objs (fst cur))] cur"

definition place_section :: "nat \<Rightarrow> ccwld_state \<times> 64 word \<Rightarrow> ccwld_state \<times> 64 word" where
  "place_section i cur = fold (place_sel i) (sec_sels (out_sec (fst cur) i)) cur"

section \<open>One output section\<close>

definition layout_start :: "nat \<Rightarrow> 64 word \<Rightarrow> ccwld_state \<Rightarrow> ccwld_state \<times> (ccwld_error + 64 word)" where
  "layout_start i dot st =
     (let sec = out_sec st i; region = plan_find_region (st_plan st) (sec_region sec)
      in if sec_vma_expr sec \<noteq> NullExpr then
           (case layout_eval None dot (sec_vma_expr sec) st of
              (st1, Inl msg) \<Rightarrow>
                (st1, Inl (ccwld_error_set CCWLD_EXIT_LINK (''address expression for section '' @ [quote] @ sec_name sec
                   @ [quote] @ '' failed: '' @ msg)))
            | (st1, Inr v) \<Rightarrow> (st1, Inr (align_up v (sec_align sec))))
         else
           (st, Inr (align_up (case region of
                                 Some m \<Rightarrow> if dot < mem_origin m then mem_origin m else dot
                               | None \<Rightarrow> dot) (sec_align sec))))"

text \<open>The load address. The cursor of an \<open>AT>\<close> region starts at the region's origin.\<close>

definition lma_slot :: "string \<Rightarrow> ccwld_state \<Rightarrow> ccwld_state \<times> nat" where
  "lma_slot name st =
     (case find_index (\<lambda>l. fst l = name) (st_lma st) of
        Some li \<Rightarrow> (st, li)
      | None \<Rightarrow>
          (st\<lparr>st_lma := st_lma st @ [(name, case plan_find_region (st_plan st) (Some name) of Some m \<Rightarrow> mem_origin m | None \<Rightarrow> 0)]\<rparr>,
           length (st_lma st)))"

definition layout_lma :: "nat \<Rightarrow> ccwld_state \<Rightarrow> ccwld_state \<times> ccwld_error option" where
  "layout_lma i st =
     (let sec = out_sec st i
      in if sec_at_expr sec \<noteq> NullExpr then
           (case layout_eval None (sec_vma sec) (sec_at_expr sec) st of
              (st1, Inl msg) \<Rightarrow>
                (st1, Some (ccwld_error_set CCWLD_EXIT_LINK (''load-address expression for section '' @ [quote]
                   @ sec_name sec @ [quote] @ '' failed: '' @ msg)))
            | (st1, Inr v) \<Rightarrow> (upd_sec i (\<lambda>s. s\<lparr>sec_lma := v\<rparr>) st1, None))
         else
           (case sec_at_region sec of
              Some name \<Rightarrow>
                (let (st1, li) = lma_slot name st; lma = align_up (snd (st_lma st1 ! li)) (sec_align sec)
                 in (upd_sec i (\<lambda>s. s\<lparr>sec_lma := lma\<rparr>)
                       (st1\<lparr>st_lma := (st_lma st1)[li := (fst (st_lma st1 ! li), lma + sec_size sec)]\<rparr>), None))
            | None \<Rightarrow> (upd_sec i (\<lambda>s. s\<lparr>sec_lma := sec_vma s\<rparr>) st, None)))"

definition region_overflow :: "ccwld_state \<Rightarrow> nat \<Rightarrow> ccwld_error option" where
  "region_overflow st i =
     (let sec = out_sec st i
      in case plan_find_region (st_plan st) (sec_region sec) of
           None \<Rightarrow> None
         | Some m \<Rightarrow>
             if sec_vma sec + sec_size sec > mem_origin m + mem_length m then
               Some (ccwld_error_set CCWLD_EXIT_LINK (''section '' @ [quote] @ sec_name sec @ [quote] @ '' (0x''
                 @ hex_nat (unat (sec_vma sec)) @ ''..0x'' @ hex_nat (unat (sec_vma sec + sec_size sec))
                 @ '') overflows region '' @ [quote] @ mem_name m @ [quote] @ '' (origin 0x'' @ hex_nat (unat (mem_origin m))
                 @ '', length 0x'' @ hex_nat (unat (mem_length m)) @ '')''))
             else None)"

definition layout_section :: "nat \<Rightarrow> 64 word \<Rightarrow> ccwld_state \<Rightarrow> ccwld_state \<times> (ccwld_error + 64 word)" where
  "layout_section i dot0 st0 =
     (case layout_start i dot0 st0 of
        (st1, Inl e) \<Rightarrow> (st1, Inl e)
      | (st1, Inr vma) \<Rightarrow>
          (let (st2, dot) = place_section i (upd_sec i (\<lambda>s. s\<lparr>sec_vma := vma\<rparr>) st1, vma);
               st3 = upd_sec i (\<lambda>s. s\<lparr>sec_size := dot - sec_vma s\<rparr>) st2
           in case layout_lma i st3 of
                (st4, Some e) \<Rightarrow> (st4, Inl e)
              | (st4, None) \<Rightarrow>
                  (case region_overflow st4 i of
                     Some e \<Rightarrow> (st4, Inl e)
                   | None \<Rightarrow>
                       (let st5 = st4\<lparr>st_sec_laid := (st_sec_laid st4)[i := True], st_dot := dot\<rparr>;
                            st6 = refresh_symbols_for_section i st5
                        in case run_statements (int i) dot st6 of
                             (st7, Some e) \<Rightarrow> (st7, Inl e)
                           | (st7, None) \<Rightarrow> (st7, Inr (st_dot st7))))))"

fun layout_sections :: "nat list \<Rightarrow> 64 word \<Rightarrow> ccwld_state \<Rightarrow> ccwld_state \<times> ccwld_error option" where
  "layout_sections [] dot st = (st, None)"
| "layout_sections (i # is) dot st =
     (case layout_section i dot st of
        (st1, Inl e) \<Rightarrow> (st1, Some e)
      | (st1, Inr dot1) \<Rightarrow> layout_sections is dot1 st1)"

section \<open>The phase\<close>

definition unvalued_symbol :: "ccwld_state \<Rightarrow> ccwld_error option" where
  "unvalued_symbol st =
     (case find (\<lambda>r. rs_defined r \<and> \<not> rs_value_known r \<and> \<not> rs_from_script r) (st_rsyms st) of
        None \<Rightarrow> None
      | Some r \<Rightarrow> Some (ccwld_error_set CCWLD_EXIT_LINK (''internal: symbol '' @ [quote] @ rs_name r @ [quote]
                        @ '' defined but never valued'')))"

definition set_entry :: "ccwld_state \<Rightarrow> ccwld_state" where
  "set_entry st =
     (case out_entry (st_plan st) of
        None \<Rightarrow> st
      | Some n \<Rightarrow>
          if n = [] then st
          else (case find (\<lambda>r. rs_name r = n \<and> rs_value_known r) (st_rsyms st) of
                  None \<Rightarrow> st
                | Some r \<Rightarrow> st\<lparr>st_entry := Some (rs_value r)\<rparr>))"

definition unplaced_section :: "ccwld_state \<Rightarrow> ccwld_error option" where
  "unplaced_section st =
     (case List.map_filter
             (\<lambda>ob. if skip_obj ob then None
                   else map_option (Pair ob)
                          (find (\<lambda>s. \<not> (is_live s = 0 \<or> is_placed s \<or> is_flags s AND 2 = 0)) (ob_secs ob))) (st_objs st) of
        [] \<Rightarrow> None
      | (ob, s) # _ \<Rightarrow>
          Some (ccwld_error_set CCWLD_EXIT_LINK (''unplaced section '' @ [quote] @ is_name s @ [quote] @ '' from '' @ [quote]
            @ ob_path ob @ [quote] @ '' (no matching selector; place it explicitly or run with --gc-sections)'')))"

definition ccwld_phase_layout :: "ccwld_state \<Rightarrow> ccwld_state \<times> ccwld_error option" where
  "ccwld_phase_layout st0 =
     (let n = length (pl_secs (st_plan st0));
          dot = (if out_kind (st_plan st0) = Some ''reloc'' then 0 else 0x400080);
          st1 = st0\<lparr>st_sec_laid := replicate n False, st_dot := dot\<rparr>
      in case layout_sections [0..<n] dot st1 of
           (st2, Some e) \<Rightarrow> (st2, Some e)
         | (st2, None) \<Rightarrow>
             (let st3 = fold refresh_symbols_for_section [0..<n] st2
              in case run_statements (-1) (st_dot st3) st3 of
                   (st4, Some e) \<Rightarrow> (st4, Some e)
                 | (st4, None) \<Rightarrow>
                     (case unvalued_symbol st4 of
                        Some e \<Rightarrow> (st4, Some e)
                      | None \<Rightarrow> (let st5 = set_entry st4 in (st5, unplaced_section st5)))))"

end
