(* ===== verification/Ccwld_Words.thy ===== *)
theory Ccwld_Words
  imports CStrings
begin

unbundle bit_operations_syntax

text \<open>
  Facts on machine words that the linker's proofs share: clearing low bits, powers of two, and byte
  sequences in little-endian order.
\<close>

section \<open>Low bits\<close>

lemma and_not_mask_word: "(a :: 'a::len word) AND NOT (mask n) = a - take_bit n a"
proof -
  have "push_bit n (drop_bit n a) = a AND NOT (mask n)" by (rule bit_eqI) (auto simp: bit_simps)
  with bits_ident [of n a] show ?thesis by (metis add_diff_cancel_right')
qed

lemma unat_and_not_mask: "unat ((a :: 'a::len word) AND NOT (mask n)) = unat a - unat a mod 2 ^ n"
proof -
  have u: "unat (take_bit n a) = unat a mod 2 ^ n" 
    by (simp only: unsigned_take_bit_eq) (simp only: take_bit_eq_mod)
  then have "take_bit n a \<le> a" by (simp add: word_le_nat_alt)
  with u show ?thesis by (simp add: and_not_mask_word unat_sub)
qed

lemma two_power_word:
  assumes "n < 64"
  shows "(2 ^ n :: 64 word) \<noteq> 0" "unat (2 ^ n :: 64 word) = 2 ^ n" "(2 ^ n - 1 :: 64 word) = mask n"
    "unat (2 ^ n - 1 :: 64 word) = 2 ^ n - 1"
proof -
  show b: "(2 ^ n :: 64 word) \<noteq> 0" using assms by simp
  have "(0 :: 64 word) < 2 ^ n" using b by (simp add: word_gt_0)
  from uint_2p [OF this] show u: "unat (2 ^ n :: 64 word) = 2 ^ n" by (simp add: unat_eq_nat_uint nat_power_eq)
  show "(2 ^ n - 1 :: 64 word) = mask n" by (simp add: mask_eq_decr_exp)
  show "unat (2 ^ n - 1 :: 64 word) = 2 ^ n - 1" using u b by (metis unat_minus_one)
qed

end
