(* ===== verification/Ccwld_Eval.thy ===== *)
theory Ccwld_Eval
  imports Ccwld_Expr Ccwld_Words "HOL-Library.Sublist"
begin

unbundle bit_operations_syntax

text \<open>
  The value of a deferred expression as a relation without marks, against which the evaluator is compared. The
  operators are arithmetic on the natural numbers that the 64-bit words stand for. Besides the value the
  relation gives the plan symbols whose expressions are evaluated on the way, in order and as often as
  they are reached: those decide whether the marks let the evaluator finish, and which marks it leaves.
  The negation of the least signed number, undefined in C, wraps here as compilers do it.
\<close>

section \<open>Operators on numbers\<close>

fun number_unary :: "ccwld_op_tag \<Rightarrow> nat \<Rightarrow> nat option" where
  "number_unary CCWLD_OP_NEG a = Some (2 ^ 64 - a)"
| "number_unary CCWLD_OP_NOT a = Some (if a = 0 then 1 else 0)"
| "number_unary CCWLD_OP_ABS a = Some (if a < 2 ^ 63 then a else 2 ^ 64 - a)"
| "number_unary _ a = None"

fun number_binary :: "ccwld_op_tag \<Rightarrow> nat \<Rightarrow> nat \<Rightarrow> nat option" where
  "number_binary CCWLD_OP_ADD a b = Some (a + b)"
| "number_binary CCWLD_OP_SUB a b = Some (2 ^ 64 + a - b)"
| "number_binary CCWLD_OP_MUL a b = Some (a * b)"
| "number_binary CCWLD_OP_DIV a b = (if b = 0 then None else Some (a div b))"
| "number_binary CCWLD_OP_MOD a b = (if b = 0 then None else Some (a mod b))"
| "number_binary CCWLD_OP_AND a b = Some (a AND b)"
| "number_binary CCWLD_OP_OR a b = Some (a OR b)"
| "number_binary CCWLD_OP_XOR a b = Some (a XOR b)"
| "number_binary CCWLD_OP_SHL a b = Some (a * 2 ^ (b mod 64))"
| "number_binary CCWLD_OP_SHR a b = Some (a div 2 ^ (b mod 64))"
| "number_binary CCWLD_OP_EQ a b = Some (if a = b then 1 else 0)"
| "number_binary CCWLD_OP_NE a b = Some (if a = b then 0 else 1)"
| "number_binary CCWLD_OP_LT a b = Some (if a < b then 1 else 0)"
| "number_binary CCWLD_OP_LE a b = Some (if a \<le> b then 1 else 0)"
| "number_binary CCWLD_OP_GT a b = Some (if b < a then 1 else 0)"
| "number_binary CCWLD_OP_GE a b = Some (if b \<le> a then 1 else 0)"
| "number_binary CCWLD_OP_LAND a b = Some (if a = 0 then 0 else if b = 0 then 0 else 1)"
| "number_binary CCWLD_OP_LOR a b = Some (if a = 0 then if b = 0 then 0 else 1 else 1)"
| "number_binary _ a b = None"

text \<open>
  Alignment is to the next multiple when the boundary is a power of two; a boundary of 0 changes nothing, and
  for any other the code clears the bits of the boundary less one.
\<close>

definition number_align :: "nat \<Rightarrow> nat \<Rightarrow> nat" where
  "number_align a n =
     (if n = 0 then a
      else if n \<in> (\<lambda>k. 2 ^ k) ` {..<64} then (a + n - 1) div n * n
      else (let s = (a + n - 1) mod 2 ^ 64 in s - (s AND (n - 1))))"

lemma truth_numbers: "truth c = of_nat (if c then 1 else 0)"
  by (simp add: truth_def)

lemma unary_op_number: "unary_op t x = Inr v \<longleftrightarrow> (\<exists>n. number_unary t (unat x) = Some n \<and> v = of_nat n)"
proof -
  have neg: "(of_nat (2 ^ 64 - unat x) :: 64 word) = - x"
    using unsigned_less [of x, where 'a = nat] by (simp add: of_nat_diff less_imp_le)
  have "sint x = (if uint x < 2 ^ 63 then uint x else uint x - 2 ^ 64)"
  proof -
    have "sint x = signed_take_bit 63 (uint x)" by (simp add: sint_uint)
    moreover have "uint x div 2 ^ 63 = 1" if "\<not> uint x < 2 ^ 63"
      using that unsigned_less [of x, where 'a = int] by (simp add: div_pos_geq div_pos_pos_trivial)
    ultimately show ?thesis using unsigned_less [of x, where 'a = int]
      by (auto simp: signed_take_bit_eq_take_bit_minus take_bit_int_eq_self bit_iff_odd)
  qed
  then have "x <s 0 \<longleftrightarrow> \<not> unat x < 2 ^ 63" using unsigned_less [of x, where 'a = int]
    nat_less_iff [of "uint x" "2 ^ 63"] by (simp add: word_sless_alt)
  then show ?thesis using neg by (cases t) (auto simp: truth_numbers unat_eq_0)
qed

lemma binary_op_number: "binary_op t x y = Inr v \<longleftrightarrow> (\<exists>n. number_binary t (unat x) (unat y) = Some n \<and> v = of_nat n)"
proof -
  have "(of_nat (2 ^ 64 + unat x - unat y) :: 64 word) = x - y"
    using unsigned_less [of y, where 'a = nat] by (simp add: of_nat_diff less_imp_le trans_le_add1)
  moreover have "unat x = unat y \<longleftrightarrow> x = y" by (simp add: word_unat_eq_iff)
  moreover have "of_nat (unat x div unat y) = x div y" by (simp flip: unat_div)
  moreover have "of_nat (unat x mod unat y) = x mod y" by (simp flip: unat_mod)
  moreover have "of_nat (unat x AND unat y) = x AND y" by (simp flip: unsigned_and_eq)
  moreover have "of_nat (unat x OR unat y) = x OR y" by (simp flip: unsigned_or_eq)
  moreover have "of_nat (unat x XOR unat y) = x XOR y" by (simp flip: unsigned_xor_eq)
  moreover have m: "unat (y AND 63) = unat y mod 64"
  proof -
    have "y AND 63 = take_bit 6 y" using take_bit_eq_mask [of 6 y] by (simp add: mask_eq_decr_exp)
    then show ?thesis using unat_mod [of y 64] by (simp add: take_bit_eq_mod)
  qed
  moreover have "of_nat (unat x * 2 ^ (unat y mod 64)) = push_bit (unat (y AND 63)) x"
    by (simp add: m push_bit_eq_mult)
  moreover have "of_nat (unat x div 2 ^ (unat y mod 64)) = drop_bit (unat (y AND 63)) x"
    by (rule bit_word_eqI) (simp add: bit_simps m flip: drop_bit_eq_div)
  ultimately show ?thesis by (cases t) (auto simp: truth_numbers unat_eq_0 word_less_nat_alt word_le_nat_alt)
qed

lemma align_to_number: "align_to x y = of_nat (number_align (unat x) (unat y))"
proof (cases "y = 0")
  case True
  then show ?thesis by (simp add: align_to_def number_align_def)
next
  case False
  then have y: "unat y \<noteq> 0" by (simp add: unat_eq_0)
  let ?s = "x + y - 1"
  have s: "unat ?s = (unat x + unat y - 1) mod 2 ^ 64"
  proof -
    have "?s = of_nat (unat x + unat y - 1)" using y by (simp add: of_nat_diff)
    then have "unat ?s = (unat x + unat y - 1) mod 2 ^ LENGTH(64)" by (simp only: unat_of_nat)
    then show ?thesis by simp
  qed
  have m: "?s AND NOT (y - 1) = ?s - (?s AND (y - 1))"
  proof -
    have "?s AND NOT (y - 1) = ?s XOR (?s AND (y - 1))" by (rule bit_eqI) (auto simp: bit_simps)
    moreover have "(?s AND NOT (y - 1)) AND (?s AND (y - 1)) = 0" by (rule bit_eqI) (auto simp: bit_simps)
    then have "(?s AND NOT (y - 1)) + (?s AND (y - 1)) = (?s AND NOT (y - 1)) OR (?s AND (y - 1))" by (rule disjunctive_add_eq_or)
    moreover have "(?s AND NOT (y - 1)) OR (?s AND (y - 1)) = ?s" by (rule bit_eqI) (auto simp: bit_simps)
    ultimately show ?thesis by (metis add_diff_cancel_right')
  qed
  have y1: "unat (y - 1) = unat y - 1" using False by (metis unat_minus_one)
  show ?thesis
  proof (cases "unat y \<in> (\<lambda>k. 2 ^ k) ` {..<64}")
    case True
    then obtain k where k: "k < 64" "unat y = 2 ^ k" by auto
    have "y = 2 ^ k" using k two_power_word(2) [OF k(1)] by (simp add: word_unat_eq_iff)
    then have "?s AND NOT (y - 1) = ?s AND NOT (mask k)" using two_power_word(3) [OF k(1)] by simp
    then have "unat (align_to x y) = unat ?s - unat ?s mod 2 ^ k" using False by (simp add: align_to_def unat_and_not_mask)
    also have "\<dots> = unat ?s div 2 ^ k * 2 ^ k" by (simp add: minus_mod_eq_div_mult)
    also have "\<dots> = ((unat x + unat y - 1) div 2 ^ k * 2 ^ k) mod 2 ^ 64"
    proof -
      have e: "(2 :: nat) ^ 64 = 2 ^ k * 2 ^ (64 - k)" using k(1) by (simp flip: power_add)
      show ?thesis unfolding s e by (simp add: mod_mult2_eq div_mult2_eq mult.commute)
    qed
    finally have "unat (align_to x y) = (unat x + unat y - 1) div 2 ^ k * 2 ^ k mod 2 ^ 64" .
    moreover have "unat (of_nat (number_align (unat x) (unat y)) :: 64 word) = (unat x + unat y - 1) div 2 ^ k * 2 ^ k mod 2 ^ 64"
    proof -
      have "number_align (unat x) (unat y) = (unat x + unat y - 1) div 2 ^ k * 2 ^ k"
        using y True by (simp add: number_align_def k(2))
      then have "unat (of_nat (number_align (unat x) (unat y)) :: 64 word)
          = ((unat x + unat y - 1) div 2 ^ k * 2 ^ k) mod 2 ^ LENGTH(64)" by (simp only: unat_of_nat)
      then show ?thesis by simp
    qed
    ultimately show ?thesis by (simp add: word_unat_eq_iff)
  next
    case np: False
    have le: "unat ?s AND (unat y - 1) \<le> unat ?s" using word_and_le2 [of ?s "y - 1"] by (simp add: word_le_nat_alt unsigned_and_eq y1)
    have "of_nat (unat ?s AND (unat y - 1)) = ?s AND (y - 1)" unfolding y1 [symmetric] unsigned_and_eq [symmetric] by simp
    then have "align_to x y = of_nat (unat ?s - (unat ?s AND (unat y - 1)))"
      unfolding of_nat_diff [OF le] using False m by (simp add: align_to_def)
    then show ?thesis using y np by (simp add: number_align_def Let_def s)
  qed
qed

section \<open>Values\<close>

inductive expr_value :: "ccwld_plan \<Rightarrow> resolver \<Rightarrow> 64 word \<Rightarrow> ccwld_expr \<Rightarrow> 64 word \<Rightarrow> nat list \<Rightarrow> bool" for p res dot where
  int: "expr_value p res dot (ExprInt n) n []"
| dot: "expr_value p res dot ExprDot dot []"
| plan_symbol: "plan_find_symbol p name = Some i \<Longrightarrow> expr_value p res dot (sym_expr (pl_syms p ! i)) v us \<Longrightarrow>
    expr_value p res dot (ExprSymbol name) v (i # us)"
| input_symbol: "plan_find_symbol p name = None \<Longrightarrow> resolve_name res name = Some v \<Longrightarrow>
    expr_value p res dot (ExprSymbol name) v []"
| defined: "plan_find_symbol p name \<noteq> None \<or> resolve_name res name \<noteq> None \<Longrightarrow> expr_value p res dot (ExprDefined name) 1 []"
| undefined: "plan_find_symbol p name = None \<Longrightarrow> resolve_name res name = None \<Longrightarrow> expr_value p res dot (ExprDefined name) 0 []"
| origin: "plan_find_region p name = Some r \<Longrightarrow> expr_value p res dot (ExprRegionOrigin name) (mem_origin r) []"
| length: "plan_find_region p name = Some r \<Longrightarrow> expr_value p res dot (ExprRegionLength name) (mem_length r) []"
| headers: "expr_value p res dot ExprSizeofHeaders 64 []"
| sizeof: "plan_find_section p name = Some s \<Longrightarrow> expr_value p res dot (ExprSizeof name) (sec_size s) []"
| addr: "plan_find_section p name = Some s \<Longrightarrow> expr_value p res dot (ExprAddr name) (sec_vma s) []"
| loadaddr: "plan_find_section p name = Some s \<Longrightarrow> expr_value p res dot (ExprLoadaddr name) (sec_lma s) []"
| segment: "find (\<lambda>h. phdr_name h \<noteq> None \<and> phdr_name h = name) (pl_phdrs p) = Some h \<Longrightarrow>
    expr_value p res dot (ExprSegmentStart name d) (phdr_vaddr h) []"
| segment_default: "find (\<lambda>h. phdr_name h \<noteq> None \<and> phdr_name h = name) (pl_phdrs p) = None \<Longrightarrow>
    expr_value p res dot d v us \<Longrightarrow> expr_value p res dot (ExprSegmentStart name d) v us"
| align: "expr_value p res dot a x us \<Longrightarrow> n \<noteq> 0 \<or> b = NullExpr \<Longrightarrow>
    expr_value p res dot (ExprAlign a n b) (of_nat (number_align (unat x) (unat n))) us"
| align_expr: "expr_value p res dot a x us \<Longrightarrow> expr_value p res dot b y ws \<Longrightarrow>
    expr_value p res dot (ExprAlign a 0 b) (of_nat (number_align (unat x) (unat y))) (us @ ws)"
| unary: "expr_value p res dot a x us \<Longrightarrow> number_unary t (unat x) = Some n \<Longrightarrow>
    expr_value p res dot (ExprUnary t a) (of_nat n) us"
| binary: "expr_value p res dot a x us \<Longrightarrow> expr_value p res dot b y ws \<Longrightarrow> number_binary t (unat x) (unat y) = Some n \<Longrightarrow>
    expr_value p res dot (ExprBinary t a b) (of_nat n) (us @ ws)"
| max: "expr_value p res dot a x us \<Longrightarrow> expr_value p res dot b y ws \<Longrightarrow>
    expr_value p res dot (ExprMax a b) (of_nat (max (unat x) (unat y))) (us @ ws)"
| min: "expr_value p res dot a x us \<Longrightarrow> expr_value p res dot b y ws \<Longrightarrow>
    expr_value p res dot (ExprMin a b) (of_nat (min (unat x) (unat y))) (us @ ws)"
| cond_then: "expr_value p res dot a x us \<Longrightarrow> x \<noteq> 0 \<Longrightarrow> expr_value p res dot b v ws \<Longrightarrow>
    expr_value p res dot (ExprCond a b c) v (us @ ws)"
| cond_else: "expr_value p res dot a 0 us \<Longrightarrow> expr_value p res dot c v ws \<Longrightarrow> expr_value p res dot (ExprCond a b c) v (us @ ws)"

inductive_cases null_value: "expr_value p res dot NullExpr v us"

definition has_value :: "ccwld_plan \<Rightarrow> resolver \<Rightarrow> 64 word \<Rightarrow> ccwld_expr \<Rightarrow> 64 word \<Rightarrow> bool" where
  "has_value p res dot e v \<longleftrightarrow> (\<exists>us. expr_value p res dot e v us)"

text \<open>The rules with the operators of the evaluator.\<close>

lemma value_align: "expr_value p res dot a x us \<Longrightarrow> n \<noteq> 0 \<or> b = NullExpr \<Longrightarrow> expr_value p res dot (ExprAlign a n b) (align_to x n) us"
  unfolding align_to_number by (rule expr_value.align)

lemma value_align_expr: "expr_value p res dot a x us \<Longrightarrow> expr_value p res dot b y ws \<Longrightarrow>
    expr_value p res dot (ExprAlign a 0 b) (align_to x y) (us @ ws)"
  unfolding align_to_number by (rule expr_value.align_expr)

lemma value_unary: "expr_value p res dot a x us \<Longrightarrow> unary_op t x = Inr v \<Longrightarrow> expr_value p res dot (ExprUnary t a) v us"
  by (auto simp: unary_op_number intro: expr_value.unary)

lemma value_binary: "expr_value p res dot a x us \<Longrightarrow> expr_value p res dot b y ws \<Longrightarrow> binary_op t x y = Inr v \<Longrightarrow>
    expr_value p res dot (ExprBinary t a b) v (us @ ws)"
  by (auto simp: binary_op_number intro: expr_value.binary)

lemma max_number: "(if x > y then x else y) = of_nat (max (unat x) (unat y))" for x y :: "64 word"
  by (simp add: word_less_nat_alt max_def)

lemma min_number: "(if x < y then x else y) = of_nat (min (unat x) (unat y))" for x y :: "64 word"
  by (auto simp: word_less_nat_alt min_def word_unat_eq_iff)

section \<open>Marks\<close>

text \<open>The marks after the symbols of a list have been entered in turn, up to the first that is marked already.\<close>

fun visit :: "nat list \<Rightarrow> nat list \<Rightarrow> nat list \<times> bool" where
  "visit vis [] = (vis, True)"
| "visit vis (i # us) = (if i \<in> set vis then (vis, False) else visit (i # vis) us)"

lemma visit_append: "visit vis (us @ ws) = (case visit vis us of (vis', ok) \<Rightarrow> if ok then visit vis' ws else (vis', False))"
  by (induction us arbitrary: vis) auto

lemma visit_marks: "visit vis us = (vis', ok) \<Longrightarrow>
    (ok \<longleftrightarrow> distinct us \<and> set us \<inter> set vis = {}) \<and> (\<exists>ws. vis' = rev ws @ vis \<and> prefix ws us \<and> (ok \<longrightarrow> ws = us))"
proof (induction us arbitrary: vis)
  case (Cons i us)
  show ?case
  proof (cases "i \<in> set vis")
    case False
    then have "visit (i # vis) us = (vis', ok)" using Cons.prems by simp
    from Cons.IH [OF this] obtain ws where w: "ok \<longleftrightarrow> distinct us \<and> set us \<inter> set (i # vis) = {}"
      "vis' = rev ws @ i # vis" "prefix ws us" "ok \<longrightarrow> ws = us" by blast
    have "vis' = rev (i # ws) @ vis \<and> prefix (i # ws) (i # us) \<and> (ok \<longrightarrow> i # ws = i # us)" using w by simp
    moreover have "ok \<longleftrightarrow> distinct (i # us) \<and> set (i # us) \<inter> set vis = {}" using w(1) False by auto
    ultimately show ?thesis by blast
  next
    case True
    with Cons.prems have "vis' = rev [] @ vis" "\<not> ok" by auto
    with True show ?thesis by (auto intro!: exI [of _ "[]"])
  qed
qed auto

text \<open>The symbols that are not marked bound the nesting that is still possible.\<close>

definition unmarked :: "ccwld_plan \<Rightarrow> nat list \<Rightarrow> nat" where
  "unmarked p vis = card ({..<length (pl_syms p)} - set vis)"

lemma find_index_Some: "find_index P xs = Some i \<Longrightarrow> i < length xs \<and> P (xs ! i)"
  by (auto simp: find_index_def find_Some_iff)

lemma find_index_None: "find_index P xs = None \<longleftrightarrow> (\<forall>x \<in> set xs. \<not> P x)"
  by (fastforce simp: find_index_def find_None_iff in_set_conv_nth)

lemma plan_find_symbol_Some: "plan_find_symbol p name = Some i \<Longrightarrow> i < length (pl_syms p) \<and> Some (sym_name (pl_syms p ! i)) = name"
  by (auto simp: plan_find_symbol_def dest!: find_index_Some split: option.splits)

lemma unmarked_Cons:
  assumes "i < length (pl_syms p)" "i \<notin> set vis"
  shows "Suc (unmarked p (i # vis)) = unmarked p vis"
proof -
  have "{..<length (pl_syms p)} - set (i # vis) = ({..<length (pl_syms p)} - set vis) - {i}" by auto
  then show ?thesis using assms card_Suc_Diff1 [of "{..<length (pl_syms p)} - set vis" i] by (simp add: unmarked_def del: card_Diff_insert)
qed

lemma unmarked_append: "unmarked p (new @ vis) \<le> unmarked p vis"
  unfolding unmarked_def by (rule card_mono) auto

lemma visit_unmarked: "visit vis us = (vis', ok) \<Longrightarrow> unmarked p vis \<le> n \<Longrightarrow> unmarked p vis' \<le> n"
  using visit_marks unmarked_append le_trans by metis

lemma unmarked_bound: "unmarked p vis \<le> Suc (length (pl_syms p))"
  unfolding unmarked_def by (rule le_trans [OF card_mono [of "{..<length (pl_syms p)}"]]) auto

abbreviation cyclic_error :: "string + 64 word" where
  "cyclic_error \<equiv> Inl ''cyclic dependency in expression''"

section \<open>The evaluator against the values\<close>

lemma eval_sound: "eval_inner k p res dot vis e = (vis', Inr v) \<Longrightarrow> \<exists>us. expr_value p res dot e v us \<and> visit vis us = (vis', True)"
proof (induction k p res dot vis e arbitrary: vis' v rule: eval_inner.induct)
  case (4 k p res dot vis name)
  show ?case
  proof (cases "plan_find_symbol p name")
    case None
    with 4(2) show ?thesis by (auto intro: expr_value.input_symbol split: option.splits)
  next
    case (Some i)
    then obtain k' where k: "k = Suc k'" and i: "i \<notin> set vis" "sym_expr (pl_syms p ! i) \<noteq> NullExpr"
      and e: "eval_inner k' p res dot (i # vis) (sym_expr (pl_syms p ! i)) = (vis', Inr v)"
      using 4(2) by (cases k) (auto split: if_splits)
    from 4(1) [OF Some i(1) k i(2) e] obtain us where us: "expr_value p res dot (sym_expr (pl_syms p ! i)) v us"
      "visit (i # vis) us = (vis', True)" by blast
    then have "visit vis (i # us) = (vis', True)" using i(1) by simp
    with expr_value.plan_symbol [OF Some us(1)] show ?thesis by blast
  qed
next
  case (5 k p res dot vis name)
  then show ?case using expr_value.defined [of p name res dot] expr_value.undefined [of p name res dot]
    by (auto simp: truth_def split: if_splits)
next
  case (12 k p res dot vis name d)
  then show ?case by (fastforce intro: expr_value.segment expr_value.segment_default split: option.splits if_splits)
next
  case (13 k p res dot vis a n b)
  from 13(3) obtain vis1 x where a: "eval_inner k p res dot vis a = (vis1, Inr x)" by (auto split: prod.splits sum.splits)
  from 13(1) [OF a] obtain us where us: "expr_value p res dot a x us" "visit vis us = (vis1, True)" by blast
  show ?case
  proof (cases "n = 0 \<and> b \<noteq> NullExpr")
    case True
    then obtain y where b: "eval_inner k p res dot vis1 b = (vis', Inr y)" and v: "v = align_to x y"
      using 13(3) a by (auto split: prod.splits sum.splits)
    from 13(2) [OF a [symmetric] refl True b] obtain ws where "expr_value p res dot b y ws" "visit vis1 ws = (vis', True)" by blast
    with us v True show ?thesis using value_align_expr [of p res dot a x us b y ws] by (auto simp: visit_append)
  next
    case False
    then show ?thesis using us value_align [OF us(1), of n b] 13(3) a by (auto split: if_splits)
  qed
next
  case (14 k p res dot vis t a)
  from 14(2) obtain x where "eval_inner k p res dot vis a = (vis', Inr x)" "unary_op t x = Inr v"
    by (auto split: prod.splits sum.splits)
  with 14(1) value_unary show ?case by blast
next
  case (15 k p res dot vis t a b)
  from 15(3) obtain vis1 x y where a: "eval_inner k p res dot vis a = (vis1, Inr x)" and b: "eval_inner k p res dot vis1 b = (vis', Inr y)"
    and v: "binary_op t x y = Inr v" by (auto split: prod.splits sum.splits)
  from 15(1) [OF a] 15(2) [OF a [symmetric] refl b] value_binary [OF _ _ v] show ?case by (fastforce simp: visit_append)
next
  case (16 k p res dot vis a b)
  from 16(3) obtain vis1 x y where a: "eval_inner k p res dot vis a = (vis1, Inr x)" and b: "eval_inner k p res dot vis1 b = (vis', Inr y)"
    and v: "v = (if x > y then x else y)" by (auto simp del: if_split_asm split: prod.splits sum.splits)
  from 16(1) [OF a] 16(2) [OF a [symmetric] refl b] expr_value.max v [unfolded max_number] show ?case by (fastforce simp: visit_append)
next
  case (17 k p res dot vis a b)
  from 17(3) obtain vis1 x y where a: "eval_inner k p res dot vis a = (vis1, Inr x)" and b: "eval_inner k p res dot vis1 b = (vis', Inr y)"
    and v: "v = (if x < y then x else y)" by (auto split: prod.splits sum.splits)
  from 17(1) [OF a] 17(2) [OF a [symmetric] refl b] expr_value.min v [unfolded min_number] show ?case by (fastforce simp: visit_append)
next
  case (18 k p res dot vis a b c)
  from 18(4) obtain vis1 x where a: "eval_inner k p res dot vis a = (vis1, Inr x)" by (auto split: prod.splits sum.splits)
  from 18(1) [OF a] obtain us where us: "expr_value p res dot a x us" "visit vis us = (vis1, True)" by blast
  show ?case
  proof (cases "x = 0")
    case True
    then have "eval_inner k p res dot vis1 c = (vis', Inr v)" using 18(4) a by simp
    from 18(3) [OF a [symmetric] refl _ this] True obtain ws where "expr_value p res dot c v ws" "visit vis1 ws = (vis', True)" by blast
    with us True show ?thesis using expr_value.cond_else [of p res dot a us c v ws b] by (auto simp: visit_append)
  next
    case False
    then have "eval_inner k p res dot vis1 b = (vis', Inr v)" using 18(4) a by simp
    from 18(2) [OF a [symmetric] refl False this] obtain ws where "expr_value p res dot b v ws" "visit vis1 ws = (vis', True)" by blast
    with us False show ?thesis using expr_value.cond_then [of p res dot a x us b v ws c] by (auto simp: visit_append)
  qed
qed (auto intro: expr_value.intros split: option.splits)

text \<open>An expression that has a value evaluates to it, unless a mark is met; the bound on the nesting is never the reason.\<close>

lemma eval_complete:
  assumes "expr_value p res dot e v us" "unmarked p vis \<le> k"
  shows "eval_inner k p res dot vis e = (case visit vis us of (vis', ok) \<Rightarrow> (vis', if ok then Inr v else cyclic_error))"
  using assms
proof (induction arbitrary: k vis rule: expr_value.induct)
  case (plan_symbol name i v us)
  note i = plan_find_symbol_Some [OF plan_symbol.hyps(1)]
  have ne: "sym_expr (pl_syms p ! i) \<noteq> NullExpr" using plan_symbol.hyps(2) by (auto elim: null_value)
  show ?case
  proof (cases "i \<in> set vis")
    case True
    then show ?thesis using plan_symbol.hyps(1) by simp
  next
    case False
    then obtain k' where k: "k = Suc k'" using plan_symbol.prems unmarked_Cons [of i p vis] i by (cases k) auto
    have "unmarked p (i # vis) \<le> k'" using plan_symbol.prems unmarked_Cons [of i p vis] i False k by simp
    from plan_symbol.IH [OF this] show ?thesis using False k ne plan_symbol.hyps(1) by simp
  qed
next
  case (segment_default name d v us)
  have "d \<noteq> NullExpr" using segment_default.hyps(2) by (auto elim: null_value)
  then show ?case using segment_default by simp
next
  case (align a x us n b)
  from align.IH [OF align.prems] align.hyps show ?case by (auto simp: align_to_number split: prod.splits)
next
  case (align_expr a x us b y ws)
  have b: "b \<noteq> NullExpr" using align_expr.hyps(2) by (auto elim: null_value)
  obtain vis1 ok where v: "visit vis us = (vis1, ok)" by fastforce
  then show ?case using align_expr.IH(1) [OF align_expr.prems] align_expr.IH(2) [OF visit_unmarked [OF v align_expr.prems]] b
    by (auto simp: visit_append align_to_number split: prod.splits)
next
  case (unary a x us t n)
  have "unary_op t x = Inr (of_nat n)" using unary.hyps by (auto simp: unary_op_number)
  with unary.IH [OF unary.prems] show ?case by (auto split: prod.splits)
next
  case (binary a x us b y ws t n)
  have o: "binary_op t x y = Inr (of_nat n)" using binary.hyps by (auto simp: binary_op_number)
  obtain vis1 ok where v: "visit vis us = (vis1, ok)" by fastforce
  then show ?case using binary.IH(1) [OF binary.prems] binary.IH(2) [OF visit_unmarked [OF v binary.prems]] o
    by (auto simp: visit_append split: prod.splits)
next
  case (max a x us b y ws)
  obtain vis1 ok where v: "visit vis us = (vis1, ok)" by fastforce
  then show ?case using max.IH(1) [OF max.prems] max.IH(2) [OF visit_unmarked [OF v max.prems]]
    by (auto simp: visit_append max_number [symmetric] split: prod.splits)
next
  case (min a x us b y ws)
  obtain vis1 ok where v: "visit vis us = (vis1, ok)" by fastforce
  then show ?case using min.IH(1) [OF min.prems] min.IH(2) [OF visit_unmarked [OF v min.prems]]
    by (auto simp: visit_append min_number [symmetric] split: prod.splits)
next
  case (cond_then a x us b v ws c)
  obtain vis1 ok where v: "visit vis us = (vis1, ok)" by fastforce
  then show ?case using cond_then.IH(1) [OF cond_then.prems] cond_then.IH(2) [OF visit_unmarked [OF v cond_then.prems]] cond_then.hyps
    by (auto simp: visit_append split: prod.splits)
next
  case (cond_else a us c v ws b)
  obtain vis1 ok where v: "visit vis us = (vis1, ok)" by fastforce
  then show ?case using cond_else.IH(1) [OF cond_else.prems] cond_else.IH(2) [OF visit_unmarked [OF v cond_else.prems]]
    by (auto simp: visit_append split: prod.splits)
qed (auto simp: truth_def)

section \<open>Evaluations in sequence\<close>

lemma expr_eval_complete:
  assumes "expr_value p res dot e v us"
  shows "ccwld_expr_eval p res own dot vis e =
    (case visit ((case own of None \<Rightarrow> [] | Some i \<Rightarrow> [i]) @ filter (\<lambda>i. own \<noteq> Some i) vis) us of
       (vis', ok) \<Rightarrow> (filter (\<lambda>i. own \<noteq> Some i) vis', if ok then Inr v else cyclic_error))"
proof -
  have "e \<noteq> NullExpr" using assms by (auto elim: null_value)
  then show ?thesis using eval_complete [OF assms unmarked_bound] by (simp add: ccwld_expr_eval_def Let_def split: prod.splits)
qed

lemma expr_eval_sound: "ccwld_expr_eval p res own dot vis e = (vis', Inr v) \<Longrightarrow> has_value p res dot e v"
  unfolding ccwld_expr_eval_def has_value_def by (auto simp: Let_def split: if_splits prod.splits dest: eval_sound)

text \<open>
  The evaluations of a link: each has a plan (the sizes and addresses of its sections change), a resolver, the
  symbol whose expression is evaluated, if it is one's, a location counter and an expression.
\<close>

type_synonym evaluation = "ccwld_plan \<times> resolver \<times> nat option \<times> 64 word \<times> ccwld_expr"

fun marks_after :: "evaluation list \<Rightarrow> nat list \<Rightarrow> nat list" where
  "marks_after [] vis = vis"
| "marks_after ((p, res, own, dot, e) # es) vis = marks_after es (fst (ccwld_expr_eval p res own dot vis e))"

lemma eval_marks: "eval_inner k p res dot vis e = (vis', r) \<Longrightarrow> set vis \<subseteq> set vis'"
proof (induction k p res dot vis e arbitrary: vis' r rule: eval_inner.induct)
  case (4 k p res dot vis name)
  show ?case
  proof (cases "plan_find_symbol p name")
    case None
    with 4(2) show ?thesis by (auto split: option.splits)
  next
    case (Some i)
    show ?thesis
    proof (cases "i \<in> set vis \<or> k = 0 \<or> sym_expr (pl_syms p ! i) = NullExpr")
      case True
      with Some 4(2) show ?thesis by (cases k) (auto split: if_splits)
    next
      case False
      then obtain k' where k: "k = Suc k'" by (cases k) auto
      have "set (i # vis) \<subseteq> set vis'" by (rule 4(1) [OF Some _ k]) (use False Some 4(2) k in auto)
      then show ?thesis by simp
    qed
  qed
next
  case (12 k p res dot vis name d)
  then show ?case by (auto split: option.splits if_splits)
next
  case (13 k p res dot vis a n b)
  then show ?case by (auto split: if_splits prod.splits sum.splits) blast+
next
  case (15 k p res dot vis t a b)
  then show ?case by (auto split: prod.splits sum.splits) blast+
next
  case (16 k p res dot vis a b)
  then show ?case by (auto split: prod.splits sum.splits) blast+
next
  case (17 k p res dot vis a b)
  then show ?case by (auto split: prod.splits sum.splits) blast+
next
  case (18 k p res dot vis a b c)
  then show ?case by (auto split: if_splits prod.splits sum.splits) blast+
qed (auto split: prod.splits sum.splits)

lemma expr_eval_keeps: "own \<noteq> Some i \<Longrightarrow> i \<in> set vis \<Longrightarrow> i \<in> set (fst (ccwld_expr_eval p res own dot vis e))"
  unfolding ccwld_expr_eval_def Let_def by (auto split: prod.splits dest!: eval_marks)

lemma marks_after_keeps: "list_all (\<lambda>(p, res, own, dot, e). own \<noteq> Some i) es \<Longrightarrow> i \<in> set vis \<Longrightarrow> i \<in> set (marks_after es vis)"
  by (induction es vis rule: marks_after.induct) (auto dest: expr_eval_keeps)

lemma used_marked:
  assumes "expr_value p res dot e v us" "i \<in> set us" "snd (ccwld_expr_eval p res own dot vis e) = Inr w"
  shows "i \<in> set (fst (ccwld_expr_eval p res own dot vis e))"
proof -
  let ?vis = "(case own of None \<Rightarrow> [] | Some i \<Rightarrow> [i]) @ filter (\<lambda>i. own \<noteq> Some i) vis"
  obtain vis' ok where v: "visit ?vis us = (vis', ok)" by fastforce
  have ok: "ok" using assms(3) v by (auto simp: expr_eval_complete [OF assms(1)] split: if_splits)
  with visit_marks [OF v] have "own \<noteq> Some i" "i \<in> set vis'" using assms(2) by (auto split: option.splits)
  then show ?thesis by (simp add: expr_eval_complete [OF assms(1)] v)
qed

lemma marked_cyclic:
  assumes "expr_value p res dot e v us" "i \<in> set us" "i \<in> set vis"
  shows "snd (ccwld_expr_eval p res own dot vis e) = cyclic_error"
proof -
  let ?vis = "(case own of None \<Rightarrow> [] | Some i \<Rightarrow> [i]) @ filter (\<lambda>i. own \<noteq> Some i) vis"
  obtain vis' ok where v: "visit ?vis us = (vis', ok)" by fastforce
  have "i \<in> set ?vis" using assms(3) by (auto split: option.splits)
  then have "\<not> ok" using visit_marks [OF v] assms(2) by blast
  then show ?thesis by (simp add: expr_eval_complete [OF assms(1)] v)
qed

section \<open>Equality\<close>

fun no_boundary :: "ccwld_expr \<Rightarrow> ccwld_expr" where
  "no_boundary (ExprBinary t a b) = ExprBinary t (no_boundary a) (no_boundary b)"
| "no_boundary (ExprUnary t a) = ExprUnary t (no_boundary a)"
| "no_boundary (ExprAlign a n b) = ExprAlign (no_boundary a) 0 (no_boundary b)"
| "no_boundary (ExprMax a b) = ExprMax (no_boundary a) (no_boundary b)"
| "no_boundary (ExprMin a b) = ExprMin (no_boundary a) (no_boundary b)"
| "no_boundary (ExprCond a b c) = ExprCond (no_boundary a) (no_boundary b) (no_boundary c)"
| "no_boundary (ExprSegmentStart m a) = ExprSegmentStart m (no_boundary a)"
| "no_boundary e = e"

lemma no_boundary_leaf: "(NullExpr = no_boundary y) = (y = NullExpr)" "(ExprDot = no_boundary y) = (y = ExprDot)"
    "(ExprSizeofHeaders = no_boundary y) = (y = ExprSizeofHeaders)"
  by (cases y; simp)+

lemma expr_equal_iff: "ccwld_expr_equal x y \<longleftrightarrow> no_boundary x = no_boundary y"
  by (induction x y rule: ccwld_expr_equal.induct) (auto simp: no_boundary_leaf split: ccwld_expr.split)

section \<open>Alignment\<close>

lemma align_to_spec:
  assumes "n < 64" "unat a + 2 ^ n \<le> 2 ^ 64"
  shows "unat (align_to a (2 ^ n)) = (unat a + 2 ^ n - 1) div 2 ^ n * 2 ^ n"
proof -
  note t = two_power_word [OF assms(1)]
  have "unat a + unat (2 ^ n - 1 :: 64 word) < 2 ^ LENGTH(64)" using assms(2) t(4) by simp
  then have "unat (a + (2 ^ n - 1)) = unat a + (2 ^ n - 1)" using unat_add_lem [of a "2 ^ n - 1"] t(4) by simp
  then have s: "unat (a + 2 ^ n - 1) = unat a + 2 ^ n - 1" by (simp add: add_diff_eq)
  have "unat (align_to a (2 ^ n)) = (unat a + 2 ^ n - 1) - (unat a + 2 ^ n - 1) mod 2 ^ n"
    using t(1) by (simp add: align_to_def t(3) unat_and_not_mask s)
  then show ?thesis by (simp add: minus_mod_eq_div_mult)
qed

end
