(* ===== verification/Ccwld_Layout_Proof.thy ===== *)
theory Ccwld_Layout_Proof
  imports Ccwld_Layout Ccwld_Eval
begin

unbundle bit_operations_syntax

text \<open>
  Placement by the layout phase. Within an output section the offset of the next input section is the offset
  reached, rounded up; so no two input sections overlap, every one is aligned relative to its output section
  and ends inside it. The sums do not wrap when the sizes and alignments together fit into 64 bits.
\<close>

declare split_paired_All [simp del] split_paired_Ex [simp del]

section \<open>Alignment\<close>

definition legal_align :: "64 word \<Rightarrow> bool" where
  "legal_align a = (a = 0 \<or> list_ex (\<lambda>n. a = 2 ^ n) [0..<64])"

lemma align_up_spec:
  assumes "legal_align a" "unat v + unat a \<le> 2 ^ 64"
  shows "unat v \<le> unat (align_up v a)" "unat (align_up v a) \<le> unat v + unat a" "a \<noteq> 0 \<Longrightarrow> unat a dvd unat (align_up v a)"
proof -
  have "unat v \<le> unat (align_up v a) \<and> unat (align_up v a) \<le> unat v + unat a \<and> (a \<noteq> 0 \<longrightarrow> unat a dvd unat (align_up v a))"
  proof (cases "a \<le> 1")
    case True
    then have "a = 0 \<or> a = 1" by (simp add: word_le_nat_alt) (metis le_Suc_eq le_zero_eq unat_0 unat_1 unat_eq_0 word_unat_eq_iff One_nat_def)
    then show ?thesis using True by (auto simp: align_up_def)
  next
    case False
    then obtain n where n: "a = 2 ^ n" "n < 64" using assms(1) by (auto simp: legal_align_def list_ex_iff)
    have u: "unat a = 2 ^ n" using two_power_word(2) [OF n(2)] n(1) by simp
    have "align_up v a = align_to v (2 ^ n)" using False n two_power_word(1) [OF n(2)] by (simp add: align_up_def align_to_def)
    then have r: "unat (align_up v a) = (unat v + 2 ^ n - 1) div 2 ^ n * 2 ^ n"
      using align_to_spec [OF n(2), of v] assms(2) u by simp
    have "(unat v + 2 ^ n - 1) div 2 ^ n * 2 ^ n \<le> unat v + 2 ^ n - 1" by (rule div_times_less_eq_dividend)
    moreover have "unat v \<le> (unat v + 2 ^ n - 1) div 2 ^ n * 2 ^ n"
    proof -
      have "unat v + 2 ^ n - 1 < ((unat v + 2 ^ n - 1) div 2 ^ n + 1) * 2 ^ n"
        using dividend_less_div_times [of "2 ^ n" "unat v + 2 ^ n - 1"] by (simp add: algebra_simps)
      then show ?thesis by (simp add: algebra_simps)
    qed
    moreover have "(2::nat) ^ n dvd (unat v + 2 ^ n - 1) div 2 ^ n * 2 ^ n" by simp
    ultimately show ?thesis unfolding r u by (intro conjI impI) linarith+
  qed
  then show "unat v \<le> unat (align_up v a)" "unat (align_up v a) \<le> unat v + unat a" "a \<noteq> 0 \<Longrightarrow> unat a dvd unat (align_up v a)"
    by blast+
qed

text \<open>When the rounding wraps, the result is 0.\<close>

lemma align_up_wrap:
  assumes "legal_align a"
  shows "v \<le> align_up v a \<or> align_up v a = 0" and "a \<noteq> 0 \<Longrightarrow> unat a dvd unat (align_up v a)"
proof -
  have "(v \<le> align_up v a \<or> align_up v a = 0) \<and> (a \<noteq> 0 \<longrightarrow> unat a dvd unat (align_up v a))"
  proof (cases "unat v + unat a \<le> 2 ^ 64")
    case True
    then show ?thesis using align_up_spec [OF assms True] by (simp add: word_le_nat_alt)
  next
    case False
    then have "a \<noteq> 0" using unsigned_less [of v, where 'a = nat] by auto
    then obtain n where n: "a = 2 ^ n" "n < 64" using assms by (auto simp: legal_align_def list_ex_iff)
    have u: "unat a = 2 ^ n" using two_power_word(2) [OF n(2)] n(1) by simp
    show ?thesis
    proof (cases "n = 0")
      case True
      then show ?thesis using n by (simp add: align_up_def)
    next
      case n0: False
      have "\<not> a \<le> 1" using n0 u one_less_power [of "2 :: nat" n] by (simp add: word_le_nat_alt)
      let ?K = "(unat v + 2 ^ n - 1) div 2 ^ n * 2 ^ n"
      have "align_up v a = align_to v a" using \<open>\<not> a \<le> 1\<close> \<open>a \<noteq> 0\<close> by (simp add: align_up_def align_to_def)
      then have "align_up v a = of_nat (number_align (unat v) (2 ^ n))" by (simp add: align_to_number u)
      then have "align_up v a = of_nat ?K" using n(2) by (simp add: number_align_def)
      moreover have e: "(2 :: nat) ^ 64 = 2 ^ (64 - n) * 2 ^ n" using n(2) by (simp flip: power_add)
      moreover have "(unat v + 2 ^ n - 1) div 2 ^ n = 2 ^ (64 - n)"
      proof (rule div_nat_eqI)
        show "2 ^ n * 2 ^ (64 - n) \<le> unat v + 2 ^ n - 1" using False u e by (simp add: mult.commute)
        show "unat v + 2 ^ n - 1 < 2 ^ n * Suc (2 ^ (64 - n))" using unsigned_less [of v, where 'a = nat] e by (simp add: mult.commute)
      qed
      ultimately have "align_up v a = of_nat (2 ^ 64)" by (simp only: e)
      then show ?thesis by simp
    qed
  qed
  then show "v \<le> align_up v a \<or> align_up v a = 0" and "a \<noteq> 0 \<Longrightarrow> unat a dvd unat (align_up v a)" by blast+
qed

lemma dvd_address:
  fixes v off :: "64 word"
  assumes "d dvd unat off \<and> unat a dvd unat v" "legal_align a" "a \<noteq> 0" "d dvd unat a"
  shows "d dvd unat (v + off)"
proof -
  obtain n where n: "a = 2 ^ n" "n < 64" using assms(2,3) by (auto simp: legal_align_def list_ex_iff)
  have "unat a dvd 2 ^ 64" using n two_power_word(2) [OF n(2)] le_imp_power_dvd [of n 64 "2 :: nat"] by simp
  then have "d dvd 2 ^ 64" using assms(4) dvd_trans by blast
  moreover have "d dvd unat v + unat off" using assms(1,4) dvd_trans by (blast intro: dvd_add)
  ultimately show ?thesis by (simp add: unat_word_ariths dvd_mod)
qed

section \<open>What the phase leaves alone\<close>

definition bare_isec :: "ccwld_isec \<Rightarrow> ccwld_isec" where
  "bare_isec s = s\<lparr>is_out_sec := 0, is_out_off := 0, is_placed := False\<rparr>"

definition bare_obj :: "ccwld_obj \<Rightarrow> ccwld_obj" where
  "bare_obj ob = ob\<lparr>ob_secs := map bare_isec (ob_secs ob)\<rparr>"

definition bare_objs :: "ccwld_state \<Rightarrow> ccwld_obj list" where
  "bare_objs st = map bare_obj (st_objs st)"

definition bare_sec :: "ccwld_sec \<Rightarrow> ccwld_sec" where
  "bare_sec s = s\<lparr>sec_vma := 0, sec_lma := 0, sec_size := 0\<rparr>"

definition same_out :: "ccwld_state \<Rightarrow> ccwld_state \<Rightarrow> bool" where
  "same_out st0 st =
     (length (pl_secs (st_plan st)) = length (pl_secs (st_plan st0)) \<and> pl_mems (st_plan st) = pl_mems (st_plan st0)
      \<and> (\<forall>j. bare_sec (out_sec st j) = bare_sec (out_sec st0 j)))"

lemma bare_sec_fields:
  assumes "bare_sec s = bare_sec t"
  shows "sec_subalign s = sec_subalign t" "sec_align s = sec_align t" "sec_region s = sec_region t" "sec_name s = sec_name t"
    "sec_sels s = sec_sels t" "sec_vma_expr s = sec_vma_expr t"
proof -
  have "sec_subalign (bare_sec x) = sec_subalign x \<and> sec_align (bare_sec x) = sec_align x \<and> sec_region (bare_sec x) = sec_region x
    \<and> sec_name (bare_sec x) = sec_name x \<and> sec_sels (bare_sec x) = sec_sels x \<and> sec_vma_expr (bare_sec x) = sec_vma_expr x" for x
    by (simp add: bare_sec_def)
  then show "sec_subalign s = sec_subalign t" "sec_align s = sec_align t" "sec_region s = sec_region t" "sec_name s = sec_name t"
    "sec_sels s = sec_sels t" "sec_vma_expr s = sec_vma_expr t" using assms by metis+
qed

lemma bare_obj_simps:
  "ob_path (bare_obj a) = ob_path a" "ob_is_lto (bare_obj a) = ob_is_lto a" "ob_is_dso (bare_obj a) = ob_is_dso a"
  "ob_used (bare_obj a) = ob_used a" "ob_syms (bare_obj a) = ob_syms a"
  by (simp_all add: bare_obj_def)

lemma bare_isec_simps:
  "is_size (bare_isec s) = is_size s" "is_align (bare_isec s) = is_align s" "is_live (bare_isec s) = is_live s"
  "is_flags (bare_isec s) = is_flags s" "is_name (bare_isec s) = is_name s"
  by (simp_all add: bare_isec_def)

lemma bare_objs_length: "bare_objs st = bare_objs st0 \<Longrightarrow> length (st_objs st) = length (st_objs st0)"
  unfolding bare_objs_def by (metis length_map)

lemma bare_obj_nth: "bare_objs st = bare_objs st0 \<Longrightarrow> i < length (st_objs st0) \<Longrightarrow> bare_obj (st_objs st ! i) = bare_obj (st_objs st0 ! i)"
  using bare_objs_length [of st st0] unfolding bare_objs_def by (metis nth_map)

lemma bare_obj_fields:
  assumes "bare_obj a = bare_obj b"
  shows "ob_path a = ob_path b" "ob_is_lto a = ob_is_lto b" "ob_is_dso a = ob_is_dso b" "ob_used a = ob_used b" "ob_syms a = ob_syms b"
    "length (ob_secs a) = length (ob_secs b)" "k < length (ob_secs b) \<Longrightarrow> bare_isec (ob_secs a ! k) = bare_isec (ob_secs b ! k)"
proof -
  have "ob_secs (bare_obj x) = map bare_isec (ob_secs x)" for x by (simp add: bare_obj_def)
  then have m: "map bare_isec (ob_secs a) = map bare_isec (ob_secs b)" using assms by metis
  show "ob_path a = ob_path b" "ob_is_lto a = ob_is_lto b" "ob_is_dso a = ob_is_dso b" "ob_used a = ob_used b" "ob_syms a = ob_syms b"
    using assms by (metis bare_obj_simps)+
  show l: "length (ob_secs a) = length (ob_secs b)" using m by (metis length_map)
  show "bare_isec (ob_secs a ! k) = bare_isec (ob_secs b ! k)" if "k < length (ob_secs b)"
    using m l that by (metis nth_map)
qed

lemma bare_has_sec: "bare_objs st = bare_objs st0 \<Longrightarrow> has_sec st oi k = has_sec st0 oi k"
  using bare_objs_length bare_obj_nth bare_obj_fields(6) unfolding has_sec_def by metis

lemma bare_sec_at: "\<lbrakk>bare_objs st = bare_objs st0; has_sec st0 oi k\<rbrakk> \<Longrightarrow> bare_isec (sec_at st oi k) = bare_isec (sec_at st0 oi k)"
  using bare_obj_nth bare_obj_fields(7) unfolding has_sec_def sec_at_def by metis

lemma bare_isec_fields:
  assumes "bare_isec s = bare_isec t"
  shows "is_size s = is_size t" "is_align s = is_align t" "is_live s = is_live t" "is_flags s = is_flags t"
  using assms by (metis bare_isec_simps)+

lemma bare_objs_upd_isec:
  assumes "has_sec st oi k" "\<And>s. bare_isec (f s) = bare_isec s"
  shows "bare_objs (upd_isec oi k f st) = bare_objs st"
proof -
  have "map bare_isec ((ob_secs (st_objs st ! oi))[k := f (sec_at st oi k)]) = map bare_isec (ob_secs (st_objs st ! oi))"
    using assms by (intro nth_equalityI) (auto simp: nth_list_update sec_at_def has_sec_def)
  then have "bare_obj ((st_objs st ! oi)\<lparr>ob_secs := (ob_secs (st_objs st ! oi))[k := f (sec_at st oi k)]\<rparr>) = bare_obj (st_objs st ! oi)"
    by (simp add: bare_obj_def)
  then show ?thesis
    using assms(1) unfolding bare_objs_def st_objs_upd_isec by (intro nth_equalityI) (auto simp: nth_list_update has_sec_def)
qed

section \<open>Placement\<close>

definition placed_in :: "ccwld_state \<Rightarrow> nat \<times> nat \<Rightarrow> nat \<Rightarrow> bool" where
  "placed_in st v j =
     (has_sec st (fst v) (snd v) \<and> is_placed (sec_at st (fst v) (snd v)) \<and> is_out_sec (sec_at st (fst v) (snd v)) = int j)"

definition off_of :: "ccwld_state \<Rightarrow> nat \<times> nat \<Rightarrow> nat" where
  "off_of st v = unat (is_out_off (sec_at st (fst v) (snd v)))"

definition size_of :: "ccwld_state \<Rightarrow> nat \<times> nat \<Rightarrow> nat" where
  "size_of st v = unat (is_size (sec_at st (fst v) (snd v)))"

definition sub_align :: "ccwld_state \<Rightarrow> nat \<Rightarrow> nat \<times> nat \<Rightarrow> 64 word" where
  "sub_align st j v = (let a = sec_subalign (out_sec st j) in if a \<noteq> 0 then a else is_align (sec_at st (fst v) (snd v)))"

definition placed_ok :: "nat set \<Rightarrow> (nat \<Rightarrow> nat) \<Rightarrow> ccwld_state \<Rightarrow> bool" where
  "placed_ok D lim st =
     ((\<forall>v. has_sec st (fst v) (snd v) \<and> is_placed (sec_at st (fst v) (snd v)) \<longrightarrow> (\<exists>j \<in> D. placed_in st v j)) \<and>
      (\<forall>v j. placed_in st v j \<longrightarrow> off_of st v + size_of st v \<le> lim j \<and> (sub_align st j v \<noteq> 0 \<longrightarrow> unat (sub_align st j v) dvd off_of st v)) \<and>
      (\<forall>v w j. placed_in st v j \<and> placed_in st w j \<and> v \<noteq> w
         \<longrightarrow> off_of st v + size_of st v \<le> off_of st w \<or> off_of st w + size_of st w \<le> off_of st v))"

text \<open>The sections not yet placed, and what placing them can take at most.\<close>

definition unplaced :: "ccwld_state \<Rightarrow> (nat \<times> nat) set" where
  "unplaced st = {v. has_sec st (fst v) (snd v) \<and> \<not> is_placed (sec_at st (fst v) (snd v))}"

definition demand :: "nat \<Rightarrow> ccwld_state \<Rightarrow> nat" where
  "demand A st = (\<Sum>v \<in> unplaced st. size_of st v + A)"

lemma finite_unplaced: "finite (unplaced st)"
proof (rule finite_subset)
  show "unplaced st \<subseteq> (SIGMA i:{..<length (st_objs st)}. {..<length (ob_secs (st_objs st ! i))})"
    by (auto simp: unplaced_def has_sec_def)
qed simp

definition aligns_ok :: "nat \<Rightarrow> ccwld_state \<Rightarrow> bool" where
  "aligns_ok A st =
     ((\<forall>v j. j < length (pl_secs (st_plan st)) \<and> has_sec st (fst v) (snd v) \<longrightarrow> legal_align (sub_align st j v) \<and> unat (sub_align st j v) \<le> A))"

lemma place_isec_step:
  assumes ok: "placed_ok D lim st" and i: "i \<in> D" "lim i = unat (dot - sec_vma (out_sec st i))"
    and il: "i < length (pl_secs (st_plan st))"
    and room: "lim i + demand A st < 2 ^ 64" and al: "aligns_ok A st" and hs: "has_sec st oi k"
    and st': "place_isec i sel oi k (st, dot) = (st', dot')"
  shows "placed_ok D (lim(i := unat (dot' - sec_vma (out_sec st i)))) st'"
    and "unat (dot' - sec_vma (out_sec st i)) + demand A st' < 2 ^ 64"
    and "bare_objs st' = bare_objs st" and "st_plan st' = st_plan st"
    and "lim i \<le> unat (dot' - sec_vma (out_sec st i))"
proof -
  let ?s = "sec_at st oi k" and ?vma = "sec_vma (out_sec st i)" and ?sub = "sub_align st i (oi, k)"
  define poff where "poff = align_up (dot - ?vma) ?sub"
  have A: "placed_ok D (lim(i := unat (dot' - ?vma))) st' \<and> unat (dot' - ?vma) + demand A st' < 2 ^ 64 \<and> bare_objs st' = bare_objs st
    \<and> st_plan st' = st_plan st \<and> lim i \<le> unat (dot' - ?vma)"
  proof (cases "place_candidate sel (st_objs st ! oi) ?s")
    case False
    then have "st' = st" "dot' = dot" using st' by (simp_all add: place_isec_def)
    then show ?thesis using ok room by (simp add: i(2) [symmetric])
  next
    case True
    let ?st = "upd_isec oi k (\<lambda>s. s\<lparr>is_out_sec := int i, is_out_off := poff, is_placed := True\<rparr>) st"
    have eq: "st' = ?st" "dot' = ?vma + poff + is_size ?s"
      using st' True by (auto simp: place_isec_def Let_def sub_align_def poff_def)
    have np: "\<not> is_placed ?s" using True by (simp add: place_candidate_def)
    have un: "(oi, k) \<in> unplaced st" using np hs by (simp add: unplaced_def)
    have le: "unat ?sub \<le> A" "legal_align ?sub" using al hs il by (auto simp: aligns_ok_def)
    have dem: "demand A st = size_of st (oi, k) + A + (\<Sum>v \<in> unplaced st - {(oi, k)}. size_of st v + A)"
      unfolding demand_def by (rule sum.remove [OF finite_unplaced un])
    have fits: "unat (dot - ?vma) + unat ?sub \<le> 2 ^ 64" using room i(2) dem le by simp
    note off = align_up_spec [OF le(2) fits, folded poff_def]
    have sz: "size_of st (oi, k) = unat (is_size ?s)" by (simp add: size_of_def)
    have "unat poff + unat (is_size ?s) < 2 ^ 64" using off(2) room i(2) dem le(1) sz by linarith
    then have new: "unat (dot' - ?vma) = unat poff + unat (is_size ?s)" unfolding eq(2) by (simp add: unat_word_ariths)
    have sec: "sec_at ?st a b = (if a = oi \<and> b = k then ?s\<lparr>is_out_sec := int i, is_out_off := poff, is_placed := True\<rparr> else sec_at st a b)"
      for a b by (rule sec_at_upd_isec [OF hs])
    have pl: "placed_in ?st v j \<longleftrightarrow> (if v = (oi, k) then j = i else placed_in st v j)" for v j
      using hs by (cases v) (auto simp: placed_in_def sec)
    have of: "off_of ?st v = (if v = (oi, k) then unat poff else off_of st v)" for v by (cases v) (auto simp: off_of_def sec)
    have si: "size_of ?st v = size_of st v" for v by (cases v) (auto simp: size_of_def sec)
    have sa: "sub_align ?st j v = sub_align st j v" for v j by (cases v) (auto simp: sub_align_def sec out_sec_def Let_def)
    have npl: "\<not> placed_in st (oi, k) j" for j using np by (simp add: placed_in_def)
    have old: "off_of st v + size_of st v \<le> unat poff" if "placed_in st v i" for v
      using ok that i(2) off(1) unfolding placed_ok_def by (metis le_trans)
    have "placed_ok D (lim(i := unat (dot' - ?vma))) ?st"
      unfolding placed_ok_def
    proof (intro conjI allI impI)
      fix v
      assume "has_sec ?st (fst v) (snd v) \<and> is_placed (sec_at ?st (fst v) (snd v))"
      then show "\<exists>j \<in> D. placed_in ?st v j"
        using ok i(1) hs unfolding placed_ok_def pl by (cases "v = (oi, k)") (auto simp: sec prod_eq_iff split: if_splits)
    next
      fix v j
      assume p: "placed_in ?st v j"
      show "off_of ?st v + size_of ?st v \<le> (lim(i := unat (dot' - ?vma))) j"
      proof (cases "v = (oi, k)")
        case True
        then show ?thesis using p new by (simp add: pl of si sz)
      next
        case False
        then have q: "placed_in st v j" using p by (simp add: pl)
        then show ?thesis using False ok old [of v] new by (cases "j = i") (auto simp: of si placed_ok_def)
      qed
      show "unat (sub_align ?st j v) dvd off_of ?st v" if "sub_align ?st j v \<noteq> 0"
        using p that ok off(3) by (cases "v = (oi, k)") (auto simp: pl of sa placed_ok_def)
    next
      fix v w j
      assume p: "placed_in ?st v j \<and> placed_in ?st w j \<and> v \<noteq> w"
      have dj: "placed_in st v j \<Longrightarrow> placed_in st w j \<Longrightarrow> v \<noteq> w
          \<Longrightarrow> off_of st v + size_of st v \<le> off_of st w \<or> off_of st w + size_of st w \<le> off_of st v"
        using ok unfolding placed_ok_def by metis
      show "off_of ?st v + size_of ?st v \<le> off_of ?st w \<or> off_of ?st w + size_of ?st w \<le> off_of ?st v"
        using p dj old [of v] old [of w] by (cases "v = (oi, k)"; cases "w = (oi, k)") (simp_all add: pl of si)
    qed
    moreover have "unplaced ?st = unplaced st - {(oi, k)}" using hs by (auto simp: unplaced_def sec split: if_splits)
    then have "demand A ?st = (\<Sum>v \<in> unplaced st - {(oi, k)}. size_of st v + A)" by (simp add: demand_def si)
    then have "unat (dot' - ?vma) + demand A ?st < 2 ^ 64" using new off(2) room i(2) dem le(1) sz by linarith
    moreover have "bare_objs ?st = bare_objs st" by (rule bare_objs_upd_isec [OF hs]) (simp add: bare_isec_def)
    ultimately show ?thesis using new off(1) i(2) unfolding eq(1) by simp
  qed
  then show "placed_ok D (lim(i := unat (dot' - ?vma))) st'" "unat (dot' - ?vma) + demand A st' < 2 ^ 64" "bare_objs st' = bare_objs st"
    "st_plan st' = st_plan st" "lim i \<le> unat (dot' - ?vma)" by blast+
qed

text \<open>The loops over selectors, objects and sections.\<close>

lemma fold_inv: "\<lbrakk>I s; \<And>x s. \<lbrakk>x \<in> set xs; I s\<rbrakk> \<Longrightarrow> I (f x s)\<rbrakk> \<Longrightarrow> I (fold f xs s)"
  by (induction xs arbitrary: s) auto

definition cursor_ok :: "nat set \<Rightarrow> (nat \<Rightarrow> nat) \<Rightarrow> nat \<Rightarrow> nat \<Rightarrow> ccwld_state \<Rightarrow> ccwld_state \<times> 64 word \<Rightarrow> bool" where
  "cursor_ok D lim i A st0 cur =
     (case cur of (st, dot) \<Rightarrow>
        placed_ok D (lim(i := unat (dot - sec_vma (out_sec st0 i)))) st
        \<and> unat (dot - sec_vma (out_sec st0 i)) + demand A st < 2 ^ 64
        \<and> bare_objs st = bare_objs st0 \<and> st_plan st = st_plan st0)"

lemma aligns_ok_plan:
  assumes "bare_objs st = bare_objs st0" "st_plan st = st_plan st0" "aligns_ok A st0"
  shows "aligns_ok A st"
proof -
  have "sub_align st j v = sub_align st0 j v" if "has_sec st0 (fst v) (snd v)" for v j
    using bare_isec_fields(2) [OF bare_sec_at [OF assms(1) that]] assms(2) by (simp add: sub_align_def Let_def out_sec_def)
  then show ?thesis using assms(2,3) bare_has_sec [OF assms(1)] by (simp add: aligns_ok_def)
qed

lemma place_section_inv:
  assumes al: "aligns_ok A st0" and i: "i \<in> D" "i < length (pl_secs (st_plan st0))" and c: "cursor_ok D lim i A st0 cur"
  shows "cursor_ok D lim i A st0 (place_section i cur)"
proof -
  have one: "cursor_ok D lim i A st0 (place_isec i sel oi k cur)" if "has_sec st0 oi k" "cursor_ok D lim i A st0 cur" for sel oi k cur
  proof -
    obtain st dot where cur: "cur = (st, dot)" by (cases cur)
    obtain st' dot' where st': "place_isec i sel oi k (st, dot) = (st', dot')" by fastforce
    have c: "placed_ok D (lim(i := unat (dot - sec_vma (out_sec st0 i)))) st"
      "unat (dot - sec_vma (out_sec st0 i)) + demand A st < 2 ^ 64" "bare_objs st = bare_objs st0" "st_plan st = st_plan st0"
      using that(2) cur by (auto simp: cursor_ok_def)
    have os: "out_sec st = out_sec st0" using c(4) by (simp add: out_sec_def fun_eq_iff)
    have hs: "has_sec st oi k" using that(1) bare_has_sec [OF c(3)] by simp
    have il: "i < length (pl_secs (st_plan st))" using i(2) c(4) by simp
    note s = place_isec_step [OF c(1) i(1) _ il _ aligns_ok_plan [OF c(3,4) al] hs st', unfolded os, simplified]
    show ?thesis
      using s c cur st' by (simp add: cursor_ok_def)
  qed
  have obj: "cursor_ok D lim i A st0 (place_obj i sel oi cur)" if "oi < length (st_objs st0)" "cursor_ok D lim i A st0 cur" for sel oi cur
  proof -
    have "bare_objs (fst cur) = bare_objs st0" using that(2) by (auto simp: cursor_ok_def)
    then have l: "length (ob_secs (st_objs (fst cur) ! oi)) = length (ob_secs (st_objs st0 ! oi))"
      using bare_obj_fields(6) [OF bare_obj_nth] that(1) by blast
    have "cursor_ok D lim i A st0 (fold (place_isec i sel oi) [0..<length (ob_secs (st_objs (fst cur) ! oi))] cur)"
      by (rule fold_inv [where I = "cursor_ok D lim i A st0", OF that(2) one]) (use that(1) l in \<open>simp_all add: has_sec_def\<close>)
    then show ?thesis using that(2) unfolding place_obj_def Let_def by simp
  qed
  have sel: "cursor_ok D lim i A st0 (place_sel i sel cur)" if "cursor_ok D lim i A st0 cur" for sel cur
  proof -
    have "bare_objs (fst cur) = bare_objs st0" using that by (auto simp: cursor_ok_def)
    then have l: "length (st_objs (fst cur)) = length (st_objs st0)" by (rule bare_objs_length)
    show ?thesis
      unfolding place_sel_def by (rule fold_inv [where I = "cursor_ok D lim i A st0", OF that obj]) (use l in simp_all)
  qed
  show ?thesis unfolding place_section_def by (rule fold_inv [where I = "cursor_ok D lim i A st0", OF c sel])
qed

section \<open>The other steps\<close>

text \<open>Steps that change neither the input sections nor the output sections and regions.\<close>

definition keeps :: "ccwld_state \<Rightarrow> ccwld_state \<Rightarrow> bool" where
  "keeps st st' =
     (st_objs st' = st_objs st \<and> pl_secs (st_plan st') = pl_secs (st_plan st) \<and> pl_mems (st_plan st') = pl_mems (st_plan st))"

lemma keeps_refl [simp]: "keeps st st"
  by (simp add: keeps_def)

lemma keeps_trans: "\<lbrakk>keeps a b; keeps b c\<rbrakk> \<Longrightarrow> keeps a c"
  by (simp add: keeps_def)

lemma keeps_eval: "layout_eval own dot e st = (st', r) \<Longrightarrow> keeps st st'"
  by (auto simp: layout_eval_def keeps_def split: prod.splits)

lemma keeps_rsym: "ccwld_state_rsym st n = (st', i) \<Longrightarrow> keeps st st'"
  by (auto simp: ccwld_state_rsym_def keeps_def split: option.splits)

lemma keeps_eval_sym: "eval_sym i dot st = (st', r) \<Longrightarrow> keeps st st'"
  unfolding eval_sym_def Let_def
  by (auto split: prod.splits if_splits sum.splits dest!: keeps_rsym keeps_eval simp: keeps_def upd_rsym_def upd_sym_def)

lemma keeps_dotsteps: "run_dotsteps ds si round dot st = (st', r) \<Longrightarrow> keeps st st'"
proof (induction ds si round dot st rule: run_dotsteps.induct)
  case (2 d ds si round dot st)
  then show ?case by (auto split: if_splits prod.splits sum.splits dest!: keeps_eval simp: keeps_def)
qed simp

lemma keeps_syms: "run_syms is si round dot st = (st', r) \<Longrightarrow> keeps st st'"
proof (induction "is" si round dot st rule: run_syms.induct)
  case (2 i "is" si round dot st)
  then show ?case by (fastforce simp: Let_def split: if_splits prod.splits option.splits dest!: keeps_eval_sym intro: keeps_trans)
qed simp

lemma keeps_rounds: "run_rounds rs si dot st = (st', r) \<Longrightarrow> keeps st st'"
proof (induction rs si dot st rule: run_rounds.induct)
  case (2 round rs si dot st)
  obtain st1 r1 where d: "run_dotsteps (pl_dotsteps (st_plan st)) si round dot st = (st1, r1)" by fastforce
  show ?case
  proof (cases r1)
    case (Inl e)
    then show ?thesis using 2(2) d keeps_dotsteps [OF d] by simp
  next
    case (Inr dot1)
    obtain st2 r2 where s: "run_syms [0..<length (pl_syms (st_plan st1))] si round dot1 st1 = (st2, r2)" by fastforce
    have k: "keeps st st2" using keeps_trans keeps_dotsteps [OF d] keeps_syms [OF s] by blast
    show ?thesis
    proof (cases r2)
      case None
      then show ?thesis using 2 d Inr s k keeps_trans by simp
    next
      case (Some e)
      then show ?thesis using 2(2) d Inr s k by simp
    qed
  qed
qed simp

lemma keeps_statements: "run_statements si dot st = (st', r) \<Longrightarrow> keeps st st'"
  unfolding run_statements_def by (rule keeps_rounds)

lemma keeps_refresh: "keeps st (refresh_symbols_for_section i st)"
  by (simp add: keeps_def refresh_symbols_for_section_def)

lemma keeps_start: "layout_start i dot st = (st', r) \<Longrightarrow> keeps st st'"
  by (auto simp: layout_start_def Let_def split: if_splits prod.splits sum.splits dest!: keeps_eval)

lemma out_sec_upd:
  "out_sec (upd_sec i f st) j = (if j = i \<and> i < length (pl_secs (st_plan st)) then f (out_sec st i) else out_sec st j)"
  by (cases "i < length (pl_secs (st_plan st))") (auto simp: out_sec_def upd_sec_def nth_list_update_neq list_update_beyond)

lemma upd_sec_frame [simp]:
  "st_objs (upd_sec i f st) = st_objs st" "pl_mems (st_plan (upd_sec i f st)) = pl_mems (st_plan st)"
  "length (pl_secs (st_plan (upd_sec i f st))) = length (pl_secs (st_plan st))"
  by (simp_all add: upd_sec_def)

lemma same_out_refl [simp]: "same_out st st"
  by (simp add: same_out_def)

lemma same_out_trans: "\<lbrakk>same_out a b; same_out b c\<rbrakk> \<Longrightarrow> same_out a c"
  by (simp add: same_out_def)

lemma keeps_same_out: "keeps st st' \<Longrightarrow> same_out st st'"
  by (simp add: keeps_def same_out_def out_sec_def)

lemma upd_sec_same_out: "(\<And>s. bare_sec (f s) = bare_sec s) \<Longrightarrow> same_out st (upd_sec i f st)"
  by (simp add: same_out_def out_sec_upd)

text \<open>What \<open>placed_ok\<close> depends on.\<close>

lemma placed_ok_cong:
  assumes "st_objs st' = st_objs st" "\<And>j. j \<in> D \<Longrightarrow> sec_subalign (out_sec st' j) = sec_subalign (out_sec st j)"
    "\<And>j. j \<in> D \<Longrightarrow> lim j \<le> lim' j" "placed_ok D lim st"
  shows "placed_ok D lim' st'"
proof -
  have hs: "has_sec st' i k = has_sec st i k" and se: "sec_at st' i k = sec_at st i k" for i k
    using assms(1) by (simp_all add: has_sec_def sec_at_def)
  have pi: "placed_in st' v j = placed_in st v j" and of: "off_of st' v = off_of st v" and si: "size_of st' v = size_of st v" for v j
    by (simp_all add: placed_in_def off_of_def size_of_def hs se)
  have inD: "j \<in> D" if "placed_in st v j" for v j
  proof -
    have "has_sec st (fst v) (snd v) \<and> is_placed (sec_at st (fst v) (snd v))" using that by (simp add: placed_in_def)
    then obtain j' where "j' \<in> D" "placed_in st v j'" using assms(4) unfolding placed_ok_def by blast
    then show ?thesis using that by (auto simp: placed_in_def)
  qed
  have sa: "sub_align st' j v = sub_align st j v" if "j \<in> D" for j v
    using assms(2) [OF that] by (simp add: sub_align_def se Let_def)
  show ?thesis
    unfolding placed_ok_def pi of si hs se
  proof (intro conjI allI impI)
    show "\<exists>j \<in> D. placed_in st v j" if "has_sec st (fst v) (snd v) \<and> is_placed (sec_at st (fst v) (snd v))" for v
      using that assms(4) unfolding placed_ok_def by blast
    show "off_of st v + size_of st v \<le> lim' j" if "placed_in st v j" for v j
      using that inD [OF that] assms(3,4) unfolding placed_ok_def by (meson le_trans)
    show "unat (sub_align st' j v) dvd off_of st v" if "placed_in st v j" "sub_align st' j v \<noteq> 0" for v j
      using that sa [OF inD [OF that(1)]] assms(4) unfolding placed_ok_def by metis
    show "off_of st v + size_of st v \<le> off_of st w \<or> off_of st w + size_of st w \<le> off_of st v"
      if "placed_in st v j \<and> placed_in st w j \<and> v \<noteq> w" for v w j
      using that assms(4) unfolding placed_ok_def by metis
  qed
qed

lemma demand_cong: "st_objs st' = st_objs st \<Longrightarrow> demand A st' = demand A st"
  by (simp add: demand_def unplaced_def has_sec_def sec_at_def size_of_def)

lemma placed_ok_insert: "\<lbrakk>placed_ok D lim st; i \<notin> D\<rbrakk> \<Longrightarrow> placed_ok (insert i D) (lim(i := c)) st"
  unfolding placed_ok_def
proof (elim conjE, intro conjI allI impI)
  fix v j
  assume a: "\<forall>v. has_sec st (fst v) (snd v) \<and> is_placed (sec_at st (fst v) (snd v)) \<longrightarrow> (\<exists>j \<in> D. placed_in st v j)"
    and i: "i \<notin> D" and b: "\<forall>v j. placed_in st v j \<longrightarrow> off_of st v + size_of st v \<le> lim j
      \<and> (sub_align st j v \<noteq> 0 \<longrightarrow> unat (sub_align st j v) dvd off_of st v)"
    and p: "placed_in st v j"
  have "has_sec st (fst v) (snd v) \<and> is_placed (sec_at st (fst v) (snd v))" using p by (simp add: placed_in_def)
  then obtain j' where "j' \<in> D" "placed_in st v j'" using a by blast
  then have "j \<noteq> i" using p i by (auto simp: placed_in_def)
  then show "off_of st v + size_of st v \<le> (lim(i := c)) j" using b p by simp
qed blast+

text \<open>
  A section ends inside its region, in unbounded arithmetic, unless its own end or that of the region reaches
  2^64. It starts at a multiple of its alignment, and without an address expression not below the region, unless
  rounding wraps to 0; with an address expression it may start anywhere.
\<close>

definition region_ok :: "ccwld_state \<Rightarrow> nat \<Rightarrow> bool" where
  "region_ok st j =
     (case plan_find_region (st_plan st) (sec_region (out_sec st j)) of
        None \<Rightarrow> True
      | Some m \<Rightarrow> unat (mem_origin m) + unat (mem_length m) < 2 ^ 64 \<and> unat (sec_vma (out_sec st j)) + unat (sec_size (out_sec st j)) < 2 ^ 64
          \<longrightarrow> unat (sec_vma (out_sec st j)) + unat (sec_size (out_sec st j)) \<le> unat (mem_origin m) + unat (mem_length m))"

definition start_ok :: "ccwld_state \<Rightarrow> nat \<Rightarrow> bool" where
  "start_ok st j =
     (let s = out_sec st j
      in legal_align (sec_align s) \<longrightarrow>
           (sec_align s \<noteq> 0 \<longrightarrow> unat (sec_align s) dvd unat (sec_vma s))
           \<and> (case plan_find_region (st_plan st) (sec_region s) of
                None \<Rightarrow> True
              | Some m \<Rightarrow> sec_vma_expr s = NullExpr \<longrightarrow> mem_origin m \<le> sec_vma s \<or> sec_vma s = 0))"

lemma region_overflow_ok: "region_overflow st j = None \<Longrightarrow> region_ok st j"
  by (auto simp: region_overflow_def region_ok_def Let_def word_le_nat_alt not_less unat_word_ariths mod_less split: option.splits if_splits)

lemma layout_start_ok:
  assumes "layout_start i dot st = (st1, Inr vma)" "sec_vma (out_sec st' i) = vma" "same_out st st'"
  shows "start_ok st' i"
proof -
  let ?s = "out_sec st i"
  have b: "bare_sec (out_sec st' i) = bare_sec ?s" "pl_mems (st_plan st') = pl_mems (st_plan st)" using assms(3) by (simp_all add: same_out_def)
  note f = bare_sec_fields [OF b(1)]
  have r: "plan_find_region (st_plan st') = plan_find_region (st_plan st)" by (rule ext) (simp only: plan_find_region_def b(2))
  obtain v where v: "vma = align_up v (sec_align ?s)"
    "\<And>m. sec_vma_expr ?s = NullExpr \<Longrightarrow> plan_find_region (st_plan st) (sec_region ?s) = Some m \<Longrightarrow> mem_origin m \<le> v"
  proof (cases "sec_vma_expr ?s = NullExpr")
    case True
    show ?thesis
      by (rule that [of "case plan_find_region (st_plan st) (sec_region ?s) of
          Some m \<Rightarrow> if dot < mem_origin m then mem_origin m else dot | None \<Rightarrow> dot"])
        (use assms(1) True in \<open>auto simp: layout_start_def Let_def split: option.splits\<close>)
  next
    case False
    then obtain v where "vma = align_up v (sec_align ?s)"
      using assms(1) by (auto simp: layout_start_def Let_def split: prod.splits sum.splits)
    with False that show ?thesis by blast
  qed
  show ?thesis
    unfolding start_ok_def Let_def r f assms(2)
    using v align_up_wrap [of "sec_align ?s" v] by (auto split: option.split)
qed

definition layout_inv :: "nat \<Rightarrow> nat set \<Rightarrow> ccwld_state \<Rightarrow> ccwld_state \<Rightarrow> bool" where
  "layout_inv A D st0 st =
     (placed_ok D (\<lambda>j. unat (sec_size (out_sec st j))) st \<and> demand A st < 2 ^ 64 \<and> bare_objs st = bare_objs st0
      \<and> same_out st0 st \<and> (\<forall>j \<in> D. region_ok st j \<and> start_ok st j))"

lemma layout_inv_keeps: "\<lbrakk>layout_inv A D st0 st; keeps st st'\<rbrakk> \<Longrightarrow> layout_inv A D st0 st'"
proof -
  assume inv: "layout_inv A D st0 st" and k: "keeps st st'"
  have o: "st_objs st' = st_objs st" "out_sec st' = out_sec st" "pl_mems (st_plan st') = pl_mems (st_plan st)"
    using k by (auto simp: keeps_def out_sec_def fun_eq_iff)
  have "placed_ok D (\<lambda>j. unat (sec_size (out_sec st' j))) st'"
    by (rule placed_ok_cong [where D = D and lim = "\<lambda>j. unat (sec_size (out_sec st j))" and st = st])
      (use o inv in \<open>auto simp: layout_inv_def\<close>)
  moreover have "region_ok st' j = region_ok st j" "start_ok st' j = start_ok st j" for j
    using o by (simp_all add: region_ok_def start_ok_def plan_find_region_def cong: option.case_cong)
  ultimately show ?thesis
    using inv o demand_cong [OF o(1)] same_out_trans [OF _ keeps_same_out [OF k]] by (simp add: layout_inv_def bare_objs_def)
qed

definition lma_only :: "ccwld_state \<Rightarrow> ccwld_state \<Rightarrow> bool" where
  "lma_only st st' =
     (st_objs st' = st_objs st \<and> same_out st st' \<and>
      (\<forall>j. sec_vma (out_sec st' j) = sec_vma (out_sec st j) \<and> sec_size (out_sec st' j) = sec_size (out_sec st j)))"

lemma lma_only_upd:
  assumes "keeps st st1" "\<And>s. bare_sec (f s) = bare_sec s" "\<And>s. sec_vma (f s) = sec_vma s \<and> sec_size (f s) = sec_size s"
  shows "lma_only st (upd_sec i f st1)"
proof -
  have "out_sec st1 = out_sec st" using assms(1) by (simp add: keeps_def out_sec_def fun_eq_iff)
  then show ?thesis
    using assms same_out_trans [OF keeps_same_out [OF assms(1)] upd_sec_same_out [OF assms(2), where i = i]]
    by (simp add: lma_only_def out_sec_upd keeps_def)
qed

lemma lma_only_keeps: "keeps st st' \<Longrightarrow> lma_only st st'"
  using keeps_same_out by (auto simp: lma_only_def keeps_def out_sec_def)

lemma layout_lma_only:
  assumes "layout_lma i st = (st', r)"
  shows "lma_only st st'"
proof (cases "sec_at_expr (out_sec st i) \<noteq> NullExpr")
  case True
  obtain st1 v where e: "layout_eval None (sec_vma (out_sec st i)) (sec_at_expr (out_sec st i)) st = (st1, v)" by fastforce
  show ?thesis
  proof (cases v)
    case (Inl m)
    then show ?thesis using assms True e lma_only_keeps keeps_eval [OF e] by (auto simp: layout_lma_def Let_def)
  next
    case (Inr x)
    then have "st' = upd_sec i (\<lambda>s. s\<lparr>sec_lma := x\<rparr>) st1" using assms True e by (auto simp: layout_lma_def Let_def)
    then show ?thesis using lma_only_upd [OF keeps_eval [OF e], of "\<lambda>s. s\<lparr>sec_lma := x\<rparr>"] by (simp add: bare_sec_def)
  qed
next
  case False
  show ?thesis
  proof (cases "sec_at_region (out_sec st i)")
    case None
    then have "st' = upd_sec i (\<lambda>s. s\<lparr>sec_lma := sec_vma s\<rparr>) st" using assms False by (simp add: layout_lma_def Let_def)
    then show ?thesis using lma_only_upd [OF keeps_refl, of "\<lambda>s. s\<lparr>sec_lma := sec_vma s\<rparr>"] by (simp add: bare_sec_def)
  next
    case (Some n)
    obtain st1 li where l: "lma_slot n st = (st1, li)" by fastforce
    have "keeps st (st1\<lparr>st_lma := x\<rparr>)" for x using l by (auto simp: lma_slot_def keeps_def split: option.splits)
    moreover obtain x y where "st' = upd_sec i (\<lambda>s. s\<lparr>sec_lma := x\<rparr>) (st1\<lparr>st_lma := y\<rparr>)"
      using assms False Some l by (auto simp: layout_lma_def Let_def)
    ultimately show ?thesis using lma_only_upd [of st _ "\<lambda>s. s\<lparr>sec_lma := x\<rparr>"] by (simp add: bare_sec_def)
  qed
qed

text \<open>One output section.\<close>

lemma layout_section_inv:
  assumes inv: "layout_inv A D st0 st" and i: "i \<notin> D" "i < length (pl_secs (st_plan st0))" and al: "aligns_ok A st0"
    and run: "layout_section i dot0 st = (st', Inr dot')"
  shows "layout_inv A (insert i D) st0 st'"
proof -
  obtain st1 vma where start: "layout_start i dot0 st = (st1, Inr vma)"
    using run by (auto simp: layout_section_def split: prod.splits sum.splits)
  have inv1: "layout_inv A D st0 st1" by (rule layout_inv_keeps [OF inv keeps_start [OF start]])
  define st2 where "st2 = upd_sec i (\<lambda>s. s\<lparr>sec_vma := vma\<rparr>) st1"
  obtain st3 dot where pl: "place_section i (st2, vma) = (st3, dot)" by fastforce
  define st4 where "st4 = upd_sec i (\<lambda>s. s\<lparr>sec_size := dot - sec_vma s\<rparr>) st3"
  obtain st5 where lma: "layout_lma i st4 = (st5, None)"
    using run start pl by (auto simp: layout_section_def Let_def st2_def st4_def split: prod.splits option.splits)
  have reg: "region_overflow st5 i = None"
    using run start pl lma by (auto simp: layout_section_def Let_def st2_def st4_def split: prod.splits option.splits)
  define st6 where "st6 = refresh_symbols_for_section i (st5\<lparr>st_sec_laid := (st_sec_laid st5)[i := True], st_dot := dot\<rparr>)"
  obtain st7 r7 where rs: "run_statements (int i) dot st6 = (st7, r7)" by fastforce
  have "layout_section i dot0 st = (case (st7, r7) of (st7, Some e) \<Rightarrow> (st7, Inl e) | (st7, None) \<Rightarrow> (st7, Inr (st_dot st7)))"
    using start pl [unfolded st2_def] lma [unfolded st4_def] reg rs [unfolded st6_def]
    by (simp add: layout_section_def Let_def)
  then have "st7 = st'" using run by (cases r7) auto
  moreover have "keeps st5 st6" by (simp add: st6_def keeps_def refresh_symbols_for_section_def)
  ultimately have fin: "keeps st5 st'" using keeps_statements [OF rs] keeps_trans by blast
  have so: "same_out st0 st1" and bo: "bare_objs st1 = bare_objs st0" using inv1 by (auto simp: layout_inv_def)
  have so2: "same_out st0 st2" unfolding st2_def by (rule same_out_trans [OF so upd_sec_same_out]) (simp add: bare_sec_def)
  have il: "i < length (pl_secs (st_plan st1))" "i < length (pl_secs (st_plan st2))" using so so2 i(2) by (auto simp: same_out_def)
  have bo2: "bare_objs st2 = bare_objs st0" using bo by (simp add: st2_def bare_objs_def)
  have suba: "sec_subalign (out_sec x j) = sec_subalign (out_sec st0 j)" if "same_out st0 x" for x j
    using that bare_sec_fields(1) unfolding same_out_def by blast
  have al2: "aligns_ok A st2"
  proof -
    have "sub_align st2 j v = sub_align st0 j v" if "has_sec st0 (fst v) (snd v)" for j v
      using suba [OF so2] bare_isec_fields(2) [OF bare_sec_at [OF bo2 that]] by (simp add: sub_align_def Let_def)
    then show ?thesis using al so2 bare_has_sec [OF bo2] by (simp add: aligns_ok_def same_out_def)
  qed
  let ?lim = "\<lambda>j. unat (sec_size (out_sec st1 j))"
  have v2: "sec_vma (out_sec st2 i) = vma" using il(1) by (simp add: st2_def out_sec_upd)
  have o2: "st_objs st2 = st_objs st1" by (simp add: st2_def)
  have p1: "placed_ok D ?lim st1" using inv1 by (simp add: layout_inv_def)
  have "placed_ok D ?lim st2"
    by (rule placed_ok_cong [OF o2 _ _ p1]) (simp_all only: suba [OF so] suba [OF so2] order_refl)
  then have "cursor_ok (insert i D) ?lim i A st2 (st2, vma)"
    using placed_ok_insert [OF _ i(1)] inv1 demand_cong [of st2 st1 A] v2 by (simp add: cursor_ok_def layout_inv_def st2_def)
  then have "cursor_ok (insert i D) ?lim i A st2 (st3, dot)"
    using place_section_inv [OF al2 insertI1 il(2)] pl by metis
  then have c: "placed_ok (insert i D) (?lim(i := unat (dot - vma))) st3" "unat (dot - vma) + demand A st3 < 2 ^ 64"
    "bare_objs st3 = bare_objs st0" "st_plan st3 = st_plan st2" using v2 bo2 by (auto simp: cursor_ok_def)
  have os3: "out_sec st3 = out_sec st2" using c(4) by (simp add: out_sec_def fun_eq_iff)
  have so4: "same_out st0 st4"
    unfolding st4_def
    by (rule same_out_trans [OF _ upd_sec_same_out]) (use so2 os3 c(4) in \<open>simp_all add: same_out_def bare_sec_def\<close>)
  have lo: "lma_only st4 st5" by (rule layout_lma_only [OF lma])
  then have so5: "same_out st0 st5" using same_out_trans [OF so4] by (simp add: lma_only_def)
  have size5: "unat (sec_size (out_sec st5 j)) = (?lim(i := unat (dot - vma))) j" for j
    using lo il v2 os3 c(4) by (auto simp: lma_only_def st4_def st2_def out_sec_upd)
  have vma5: "sec_vma (out_sec st5 j) = sec_vma (out_sec st1 j)" and size5': "sec_size (out_sec st5 j) = sec_size (out_sec st1 j)"
    if "j \<noteq> i" for j
    using that lo os3 by (auto simp: lma_only_def st4_def st2_def out_sec_upd)
  have o5: "st_objs st5 = st_objs st3" using lo by (simp add: lma_only_def st4_def)
  have "placed_ok (insert i D) (\<lambda>j. unat (sec_size (out_sec st5 j))) st5"
    by (rule placed_ok_cong [OF o5 _ _ c(1)]) (simp_all only: suba [OF so5] suba [OF so2] os3 size5 order_refl)
  moreover have "region_ok st5 j \<and> start_ok st5 j" if "j \<in> insert i D" for j
  proof (cases "j = i")
    case True
    have "same_out st st0" "sec_vma (out_sec st5 i) = vma"
      using inv lo v2 os3 il c(4) by (auto simp: layout_inv_def same_out_def lma_only_def st4_def out_sec_upd)
    then show ?thesis using True reg region_overflow_ok layout_start_ok [OF start] same_out_trans [OF _ so5] by blast
  next
    case False
    then have "region_ok st1 j" "start_ok st1 j" using that inv1 by (auto simp: layout_inv_def)
    moreover have "bare_sec (out_sec st5 j) = bare_sec (out_sec st1 j)" "pl_mems (st_plan st5) = pl_mems (st_plan st1)"
      using so so5 by (simp_all add: same_out_def)
    ultimately show ?thesis using vma5 [OF False] size5' [OF False] bare_sec_fields [of "out_sec st5 j" "out_sec st1 j"]
      by (simp add: region_ok_def start_ok_def plan_find_region_def Let_def cong: option.case_cong)
  qed
  ultimately have "layout_inv A (insert i D) st0 st5"
    using so5 c(2,3) demand_cong [OF o5, of A] o5 by (simp add: layout_inv_def bare_objs_def)
  then show ?thesis by (rule layout_inv_keeps [OF _ fin])
qed

section \<open>The phase\<close>

lemma layout_sections_inv:
  "\<lbrakk>layout_inv A D st0 st; layout_sections is dot st = (st', None); distinct is; set is \<inter> D = {};
    set is \<subseteq> {..<length (pl_secs (st_plan st0))}; aligns_ok A st0\<rbrakk> \<Longrightarrow> layout_inv A (set is \<union> D) st0 st'"
proof (induction "is" arbitrary: D dot st)
  case Nil
  then show ?case by simp
next
  case (Cons i "is")
  obtain st1 r where s: "layout_section i dot st = (st1, r)" by fastforce
  then obtain dot1 where r: "r = Inr dot1" using Cons.prems(2) by (cases r) auto
  have "layout_inv A (insert i D) st0 st1"
    by (rule layout_section_inv [OF Cons.prems(1) _ _ Cons.prems(6)]) (use Cons.prems s r in auto)
  then have "layout_inv A (set is \<union> insert i D) st0 st'"
    by (rule Cons.IH) (use Cons.prems s r in auto)
  then show ?case by simp
qed

text \<open>The sizes and alignments of the inputs together fit into 64 bits; alignments are powers of two up to \<open>A\<close>.\<close>

definition layout_fits :: "nat \<Rightarrow> ccwld_state \<Rightarrow> bool" where
  "layout_fits A st =
     (list_all (\<lambda>ob. list_all (\<lambda>s. \<not> is_placed s \<and> legal_align (is_align s) \<and> unat (is_align s) \<le> A) (ob_secs ob)) (st_objs st)
      \<and> list_all (\<lambda>s. legal_align (sec_subalign s) \<and> unat (sec_subalign s) \<le> A) (pl_secs (st_plan st))
      \<and> sum_list (map (\<lambda>ob. sum_list (map (\<lambda>s. unat (is_size s) + A) (ob_secs ob))) (st_objs st)) < 2 ^ 64)"

lemma layout_fits_aligns: "layout_fits A st \<Longrightarrow> aligns_ok A st"
  by (auto simp: layout_fits_def aligns_ok_def sub_align_def Let_def out_sec_def sec_at_def has_sec_def list_all_length)

lemma layout_fits_demand:
  assumes "layout_fits A st"
  shows "demand A st < 2 ^ 64"
proof -
  let ?S = "SIGMA i:{..<length (st_objs st)}. {..<length (ob_secs (st_objs st ! i))}"
  have "unplaced st \<subseteq> ?S" by (auto simp: unplaced_def has_sec_def)
  then have "demand A st \<le> (\<Sum>v \<in> ?S. size_of st v + A)" unfolding demand_def by (intro sum_mono2) auto
  also have "\<dots> = (\<Sum>i<length (st_objs st). \<Sum>k<length (ob_secs (st_objs st ! i)). size_of st (i, k) + A)"
    using sum.Sigma [of "{..<length (st_objs st)}" "\<lambda>i. {..<length (ob_secs (st_objs st ! i))}" "\<lambda>i k. size_of st (i, k) + A"]
    by (simp add: case_prod_beta)
  also have "\<dots> = sum_list (map (\<lambda>ob. sum_list (map (\<lambda>s. unat (is_size s) + A) (ob_secs ob))) (st_objs st))"
    by (simp add: sum_list_sum_nth lessThan_atLeast0 size_of_def sec_at_def)
  finally show ?thesis using assms by (simp add: layout_fits_def)
qed

lemma keeps_refreshes: "keeps st (fold refresh_symbols_for_section is st)"
  by (induction "is" arbitrary: st) (auto intro: keeps_trans keeps_refresh)

lemma in_map_filter: "x \<in> set xs \<Longrightarrow> f x = Some y \<Longrightarrow> y \<in> set (List.map_filter f xs)"
  by (induction xs) (auto simp: map_filter_simps split: option.split)

lemma unplaced_section_None:
  assumes "unplaced_section st = None" "has_sec st i k" "\<not> skip_obj (st_objs st ! i)"
    "is_live (sec_at st i k) \<noteq> 0" "is_flags (sec_at st i k) AND 2 \<noteq> 0"
  shows "is_placed (sec_at st i k)"
proof (rule ccontr)
  assume n: "\<not> is_placed (sec_at st i k)"
  let ?P = "\<lambda>s. \<not> (is_live s = 0 \<or> is_placed s \<or> is_flags s AND 2 = 0)"
  have "sec_at st i k \<in> set (ob_secs (st_objs st ! i))" using assms(2) by (simp add: has_sec_def sec_at_def)
  then have "\<exists>s. s \<in> set (ob_secs (st_objs st ! i)) \<and> ?P s" using n assms(4,5) by (intro exI [of _ "sec_at st i k"]) simp
  then have "find ?P (ob_secs (st_objs st ! i)) \<noteq> None" by (simp only: find_None_iff not_not)
  then obtain s where s: "find ?P (ob_secs (st_objs st ! i)) = Some s"
    by (auto simp only: not_None_eq)
  let ?f = "\<lambda>ob. if skip_obj ob then None else map_option (Pair ob) (find ?P (ob_secs ob))"
  have "?f (st_objs st ! i) = Some (st_objs st ! i, s)" using s assms(3) by simp
  moreover have "st_objs st ! i \<in> set (st_objs st)" using assms(2) by (simp add: has_sec_def)
  ultimately have "(st_objs st ! i, s) \<in> set (List.map_filter ?f (st_objs st))"
    by (rule in_map_filter [rotated])
  then show False using assms(1) unfolding unplaced_section_def by (auto split: list.splits)
qed

theorem layout_phase:
  assumes fits: "layout_fits A st" and run: "ccwld_phase_layout st = (st', None)"
  shows "\<lbrakk>has_sec st i k; \<not> skip_obj (st_objs st ! i); is_live (sec_at st i k) \<noteq> 0; is_flags (sec_at st i k) AND 2 \<noteq> 0\<rbrakk>
      \<Longrightarrow> \<exists>j < length (pl_secs (st_plan st)). placed_in st' (i, k) j"
    and "placed_in st' v j \<Longrightarrow> off_of st' v + size_of st' v \<le> unat (sec_size (out_sec st' j))
      \<and> (sub_align st' j v \<noteq> 0 \<longrightarrow> unat (sub_align st' j v) dvd off_of st' v)"
    and "\<lbrakk>placed_in st' v j; placed_in st' w j; v \<noteq> w\<rbrakk>
      \<Longrightarrow> off_of st' v + size_of st' v \<le> off_of st' w \<or> off_of st' w + size_of st' w \<le> off_of st' v"
    and "j < length (pl_secs (st_plan st)) \<Longrightarrow> region_ok st' j \<and> start_ok st' j"
    and "bare_objs st' = bare_objs st" and "same_out st st'"
proof -
  let ?n = "length (pl_secs (st_plan st))"
  define st1 where "st1 = st\<lparr>st_sec_laid := replicate ?n False, st_dot := (if out_kind (st_plan st) = Some ''reloc'' then 0 else 0x400080)\<rparr>"
  obtain st2 r2 where secs: "layout_sections [0..<?n] (if out_kind (st_plan st) = Some ''reloc'' then 0 else 0x400080) st1 = (st2, r2)"
    by fastforce
  have r2: "r2 = None" using run secs unfolding ccwld_phase_layout_def Let_def st1_def by (cases r2) auto
  define st3 where "st3 = fold refresh_symbols_for_section [0..<?n] st2"
  obtain st4 r4 where sts: "run_statements (-1) (st_dot st3) st3 = (st4, r4)" by fastforce
  have go: "ccwld_phase_layout st = (case (st4, r4) of (st4, Some e) \<Rightarrow> (st4, Some e)
      | (st4, None) \<Rightarrow> (case unvalued_symbol st4 of Some e \<Rightarrow> (st4, Some e)
         | None \<Rightarrow> (set_entry st4, unplaced_section (set_entry st4))))"
    using secs r2 sts unfolding ccwld_phase_layout_def Let_def st1_def st3_def by simp
  then have r4: "r4 = None" using run by (cases r4) auto
  then have st': "st' = set_entry st4" and up: "unplaced_section st' = None"
    using go run by (auto split: option.splits)
  have noplaced: "\<not> is_placed (sec_at st1 (fst v) (snd v))" if "has_sec st1 (fst v) (snd v)" for v
    using fits that by (auto simp: layout_fits_def list_all_length has_sec_def sec_at_def st1_def)
  have "placed_ok {} (\<lambda>j. unat (sec_size (out_sec st1 j))) st1"
    using noplaced by (auto simp: placed_ok_def placed_in_def)
  moreover have "demand A st1 < 2 ^ 64"
    using layout_fits_demand [OF fits] demand_cong [of st1 st A] by (simp add: st1_def)
  moreover have "bare_objs st1 = bare_objs st" "same_out st st1" by (simp_all add: st1_def bare_objs_def same_out_def out_sec_def)
  ultimately have "layout_inv A {} st st1" by (simp add: layout_inv_def)
  then have "layout_inv A (set [0..<?n] \<union> {}) st st2"
    by (rule layout_sections_inv [OF _ secs [unfolded r2] _ _ _ layout_fits_aligns [OF fits]]) auto
  moreover have "keeps st2 st'"
  proof -
    have "keeps st4 st'" unfolding st' set_entry_def by (auto simp: keeps_def split: option.split)
    then show ?thesis using keeps_refreshes [of st2 "[0..<?n]"] keeps_statements [OF sts] keeps_trans unfolding st3_def by blast
  qed
  ultimately have inv: "layout_inv A {..<?n} st st'" using layout_inv_keeps by (simp add: lessThan_atLeast0)
  then have P: "placed_ok {..<?n} (\<lambda>j. unat (sec_size (out_sec st' j))) st'" by (simp add: layout_inv_def)
  show bo: "bare_objs st' = bare_objs st" and "same_out st st'" using inv by (auto simp: layout_inv_def)
  show "region_ok st' j \<and> start_ok st' j" if "j < ?n" using inv that by (simp add: layout_inv_def)
  show "off_of st' v + size_of st' v \<le> unat (sec_size (out_sec st' j))
      \<and> (sub_align st' j v \<noteq> 0 \<longrightarrow> unat (sub_align st' j v) dvd off_of st' v)" if "placed_in st' v j"
    using P that unfolding placed_ok_def by blast
  show "off_of st' v + size_of st' v \<le> off_of st' w \<or> off_of st' w + size_of st' w \<le> off_of st' v"
    if "placed_in st' v j" "placed_in st' w j" "v \<noteq> w"
    using P that unfolding placed_ok_def by blast
  show "\<exists>j < ?n. placed_in st' (i, k) j"
    if c: "has_sec st i k" "\<not> skip_obj (st_objs st ! i)" "is_live (sec_at st i k) \<noteq> 0" "is_flags (sec_at st i k) AND 2 \<noteq> 0"
  proof -
    have hs: "has_sec st' i k" using c(1) bare_has_sec [OF bo] by simp
    have "\<not> skip_obj (st_objs st' ! i)"
      using c(1,2) bare_obj_fields(2-4) [OF bare_obj_nth [OF bo]] by (simp add: skip_obj_def has_sec_def)
    then have "is_placed (sec_at st' i k)"
      using unplaced_section_None [OF up hs] c(3,4) bare_isec_fields(3,4) [OF bare_sec_at [OF bo c(1)]] by simp
    then show ?thesis using P hs unfolding placed_ok_def by (metis fst_conv snd_conv lessThan_iff)
  qed
qed

end
