(* ===== verification/Ccwld_Relocate.thy ===== *)
theory Ccwld_Relocate
  imports Ccwld_State Ccwld_Words
begin

unbundle bit_operations_syntax

text \<open>
  The relocate phase (\<open>toolchain/ccwld/phases/ccwld_relocate.c\<close>). A section's contents are a list of bytes;
  32-bit instructions are copied from and to them in the byte order of the host, little-endian. Signed
  64-bit sums, whose overflow C leaves undefined, wrap.
\<close>

section \<open>Bytes\<close>

definition bytes_le :: "nat \<Rightarrow> 64 word \<Rightarrow> 8 word list" where
  "bytes_le n v = map (\<lambda>i. ucast (drop_bit (8 * i) v)) [0..<n]"

definition patch_at :: "nat \<Rightarrow> 8 word list \<Rightarrow> 8 word list \<Rightarrow> 8 word list" where
  "patch_at off bs d = take off d @ bs @ drop (off + length bs) d"

definition patch_le :: "8 word list \<Rightarrow> nat \<Rightarrow> nat \<Rightarrow> 64 word \<Rightarrow> 8 word list" where
  "patch_le d off width v = patch_at off (bytes_le width v) d"

definition put_u64 :: "8 word list \<Rightarrow> nat \<Rightarrow> 64 word \<Rightarrow> 8 word list" where
  "put_u64 d off v = patch_at off (bytes_le 8 v) d"

fun word_of_bytes :: "8 word list \<Rightarrow> 64 word" where
  "word_of_bytes [] = 0"
| "word_of_bytes (b # bs) = ucast b + push_bit 8 (word_of_bytes bs)"

definition get_insn :: "8 word list \<Rightarrow> nat \<Rightarrow> 32 word" where
  "get_insn d off = ucast (word_of_bytes (take 4 (drop off d)))"

definition put_insn :: "8 word list \<Rightarrow> nat \<Rightarrow> 32 word \<Rightarrow> 8 word list" where
  "put_insn d off w = patch_at off (bytes_le 4 (ucast w)) d"

section \<open>One relocation\<close>

datatype patch = Patched "8 word list" | Misfit | Unsupported

text \<open>\<open>S\<close>, \<open>A\<close>, \<open>P\<close> are the symbol's value, the addend and the address of the site.\<close>

definition reloc_x86_64 :: "32 word \<Rightarrow> 64 word \<Rightarrow> 64 word \<Rightarrow> 64 word \<Rightarrow> 64 word \<Rightarrow> 64 word \<Rightarrow> 8 word list \<Rightarrow> patch" where
  "reloc_x86_64 type S A P off len d =
     (let site = unat off; v = S + A - P
      in if type = 1 then
           (if off + 8 > len then Misfit else Patched (put_u64 d site (S + A)))
         else if type = 2 \<or> type = 4 \<or> type = 41 then
           (if off + 4 > len \<or> v <s - 0x80000000 \<or> 0x7fffffff <s v then Misfit else Patched (patch_le d site 4 v))
         else if type = 10 then
           (if off + 4 > len \<or> S + A > 0xffffffff then Misfit else Patched (patch_le d site 4 (S + A)))
         else if type = 11 then
           (if off + 4 > len \<or> S + A <s - 0x80000000 \<or> 0x7fffffff <s S + A then Misfit
            else Patched (patch_le d site 4 (S + A)))
         else if type = 13 then
           (if off + 2 > len \<or> v <s - 32768 \<or> 32767 <s v then Misfit else Patched (patch_le d site 2 v))
         else if type = 14 then
           (if off + 1 > len \<or> v <s - 128 \<or> 127 <s v then Misfit else Patched (patch_le d site 1 v))
         else Unsupported)"

definition reloc_aarch64 :: "32 word \<Rightarrow> 64 word \<Rightarrow> 64 word \<Rightarrow> 64 word \<Rightarrow> 64 word \<Rightarrow> 64 word \<Rightarrow> 8 word list \<Rightarrow> patch" where
  "reloc_aarch64 type S A P off len d =
     (let site = unat off; insn = get_insn d site
      in if type = 257 then
           (if off + 8 > len then Misfit else Patched (put_u64 d site (S + A)))
         else if type = 283 then
           (let rel = S + A - P
            in if off + 4 > len \<or> rel AND 3 \<noteq> 0 \<or> rel <s - 0x8000000 \<or> 0x8000000 \<le>s rel then Misfit
               else (let imm = ucast (signed_drop_bit 2 rel AND 0x03ffffff)
                     in Patched (put_insn d site ((insn AND 0xfc000000) OR imm))))
         else if type = 275 then
           (let rel = ((S + A) AND NOT 0xfff) - (P AND NOT 0xfff)
            in if off + 4 > len then Misfit
               else (let imm = (ucast (signed_drop_bit 12 rel AND 0x1fffff) :: 32 word)
                     in Patched (put_insn d site ((insn AND NOT 0x60ffffe0) OR push_bit 29 (imm AND 3)
                          OR push_bit 3 (imm AND 0x1ffffc)))))
         else if type = 277 then
           (let v = (S + A) AND 0xfff
            in if off + 4 > len then Misfit
               else Patched (put_insn d site ((insn AND NOT 0xfff) OR push_bit 10 (ucast v))))
         else Unsupported)"

definition reloc_riscv :: "32 word \<Rightarrow> 64 word \<Rightarrow> 64 word \<Rightarrow> 64 word \<Rightarrow> 64 word \<Rightarrow> 64 word \<Rightarrow> 8 word list \<Rightarrow> patch" where
  "reloc_riscv type S A P off len d =
     (let site = unat off; insn = get_insn d site; rel = S + A - P
      in if type = 2 then
           (if off + 8 > len then Misfit else Patched (put_u64 d site (S + A)))
         else if type = 23 then
           (if off + 4 > len \<or> 2147483647 <s rel \<or> rel <s - 2147483648 then Misfit
            else (let imm = ucast (signed_drop_bit 12 (rel + 0x800)) AND (0xfffff :: 32 word)
                  in Patched (put_insn d site ((insn AND 0x00000fff) OR push_bit 12 imm))))
         else if type = 24 \<or> type = 25 then
           (let imm = ucast (rel AND 0xfff) :: 32 word
            in if off + 4 > len then Misfit
               else if type = 24 then Patched (put_insn d site ((insn AND 0xfffff0ff) OR push_bit 20 imm))
               else Patched (put_insn d site ((insn AND 0xfe0fffff) OR push_bit 25 (imm AND 0x1f)
                      OR push_bit 7 (drop_bit 5 imm))))
         else Unsupported)"

text \<open>The switch over the machine; \<open>None\<close> is an unknown one.\<close>

definition reloc_patch ::
  "int \<Rightarrow> 32 word \<Rightarrow> 64 word \<Rightarrow> 64 word \<Rightarrow> 64 word \<Rightarrow> 64 word \<Rightarrow> 64 word \<Rightarrow> 8 word list \<Rightarrow> patch option" where
  "reloc_patch machine type S A P off len d =
     (if machine = 62 then Some (reloc_x86_64 type S A P off len d)
      else if machine = 183 then Some (reloc_aarch64 type S A P off len d)
      else if machine = 243 then Some (reloc_riscv type S A P off len d)
      else None)"

section \<open>The value of a symbol\<close>

text \<open>\<open>rs_value\<close> of the code: the first local symbol of that name in the object, then the resolved one.\<close>

definition isec_addr :: "ccwld_state \<Rightarrow> ccwld_isec \<Rightarrow> 64 word" where
  "isec_addr st s = sec_vma (pl_secs (st_plan st) ! nat (is_out_sec s)) + is_out_off s"

definition reloc_value :: "ccwld_state \<Rightarrow> ccwld_obj \<Rightarrow> string \<Rightarrow> 64 word option" where
  "reloc_value st obj name =
     (case find (\<lambda>s. sy_binding s = 0 \<and> sy_name s = name) (ob_syms obj) of
        Some s \<Rightarrow>
          if sy_shndx s < 0 then Some (sy_value s)
          else if sy_shndx s > 0 then
            (case ccwld_state_isec st (sy_obj s) (sy_shndx s) of
               None \<Rightarrow> None
             | Some k \<Rightarrow>
                 (let sec = ob_secs (st_objs st ! nat (sy_obj s)) ! k
                  in if \<not> is_placed sec \<or> is_out_sec sec < 0 then None
                     else Some (isec_addr st sec + sy_value s)))
          else None
      | None \<Rightarrow>
          (case find_rsym st name of
             None \<Rightarrow> None
           | Some i \<Rightarrow>
               (let r = st_rsyms st ! i
                in if rs_defined r \<and> rs_value_known r then Some (rs_value r)
                   else if rs_weak r then Some 0 else None)))"

section \<open>The phase\<close>

text \<open>The body of the loop over the relocations of object \<open>oi\<close>.\<close>

definition relocate_one :: "nat \<Rightarrow> ccwld_ireloc \<Rightarrow> ccwld_state \<Rightarrow> ccwld_state \<times> ccwld_error option" where
  "relocate_one oi r st =
     (let ob = st_objs st ! oi; k = nat (rl_sec r); sec = ob_secs ob ! k; path = ob_path ob;
          tname = ccwld_reloc_name (ob_machine ob) (rl_type r)
      in if rl_sec r < 0 \<or> k \<ge> length (ob_secs ob) then (st, None)
         else if is_live sec = 0 \<or> \<not> is_placed sec \<or> is_out_sec sec < 0 then (st, None)
         else
           (case is_data sec of
              None \<Rightarrow> (st, None)
            | Some d \<Rightarrow>
                (case (if rl_sym r = [] then Some 0 else reloc_value st ob (rl_sym r)) of
                   None \<Rightarrow>
                     (st, Some (ccwld_error_set CCWLD_EXIT_LINK (''relocation against unresolved symbol '' @ [quote]
                        @ rl_sym r @ [quote] @ '' in '' @ [quote] @ path @ [quote])))
                 | Some S \<Rightarrow>
                     if rl_offset r \<ge> is_size sec then
                       (st, Some (ccwld_error_set CCWLD_EXIT_LINK (''relocation offset 0x'' @ hex_nat (unat (rl_offset r))
                          @ '' outside section '' @ [quote] @ is_name sec @ [quote] @ '' in '' @ [quote] @ path @ [quote])))
                     else
                       (case reloc_patch (ob_machine ob) (rl_type r) S (rl_addend r) (isec_addr st sec + rl_offset r)
                               (rl_offset r) (is_size sec) d of
                          None \<Rightarrow>
                            (st, Some (ccwld_error_set CCWLD_EXIT_LINK (''cannot relocate: unknown machine ''
                               @ dec_int (ob_machine ob) @ '' in '' @ [quote] @ path @ [quote])))
                        | Some Unsupported \<Rightarrow>
                            (st, Some (ccwld_error_set CCWLD_EXIT_LINK (''unsupported relocation '' @ tname @ '' in ''
                               @ [quote] @ path @ [quote])))
                        | Some Misfit \<Rightarrow>
                            (st\<lparr>st_reloc_errors := st_reloc_errors st + 1\<rparr>,
                             Some (ccwld_error_set CCWLD_EXIT_LINK (''relocation '' @ tname @ '' at 0x''
                               @ hex_nat (unat (rl_offset r)) @ '' in '' @ [quote] @ path @ [quote]
                               @ '' does not fit its site'')))
                        | Some (Patched d') \<Rightarrow>
                            (ccwld_state_record_stat tname (upd_isec oi k (\<lambda>s. s\<lparr>is_data := Some d'\<rparr>) st), None)))))"

fun relocate_list :: "nat \<Rightarrow> ccwld_ireloc list \<Rightarrow> ccwld_state \<Rightarrow> ccwld_state \<times> ccwld_error option" where
  "relocate_list oi [] st = (st, None)"
| "relocate_list oi (r # rs) st =
     (case relocate_one oi r st of
        (st1, Some e) \<Rightarrow> (st1, Some e)
      | (st1, None) \<Rightarrow> relocate_list oi rs st1)"

fun relocate_objs :: "nat list \<Rightarrow> ccwld_state \<Rightarrow> ccwld_state \<times> ccwld_error option" where
  "relocate_objs [] st = (st, None)"
| "relocate_objs (oi # ois) st =
     (let ob = st_objs st ! oi
      in if ob_is_dso ob \<or> ob_is_lto ob then relocate_objs ois st
         else
           (case relocate_list oi (ob_relocs ob) st of
              (st1, Some e) \<Rightarrow> (st1, Some e)
            | (st1, None) \<Rightarrow> relocate_objs ois st1))"

definition ccwld_phase_relocate :: "ccwld_state \<Rightarrow> ccwld_state \<times> ccwld_error option" where
  "ccwld_phase_relocate st = relocate_objs [0..<length (st_objs st)] st"

end
