(* ===== verification/Ccwld_Reloc_Proof.thy ===== *)
theory Ccwld_Reloc_Proof
  imports Ccwld_Relocate
begin

unbundle bit_operations_syntax

text \<open>
  What a relocation writes: the bytes of its site and nothing else, and in them the field from which the
  processor reads back the value that the psABI asks for.
\<close>

section \<open>Bytes\<close>

lemma length_bytes_le [simp]: "length (bytes_le n v) = n"
  by (simp add: bytes_le_def)

lemma bytes_le_Suc: "bytes_le (Suc n) v = ucast v # bytes_le n (drop_bit 8 v)"
  by (simp add: bytes_le_def upt_conv_Cons map_Suc_upt [symmetric] del: upt_Suc) (simp add: add.commute)

lemma word_of_bytes_le: "n \<le> 8 \<Longrightarrow> word_of_bytes (bytes_le n v) = take_bit (8 * n) v"
proof (induction n arbitrary: v)
  case 0
  then show ?case by (simp add: bytes_le_def)
next
  case (Suc n)
  have "word_of_bytes (bytes_le (Suc n) v) = ucast (ucast v :: 8 word) + push_bit 8 (take_bit (8 * n) (drop_bit 8 v))"
    using Suc by (simp add: bytes_le_Suc)
  also have "\<dots> = ucast (ucast v :: 8 word) OR push_bit 8 (take_bit (8 * n) (drop_bit 8 v))"
    by (intro disjunctive_add) (auto simp: bit_simps)
  also have "\<dots> = take_bit (8 * Suc n) v"
    using Suc.prems by (intro bit_eqI) (auto simp: bit_simps)
  finally show ?case .
qed

lemma length_patch_at [simp]: "off + length bs \<le> length d \<Longrightarrow> length (patch_at off bs d) = length d"
  by (simp add: patch_at_def)

lemma take_patch_at [simp]:
  "off + length bs \<le> length d \<Longrightarrow> take (length bs) (drop off (patch_at off bs d)) = bs"
  by (simp add: patch_at_def)

text \<open>\<open>d'\<close> is \<open>d\<close> with other bytes in the site of \<open>w\<close> bytes at \<open>off\<close> only.\<close>

definition only_at :: "nat \<Rightarrow> nat \<Rightarrow> 8 word list \<Rightarrow> 8 word list \<Rightarrow> bool" where
  "only_at off w d d' = (length d' = length d \<and> take off d' = take off d \<and> drop (off + w) d' = drop (off + w) d)"

lemma only_at_patch [simp]: "off + length bs \<le> length d \<Longrightarrow> only_at off (length bs) d (patch_at off bs d)"
  by (cases bs) (auto simp: only_at_def patch_at_def min_def)

definition site_word :: "nat \<Rightarrow> nat \<Rightarrow> 8 word list \<Rightarrow> 64 word" where
  "site_word off w d = word_of_bytes (take w (drop off d))"

lemma site_word_patch:
  "\<lbrakk>off + w \<le> length d; w \<le> 8\<rbrakk> \<Longrightarrow> site_word off w (patch_at off (bytes_le w v) d) = take_bit (8 * w) v"
  using take_patch_at [of off "bytes_le w v" d] by (simp add: site_word_def word_of_bytes_le)

lemma only_at_patch_le: "off + w \<le> length d \<Longrightarrow> only_at off w d (patch_at off (bytes_le w v) d)"
  using only_at_patch [of off "bytes_le w v" d] by simp

lemma get_put_insn: "off + 4 \<le> length d \<Longrightarrow> get_insn (put_insn d off w) off = w"
proof -
  assume "off + 4 \<le> length d"
  then have "get_insn (put_insn d off w) off = ucast (take_bit 32 (ucast w :: 64 word))"
    using site_word_patch [of off 4 d "ucast w"] by (simp add: get_insn_def put_insn_def site_word_def)
  also have "\<dots> = w" by (rule bit_eqI) (auto simp: bit_simps)
  finally show ?thesis .
qed

lemma only_at_put_insn: "off + 4 \<le> length d \<Longrightarrow> only_at off 4 d (put_insn d off w)"
  by (simp add: put_insn_def only_at_patch_le)

section \<open>x86-64\<close>

text \<open>
  The psABI's table: the width of the field in bytes, whether it is relative to the site, and whether the
  processor extends it with its sign.
\<close>

definition x86_form :: "32 word \<Rightarrow> (nat \<times> bool \<times> bool) option" where
  "x86_form type =
     map_of [(1, 8, False, False), (2, 4, True, True), (4, 4, True, True), (41, 4, True, True), (10, 4, False, False),
             (11, 4, False, True), (13, 2, True, True), (14, 1, True, True)] type"

definition field_fits :: "bool \<Rightarrow> nat \<Rightarrow> 64 word \<Rightarrow> bool" where
  "field_fits sx w v =
     (if sx then - (2 ^ (8 * w - 1)) \<le> sint v \<and> sint v < 2 ^ (8 * w - 1) else uint v < 2 ^ (8 * w))"

definition read_field :: "bool \<Rightarrow> nat \<Rightarrow> nat \<Rightarrow> 8 word list \<Rightarrow> int" where
  "read_field sx w off d =
     (if sx then signed_take_bit (8 * w - 1) (uint (site_word off w d)) else uint (site_word off w d))"

lemma signed_take_bit_uint: "n < 64 \<Longrightarrow> signed_take_bit n (uint (v :: 64 word)) = signed_take_bit n (sint v)"
proof -
  assume "n < 64"
  then consider "n = 63" | "n < 63" by linarith
  then show ?thesis by cases (auto intro!: bit_eqI simp: bit_simps min_def)
qed

lemma read_patched:
  assumes "field_fits sx w v" "0 < w" "w \<le> 8" "off + w \<le> length d"
  shows "read_field sx w off (patch_at off (bytes_le w v) d) = (if sx then sint v else uint v)"
proof (cases sx)
  case True
  have "signed_take_bit (8 * w - 1) (uint (take_bit (8 * w) v)) = signed_take_bit (8 * w - 1) (uint v)"
    using assms by (intro bit_eqI) (auto simp: bit_simps min_def)
  also have "\<dots> = sint v"
    using assms True by (simp add: signed_take_bit_uint field_fits_def signed_take_bit_int_eq_self)
  finally show ?thesis using assms True by (simp add: read_field_def site_word_patch)
next
  case False
  then have "uint (take_bit (8 * w) v) = uint v"
    using assms by (simp add: field_fits_def unsigned_take_bit_eq take_bit_int_eq_self)
  then show ?thesis using assms False by (simp add: read_field_def site_word_patch)
qed

lemma room_word:
  assumes "length d = unat (len :: 64 word)" "off < len" "len < 2 ^ 63" "n \<le> 8"
  shows "off + of_nat n > len \<longleftrightarrow> \<not> unat off + n \<le> length d"
proof -
  have "unat off + n < 2 ^ 64" using assms by (simp add: word_less_nat_alt)
  then have "unat (off + of_nat n) = unat off + n"
    using assms by (simp add: unat_word_ariths unat_of_nat)
  then show ?thesis using assms by (simp add: word_less_nat_alt not_le)
qed

lemma sint_bounds: "sint (v :: 64 word) < 2 ^ 63" "- (2 ^ 63) \<le> sint v"
  using sint_lt [of v] sint_ge [of v] by simp_all

lemma signed_range:
  "v <s - 0x80000000 \<or> 0x7fffffff <s (v :: 64 word) \<longleftrightarrow> \<not> field_fits True 4 v"
  "v <s - 32768 \<or> 32767 <s v \<longleftrightarrow> \<not> field_fits True 2 v"
  "v <s - 128 \<or> 127 <s v \<longleftrightarrow> \<not> field_fits True 1 v"
  "v > 0xffffffff \<longleftrightarrow> \<not> field_fits False 4 v"
  by (auto simp: field_fits_def word_sless_alt word_less_def)

lemma x86_64_relocations:
  assumes "length d = unat len" "off < len" "len < 2 ^ 63"
  shows "case x86_form type of
      None \<Rightarrow> reloc_x86_64 type S A P off len d = Unsupported
    | Some (w, pc, sx) \<Rightarrow>
        (let v = (if pc then S + A - P else S + A)
         in if unat off + w \<le> length d \<and> field_fits sx w v
            then \<exists>d'. reloc_x86_64 type S A P off len d = Patched d' \<and> only_at (unat off) w d d'
                     \<and> read_field sx w (unat off) d' = (if sx then sint v else uint v)
            else reloc_x86_64 type S A P off len d = Misfit)"
proof -
  note room = room_word [OF assms, of 8, simplified] room_word [OF assms, of 4, simplified] 
    room_word [OF assms, of 2, simplified] room_word [OF assms, of 1, simplified]
  have wide: "field_fits False 8 v" for v :: "64 word"
    using uint_bounded [of v] by (simp add: field_fits_def)
  show ?thesis
    by (simp add: x86_form_def reloc_x86_64_def Let_def room signed_range [simplified] wide put_u64_def patch_le_def
        read_patched only_at_patch_le)
qed


section \<open>AArch64\<close>

lemma insn_masks:
  "(0xfc000000 :: 32 word) = NOT (mask 26)" "(0x03ffffff :: 64 word) = mask 26"
  "(NOT 0x60ffffe0 :: 32 word) = NOT (push_bit 29 (mask 2) OR push_bit 5 (mask 19))" "(3 :: 32 word) = mask 2" "(3 :: 64 word) = mask 2"
  "(0x1ffffc :: 32 word) = push_bit 2 (mask 19)" "(0x1fffff :: 64 word) = mask 21"
  "(0xfff :: 32 word) = mask 12" "(0xfff :: 64 word) = mask 12" "(0xfffff :: 32 word) = mask 20"
  "(0xfffff0ff :: 32 word) = NOT (push_bit 8 (mask 4))" "(0xfe0fffff :: 32 word) = NOT (push_bit 20 (mask 5))"
  "(0x1f :: 32 word) = mask 5"
  by (simp_all add: mask_eq_decr_exp)

text \<open>The branch offset in a \<open>bl\<close>, and the page offset in an \<open>adrp\<close>.\<close>

definition branch_offset :: "32 word \<Rightarrow> int" where
  "branch_offset insn = 4 * signed_take_bit 25 (uint insn)"

definition adrp_imm :: "32 word \<Rightarrow> 32 word" where
  "adrp_imm insn = take_bit 2 (drop_bit 29 insn) OR push_bit 2 (take_bit 19 (drop_bit 5 insn))"

definition adrp_offset :: "32 word \<Rightarrow> int" where
  "adrp_offset insn = 4096 * signed_take_bit 20 (uint (adrp_imm insn))"

lemma signed_drop_sint: "sint (signed_drop_bit n (v :: 64 word)) = sint v div 2 ^ n"
  by (simp add: sint_signed_drop_bit_eq drop_bit_eq_div)

lemma call26_imm:
  "signed_take_bit 25 (uint ((insn AND 0xfc000000) OR ucast (v AND 0x03ffffff) :: 32 word)) = signed_take_bit 25 (sint (v :: 64 word))"
  unfolding insn_masks by (rule bit_eqI) (auto simp: bit_simps min_def)

lemma call26_opcode:
  "((insn AND 0xfc000000) OR ucast ((v :: 64 word) AND 0x03ffffff) :: 32 word) AND 0xfc000000 = insn AND 0xfc000000"
  unfolding insn_masks by (rule bit_eqI) (auto simp: bit_simps)

lemma low_bits_clear: "n < 64 \<Longrightarrow> (v :: 64 word) AND mask n = 0 \<longleftrightarrow> 2 ^ n dvd sint v"
proof -
  assume "n < 64"
  then have "take_bit n (sint v) = uint (take_bit n v)" by (intro bit_eqI) (auto simp: bit_simps min_def)
  moreover have "v AND mask n = 0 \<longleftrightarrow> uint (take_bit n v) = 0"
    by (simp only: take_bit_eq_mask unsigned_eq_0_iff)
  ultimately show ?thesis by (metis dvd_eq_mod_eq_0 take_bit_eq_mod)
qed

lemma aarch64_call:
  assumes "length d = unat len" "off < len" "len < 2 ^ 63"
  shows "if unat off + 4 \<le> length d \<and> 4 dvd sint (S + A - P) \<and> - (2 ^ 27) \<le> sint (S + A - P) \<and> sint (S + A - P) < 2 ^ 27
    then \<exists>d'. reloc_aarch64 283 S A P off len d = Patched d' \<and> only_at (unat off) 4 d d'
           \<and> branch_offset (get_insn d' (unat off)) = sint (S + A - P)
           \<and> get_insn d' (unat off) AND 0xfc000000 = get_insn d (unat off) AND 0xfc000000
    else reloc_aarch64 283 S A P off len d = Misfit"
proof -
  note room = room_word [OF assms, of 4, simplified]
  define v where "v = S + A - P"
  have dvd: "v AND 3 \<noteq> 0 \<longleftrightarrow> \<not> 4 dvd sint v"
    using low_bits_clear [of 2 v] unfolding insn_masks by simp
  have range: "v <s - 0x8000000 \<or> 0x8000000 \<le>s v \<longleftrightarrow> \<not> (- (2 ^ 27) \<le> sint v \<and> sint v < 2 ^ 27)"
    by (auto simp: word_sless_alt word_sle_eq)
  have imm: "branch_offset ((insn AND 0xfc000000) OR ucast (signed_drop_bit 2 v AND 0x03ffffff)) = sint v"
    if "4 dvd sint v" "- (2 ^ 27) \<le> sint v" "sint v < 2 ^ 27" for insn
  proof -
    have "signed_take_bit 25 (sint v div 4) = sint v div 4"
      using that by (intro signed_take_bit_int_eq_self) auto
    then show ?thesis using that by (simp add: branch_offset_def call26_imm signed_drop_sint)
  qed
  have ne: "283 \<noteq> (257 :: 32 word)" by simp
  show ?thesis
  proof (cases "unat off + 4 \<le> length d \<and> 4 dvd sint v \<and> - (2 ^ 27) \<le> sint v \<and> sint v < 2 ^ 27")
    case True
    let ?i = "(get_insn d (unat off) AND 0xfc000000) OR ucast (signed_drop_bit 2 v AND 0x03ffffff)"
    have "reloc_aarch64 283 S A P off len d = Patched (put_insn d (unat off) ?i)"
      using True range dvd room unfolding reloc_aarch64_def v_def [symmetric] Let_def by simp
    moreover have "branch_offset (get_insn (put_insn d (unat off) ?i) (unat off)) = sint v"
      using True imm by (simp add: get_put_insn)
    ultimately show ?thesis
      using True call26_opcode by (simp add: get_put_insn only_at_put_insn v_def)
  next
    case False
    then have "reloc_aarch64 283 S A P off len d = Misfit"
      using range dvd room unfolding reloc_aarch64_def v_def [symmetric] Let_def by auto
    with False show ?thesis by (simp add: v_def)
  qed
qed

lemma adrp_imm_patched:
  "adrp_imm ((insn AND NOT 0x60ffffe0) OR push_bit 29 (imm AND 3) OR push_bit 3 (imm AND 0x1ffffc)) = take_bit 21 imm"
  unfolding insn_masks adrp_imm_def
proof (rule bit_eqI)
  fix n :: nat
  assume "possible_bit TYPE(32 word) n"
  consider "n < 2" | "2 \<le> n" "n < 21" | "21 \<le> n" by linarith
  then show "bit (take_bit 2 (drop_bit 29 ((insn AND NOT (push_bit 29 (mask 2) OR push_bit 5 (mask 19)))
      OR push_bit 29 (imm AND mask 2) OR push_bit 3 (imm AND push_bit 2 (mask 19))))
      OR push_bit 2 (take_bit 19 (drop_bit 5 ((insn AND NOT (push_bit 29 (mask 2) OR push_bit 5 (mask 19)))
      OR push_bit 29 (imm AND mask 2) OR push_bit 3 (imm AND push_bit 2 (mask 19)))))) n = bit (take_bit 21 imm) n"
    by cases (simp_all add: bit_simps, auto)
qed

lemma adrp_register:
  "((insn AND NOT 0x60ffffe0) OR push_bit 29 (imm AND 3) OR push_bit 3 (imm AND 0x1ffffc)) AND NOT 0x60ffffe0
    = insn AND NOT (0x60ffffe0 :: 32 word)"
  unfolding insn_masks by (rule bit_eqI) (auto simp: bit_simps)

lemma adrp_signed:
  "signed_take_bit 20 (uint (take_bit 21 (ucast (v AND 0x1fffff) :: 32 word))) = signed_take_bit 20 (sint (v :: 64 word))"
  unfolding insn_masks by (rule bit_eqI) (auto simp: bit_simps min_def)

lemma signed_take_bit_iff: "signed_take_bit n (k :: int) = k \<longleftrightarrow> - (2 ^ n) \<le> k \<and> k < 2 ^ n"
  by (metis signed_take_bit_int_eq_self signed_take_bit_int_greater_eq_minus_exp signed_take_bit_int_less_exp)

definition page :: "64 word \<Rightarrow> 64 word" where
  "page a = a AND NOT 0xfff"

lemma page_difference: "4096 dvd sint (page a - page b)"
proof -
  have "unat (page x) = unat x - unat x mod 4096" for x
    using unat_and_not_mask [of x 12] unfolding page_def insn_masks by simp
  then have "4096 dvd unat (page x)" for x by (simp add: dvd_minus_mod)
  then have "uint (page x) mod 4096 = 0" for x
    by (metis dvd_eq_mod_eq_0 int_dvd_int_iff of_nat_numeral uint_nat)
  then have "uint (page a - page b) mod 4096 = 0"
    by (simp add: uint_word_ariths mod_mod_cancel) (metis diff_zero mod_diff_eq mod_0)
  then have "take_bit 12 (uint (page a - page b)) = 0" by (simp add: take_bit_eq_mod)
  then have "take_bit 12 (page a - page b) = 0" by (metis unsigned_eq_0_iff unsigned_take_bit_eq)
  then show ?thesis using low_bits_clear [of 12 "page a - page b"] by (simp add: take_bit_eq_mask)
qed

lemma aarch64_adrp:
  assumes "length d = unat len" "off < len" "len < 2 ^ 63"
  shows "if unat off + 4 \<le> length d
    then \<exists>d'. reloc_aarch64 275 S A P off len d = Patched d' \<and> only_at (unat off) 4 d d'
           \<and> get_insn d' (unat off) AND NOT 0x60ffffe0 = get_insn d (unat off) AND NOT 0x60ffffe0
           \<and> (adrp_offset (get_insn d' (unat off)) = sint (page (S + A) - page P)
                \<longleftrightarrow> - (2 ^ 32) \<le> sint (page (S + A) - page P) \<and> sint (page (S + A) - page P) < 2 ^ 32)
    else reloc_aarch64 275 S A P off len d = Misfit"
proof -
  note room = room_word [OF assms, of 4, simplified]
  define v where "v = page (S + A) - page P"
  define imm where "imm = (ucast (signed_drop_bit 12 v AND 0x1fffff) :: 32 word)"
  define i where "i = (get_insn d (unat off) AND NOT 0x60ffffe0) OR push_bit 29 (imm AND 3) OR push_bit 3 (imm AND 0x1ffffc)"
  obtain q where q: "sint v = 4096 * q" using page_difference [of "S + A" P] unfolding v_def by (auto elim: dvdE)
  have off: "adrp_offset i = 4096 * signed_take_bit 20 q"
    using q unfolding adrp_offset_def i_def adrp_imm_patched unfolding imm_def adrp_signed signed_drop_sint by simp
  then have "adrp_offset i = sint v \<longleftrightarrow> - (2 ^ 32) \<le> sint v \<and> sint v < 2 ^ 32"
    using q signed_take_bit_iff [of 20 q] by auto
  moreover have "reloc_aarch64 275 S A P off len d
      = (if unat off + 4 \<le> length d then Patched (put_insn d (unat off) i) else Misfit)"
    using room unfolding reloc_aarch64_def Let_def page_def [symmetric] v_def [symmetric] imm_def [symmetric] i_def [symmetric]
    by simp
  ultimately show ?thesis
    using adrp_register [of "get_insn d (unat off)" imm]
    by (simp add: get_put_insn only_at_put_insn v_def i_def)
qed

section \<open>RISC-V\<close>

text \<open>What \<open>auipc\<close> adds to its address, and the signed low part that the paired instruction adds.\<close>

definition auipc_offset :: "32 word \<Rightarrow> int" where
  "auipc_offset insn = sint (insn AND NOT 0xfff)"

definition low_part :: "64 word \<Rightarrow> int" where
  "low_part v = signed_take_bit 11 (sint v)"

lemma low_part_mod: "low_part v = (sint v + 2048) mod 4096 - 2048"
  by (simp add: low_part_def signed_take_bit_eq_take_bit_shift take_bit_eq_mod)

lemma auipc_patched:
  "auipc_offset ((insn AND 0x00000fff) OR push_bit 12 (ucast (signed_drop_bit 12 (v :: 64 word)) AND 0xfffff))
    = 4096 * signed_take_bit 19 (sint v div 4096)"
proof -
  have "sint (((insn AND mask 12) OR push_bit 12 (ucast (signed_drop_bit 12 v) AND mask 20)) AND NOT (mask 12) :: 32 word)
      = push_bit 12 (signed_take_bit 19 (drop_bit 12 (sint v)))"
    by (rule bit_eqI) (auto simp: bit_simps min_def)
  then show ?thesis unfolding auipc_offset_def insn_masks by (simp add: push_bit_eq_mult drop_bit_eq_div)
qed

lemma riscv_hi20:
  assumes "length d = unat len" "off < len" "len < 2 ^ 63"
  shows "if unat off + 4 \<le> length d \<and> - (2 ^ 31) \<le> sint (S + A - P) \<and> sint (S + A - P) < 2 ^ 31
    then \<exists>d'. reloc_riscv 23 S A P off len d = Patched d' \<and> only_at (unat off) 4 d d'
           \<and> get_insn d' (unat off) AND 0xfff = get_insn d (unat off) AND 0xfff
           \<and> (auipc_offset (get_insn d' (unat off)) + low_part (S + A - P) = sint (S + A - P)
                \<longleftrightarrow> sint (S + A - P) < 2 ^ 31 - 2048)
    else reloc_riscv 23 S A P off len d = Misfit"
proof -
  note room = room_word [OF assms, of 4, simplified]
  define v where "v = S + A - P"
  define i where "i = (get_insn d (unat off) AND 0x00000fff) OR push_bit 12 (ucast (signed_drop_bit 12 (v + 0x800)) AND 0xfffff)"
  have range: "2147483647 <s v \<or> v <s - 2147483648 \<longleftrightarrow> \<not> (- (2 ^ 31) \<le> sint v \<and> sint v < 2 ^ 31)"
    by (auto simp: word_sless_alt)
  have keep: "i AND 0xfff = get_insn d (unat off) AND 0xfff"
    unfolding i_def insn_masks by (rule bit_eqI) (auto simp: bit_simps)
  have exact: "auipc_offset i + low_part v = sint v \<longleftrightarrow> sint v < 2 ^ 31 - 2048"
    if "- (2 ^ 31) \<le> sint v" "sint v < 2 ^ 31"
  proof -
    have "sint (v + 0x800) = sint v + 2048"
      using that by (simp add: sint_word_ariths signed_take_bit_int_eq_self)
    then have hi: "auipc_offset i = 4096 * signed_take_bit 19 ((sint v + 2048) div 4096)"
      unfolding i_def auipc_patched by simp
    have "signed_take_bit 19 ((sint v + 2048) div 4096) = (sint v + 2048) div 4096 \<longleftrightarrow> sint v < 2 ^ 31 - 2048"
      using that by (auto simp: signed_take_bit_iff)
    then show ?thesis using hi by (auto simp: low_part_mod minus_mod_eq_mult_div [symmetric])
  qed
  have patch: "reloc_riscv 23 S A P off len d
      = (if unat off + 4 \<le> length d \<and> - (2 ^ 31) \<le> sint v \<and> sint v < 2 ^ 31
         then Patched (put_insn d (unat off) i) else Misfit)"
    using room range unfolding reloc_riscv_def Let_def v_def [symmetric] i_def [symmetric] by auto
  show ?thesis
    using patch keep exact by (simp add: get_put_insn only_at_put_insn v_def)
qed

section \<open>The low-part relocations\<close>

text \<open>
  The three relocations of the low twelve bits clear other bits of the instruction than their immediate field:
  the register operands are lost, and the old immediate stays under the new one.
\<close>

lemma low_parts:
  assumes "length d = unat len" "off < len" "len < 2 ^ 63" "unat off + 4 \<le> length d"
  shows "\<exists>d'. reloc_aarch64 277 S A P off len d = Patched d' \<and> only_at (unat off) 4 d d'
           \<and> take_bit 10 (get_insn d' (unat off)) = 0"
    and "\<exists>d'. reloc_riscv 24 S A P off len d = Patched d' \<and> only_at (unat off) 4 d d'
           \<and> take_bit 4 (drop_bit 8 (get_insn d' (unat off))) = 0
           \<and> drop_bit 20 (get_insn d' (unat off)) = drop_bit 20 (get_insn d (unat off)) OR ucast (take_bit 12 (S + A - P))"
    and "\<exists>d'. reloc_riscv 25 S A P off len d = Patched d' \<and> only_at (unat off) 4 d d'
           \<and> take_bit 5 (drop_bit 20 (get_insn d' (unat off))) = 0"
proof -
  note room = room_word [OF assms(1-3), of 4, simplified]
  let ?i = "get_insn d (unat off)" and ?v = "S + A - P"
  let ?a = "(?i AND NOT 0xfff) OR push_bit 10 (ucast ((S + A) AND 0xfff)) :: 32 word"
  let ?b = "(?i AND 0xfffff0ff) OR push_bit 20 (ucast (?v AND 0xfff)) :: 32 word"
  let ?c = "(?i AND 0xfe0fffff) OR push_bit 25 (ucast (?v AND 0xfff) AND 0x1f) OR push_bit 7 (drop_bit 5 (ucast (?v AND 0xfff))) :: 32 word"
  have "reloc_aarch64 277 S A P off len d = Patched (put_insn d (unat off) ?a)"
    using room assms(4) by (simp add: reloc_aarch64_def Let_def)
  moreover have "take_bit 10 ?a = 0"
    unfolding insn_masks by (rule bit_eqI) (auto simp: bit_simps)
  ultimately show "\<exists>d'. reloc_aarch64 277 S A P off len d = Patched d' \<and> only_at (unat off) 4 d d'
           \<and> take_bit 10 (get_insn d' (unat off)) = 0"
    using assms(4) by (simp add: get_put_insn only_at_put_insn)
  have "reloc_riscv 24 S A P off len d = Patched (put_insn d (unat off) ?b)"
    using room assms(4) by (simp add: reloc_riscv_def Let_def)
  moreover have "take_bit 4 (drop_bit 8 ?b) = 0"
    unfolding insn_masks by (rule bit_eqI) (auto simp: bit_simps)
  moreover have "drop_bit 20 ?b = drop_bit 20 ?i OR ucast (take_bit 12 ?v)"
    unfolding insn_masks by (rule bit_eqI) (auto simp: bit_simps dest: bit_imp_le_length)
  ultimately show "\<exists>d'. reloc_riscv 24 S A P off len d = Patched d' \<and> only_at (unat off) 4 d d'
           \<and> take_bit 4 (drop_bit 8 (get_insn d' (unat off))) = 0
           \<and> drop_bit 20 (get_insn d' (unat off)) = drop_bit 20 (get_insn d (unat off)) OR ucast (take_bit 12 (S + A - P))"
    using assms(4) by (simp add: get_put_insn only_at_put_insn)
  have "reloc_riscv 25 S A P off len d = Patched (put_insn d (unat off) ?c)"
    using room assms(4) by (simp add: reloc_riscv_def Let_def)
  moreover have "take_bit 5 (drop_bit 20 ?c) = 0"
    unfolding insn_masks by (rule bit_eqI) (auto simp: bit_simps)
  ultimately show "\<exists>d'. reloc_riscv 25 S A P off len d = Patched d' \<and> only_at (unat off) 4 d d'
           \<and> take_bit 5 (drop_bit 20 (get_insn d' (unat off))) = 0"
    using assms(4) by (simp add: get_put_insn only_at_put_insn)
qed

end
