(* ===== verification/Ccwld_Reloc_Phase.thy ===== *)
theory Ccwld_Reloc_Phase
  imports Ccwld_Reloc_Proof
begin

unbundle bit_operations_syntax

text \<open>
  The relocate phase as a whole. A relocation writes its site from the bytes of the site alone, and what it
  computes does not depend on any section's contents, so relocations with disjoint sites do not see each
  other: every site ends with the bytes that its relocation alone would write.
\<close>

section \<open>A relocation is local to its site\<close>

definition reloc_width :: "int \<Rightarrow> 32 word \<Rightarrow> nat" where
  "reloc_width machine type =
     (if machine = 62 then (case x86_form type of Some (w, pc, sx) \<Rightarrow> w | None \<Rightarrow> 0)
      else if machine = 183 \<and> type = 257 \<or> machine = 243 \<and> type = 2 then 8 else 4)"

lemma get_insn_cong: "take 4 (drop off e) = take 4 (drop off d) \<Longrightarrow> get_insn e off = get_insn d off"
  by (simp add: get_insn_def)

lemma x86_width: "x86_form type = Some (w, pc, sx) \<Longrightarrow> w \<le> 8"
  by (auto simp: x86_form_def split: if_splits)

lemma reloc_patch_local:
  assumes "reloc_patch m t S A P off len d = Some (Patched d1)"
    and "length d = unat len" "off < len" "len < 2 ^ 63"
  obtains bs where "length bs = reloc_width m t" "unat off + length bs \<le> length d" "d1 = patch_at (unat off) bs d"
    "\<And>e. \<lbrakk>length e = length d; take (length bs) (drop (unat off) e) = take (length bs) (drop (unat off) d)\<rbrakk>
       \<Longrightarrow> reloc_patch m t S A P off len e = Some (Patched (patch_at (unat off) bs e))"
proof -
  note room = room_word [OF assms(2-4), of 8, simplified] room_word [OF assms(2-4), of 4, simplified] 
    room_word [OF assms(2-4), of 2, simplified] room_word [OF assms(2-4), of 1, simplified]
  consider "m = 62" | "m = 183" | "m = 243"
    using assms(1) by (auto simp: reloc_patch_def split: if_splits)
  then have "\<exists>bs. length bs = reloc_width m t \<and> unat off + length bs \<le> length d \<and> d1 = patch_at (unat off) bs d
    \<and> (\<forall>e. length e = length d \<and> take (length bs) (drop (unat off) e) = take (length bs) (drop (unat off) d)
         \<longrightarrow> reloc_patch m t S A P off len e = Some (Patched (patch_at (unat off) bs e)))"
  proof cases
    case 1
    then show ?thesis
      using assms(1) room
      by (fastforce simp: reloc_patch_def reloc_x86_64_def Let_def put_u64_def patch_le_def reloc_width_def x86_form_def
          split: if_splits)
  next
    case 2
    then show ?thesis
      using assms(1) room
      by (fastforce simp: reloc_patch_def reloc_aarch64_def Let_def put_u64_def put_insn_def reloc_width_def
          dest: get_insn_cong split: if_splits)
  next
    case 3
    then show ?thesis
      using assms(1) room
      by (fastforce simp: reloc_patch_def reloc_riscv_def Let_def put_u64_def put_insn_def reloc_width_def
          dest: get_insn_cong split: if_splits)
  qed
  then show thesis using that by blast
qed

section \<open>States up to the contents of sections\<close>

definition erase_isec :: "ccwld_isec \<Rightarrow> ccwld_isec" where
  "erase_isec s = s\<lparr>is_data := None\<rparr>"

definition erase_obj :: "ccwld_obj \<Rightarrow> ccwld_obj" where
  "erase_obj ob = ob\<lparr>ob_secs := map erase_isec (ob_secs ob)\<rparr>"

definition erase_contents :: "ccwld_state \<Rightarrow> ccwld_state" where
  "erase_contents st = st\<lparr>st_objs := map erase_obj (st_objs st), st_stats := [], st_reloc_errors := 0\<rparr>"

lemma erase_isec_simps [simp]:
  "is_size (erase_isec s) = is_size s" "is_live (erase_isec s) = is_live s" "is_placed (erase_isec s) = is_placed s"
  "is_out_sec (erase_isec s) = is_out_sec s" "is_out_off (erase_isec s) = is_out_off s" "is_name (erase_isec s) = is_name s"
  by (simp_all add: erase_isec_def)

lemma erase_obj_simps [simp]:
  "ob_syms (erase_obj ob) = ob_syms ob" "ob_relocs (erase_obj ob) = ob_relocs ob" "ob_machine (erase_obj ob) = ob_machine ob"
  "ob_path (erase_obj ob) = ob_path ob" "ob_is_dso (erase_obj ob) = ob_is_dso ob" "ob_is_lto (erase_obj ob) = ob_is_lto ob"
  "ob_secs (erase_obj ob) = map erase_isec (ob_secs ob)"
  by (simp_all add: erase_obj_def)

lemma erase_contents_simps [simp]:
  "st_plan (erase_contents st) = st_plan st" "st_rsyms (erase_contents st) = st_rsyms st"
  "st_objs (erase_contents st) = map erase_obj (st_objs st)"
  by (simp_all add: erase_contents_def)

lemma isec_addr_erase: "isec_addr (erase_contents st) (erase_isec s) = isec_addr st s"
  by (simp add: isec_addr_def)

lemma ccwld_state_isec_erase: "ccwld_state_isec (erase_contents st) o1 sh = ccwld_state_isec st o1 sh"
  by (simp add: ccwld_state_isec_def)

lemma ccwld_state_isec_Some:
  "ccwld_state_isec st o1 sh = Some k \<Longrightarrow> \<not> o1 < 0 \<and> nat o1 < length (st_objs st) \<and> k < length (ob_secs (st_objs st ! nat o1))"
  by (auto simp: ccwld_state_isec_def split: if_splits)

lemma reloc_value_erase: "reloc_value (erase_contents st) (erase_obj ob) name = reloc_value st ob name"
proof (cases "find (\<lambda>s. sy_binding s = 0 \<and> sy_name s = name) (ob_syms ob)")
  case None
  then show ?thesis by (simp add: reloc_value_def find_rsym_def Let_def split: option.split)
next
  case (Some s)
  then show ?thesis
    by (auto simp: reloc_value_def ccwld_state_isec_erase Let_def isec_addr_erase dest!: ccwld_state_isec_Some split: option.splits)
qed

lemma erase_eqD:
  assumes "erase_contents st = erase_contents st0"
  shows "length (st_objs st) = length (st_objs st0)" "st_plan st = st_plan st0"
    and "oi < length (st_objs st0) \<Longrightarrow> erase_obj (st_objs st ! oi) = erase_obj (st_objs st0 ! oi)"
proof -
  have m: "map erase_obj (st_objs st) = map erase_obj (st_objs st0)" using assms by (metis erase_contents_simps(3))
  then show l: "length (st_objs st) = length (st_objs st0)" by (metis length_map)
  show "st_plan st = st_plan st0" using assms by (metis erase_contents_simps(1))
  show "erase_obj (st_objs st ! oi) = erase_obj (st_objs st0 ! oi)" if "oi < length (st_objs st0)"
    using m l that by (metis nth_map)
qed

lemma erase_objD:
  assumes "erase_obj ob = erase_obj ob0"
  shows "ob_syms ob = ob_syms ob0" "ob_relocs ob = ob_relocs ob0" "ob_machine ob = ob_machine ob0" "ob_path ob = ob_path ob0"
    "ob_is_dso ob = ob_is_dso ob0" "ob_is_lto ob = ob_is_lto ob0" "length (ob_secs ob) = length (ob_secs ob0)"
    and "k < length (ob_secs ob0) \<Longrightarrow> erase_isec (ob_secs ob ! k) = erase_isec (ob_secs ob0 ! k)"
proof -
  have m: "map erase_isec (ob_secs ob) = map erase_isec (ob_secs ob0)" using assms by (metis erase_obj_simps(7))
  then show l: "length (ob_secs ob) = length (ob_secs ob0)" by (metis length_map)
  show "erase_isec (ob_secs ob ! k) = erase_isec (ob_secs ob0 ! k)" if "k < length (ob_secs ob0)"
    using m l that by (metis nth_map)
qed (use assms in \<open>metis erase_obj_simps\<close>)+

lemma erase_isecD:
  assumes "erase_isec s = erase_isec s0"
  shows "is_size s = is_size s0" "is_live s = is_live s0" "is_placed s = is_placed s0" "is_out_sec s = is_out_sec s0"
    "is_out_off s = is_out_off s0"
  using assms by (metis erase_isec_simps)+

lemma reloc_value_same:
  "\<lbrakk>erase_contents st = erase_contents st0; erase_obj ob = erase_obj ob0\<rbrakk> \<Longrightarrow> reloc_value st ob name = reloc_value st0 ob0 name"
  by (metis reloc_value_erase)

lemma isec_addr_same:
  "\<lbrakk>erase_contents st = erase_contents st0; erase_isec s = erase_isec s0\<rbrakk> \<Longrightarrow> isec_addr st s = isec_addr st0 s0"
  by (metis isec_addr_erase)

section \<open>One relocation in a state\<close>

text \<open>A relocation is skipped unless its section is live, placed and has contents.\<close>

definition reloc_active :: "ccwld_state \<Rightarrow> nat \<Rightarrow> ccwld_ireloc \<Rightarrow> bool" where
  "reloc_active st oi r =
     (\<not> rl_sec r < 0 \<and> nat (rl_sec r) < length (ob_secs (st_objs st ! oi)) \<and>
      (let s = sec_at st oi (nat (rl_sec r))
       in is_live s \<noteq> 0 \<and> is_placed s \<and> \<not> is_out_sec s < 0 \<and> is_data s \<noteq> None))"

text \<open>What the relocation alone makes of the contents of its section; \<open>None\<close> where it is refused.\<close>

definition reloc_alone :: "ccwld_state \<Rightarrow> nat \<Rightarrow> ccwld_ireloc \<Rightarrow> 8 word list option" where
  "reloc_alone st oi r =
     (let ob = st_objs st ! oi; s = sec_at st oi (nat (rl_sec r))
      in case (if rl_sym r = [] then Some 0 else reloc_value st ob (rl_sym r)) of
           None \<Rightarrow> None
         | Some S \<Rightarrow>
             if rl_offset r \<ge> is_size s then None
             else (case reloc_patch (ob_machine ob) (rl_type r) S (rl_addend r) (isec_addr st s + rl_offset r) (rl_offset r)
                       (is_size s) (the (is_data s)) of
                     Some (Patched d) \<Rightarrow> Some d
                   | _ \<Rightarrow> None))"

definition with_contents :: "nat \<Rightarrow> nat \<Rightarrow> 8 word list \<Rightarrow> ccwld_state \<Rightarrow> ccwld_state" where
  "with_contents oi k d st = upd_isec oi k (\<lambda>s. s\<lparr>is_data := Some d\<rparr>) st"

lemma relocate_one_inactive: "\<not> reloc_active st oi r \<Longrightarrow> relocate_one oi r st = (st, None)"
  by (auto simp: relocate_one_def reloc_active_def sec_at_def Let_def)

lemma relocate_one_active:
  assumes "reloc_active st oi r"
  shows "case reloc_alone st oi r of
      Some d \<Rightarrow> relocate_one oi r st
        = (ccwld_state_record_stat (ccwld_reloc_name (ob_machine (st_objs st ! oi)) (rl_type r))
             (with_contents oi (nat (rl_sec r)) d st), None)
    | None \<Rightarrow> snd (relocate_one oi r st) \<noteq> None"
  using assms
  by (auto simp: relocate_one_def reloc_alone_def reloc_active_def sec_at_def Let_def with_contents_def
      split: option.splits patch.splits)

section \<open>Sites\<close>

definition reloc_site :: "int \<Rightarrow> nat \<Rightarrow> ccwld_ireloc \<Rightarrow> (nat \<times> nat \<times> nat) set" where
  "reloc_site m oi r =
     {(oi', k, i). oi' = oi \<and> rl_sec r = int k \<and> unat (rl_offset r) \<le> i \<and> i < unat (rl_offset r) + reloc_width m (rl_type r)}"

definition sites_apart :: "int \<Rightarrow> ccwld_ireloc \<Rightarrow> ccwld_ireloc \<Rightarrow> bool" where
  "sites_apart m r r' =
     (rl_sec r \<noteq> rl_sec r' \<or> unat (rl_offset r) + reloc_width m (rl_type r) \<le> unat (rl_offset r')
      \<or> unat (rl_offset r') + reloc_width m (rl_type r') \<le> unat (rl_offset r))"

lemma sites_apart_disjoint: "sites_apart m r r' \<Longrightarrow> reloc_site m oi r \<inter> reloc_site m oi r' = {}"
  by (auto simp: sites_apart_def reloc_site_def)

text \<open>\<open>st'\<close> is \<open>st\<close> but for bytes of sections at the positions \<open>T\<close>, the statistics and the error count.\<close>

definition same_except :: "(nat \<times> nat \<times> nat) set \<Rightarrow> ccwld_state \<Rightarrow> ccwld_state \<Rightarrow> bool" where
  "same_except T st st' =
     (erase_contents st' = erase_contents st \<and>
      (\<forall>oi k. oi < length (st_objs st) \<longrightarrow> k < length (ob_secs (st_objs st ! oi)) \<longrightarrow>
        (case is_data (sec_at st oi k) of
           None \<Rightarrow> is_data (sec_at st' oi k) = None
         | Some d \<Rightarrow> (\<exists>d'. is_data (sec_at st' oi k) = Some d' \<and> length d' = length d
                       \<and> (\<forall>i < length d. (oi, k, i) \<notin> T \<longrightarrow> d' ! i = d ! i)))))"

lemma same_except_refl [simp]: "same_except T st st"
  by (auto simp: same_except_def split: option.split)

lemma same_except_mono: "\<lbrakk>same_except T st st'; T \<subseteq> U\<rbrakk> \<Longrightarrow> same_except U st st'"
  unfolding same_except_def by (fastforce split: option.splits)

lemma same_except_erase: "same_except T st st' \<Longrightarrow> erase_contents st' = erase_contents st"
  by (simp add: same_except_def)

lemma same_except_None:
  "\<lbrakk>same_except T st st'; oi < length (st_objs st); k < length (ob_secs (st_objs st ! oi))\<rbrakk>
   \<Longrightarrow> is_data (sec_at st' oi k) = None \<longleftrightarrow> is_data (sec_at st oi k) = None"
  unfolding same_except_def by (fastforce split: option.splits)

lemma same_except_Some:
  assumes "same_except T st st'" "oi < length (st_objs st)" "k < length (ob_secs (st_objs st ! oi))"
    and "is_data (sec_at st oi k) = Some d"
  obtains d' where "is_data (sec_at st' oi k) = Some d'" "length d' = length d"
    "\<And>i. i < length d \<Longrightarrow> (oi, k, i) \<notin> T \<Longrightarrow> d' ! i = d ! i"
proof -
  have "case is_data (sec_at st oi k) of None \<Rightarrow> is_data (sec_at st' oi k) = None
    | Some d \<Rightarrow> (\<exists>d'. is_data (sec_at st' oi k) = Some d' \<and> length d' = length d
        \<and> (\<forall>i < length d. (oi, k, i) \<notin> T \<longrightarrow> d' ! i = d ! i))"
    using assms(1-3) unfolding same_except_def by blast
  then show thesis using that assms(4) by auto
qed

lemma same_except_objs:
  assumes "same_except T st st'"
  shows "length (st_objs st') = length (st_objs st)"
    "oi < length (st_objs st) \<Longrightarrow> erase_obj (st_objs st' ! oi) = erase_obj (st_objs st ! oi)"
    "oi < length (st_objs st) \<Longrightarrow> length (ob_secs (st_objs st' ! oi)) = length (ob_secs (st_objs st ! oi))"
    "\<lbrakk>oi < length (st_objs st); k < length (ob_secs (st_objs st ! oi))\<rbrakk> \<Longrightarrow> erase_isec (sec_at st' oi k) = erase_isec (sec_at st oi k)"
  using erase_eqD [OF same_except_erase [OF assms]] erase_objD(7,8) unfolding sec_at_def by blast+

lemma same_except_trans:
  assumes a: "same_except T st0 st1" and b: "same_except U st1 st2"
  shows "same_except (T \<union> U) st0 st2"
proof -
  have "case is_data (sec_at st0 oi k) of None \<Rightarrow> is_data (sec_at st2 oi k) = None
    | Some d \<Rightarrow> (\<exists>d'. is_data (sec_at st2 oi k) = Some d' \<and> length d' = length d
        \<and> (\<forall>i < length d. (oi, k, i) \<notin> T \<union> U \<longrightarrow> d' ! i = d ! i))"
    if oi: "oi < length (st_objs st0)" and k: "k < length (ob_secs (st_objs st0 ! oi))" for oi k
  proof -
    have oi1: "oi < length (st_objs st1)" "k < length (ob_secs (st_objs st1 ! oi))"
      using same_except_objs [OF a] oi k by auto
    show ?thesis
    proof (cases "is_data (sec_at st0 oi k)")
      case None
      then show ?thesis using same_except_None [OF a oi k] same_except_None [OF b oi1] by simp
    next
      case (Some d)
      obtain d1 where d1: "is_data (sec_at st1 oi k) = Some d1" "length d1 = length d"
        "\<And>i. i < length d \<Longrightarrow> (oi, k, i) \<notin> T \<Longrightarrow> d1 ! i = d ! i"
        using same_except_Some [OF a oi k Some] by metis
      obtain d2 where "is_data (sec_at st2 oi k) = Some d2" "length d2 = length d1"
        "\<And>i. i < length d1 \<Longrightarrow> (oi, k, i) \<notin> U \<Longrightarrow> d2 ! i = d1 ! i"
        using same_except_Some [OF b oi1 d1(1)] by metis
      with d1 Some show ?thesis by auto
    qed
  qed
  then show ?thesis using same_except_erase [OF a] same_except_erase [OF b] unfolding same_except_def by simp
qed

section \<open>One step\<close>

definition sized_contents :: "ccwld_state \<Rightarrow> bool" where
  "sized_contents st =
     (\<forall>ob \<in> set (st_objs st). \<forall>s \<in> set (ob_secs ob).
        case is_data s of None \<Rightarrow> True | Some d \<Rightarrow> length d = unat (is_size s) \<and> is_size s < 2 ^ 63)"

lemma sized_contentsD:
  "\<lbrakk>sized_contents st; oi < length (st_objs st); k < length (ob_secs (st_objs st ! oi)); is_data (sec_at st oi k) = Some d\<rbrakk>
   \<Longrightarrow> length d = unat (is_size (sec_at st oi k)) \<and> is_size (sec_at st oi k) < 2 ^ 63"
  unfolding sized_contents_def sec_at_def by (fastforce dest: bspec [OF _ nth_mem])

lemma active_bounds:
  assumes "reloc_active st oi r"
  obtains k d where "rl_sec r = int k" "nat (rl_sec r) = k" "k < length (ob_secs (st_objs st ! oi))"
    "is_data (sec_at st oi k) = Some d"
  using assms that [of "nat (rl_sec r)"] by (auto simp: reloc_active_def Let_def)

lemma active_same:
  assumes "same_except T st st'" "oi < length (st_objs st)"
  shows "reloc_active st' oi r = reloc_active st oi r"
proof (cases "\<not> rl_sec r < 0 \<and> nat (rl_sec r) < length (ob_secs (st_objs st ! oi))")
  case True
  then have k: "nat (rl_sec r) < length (ob_secs (st_objs st ! oi))" by simp
  show ?thesis
    using True same_except_objs(3) [OF assms] same_except_None [OF assms k] erase_isecD [OF same_except_objs(4) [OF assms k]]
    unfolding reloc_active_def Let_def by simp
next
  case False
  then show ?thesis using same_except_objs(3) [OF assms] unfolding reloc_active_def by auto
qed

definition at_site :: "int \<Rightarrow> ccwld_ireloc \<Rightarrow> 8 word list \<Rightarrow> 8 word list" where
  "at_site m r d = take (reloc_width m (rl_type r)) (drop (unat (rl_offset r)) d)"

lemma at_site_cong:
  assumes "length d' = length d"
    and "\<And>i. i < length d \<Longrightarrow> unat (rl_offset r) \<le> i \<Longrightarrow> i < unat (rl_offset r) + reloc_width m (rl_type r) \<Longrightarrow> d' ! i = d ! i"
  shows "at_site m r d' = at_site m r d"
  unfolding at_site_def using assms by (intro nth_equalityI) auto

lemma reloc_alone_agree:
  assumes er: "erase_contents st2 = erase_contents st1" and oi: "oi < length (st_objs st1)"
    and k: "rl_sec r = int k" "k < length (ob_secs (st_objs st1 ! oi))"
    and d1: "is_data (sec_at st1 oi k) = Some d1" and d2: "is_data (sec_at st2 oi k) = Some d2"
    and len: "length d2 = length d1" "length d1 = unat (is_size (sec_at st1 oi k))" "is_size (sec_at st1 oi k) < 2 ^ 63"
    and same: "at_site (ob_machine (st_objs st1 ! oi)) r d2 = at_site (ob_machine (st_objs st1 ! oi)) r d1"
    and alone: "reloc_alone st1 oi r = Some e1"
  obtains bs where "length bs = reloc_width (ob_machine (st_objs st1 ! oi)) (rl_type r)"
    "unat (rl_offset r) + length bs \<le> length d1" "e1 = patch_at (unat (rl_offset r)) bs d1"
    "reloc_alone st2 oi r = Some (patch_at (unat (rl_offset r)) bs d2)"
proof -
  let ?o1 = "st_objs st1 ! oi" and ?o2 = "st_objs st2 ! oi" and ?s1 = "sec_at st1 oi k" and ?s2 = "sec_at st2 oi k"
  have ob: "erase_obj ?o2 = erase_obj ?o1" using erase_eqD(3) [OF er oi] .
  have sec: "erase_isec ?s2 = erase_isec ?s1" using erase_objD(8) [OF ob k(2)] by (simp add: sec_at_def)
  have val: "reloc_value st2 ?o2 n = reloc_value st1 ?o1 n" for n by (rule reloc_value_same [OF er ob])
  have adr: "isec_addr st2 ?s2 = isec_addr st1 ?s1" by (rule isec_addr_same [OF er sec])
  obtain S where S: "(if rl_sym r = [] then Some 0 else reloc_value st1 ?o1 (rl_sym r)) = Some S"
    and off: "rl_offset r < is_size ?s1"
    and p: "reloc_patch (ob_machine ?o1) (rl_type r) S (rl_addend r) (isec_addr st1 ?s1 + rl_offset r) (rl_offset r)
      (is_size ?s1) d1 = Some (Patched e1)"
    using alone d1 k(1) unfolding reloc_alone_def Let_def by (auto split: option.splits if_splits patch.splits)
  show thesis
  proof (rule reloc_patch_local [OF p len(2) off len(3)])
    fix bs
    assume bs: "length bs = reloc_width (ob_machine ?o1) (rl_type r)" "unat (rl_offset r) + length bs \<le> length d1"
      "e1 = patch_at (unat (rl_offset r)) bs d1"
    assume r: "\<And>e. \<lbrakk>length e = length d1; take (length bs) (drop (unat (rl_offset r)) e) = take (length bs) (drop (unat (rl_offset r)) d1)\<rbrakk>
       \<Longrightarrow> reloc_patch (ob_machine ?o1) (rl_type r) S (rl_addend r) (isec_addr st1 ?s1 + rl_offset r) (rl_offset r)
         (is_size ?s1) e = Some (Patched (patch_at (unat (rl_offset r)) bs e))"
    have "reloc_alone st2 oi r = Some (patch_at (unat (rl_offset r)) bs d2)"
      using r [of d2] same bs(1) len(1) S off d2 k(1) erase_isecD(1) [OF sec] erase_objD(3) [OF ob]
      unfolding reloc_alone_def Let_def at_site_def by (auto simp: val adr)
    with bs show thesis using that by blast
  qed
qed

text \<open>
  Applied to a state that agrees with \<open>st\<close> outside \<open>T\<close>, with \<open>T\<close> away from its site, a relocation is refused
  or accepted as in \<open>st\<close>, writes the same bytes and touches nothing else.
\<close>

lemma st_objs_with_contents:
  "st_objs (with_contents oi k d st)
    = (st_objs st)[oi := (st_objs st ! oi)\<lparr>ob_secs := (ob_secs (st_objs st ! oi))[k := (sec_at st oi k)\<lparr>is_data := Some d\<rparr>]\<rparr>]"
  by (simp add: with_contents_def upd_isec_def upd_obj_def sec_at_def)

lemma erase_with_contents:
  assumes "oi < length (st_objs st)" "k < length (ob_secs (st_objs st ! oi))"
  shows "erase_contents (with_contents oi k d st) = erase_contents st"
proof -
  have "map erase_isec ((ob_secs (st_objs st ! oi))[k := (sec_at st oi k)\<lparr>is_data := Some d\<rparr>])
      = map erase_isec (ob_secs (st_objs st ! oi))"
    using assms(2) by (intro nth_equalityI) (auto simp: nth_list_update sec_at_def erase_isec_def)
  then have "map erase_obj (st_objs (with_contents oi k d st)) = map erase_obj (st_objs st)"
    using assms(1) unfolding st_objs_with_contents
    by (intro nth_equalityI) (auto simp: nth_list_update erase_obj_def)
  then show ?thesis by (simp add: erase_contents_def with_contents_def upd_isec_def upd_obj_def)
qed

lemma sec_at_with_contents:
  assumes "oi < length (st_objs st)" "k < length (ob_secs (st_objs st ! oi))"
  shows "sec_at (with_contents oi k d st) oi' k' = (if oi' = oi \<and> k' = k then (sec_at st oi k)\<lparr>is_data := Some d\<rparr> else sec_at st oi' k')"
  using assms by (auto simp: sec_at_def st_objs_with_contents nth_list_update)

lemma same_except_patch:
  assumes oi: "oi < length (st_objs st)" and k: "rl_sec r = int k" "k < length (ob_secs (st_objs st ! oi))"
    and d: "is_data (sec_at st oi k) = Some d" and bs: "length bs = reloc_width m (rl_type r)" "unat (rl_offset r) + length bs \<le> length d"
  shows "same_except (reloc_site m oi r) st (with_contents oi k (patch_at (unat (rl_offset r)) bs d) st)"
proof -
  have "patch_at (unat (rl_offset r)) bs d ! i = d ! i" if "i < length d" "(oi, k, i) \<notin> reloc_site m oi r" for i
    using that bs k(1) by (auto simp: patch_at_def reloc_site_def nth_append min_def)
  then show ?thesis
    using oi k(2) d bs by (auto simp: same_except_def erase_with_contents sec_at_with_contents split: option.split)
qed

lemma reloc_alone_same:
  assumes ex: "same_except T st st'" and oi: "oi < length (st_objs st)" and sz: "sized_contents st"
    and act: "reloc_active st oi r" and T: "reloc_site (ob_machine (st_objs st ! oi)) oi r \<inter> T = {}"
  shows "reloc_alone st' oi r = None \<longleftrightarrow> reloc_alone st oi r = None"
    and "reloc_alone st' oi r = Some e \<Longrightarrow>
      (\<exists>d. reloc_alone st oi r = Some d \<and> at_site (ob_machine (st_objs st ! oi)) r e = at_site (ob_machine (st_objs st ! oi)) r d)
      \<and> same_except (reloc_site (ob_machine (st_objs st ! oi)) oi r) st' (with_contents oi (nat (rl_sec r)) e st')
      \<and> is_data (sec_at (with_contents oi (nat (rl_sec r)) e st') oi (nat (rl_sec r))) = Some e"
proof -
  let ?m = "ob_machine (st_objs st ! oi)"
  from act obtain k d where k: "rl_sec r = int k" "nat (rl_sec r) = k" "k < length (ob_secs (st_objs st ! oi))"
    and d: "is_data (sec_at st oi k) = Some d" by (rule active_bounds)
  obtain d' where d': "is_data (sec_at st' oi k) = Some d'" "length d' = length d"
    "\<And>i. i < length d \<Longrightarrow> (oi, k, i) \<notin> T \<Longrightarrow> d' ! i = d ! i" using same_except_Some [OF ex oi k(3) d] by metis
  have same: "at_site ?m r d' = at_site ?m r d"
    using d'(2) T k by (intro at_site_cong d'(3)) (auto simp: reloc_site_def)
  note lens = sized_contentsD [OF sz oi k(3) d]
  have er: "erase_contents st' = erase_contents st" using same_except_erase [OF ex] .
  have oi': "oi < length (st_objs st')" "k < length (ob_secs (st_objs st' ! oi))" "ob_machine (st_objs st' ! oi) = ?m"
    "is_size (sec_at st' oi k) = is_size (sec_at st oi k)"
    using same_except_objs [OF ex] oi k erase_isecD(1) [OF same_except_objs(4) [OF ex oi k(3)]]
      erase_objD(3) [OF same_except_objs(2) [OF ex oi]] by auto
  have bk: "\<exists>bs. length bs = reloc_width ?m (rl_type r) \<and> unat (rl_offset r) + length bs \<le> length d
      \<and> e = patch_at (unat (rl_offset r)) bs d' \<and> reloc_alone st oi r = Some (patch_at (unat (rl_offset r)) bs d)"
    if e: "reloc_alone st' oi r = Some e" for e
    by (rule reloc_alone_agree [OF er [symmetric] oi'(1) k(1) oi'(2) d'(1) d, unfolded oi'(3,4), OF _ _ _ same [symmetric] e])
      (use lens d'(2) in auto)
  have "\<exists>e'. reloc_alone st' oi r = Some e'" if e: "reloc_alone st oi r = Some e" for e
    by (rule reloc_alone_agree [OF er oi k(1,3) d d'(1) d'(2) _ _ same e]) (use lens in auto)
  then show "reloc_alone st' oi r = None \<longleftrightarrow> reloc_alone st oi r = None" using bk by force
  assume "reloc_alone st' oi r = Some e"
  then obtain bs where bs: "length bs = reloc_width ?m (rl_type r)" "unat (rl_offset r) + length bs \<le> length d"
    "e = patch_at (unat (rl_offset r)) bs d'" "reloc_alone st oi r = Some (patch_at (unat (rl_offset r)) bs d)" using bk by blast
  have "at_site ?m r e = bs" "at_site ?m r (patch_at (unat (rl_offset r)) bs d) = bs"
    using bs d'(2) unfolding at_site_def by (metis take_patch_at)+
  then show "(\<exists>d. reloc_alone st oi r = Some d \<and> at_site ?m r e = at_site ?m r d)
      \<and> same_except (reloc_site ?m oi r) st' (with_contents oi (nat (rl_sec r)) e st')
      \<and> is_data (sec_at (with_contents oi (nat (rl_sec r)) e st') oi (nat (rl_sec r))) = Some e"
    using bs same_except_patch [OF oi'(1) k(1) oi'(2) d'(1) bs(1)] d'(2) k(2) sec_at_with_contents [OF oi'(1,2)] by auto
qed

lemma record_stat_same [simp]:
  "st_objs (ccwld_state_record_stat n st) = st_objs st" "erase_contents (ccwld_state_record_stat n st) = erase_contents st"
  "sec_at (ccwld_state_record_stat n st) oi k = sec_at st oi k"
  by (auto simp: ccwld_state_record_stat_def erase_contents_def sec_at_def split: option.split)

lemma same_except_stat [simp]: "same_except T st (ccwld_state_record_stat n st') = same_except T st st'"
  by (simp add: same_except_def cong: option.case_cong)

section \<open>The loops\<close>

text \<open>In \<open>st'\<close> the site of the relocation holds the bytes that the relocation alone writes to it in \<open>st\<close>.\<close>

definition reloc_done :: "ccwld_state \<Rightarrow> ccwld_state \<Rightarrow> nat \<Rightarrow> ccwld_ireloc \<Rightarrow> bool" where
  "reloc_done st st' oi r =
     (case (reloc_alone st oi r, is_data (sec_at st' oi (nat (rl_sec r)))) of
        (Some d, Some d') \<Rightarrow> at_site (ob_machine (st_objs st ! oi)) r d' = at_site (ob_machine (st_objs st ! oi)) r d
      | _ \<Rightarrow> False)"

lemma reloc_done_keep:
  assumes act: "reloc_active st oi r" and oi: "oi < length (st_objs st)"
    and ex: "same_except T st st1" "same_except U st1 st2"
    and U: "reloc_site (ob_machine (st_objs st ! oi)) oi r \<inter> U = {}" and dn: "reloc_done st st1 oi r"
  shows "reloc_done st st2 oi r"
proof -
  from act obtain k d where k: "rl_sec r = int k" "nat (rl_sec r) = k" "k < length (ob_secs (st_objs st ! oi))"
    and d: "is_data (sec_at st oi k) = Some d" by (rule active_bounds)
  obtain d1 where d1: "is_data (sec_at st1 oi k) = Some d1" using same_except_Some [OF ex(1) oi k(3) d] by metis
  have b: "oi < length (st_objs st1)" "k < length (ob_secs (st_objs st1 ! oi))"
    using same_except_objs [OF ex(1)] oi k(3) by auto
  obtain d2 where d2: "is_data (sec_at st2 oi k) = Some d2" "length d2 = length d1"
    "\<And>i. i < length d1 \<Longrightarrow> (oi, k, i) \<notin> U \<Longrightarrow> d2 ! i = d1 ! i" using same_except_Some [OF ex(2) b d1] by metis
  have "at_site (ob_machine (st_objs st ! oi)) r d2 = at_site (ob_machine (st_objs st ! oi)) r d1"
    using d2(2) U k by (intro at_site_cong d2(3)) (auto simp: reloc_site_def)
  then show ?thesis using dn d1 d2(1) k(2) by (simp add: reloc_done_def split: option.splits)
qed

lemma relocate_list_apart:
  assumes oi: "oi < length (st_objs st0)" and sz: "sized_contents st0" and m: "m = ob_machine (st_objs st0 ! oi)"
  shows "\<lbrakk>same_except T st0 st; sorted_wrt (sites_apart m) rs; \<forall>r \<in> set rs. reloc_site m oi r \<inter> T = {}\<rbrakk> \<Longrightarrow>
    (case relocate_list oi rs st of
       (st', None) \<Rightarrow> same_except (\<Union>r \<in> set rs. reloc_site m oi r) st st'
         \<and> (\<forall>r \<in> set rs. reloc_active st0 oi r \<longrightarrow> reloc_done st0 st' oi r)
     | (st', Some e) \<Rightarrow> \<exists>r \<in> set rs. reloc_active st0 oi r \<and> reloc_alone st0 oi r = None)"
proof (induction rs arbitrary: st T)
  case Nil
  then show ?case by simp
next
  case (Cons r rs)
  note ex = Cons.prems(1)
  have act: "reloc_active st oi r = reloc_active st0 oi r" by (rule active_same [OF ex oi])
  have apart: "reloc_site m oi r \<inter> (\<Union>r \<in> set rs. reloc_site m oi r) = {}"
    using Cons.prems(2) sites_apart_disjoint by fastforce
  show ?case
  proof (cases "reloc_active st0 oi r")
    case False
    then have "relocate_one oi r st = (st, None)" using act relocate_one_inactive by blast
    then show ?thesis using Cons.IH [OF ex] Cons.prems(2,3) False same_except_mono
      by (fastforce split: prod.splits option.splits)
  next
    case True
    have rT: "reloc_site (ob_machine (st_objs st0 ! oi)) oi r \<inter> T = {}" using Cons.prems(3) m by simp
    note same = reloc_alone_same [OF ex oi sz True rT, folded m]
    note one = relocate_one_active [OF act [THEN iffD2, OF True]]
    show ?thesis
    proof (cases "reloc_alone st oi r")
      case None
      then show ?thesis using one same(1) True by (auto split: prod.splits option.splits)
    next
      case (Some e)
      define st1 where "st1 = fst (relocate_one oi r st)"
      have st1: "relocate_one oi r st = (st1, None)"
        "st1 = ccwld_state_record_stat (ccwld_reloc_name (ob_machine (st_objs st ! oi)) (rl_type r)) (with_contents oi (nat (rl_sec r)) e st)"
        using one Some by (simp_all add: st1_def)
      have step: "same_except (reloc_site m oi r) st st1" and d1: "is_data (sec_at st1 oi (nat (rl_sec r))) = Some e"
        and dn: "reloc_done st0 st1 oi r"
        using same(2) [OF Some] by (auto simp: st1(2) reloc_done_def m)
      have ex1: "same_except (T \<union> reloc_site m oi r) st0 st1" by (rule same_except_trans [OF ex step])
      have tl: "sorted_wrt (sites_apart m) rs" "\<forall>r' \<in> set rs. reloc_site m oi r' \<inter> (T \<union> reloc_site m oi r) = {}"
        using Cons.prems(2,3) apart by auto
      have IH: "case relocate_list oi rs st1 of
         (st', None) \<Rightarrow> same_except (\<Union>r \<in> set rs. reloc_site m oi r) st1 st'
           \<and> (\<forall>r \<in> set rs. reloc_active st0 oi r \<longrightarrow> reloc_done st0 st' oi r)
       | (st', Some e) \<Rightarrow> \<exists>r \<in> set rs. reloc_active st0 oi r \<and> reloc_alone st0 oi r = None"
        by (rule Cons.IH [OF ex1 tl])
      obtain st' res where run: "relocate_list oi rs st1 = (st', res)" by fastforce
      show ?thesis
      proof (cases res)
        case None
        then have rest: "same_except (\<Union>r \<in> set rs. reloc_site m oi r) st1 st'"
          "\<forall>r \<in> set rs. reloc_active st0 oi r \<longrightarrow> reloc_done st0 st' oi r" using IH run by auto
        have "reloc_done st0 st' oi r"
          using reloc_done_keep [OF True oi ex1 rest(1)] apart dn m by simp
        then show ?thesis using run st1(1) None rest(2) same_except_trans [OF step rest(1)] by simp
      next
        case (Some err)
        then show ?thesis using IH run st1(1) by auto
      qed
    qed
  qed
qed

definition obj_relocated :: "ccwld_obj \<Rightarrow> bool" where
  "obj_relocated ob = (\<not> ob_is_dso ob \<and> \<not> ob_is_lto ob)"

definition obj_sites :: "ccwld_state \<Rightarrow> nat \<Rightarrow> (nat \<times> nat \<times> nat) set" where
  "obj_sites st oi = (\<Union>r \<in> set (ob_relocs (st_objs st ! oi)). reloc_site (ob_machine (st_objs st ! oi)) oi r)"

definition relocs_apart :: "ccwld_obj \<Rightarrow> bool" where
  "relocs_apart ob = sorted_wrt (sites_apart (ob_machine ob)) (ob_relocs ob)"

definition obj_done :: "ccwld_state \<Rightarrow> ccwld_state \<Rightarrow> nat \<Rightarrow> bool" where
  "obj_done st st' oi =
     (obj_relocated (st_objs st ! oi) \<longrightarrow>
      (\<forall>r \<in> set (ob_relocs (st_objs st ! oi)). reloc_active st oi r \<longrightarrow> reloc_done st st' oi r))"

lemma relocate_objs_apart:
  assumes sz: "sized_contents st0" and ap: "\<forall>ob \<in> set (st_objs st0). relocs_apart ob"
  shows "\<lbrakk>same_except T st0 st; distinct ois; set ois \<subseteq> {..<length (st_objs st0)}; \<forall>oi \<in> set ois. obj_sites st0 oi \<inter> T = {}\<rbrakk> \<Longrightarrow>
    (case relocate_objs ois st of
       (st', None) \<Rightarrow> same_except (\<Union>oi \<in> set ois. obj_sites st0 oi) st st' \<and> (\<forall>oi \<in> set ois. obj_done st0 st' oi)
     | (st', Some e) \<Rightarrow> \<exists>oi \<in> set ois. obj_relocated (st_objs st0 ! oi)
         \<and> (\<exists>r \<in> set (ob_relocs (st_objs st0 ! oi)). reloc_active st0 oi r \<and> reloc_alone st0 oi r = None))"
proof (induction ois arbitrary: st T)
  case Nil
  then show ?case by simp
next
  case (Cons oi ois)
  note ex = Cons.prems(1)
  have oi: "oi < length (st_objs st0)" using Cons.prems(3) by simp
  have ob: "erase_obj (st_objs st ! oi) = erase_obj (st_objs st0 ! oi)" by (rule same_except_objs(2) [OF ex oi])
  note flds = erase_objD [OF ob]
  show ?case
  proof (cases "obj_relocated (st_objs st0 ! oi)")
    case False
    then have "relocate_objs (oi # ois) st = relocate_objs ois st" using flds by (auto simp: obj_relocated_def)
    moreover obtain st' res where run: "relocate_objs ois st = (st', res)" by fastforce
    moreover have "case res of
         None \<Rightarrow> same_except (\<Union>oi \<in> set ois. obj_sites st0 oi) st st' \<and> (\<forall>oi \<in> set ois. obj_done st0 st' oi)
       | Some e \<Rightarrow> \<exists>oi \<in> set ois. obj_relocated (st_objs st0 ! oi)
           \<and> (\<exists>r \<in> set (ob_relocs (st_objs st0 ! oi)). reloc_active st0 oi r \<and> reloc_alone st0 oi r = None)"
      using Cons.IH [OF ex] Cons.prems run by simp
    ultimately show ?thesis
      using False same_except_mono [of "\<Union>oi \<in> set ois. obj_sites st0 oi" st st' "\<Union>oi \<in> set (oi # ois). obj_sites st0 oi"]
      by (cases res) (auto simp: obj_done_def)
  next
    case True
    let ?m = "ob_machine (st_objs st0 ! oi)" and ?rs = "ob_relocs (st_objs st0 ! oi)"
    have "sorted_wrt (sites_apart ?m) ?rs" using ap oi by (simp add: relocs_apart_def)
    moreover have "\<forall>r \<in> set ?rs. reloc_site ?m oi r \<inter> T = {}" using Cons.prems(4) by (auto simp: obj_sites_def)
    ultimately have L: "case relocate_list oi ?rs st of
       (st', None) \<Rightarrow> same_except (obj_sites st0 oi) st st'
         \<and> (\<forall>r \<in> set ?rs. reloc_active st0 oi r \<longrightarrow> reloc_done st0 st' oi r)
     | (st', Some e) \<Rightarrow> \<exists>r \<in> set ?rs. reloc_active st0 oi r \<and> reloc_alone st0 oi r = None"
      unfolding obj_sites_def by (rule relocate_list_apart [OF oi sz refl ex])
    obtain st1 res where run: "relocate_list oi ?rs st = (st1, res)" by fastforce
    have go: "relocate_objs (oi # ois) st
        = (case (st1, res) of (st1, Some e) \<Rightarrow> (st1, Some e) | (st1, None) \<Rightarrow> relocate_objs ois st1)"
      using True run flds(2,5,6) by (simp add: obj_relocated_def Let_def)
    show ?thesis
    proof (cases res)
      case (Some e)
      then show ?thesis using L run go True by auto
    next
      case None
      then have step: "same_except (obj_sites st0 oi) st st1"
        and dn: "\<forall>r \<in> set ?rs. reloc_active st0 oi r \<longrightarrow> reloc_done st0 st1 oi r" using L run by auto
      have ex1: "same_except (T \<union> obj_sites st0 oi) st0 st1" by (rule same_except_trans [OF ex step])
      have far: "obj_sites st0 i \<inter> obj_sites st0 j = {}" if "i \<noteq> j" for i j
        using that by (auto simp: obj_sites_def reloc_site_def)
      have "\<forall>i \<in> set ois. obj_sites st0 i \<inter> obj_sites st0 oi = {}" using far Cons.prems(2) by (metis distinct.simps(2))
      then have tl: "distinct ois" "set ois \<subseteq> {..<length (st_objs st0)}" "\<forall>i \<in> set ois. obj_sites st0 i \<inter> (T \<union> obj_sites st0 oi) = {}"
        using Cons.prems(2-4) by (simp_all add: Int_Un_distrib)
      obtain st' res' where run': "relocate_objs ois st1 = (st', res')" by fastforce
      note IH = Cons.IH [OF ex1 tl, unfolded run', simplified]
      show ?thesis
      proof (cases res')
        case None': None
        then have rest: "same_except (\<Union>oi \<in> set ois. obj_sites st0 oi) st1 st'" "\<forall>oi \<in> set ois. obj_done st0 st' oi"
          using IH by auto
        have "reloc_done st0 st' oi r" if r: "r \<in> set ?rs" "reloc_active st0 oi r" for r
        proof (rule reloc_done_keep [OF r(2) oi ex1 rest(1)])
          have "reloc_site ?m oi r \<subseteq> obj_sites st0 oi" using r(1) by (auto simp: obj_sites_def)
          moreover have "obj_sites st0 oi \<inter> (\<Union>oi \<in> set ois. obj_sites st0 oi) = {}"
            using tl(3) by (simp add: Int_UN_distrib Int_Un_distrib Int_commute)
          ultimately show "reloc_site ?m oi r \<inter> (\<Union>oi \<in> set ois. obj_sites st0 oi) = {}" by blast
          show "reloc_done st0 st1 oi r" using dn r by blast
        qed
        then show ?thesis using go None run' None' rest(2) same_except_trans [OF step rest(1)] by (simp add: obj_done_def)
      next
        case (Some e)
        then show ?thesis using IH go None run' by auto
      qed
    qed
  qed
qed

theorem relocate_phase_apart:
  assumes "sized_contents st" "\<forall>ob \<in> set (st_objs st). relocs_apart ob"
  shows "case ccwld_phase_relocate st of
      (st', None) \<Rightarrow> same_except (\<Union>oi < length (st_objs st). obj_sites st oi) st st'
        \<and> (\<forall>oi < length (st_objs st). obj_done st st' oi)
    | (st', Some e) \<Rightarrow> \<exists>oi < length (st_objs st). obj_relocated (st_objs st ! oi)
        \<and> (\<exists>r \<in> set (ob_relocs (st_objs st ! oi)). reloc_active st oi r \<and> reloc_alone st oi r = None)"
  using relocate_objs_apart [OF assms same_except_refl, of "[0..<length (st_objs st)]" "{}"]
  unfolding ccwld_phase_relocate_def by (auto simp: lessThan_atLeast0 split: prod.splits option.splits)

end
