(* ===== verification/Ccwld_Demo.thy ===== *)
theory Ccwld_Demo
  imports Ccwld_Gc_Proof Ccwld_Layout_Proof Ccwld_Reloc_Phase
begin

text \<open>
  A small link for the examples: one object whose \<open>.text\<close> refers to \<open>x\<close> in \<open>.data\<close>, and a section that
  nothing refers to.
\<close>

definition demo_isec :: "string \<Rightarrow> 8 word list option \<Rightarrow> 64 word \<Rightarrow> 64 word \<Rightarrow> ccwld_isec" where
  "demo_isec name d n al =
     \<lparr>is_name = name, is_data = d, is_size = n, is_align = al, is_flags = 6, is_type = 1, is_live = 1, is_placed = False,
      is_out_sec = -1, is_out_off = 0, is_root = False\<rparr>"

definition demo_isym :: "string \<Rightarrow> int \<Rightarrow> 64 word \<Rightarrow> ccwld_isym" where
  "demo_isym name sec v =
     \<lparr>sy_name = name, sy_binding = 1, sy_visibility = 0, sy_shndx = sec, sy_value = v, sy_size = 0, sy_obj = 0\<rparr>"

definition demo_obj :: ccwld_obj where
  "demo_obj =
     \<lparr>ob_path = ''a.o'', ob_kind = ''object'', ob_format = ''elf64'', ob_machine = 62, ob_raw = [],
      ob_secs = [demo_isec ''t'' (Some (replicate 8 0)) 8 16, demo_isec ''u'' None 4 4, demo_isec ''d'' None 8 8],
      ob_syms = [demo_isym ''m'' 1 0, demo_isym ''x'' 3 4],
      ob_relocs = [\<lparr>rl_sec = 0, rl_offset = 2, rl_type = 2, rl_sym = ''x'', rl_addend = -4\<rparr>],
      ob_members = [], ob_ar_syms = [], ob_used = True, ob_as_needed = False, ob_is_dso = False, ob_is_lto = False,
      ob_from_group = False\<rparr>"

definition demo_rsym :: "string \<Rightarrow> int \<Rightarrow> ccwld_rsym" where
  "demo_rsym name i = (new_rsym name)\<lparr>rs_defined := True, rs_obj := 0, rs_isym := i, rs_referenced := True\<rparr>"

definition demo_out :: "string \<Rightarrow> string list \<Rightarrow> ccwld_sec" where
  "demo_out name globs =
     \<lparr>sec_name = name, sec_region = Some ''r'', sec_at_region = None, sec_phdr = None,
      sec_sels = [\<lparr>sel_file_glob = None, sel_globs = globs, sel_keep = False\<rparr>], sec_align = 16, sec_subalign = 0,
      sec_vma_expr = NullExpr, sec_at_expr = NullExpr, sec_load = True, sec_fill = NullExpr, sec_vma = 0, sec_lma = 0, sec_size = 0\<rparr>"

definition demo_sym :: "string \<Rightarrow> ccwld_expr \<Rightarrow> bool \<Rightarrow> nat \<Rightarrow> ccwld_sym" where
  "demo_sym name e provide n =
     \<lparr>sym_name = name, sym_expr = e, sym_provide = provide, sym_hidden = False, sym_visibility = None, sym_binding = None,
      sym_sec_idx = -1, sym_seq = n, sym_site = None, sym_resolved_value = 0, sym_resolved = False\<rparr>"

definition demo_plan :: "ccwld_sym list \<Rightarrow> ccwld_plan" where
  "demo_plan syms =
     \<lparr>pl_target = ''t'', out_kind = None, out_format = None, out_entry = Some ''m'', out_soname = None, out_osabi = None,
      pl_sealed = True, pl_inputs = [], pl_paths = [],
      pl_mems = [\<lparr>mem_name = ''r'', mem_attrs = [], mem_origin = 0x400000, mem_length = 0x1000\<rparr>],
      pl_secs = [demo_out ''T'' [''t''], demo_out ''D'' [''d'', ''u'']], pl_syms = syms, pl_dotsteps = [], pl_stmt_seq = 0,
      pl_attrs = [], pl_phdrs = [], pl_vers = [], pl_env = [],
      pl_lto = \<lparr>lto_pipeline = None, lto_jobs = 0, lto_cache_dir = None, lto_enabled = False\<rparr>, pl_plugins = [],
      pl_hooks = [], pl_gc_sections = True, pl_as_needed_default = False, pl_no_cache = False, pl_reproducible = True,
      pl_cache_dir = None, pl_frontend = ''api'', pl_gensym = 0, pl_serialized = None, pl_plan_hash = []\<rparr>"

definition demo_link :: ccwld_state where
  "demo_link = (ccwld_state_new (demo_plan []))\<lparr>st_objs := [demo_obj], st_rsyms := [demo_rsym ''m'' 0, demo_rsym ''x'' 1]\<rparr>"

definition demo_kept :: ccwld_state where
  "demo_kept = ccwld_phase_gc demo_link"

definition demo_laid :: ccwld_state where
  "demo_laid = fst (ccwld_phase_layout demo_kept)"

lemma demo_gc: "map is_live (ob_secs (st_objs demo_kept ! 0)) = [1, 0, 1]"
  by code_simp

lemma demo_layout: "snd (ccwld_phase_layout demo_kept) = None"
  by code_simp

lemma demo_places:
  "map (\<lambda>s. (is_placed s, is_out_sec s, is_out_off s)) (ob_secs (st_objs demo_laid ! 0)) = [(True, 0, 0), (False, -1, 0), (True, 1, 0)]"
  by code_simp

lemma demo_has: "has_sec demo_laid 0 0"
  by code_simp

lemma demo_size: "sec_size (out_sec demo_laid 0) = 8"
  by code_simp

lemma demo_placed: "is_placed (sec_at demo_laid 0 0) \<and> is_out_sec (sec_at demo_laid 0 0) = 0"
  by code_simp

lemma demo_fits: "layout_fits 16 demo_kept"
proof -
  have "list_all (\<lambda>ob. list_all (\<lambda>s. \<not> is_placed s \<and> legal_align (is_align s) \<and> unat (is_align s) \<le> 16) (ob_secs ob))
      (st_objs demo_kept)"
    "list_all (\<lambda>s. legal_align (sec_subalign s) \<and> unat (sec_subalign s) \<le> 16) (pl_secs (st_plan demo_kept))"
    by code_simp+
  moreover have "sum_list (map (\<lambda>ob. sum_list (map (\<lambda>s. unat (is_size s) + 16) (ob_secs ob))) (st_objs demo_kept)) = 68"
    by code_simp
  ultimately show ?thesis by (simp add: layout_fits_def)
qed

lemma demo_sized: "sized_contents demo_laid \<and> list_all relocs_apart (st_objs demo_laid) \<and> length (st_objs demo_laid) = 1"
  by code_simp

lemma demo_relocates: "snd (ccwld_phase_relocate demo_laid) = None"
  by code_simp

text \<open>\<open>PROVIDE (x = 16)\<close> beside an input object that defines \<open>x\<close>.\<close>

definition demo_provide :: ccwld_state where
  "demo_provide = demo_link\<lparr>st_plan := demo_plan [demo_sym ''x'' (ExprInt 16) True 0]\<rparr>"

text \<open>\<open>b = a; c = a;\<close> with a plan symbol \<open>a\<close>.\<close>

definition demo_references :: ccwld_plan where
  "demo_references =
     demo_plan [demo_sym ''a'' (ExprInt 1) False 0, demo_sym ''b'' (ExprSymbol (Some ''a'')) False 1,
       demo_sym ''c'' (ExprSymbol (Some ''a'')) False 2]"

end
