(* ===== verification/Ccwld_Props.thy ===== *)
theory Ccwld_Props
  imports Ccwld_Demo
begin

unbundle bit_operations_syntax

text \<open>The properties of the linker, each with an application to the example link.\<close>

section \<open>Expressions\<close>

text \<open>C17: An expression with a value, in the arithmetic of 64-bit numbers and with the expressions of plan symbols put
  in for their names, evaluates to this value exactly when each plan symbol on the way is reached once only and is
  neither marked by an earlier evaluation nor the symbol whose own expression is evaluated; the symbols reached are
  marked afterwards. Otherwise the evaluator reports a cycle, and for an expression without a value it reports an
  error. The size and the addresses of a section are what the plan records, zero before the section is laid out.\<close>

theorem expression_evaluation:
  "(\<forall>v us. expr_value p res dot e v us \<longrightarrow>
      (if distinct us \<and> (\<forall>i \<in> set us. own \<noteq> Some i \<and> i \<notin> set vis)
       then ccwld_expr_eval p res own dot vis e = (rev us @ filter (\<lambda>i. own \<noteq> Some i) vis, Inr v)
       else snd (ccwld_expr_eval p res own dot vis e) = Inl ''cyclic dependency in expression''))
    \<and> ((\<nexists>v us. expr_value p res dot e v us) \<longrightarrow> (\<exists>msg. snd (ccwld_expr_eval p res own dot vis e) = Inl msg))"
proof (rule conjI)
  let ?vis = "(case own of None \<Rightarrow> [] | Some i \<Rightarrow> [i]) @ filter (\<lambda>i. own \<noteq> Some i) vis"
  show "\<forall>v us. expr_value p res dot e v us \<longrightarrow>
      (if distinct us \<and> (\<forall>i \<in> set us. own \<noteq> Some i \<and> i \<notin> set vis)
       then ccwld_expr_eval p res own dot vis e = (rev us @ filter (\<lambda>i. own \<noteq> Some i) vis, Inr v)
       else snd (ccwld_expr_eval p res own dot vis e) = Inl ''cyclic dependency in expression'')"
  proof (intro allI impI)
    fix v us assume v: "expr_value p res dot e v us"
    obtain vis' ok where r: "visit ?vis us = (vis', ok)" by fastforce
    have "set us \<inter> set ?vis = {} \<longleftrightarrow> (\<forall>i \<in> set us. own \<noteq> Some i \<and> i \<notin> set vis)" by (auto split: option.splits)
    then have ok: "ok \<longleftrightarrow> distinct us \<and> (\<forall>i \<in> set us. own \<noteq> Some i \<and> i \<notin> set vis)" using visit_marks [OF r] by simp
    have "filter (\<lambda>i. own \<noteq> Some i) vis' = rev us @ filter (\<lambda>i. own \<noteq> Some i) vis" if "ok"
    proof -
      have "filter (\<lambda>i. own \<noteq> Some i) (rev us) = rev us" using that ok by (intro filter_True) simp
      then show ?thesis using that visit_marks [OF r] by (auto split: option.split)
    qed
    then show "if distinct us \<and> (\<forall>i \<in> set us. own \<noteq> Some i \<and> i \<notin> set vis)
       then ccwld_expr_eval p res own dot vis e = (rev us @ filter (\<lambda>i. own \<noteq> Some i) vis, Inr v)
       else snd (ccwld_expr_eval p res own dot vis e) = Inl ''cyclic dependency in expression''"
      unfolding ok [symmetric] by (simp add: expr_eval_complete [OF v] r)
  qed
  show "(\<nexists>v us. expr_value p res dot e v us) \<longrightarrow> (\<exists>msg. snd (ccwld_expr_eval p res own dot vis e) = Inl msg)"
    using expr_eval_sound [of p res own dot vis e "fst (ccwld_expr_eval p res own dot vis e)"]
    by (cases "snd (ccwld_expr_eval p res own dot vis e)") (auto simp: has_value_def prod_eq_iff)
qed

theorem expression_evaluation_witness:
  "ccwld_expr_eval demo_references None None 0 [2] (ExprBinary CCWLD_OP_SUB (ExprSymbol (Some ''a'')) (ExprInt 2)) = ([0, 2], Inr 0xFFFFFFFFFFFFFFFF)"
proof -
  have "expr_value demo_references None 0 (ExprSymbol (Some ''a'')) 1 [0]"
    by (rule expr_value.plan_symbol) (simp_all add: demo_references_def demo_plan_def demo_sym_def plan_find_symbol_def find_index_def
        upt_rec expr_value.int)
  from expr_value.binary [OF this expr_value.int, of CCWLD_OP_SUB 2]
  have "expr_value demo_references None 0 (ExprBinary CCWLD_OP_SUB (ExprSymbol (Some ''a'')) (ExprInt 2)) 0xFFFFFFFFFFFFFFFF [0]" by simp
  with expression_evaluation [where p = demo_references and res = None and own = None and dot = 0 and vis = "[2]"
      and e = "ExprBinary CCWLD_OP_SUB (ExprSymbol (Some ''a'')) (ExprInt 2)"]
  show ?thesis by fastforce
qed

text \<open>C28: After the evaluation of an expression that uses a plan symbol, and until the symbol's own expression is
  evaluated, the evaluation of every further expression that uses the symbol fails as a cyclic dependency, though the
  expression has a value: the mark of the symbol is taken away only by the evaluation of its own expression.\<close>

theorem second_reference_fails:
  assumes "expr_value p res dot e v us" "i \<in> set us" "snd (ccwld_expr_eval p res own dot vis e) = Inr w"
    and "list_all (\<lambda>(p, res, own, dot, e). own \<noteq> Some i) es"
    and "expr_value p' res' dot' e' v' us'" "i \<in> set us'"
  shows "snd (ccwld_expr_eval p' res' own' dot' (marks_after es (fst (ccwld_expr_eval p res own dot vis e))) e')
    = Inl ''cyclic dependency in expression''"
  by (rule marked_cyclic [OF assms(5,6) marks_after_keeps [OF assms(4) used_marked [OF assms(1-3)]]])

theorem second_reference_fails_witness:
  "snd (ccwld_expr_eval demo_references None (Some 2) 0
     (marks_after [(demo_references, None, None, 0, ExprInt 5)] (fst (ccwld_expr_eval demo_references None (Some 1) 0 [] (ExprSymbol (Some ''a'')))))
     (ExprSymbol (Some ''a''))) = Inl ''cyclic dependency in expression''
   \<and> ccwld_expr_eval demo_references None (Some 0) 0 [0] (ExprInt 1) = ([], Inr 1)"
proof -
  have v: "expr_value demo_references None 0 (ExprSymbol (Some ''a'')) 1 [0]"
    by (rule expr_value.plan_symbol) (simp_all add: demo_references_def demo_plan_def demo_sym_def plan_find_symbol_def find_index_def
        upt_rec expr_value.int)
  have e: "snd (ccwld_expr_eval demo_references None (Some 1) 0 [] (ExprSymbol (Some ''a''))) = Inr 1" by code_simp
  have "ccwld_expr_eval demo_references None (Some 0) 0 [0] (ExprInt 1) = ([], Inr 1)" by code_simp
  then show ?thesis
    using second_reference_fails [OF v _ e, where i = 0 and es = "[(demo_references, None, None, 0, ExprInt 5)]", OF _ _ v] by simp
qed

section \<open>Patterns\<close>

text \<open>C32: A pattern matches exactly the words of the language that it denotes: a star stands for any string, slashes
  included, a question mark for one character, a bracket that is closed behind a text for one character of its class
  (or, after \<open>!\<close> or \<open>^\<close>, for one outside), every other character for itself. The grammar of patterns and classes is
  stated without the matcher; the ranges of a class compare characters as signed bytes.\<close>

theorem glob_language: "glob_seg pat str \<longleftrightarrow> (\<exists>ts. denotes pat ts \<and> in_language ts str)"
  by (rule glob_denotes)

section \<open>Dead sections\<close>

definition fresh_live :: "ccwld_state \<Rightarrow> bool" where
  "fresh_live st = list_all (\<lambda>ob. list_all (\<lambda>s. is_live s \<le> 1) (ob_secs ob)) (st_objs st)"

lemma fresh_live_node: "fresh_live st \<Longrightarrow> \<forall>v. is_node st v \<longrightarrow> live_of st v \<le> 1"
  by (auto simp: fresh_live_def is_node_def has_sec_def live_of_def sec_at_def list_all_length)

text \<open>C14: Dead-section elimination keeps a section only if a chain of relocations through live sections leads to
  it from a root, and keeps every section that such a chain through allocated sections leads to.\<close>

theorem gc_keeps_reachable:
  assumes "pl_gc_sections (st_plan st)" "fresh_live st"
  shows "(\<forall>v. is_node st v \<and> \<not> ob_is_lto (st_objs st ! fst v) \<and> live_of (ccwld_phase_gc st) v \<noteq> 0
            \<longrightarrow> (\<exists>u. gc_is_root st u \<and> white_path st u v))
    \<and> (\<forall>u v. gc_is_root st u \<and> alloc_path st u v \<longrightarrow> live_of (ccwld_phase_gc st) v \<noteq> 0)"
  using gc_phase [OF assms(1) fresh_live_node [OF assms(2)]] by blast

theorem gc_keeps_reachable_witness:
  "fresh_live demo_link \<and> gc_is_root demo_link (0, 0) \<and> live_of (ccwld_phase_gc demo_link) (0, 2) \<noteq> 0
   \<and> live_of (ccwld_phase_gc demo_link) (0, 1) = 0"
proof -
  have f: "pl_gc_sections (st_plan demo_link)" "fresh_live demo_link" by code_simp+
  have "out_entry (st_plan demo_link) = Some ''m''" "defining_sec demo_link ''m'' = Some (0, 0)" by code_simp+
  then have r: "gc_is_root demo_link (0, 0)" by (simp add: gc_is_root_def)
  have s: "white demo_link (0, 0)" "allocated demo_link (0, 0)" "reloc_edge demo_link (0, 0) (0, 2)" "white demo_link (0, 2)"
    "allocated demo_link (0, 2)" by code_simp+
  then have "alloc_path demo_link (0, 0) (0, 2)" by (auto simp: alloc_path_def)
  then have "live_of (ccwld_phase_gc demo_link) (0, 2) \<noteq> 0" using gc_keeps_reachable [OF f] r by blast
  moreover have "live_of (ccwld_phase_gc demo_link) (0, 1) = 0" by code_simp
  ultimately show ?thesis using f r by blast
qed

section \<open>Layout\<close>



text \<open>C31: A PROVIDE symbol overrides an input definition after all: when the layout phase evaluates it, the value of
  a symbol that an input object defines is replaced by that of the script's expression.\<close>

theorem provide_overrides_input:
  assumes "sym_provide (pl_syms (st_plan st) ! i)" "find_rsym st (sym_name (pl_syms (st_plan st) ! i)) = Some ri"
    and "rs_defined (st_rsyms st ! ri)" "\<not> rs_from_script (st_rsyms st ! ri)" "eval_sym i dot st = (st', None)"
  shows "has_value (st_plan st) (Some (layout_resolver st)) dot (sym_expr (pl_syms (st_plan st) ! i)) (rs_value (st_rsyms st' ! ri))
    \<and> rs_value_known (st_rsyms st' ! ri) \<and> \<not> rs_from_script (st_rsyms st' ! ri)"
proof -
  let ?e = "sym_expr (pl_syms (st_plan st) ! i)"
  have ri: "ri < length (st_rsyms st)" using assms(2) find_index_Some unfolding find_rsym_def by blast
  obtain st2 r where ev: "layout_eval (Some i) dot ?e st = (st2, r)" by fastforce
  have rs: "st_rsyms st2 = st_rsyms st" using ev by (auto simp: layout_eval_def split: prod.splits)
  have sy: "ccwld_state_rsym st (sym_name (pl_syms (st_plan st) ! i)) = (st, ri)" using assms(2) by (simp add: ccwld_state_rsym_def)
  obtain v where v: "r = Inr v" and st': "st' = upd_rsym ri (\<lambda>r. (if rs_defined r then r else r\<lparr>rs_defined := True, rs_from_script := True\<rparr>)
      \<lparr>rs_value := v, rs_value_known := True\<rparr>) (upd_sym i (\<lambda>s. s\<lparr>sym_resolved := True, sym_resolved_value := v\<rparr>) st2)"
    using assms(3,5) sy ev unfolding eval_sym_def Let_def by (auto split: sum.splits)
  have "snd (ccwld_expr_eval (st_plan st) (Some (layout_resolver st)) (Some i) dot (st_marks st) ?e) = Inr v"
    using ev v by (auto simp: layout_eval_def split: prod.splits)
  then have "has_value (st_plan st) (Some (layout_resolver st)) dot ?e v"
    by (metis expr_eval_sound prod.collapse)
  moreover have "st_rsyms st' ! ri = (st_rsyms st ! ri)\<lparr>rs_value := v, rs_value_known := True\<rparr>"
    using st' rs ri assms(3) by (simp add: upd_rsym_def upd_sym_def)
  ultimately show ?thesis using assms(4) by simp
qed

theorem provide_overrides_input_witness:
  "has_value (st_plan demo_provide) (Some (layout_resolver demo_provide)) 0 (ExprInt 16) (rs_value (st_rsyms (fst (eval_sym 0 0 demo_provide)) ! 1))"
proof -
  have a: "sym_provide (pl_syms (st_plan demo_provide) ! 0)" "find_rsym demo_provide (sym_name (pl_syms (st_plan demo_provide) ! 0)) = Some 1"
    "rs_defined (st_rsyms demo_provide ! 1)" "\<not> rs_from_script (st_rsyms demo_provide ! 1)" "snd (eval_sym 0 0 demo_provide) = None"
    "sym_expr (pl_syms (st_plan demo_provide) ! 0) = ExprInt 16"
    by code_simp+
  then have "eval_sym 0 0 demo_provide = (fst (eval_sym 0 0 demo_provide), None)" by (simp add: prod_eq_iff)
  from provide_overrides_input [OF a(1-4) this] show ?thesis using a(6) by simp
qed

section \<open>Relocation\<close>

text \<open>C15: When no two relocations of a section share bytes, the relocate phase fails only if some relocation alone
  is refused; otherwise every site ends with the bytes that its relocation alone would write, whatever the
  order, and no other byte and no other field of an object changes.\<close>

theorem relocations_independent:
  assumes "sized_contents st" "list_all relocs_apart (st_objs st)"
  shows "case ccwld_phase_relocate st of
      (st', None) \<Rightarrow> same_except (\<Union>oi < length (st_objs st). obj_sites st oi) st st'
        \<and> (\<forall>oi < length (st_objs st). obj_done st st' oi)
    | (st', Some e) \<Rightarrow> \<exists>oi < length (st_objs st). obj_relocated (st_objs st ! oi)
        \<and> (\<exists>r \<in> set (ob_relocs (st_objs st ! oi)). reloc_active st oi r \<and> reloc_alone st oi r = None)"
  by (rule relocate_phase_apart [OF assms(1)]) (use assms(2) in \<open>simp add: list_all_iff\<close>)

theorem relocations_independent_witness:
  "sized_contents demo_laid \<and> obj_done demo_laid (fst (ccwld_phase_relocate demo_laid)) 0"
proof -
  have a: "sized_contents demo_laid" "list_all relocs_apart (st_objs demo_laid)" "length (st_objs demo_laid) = 1"
    using demo_sized by auto
  have "ccwld_phase_relocate demo_laid = (fst (ccwld_phase_relocate demo_laid), None)"
    using demo_relocates by (simp add: prod_eq_iff)
  then have "\<forall>oi < length (st_objs demo_laid). obj_done demo_laid (fst (ccwld_phase_relocate demo_laid)) oi"
    using relocations_independent [OF a(1,2)] by (auto split: prod.splits)
  then show ?thesis using a by simp
qed

text \<open>C16: An x86-64 relocation of the supported types writes its field exactly when the place is inside the section
  and the value, S + A or S + A - P, fits the field; the processor then reads that value back from it.\<close>

theorem x86_64_fields:
  assumes "length d = unat len" "off < len" "len < 2 ^ 63"
  shows "case x86_form type of
      None \<Rightarrow> reloc_x86_64 type S A P off len d = Unsupported
    | Some (w, pc, sx) \<Rightarrow>
        (let v = (if pc then S + A - P else S + A)
         in if unat off + w \<le> length d \<and> field_fits sx w v
            then \<exists>d'. reloc_x86_64 type S A P off len d = Patched d' \<and> only_at (unat off) w d d'
                     \<and> read_field sx w (unat off) d' = (if sx then sint v else uint v)
            else reloc_x86_64 type S A P off len d = Misfit)"
  by (rule x86_64_relocations [OF assms])

theorem x86_64_fields_witness:
  "\<exists>d'. reloc_x86_64 2 0x1000 (- 4) 0x2000 1 8 (replicate 8 0) = Patched d' \<and> read_field True 4 1 d' = - 4100"
  using x86_64_fields [of "replicate 8 0" 8 1 2 "0x1000" "- 4" "0x2000"]
  by (simp add: x86_form_def field_fits_def Let_def) blast

text \<open>C29: AArch64: a call is patched exactly when its offset is a multiple of four within 128 MiB, and then branches
  there; the page of an address is always patched, but the instruction then computes it only within 4 GiB, which the
  code does not check; the low part of an address clears the register operands of its instruction.\<close>

theorem aarch64_fields:
  assumes "length d = unat len" "off < len" "len < 2 ^ 63" "unat off + 4 \<le> length d"
  shows "(if 4 dvd sint (S + A - P) \<and> - (2 ^ 27) \<le> sint (S + A - P) \<and> sint (S + A - P) < 2 ^ 27
       then \<exists>d'. reloc_aarch64 283 S A P off len d = Patched d' \<and> only_at (unat off) 4 d d'
              \<and> branch_offset (get_insn d' (unat off)) = sint (S + A - P)
              \<and> get_insn d' (unat off) AND 0xfc000000 = get_insn d (unat off) AND 0xfc000000
       else reloc_aarch64 283 S A P off len d = Misfit)
    \<and> (\<exists>d'. reloc_aarch64 275 S A P off len d = Patched d' \<and> only_at (unat off) 4 d d'
           \<and> (adrp_offset (get_insn d' (unat off)) = sint (page (S + A) - page P)
                \<longleftrightarrow> - (2 ^ 32) \<le> sint (page (S + A) - page P) \<and> sint (page (S + A) - page P) < 2 ^ 32))
    \<and> (\<exists>d'. reloc_aarch64 277 S A P off len d = Patched d' \<and> take_bit 10 (get_insn d' (unat off)) = 0)"
proof -
  have "reloc_aarch64 275 S A P off len d \<noteq> Misfit" using aarch64_adrp [OF assms(1-3), of S A P] assms(4) by auto
  then show ?thesis
    using aarch64_call [OF assms(1-3), of S A P] aarch64_adrp [OF assms(1-3), of S A P] low_parts(1) [OF assms, of S A P] assms(4)
    by (auto split: if_splits)
qed

theorem aarch64_fields_witness:
  "\<exists>d'. reloc_aarch64 283 0x1000 0 0x1008 4 8 (replicate 8 0) = Patched d' \<and> branch_offset (get_insn d' 4) = - 8"
  using aarch64_fields [of "replicate 8 0" 8 4 "0x1000" 0 "0x1008"] by (auto split: if_splits)

text \<open>C30: RISC-V: the upper part of a pc-relative address is accepted for offsets of 32 bits, but together with the
  sign-extended low part it gives the offset only below 2 GiB less 2 KiB; the low parts clear bits of the register
  operands and leave the old immediate beneath the new one.\<close>

theorem riscv_fields:
  assumes "length d = unat len" "off < len" "len < 2 ^ 63" "unat off + 4 \<le> length d"
  shows "(if - (2 ^ 31) \<le> sint (S + A - P) \<and> sint (S + A - P) < 2 ^ 31
       then \<exists>d'. reloc_riscv 23 S A P off len d = Patched d' \<and> only_at (unat off) 4 d d'
              \<and> get_insn d' (unat off) AND 0xfff = get_insn d (unat off) AND 0xfff
              \<and> (auipc_offset (get_insn d' (unat off)) + low_part (S + A - P) = sint (S + A - P)
                   \<longleftrightarrow> sint (S + A - P) < 2 ^ 31 - 2048)
       else reloc_riscv 23 S A P off len d = Misfit)
    \<and> (\<exists>d'. reloc_riscv 24 S A P off len d = Patched d' \<and> take_bit 4 (drop_bit 8 (get_insn d' (unat off))) = 0
         \<and> drop_bit 20 (get_insn d' (unat off)) = drop_bit 20 (get_insn d (unat off)) OR ucast (take_bit 12 (S + A - P)))
    \<and> (\<exists>d'. reloc_riscv 25 S A P off len d = Patched d' \<and> take_bit 5 (drop_bit 20 (get_insn d' (unat off))) = 0)"
  using riscv_hi20 [OF assms(1-3), of S A P] low_parts(2,3) [OF assms, of S A P] assms(4) by (auto split: if_splits)

theorem riscv_fields_witness:
  "\<exists>d'. reloc_riscv 23 0x3000 0 0x1004 0 8 (replicate 8 0) = Patched d'
     \<and> auipc_offset (get_insn d' 0) + low_part 0x1ffc = 0x1ffc"
  using riscv_fields [of "replicate 8 0" 8 0 "0x3000" 0 "0x1004"] by (auto split: if_splits)

end
