(* ===== verification/Ccwld_Load.thy ===== *)
theory Ccwld_Load
  imports Ccwld_State "HOL-Library.Monad_Syntax"
begin

unbundle bit_operations_syntax

text \<open>
  The load phase (\<open>toolchain/ccwld/phases/ccwld_load.c\<close>): ELF64 objects and GNU archives. A file is a list
  of bytes. Where the code reads behind the memory it owns, or reads memory it has not written, the result
  is \<open>None\<close>; otherwise it is the state and the error, if there is one.
\<close>

section \<open>Readers\<close>

definition rd_bytes :: "8 word list \<Rightarrow> 64 word \<Rightarrow> nat \<Rightarrow> 8 word list option" where
  "rd_bytes b off n =
     (if unat off > length b \<or> n > length b - unat off then None else Some (take n (drop (unat off) b)))"

fun le_word :: "8 word list \<Rightarrow> 'a::len word" where
  "le_word [] = 0"
| "le_word (x # xs) = ucast x OR push_bit 8 (le_word xs)"

definition rd_u8 :: "8 word list \<Rightarrow> 64 word \<Rightarrow> 8 word option" where
  "rd_u8 b off = map_option le_word (rd_bytes b off 1)"

definition rd_u16 :: "8 word list \<Rightarrow> 64 word \<Rightarrow> 16 word option" where
  "rd_u16 b off = map_option le_word (rd_bytes b off 2)"

definition rd_u32 :: "8 word list \<Rightarrow> 64 word \<Rightarrow> 32 word option" where
  "rd_u32 b off = map_option le_word (rd_bytes b off 4)"

definition rd_u64 :: "8 word list \<Rightarrow> 64 word \<Rightarrow> 64 word option" where
  "rd_u64 b off = map_option le_word (rd_bytes b off 8)"

text \<open>The C string at a position; the end of the list is a NUL.\<close>

definition char_of_byte :: "8 word \<Rightarrow> char" where
  "char_of_byte b = char_of (unat b)"

definition cstring_at :: "8 word list \<Rightarrow> nat \<Rightarrow> string" where
  "cstring_at t i = map char_of_byte (takeWhile (\<lambda>b. b \<noteq> 0) (drop i t))"

definition rd_cstr :: "8 word list \<Rightarrow> nat \<Rightarrow> nat \<Rightarrow> string option" where
  "rd_cstr b off limit =
     (if off \<ge> length b then None
      else (let m = (if limit \<noteq> 0 \<and> limit \<le> length b - off then limit else length b - off)
            in Some (cstring_at (take m (drop off b)) 0)))"

definition rd_strtab :: "8 word list \<Rightarrow> 64 word \<Rightarrow> 64 word \<Rightarrow> 8 word list option" where
  "rd_strtab b off n = rd_bytes b off (unat n)"

section \<open>Objects\<close>

definition new_obj :: "string \<Rightarrow> string \<Rightarrow> string \<Rightarrow> ccwld_obj" where
  "new_obj path kind format =
     \<lparr>ob_path = path, ob_kind = kind, ob_format = format, ob_machine = 0, ob_raw = [], ob_secs = [], ob_syms = [],
      ob_relocs = [], ob_members = [], ob_ar_syms = [], ob_used = False, ob_as_needed = False, ob_is_dso = False,
      ob_is_lto = False, ob_from_group = False\<rparr>"

definition ccwld_state_add_obj :: "ccwld_obj \<Rightarrow> ccwld_state \<Rightarrow> ccwld_state" where
  "ccwld_state_add_obj ob st = st\<lparr>st_objs := st_objs st @ [ob]\<rparr>"

definition SHT_SYMTAB :: "32 word" where "SHT_SYMTAB = 2"
definition SHT_STRTAB :: "32 word" where "SHT_STRTAB = 3"
definition SHT_RELA :: "32 word" where "SHT_RELA = 4"
definition SHT_NOBITS :: "32 word" where "SHT_NOBITS = 8"
definition SHT_DYNSYM :: "32 word" where "SHT_DYNSYM = 11"
definition ET_REL :: "16 word" where "ET_REL = 1"
definition ET_DYN :: "16 word" where "ET_DYN = 3"
definition SHN_UNDEF :: "16 word" where "SHN_UNDEF = 0"
definition SHN_LORESERVE :: "16 word" where "SHN_LORESERVE = 0xff00"

text \<open>\<open>data\<close> are the bytes from the pointer to the end of its memory block, \<open>None\<close> for NULL.\<close>

definition obj_add_sec ::
  "ccwld_obj \<Rightarrow> string \<Rightarrow> 8 word list option \<Rightarrow> 64 word \<Rightarrow> 64 word \<Rightarrow> 64 word \<Rightarrow> 32 word \<Rightarrow> ccwld_obj option" where
  "obj_add_sec ob name data n align flags type =
     (let add = (\<lambda>d. ob\<lparr>ob_secs := ob_secs ob @
            [\<lparr>is_name = name, is_data = d, is_size = n, is_align = if align \<noteq> 0 then align else 1, is_flags = flags,
              is_type = type, is_live = 1, is_placed = False, is_out_sec = -1, is_out_off = 0, is_root = False\<rparr>]\<rparr>)
      in case data of
           None \<Rightarrow> Some (add None)
         | Some d \<Rightarrow>
             if n = 0 \<or> type = SHT_NOBITS then Some (add None)
             else if unat n > length d then None
             else Some (add (Some (take (unat n) d))))"

definition obj_add_sym :: "ccwld_obj \<Rightarrow> string \<Rightarrow> int \<Rightarrow> int \<Rightarrow> int \<Rightarrow> 64 word \<Rightarrow> 64 word \<Rightarrow> ccwld_obj" where
  "obj_add_sym ob name binding visibility shndx v n =
     ob\<lparr>ob_syms := ob_syms ob @
          [\<lparr>sy_name = name, sy_binding = binding, sy_visibility = visibility, sy_shndx = shndx, sy_value = v,
            sy_size = n, sy_obj = -1\<rparr>]\<rparr>"

definition obj_add_reloc :: "ccwld_obj \<Rightarrow> int \<Rightarrow> 64 word \<Rightarrow> 32 word \<Rightarrow> string \<Rightarrow> 64 word \<Rightarrow> ccwld_obj" where
  "obj_add_reloc ob sec offset type name addend =
     ob\<lparr>ob_relocs := ob_relocs ob @
          [\<lparr>rl_sec = sec, rl_offset = offset, rl_type = type, rl_sym = name, rl_addend = addend\<rparr>]\<rparr>"

section \<open>ELF headers\<close>

text \<open>The header is copied as a whole; these are the fields that are used.\<close>

record E64_Ehdr =
  e_type :: "16 word"
  e_machine :: "16 word"
  e_shoff :: "64 word"
  e_shentsize :: "16 word"
  e_shnum :: "16 word"
  e_shstrndx :: "16 word"

definition read_ehdr :: "8 word list \<Rightarrow> E64_Ehdr option" where
  "read_ehdr b =
     map_option (\<lambda>h. let field = (\<lambda>i n. take n (drop i h))
                     in \<lparr>e_type = le_word (field 16 2), e_machine = le_word (field 18 2), e_shoff = le_word (field 40 8),
                         e_shentsize = le_word (field 58 2), e_shnum = le_word (field 60 2),
                         e_shstrndx = le_word (field 62 2)\<rparr>) (rd_bytes b 0 64)"

record E64_Shdr =
  sh_name :: "32 word"
  sh_type :: "32 word"
  sh_flags :: "64 word"
  sh_addr :: "64 word"
  sh_offset :: "64 word"
  sh_size :: "64 word"
  sh_link :: "32 word"
  sh_info :: "32 word"
  sh_addralign :: "64 word"
  sh_entsize :: "64 word"

definition read_shdr :: "8 word list \<Rightarrow> 64 word \<Rightarrow> E64_Shdr option" where
  "read_shdr b off = do {
     name \<leftarrow> rd_u32 b off; type \<leftarrow> rd_u32 b (off + 4); flags \<leftarrow> rd_u64 b (off + 8); addr \<leftarrow> rd_u64 b (off + 16);
     offset \<leftarrow> rd_u64 b (off + 24); n \<leftarrow> rd_u64 b (off + 32); link \<leftarrow> rd_u32 b (off + 40);
     info \<leftarrow> rd_u32 b (off + 44); align \<leftarrow> rd_u64 b (off + 48); entsize \<leftarrow> rd_u64 b (off + 56);
     Some \<lparr>sh_name = name, sh_type = type, sh_flags = flags, sh_addr = addr, sh_offset = offset, sh_size = n,
           sh_link = link, sh_info = info, sh_addralign = align, sh_entsize = entsize\<rparr> }"

text \<open>The table, or the number of the header that is truncated.\<close>

fun read_shdrs :: "8 word list \<Rightarrow> 64 word \<Rightarrow> nat list \<Rightarrow> nat + E64_Shdr list" where
  "read_shdrs b shoff [] = Inr []"
| "read_shdrs b shoff (i # is) =
     (case read_shdr b (shoff + of_nat i * 64) of
        None \<Rightarrow> Inl i
      | Some h \<Rightarrow> (case read_shdrs b shoff is of Inl j \<Rightarrow> Inl j | Inr hs \<Rightarrow> Inr (h # hs)))"

section \<open>Sections\<close>

definition is_metadata :: "32 word \<Rightarrow> bool" where
  "is_metadata type = (type = SHT_SYMTAB \<or> type = SHT_STRTAB \<or> type = SHT_RELA \<or> type = SHT_DYNSYM)"

definition sec_materialized :: "32 word \<Rightarrow> string \<Rightarrow> bool" where
  "sec_materialized type name = (\<not> is_metadata type \<and> name \<noteq> [])"

definition shdr_name :: "8 word list \<Rightarrow> E64_Shdr \<Rightarrow> string" where
  "shdr_name shstr h = cstring_at shstr (unat (sh_name h))"

definition shdr_content :: "8 word list \<Rightarrow> E64_Shdr \<Rightarrow> bool" where
  "shdr_content shstr h = sec_materialized (sh_type h) (shdr_name shstr h)"

definition map_shndx :: "E64_Shdr list \<Rightarrow> 8 word list \<Rightarrow> int \<Rightarrow> int" where
  "map_shndx sh shstr elfndx =
     (if elfndx \<le> 0 \<or> elfndx \<ge> int (length sh) then -1
      else int (length (filter (shdr_content shstr) (take (nat elfndx) sh))))"

text \<open>The content sections, in ELF order. The name of a section of another type is read.\<close>

fun load_secs :: "8 word list \<Rightarrow> nat \<Rightarrow> 8 word list \<Rightarrow> E64_Shdr list \<Rightarrow> ccwld_obj \<Rightarrow> ccwld_obj option" where
  "load_secs block len shstr [] ob = Some ob"
| "load_secs block len shstr (h # hs) ob =
     (if \<not> is_metadata (sh_type h) \<and> unat (sh_name h) > length shstr then None
      else if \<not> shdr_content shstr h then load_secs block len shstr hs ob
      else
        (case obj_add_sec ob (shdr_name shstr h)
                (if unat (sh_offset h) \<le> len then Some (drop (unat (sh_offset h)) block) else None)
                (sh_size h) (sh_addralign h) (sh_flags h) (sh_type h) of
           None \<Rightarrow> None
         | Some ob1 \<Rightarrow>
             load_secs block len shstr hs (if shdr_name shstr h = ''.ccw.lto'' then ob1\<lparr>ob_is_lto := True\<rparr> else ob1)))"

section \<open>Symbols\<close>

definition linked_strings :: "8 word list \<Rightarrow> E64_Shdr list \<Rightarrow> E64_Shdr \<Rightarrow> 8 word list option" where
  "linked_strings b sh symsh =
     (if unat (sh_link symsh) \<ge> length sh then None
      else (let h = sh ! unat (sh_link symsh)
            in if sh_type h \<noteq> SHT_STRTAB then None else rd_strtab b (sh_offset h) (sh_size h)))"

record E64_Sym =
  st_name :: "32 word"
  st_info :: "8 word"
  st_other :: "8 word"
  st_shndx :: "16 word"
  st_value :: "64 word"
  st_size :: "64 word"

definition read_sym :: "8 word list \<Rightarrow> 64 word \<Rightarrow> E64_Sym option" where
  "read_sym b off = do {
     name \<leftarrow> rd_u32 b off; info \<leftarrow> rd_u8 b (off + 4); other \<leftarrow> rd_u8 b (off + 5); shndx \<leftarrow> rd_u16 b (off + 6);
     v \<leftarrow> rd_u64 b (off + 8); n \<leftarrow> rd_u64 b (off + 16);
     Some \<lparr>st_name = name, st_info = info, st_other = other, st_shndx = shndx, st_value = v, st_size = n\<rparr> }"

text \<open>0 for an undefined symbol, -1 for a reserved index, otherwise the number of the section plus 1.\<close>

definition sym_section :: "E64_Shdr list \<Rightarrow> 8 word list \<Rightarrow> 16 word \<Rightarrow> int" where
  "sym_section sh shstr shndx =
     (if shndx = SHN_UNDEF then 0
      else if shndx \<ge> SHN_LORESERVE then -1
      else (let m = map_shndx sh shstr (uint shndx) in if m \<ge> 0 then m + 1 else -1))"

definition load_sym :: "E64_Shdr list \<Rightarrow> 8 word list \<Rightarrow> 8 word list \<Rightarrow> E64_Sym \<Rightarrow> ccwld_obj \<Rightarrow> ccwld_obj" where
  "load_sym sh shstr strtab s ob =
     (if unat (st_name s) \<ge> length strtab then ob
      else (let name = cstring_at strtab (unat (st_name s))
            in if name = [] then ob
               else obj_add_sym ob name (uint (drop_bit 4 (st_info s))) (uint (st_other s AND 3))
                      (sym_section sh shstr (st_shndx s)) (st_value s) (st_size s)))"

text \<open>The loop over the table: \<open>n\<close> entries from number \<open>k\<close> on.\<close>

fun load_syms ::
  "8 word list \<Rightarrow> E64_Shdr list \<Rightarrow> 8 word list \<Rightarrow> 8 word list \<Rightarrow> 64 word \<Rightarrow> nat \<Rightarrow> nat \<Rightarrow> ccwld_obj \<Rightarrow> ccwld_obj" where
  "load_syms b sh shstr strtab off 0 k ob = ob"
| "load_syms b sh shstr strtab off (Suc n) k ob =
     (case read_sym b (off + of_nat k * 24) of
        None \<Rightarrow> ob
      | Some s \<Rightarrow> load_syms b sh shstr strtab off n (Suc k) (load_sym sh shstr strtab s ob))"

text \<open>\<open>SHT_SYMTAB\<close>, then \<open>SHT_DYNSYM\<close>: the first table of the type, if its strings can be read.\<close>

fun load_symtab :: "8 word list \<Rightarrow> E64_Shdr list \<Rightarrow> 8 word list \<Rightarrow> 32 word list \<Rightarrow> ccwld_obj \<Rightarrow> ccwld_obj" where
  "load_symtab b sh shstr [] ob = ob"
| "load_symtab b sh shstr (want # wants) ob =
     (case find (\<lambda>h. sh_type h = want) sh of
        None \<Rightarrow> load_symtab b sh shstr wants ob
      | Some symsh \<Rightarrow>
          (case linked_strings b sh symsh of
             None \<Rightarrow> load_symtab b sh shstr wants ob
           | Some strtab \<Rightarrow> load_syms b sh shstr strtab (sh_offset symsh) (unat (sh_size symsh) div 24) 0 ob))"

section \<open>Relocations\<close>

definition reloc_symbol :: "8 word list \<Rightarrow> E64_Shdr \<Rightarrow> 8 word list \<Rightarrow> 64 word \<Rightarrow> string" where
  "reloc_symbol b symsh strtab symidx =
     (if symidx = 0 then []
      else (case rd_u32 b (sh_offset symsh + symidx * 24) of
              Some n \<Rightarrow> if unat n < length strtab then cstring_at strtab (unat n) else []
            | None \<Rightarrow> []))"

fun load_rela :: "8 word list \<Rightarrow> int \<Rightarrow> E64_Shdr \<Rightarrow> 8 word list \<Rightarrow> 64 word \<Rightarrow> nat \<Rightarrow> nat \<Rightarrow> ccwld_obj \<Rightarrow> ccwld_obj" where
  "load_rela b target symsh strtab off 0 k ob = ob"
| "load_rela b target symsh strtab off (Suc n) k ob =
     (let at = off + of_nat k * 24
      in case (rd_u64 b at, rd_u64 b (at + 8), rd_u64 b (at + 16)) of
           (Some offset, Some info, Some addend) \<Rightarrow>
             load_rela b target symsh strtab off n (Suc k)
               (obj_add_reloc ob target offset (ucast info) (reloc_symbol b symsh strtab (drop_bit 32 info)) addend)
         | _ \<Rightarrow> ob)"

text \<open>The body of the loop over the headers.\<close>

definition load_relocs :: "8 word list \<Rightarrow> E64_Shdr list \<Rightarrow> 8 word list \<Rightarrow> E64_Shdr \<Rightarrow> ccwld_obj \<Rightarrow> ccwld_obj" where
  "load_relocs b sh shstr h ob =
     (let target = map_shndx sh shstr (sint (sh_info h)); symsh = sh ! unat (sh_link h)
      in if sh_type h \<noteq> SHT_RELA \<or> target < 0 \<or> unat (sh_link h) \<ge> length sh then ob
         else if sh_type symsh \<noteq> SHT_SYMTAB \<and> sh_type symsh \<noteq> SHT_DYNSYM then ob
         else
           (case linked_strings b sh symsh of
              None \<Rightarrow> ob
            | Some strtab \<Rightarrow> load_rela b target symsh strtab (sh_offset h) (unat (sh_size h) div 24) 0 ob))"

section \<open>An object\<close>

definition load_error :: "string \<Rightarrow> string \<Rightarrow> ccwld_error" where
  "load_error path msg = ccwld_error_set CCWLD_EXIT_LINK (path @ '': '' @ msg)"

definition elf_object :: "string \<Rightarrow> bool \<Rightarrow> E64_Ehdr \<Rightarrow> ccwld_obj" where
  "elf_object path is_dso eh =
     (new_obj path (if is_dso then ''dso'' else ''object'') ''elf64'')\<lparr>ob_machine := uint (e_machine eh), ob_is_dso := is_dso\<rparr>"

text \<open>What follows the section headers; \<open>i\<close> is the number of the object.\<close>

definition load_contents ::
  "8 word list \<Rightarrow> nat \<Rightarrow> E64_Shdr list \<Rightarrow> 8 word list \<Rightarrow> nat \<Rightarrow> ccwld_obj \<Rightarrow> ccwld_obj option" where
  "load_contents block len sh shstr i ob =
     (case load_secs block len shstr sh ob of
        None \<Rightarrow> None
      | Some ob1 \<Rightarrow>
          (let b = take len block;
               ob2 = (if ob_is_lto ob1 then ob1\<lparr>ob_kind := ''lto-module''\<rparr> else ob1);
               ob3 = load_symtab b sh shstr [SHT_SYMTAB, SHT_DYNSYM] ob2;
               ob4 = fold (load_relocs b sh shstr) sh ob3
           in Some (ob4\<lparr>ob_syms := map (\<lambda>s. s\<lparr>sy_obj := int i\<rparr>) (ob_syms ob4)\<rparr>)))"

text \<open>\<open>block\<close> is the memory from \<open>buf\<close> to the end of its allocation, \<open>len\<close> the length that is passed.\<close>

definition ccwld_load_elf_mem ::
  "string \<Rightarrow> 8 word list \<Rightarrow> nat \<Rightarrow> ccwld_state \<Rightarrow> (ccwld_state \<times> ccwld_error option) option" where
  "ccwld_load_elf_mem path block len st =
     (let b = take len block
      in case read_ehdr b of
           None \<Rightarrow> Some (st, Some (load_error path ''truncated or unsupported ELF header''))
         | Some eh \<Rightarrow>
             if e_shentsize eh \<noteq> 64 then Some (st, Some (load_error path ''truncated or unsupported ELF header''))
             else if e_type eh \<noteq> ET_REL \<and> e_type eh \<noteq> ET_DYN then
               Some (st, Some (load_error path (''not a relocatable object or DSO (e_type='' @ dec_nat (unat (e_type eh)) @ '')'')))
             else if e_shnum eh = 0 \<or> e_shoff eh = 0 then Some (st, Some (load_error path ''object has no sections''))
             else
               (let ob = elf_object path (e_type eh = ET_DYN) eh; st1 = ccwld_state_add_obj ob st
                in case read_shdrs b (e_shoff eh) [0..<unat (e_shnum eh)] of
                     Inl i \<Rightarrow> Some (st1, Some (load_error path (''truncated section header '' @ dec_nat i)))
                   | Inr sh \<Rightarrow>
                       (case (if unat (e_shstrndx eh) < length sh
                              then rd_strtab b (sh_offset (sh ! unat (e_shstrndx eh))) (sh_size (sh ! unat (e_shstrndx eh)))
                              else None) of
                          None \<Rightarrow> Some (st1, Some (load_error path ''cannot read shstrtab''))
                        | Some shstr \<Rightarrow>
                            map_option (\<lambda>ob1. (ccwld_state_add_obj ob1 st, None))
                              (load_contents block len sh shstr (length (st_objs st)) ob))))"

section \<open>An archive\<close>

text \<open>\<open>strtol (s, &end, 10)\<close> of a text that cannot overflow; without digits the value is 0.\<close>

definition strtol10 :: "string \<Rightarrow> int" where
  "strtol10 s =
     (let t = dropWhile isspace s; neg = (t \<noteq> [] \<and> hd t = CHR ''-'');
          u = (if t \<noteq> [] \<and> (hd t = CHR ''-'' \<or> hd t = CHR ''+'') then tl t else t);
          v = int (digits_val (takeWhile isdigit u))
      in if neg then - v else v)"

definition nul :: char where "nul = CHR 0x00"

text \<open>The name field without its spaces, and its part before a slash.\<close>

definition ar_name :: "string \<Rightarrow> string" where
  "ar_name hdr = takeWhile (\<lambda>c. c \<noteq> nul) (rev (dropWhile (\<lambda>c. c = CHR '' '') (rev (take 16 hdr))))"

definition ar_short_name :: "string \<Rightarrow> string" where
  "ar_short_name hdr = takeWhile (\<lambda>c. c \<noteq> CHR ''/'') (takeWhile (\<lambda>c. c \<noteq> nul) (take 16 hdr))"

definition ar_member_name :: "string \<Rightarrow> 8 word list option \<Rightarrow> string" where
  "ar_member_name hdr longnames =
     (let name = ar_name hdr; lo = strtol10 (tl name)
      in if length name \<ge> 2 \<and> name ! 0 = CHR ''/'' \<and> name ! 1 \<noteq> CHR ''/'' then
           (case longnames of
              Some t \<Rightarrow>
                if lo \<ge> 0 \<and> nat lo < length t
                then map char_of_byte (takeWhile (\<lambda>b. b \<noteq> 0 \<and> b \<noteq> 10) (drop (nat lo) t))
                else ar_short_name hdr
            | None \<Rightarrow> ar_short_name hdr)
         else ar_short_name hdr)"

text \<open>The loop over the members: the members, the place of the symbol index, and the error.\<close>

function (sequential) ar_scan ::
  "string \<Rightarrow> 8 word list \<Rightarrow> nat \<Rightarrow> 8 word list option \<Rightarrow> nat option \<Rightarrow> ccwld_ar_member list
    \<Rightarrow> ccwld_ar_member list \<times> nat option \<times> ccwld_error option" where
  "ar_scan path buf off longnames symtab ms =
     (if off + 60 > length buf then (ms, symtab, None)
      else
        (let hdr = map char_of_byte (take 60 (drop off buf)); name = ar_name hdr; n = strtol10 (drop 48 hdr); body = off + 60
         in if n < 0 then (ms, symtab, Some (load_error path ''bad archive member size''))
            else if body + nat n > length buf then (ms, symtab, Some (load_error path ''truncated archive member''))
            else
              (let next = body + nat n; off' = (if odd next then next + 1 else next)
               in if name = ''/'' then ar_scan path buf off' longnames (Some body) ms
                  else if name = ''//'' then ar_scan path buf off' (Some (take (nat n) (drop body buf))) symtab ms
                  else ar_scan path buf off' longnames symtab
                         (ms @ [\<lparr>am_name = ar_member_name hdr longnames, am_pos = body, am_size = nat n, am_hdr_off = off,
                                 am_extracted = False\<rparr>]))))"
  by pat_completeness auto
termination
  by (relation "measure (\<lambda>(path, buf, off, _). length buf - off)") auto

declare ar_scan.simps [simp del]

text \<open>The symbol index: big-endian offsets, then names. An offset that was not read is used for a name.\<close>

definition be32 :: "8 word list \<Rightarrow> nat \<Rightarrow> nat" where
  "be32 buf p = unat (le_word (rev (take 4 (drop p buf))) :: 32 word)"

fun ar_offsets :: "8 word list \<Rightarrow> nat \<Rightarrow> nat \<Rightarrow> nat list \<times> nat" where
  "ar_offsets buf 0 p = ([], p)"
| "ar_offsets buf (Suc n) p =
     (if p + 4 > length buf then ([], p) else (let (offs, q) = ar_offsets buf n (p + 4) in (be32 buf p # offs, q)))"

fun ar_names ::
  "8 word list \<Rightarrow> ccwld_ar_member list \<Rightarrow> nat list \<Rightarrow> nat \<Rightarrow> nat \<Rightarrow> (string \<times> nat) list \<Rightarrow> (string \<times> nat) list option" where
  "ar_names buf ms offs 0 p syms = Some syms"
| "ar_names buf ms offs (Suc n) p syms =
     (case rd_cstr buf p 0 of
        None \<Rightarrow> Some syms
      | Some name \<Rightarrow>
          (case offs of
             [] \<Rightarrow> None
           | x # xs \<Rightarrow>
               ar_names buf ms xs n (p + length name + 1)
                 (case find_index (\<lambda>m. am_hdr_off m = x) ms of Some j \<Rightarrow> syms @ [(name, j)] | None \<Rightarrow> syms)))"

definition ar_index :: "8 word list \<Rightarrow> ccwld_ar_member list \<Rightarrow> nat option \<Rightarrow> (string \<times> nat) list option" where
  "ar_index buf ms symtab =
     (case symtab of
        None \<Rightarrow> Some []
      | Some p \<Rightarrow>
          (let count = (if p + 4 \<le> length buf then be32 buf p else 0)
           in if count = 0 \<or> count \<ge> 0x1000000 then Some []
              else (let (offs, q) = ar_offsets buf count (p + 4) in ar_names buf ms offs count q [])))"

definition load_archive :: "string \<Rightarrow> 8 word list \<Rightarrow> ccwld_state \<Rightarrow> (ccwld_state \<times> ccwld_error option) option" where
  "load_archive path buf st =
     (let (ms, symtab, err) = ar_scan path buf 8 None None [];
          ob = (new_obj path ''archive'' ''archive'')\<lparr>ob_raw := buf, ob_members := ms\<rparr>
      in case err of
           Some e \<Rightarrow> Some (ccwld_state_add_obj ob st, Some e)
         | None \<Rightarrow>
             map_option (\<lambda>syms. (ccwld_state_add_obj (ob\<lparr>ob_ar_syms := syms\<rparr>) st, None)) (ar_index buf ms symtab))"

section \<open>The phase\<close>

definition starts_bytes :: "8 word list \<Rightarrow> 8 word list \<Rightarrow> bool" where
  "starts_bytes pre b = (take (length pre) b = pre)"

definition load_file :: "string \<Rightarrow> 8 word list \<Rightarrow> ccwld_state \<Rightarrow> (ccwld_state \<times> ccwld_error option) option" where
  "load_file path buf st =
     (if starts_bytes [0x21, 0x3c, 0x61, 0x72, 0x63, 0x68, 0x3e, 0x0a] buf then load_archive path buf st
      else if starts_bytes [0x7f, 0x45, 0x4c, 0x46, 2] buf \<and> length buf > 5 \<and> buf ! 5 = 1
      then ccwld_load_elf_mem path (buf @ [0]) (length buf) st
      else Some (st, Some (load_error path ''unrecognized input format (expected ELF64 object or archive)'')))"

text \<open>After a file: the options of the input, and the first machine that is known.\<close>

definition adopt_input :: "ccwld_input \<Rightarrow> bool \<Rightarrow> ccwld_state \<Rightarrow> ccwld_state \<times> bool" where
  "adopt_input inp machine_set st =
     (if st_objs st = [] then (st, machine_set)
      else
        (let i = length (st_objs st) - 1;
             st1 = upd_obj i (\<lambda>ob. ob\<lparr>ob_as_needed := in_as_needed inp \<or> pl_as_needed_default (st_plan st),
                                      ob_from_group := in_is_group inp\<rparr>) st;
             m = ob_machine (st_objs st ! i)
         in if \<not> machine_set \<and> m \<noteq> 0 then (st1\<lparr>st_machine := m\<rparr>, True) else (st1, machine_set)))"

fun load_inputs ::
  "files \<Rightarrow> ccwld_input list \<Rightarrow> bool \<Rightarrow> ccwld_state \<Rightarrow> (ccwld_state \<times> ccwld_error option) option" where
  "load_inputs fs [] machine_set st = Some (st, None)"
| "load_inputs fs (inp # inps) machine_set st =
     (case ccwld_find_input fs (st_plan st) (in_path inp) of
        None \<Rightarrow> Some (st, Some (ccwld_error_set CCWLD_EXIT_LINK (''cannot open input '' @ [quote] @ in_path inp @ [quote])))
      | Some path \<Rightarrow>
          (case fs path of
             None \<Rightarrow> Some (st, Some (ccwld_error_set CCWLD_EXIT_LINK (''cannot read input '' @ [quote] @ in_path inp @ [quote])))
           | Some buf \<Rightarrow>
               (case load_file path buf st of
                  None \<Rightarrow> None
                | Some (st1, Some e) \<Rightarrow> Some (st1, Some e)
                | Some (st1, None) \<Rightarrow> (let (st2, ms) = adopt_input inp machine_set st1 in load_inputs fs inps ms st2))))"

definition ccwld_phase_load :: "files \<Rightarrow> ccwld_state \<Rightarrow> (ccwld_state \<times> ccwld_error option) option" where
  "ccwld_phase_load fs st =
     (let inps = pl_inputs (st_plan st)
      in if inps = [] then Some (st, Some (ccwld_error_set CCWLD_EXIT_LINK ''no input files''))
         else load_inputs fs (filter in_startup inps @ filter (\<lambda>i. \<not> in_startup i) inps) False st)"

end
