(* ===== verification/Ccwld_Resolve.thy ===== *)
theory Ccwld_Resolve
  imports Ccwld_Load
begin

text \<open>
  The resolve phase (\<open>toolchain/ccwld/phases/ccwld_resolve.c\<close>): definitions of objects are merged in link
  order, archive members are extracted on demand, script symbols and overrides are applied. \<open>None\<close> is the
  loader's read behind its memory. \<open>extract_member\<close> sets \<open>used\<close> of the archive through a pointer that loading
  the member may have made invalid; the model sets it in the archive.
\<close>

section \<open>Definitions of objects\<close>

definition visibility_text :: "int \<Rightarrow> string" where
  "visibility_text v =
     (if v = 2 then ''hidden'' else if v = 1 then ''internal'' else if v = 3 then ''protected'' else ''default'')"

definition define_rsym :: "nat \<Rightarrow> nat \<Rightarrow> ccwld_isym \<Rightarrow> ccwld_rsym \<Rightarrow> ccwld_rsym" where
  "define_rsym oi k s r =
     (let weak = (sy_binding s = 2)
      in r\<lparr>rs_defined := True, rs_obj := int oi, rs_isym := int k, rs_weak := weak, rs_from_script := False,
           rs_value_known := False, rs_size := sy_size s, rs_binding := if weak then ''weak'' else ''global'',
           rs_visibility := visibility_text (sy_visibility s)\<rparr>)"

definition script_site :: "ccwld_plan \<Rightarrow> int \<Rightarrow> string" where
  "script_site p i = (if i \<ge> 0 \<and> nat i < length (pl_syms p) then or_empty (sym_site (pl_syms p ! nat i)) else [])"

definition obj_path :: "ccwld_state \<Rightarrow> int \<Rightarrow> string" where
  "obj_path st i = ob_path (st_objs st ! nat i)"

definition duplicate_text :: "string \<Rightarrow> string \<Rightarrow> string \<Rightarrow> string" where
  "duplicate_text name path1 path2 =
     ''duplicate symbol '' @ [quote] @ name @ [quote] @ '' (defined in '' @ [quote] @ path1 @ [quote] @ '' and ''
     @ [quote] @ path2 @ [quote] @ '')''"

text \<open>The body of the loop of \<open>merge_object\<close>: symbol \<open>k\<close> of object \<open>oi\<close>.\<close>

definition merge_sym :: "nat \<Rightarrow> nat \<Rightarrow> ccwld_state \<Rightarrow> ccwld_state \<times> ccwld_error option" where
  "merge_sym oi k st =
     (let s = ob_syms (st_objs st ! oi) ! k
      in if sy_binding s = 0 \<or> sy_name s = [] then (st, None)
         else
           (let (st1, ri) = ccwld_state_rsym st (sy_name s);
                st2 = upd_rsym ri (\<lambda>r. r\<lparr>rs_referenced := True\<rparr>) st1;
                r = st_rsyms st2 ! ri; this_weak = (sy_binding s = 2)
            in if sy_shndx s = 0 then (st2, None)
               else if rs_defined r \<and> \<not> rs_weak r \<and> \<not> this_weak then
                 (let msg = duplicate_text (sy_name s) (obj_path st2 (rs_obj r)) (ob_path (st_objs st2 ! oi))
                  in (ccwld_diag_error CCWLD_EXIT_LINK None None msg st2, Some (ccwld_error_set CCWLD_EXIT_LINK msg)))
               else if rs_defined r \<and> \<not> rs_weak r \<and> this_weak then (st2, None)
               else if rs_defined r \<and> rs_from_script r \<and> \<not> rs_provided r then
                 (st2, Some (ccwld_error_set CCWLD_EXIT_LINK
                    (''symbol '' @ [quote] @ sy_name s @ [quote] @ '' assigned by the link script (''
                     @ script_site (st_plan st2) (rs_script_idx r) @ '') is already defined by input object '' @ [quote]
                     @ ob_path (st_objs st2 ! oi) @ [quote] @ ''; use PROVIDE to yield'')))
               else if rs_defined r \<and> \<not> (rs_weak r \<and> \<not> this_weak) then (st2, None)
               else (upd_rsym ri (define_rsym oi k s) st2, None)))"

fun merge_syms :: "nat \<Rightarrow> nat list \<Rightarrow> ccwld_state \<Rightarrow> ccwld_state \<times> ccwld_error option" where
  "merge_syms oi [] st = (st, None)"
| "merge_syms oi (k # ks) st =
     (case merge_sym oi k st of
        (st1, Some e) \<Rightarrow> (st1, Some e)
      | (st1, None) \<Rightarrow> merge_syms oi ks st1)"

definition merge_object :: "nat \<Rightarrow> ccwld_state \<Rightarrow> ccwld_state \<times> ccwld_error option" where
  "merge_object oi st =
     (case merge_syms oi [0..<length (ob_syms (st_objs st ! oi))] st of
        (st1, Some e) \<Rightarrow> (st1, Some e)
      | (st1, None) \<Rightarrow> (upd_obj oi (\<lambda>ob. ob\<lparr>ob_used := True\<rparr>) st1, None))"

text \<open>The exports of a shared object define what is not defined yet.\<close>

definition dso_sym :: "nat \<Rightarrow> nat \<Rightarrow> ccwld_state \<Rightarrow> ccwld_state" where
  "dso_sym oi k st =
     (let s = ob_syms (st_objs st ! oi) ! k
      in if sy_binding s = 0 \<or> sy_name s = [] then st
         else
           (let (st1, ri) = ccwld_state_rsym st (sy_name s); r = st_rsyms st1 ! ri
            in if \<not> rs_defined r \<and> sy_shndx s \<noteq> 0 then
                 upd_rsym ri (\<lambda>r. r\<lparr>rs_defined := True, rs_obj := int oi, rs_isym := int k, rs_weak := sy_binding s = 2,
                                    rs_from_script := False, rs_value_known := False\<rparr>) st1
               else st1))"

definition dso_object :: "nat \<Rightarrow> ccwld_state \<Rightarrow> ccwld_state" where
  "dso_object oi st = fold (dso_sym oi) [0..<length (ob_syms (st_objs st ! oi))] st"

fun merge_objects :: "nat list \<Rightarrow> ccwld_state \<Rightarrow> ccwld_state \<times> ccwld_error option" where
  "merge_objects [] st = (st, None)"
| "merge_objects (oi # ois) st =
     (let kind = ob_kind (st_objs st ! oi)
      in if kind = ''archive'' then merge_objects ois st
         else if kind = ''dso'' then merge_objects ois (dso_object oi st)
         else
           (case merge_object oi st of
              (st1, Some e) \<Rightarrow> (st1, Some e)
            | (st1, None) \<Rightarrow> merge_objects ois st1))"

section \<open>Archives\<close>

definition set_extracted :: "nat \<Rightarrow> nat \<Rightarrow> ccwld_state \<Rightarrow> ccwld_state" where
  "set_extracted aoi midx =
     upd_obj aoi (\<lambda>a. a\<lparr>ob_members := (ob_members a)[midx := (ob_members a ! midx)\<lparr>am_extracted := True\<rparr>], ob_used := True\<rparr>)"

definition extract_member :: "nat \<Rightarrow> nat \<Rightarrow> bool \<Rightarrow> ccwld_state \<Rightarrow> (ccwld_state \<times> ccwld_error option) option" where
  "extract_member aoi midx from_group st =
     (let a = st_objs st ! aoi; m = ob_members a ! midx
      in if am_extracted m then Some (st, None)
         else
           (case ccwld_load_elf_mem (take 511 (ob_path a @ ''('' @ am_name m @ '')'')) (drop (am_pos m) (ob_raw a)) (am_size m) st of
              None \<Rightarrow> None
            | Some (st1, Some e) \<Rightarrow> Some (st1, Some e)
            | Some (st1, None) \<Rightarrow>
                (let i = length (st_objs st1) - 1
                 in Some (merge_object i (upd_obj i (\<lambda>ob. ob\<lparr>ob_from_group := from_group\<rparr>) (set_extracted aoi midx st1))))))"

text \<open>One pass over the index; the number of extracted members.\<close>

fun scan_index ::
  "nat \<Rightarrow> bool \<Rightarrow> (string \<times> nat) list \<Rightarrow> nat \<Rightarrow> ccwld_state \<Rightarrow> (ccwld_state \<times> (ccwld_error + nat)) option" where
  "scan_index aoi from_group [] extracted st = Some (st, Inr extracted)"
| "scan_index aoi from_group ((name, midx) # syms) extracted st =
     (let (st1, ri) = ccwld_state_rsym st name; r = st_rsyms st1 ! ri
      in if rs_defined r \<or> \<not> rs_referenced r \<or> am_extracted (ob_members (st_objs st1 ! aoi) ! midx)
         then scan_index aoi from_group syms extracted st1
         else
           (case extract_member aoi midx from_group st1 of
              None \<Rightarrow> None
            | Some (st2, Some e) \<Rightarrow> Some (st2, Inl e)
            | Some (st2, None) \<Rightarrow> scan_index aoi from_group syms (Suc extracted) st2))"

definition archive_scan_once :: "nat \<Rightarrow> bool \<Rightarrow> ccwld_state \<Rightarrow> (ccwld_state \<times> (ccwld_error + nat)) option" where
  "archive_scan_once aoi from_group st = scan_index aoi from_group (ob_ar_syms (st_objs st ! aoi)) 0 st"

text \<open>At most \<open>n\<close> rounds, until one extracts nothing.\<close>

fun scan_rounds :: "nat \<Rightarrow> nat \<Rightarrow> bool \<Rightarrow> ccwld_state \<Rightarrow> (ccwld_state \<times> ccwld_error option) option" where
  "scan_rounds 0 aoi from_group st = Some (st, None)"
| "scan_rounds (Suc n) aoi from_group st =
     (case archive_scan_once aoi from_group st of
        None \<Rightarrow> None
      | Some (st1, Inl e) \<Rightarrow> Some (st1, Some e)
      | Some (st1, Inr k) \<Rightarrow> if k = 0 then Some (st1, None) else scan_rounds n aoi from_group st1)"

fun scan_archives :: "nat list \<Rightarrow> ccwld_state \<Rightarrow> (ccwld_state \<times> ccwld_error option) option" where
  "scan_archives [] st = Some (st, None)"
| "scan_archives (i # is) st =
     (let ob = st_objs st ! i
      in if ob_kind ob \<noteq> ''archive'' then scan_archives is st
         else
           (case scan_rounds 64 i (ob_from_group ob) st of
              None \<Rightarrow> None
            | Some (st1, Some e) \<Rightarrow> Some (st1, Some e)
            | Some (st1, None) \<Rightarrow> scan_archives is st1))"

section \<open>The script\<close>

definition apply_attr :: "ccwld_attr \<Rightarrow> ccwld_state \<Rightarrow> ccwld_state" where
  "apply_attr a st =
     (if attr_visibility a = None \<and> attr_binding a = None then st
      else
        (let (st1, ri) = ccwld_state_rsym st (attr_name a)
         in upd_rsym ri
              (\<lambda>r. let r1 = (case attr_visibility a of Some v \<Rightarrow> r\<lparr>rs_visibility := v\<rparr> | None \<Rightarrow> r)
                   in case attr_binding a of Some b \<Rightarrow> r1\<lparr>rs_binding := b, rs_weak := b = ''weak''\<rparr> | None \<Rightarrow> r1) st1))"

definition apply_attr_overrides :: "ccwld_state \<Rightarrow> ccwld_state" where
  "apply_attr_overrides st = fold apply_attr (pl_attrs (st_plan st)) st"

definition apply_script_symbol :: "nat \<Rightarrow> ccwld_state \<Rightarrow> ccwld_state \<times> ccwld_error option" where
  "apply_script_symbol i st =
     (let s = pl_syms (st_plan st) ! i; (st1, ri) = ccwld_state_rsym st (sym_name s); r = st_rsyms st1 ! ri
      in if sym_provide s then
           (if rs_defined r \<or> \<not> rs_referenced r then (st1, None)
            else
              (upd_rsym ri (\<lambda>r. r\<lparr>rs_defined := True, rs_from_script := True, rs_provided := True, rs_script_idx := int i,
                  rs_value_known := False, rs_binding := ''global'',
                  rs_visibility := if sym_hidden s then ''hidden'' else ''default''\<rparr>) st1, None))
         else if rs_defined r \<and> \<not> rs_from_script r \<and> rs_obj r \<ge> 0 then
           (st1, Some (ccwld_error_set CCWLD_EXIT_LINK
              (''symbol '' @ [quote] @ sym_name s @ [quote] @ '' assigned by the link script''
               @ (case sym_site s of Some t \<Rightarrow> '' ('' @ t | None \<Rightarrow> []) @ '' is already defined by input object '' @ [quote]
               @ obj_path st1 (rs_obj r) @ [quote] @ ''; use PROVIDE to yield'')))
         else
           (upd_rsym ri (\<lambda>r. r\<lparr>rs_defined := True, rs_from_script := True, rs_script_idx := int i, rs_value_known := False,
               rs_binding := case sym_binding s of Some b \<Rightarrow> b | None \<Rightarrow> ''global'',
               rs_visibility := case sym_visibility s of Some v \<Rightarrow> v | None \<Rightarrow> ''default''\<rparr>) st1, None))"

fun apply_script_list :: "nat list \<Rightarrow> ccwld_state \<Rightarrow> ccwld_state \<times> ccwld_error option" where
  "apply_script_list [] st = (st, None)"
| "apply_script_list (i # is) st =
     (case apply_script_symbol i st of
        (st1, Some e) \<Rightarrow> (st1, Some e)
      | (st1, None) \<Rightarrow> apply_script_list is st1)"

definition apply_script_symbols :: "ccwld_state \<Rightarrow> ccwld_state \<times> ccwld_error option" where
  "apply_script_symbols st = apply_script_list [0..<length (pl_syms (st_plan st))] st"

section \<open>Pruning and undefined symbols\<close>

definition won_by :: "nat \<Rightarrow> ccwld_rsym \<Rightarrow> bool" where
  "won_by i r = (rs_obj r = int i \<and> rs_defined r \<and> \<not> rs_from_script r)"

definition prune_dso :: "nat \<Rightarrow> ccwld_state \<Rightarrow> ccwld_state" where
  "prune_dso i st =
     (let ob = st_objs st ! i
      in if \<not> ob_is_dso ob \<or> \<not> ob_as_needed ob \<or> list_ex (won_by i) (st_rsyms st) then st
         else
           (upd_obj i (\<lambda>ob. ob\<lparr>ob_used := False\<rparr>) st)
             \<lparr>st_rsyms := map (\<lambda>r. if won_by i r
                                   then r\<lparr>rs_defined := False, rs_obj := -1, rs_isym := -1, rs_value_known := False\<rparr> else r)
                              (st_rsyms st)\<rparr>)"

definition settle_symbol :: "nat \<Rightarrow> ccwld_state \<Rightarrow> ccwld_state" where
  "settle_symbol i st =
     (let r = st_rsyms st ! i
      in if \<not> rs_referenced r \<or> rs_defined r then st
         else if rs_weak r then upd_rsym i (\<lambda>r. r\<lparr>rs_value := 0, rs_value_known := True\<rparr>) st
         else
           ccwld_diag_error CCWLD_EXIT_LINK None None (''undefined symbol '' @ [quote] @ rs_name r @ [quote])
             (st\<lparr>st_undefined_strong := st_undefined_strong st + 1\<rparr>))"

definition settle_undefined :: "ccwld_state \<Rightarrow> ccwld_state" where
  "settle_undefined st = fold settle_symbol [0..<length (st_rsyms st)] (st\<lparr>st_undefined_strong := 0\<rparr>)"

definition check_entry :: "ccwld_state \<Rightarrow> ccwld_state" where
  "check_entry st =
     (case out_entry (st_plan st) of
        None \<Rightarrow> st
      | Some n \<Rightarrow>
          if n = [] then st
          else
            (let (st1, ri) = ccwld_state_rsym st n
             in if rs_defined (st_rsyms st1 ! ri) then st1
                else ccwld_diag_warn None None (''cannot find entry symbol '' @ [quote] @ n @ [quote]) st1))"

section \<open>The phase\<close>

text \<open>After the archives. Members that were extracted are no archives: the second pass ends with the inputs.\<close>

definition finish_resolve :: "ccwld_state \<Rightarrow> ccwld_state \<times> ccwld_error option" where
  "finish_resolve st =
     (case apply_script_symbols (apply_attr_overrides st) of
        (st1, Some e) \<Rightarrow> (st1, Some e)
      | (st1, None) \<Rightarrow>
          (let st2 = fold prune_dso [0..<length (st_objs st1)] st1; st3 = settle_undefined st2
           in if st_undefined_strong st3 \<noteq> 0 then
                (st3, Some (ccwld_error_set CCWLD_EXIT_LINK (dec_nat (st_undefined_strong st3) @ '' undefined symbol(s)'')))
              else (check_entry st3, None)))"

definition ccwld_phase_resolve :: "ccwld_state \<Rightarrow> (ccwld_state \<times> ccwld_error option) option" where
  "ccwld_phase_resolve st =
     (let is = [0..<length (st_objs st)]
      in case merge_objects is st of
           (st1, Some e) \<Rightarrow> Some (st1, Some e)
         | (st1, None) \<Rightarrow>
             (case scan_archives is st1 of
                None \<Rightarrow> None
              | Some (st2, Some e) \<Rightarrow> Some (st2, Some e)
              | Some (st2, None) \<Rightarrow> Some (finish_resolve st2)))"

end
