(* ===== verification/Ccwld_Resolve_Proof.thy ===== *)
theory Ccwld_Resolve_Proof
  imports Ccwld_Resolve
begin

text \<open>
  Which definition a name resolves to. The symbols of the merged objects, in link order, are a list of pairs
  (object, symbol); \<open>chosen\<close> is the first strong definition of a name in it, else the first weak one. The
  table of resolved symbols holds exactly the chosen definitions.
\<close>

section \<open>Looking up a name\<close>

definition rsym_of :: "ccwld_state \<Rightarrow> string \<Rightarrow> ccwld_rsym option" where
  "rsym_of st n = map_option (\<lambda>i. st_rsyms st ! i) (find_rsym st n)"

definition distinct_names :: "ccwld_state \<Rightarrow> bool" where
  "distinct_names st = distinct (map rs_name (st_rsyms st))"

lemma find_index_SomeI:
  assumes "i < length xs" "P (xs ! i)" "\<And>j. j < i \<Longrightarrow> \<not> P (xs ! j)"
  shows "find_index P xs = Some i"
  unfolding find_index_def find_Some_iff using assms by (intro exI [of _ i]) auto

lemma find_rsym_Some:
  "find_rsym st n = Some i \<Longrightarrow> i < length (st_rsyms st) \<and> rs_name (st_rsyms st ! i) = n"
  by (auto simp: find_rsym_def find_index_def find_Some_iff)

lemma find_rsym_None: "find_rsym st n = None \<longleftrightarrow> n \<notin> rs_name ` set (st_rsyms st)"
  by (fastforce simp: find_rsym_def find_index_def find_None_iff in_set_conv_nth)

lemma find_rsym_unique:
  assumes "distinct_names st" "i < length (st_rsyms st)"
  shows "find_rsym st (rs_name (st_rsyms st ! i)) = Some i"
proof -
  have "rs_name (st_rsyms st ! j) \<noteq> rs_name (st_rsyms st ! i)" if "j < i" for j
    using assms that nth_eq_iff_index_eq [of "map rs_name (st_rsyms st)" j i]
    by (auto simp: distinct_names_def)
  then show ?thesis unfolding find_rsym_def by (intro find_index_SomeI) (use assms in auto)
qed

lemma rsym_of_unique:
  "distinct_names st \<Longrightarrow> i < length (st_rsyms st) \<Longrightarrow> rs_name (st_rsyms st ! i) = n \<Longrightarrow> rsym_of st n = Some (st_rsyms st ! i)"
  using find_rsym_unique [of st i] by (auto simp: rsym_of_def)

lemma rsym_of_None: "rsym_of st n = None \<longleftrightarrow> n \<notin> rs_name ` set (st_rsyms st)"
  by (simp add: rsym_of_def find_rsym_None)

lemma rsym_of_Some:
  "distinct_names st \<Longrightarrow> rsym_of st n = Some r \<longleftrightarrow> r \<in> set (st_rsyms st) \<and> rs_name r = n"
  by (auto simp: in_set_conv_nth dest: rsym_of_unique)
    (auto simp: rsym_of_def dest!: find_rsym_Some)

text \<open>What \<open>ccwld_state_rsym\<close> and an update at its index do to the table, seen through \<open>rsym_of\<close>.\<close>

lemma intern:
  assumes "distinct_names st" "ccwld_state_rsym st n = (st1, i)"
  shows "distinct_names st1" "i < length (st_rsyms st1)" "rs_name (st_rsyms st1 ! i) = n"
    "st1 = st\<lparr>st_rsyms := st_rsyms st1\<rparr>"
    "\<And>m. rsym_of st1 m = (if m = n then Some (st_rsyms st1 ! i) else rsym_of st m)"
    "st_rsyms st1 ! i = (case rsym_of st n of Some r \<Rightarrow> r | None \<Rightarrow> new_rsym n)"
proof -
  have "distinct_names st1 \<and> i < length (st_rsyms st1) \<and> rs_name (st_rsyms st1 ! i) = n \<and> st1 = st\<lparr>st_rsyms := st_rsyms st1\<rparr>
    \<and> (\<forall>m. rsym_of st1 m = (if m = n then Some (st_rsyms st1 ! i) else rsym_of st m))
    \<and> st_rsyms st1 ! i = (case rsym_of st n of Some r \<Rightarrow> r | None \<Rightarrow> new_rsym n)"
  proof (cases "find_rsym st n")
    case None
    then have st1: "st1 = st\<lparr>st_rsyms := st_rsyms st @ [new_rsym n]\<rparr>" and i: "i = length (st_rsyms st)"
      using assms(2) by (auto simp: ccwld_state_rsym_def)
    have d: "distinct_names st1" using assms(1) None by (simp add: distinct_names_def st1 find_rsym_None new_rsym_def)
    have n: "rs_name (st_rsyms st1 ! i) = n" by (simp add: st1 i new_rsym_def)
    have m: "rsym_of st1 m = rsym_of st m" if "m \<noteq> n" for m
    proof (cases "rsym_of st m")
      case None
      then have "rsym_of st1 m = None" using that by (simp add: rsym_of_None st1 new_rsym_def)
      with None show ?thesis by simp
    next
      case (Some r)
      then show ?thesis using rsym_of_Some [OF d, of m r] rsym_of_Some [OF assms(1), of m r] by (simp add: st1)
    qed
    have "rsym_of st1 n = Some (st_rsyms st1 ! i)" using rsym_of_unique [OF d _ n] by (simp add: st1 i)
    with d n m None show ?thesis by (simp add: st1 i rsym_of_def)
  next
    case (Some j)
    then have "st1 = st" "i = j" using assms(2) by (auto simp: ccwld_state_rsym_def)
    with Some assms(1) find_rsym_Some [OF Some] show ?thesis by (auto simp: rsym_of_def)
  qed
  then show "distinct_names st1" "i < length (st_rsyms st1)" "rs_name (st_rsyms st1 ! i) = n"
    "st1 = st\<lparr>st_rsyms := st_rsyms st1\<rparr>"
    "\<And>m. rsym_of st1 m = (if m = n then Some (st_rsyms st1 ! i) else rsym_of st m)"
    "st_rsyms st1 ! i = (case rsym_of st n of Some r \<Rightarrow> r | None \<Rightarrow> new_rsym n)" by blast+
qed

lemma update:
  assumes "distinct_names st" "i < length (st_rsyms st)" "rs_name (f (st_rsyms st ! i)) = rs_name (st_rsyms st ! i)"
  shows "distinct_names (upd_rsym i f st)" "length (st_rsyms (upd_rsym i f st)) = length (st_rsyms st)"
    "st_rsyms (upd_rsym i f st) ! i = f (st_rsyms st ! i)"
    "\<And>m. rsym_of (upd_rsym i f st) m = (if m = rs_name (st_rsyms st ! i) then Some (f (st_rsyms st ! i)) else rsym_of st m)"
proof -
  have names: "map rs_name (st_rsyms (upd_rsym i f st)) = map rs_name (st_rsyms st)"
    using assms(2,3) list_update_id [of "map rs_name (st_rsyms st)" i] by (simp add: upd_rsym_def map_update)
  then have fi: "find_rsym (upd_rsym i f st) m = find_rsym st m" for m
  proof -
    have eq: "find_index (\<lambda>r. rs_name r = m) xs = find_index (\<lambda>r. rs_name r = m) ys" if "map rs_name xs = map rs_name ys" for xs ys
    proof -
      have "length xs = length ys" using that map_eq_imp_length_eq by blast
      moreover have "rs_name (xs ! j) = rs_name (ys ! j)" if "j < length xs" for j
        using that \<open>map rs_name xs = map rs_name ys\<close> \<open>length xs = length ys\<close> by (metis nth_map)
      ultimately show ?thesis unfolding find_index_def by (auto intro: find_cong)
    qed
    show ?thesis unfolding find_rsym_def by (rule eq [OF names])
  qed
  show "distinct_names (upd_rsym i f st)" using assms(1) names by (simp add: distinct_names_def)
  show "length (st_rsyms (upd_rsym i f st)) = length (st_rsyms st)" "st_rsyms (upd_rsym i f st) ! i = f (st_rsyms st ! i)"
    using assms(2) by (simp_all add: upd_rsym_def)
  fix m
  show "rsym_of (upd_rsym i f st) m = (if m = rs_name (st_rsyms st ! i) then Some (f (st_rsyms st ! i)) else rsym_of st m)"
  proof (cases "m = rs_name (st_rsyms st ! i)")
    case True
    then show ?thesis using find_rsym_unique [OF assms(1,2)] assms(2) by (simp add: rsym_of_def fi) (simp add: upd_rsym_def)
  next
    case False
    show ?thesis
    proof (cases "find_rsym st m")
      case (Some j)
      then have "j \<noteq> i" using False find_rsym_Some [OF Some] by auto
      with False Some show ?thesis by (simp add: rsym_of_def fi) (simp add: upd_rsym_def)
    qed (use False in \<open>simp add: rsym_of_def fi\<close>)
  qed
qed

section \<open>Chosen definitions\<close>

text \<open>\<open>f\<close> gives the symbol of a pair, \<open>ps\<close> are the pairs merged so far.\<close>

definition mentions :: "(nat \<times> nat \<Rightarrow> ccwld_isym) \<Rightarrow> string \<Rightarrow> (nat \<times> nat) list \<Rightarrow> (nat \<times> nat) list" where
  "mentions f n ps = filter (\<lambda>v. sy_binding (f v) \<noteq> 0 \<and> sy_name (f v) = n) ps"

definition definitions :: "(nat \<times> nat \<Rightarrow> ccwld_isym) \<Rightarrow> string \<Rightarrow> (nat \<times> nat) list \<Rightarrow> (nat \<times> nat) list" where
  "definitions f n ps = filter (\<lambda>v. sy_shndx (f v) \<noteq> 0) (mentions f n ps)"

definition strong_definitions :: "(nat \<times> nat \<Rightarrow> ccwld_isym) \<Rightarrow> string \<Rightarrow> (nat \<times> nat) list \<Rightarrow> (nat \<times> nat) list" where
  "strong_definitions f n ps = filter (\<lambda>v. sy_binding (f v) \<noteq> 2) (definitions f n ps)"

definition chosen :: "(nat \<times> nat \<Rightarrow> ccwld_isym) \<Rightarrow> string \<Rightarrow> (nat \<times> nat) list \<Rightarrow> (nat \<times> nat) option" where
  "chosen f n ps =
     (case strong_definitions f n ps @ definitions f n ps of [] \<Rightarrow> None | v # _ \<Rightarrow> Some v)"

definition resolved_as :: "(nat \<times> nat \<Rightarrow> ccwld_isym) \<Rightarrow> (nat \<times> nat) list \<Rightarrow> string \<Rightarrow> ccwld_rsym option \<Rightarrow> bool" where
  "resolved_as f ps n ro =
     (case ro of
        None \<Rightarrow> mentions f n ps = []
      | Some r \<Rightarrow>
          rs_referenced r = (mentions f n ps \<noteq> []) \<and> \<not> rs_from_script r
          \<and> (case chosen f n ps of
                None \<Rightarrow> \<not> rs_defined r \<and> \<not> rs_weak r
              | Some v \<Rightarrow> rs_defined r \<and> rs_obj r = int (fst v) \<and> rs_isym r = int (snd v) \<and> rs_weak r = (sy_binding (f v) = 2)))"

text \<open>The table after merging \<open>ps\<close>, none of whose names is strongly defined twice.\<close>

definition table_ok :: "(nat \<times> nat \<Rightarrow> ccwld_isym) \<Rightarrow> (nat \<times> nat) list \<Rightarrow> ccwld_state \<Rightarrow> bool" where
  "table_ok f ps st =
     (distinct_names st
      \<and> (\<forall>n. n \<noteq> [] \<longrightarrow> resolved_as f ps n (rsym_of st n) \<and> length (strong_definitions f n ps) \<le> 1))"

lemma table_okD:
  "table_ok f ps st \<Longrightarrow> n \<noteq> [] \<Longrightarrow> resolved_as f ps n (rsym_of st n)"
  "table_ok f ps st \<Longrightarrow> distinct_names st"
  "table_ok f ps st \<Longrightarrow> n \<noteq> [] \<Longrightarrow> length (strong_definitions f n ps) \<le> 1"
  by (auto simp: table_ok_def)

lemmas chosen_defs = mentions_def definitions_def strong_definitions_def chosen_def

lemma chosen_snoc_other:
  "sy_binding (f v) = 0 \<or> sy_name (f v) \<noteq> n \<Longrightarrow> mentions f n (ps @ [v]) = mentions f n ps \<and> chosen f n (ps @ [v]) = chosen f n ps
     \<and> strong_definitions f n (ps @ [v]) = strong_definitions f n ps"
  by (auto simp: chosen_defs)

lemma chosen_snoc_reference:
  "sy_shndx (f v) = 0 \<Longrightarrow> chosen f n (ps @ [v]) = chosen f n ps \<and> strong_definitions f n (ps @ [v]) = strong_definitions f n ps"
  by (auto simp: chosen_defs)

lemma resolved_as_other:
  "sy_binding (f v) = 0 \<or> sy_name (f v) \<noteq> n \<Longrightarrow> resolved_as f (ps @ [v]) n ro = resolved_as f ps n ro"
  using chosen_snoc_other [of f v n ps] by (simp add: resolved_as_def split: option.splits)

text \<open>A new definition \<open>v\<close> of \<open>n\<close> takes the place of nothing or of a weak one.\<close>

lemma chosen_snoc_definition:
  assumes "sy_binding (f v) \<noteq> 0" "sy_name (f v) = n" "sy_shndx (f v) \<noteq> 0"
  shows "chosen f n (ps @ [v]) =
    (case chosen f n ps of
       None \<Rightarrow> Some v
     | Some w \<Rightarrow> if sy_binding (f w) = 2 \<and> sy_binding (f v) \<noteq> 2 then Some v else Some w)"
    "strong_definitions f n (ps @ [v]) = strong_definitions f n ps @ (if sy_binding (f v) = 2 then [] else [v])"
proof -
  have s: "w \<in> set (strong_definitions f n ps) \<Longrightarrow> sy_binding (f w) \<noteq> 2" for w by (auto simp: chosen_defs)
  have d: "strong_definitions f n ps = [] \<Longrightarrow> w \<in> set (definitions f n ps) \<Longrightarrow> sy_binding (f w) = 2" for w
    by (auto simp: strong_definitions_def filter_empty_conv)
  have e: "definitions f n ps = [] \<Longrightarrow> strong_definitions f n ps = []" by (simp add: strong_definitions_def)
  have eqs: "definitions f n (ps @ [v]) = definitions f n ps @ [v]"
    "strong_definitions f n (ps @ [v]) = strong_definitions f n ps @ (if sy_binding (f v) = 2 then [] else [v])"
    using assms by (auto simp: chosen_defs)
  show "strong_definitions f n (ps @ [v]) = strong_definitions f n ps @ (if sy_binding (f v) = 2 then [] else [v])" by (fact eqs)
  show "chosen f n (ps @ [v]) =
    (case chosen f n ps of
       None \<Rightarrow> Some v
     | Some w \<Rightarrow> if sy_binding (f w) = 2 \<and> sy_binding (f v) \<noteq> 2 then Some v else Some w)"
    using e s d by (cases "strong_definitions f n ps"; cases "definitions f n ps") (auto simp: chosen_def eqs)
qed

lemma chosen_strong:
  "chosen f n ps = Some v \<Longrightarrow> sy_binding (f v) \<noteq> 2 \<longleftrightarrow> strong_definitions f n ps \<noteq> []"
  "chosen f n ps = None \<longleftrightarrow> definitions f n ps = []"
  "chosen f n ps = Some v \<Longrightarrow> v \<in> set ps \<and> sy_binding (f v) \<noteq> 0 \<and> sy_name (f v) = n \<and> sy_shndx (f v) \<noteq> 0"
proof -
  have s: "w \<in> set (strong_definitions f n ps) \<Longrightarrow> sy_binding (f w) \<noteq> 2 \<and> w \<in> set (definitions f n ps)" for w
    by (auto simp: strong_definitions_def)
  have d: "strong_definitions f n ps = [] \<Longrightarrow> w \<in> set (definitions f n ps) \<Longrightarrow> sy_binding (f w) = 2" for w
    by (auto simp: strong_definitions_def filter_empty_conv)
  have m: "w \<in> set (definitions f n ps) \<Longrightarrow> w \<in> set ps \<and> sy_binding (f w) \<noteq> 0 \<and> sy_name (f w) = n \<and> sy_shndx (f w) \<noteq> 0" for w
    by (auto simp: definitions_def mentions_def)
  show "chosen f n ps = Some v \<Longrightarrow> sy_binding (f v) \<noteq> 2 \<longleftrightarrow> strong_definitions f n ps \<noteq> []"
    using s d by (cases "strong_definitions f n ps"; cases "definitions f n ps") (auto simp: chosen_def)
  show "chosen f n ps = None \<longleftrightarrow> definitions f n ps = []"
    using s by (cases "strong_definitions f n ps"; cases "definitions f n ps") (auto simp: chosen_def)
  show "chosen f n ps = Some v \<Longrightarrow> v \<in> set ps \<and> sy_binding (f v) \<noteq> 0 \<and> sy_name (f v) = n \<and> sy_shndx (f v) \<noteq> 0"
    using s m by (cases "strong_definitions f n ps"; cases "definitions f n ps") (auto simp: chosen_def)
qed

section \<open>Merging one symbol\<close>

lemma table_ok_other:
  assumes "table_ok f ps st" "sy_binding (f v) = 0 \<or> sy_name (f v) = []"
  shows "table_ok f (ps @ [v]) st"
  unfolding table_ok_def
proof (intro conjI allI impI)
  fix n :: string
  assume n: "n \<noteq> []"
  then have o: "sy_binding (f v) = 0 \<or> sy_name (f v) \<noteq> n" using assms(2) by auto
  from chosen_snoc_other [of f v n ps, OF o] resolved_as_other [of f v n ps, OF o] table_okD [OF assms(1)] n
  show "resolved_as f (ps @ [v]) n (rsym_of st n)" "length (strong_definitions f n (ps @ [v])) \<le> 1" by simp_all
qed (use table_okD [OF assms(1)] in simp)

text \<open>What has to be shown of a table in which only the entry of \<open>f v\<close>'s name is new.\<close>

lemma table_ok_entry:
  assumes "table_ok f ps st" "distinct_names st'" "sy_name (f v) = n" "n \<noteq> []"
    and "\<And>m. rsym_of st' m = (if m = n then Some r else rsym_of st m)"
    and "resolved_as f (ps @ [v]) n (Some r)" "length (strong_definitions f n (ps @ [v])) \<le> 1"
  shows "table_ok f (ps @ [v]) st'"
  unfolding table_ok_def
proof (intro conjI allI impI)
  fix m :: string
  assume m: "m \<noteq> []"
  show "resolved_as f (ps @ [v]) m (rsym_of st' m)"
    using assms(3,5,6) resolved_as_other [of f v m ps] table_okD(1) [OF assms(1) m] by (cases "m = n") auto
  show "length (strong_definitions f m (ps @ [v])) \<le> 1"
    using assms(3,7) chosen_snoc_other [of f v m ps] table_okD(3) [OF assms(1) m] by (cases "m = n") auto
qed (use assms in simp)

text \<open>The entry that a name has, interned if necessary.\<close>

definition entry_of :: "ccwld_state \<Rightarrow> string \<Rightarrow> ccwld_rsym" where
  "entry_of st n = (case rsym_of st n of Some r \<Rightarrow> r | None \<Rightarrow> new_rsym n)"

lemma unmentioned: "mentions f n ps = [] \<Longrightarrow> chosen f n ps = None"
  by (simp add: chosen_defs)

lemma entry_resolved:
  assumes "resolved_as f ps n (rsym_of st n)"
  shows "\<not> rs_from_script (entry_of st n)"
    "case chosen f n ps of
       None \<Rightarrow> \<not> rs_defined (entry_of st n) \<and> \<not> rs_weak (entry_of st n)
     | Some v \<Rightarrow> rs_defined (entry_of st n) \<and> rs_obj (entry_of st n) = int (fst v) \<and> rs_isym (entry_of st n) = int (snd v)
         \<and> rs_weak (entry_of st n) = (sy_binding (f v) = 2)"
proof -
  note unmentioned [of f n ps]
  then show "\<not> rs_from_script (entry_of st n)"
    "case chosen f n ps of
       None \<Rightarrow> \<not> rs_defined (entry_of st n) \<and> \<not> rs_weak (entry_of st n)
     | Some v \<Rightarrow> rs_defined (entry_of st n) \<and> rs_obj (entry_of st n) = int (fst v) \<and> rs_isym (entry_of st n) = int (snd v)
         \<and> rs_weak (entry_of st n) = (sy_binding (f v) = 2)"
    using assms by (auto simp: resolved_as_def entry_of_def new_rsym_def split: option.splits)
qed

lemma intern_update:
  assumes "distinct_names st" "ccwld_state_rsym st n = (st1, i)" "\<And>r. rs_name (g r) = rs_name r"
  shows "distinct_names (upd_rsym i g st1)" "st_rsyms (upd_rsym i g st1) ! i = g (entry_of st n)"
    "i < length (st_rsyms (upd_rsym i g st1))" "rs_name (entry_of st n) = n"
    "\<And>m. rsym_of (upd_rsym i g st1) m = (if m = n then Some (g (entry_of st n)) else rsym_of st m)"
    "upd_rsym i g st1 = st\<lparr>st_rsyms := st_rsyms (upd_rsym i g st1)\<rparr>"
proof -
  note i = intern [OF assms(1,2)]
  have e: "st_rsyms st1 ! i = entry_of st n" using i(6) by (simp add: entry_of_def)
  note u = update [OF i(1,2), of g, OF assms(3)]
  show "distinct_names (upd_rsym i g st1)" "st_rsyms (upd_rsym i g st1) ! i = g (entry_of st n)"
    "i < length (st_rsyms (upd_rsym i g st1))" "rs_name (entry_of st n) = n"
    "\<And>m. rsym_of (upd_rsym i g st1) m = (if m = n then Some (g (entry_of st n)) else rsym_of st m)"
    using u i(2,3,5) e by auto
  show "upd_rsym i g st1 = st\<lparr>st_rsyms := st_rsyms (upd_rsym i g st1)\<rparr>"
    using i(4) by (cases st; cases st1) (simp add: upd_rsym_def)
qed

lemma define_rsym_name [simp]: "rs_name (define_rsym oi k s r) = rs_name r"
  by (simp add: define_rsym_def Let_def)

lemma merge_sym_step:
  assumes t: "table_ok f ps st" and f: "f (oi, k) = ob_syms (st_objs st ! oi) ! k"
  shows "case merge_sym oi k st of
      (st', None) \<Rightarrow> table_ok f (ps @ [(oi, k)]) st' \<and> st' = st\<lparr>st_rsyms := st_rsyms st'\<rparr>
    | (st', Some e) \<Rightarrow> \<exists>w. sy_name (f (oi, k)) \<noteq> [] \<and> strong_definitions f (sy_name (f (oi, k))) (ps @ [(oi, k)]) = [w, (oi, k)]
        \<and> e = ccwld_error_set CCWLD_EXIT_LINK (duplicate_text (sy_name (f (oi, k))) (obj_path st (int (fst w))) (ob_path (st_objs st ! oi)))"
proof -
  let ?v = "(oi, k)"
  let ?s = "f ?v"
  let ?n = "sy_name ?s"
  let ?r = "(entry_of st ?n)\<lparr>rs_referenced := True\<rparr>"
  show ?thesis
  proof (cases "sy_binding ?s = 0 \<or> ?n = []")
    case True
    then show ?thesis using table_ok_other [OF t True] f by (simp add: merge_sym_def Let_def)
  next
    case named: False
    obtain st1 i where i: "ccwld_state_rsym st ?n = (st1, i)" by fastforce
    define st2 where "st2 = upd_rsym i (\<lambda>r. r\<lparr>rs_referenced := True\<rparr>) st1"
    note u = intern_update [OF table_okD(2) [OF t] i, of "\<lambda>r. r\<lparr>rs_referenced := True\<rparr>", simplified, folded st2_def]
    have n: "?n \<noteq> []" using named by simp
    note e = entry_resolved [OF table_okD(1) [OF t n]]
    have frame: "st2 = st\<lparr>st_rsyms := st_rsyms st2\<rparr>" by (rule u(6))
    then have paths: "obj_path st2 j = obj_path st j" "st_objs st2 = st_objs st" for j by (metis ccwld_state.select_convs(3) ccwld_state.surjective ccwld_state.update_convs(4) obj_path_def)+
    have m: "mentions f ?n (ps @ [?v]) \<noteq> []" using named by (simp add: mentions_def)
    have same: "table_ok f (ps @ [?v]) st2"
      if "chosen f ?n (ps @ [?v]) = chosen f ?n ps" "length (strong_definitions f ?n (ps @ [?v])) \<le> 1"
      by (rule table_ok_entry [OF t u(1) refl _ u(5)]) (use that n m e in \<open>simp_all add: resolved_as_def split: option.splits\<close>)
    have unfold: "merge_sym oi k st =
       (if sy_shndx ?s = 0 then (st2, None)
        else if rs_defined ?r \<and> \<not> rs_weak ?r \<and> sy_binding ?s \<noteq> 2 then
          (let msg = duplicate_text ?n (obj_path st2 (rs_obj ?r)) (ob_path (st_objs st2 ! oi))
           in (ccwld_diag_error CCWLD_EXIT_LINK None None msg st2, Some (ccwld_error_set CCWLD_EXIT_LINK msg)))
        else if rs_defined ?r \<and> (\<not> rs_weak ?r \<or> sy_binding ?s = 2) then (st2, None)
        else (upd_rsym i (define_rsym oi k ?s) st2, None))"
      using named i f u(2) e(1) by (simp add: merge_sym_def st2_def Let_def)
    consider (reference) "sy_shndx ?s = 0"
      | (duplicate) w where "sy_shndx ?s \<noteq> 0" "chosen f ?n ps = Some w" "sy_binding (f w) \<noteq> 2" "sy_binding ?s \<noteq> 2"
      | (kept) w where "sy_shndx ?s \<noteq> 0" "chosen f ?n ps = Some w" "sy_binding ?s = 2"
      | (taken) "sy_shndx ?s \<noteq> 0" "chosen f ?n ps = None \<or> (\<exists>w. chosen f ?n ps = Some w \<and> sy_binding (f w) = 2 \<and> sy_binding ?s \<noteq> 2)"
      by (cases "chosen f ?n ps") auto
    then show ?thesis
    proof cases
      case reference
      with chosen_snoc_reference [of f ?v ?n ps] same table_okD(3) [OF t, of ?n] named frame unfold show ?thesis by simp
    next
      case (duplicate w)
      have s: "strong_definitions f ?n ps = [w]"
        using chosen_strong(1) [OF duplicate(2)] duplicate(2,3) table_okD(3) [OF t, of ?n] named
        by (cases "strong_definitions f ?n ps") (auto simp: chosen_def)
      have "rs_defined ?r \<and> \<not> rs_weak ?r \<and> rs_obj ?r = int (fst w)" using e(2) named duplicate by simp
      then have "merge_sym oi k st = (ccwld_diag_error CCWLD_EXIT_LINK None None (duplicate_text ?n (obj_path st (int (fst w))) (ob_path (st_objs st ! oi))) st2,
          Some (ccwld_error_set CCWLD_EXIT_LINK (duplicate_text ?n (obj_path st (int (fst w))) (ob_path (st_objs st ! oi)))))"
        using unfold duplicate paths by (simp add: Let_def)
      moreover have "strong_definitions f ?n (ps @ [?v]) = [w, ?v]"
        using chosen_snoc_definition(2) [of f ?v ?n ps] named duplicate s by simp
      ultimately show ?thesis using named by simp
    next
      case (kept w)
      have "rs_defined ?r" using e(2) named kept by simp
      then have "merge_sym oi k st = (st2, None)" using unfold kept by simp
      moreover have "table_ok f (ps @ [?v]) st2"
        by (rule same) (use chosen_snoc_definition [of f ?v ?n ps] named kept table_okD(3) [OF t, of ?n] in auto)
      ultimately show ?thesis using frame by simp
    next
      case taken
      let ?st3 = "upd_rsym i (define_rsym oi k ?s) st2"
      have "\<not> rs_defined ?r \<or> rs_weak ?r \<and> sy_binding ?s \<noteq> 2" using e(2) named taken by auto
      then have eq: "merge_sym oi k st = (?st3, None)" using unfold taken by auto
      have u3: "distinct_names ?st3" "\<And>x. rsym_of ?st3 x = (if x = ?n then Some (define_rsym oi k ?s ?r) else rsym_of st x)"
        using update [OF u(1,3), of "define_rsym oi k ?s"] u(2,4,5) by auto
      have "table_ok f (ps @ [?v]) ?st3"
      proof (rule table_ok_entry [OF t u3(1) refl _ u3(2)])
        show "?n \<noteq> []" using named by simp
        have c: "chosen f ?n (ps @ [?v]) = Some ?v" using chosen_snoc_definition(1) [of f ?v ?n ps] named taken by auto
        then show "resolved_as f (ps @ [?v]) ?n (Some (define_rsym oi k ?s ?r))"
          using m by (simp add: resolved_as_def define_rsym_def Let_def)
        have "strong_definitions f ?n ps = [] \<or> sy_binding ?s = 2"
          using taken chosen_strong(1) [of f ?n ps] chosen_strong(2) [of f ?n ps] by (auto simp: strong_definitions_def)
        then show "length (strong_definitions f ?n (ps @ [?v])) \<le> 1"
          using chosen_snoc_definition(2) [of f ?v ?n ps] named taken table_okD(3) [OF t, of ?n] by auto
      qed
      moreover have "?st3 = st\<lparr>st_rsyms := st_rsyms ?st3\<rparr>" using frame by (cases st; cases st2) (simp add: upd_rsym_def)
      ultimately show ?thesis using eq by simp
    qed
  qed
qed

end
