(* ===== verification/Ccwld_Load_Proof.thy ===== *)
theory Ccwld_Load_Proof
  imports Ccwld_Load
begin

text \<open>
  What the loader makes of an object: which of its fields each part of the loader touches, that section
  indices denote the sections of their headers, and when it reads behind its memory.
\<close>

section \<open>Fields\<close>

lemma load_sym_fields [simp]:
  "ob_kind (load_sym sh shstr strtab s ob) = ob_kind ob" "ob_secs (load_sym sh shstr strtab s ob) = ob_secs ob"
  "ob_relocs (load_sym sh shstr strtab s ob) = ob_relocs ob" "ob_path (load_sym sh shstr strtab s ob) = ob_path ob"
  "ob_machine (load_sym sh shstr strtab s ob) = ob_machine ob" "ob_is_dso (load_sym sh shstr strtab s ob) = ob_is_dso ob"
  "ob_is_lto (load_sym sh shstr strtab s ob) = ob_is_lto ob"
  by (simp_all add: load_sym_def obj_add_sym_def Let_def)

lemma load_syms_fields [simp]:
  "ob_kind (load_syms b sh shstr strtab off n k ob) = ob_kind ob" "ob_secs (load_syms b sh shstr strtab off n k ob) = ob_secs ob"
  "ob_relocs (load_syms b sh shstr strtab off n k ob) = ob_relocs ob"
  "ob_path (load_syms b sh shstr strtab off n k ob) = ob_path ob"
  "ob_machine (load_syms b sh shstr strtab off n k ob) = ob_machine ob"
  "ob_is_dso (load_syms b sh shstr strtab off n k ob) = ob_is_dso ob"
  "ob_is_lto (load_syms b sh shstr strtab off n k ob) = ob_is_lto ob"
  by (induction n arbitrary: k ob) (simp_all split: option.split)

lemma load_symtab_fields [simp]:
  "ob_kind (load_symtab b sh shstr wants ob) = ob_kind ob" "ob_secs (load_symtab b sh shstr wants ob) = ob_secs ob"
  "ob_relocs (load_symtab b sh shstr wants ob) = ob_relocs ob" "ob_path (load_symtab b sh shstr wants ob) = ob_path ob"
  "ob_machine (load_symtab b sh shstr wants ob) = ob_machine ob" "ob_is_dso (load_symtab b sh shstr wants ob) = ob_is_dso ob"
  "ob_is_lto (load_symtab b sh shstr wants ob) = ob_is_lto ob"
  by (induction wants) (simp_all split: option.split)

lemma load_rela_fields [simp]:
  "ob_kind (load_rela b t symsh strtab off n k ob) = ob_kind ob" "ob_secs (load_rela b t symsh strtab off n k ob) = ob_secs ob"
  "ob_syms (load_rela b t symsh strtab off n k ob) = ob_syms ob" "ob_path (load_rela b t symsh strtab off n k ob) = ob_path ob"
  "ob_machine (load_rela b t symsh strtab off n k ob) = ob_machine ob"
  "ob_is_dso (load_rela b t symsh strtab off n k ob) = ob_is_dso ob" "ob_is_lto (load_rela b t symsh strtab off n k ob) = ob_is_lto ob"
  by (induction n arbitrary: k ob) (simp_all add: Let_def obj_add_reloc_def split: option.split)

lemma load_relocs_fields [simp]:
  "ob_kind (load_relocs b sh shstr h ob) = ob_kind ob" "ob_secs (load_relocs b sh shstr h ob) = ob_secs ob"
  "ob_syms (load_relocs b sh shstr h ob) = ob_syms ob" "ob_path (load_relocs b sh shstr h ob) = ob_path ob"
  "ob_machine (load_relocs b sh shstr h ob) = ob_machine ob" "ob_is_dso (load_relocs b sh shstr h ob) = ob_is_dso ob"
  "ob_is_lto (load_relocs b sh shstr h ob) = ob_is_lto ob"
  by (simp_all add: load_relocs_def Let_def split: option.split)

lemma fold_relocs_fields [simp]:
  "ob_kind (fold (load_relocs b sh shstr) hs ob) = ob_kind ob" "ob_secs (fold (load_relocs b sh shstr) hs ob) = ob_secs ob"
  "ob_syms (fold (load_relocs b sh shstr) hs ob) = ob_syms ob" "ob_path (fold (load_relocs b sh shstr) hs ob) = ob_path ob"
  "ob_machine (fold (load_relocs b sh shstr) hs ob) = ob_machine ob"
  "ob_is_dso (fold (load_relocs b sh shstr) hs ob) = ob_is_dso ob" "ob_is_lto (fold (load_relocs b sh shstr) hs ob) = ob_is_lto ob"
  by (induction hs arbitrary: ob) simp_all

section \<open>Sections\<close>

text \<open>The section of a content header, and when its data lie behind the memory.\<close>

definition behind :: "8 word list \<Rightarrow> nat \<Rightarrow> 8 word list \<Rightarrow> E64_Shdr \<Rightarrow> bool" where
  "behind block len shstr h =
     (\<not> is_metadata (sh_type h)
      \<and> (unat (sh_name h) > length shstr
         \<or> shdr_name shstr h \<noteq> [] \<and> unat (sh_offset h) \<le> len \<and> sh_size h \<noteq> 0 \<and> sh_type h \<noteq> SHT_NOBITS
           \<and> unat (sh_size h) > length block - unat (sh_offset h)))"

definition content_isec :: "8 word list \<Rightarrow> nat \<Rightarrow> 8 word list \<Rightarrow> E64_Shdr \<Rightarrow> ccwld_isec" where
  "content_isec block len shstr h =
     \<lparr>is_name = shdr_name shstr h,
      is_data = (if unat (sh_offset h) \<le> len \<and> sh_size h \<noteq> 0 \<and> sh_type h \<noteq> SHT_NOBITS
                 then Some (take (unat (sh_size h)) (drop (unat (sh_offset h)) block)) else None),
      is_size = sh_size h, is_align = if sh_addralign h \<noteq> 0 then sh_addralign h else 1, is_flags = sh_flags h,
      is_type = sh_type h, is_live = 1, is_placed = False, is_out_sec = -1, is_out_off = 0, is_root = False\<rparr>"

lemma load_secs_result:
  "case load_secs block len shstr hs ob of
     None \<Rightarrow> \<exists>h \<in> set hs. behind block len shstr h
   | Some ob' \<Rightarrow> \<not> (\<exists>h \<in> set hs. behind block len shstr h)
       \<and> ob_secs ob' = ob_secs ob @ map (content_isec block len shstr) (filter (shdr_content shstr) hs)
       \<and> ob_path ob' = ob_path ob \<and> ob_kind ob' = ob_kind ob \<and> ob_machine ob' = ob_machine ob \<and> ob_is_dso ob' = ob_is_dso ob
       \<and> ob_syms ob' = ob_syms ob \<and> ob_relocs ob' = ob_relocs ob
       \<and> ob_is_lto ob' = (ob_is_lto ob \<or> (\<exists>h \<in> set hs. shdr_content shstr h \<and> shdr_name shstr h = ''.ccw.lto''))"
proof (induction hs arbitrary: ob)
  case (Cons h hs)
  consider (name) "\<not> is_metadata (sh_type h)" "unat (sh_name h) > length shstr"
    | (skip) "\<not> shdr_content shstr h" "\<not> behind block len shstr h" "is_metadata (sh_type h) \<or> unat (sh_name h) \<le> length shstr"
    | (content) "shdr_content shstr h" "unat (sh_name h) \<le> length shstr"
    by (cases "is_metadata (sh_type h)"; cases "shdr_name shstr h = []"; cases "unat (sh_name h) > length shstr")
      (auto simp: behind_def shdr_content_def sec_materialized_def)
  then show ?case
  proof cases
    case name
    then have "behind block len shstr h" by (simp add: behind_def)
    with name show ?thesis by simp
  next
    case skip
    have eq: "load_secs block len shstr (h # hs) ob = load_secs block len shstr hs ob" using skip by auto
    have f: "filter (shdr_content shstr) (h # hs) = filter (shdr_content shstr) hs" using skip by simp
    show ?thesis unfolding eq f using Cons.IH [of ob] skip(1,2) by (cases "load_secs block len shstr hs ob") auto
  next
    case content
    have m: "\<not> is_metadata (sh_type h)" "shdr_name shstr h \<noteq> []" using content(1) by (simp_all add: shdr_content_def sec_materialized_def)
    let ?add = "obj_add_sec ob (shdr_name shstr h)
                (if unat (sh_offset h) \<le> len then Some (drop (unat (sh_offset h)) block) else None)
                (sh_size h) (sh_addralign h) (sh_flags h) (sh_type h)"
    have add: "?add = (if behind block len shstr h then None else Some (ob\<lparr>ob_secs := ob_secs ob @ [content_isec block len shstr h]\<rparr>))"
      using m content(2) by (auto simp: obj_add_sec_def behind_def content_isec_def Let_def)
    show ?thesis
    proof (cases "behind block len shstr h")
      case True
      then have "load_secs block len shstr (h # hs) ob = None" using add content m by simp
      with True show ?thesis by simp
    next
      case False
      define ob1 where "ob1 = (let o1 = ob\<lparr>ob_secs := ob_secs ob @ [content_isec block len shstr h]\<rparr>
        in if shdr_name shstr h = ''.ccw.lto'' then o1\<lparr>ob_is_lto := True\<rparr> else o1)"
      have eq: "load_secs block len shstr (h # hs) ob = load_secs block len shstr hs ob1"
        using add False content m by (simp add: ob1_def Let_def)
      have s: "ob_secs ob1 = ob_secs ob @ [content_isec block len shstr h]"
        "ob_is_lto ob1 = (ob_is_lto ob \<or> shdr_name shstr h = ''.ccw.lto'')"
        "ob_path ob1 = ob_path ob" "ob_kind ob1 = ob_kind ob" "ob_machine ob1 = ob_machine ob" "ob_is_dso ob1 = ob_is_dso ob"
        "ob_syms ob1 = ob_syms ob" "ob_relocs ob1 = ob_relocs ob"
        by (auto simp: ob1_def Let_def)
      from Cons.IH [of ob1] show ?thesis unfolding eq s using False content by (cases "load_secs block len shstr hs ob1") auto
    qed
  qed
qed simp

lemma load_contents_result:
  "case load_contents block len sh shstr i ob of
     None \<Rightarrow> \<exists>h \<in> set sh. behind block len shstr h
   | Some ob' \<Rightarrow> \<not> (\<exists>h \<in> set sh. behind block len shstr h)
       \<and> ob_secs ob' = ob_secs ob @ map (content_isec block len shstr) (filter (shdr_content shstr) sh)
       \<and> ob_path ob' = ob_path ob \<and> ob_machine ob' = ob_machine ob \<and> ob_is_dso ob' = ob_is_dso ob
       \<and> ob_kind ob' \<in> {ob_kind ob, ''lto-module''}"
  using load_secs_result [where block = block and len = len and shstr = shstr and hs = sh and ob = ob]
  by (cases "load_secs block len shstr sh ob") (auto simp: load_contents_def Let_def simp del: load_symtab.simps)

text \<open>The section of a content header is the one its index is mapped to.\<close>

lemma filter_take_nth:
  "i < length xs \<Longrightarrow> P (xs ! i) \<Longrightarrow> length (filter P (take i xs)) < length (filter P xs)
     \<and> filter P xs ! length (filter P (take i xs)) = xs ! i"
proof (induction xs arbitrary: i)
  case (Cons x xs)
  then show ?case by (cases i) auto
qed simp

lemma map_shndx_content:
  assumes "0 < i" "i < length sh" "shdr_content shstr (sh ! i)"
  shows "0 \<le> map_shndx sh shstr (int i)" "nat (map_shndx sh shstr (int i)) < length (filter (shdr_content shstr) sh)"
    "filter (shdr_content shstr) sh ! nat (map_shndx sh shstr (int i)) = sh ! i"
  using filter_take_nth [of i sh "shdr_content shstr"] assms by (simp_all add: map_shndx_def)

section \<open>A loaded object\<close>

lemma load_elf_adds:
  assumes "ccwld_load_elf_mem path block len st = Some (st1, None)"
  shows "\<exists>ob. st1 = st\<lparr>st_objs := st_objs st @ [ob]\<rparr> \<and> ob_kind ob \<noteq> ''archive''"
proof -
  obtain ob eh sh shstr where c: "load_contents block len sh shstr (length (st_objs st)) (elf_object path (e_type eh = ET_DYN) eh) = Some ob"
    and s: "st1 = ccwld_state_add_obj ob st"
    using assms unfolding ccwld_load_elf_mem_def by (auto simp: Let_def split: option.splits if_splits sum.splits)
  have "ob_kind ob \<noteq> ''archive''"
    using load_contents_result [where block = block and len = len and sh = sh and shstr = shstr and i = "length (st_objs st)"
      and ob = "elf_object path (e_type eh = ET_DYN) eh"] c
    by (auto simp: elf_object_def new_obj_def)
  with s show ?thesis by (auto simp: ccwld_state_add_obj_def)
qed

text \<open>The header, the section headers and the section names of an object that the loader accepts.\<close>

definition elf_headers :: "8 word list \<Rightarrow> (E64_Ehdr \<times> E64_Shdr list \<times> 8 word list) option" where
  "elf_headers b = do {
     eh \<leftarrow> read_ehdr b;
     sh \<leftarrow> (if e_shentsize eh = 64 \<and> (e_type eh = ET_REL \<or> e_type eh = ET_DYN) \<and> e_shnum eh \<noteq> 0 \<and> e_shoff eh \<noteq> 0
            then (case read_shdrs b (e_shoff eh) [0..<unat (e_shnum eh)] of Inl i \<Rightarrow> None | Inr sh \<Rightarrow> Some sh) else None);
     shstr \<leftarrow> (if unat (e_shstrndx eh) < length sh
               then rd_strtab b (sh_offset (sh ! unat (e_shstrndx eh))) (sh_size (sh ! unat (e_shstrndx eh))) else None);
     Some (eh, sh, shstr) }"

lemma load_elf_headers:
  "case elf_headers (take len block) of
     None \<Rightarrow> \<exists>st' e. ccwld_load_elf_mem path block len st = Some (st', Some e)
   | Some (eh, sh, shstr) \<Rightarrow> ccwld_load_elf_mem path block len st =
       map_option (\<lambda>ob. (ccwld_state_add_obj ob st, None))
         (load_contents block len sh shstr (length (st_objs st)) (elf_object path (e_type eh = ET_DYN) eh))"
  unfolding elf_headers_def ccwld_load_elf_mem_def
  by (auto simp: Let_def split: option.splits sum.splits if_splits)

section \<open>Section numbers of symbols and relocations\<close>

lemma map_shndx_range:
  "- 1 \<le> map_shndx sh shstr k" "map_shndx sh shstr k \<le> int (length (filter (shdr_content shstr) sh))"
proof -
  have "length (filter P (take n xs)) \<le> length (filter P xs)" for n P and xs :: "E64_Shdr list"
    using append_take_drop_id [of n xs] by (metis filter_append le_add1 length_append)
  then show "- 1 \<le> map_shndx sh shstr k" "map_shndx sh shstr k \<le> int (length (filter (shdr_content shstr) sh))"
    by (auto simp: map_shndx_def)
qed

definition syms_within :: "nat \<Rightarrow> ccwld_obj \<Rightarrow> bool" where
  "syms_within n ob = list_all (\<lambda>s. - 1 \<le> sy_shndx s \<and> sy_shndx s \<le> int n + 1) (ob_syms ob)"

definition relocs_within :: "nat \<Rightarrow> ccwld_obj \<Rightarrow> bool" where
  "relocs_within n ob = list_all (\<lambda>r. 0 \<le> rl_sec r \<and> rl_sec r \<le> int n) (ob_relocs ob)"

lemma load_syms_within:
  assumes "n = length (filter (shdr_content shstr) sh)"
  shows "syms_within n ob \<Longrightarrow> syms_within n (load_syms b sh shstr strtab off c k ob)"
proof (induction c arbitrary: k ob)
  case (Suc c)
  have "syms_within n (load_sym sh shstr strtab s ob)" for s
    using Suc.prems map_shndx_range [of sh shstr] assms
    by (auto simp: load_sym_def sym_section_def syms_within_def obj_add_sym_def Let_def)
  with Suc show ?case by (simp split: option.split)
qed simp

lemma load_symtab_within:
  "n = length (filter (shdr_content shstr) sh) \<Longrightarrow> syms_within n ob \<Longrightarrow> syms_within n (load_symtab b sh shstr wants ob)"
  by (induction wants) (auto split: option.split intro: load_syms_within)

lemma load_rela_within:
  "0 \<le> t \<Longrightarrow> t \<le> int n \<Longrightarrow> relocs_within n ob \<Longrightarrow> relocs_within n (load_rela b t symsh strtab off c k ob)"
proof (induction c arbitrary: k ob)
  case (Suc c)
  have "relocs_within n (obj_add_reloc ob t x y z w)" for x y z w
    using Suc.prems by (simp add: relocs_within_def obj_add_reloc_def)
  with Suc show ?case by (simp add: Let_def split: option.split)
qed simp

lemma load_relocs_within:
  assumes "n = length (filter (shdr_content shstr) sh)"
  shows "relocs_within n ob \<Longrightarrow> relocs_within n (fold (load_relocs b sh shstr) hs ob)"
proof (induction hs arbitrary: ob)
  case (Cons h hs)
  have "relocs_within n (load_relocs b sh shstr h ob)"
    using Cons.prems map_shndx_range(2) [of sh shstr "sint (sh_info h)"] assms
    by (auto simp: load_relocs_def Let_def intro!: load_rela_within split: option.split)
  with Cons.IH show ?case by simp
qed simp

lemma load_contents_within:
  assumes "load_contents block len sh shstr i ob = Some ob'" "ob_syms ob = []" "ob_relocs ob = []"
  shows "syms_within (length (filter (shdr_content shstr) sh)) ob'" "relocs_within (length (filter (shdr_content shstr) sh)) ob'"
    "list_all (\<lambda>s. sy_obj s = int i) (ob_syms ob')"
proof -
  let ?n = "length (filter (shdr_content shstr) sh)"
  let ?b = "take len block"
  obtain ob1 where l: "load_secs block len shstr sh ob = Some ob1" using assms(1) by (auto simp: load_contents_def split: option.splits)
  define ob2 where "ob2 = (if ob_is_lto ob1 then ob1\<lparr>ob_kind := ''lto-module''\<rparr> else ob1)"
  define ob3 where "ob3 = load_symtab ?b sh shstr [SHT_SYMTAB, SHT_DYNSYM] ob2"
  define ob4 where "ob4 = fold (load_relocs ?b sh shstr) sh ob3"
  have ob': "ob' = ob4\<lparr>ob_syms := map (\<lambda>s. s\<lparr>sy_obj := int i\<rparr>) (ob_syms ob4)\<rparr>"
    using assms(1) l by (simp add: load_contents_def Let_def ob2_def ob3_def ob4_def del: load_symtab.simps)
  have e: "ob_syms ob2 = []" "ob_relocs ob2 = []"
    using load_secs_result [where block = block and len = len and shstr = shstr and hs = sh and ob = ob] l assms(2,3) by (auto simp: ob2_def)
  have s: "syms_within ?n ob3" unfolding ob3_def by (rule load_symtab_within [OF refl]) (simp add: syms_within_def e)
  have r: "relocs_within ?n ob4" unfolding ob4_def
    by (rule load_relocs_within [OF refl]) (simp add: relocs_within_def ob3_def e del: load_symtab.simps)
  show "syms_within ?n ob'" using s by (simp add: ob' ob4_def syms_within_def list_all_iff)
  show "relocs_within ?n ob'" using r by (simp add: ob' relocs_within_def)
  show "list_all (\<lambda>s. sy_obj s = int i) (ob_syms ob')" by (simp add: ob' list_all_iff)
qed

end
