(* ===== verification/Ccwld_Resolve_Phase.thy ===== *)
theory Ccwld_Resolve_Phase
  imports Ccwld_Resolve_Proof Ccwld_Load_Proof
begin

text \<open>
  The table of resolved symbols along the resolve phase. Objects are merged in the order of their numbers,
  those extracted from archives after the inputs, so the merged symbols are those of all objects in order.
\<close>

section \<open>Merged symbols\<close>

definition isym_at :: "ccwld_state \<Rightarrow> nat \<times> nat \<Rightarrow> ccwld_isym" where
  "isym_at st v = ob_syms (st_objs st ! fst v) ! snd v"

definition obj_syms :: "ccwld_state \<Rightarrow> nat \<Rightarrow> (nat \<times> nat) list" where
  "obj_syms st i =
     (if ob_kind (st_objs st ! i) = ''archive'' then [] else map (Pair i) [0..<length (ob_syms (st_objs st ! i))])"

definition merged_syms :: "ccwld_state \<Rightarrow> (nat \<times> nat) list" where
  "merged_syms st = concat (map (obj_syms st) [0..<length (st_objs st)])"

text \<open>What the phase keeps of an object, and of the objects.\<close>

definition same_obj :: "ccwld_obj \<Rightarrow> ccwld_obj \<Rightarrow> bool" where
  "same_obj ob ob' =
     (ob_syms ob' = ob_syms ob \<and> ob_path ob' = ob_path ob \<and> ob_kind ob' = ob_kind ob \<and> ob_secs ob' = ob_secs ob
      \<and> ob_relocs ob' = ob_relocs ob)"

definition objs_kept :: "ccwld_state \<Rightarrow> ccwld_state \<Rightarrow> bool" where
  "objs_kept st st' =
     (length (st_objs st) \<le> length (st_objs st') \<and> st_plan st' = st_plan st
      \<and> (\<forall>i < length (st_objs st). same_obj (st_objs st ! i) (st_objs st' ! i)))"

lemma same_obj_refl [simp]: "same_obj ob ob"
  by (simp add: same_obj_def)

lemma objs_kept_refl [simp]: "objs_kept st st"
  by (simp add: objs_kept_def)

lemma objs_kept_trans: "objs_kept st st1 \<Longrightarrow> objs_kept st1 st2 \<Longrightarrow> objs_kept st st2"
  by (auto simp: objs_kept_def same_obj_def)

lemma objs_kept_rsyms: "st' = st\<lparr>st_rsyms := r\<rparr> \<Longrightarrow> objs_kept st st'"
  by (simp add: objs_kept_def)

lemma objs_kept_intern: "ccwld_state_rsym st n = (st1, i) \<Longrightarrow> objs_kept st st1 \<and> st_objs st1 = st_objs st"
  by (auto simp: ccwld_state_rsym_def objs_kept_def split: option.splits)

lemma objs_kept_upd_obj:
  "(\<And>ob. same_obj ob (g ob)) \<Longrightarrow> objs_kept st (upd_obj i g st)"
  by (cases "i < length (st_objs st)") (auto simp: objs_kept_def upd_obj_def nth_list_update)

lemma isym_at_kept: "objs_kept st st' \<Longrightarrow> fst v < length (st_objs st) \<Longrightarrow> isym_at st' v = isym_at st v"
  by (simp add: objs_kept_def isym_at_def same_obj_def)

lemma obj_syms_kept: "objs_kept st st' \<Longrightarrow> i < length (st_objs st) \<Longrightarrow> obj_syms st' i = obj_syms st i"
  by (simp add: objs_kept_def obj_syms_def same_obj_def)

lemma obj_syms_fst: "v \<in> set (obj_syms st i) \<Longrightarrow> fst v = i"
  by (auto simp: obj_syms_def split: if_splits)

lemma merged_syms_range: "v \<in> set (merged_syms st) \<Longrightarrow> fst v < length (st_objs st)"
  by (auto simp: merged_syms_def dest!: obj_syms_fst)

lemma merged_syms_kept:
  assumes "objs_kept st st'"
  shows "merged_syms st' = merged_syms st @ concat (map (obj_syms st') [length (st_objs st)..<length (st_objs st')])"
proof -
  have "[0..<length (st_objs st')] = [0..<length (st_objs st)] @ [length (st_objs st)..<length (st_objs st')]"
    using assms upt_add_eq_append [of 0 "length (st_objs st)" "length (st_objs st') - length (st_objs st)"] by (simp add: objs_kept_def)
  moreover have "map (obj_syms st') [0..<length (st_objs st)] = map (obj_syms st) [0..<length (st_objs st)]"
    by (rule map_cong [OF refl]) (use obj_syms_kept [OF assms] in simp)
  ultimately show ?thesis unfolding merged_syms_def by (metis concat_append map_append)
qed

section \<open>Congruence\<close>

lemma chosen_cong:
  assumes "\<And>v. v \<in> set ps \<Longrightarrow> f v = g v"
  shows "mentions f n ps = mentions g n ps" "definitions f n ps = definitions g n ps"
    "strong_definitions f n ps = strong_definitions g n ps" "chosen f n ps = chosen g n ps"
proof -
  show m: "mentions f n ps = mentions g n ps" unfolding mentions_def by (rule filter_cong [OF refl]) (simp add: assms)
  have "v \<in> set (mentions g n ps) \<Longrightarrow> f v = g v" for v using assms by (simp add: mentions_def)
  then show d: "definitions f n ps = definitions g n ps" unfolding definitions_def m by (intro filter_cong [OF refl]) simp
  have "v \<in> set (definitions g n ps) \<Longrightarrow> f v = g v" for v using assms by (simp add: mentions_def definitions_def)
  then show s: "strong_definitions f n ps = strong_definitions g n ps" unfolding strong_definitions_def d by (intro filter_cong [OF refl]) simp
  show "chosen f n ps = chosen g n ps" by (simp add: chosen_def d s)
qed

lemma resolved_as_cong:
  assumes "\<And>v. v \<in> set ps \<Longrightarrow> f v = g v"
  shows "resolved_as f ps n ro = resolved_as g ps n ro"
proof -
  have c: "mentions f n ps = mentions g n ps" "chosen f n ps = chosen g n ps" using chosen_cong [of ps f g] assms by blast+
  have "chosen g n ps = Some v \<Longrightarrow> f v = g v" for v using chosen_strong(3) [of g n ps v] assms by simp
  then show ?thesis unfolding resolved_as_def c by (auto split: option.splits)
qed

lemma table_ok_cong: "(\<And>v. v \<in> set ps \<Longrightarrow> f v = g v) \<Longrightarrow> st_rsyms st' = st_rsyms st \<Longrightarrow> table_ok f ps st' = table_ok g ps st"
  using resolved_as_cong [of ps f g] chosen_cong(3) [of ps f g]
  by (simp add: table_ok_def distinct_names_def rsym_of_def find_rsym_def)

section \<open>Merging objects\<close>

definition duplicate_error :: "ccwld_state \<Rightarrow> string \<Rightarrow> nat \<times> nat \<Rightarrow> nat \<times> nat \<Rightarrow> ccwld_error" where
  "duplicate_error st n w v =
     ccwld_error_set CCWLD_EXIT_LINK (duplicate_text n (ob_path (st_objs st ! fst w)) (ob_path (st_objs st ! fst v)))"

definition reports_duplicate :: "ccwld_state \<Rightarrow> (nat \<times> nat) list \<Rightarrow> ccwld_error \<Rightarrow> bool" where
  "reports_duplicate st ps e =
     (\<exists>n w v rest. n \<noteq> [] \<and> strong_definitions (isym_at st) n ps = w # v # rest \<and> e = duplicate_error st n w v)"

lemma strong_append: "strong_definitions f n (ps @ qs) = strong_definitions f n ps @ strong_definitions f n qs"
  by (simp add: strong_definitions_def definitions_def mentions_def)

lemma reports_duplicate_append: "reports_duplicate st ps e \<Longrightarrow> reports_duplicate st (ps @ qs) e"
  by (auto simp: reports_duplicate_def strong_append)

lemma strong_subset: "set (strong_definitions f n ps) \<subseteq> set ps"
  by (auto simp: strong_definitions_def definitions_def mentions_def)

lemma reports_duplicate_kept:
  assumes k: "objs_kept st st1" and rng: "\<And>v. v \<in> set ps \<Longrightarrow> fst v < length (st_objs st)" and r: "reports_duplicate st1 ps e"
  shows "reports_duplicate st ps e"
proof -
  obtain n w v rest where d: "n \<noteq> []" "strong_definitions (isym_at st1) n ps = w # v # rest" "e = duplicate_error st1 n w v"
    using r unfolding reports_duplicate_def by blast
  have "strong_definitions (isym_at st) n ps = w # v # rest"
    using d(2) chosen_cong(3) [of ps "isym_at st1" "isym_at st" n] isym_at_kept [OF k] rng by simp
  moreover have "w \<in> set ps" "v \<in> set ps" using strong_subset [of "isym_at st1" n ps] d(2) by auto
  then have "duplicate_error st1 n w v = duplicate_error st n w v"
    using k rng by (simp add: duplicate_error_def objs_kept_def same_obj_def)
  ultimately show ?thesis using d unfolding reports_duplicate_def by metis
qed

lemma merge_syms_table:
  "table_ok (isym_at st) ps st \<Longrightarrow>
    case merge_syms oi ks st of
      (st', None) \<Rightarrow> table_ok (isym_at st) (ps @ map (Pair oi) ks) st' \<and> st' = st\<lparr>st_rsyms := st_rsyms st'\<rparr>
    | (st', Some e) \<Rightarrow> reports_duplicate st (ps @ map (Pair oi) ks) e"
proof (induction ks arbitrary: ps st)
  case (Cons k ks)
  obtain st1 x where m: "merge_sym oi k st = (st1, x)" by fastforce
  note s = merge_sym_step [OF Cons.prems, of oi k, unfolded isym_at_def [of st "(oi, k)"] m, simplified]
  show ?case
  proof (cases x)
    case None
    with s have t: "table_ok (isym_at st) (ps @ [(oi, k)]) st1" and fr: "st1 = st\<lparr>st_rsyms := st_rsyms st1\<rparr>" by simp_all
    have o: "st_objs st1 = st_objs st" using fr by (metis ccwld_state.select_convs(3) ccwld_state.surjective ccwld_state.update_convs(4))
    then have i: "isym_at st1 = isym_at st" by (simp add: fun_eq_iff isym_at_def)
    have d: "reports_duplicate st1 qs e = reports_duplicate st qs e" for qs e by (simp add: reports_duplicate_def duplicate_error_def i o)
    obtain st2 y where m2: "merge_syms oi ks st1 = (st2, y)" by fastforce
    have fr2: "st2 = st1\<lparr>st_rsyms := st_rsyms st2\<rparr> \<Longrightarrow> st2 = st\<lparr>st_rsyms := st_rsyms st2\<rparr>"
      using fr by (metis ccwld_state.surjective ccwld_state.update_convs(4))
    from Cons.IH [of st1 "ps @ [(oi, k)]"] t m2 fr2
    show ?thesis using None m by (cases y) (simp_all add: i d)
  next
    case (Some e)
    with s obtain w where "sy_name (isym_at st (oi, k)) \<noteq> []"
      "strong_definitions (isym_at st) (sy_name (isym_at st (oi, k))) (ps @ [(oi, k)]) = [w, (oi, k)]"
      "e = duplicate_error st (sy_name (isym_at st (oi, k))) w (oi, k)"
      by (auto simp: duplicate_error_def obj_path_def isym_at_def)
    then have "reports_duplicate st (ps @ [(oi, k)]) e" unfolding reports_duplicate_def by blast
    from reports_duplicate_append [OF this, of "map (Pair oi) ks"] Some m show ?thesis by simp
  qed
qed simp

lemma same_obj_used [simp]: "same_obj ob (ob\<lparr>ob_used := u\<rparr>)" "same_obj ob (ob\<lparr>ob_from_group := u\<rparr>)"
  by (simp_all add: same_obj_def)

text \<open>Merging object \<open>i\<close> after the symbols \<open>ps\<close> of objects that exist.\<close>

lemma merge_object_table:
  assumes "table_ok (isym_at st) ps st" "\<And>v. v \<in> set ps \<Longrightarrow> fst v < length (st_objs st)"
    and "ob_kind (st_objs st ! i) \<noteq> ''archive''" "i < length (st_objs st)"
  shows "case merge_object i st of
      (st', None) \<Rightarrow> table_ok (isym_at st') (ps @ obj_syms st i) st' \<and> objs_kept st st' \<and> length (st_objs st') = length (st_objs st)
    | (st', Some e) \<Rightarrow> reports_duplicate st (ps @ obj_syms st i) e"
proof -
  let ?ks = "[0..<length (ob_syms (st_objs st ! i))]"
  have os: "obj_syms st i = map (Pair i) ?ks" using assms(3) by (simp add: obj_syms_def)
  obtain st1 x where m: "merge_syms i ?ks st = (st1, x)" by fastforce
  note s = merge_syms_table [OF assms(1), of i ?ks, unfolded m, folded os, simplified]
  show ?thesis
  proof (cases x)
    case None
    with s have t: "table_ok (isym_at st) (ps @ obj_syms st i) st1" and fr: "st1 = st\<lparr>st_rsyms := st_rsyms st1\<rparr>" by simp_all
    let ?st2 = "upd_obj i (\<lambda>ob. ob\<lparr>ob_used := True\<rparr>) st1"
    have k: "objs_kept st ?st2" by (rule objs_kept_trans [OF objs_kept_rsyms [OF fr] objs_kept_upd_obj]) simp
    have "length (st_objs ?st2) = length (st_objs st1)" by (simp add: upd_obj_def)
    also have "\<dots> = length (st_objs st)" using fr by (metis ccwld_state.select_convs(3) ccwld_state.surjective ccwld_state.update_convs(4))
    finally have len: "length (st_objs ?st2) = length (st_objs st)" .
    have "table_ok (isym_at ?st2) (ps @ obj_syms st i) ?st2 = table_ok (isym_at st) (ps @ obj_syms st i) st1"
      by (rule table_ok_cong) (use isym_at_kept [OF k] assms(2,4) in \<open>auto simp: upd_obj_def dest: obj_syms_fst\<close>)
    with t k len None m show ?thesis by (simp add: merge_object_def)
  qed (use s m in \<open>simp add: merge_object_def\<close>)
qed

lemma merge_objects_table:
  assumes "table_ok (isym_at st) ps st" "\<And>v. v \<in> set ps \<Longrightarrow> fst v < length (st_objs st)"
    and "\<And>i. i \<in> set is \<Longrightarrow> i < length (st_objs st) \<and> ob_kind (st_objs st ! i) \<noteq> ''dso''"
  shows "case merge_objects is st of
      (st', None) \<Rightarrow> table_ok (isym_at st') (ps @ concat (map (obj_syms st) is)) st' \<and> objs_kept st st' \<and> length (st_objs st') = length (st_objs st)
    | (st', Some e) \<Rightarrow> reports_duplicate st (ps @ concat (map (obj_syms st) is)) e"
  using assms
proof (induction "is" arbitrary: ps st)
  case (Cons i "is")
  show ?case
  proof (cases "ob_kind (st_objs st ! i) = ''archive''")
    case True
    then have c: "concat (map (obj_syms st) (i # is)) = concat (map (obj_syms st) is)" by (simp add: obj_syms_def)
    have m: "merge_objects (i # is) st = merge_objects is st" using True by simp
    show ?thesis unfolding c m by (rule Cons.IH) (use Cons.prems in auto)
  next
    case False
    obtain st1 x where m: "merge_object i st = (st1, x)" by fastforce
    note s = merge_object_table [OF Cons.prems(1) Cons.prems(2) False, unfolded m]
    show ?thesis
    proof (cases x)
      case (Some e)
      then show ?thesis using s reports_duplicate_append [of st "ps @ obj_syms st i" e "concat (map (obj_syms st) is)"] m False Cons.prems(3)
        by simp
    next
      case None
      with s Cons.prems(3) have t: "table_ok (isym_at st1) (ps @ obj_syms st i) st1" and k: "objs_kept st st1"
        and l: "length (st_objs st1) = length (st_objs st)" by simp_all
      have o: "obj_syms st1 j = obj_syms st j" if "j \<in> set is" for j using obj_syms_kept [OF k] Cons.prems(3) that by simp
      then have cm: "concat (map (obj_syms st1) is) = concat (map (obj_syms st) is)" by (simp cong: map_cong)
      let ?ps = "ps @ obj_syms st i @ concat (map (obj_syms st) is)"
      have rng: "fst v < length (st_objs st)" if "v \<in> set ?ps" for v
        using that Cons.prems(2) [of v] Cons.prems(3) by (auto dest!: obj_syms_fst)
      have d: "reports_duplicate st1 ?ps e \<Longrightarrow> reports_duplicate st ?ps e" for e
        using reports_duplicate_kept [OF k rng] .
      have p1: "fst v < length (st_objs st1)" if "v \<in> set (ps @ obj_syms st i)" for v
        using that rng [of v] l by auto
      have p2: "j < length (st_objs st1) \<and> ob_kind (st_objs st1 ! j) \<noteq> ''dso''" if "j \<in> set is" for j
        using Cons.prems(3) [of j] that k l by (simp add: objs_kept_def same_obj_def)
      obtain st2 y where m2: "merge_objects is st1 = (st2, y)" by fastforce
      have eq: "merge_objects (i # is) st = (st2, y)" using m m2 False Cons.prems(3) [of i] None by simp
      note ih = Cons.IH [OF t p1 p2, unfolded m2 cm append_assoc]
      show ?thesis
      proof (cases y)
        case None
        then show ?thesis using ih eq l objs_kept_trans [OF k, of st2] by simp
      next
        case (Some e)
        then show ?thesis using ih eq d [of e] by simp
      qed
    qed
  qed
qed simp

section \<open>Archives\<close>

definition merged_ok :: "ccwld_state \<Rightarrow> bool" where
  "merged_ok st = table_ok (isym_at st) (merged_syms st) st"

lemma same_objs:
  assumes "st_objs st1 = st_objs st"
  shows "isym_at st1 = isym_at st \<and> merged_syms st1 = merged_syms st"
proof -
  have "obj_syms st1 = obj_syms st" by (rule ext) (simp only: obj_syms_def assms)
  moreover have "isym_at st1 = isym_at st" by (rule ext) (simp only: isym_at_def assms)
  ultimately show ?thesis by (simp only: merged_syms_def assms)
qed

lemma merged_ok_intern:
  assumes "merged_ok st" "ccwld_state_rsym st n = (st1, i)"
  shows "merged_ok st1" "objs_kept st st1"
proof -
  have t: "table_ok (isym_at st) (merged_syms st) st" using assms(1) by (simp add: merged_ok_def)
  note i = intern [OF table_okD(2) [OF t] assms(2)]
  have o: "objs_kept st st1" "st_objs st1 = st_objs st" using objs_kept_intern [OF assms(2)] by blast+
  then show "objs_kept st st1" by blast
  have "resolved_as (isym_at st) (merged_syms st) m (rsym_of st1 m)" if "m \<noteq> []" for m
    using table_okD(1) [OF t that] i(5) [of m] i(6)
      unmentioned [of "isym_at st" m "merged_syms st"]
    by (auto simp: resolved_as_def new_rsym_def split: option.splits)
  with t i(1) show "merged_ok st1" using same_objs [OF o(2)] by (simp add: merged_ok_def table_ok_def)
qed

lemma merged_ok_extract:
  assumes "merged_ok st" "extract_member aoi midx g st = Some (st', None)"
  shows "merged_ok st' \<and> objs_kept st st'"
proof (cases "am_extracted (ob_members (st_objs st ! aoi) ! midx)")
  case True
  with assms show ?thesis by (simp add: extract_member_def Let_def)
next
  case False
  let ?a = "st_objs st ! aoi"
  let ?m = "ob_members ?a ! midx"
  obtain st1 where l: "ccwld_load_elf_mem (take 511 (ob_path ?a @ ''('' @ am_name ?m @ '')'')) (drop (am_pos ?m) (ob_raw ?a)) (am_size ?m) st = Some (st1, None)"
    and x: "merge_object (length (st_objs st1) - 1)
         (upd_obj (length (st_objs st1) - 1) (\<lambda>ob. ob\<lparr>ob_from_group := g\<rparr>) (set_extracted aoi midx st1)) = (st', None)"
    using assms(2) False by (auto simp: extract_member_def Let_def split: option.splits)
  obtain ob where ob: "st1 = st\<lparr>st_objs := st_objs st @ [ob]\<rparr>" "ob_kind ob \<noteq> ''archive''" using load_elf_adds [OF l] by blast
  let ?i = "length (st_objs st)"
  define st3 where "st3 = upd_obj ?i (\<lambda>ob. ob\<lparr>ob_from_group := g\<rparr>) (set_extracted aoi midx st1)"
  have k1: "objs_kept st st1" using ob(1) by (simp add: objs_kept_def nth_append)
  have k2: "objs_kept st1 st3" unfolding st3_def set_extracted_def
    by (rule objs_kept_trans [OF objs_kept_upd_obj objs_kept_upd_obj]) (simp_all add: same_obj_def)
  note k = objs_kept_trans [OF k1 k2]
  have len: "length (st_objs st3) = Suc ?i" by (simp add: st3_def set_extracted_def upd_obj_def ob(1))
  have kind: "ob_kind (st_objs st3 ! ?i) \<noteq> ''archive''" using k2 ob by (auto simp: objs_kept_def same_obj_def)
  have rs: "st_rsyms st3 = st_rsyms st" by (simp add: st3_def set_extracted_def upd_obj_def ob(1))
  have ms: "merged_syms st3 = merged_syms st @ obj_syms st3 ?i" using merged_syms_kept [OF k] len by simp
  have t: "table_ok (isym_at st3) (merged_syms st) st3"
    using assms(1) table_ok_cong [of "merged_syms st" "isym_at st3" "isym_at st", OF _ rs] isym_at_kept [OF k] merged_syms_range
    by (simp add: merged_ok_def)
  have x3: "merge_object ?i st3 = (st', None)" using x ob(1) by (simp add: st3_def)
  have "table_ok (isym_at st') (merged_syms st @ obj_syms st3 ?i) st' \<and> objs_kept st3 st' \<and> length (st_objs st') = length (st_objs st3)"
    using merge_object_table [OF t _ kind, unfolded x3] merged_syms_range len by (auto simp: less_Suc_eq)
  moreover from this have "merged_syms st' = merged_syms st3" using merged_syms_kept [of st3 st'] by simp
  ultimately show ?thesis using objs_kept_trans [OF k] by (simp add: merged_ok_def ms)
qed

lemma merged_ok_scan_index:
  "merged_ok st \<Longrightarrow> scan_index aoi g syms n st = Some (st', Inr m) \<Longrightarrow> merged_ok st' \<and> objs_kept st st'"
proof (induction aoi g syms n st rule: scan_index.induct)
  case (2 aoi g name midx syms n st)
  obtain st1 i where i: "ccwld_state_rsym st name = (st1, i)" by fastforce
  note o = merged_ok_intern [OF "2.prems"(1) i]
  show ?case
  proof (cases "rs_defined (st_rsyms st1 ! i) \<or> \<not> rs_referenced (st_rsyms st1 ! i) \<or> am_extracted (ob_members (st_objs st1 ! aoi) ! midx)")
    case True
    have "merged_ok st' \<and> objs_kept st1 st'"
      by (rule "2.IH"(1) [OF i [symmetric] refl refl True o(1)]) (use "2.prems"(2) i True in \<open>simp add: Let_def\<close>)
    then show ?thesis using objs_kept_trans [OF o(2)] by blast
  next
    case False
    then obtain st2 where x: "extract_member aoi midx g st1 = Some (st2, None)" and s: "scan_index aoi g syms (Suc n) st2 = Some (st', Inr m)"
      using "2.prems"(2) i by (auto simp: Let_def split: option.splits)
    note e = merged_ok_extract [OF o(1) x]
    have "merged_ok st' \<and> objs_kept st2 st'" using "2.IH"(2) [OF i [symmetric] refl refl False x refl refl] e s by blast
    then show ?thesis using e objs_kept_trans o(2) by blast
  qed
qed simp

lemma merged_ok_rounds:
  "merged_ok st \<Longrightarrow> scan_rounds n aoi g st = Some (st', None) \<Longrightarrow> merged_ok st' \<and> objs_kept st st'"
proof (induction n arbitrary: st)
  case (Suc n)
  obtain st1 m where s: "archive_scan_once aoi g st = Some (st1, Inr m)" and r: "m = 0 \<and> st' = st1 \<or> scan_rounds n aoi g st1 = Some (st', None)"
    using Suc.prems(2) by (auto split: option.splits sum.splits if_splits)
  have "merged_ok st1 \<and> objs_kept st st1" using merged_ok_scan_index [OF Suc.prems(1)] s by (simp add: archive_scan_once_def)
  with r Suc.IH [of st1] show ?case using objs_kept_trans by blast
qed simp

lemma merged_ok_archives:
  "merged_ok st \<Longrightarrow> scan_archives is st = Some (st', None) \<Longrightarrow> merged_ok st' \<and> objs_kept st st'"
proof (induction "is" arbitrary: st)
  case (Cons i "is")
  show ?case
  proof (cases "ob_kind (st_objs st ! i) = ''archive''")
    case True
    then obtain st1 where s: "scan_rounds 64 i (ob_from_group (st_objs st ! i)) st = Some (st1, None)" and r: "scan_archives is st1 = Some (st', None)"
      using Cons.prems(2) by (auto simp: Let_def split: option.splits)
    note m = merged_ok_rounds [OF Cons.prems(1) s]
    with Cons.IH [of st1] r show ?thesis using objs_kept_trans by blast
  qed (use Cons in simp)
qed simp

section \<open>After the archives\<close>

text \<open>Names that the script neither assigns nor overrides.\<close>

definition free_name :: "ccwld_plan \<Rightarrow> string \<Rightarrow> bool" where
  "free_name p n = (n \<notin> sym_name ` set (pl_syms p) \<and> n \<notin> attr_name ` set (pl_attrs p))"

definition entry_kept :: "string \<Rightarrow> ccwld_state \<Rightarrow> ccwld_state \<Rightarrow> bool" where
  "entry_kept n st st' =
     (distinct_names st' \<and> rsym_of st' n = rsym_of st n \<and> objs_kept st st' \<and> length (st_objs st') = length (st_objs st))"

lemma entry_kept_refl: "distinct_names st \<Longrightarrow> entry_kept n st st"
  by (simp add: entry_kept_def)

lemma entry_kept_trans: "entry_kept n st st1 \<Longrightarrow> entry_kept n st1 st2 \<Longrightarrow> entry_kept n st st2"
  using objs_kept_trans by (fastforce simp: entry_kept_def)

lemma entry_kept_update:
  assumes "distinct_names st" "ccwld_state_rsym st m = (st1, i)" "m \<noteq> n" "\<And>r. rs_name (g r) = rs_name r"
  shows "entry_kept n st (upd_rsym i g st1)" "entry_kept n st st1"
proof -
  note u = intern_update [OF assms(1,2), of g, OF assms(4)]
  from u(1,5) assms(3) objs_kept_rsyms [OF u(6)] show "entry_kept n st (upd_rsym i g st1)"
    using arg_cong [OF u(6), of "\<lambda>s. length (st_objs s)"] by (simp add: entry_kept_def)
  note i = intern [OF assms(1,2)]
  from i(1,5) assms(3) objs_kept_intern [OF assms(2)] show "entry_kept n st st1" by (simp add: entry_kept_def)
qed

lemma apply_attr_kept:
  assumes "distinct_names st" "attr_name a \<noteq> n"
  shows "entry_kept n st (apply_attr a st)"
proof (cases "attr_visibility a = None \<and> attr_binding a = None")
  case True
  then show ?thesis using assms by (simp add: apply_attr_def entry_kept_refl)
next
  case False
  obtain st1 i where i: "ccwld_state_rsym st (attr_name a) = (st1, i)" by fastforce
  show ?thesis
    using entry_kept_update(1) [OF assms(1) i assms(2)] False i
    by (auto simp: apply_attr_def Let_def split: option.split)
qed

lemma apply_attrs_kept:
  "distinct_names st \<Longrightarrow> n \<notin> attr_name ` set as \<Longrightarrow> entry_kept n st (fold apply_attr as st)"
proof (induction as arbitrary: st)
  case (Cons a as)
  have k: "entry_kept n st (apply_attr a st)" using Cons.prems by (intro apply_attr_kept) auto
  then have "entry_kept n (apply_attr a st) (fold apply_attr as (apply_attr a st))"
    using Cons.prems by (intro Cons.IH) (auto simp: entry_kept_def)
  with k show ?case using entry_kept_trans by simp
qed (simp add: entry_kept_refl)

lemma apply_script_kept:
  assumes "distinct_names st" "sym_name (pl_syms (st_plan st) ! i) \<noteq> n" "apply_script_symbol i st = (st', None)"
  shows "entry_kept n st st'"
proof -
  obtain st1 j where j: "ccwld_state_rsym st (sym_name (pl_syms (st_plan st) ! i)) = (st1, j)" by fastforce
  note k = entry_kept_update [OF assms(1) j assms(2)]
  show ?thesis using assms(3) j k unfolding apply_script_symbol_def by (auto simp: Let_def split: if_splits)
qed

lemma apply_script_list_kept:
  assumes "\<forall>i \<in> set is. i < length (pl_syms (st_plan st))" "n \<notin> sym_name ` set (pl_syms (st_plan st))"
  shows "distinct_names st \<Longrightarrow> apply_script_list is st = (st', None) \<Longrightarrow> entry_kept n st st'"
  using assms
proof (induction "is" arbitrary: st)
  case (Cons i "is")
  obtain st1 where s: "apply_script_symbol i st = (st1, None)" and r: "apply_script_list is st1 = (st', None)"
    using Cons.prems(2) by (auto split: prod.splits option.splits)
  have k: "entry_kept n st st1" by (rule apply_script_kept [OF Cons.prems(1) _ s]) (use Cons.prems(3,4) in auto)
  then have "entry_kept n st1 st'"
    by (intro Cons.IH [OF _ r]) (use Cons.prems(3,4) in \<open>auto simp: entry_kept_def objs_kept_def\<close>)
  with k show ?case by (rule entry_kept_trans)
qed (simp add: entry_kept_refl)

text \<open>Pruning changes no symbol: it looks for symbols won by an object that has won none.\<close>

lemma prune_dso_rsyms: "st_rsyms (prune_dso i st) = st_rsyms st"
proof -
  have "map (\<lambda>r. if won_by i r then g r else r) (st_rsyms st) = st_rsyms st" if "\<not> list_ex (won_by i) (st_rsyms st)" for g
    using that by (induction "st_rsyms st") (auto intro!: map_idI simp: list_ex_iff)
  then show ?thesis by (simp add: prune_dso_def Let_def)
qed

lemma prune_kept: "objs_kept st (prune_dso i st) \<and> length (st_objs (prune_dso i st)) = length (st_objs st)"
  using objs_kept_upd_obj [of "\<lambda>ob. ob\<lparr>ob_used := False\<rparr>" st i]
  by (auto simp: prune_dso_def Let_def objs_kept_def upd_obj_def)

lemma prune_all_kept:
  "st_rsyms (fold prune_dso is st) = st_rsyms st \<and> objs_kept st (fold prune_dso is st) \<and> length (st_objs (fold prune_dso is st)) = length (st_objs st)"
proof (induction "is" arbitrary: st)
  case (Cons i "is")
  show ?case using Cons.IH [of "prune_dso i st"] prune_dso_rsyms [of i st] prune_kept [of st i] objs_kept_trans by fastforce
qed simp

section \<open>Undefined symbols\<close>

definition undefined_strong :: "ccwld_rsym \<Rightarrow> bool" where
  "undefined_strong r = (rs_referenced r \<and> \<not> rs_defined r \<and> \<not> rs_weak r)"

definition settled :: "ccwld_rsym \<Rightarrow> ccwld_rsym" where
  "settled r = (if rs_referenced r \<and> \<not> rs_defined r \<and> rs_weak r then r\<lparr>rs_value := 0, rs_value_known := True\<rparr> else r)"

lemma diag_fields [simp]:
  "st_rsyms (ccwld_diag_error c n s m st) = st_rsyms st" "st_objs (ccwld_diag_error c n s m st) = st_objs st"
  "st_plan (ccwld_diag_error c n s m st) = st_plan st"
  "st_undefined_strong (ccwld_diag_error c n s m st) = st_undefined_strong st"
  "st_rsyms (ccwld_diag_warn n s m st) = st_rsyms st" "st_objs (ccwld_diag_warn n s m st) = st_objs st"
  "st_plan (ccwld_diag_warn n s m st) = st_plan st"
  by (simp_all add: ccwld_diag_error_def ccwld_diag_warn_def diag_push_def Let_def)

lemma settle_symbol_effect:
  "i < length (st_rsyms st) \<Longrightarrow> st_rsyms (settle_symbol i st) = (st_rsyms st)[i := settled (st_rsyms st ! i)]
     \<and> st_objs (settle_symbol i st) = st_objs st \<and> st_plan (settle_symbol i st) = st_plan st
     \<and> st_undefined_strong (settle_symbol i st) = st_undefined_strong st + (if undefined_strong (st_rsyms st ! i) then 1 else 0)"
  by (simp add: settle_symbol_def settled_def undefined_strong_def upd_rsym_def Let_def)

lemma settle_effect:
  "n \<le> length (st_rsyms st) \<Longrightarrow>
     st_rsyms (fold settle_symbol [0..<n] st) = map settled (take n (st_rsyms st)) @ drop n (st_rsyms st)
     \<and> st_objs (fold settle_symbol [0..<n] st) = st_objs st \<and> st_plan (fold settle_symbol [0..<n] st) = st_plan st
     \<and> st_undefined_strong (fold settle_symbol [0..<n] st) = st_undefined_strong st + length (filter undefined_strong (take n (st_rsyms st)))"
proof (induction n)
  case (Suc n)
  let ?s = "fold settle_symbol [0..<n] st"
  have n: "n < length (st_rsyms st)" using Suc.prems by simp
  note ih = Suc.IH [OF less_imp_le [OF n]]
  have at: "st_rsyms ?s ! n = st_rsyms st ! n" "n < length (st_rsyms ?s)" using ih n by (simp_all add: nth_append)
  have "drop n (st_rsyms st) = st_rsyms st ! n # drop (Suc n) (st_rsyms st)" using n by (simp add: Cons_nth_drop_Suc)
  then show ?case using ih settle_symbol_effect [OF at(2)] at(1) n by (simp add: take_Suc_conv_app_nth list_update_append)
qed simp

lemma settle_undefined_effect:
  "st_rsyms (settle_undefined st) = map settled (st_rsyms st)" "st_objs (settle_undefined st) = st_objs st"
  "st_plan (settle_undefined st) = st_plan st"
  "st_undefined_strong (settle_undefined st) = length (filter undefined_strong (st_rsyms st))"
  using settle_effect [of "length (st_rsyms st)" "st\<lparr>st_undefined_strong := 0\<rparr>"] by (simp_all add: settle_undefined_def)

lemma settled_name [simp]: "rs_name (settled r) = rs_name r"
  by (simp add: settled_def)

lemma settled_names [simp]: "rs_name \<circ> settled = rs_name"
  by (simp add: fun_eq_iff)

lemma settled_lookup:
  assumes "st_rsyms st' = map settled (st_rsyms st)"
  shows "rsym_of st' n = map_option settled (rsym_of st n)"
proof -
  have "rs_name (settled r) = rs_name r" for r by (simp add: settled_def)
  then have "find_rsym st' n = find_rsym st n"
    unfolding find_rsym_def find_index_def assms by (auto intro: find_cong)
  then show ?thesis using assms by (auto simp: rsym_of_def map_option.compositionality comp_def dest!: find_rsym_Some intro!: map_option_cong)
qed

lemma finish_lookup:
  assumes "distinct_names st" "finish_resolve st = (st', None)" "free_name (st_plan st) n"
  shows "objs_kept st st' \<and> length (st_objs st') = length (st_objs st)
    \<and> (\<forall>r. rsym_of st n = Some r \<longrightarrow> \<not> undefined_strong r \<and> rsym_of st' n = Some (settled r))"
proof -
  let ?a = "apply_attr_overrides st"
  obtain st1 where s: "apply_script_symbols ?a = (st1, None)"
    using assms(2) by (auto simp: finish_resolve_def split: prod.splits option.splits)
  define st2 where "st2 = fold prune_dso [0..<length (st_objs st1)] st1"
  define st3 where "st3 = settle_undefined st2"
  have z: "st_undefined_strong st3 = 0" and e: "st' = check_entry st3"
    using assms(2) s by (auto simp: finish_resolve_def st2_def st3_def Let_def split: if_splits)
  have k1: "entry_kept n st ?a" unfolding apply_attr_overrides_def
    by (rule apply_attrs_kept [OF assms(1)]) (use assms(3) in \<open>simp add: free_name_def\<close>)
  have k2: "entry_kept n ?a st1"
    by (rule apply_script_list_kept [OF _ _ _ s [unfolded apply_script_symbols_def]])
      (use assms(3) k1 in \<open>auto simp: free_name_def entry_kept_def objs_kept_def\<close>)
  note k = entry_kept_trans [OF k1 k2]
  note p = prune_all_kept [of "[0..<length (st_objs st1)]" st1, folded st2_def]
  note f = settle_undefined_effect [of st2, folded st3_def]
  have "objs_kept st st3" using k p f(2,3) objs_kept_trans by (auto simp: entry_kept_def objs_kept_def same_obj_def)
  moreover have "objs_kept st3 st'" "length (st_objs st') = length (st_objs st3)"
    unfolding e check_entry_def using objs_kept_intern
    by (auto simp: objs_kept_def split: option.split prod.split if_split)
  moreover have "length (st_objs st3) = length (st_objs st)" using k p f(2) by (simp add: entry_kept_def)
  moreover have "\<not> undefined_strong r \<and> rsym_of st' n = Some (settled r)" if r: "rsym_of st n = Some r" for r
  proof -
    have l: "rsym_of st2 n = Some r" using k p r by (simp add: entry_kept_def rsym_of_def find_rsym_def)
    have d2: "distinct_names st2" using k p by (simp add: entry_kept_def distinct_names_def)
    have "r \<in> set (st_rsyms st2)" using l rsym_of_Some [OF d2] by blast
    then have u: "\<not> undefined_strong r" using z f(4) by (auto simp: filter_empty_conv)
    have l3: "rsym_of st3 n = Some (settled r)" using settled_lookup [OF f(1)] l by simp
    have d3: "distinct_names st3" using d2 f(1) by (simp add: distinct_names_def)
    have "rsym_of st' n = Some (settled r)"
    proof (cases "out_entry (st_plan st3) = None \<or> out_entry (st_plan st3) = Some []")
      case True
      then show ?thesis using l3 e by (auto simp: check_entry_def)
    next
      case False
      then obtain m where m: "out_entry (st_plan st3) = Some m" "m \<noteq> []" by auto
      obtain st4 i where i: "ccwld_state_rsym st3 m = (st4, i)" by fastforce
      have "rsym_of st4 n = Some (settled r)" using intern(5,6) [OF d3 i] l3 by auto
      moreover have "st_rsyms st' = st_rsyms st4" using e m i by (simp add: check_entry_def Let_def)
      ultimately show ?thesis by (simp add: rsym_of_def find_rsym_def)
    qed
    with u show ?thesis by blast
  qed
  ultimately show ?thesis using objs_kept_trans by auto
qed

section \<open>The phase\<close>

definition no_shared_objects :: "ccwld_state \<Rightarrow> bool" where
  "no_shared_objects st = list_all (\<lambda>ob. ob_kind ob \<noteq> ''dso'') (st_objs st)"

lemma merge_inputs:
  assumes "st_rsyms st = []" "no_shared_objects st"
  shows "case merge_objects [0..<length (st_objs st)] st of
      (st', None) \<Rightarrow> merged_ok st' \<and> objs_kept st st' \<and> merged_syms st' = merged_syms st
    | (st', Some e) \<Rightarrow> reports_duplicate st (merged_syms st) e"
proof -
  have t: "table_ok (isym_at st) [] st"
    using assms(1) by (simp add: table_ok_def distinct_names_def resolved_as_def rsym_of_def find_rsym_def find_index_def chosen_defs)
  obtain st1 x where m: "merge_objects [0..<length (st_objs st)] st = (st1, x)" by fastforce
  note r = merge_objects_table [OF t, of "[0..<length (st_objs st)]", unfolded m, folded merged_syms_def, simplified]
  have "i < length (st_objs st) \<Longrightarrow> ob_kind (st_objs st ! i) \<noteq> ''dso''" for i
    using assms(2) by (simp add: no_shared_objects_def list_all_length)
  with r merged_syms_kept [of st st1] show ?thesis using m by (cases x) (simp_all add: merged_ok_def merged_syms_def [symmetric])
qed

lemma resolve_phase:
  assumes "st_rsyms st = []" "no_shared_objects st" "ccwld_phase_resolve st = Some (st', None)" "n \<noteq> []"
    and "free_name (st_plan st) n"
  shows "length (strong_definitions (isym_at st') n (merged_syms st')) \<le> 1"
    "mentions (isym_at st') n (merged_syms st') \<noteq> [] \<Longrightarrow>
       \<exists>v r. chosen (isym_at st') n (merged_syms st') = Some v \<and> rsym_of st' n = Some r \<and> rs_defined r \<and> \<not> rs_from_script r
         \<and> rs_obj r = int (fst v) \<and> rs_isym r = int (snd v)"
    "objs_kept st st'"
proof -
  obtain st1 where m: "merge_objects [0..<length (st_objs st)] st = (st1, None)"
    using assms(3) by (auto simp: ccwld_phase_resolve_def Let_def split: prod.splits option.splits)
  then obtain st2 where a: "scan_archives [0..<length (st_objs st)] st1 = Some (st2, None)" and f: "finish_resolve st2 = (st', None)"
    using assms(3) by (auto simp: ccwld_phase_resolve_def Let_def split: option.splits)
  have m1: "merged_ok st1" "objs_kept st st1" using merge_inputs [OF assms(1,2)] m by simp_all
  have m2: "merged_ok st2" "objs_kept st1 st2" using merged_ok_archives [OF m1(1) a] by blast+
  have t: "table_ok (isym_at st2) (merged_syms st2) st2" using m2(1) by (simp add: merged_ok_def)
  have fr: "free_name (st_plan st2) n" using assms(5) m1(2) m2(2) by (simp add: objs_kept_def)
  note l = finish_lookup [OF table_okD(2) [OF t] f fr]
  have ms: "merged_syms st' = merged_syms st2" using merged_syms_kept [of st2 st'] l by simp
  have c: "strong_definitions (isym_at st') n (merged_syms st') = strong_definitions (isym_at st2) n (merged_syms st2)"
    "mentions (isym_at st') n (merged_syms st') = mentions (isym_at st2) n (merged_syms st2)"
    "chosen (isym_at st') n (merged_syms st') = chosen (isym_at st2) n (merged_syms st2)"
    unfolding ms using chosen_cong [of "merged_syms st2" "isym_at st'" "isym_at st2" n] isym_at_kept [of st2 st'] l merged_syms_range by blast+
  show "length (strong_definitions (isym_at st') n (merged_syms st')) \<le> 1" using table_okD(3) [OF t assms(4)] c by simp
  show "objs_kept st st'" using m1(2) m2(2) l objs_kept_trans by blast
  assume "mentions (isym_at st') n (merged_syms st') \<noteq> []"
  then have me: "mentions (isym_at st2) n (merged_syms st2) \<noteq> []" using c by simp
  then obtain r where r: "rsym_of st2 n = Some r" and ra: "resolved_as (isym_at st2) (merged_syms st2) n (Some r)"
    using table_okD(1) [OF t assms(4)] by (cases "rsym_of st2 n") (auto simp: resolved_as_def)
  have u: "\<not> undefined_strong r" "rsym_of st' n = Some (settled r)" using l r by blast+
  obtain v where v: "chosen (isym_at st2) n (merged_syms st2) = Some v"
    using ra me u(1) by (cases "chosen (isym_at st2) n (merged_syms st2)") (auto simp: resolved_as_def undefined_strong_def)
  with ra have d: "rs_defined r" "rs_obj r = int (fst v)" "rs_isym r = int (snd v)" "\<not> rs_from_script r"
    by (auto simp: resolved_as_def)
  then have "settled r = r" by (simp add: settled_def)
  with u(2) v d c show "\<exists>v r. chosen (isym_at st') n (merged_syms st') = Some v \<and> rsym_of st' n = Some r \<and> rs_defined r \<and> \<not> rs_from_script r
         \<and> rs_obj r = int (fst v) \<and> rs_isym r = int (snd v)" by auto
qed

text \<open>Two strong definitions of a name in the inputs are reported, with the first two that there are.\<close>

lemma resolve_duplicates:
  assumes "st_rsyms st = []" "no_shared_objects st" "n \<noteq> []" "length (strong_definitions (isym_at st) n (merged_syms st)) \<ge> 2"
  shows "\<exists>st' e. ccwld_phase_resolve st = Some (st', Some e) \<and> reports_duplicate st (merged_syms st) e"
proof -
  obtain st1 x where m: "merge_objects [0..<length (st_objs st)] st = (st1, x)" by fastforce
  note r = merge_inputs [OF assms(1,2), unfolded m]
  show ?thesis
  proof (cases x)
    case None
    with r have o: "merged_ok st1" and k: "objs_kept st st1" and ms: "merged_syms st1 = merged_syms st"
      by simp_all
    note t = o [unfolded merged_ok_def]
    have "strong_definitions (isym_at st1) n (merged_syms st) = strong_definitions (isym_at st) n (merged_syms st)"
      by (rule chosen_cong(3)) (use isym_at_kept [OF k] merged_syms_range in blast)
    then show ?thesis using table_okD(3) [OF t assms(3)] assms(4) ms by simp
  qed (use r m in \<open>simp add: ccwld_phase_resolve_def Let_def\<close>)
qed

end
