(* ===== verification/Ccwld_Load_Props.thy ===== *)
theory Ccwld_Load_Props
  imports Ccwld_Resolve_Phase Ccwld_Demo
begin

text \<open>The properties of loading and symbol resolution, each with an application to an example.\<close>

section \<open>Examples\<close>




definition empty_link :: ccwld_state where
  "empty_link = ccwld_state_new (demo_plan [])"

text \<open>A weak definition of \<open>f\<close>, a strong one behind it, and a strong one more.\<close>

definition demo_isym :: "string \<Rightarrow> int \<Rightarrow> int \<Rightarrow> ccwld_isym" where
  "demo_isym n b i = \<lparr>sy_name = n, sy_binding = b, sy_visibility = 0, sy_shndx = i, sy_value = 0, sy_size = 0, sy_obj = 0\<rparr>"

definition demo_defs :: "ccwld_isym list list \<Rightarrow> ccwld_state" where
  "demo_defs ss = empty_link\<lparr>st_objs := map (\<lambda>s. (new_obj ''p'' ''object'' ''elf64'')\<lparr>ob_syms := s\<rparr>) ss\<rparr>"

definition demo_weak_strong :: ccwld_state where
  "demo_weak_strong = demo_defs [[demo_isym ''f'' 1 0, demo_isym ''g'' 1 1], [demo_isym ''f'' 2 1], [demo_isym ''f'' 1 1]]"

definition demo_twice :: ccwld_state where
  "demo_twice = demo_defs [[demo_isym ''f'' 1 1], [demo_isym ''f'' 2 1], [demo_isym ''f'' 1 1]]"

section \<open>Loading\<close>




section \<open>Symbol resolution\<close>

text \<open>C13: When resolution succeeds without shared objects, no name has two strong definitions among the merged
  objects, and every name that they mention, if the script neither assigns nor overrides it, is resolved to its
  first strong definition in link order, else to its first weak one.\<close>

theorem resolve_first_strong:
  assumes "st_rsyms st = []" "no_shared_objects st" "ccwld_phase_resolve st = Some (st', None)" "n \<noteq> []"
    and "free_name (st_plan st) n"
  shows "objs_kept st st' \<and> length (strong_definitions (isym_at st') n (merged_syms st')) \<le> 1
    \<and> (mentions (isym_at st') n (merged_syms st') \<noteq> [] \<longrightarrow>
       (\<exists>v r. chosen (isym_at st') n (merged_syms st') = Some v \<and> rsym_of st' n = Some r \<and> rs_defined r \<and> \<not> rs_from_script r
         \<and> rs_obj r = int (fst v) \<and> rs_isym r = int (snd v)))"
  using resolve_phase [OF assms] by blast

theorem resolve_first_strong_witness:
  "\<exists>r. rsym_of (fst (the (ccwld_phase_resolve demo_weak_strong))) ''f'' = Some r \<and> rs_defined r \<and> rs_obj r = 2"
proof -
  let ?st = "fst (the (ccwld_phase_resolve demo_weak_strong))"
  let ?in = demo_weak_strong
  have a: "st_rsyms ?in = []" "no_shared_objects ?in" "free_name (st_plan ?in) ''f''"
    "mentions (isym_at ?in) ''f'' (merged_syms ?in) \<noteq> []" "chosen (isym_at ?in) ''f'' (merged_syms ?in) = Some (2, 0)"
    by code_simp+
  have "map_option (\<lambda>(st', e). (length (st_objs st'), e)) (ccwld_phase_resolve ?in) = Some (length (st_objs ?in), None)" by code_simp
  then have l: "length (st_objs ?st) = length (st_objs ?in)" and r: "ccwld_phase_resolve ?in = Some (?st, None)" by auto
  note t = resolve_first_strong [OF a(1,2) r _ a(3)]
  have k: "objs_kept ?in ?st" using t by simp
  have m: "merged_syms ?st = merged_syms ?in" using merged_syms_kept [OF k] l by simp
  have "mentions (isym_at ?st) ''f'' (merged_syms ?in) = mentions (isym_at ?in) ''f'' (merged_syms ?in)"
    "chosen (isym_at ?st) ''f'' (merged_syms ?in) = chosen (isym_at ?in) ''f'' (merged_syms ?in)"
    by (rule chosen_cong; use isym_at_kept [OF k] merged_syms_range in blast)+
  with t a(4,5) m show ?thesis by auto
qed

text \<open>C27: Two strong definitions of a name in the input objects make the phase fail, with a report that names the
  symbol and the objects of its first two strong definitions.\<close>

theorem duplicate_symbols_reported:
  assumes "st_rsyms st = []" "no_shared_objects st" "n \<noteq> []"
    and "length (strong_definitions (isym_at st) n (merged_syms st)) \<ge> 2"
  shows "\<exists>st' e. ccwld_phase_resolve st = Some (st', Some e) \<and> reports_duplicate st (merged_syms st) e"
  by (rule resolve_duplicates [OF assms])

theorem duplicate_symbols_reported_witness:
  "\<exists>st' e. ccwld_phase_resolve demo_twice = Some (st', Some e) \<and> reports_duplicate demo_twice (merged_syms demo_twice) e"
proof -
  have "st_rsyms demo_twice = []" "no_shared_objects demo_twice"
    "strong_definitions (isym_at demo_twice) ''f'' (merged_syms demo_twice) = [(0, 0), (2, 0)]" by code_simp+
  then show ?thesis using duplicate_symbols_reported [of demo_twice "''f''"] by simp
qed

end
