(* ===== verification/Spec2Isabelle.thy ===== *)
theory Spec2Isabelle
  imports IR_Props Sched_Props Oeuph_Props Ccwld_Props Ccwld_Load_Props
begin

text \<open>
  Verification library for CCWeave, a compiler tool kit around the Weave IR.

  The program. \<open>src/ir\<close> keeps a module of functions, blocks and instructions as a table of nodes addressed
  by number, with an API to build, inspect and change it, two profiles (Tilly for static, On1x for dynamic
  languages) and a validator. \<open>src/oeuph\<close> rewrites a module in place by equality saturation: each
  instruction becomes an e-graph, the rules of a ruleset file add equal terms, and the cheapest term is
  written back through the IR API. \<open>src/sched\<close> reads the manifests of kernels and rulesets, builds a plan
  (a graph of kernel, rewrite and barrier nodes), seals it into a text with a SHA-256 hash, checks stored
  plans against the manifests and runs them: a rewrite node calls Oeuph, a kernel node the Scheme executor.
  \<open>src/tools/ccw-manifest\<close> writes the manifests the scheduler reads. \<open>src/toolchain/ccwld\<close> is the linker: a plan
  (memory regions, output sections with selectors, symbol assignments whose expressions are evaluated late)
  is built by a front end; the phases then load objects, resolve symbols, drop dead sections, lay the rest
  out, apply the relocations and write the output.

  The theories, by part.
  \<^item> Shared: \<open>Prelude\<close> (list and option lemmas, the locale \<open>state_machine\<close> for reachable states),
    \<open>CStrings\<close> (the parts of the C string library the sources call, decimal numbers and their scanning).
  \<^item> IR (\<open>ir/ccw_ir.c\<close>, \<open>ccw_ir_validate.c\<close>, \<open>tilly\<close>, \<open>on1x\<close>): \<open>IR_Types\<close> the enumerations and their names;
    \<open>IR_Core\<close> the node record, the module record \<open>ccw_ir\<close> and the construction API; \<open>IR_Nav\<close> navigation and
    control flow; \<open>IR_Edit\<close> replace, insert, delete and merge; \<open>IR_Equal\<close> structural equality;
    \<open>IR_Profiles\<close> and \<open>IR_Validate\<close>. \<open>IR_Heap\<close> states the node table as the locale \<open>node_table\<close> and
    interprets it on the model; \<open>IR_Wf\<close>, \<open>IR_Inv\<close>, \<open>IR_Moves\<close>, \<open>IR_Blocks\<close> prove that every operation
    keeps the invariant \<open>wf_ir\<close>, \<open>IR_Machine\<close> makes them one step relation; \<open>IR_Flow\<close> relates predecessors
    and successors, \<open>IR_Valid\<close> the validator and its declarative rules, \<open>IR_Ids\<close> the stability of ids;
    \<open>IR_Demo\<close> and \<open>IR_Props\<close> hold the examples and the properties.
  \<^item> Scheduler (\<open>sched/sched.c\<close>): \<open>Sched_Manifest\<close> loading and indexes, \<open>Sched_Plan\<close> nodes, edges, barriers
    and sealing, \<open>Sched_Text\<close> the plan reader, \<open>Sched_Exec\<close> execution, \<open>Sched_Check\<close> the drift check,
    \<open>SHA256\<close> the hash. \<open>Sched_Index\<close>, \<open>Sched_Wf\<close>, \<open>Sched_Machine\<close> hold the invariant and the step
    relation; \<open>Sched_Graph\<close> is the locale \<open>ready_picker\<close> of topological selection, interpreted on the cycle
    check (\<open>Sched_Acyclic\<close>) and on the executor (\<open>Sched_Run\<close>); \<open>Sched_Round\<close>, \<open>Sched_Spec\<close>,
    \<open>Sched_Frame\<close>, \<open>SHA256_Proof\<close> prove the text round trip, the barrier and capability specifications and
    the equality with the SHA-256 standard; \<open>Sched_Demo\<close>, \<open>Sched_Props\<close>.
  \<^item> Manifest generator (\<open>tools/ccw-manifest\<close>): \<open>Manifest_Tool\<close>; \<open>Manifest_Load\<close> shows that what it writes
    loads back.
  \<^item> Oeuph (\<open>oeuph\<close>): \<open>Oeuph_Egraph\<close> the e-graph, \<open>Oeuph_Pattern\<close> patterns, rulesets and their files,
    \<open>Oeuph_Match\<close> matching, instantiation and extraction, \<open>Oeuph_Run\<close> the bridge to the IR, saturation and
    \<open>ccw_oeuph_run\<close>. \<open>Oeuph_Find\<close> gives the representative of an e-node, \<open>Oeuph_Rebuild\<close> the congruence
    closure, \<open>Oeuph_Rooms\<close> the locale \<open>egraph_property\<close> and the sizes of the allocations, \<open>Oeuph_Sem\<close>,
    \<open>Oeuph_Sound\<close>, \<open>Oeuph_Saturate\<close> the values of terms and that valid rules keep them, \<open>Oeuph_Extract\<close>
    optimality, \<open>Oeuph_View\<close>, \<open>Oeuph_Preserve\<close>, \<open>Oeuph_Meaning\<close> that the rewritten module computes the same
    values, \<open>Oeuph_Parse\<close> the pattern grammar; \<open>Oeuph_Demo\<close>, \<open>Oeuph_Props\<close>.
  \<^item> Linker (\<open>toolchain/ccwld/expr\<close>, \<open>phases\<close>): \<open>Ccwld_Expr\<close> the plan records and the expression evaluator,
    \<open>Ccwld_State\<close> the state shared by the phases, \<open>Ccwld_Load\<close> the ELF and archive loader, \<open>Ccwld_Resolve\<close>
    symbol resolution, \<open>Ccwld_Glob\<close> selector patterns, \<open>Ccwld_Gc\<close> dead-section
    elimination, \<open>Ccwld_Layout\<close> placement and symbol values, \<open>Ccwld_Relocate\<close> relocation. \<open>Ccwld_Words\<close> holds
    facts on words, \<open>Ccwld_Eval\<close> the value of an expression as a relation and what the marks do, \<open>Ccwld_Glob\<close>
    the language of a pattern, \<open>Ccwld_Gc_Proof\<close> reachability, \<open>Ccwld_Layout_Proof\<close> that placement is
    complete and without overlap, \<open>Ccwld_Reloc_Proof\<close> the fields of the three machines and
    \<open>Ccwld_Reloc_Phase\<close> the independence of relocations, \<open>Ccwld_Load_Proof\<close> what a loaded object holds,
    \<open>Ccwld_Resolve_Proof\<close> and \<open>Ccwld_Resolve_Phase\<close> which definition a name is bound to; \<open>Ccwld_Demo\<close>,
    \<open>Ccwld_Props\<close>, \<open>Ccwld_Load_Props\<close>.

  How the state corresponds. A node handle is a natural number, 0 the invalid one; the table is the list
  \<open>m_nodes\<close>, a freed entry keeps its place as \<open>CCW_NODE_DEAD\<close>. Status codes are the datatype \<open>ccw_status\<close>; a
  function with an out parameter returns a sum. 64-bit constants and the bits of doubles are \<open>64 word\<close>. The
  scheduler is the record \<open>ccw_sched\<close> with its hash maps as functions to options. E-graph indices are
  natural numbers, -1 is \<open>None\<close>; as \<open>eg_find\<close> shortens paths, all functions on e-graphs return the graph.
  The linker's phases take and return the record \<open>ccwld_state\<close>, with the error if there is one; addresses
  are \<open>64 word\<close>, contents byte lists, pointers to sections and symbols indices.

  Loops and bounds. Most loops are structural. \<open>find_loop\<close> has the length of the parent array as its bound
  (a parent is never larger than its child); \<open>rebuild_loop\<close> has one round more than there are e-nodes and
  \<open>rebuild_congruence_closure\<close> shows more rounds change nothing; matching and instantiation have the depth
  65, as the children of a parsed pattern node have larger indices among at most 64. \<open>merge_loop\<close> (a merge
  of a block with itself does not return) and \<open>extract_loop\<close> are partial functions to options, and
  \<open>block_merge_spec\<close>, \<open>block_merge_self_diverges\<close>, \<open>extraction_optimal\<close> say when they return. The cycle
  check and the executor run as many rounds as there are nodes. The linker's \<open>eval_inner\<close> may nest as deep
  as the plan has symbols, since a symbol in evaluation is marked (\<open>expression_evaluation\<close>), and \<open>mark_sec\<close>
  as deep as there are sections, since each call marks one (\<open>gc_keeps_reachable\<close>).

  Parameters. The Scheme executor and the rewriter are parameters of plan execution, the clock and the
  S-expression library (a submodule that is not in the repository) of Oeuph, and the file system is a
  function from paths to contents. Hypotheses on them are stated in the theorems that need them.

  Not modelled. Failing allocations and the freeing of memory; the overflow of the \<open>int\<close> costs in
  extraction; the IR printer and parser (the latter needs the absent library mpc); the Lua binding and the
  command-line drivers; the Scheme kernels; the bridge to s7; the linker's LTO phase,
  plan builders, front ends, cache and output writers; the separate compilers, interpreters, assembler and
  make tool of the repository.
\<close>

end
